(* ===== verification/Prelude.thy ===== *)
theory Prelude
  imports Main "HOL-Library.Word" "HOL-Library.Monad_Syntax"
begin

text \<open>
  What the component theories share: the types that stand for the C program's integers,
  buffers and strings, bounds-checked memory accesses, and the parts of the C library the
  sources call (character classes, \<open>strchr\<close>, \<open>strstr\<close>, \<open>strtol\<close>, decimal and hexadecimal
  printing).

  Conventions.  An \<open>option\<close> around a result is a memory fault: \<open>None\<close> when the C code would
  read or write outside an object, or would not return.  A pointer that may be \<open>NULL\<close> is an
  \<open>option\<close> of what it points to.  A \<open>char *\<close> cursor into a text is the text from the cursor
  to the terminating zero.  Bytes are \<open>8 word\<close>; a buffer is the list of its bytes.
\<close>

unbundle bit_operations_syntax

named_theorems mem_simps "accesses to buffers"
named_theorems cstr_simps "the C string functions"

type_synonym byte = "8 word"
type_synonym bytes = "byte list"
type_synonym cursor = "string option"

section \<open>Machine integers\<close>

text \<open>The value of an \<open>int\<close> after a conversion from a wider or unsigned integer.\<close>

definition int32 :: "int \<Rightarrow> int" where
  "int32 z = (z + 2147483648) mod 4294967296 - 2147483648"

definition in_int32 :: "int \<Rightarrow> bool" where
  "in_int32 z \<longleftrightarrow> - 2147483648 \<le> z \<and> z \<le> 2147483647"

lemma int32_in [simp, intro]: "in_int32 (int32 z)"
  unfolding int32_def in_int32_def
  by (smt (verit) pos_mod_bound pos_mod_sign)

lemma int32_id [simp]: "in_int32 z \<Longrightarrow> int32 z = z"
  unfolding int32_def in_int32_def by (simp add: mod_pos_pos_trivial)

text \<open>C division and remainder by a positive divisor: truncated towards zero.\<close>

definition cdiv :: "int \<Rightarrow> int \<Rightarrow> int" where
  "cdiv a b = (if a < 0 then - ((- a) div b) else a div b)"

definition cmod :: "int \<Rightarrow> int \<Rightarrow> int" where
  "cmod a b = (if a < 0 then - ((- a) mod b) else a mod b)"

text \<open>The conversion of an \<open>int\<close> to \<open>unsigned\<close>.\<close>

definition uint32 :: "int \<Rightarrow> int" where
  "uint32 z = z mod 4294967296"

lemma word_of_int_push_OR:
  "(word_of_int (push_bit n a OR b) :: 'a::len word) = push_bit n (word_of_int a) OR word_of_int b"
  by (rule bit_eqI) (auto simp: bit_simps)

lemma unat_of_nat_byte: "n < 256 \<Longrightarrow> unat (of_nat n :: byte) = n"
  by (simp add: unsigned_of_nat take_bit_nat_eq_self)

section \<open>Buffers\<close>

definition rd :: "'a list \<Rightarrow> nat \<Rightarrow> 'a option" where
  "rd xs i = (if i < length xs then Some (xs ! i) else None)"

definition wr :: "'a list \<Rightarrow> nat \<Rightarrow> 'a \<Rightarrow> 'a list option" where
  "wr xs i v = (if i < length xs then Some (xs[i := v]) else None)"

text \<open>A write through a pointer that may be \<open>NULL\<close>, when the code tests it first.\<close>

fun put :: "'a list option \<Rightarrow> nat \<Rightarrow> 'a \<Rightarrow> 'a list option option" where
  "put None i v = Some None"
| "put (Some xs) i v = map_option Some (wr xs i v)"

text \<open>The effect of writing \<open>vs\<close> to consecutive cells from \<open>i\<close> on.\<close>

definition blit :: "'a list \<Rightarrow> nat \<Rightarrow> 'a list \<Rightarrow> 'a list" where
  "blit xs i vs = take i xs @ vs @ drop (i + length vs) xs"

lemma rd_Some [mem_simps]: "i < length xs \<Longrightarrow> rd xs i = Some (xs ! i)"
  by (simp add: rd_def)

lemma rd_None [mem_simps]: "rd xs i = None \<longleftrightarrow> length xs \<le> i"
  by (simp add: rd_def)

lemma rd_SomeD: "rd xs i = Some v \<Longrightarrow> i < length xs \<and> v = xs ! i"
  by (simp add: rd_def split: if_splits)

lemma rd_append [mem_simps]: "rd (xs @ ys) (length xs + i) = rd ys i"
  by (simp add: rd_def nth_append)

lemma wr_Some [mem_simps]: "i < length xs \<Longrightarrow> wr xs i v = Some (xs[i := v])"
  by (simp add: wr_def)

lemma wr_None [mem_simps]: "wr xs i v = None \<longleftrightarrow> length xs \<le> i"
  by (simp add: wr_def)

lemma wr_SomeD: "wr xs i v = Some ys \<Longrightarrow> i < length xs \<and> ys = xs[i := v]"
  by (simp add: wr_def split: if_splits)

lemma wr_length: "wr xs i v = Some ys \<Longrightarrow> length ys = length xs"
  by (auto dest: wr_SomeD)

lemma blit_length [simp]: "i + length vs \<le> length xs \<Longrightarrow> length (blit xs i vs) = length xs"
  by (simp add: blit_def)

lemma blit_Nil [simp]: "blit xs i [] = xs"
  by (simp add: blit_def)

lemma blit_snoc:
  assumes "i + length vs < length xs"
  shows "(blit xs i vs)[i + length vs := v] = blit xs i (vs @ [v])"
proof -
  have "drop (i + length vs) xs = xs ! (i + length vs) # drop (Suc (i + length vs)) xs"
    using assms by (simp add: Cons_nth_drop_Suc)
  then show ?thesis using assms by (simp add: blit_def list_update_append)
qed

lemma blit_Cons:
  assumes "i < length xs"
  shows "blit (xs[i := v]) (Suc i) vs = blit xs i (v # vs)"
  using assms by (simp add: blit_def take_Suc_conv_app_nth)

lemma wr_blit [mem_simps]:
  "i + length vs < length xs \<Longrightarrow> wr (blit xs i vs) (i + length vs) v = Some (blit xs i (vs @ [v]))"
  by (simp add: wr_Some blit_snoc)

lemma take_blit: "i + length vs \<le> length xs \<Longrightarrow> take (i + length vs) (blit xs i vs) = take i xs @ vs"
  by (simp add: blit_def)

lemma take_blit0 [simp]: "length vs \<le> length xs \<Longrightarrow> take (length vs) (blit xs 0 vs) = vs"
  by (simp add: blit_def)

section \<open>C strings\<close>

definition isspace :: "char \<Rightarrow> bool" where
  "isspace c \<longleftrightarrow> (let n = of_char c :: nat in n = 32 \<or> (9 \<le> n \<and> n \<le> 13))"

definition isdigit :: "char \<Rightarrow> bool" where
  "isdigit c \<longleftrightarrow> (let n = of_char c :: nat in 48 \<le> n \<and> n \<le> 57)"

abbreviation backslash :: char where "backslash \<equiv> CHR 0x5C"
abbreviation dquote :: char where "dquote \<equiv> CHR 0x22"

text \<open>\<open>strchr\<close>: the text from the first occurrence on, or \<open>NULL\<close>.\<close>

fun strchr :: "string \<Rightarrow> char \<Rightarrow> string option" where
  "strchr [] c = None"
| "strchr (x # xs) c = (if x = c then Some (x # xs) else strchr xs c)"

fun str_prefix :: "string \<Rightarrow> string \<Rightarrow> bool" where
  "str_prefix [] s = True"
| "str_prefix (p # ps) [] = False"
| "str_prefix (p # ps) (x # xs) = (p = x \<and> str_prefix ps xs)"

text \<open>\<open>strstr\<close>: the text from the first occurrence of the needle on, or \<open>NULL\<close>.\<close>

fun strstr :: "string \<Rightarrow> string \<Rightarrow> string option" where
  "strstr [] p = (if p = [] then Some [] else None)"
| "strstr (x # xs) p = (if str_prefix p (x # xs) then Some (x # xs) else strstr xs p)"

lemma str_prefix_iff: "str_prefix p s \<longleftrightarrow> (\<exists>t. s = p @ t)"
  by (induction p s rule: str_prefix.induct) auto

lemma str_prefix_append [simp, cstr_simps]: "str_prefix p (p @ t)"
  by (simp add: str_prefix_iff)

lemma strchr_Some: "strchr s c = Some t \<Longrightarrow> \<exists>u. s = u @ t \<and> c \<notin> set u \<and> t \<noteq> [] \<and> hd t = c"
proof (induction s c rule: strchr.induct)
  case (2 x xs c)
  show ?case
  proof (cases "x = c")
    case True with 2 show ?thesis by auto
  next
    case False
    with 2 obtain u where "xs = u @ t" "c \<notin> set u" "t \<noteq> []" "hd t = c" by auto
    with False show ?thesis by (intro exI [of _ "x # u"]) auto
  qed
qed simp

lemma strchr_append [simp, cstr_simps]: "c \<notin> set u \<Longrightarrow> strchr (u @ c # t) c = Some (c # t)"
  by (induction u) auto

lemma strchr_None [cstr_simps]: "strchr s c = None \<longleftrightarrow> c \<notin> set s"
  by (induction s) auto

lemma strstr_Some: "strstr s p = Some t \<Longrightarrow> \<exists>u v. s = u @ t \<and> t = p @ v"
proof (induction s p rule: strstr.induct)
  case (1 p) then show ?case by (simp split: if_splits)
next
  case (2 x xs p)
  show ?case
  proof (cases "str_prefix p (x # xs)")
    case True with 2 show ?thesis by (auto simp: str_prefix_iff)
  next
    case False
    with 2 obtain u v where "xs = u @ t" "t = p @ v" by auto
    then show ?thesis by (metis append_Cons)
  qed
qed

section \<open>Numbers in texts\<close>

text \<open>\<open>%d\<close> of \<open>printf\<close>, without a field width.\<close>

definition digit_char :: "nat \<Rightarrow> char" where
  "digit_char d = char_of (48 + d)"

fun dec_nat :: "nat \<Rightarrow> string" where
  "dec_nat n = (if n < 10 then [digit_char n] else dec_nat (n div 10) @ [digit_char (n mod 10)])"

declare dec_nat.simps [simp del]

definition dec_int :: "int \<Rightarrow> string" where
  "dec_int z = (if z < 0 then CHR ''-'' # dec_nat (nat (- z)) else dec_nat (nat z))"

text \<open>The digit a character stands for in a number of the given base.\<close>

definition digit_val :: "char \<Rightarrow> nat" where
  "digit_val c = (let n = of_char c in
     if 48 \<le> n \<and> n \<le> 57 then n - 48
     else if 97 \<le> n \<and> n \<le> 122 then n - 87
     else if 65 \<le> n \<and> n \<le> 90 then n - 55 else 99)"

fun digits_of :: "nat \<Rightarrow> string \<Rightarrow> string" where
  "digits_of b [] = []"
| "digits_of b (c # cs) = (if digit_val c < b then c # digits_of b cs else [])"

definition digits_value :: "nat \<Rightarrow> string \<Rightarrow> nat" where
  "digits_value b ds = foldl (\<lambda>v c. v * b + digit_val c) 0 ds"

text \<open>
  \<open>strtol\<close> and \<open>strtoul\<close> with the 32-bit \<open>long\<close> of the target.  The first component says
  whether a number was found (\<open>end != nptr\<close>), the second is the value returned.  The base is
  10 or 16; an optional \<open>0x\<close> before hexadecimal digits is skipped.
\<close>

definition scan_number :: "nat \<Rightarrow> string \<Rightarrow> bool \<times> string" where
  "scan_number b s =
    (let s1 = dropWhile isspace s;
         neg = (case s1 of c # _ \<Rightarrow> c = CHR ''-'' | [] \<Rightarrow> False);
         s2 = (case s1 of c # cs \<Rightarrow> (if c = CHR ''-'' \<or> c = CHR ''+'' then cs else s1) | [] \<Rightarrow> s1);
         s3 = (case s2 of z # x # d # r \<Rightarrow>
                 (if b = 16 \<and> z = CHR ''0'' \<and> (x = CHR ''x'' \<or> x = CHR ''X'') \<and> digit_val d < 16
                  then d # r else s2) | _ \<Rightarrow> s2)
     in (neg, digits_of b s3))"

definition strtol :: "nat \<Rightarrow> string \<Rightarrow> bool \<times> int" where
  "strtol b s = (case scan_number b s of (neg, ds) \<Rightarrow>
     let v = int (digits_value b ds); z = (if neg then - v else v) in
     (ds \<noteq> [], if z < - 2147483648 then - 2147483648 else if 2147483647 < z then 2147483647 else z))"

definition strtoul :: "nat \<Rightarrow> string \<Rightarrow> bool \<times> int" where
  "strtoul b s = (case scan_number b s of (neg, ds) \<Rightarrow>
     let v = int (digits_value b ds) in
     (ds \<noteq> [], if 4294967295 < v then 4294967295
               else if neg then (- v) mod 4294967296 else v))"

lemma of_char_less [simp]: "(of_char c :: nat) < 256"
  by (metis of_char_of of_char_mod_256 mod_less_divisor zero_less_numeral)

lemma of_char_digit_char [simp]: "d < 10 \<Longrightarrow> (of_char (digit_char d) :: nat) = 48 + d"
  by (simp add: digit_char_def)

lemma digit_val_digit_char [simp]: "d < 10 \<Longrightarrow> digit_val (digit_char d) = d"
  by (simp add: digit_val_def Let_def)

lemma isspace_digit_char [simp]: "d < 10 \<Longrightarrow> \<not> isspace (digit_char d)"
  by (simp add: isspace_def Let_def)

lemma isdigit_digit_char [simp]: "d < 10 \<Longrightarrow> isdigit (digit_char d)"
  by (simp add: isdigit_def Let_def)

lemma digit_val_lt_10: "digit_val c < 10 \<longleftrightarrow> isdigit c"
  by (auto simp: digit_val_def isdigit_def Let_def)

lemma dec_nat_isdigit: "c \<in> set (dec_nat n) \<Longrightarrow> isdigit c"
  by (induction n rule: dec_nat.induct) (subst (asm) (2) dec_nat.simps, auto split: if_splits)

lemma dec_nat_not_Nil [simp]: "dec_nat n \<noteq> []"
  by (subst dec_nat.simps) simp

lemma digits_value_snoc: "digits_value b (ds @ [c]) = digits_value b ds * b + digit_val c"
  by (simp add: digits_value_def)

lemma digits_value_dec_nat [simp]: "digits_value 10 (dec_nat n) = n"
proof (induction n rule: dec_nat.induct)
  case (1 n)
  show ?case
  proof (cases "n < 10")
    case True then show ?thesis by (subst dec_nat.simps) (simp add: digits_value_def)
  next
    case False
    with 1 show ?thesis by (subst dec_nat.simps) (simp add: digits_value_snoc)
  qed
qed

lemma digits_of_all: "(\<forall>c \<in> set ds. digit_val c < b) \<Longrightarrow> digits_of b ds = ds"
  by (induction ds) auto

lemma digits_of_append:
  "(\<forall>c \<in> set ds. digit_val c < b) \<Longrightarrow> digits_of b (ds @ t) = ds @ digits_of b t"
  by (induction ds) auto

lemma isdigit_not_isspace: "isdigit c \<Longrightarrow> \<not> isspace c"
  by (auto simp: isspace_def isdigit_def Let_def)

lemma isdigit_not_sign: "isdigit c \<Longrightarrow> c \<noteq> CHR ''-'' \<and> c \<noteq> CHR ''+'' \<and> c \<noteq> CHR '','' \<and> c \<noteq> dquote"
  by (auto simp: isdigit_def Let_def)

lemma scan_number_digits:
  assumes "ds \<noteq> []" "\<forall>c \<in> set ds. isdigit c"
  shows "scan_number 10 ds = (False, ds)"
proof -
  obtain d ds' where ds: "ds = d # ds'" using assms by (cases ds) auto
  with assms have "isdigit d" by simp
  then have "\<not> isspace d" "d \<noteq> CHR ''-''" "d \<noteq> CHR ''+''"
    using isdigit_not_isspace isdigit_not_sign by blast+
  moreover have "digits_of 10 ds = ds"
    using assms by (intro digits_of_all) (simp add: digit_val_lt_10)
  ultimately show ?thesis
    using ds by (auto simp: scan_number_def Let_def split: list.splits)
qed

lemma scan_number_neg:
  assumes "ds \<noteq> []" "\<forall>c \<in> set ds. isdigit c"
  shows "scan_number 10 (CHR ''-'' # ds) = (True, ds)"
proof -
  have "digits_of 10 ds = ds"
    using assms by (intro digits_of_all) (simp add: digit_val_lt_10)
  moreover have "\<not> isspace (CHR ''-'')" by (simp add: isspace_def)
  ultimately show ?thesis
    by (auto simp: scan_number_def Let_def split: list.splits)
qed

lemma strtol_range: "strtol b s = (ok, z) \<Longrightarrow> in_int32 z"
  by (auto simp: strtol_def in_int32_def Let_def split: prod.splits if_splits)

lemma strtol_dec_int: "in_int32 z \<Longrightarrow> strtol 10 (dec_int z) = (True, z)"
  using dec_nat_isdigit
  by (auto simp: strtol_def dec_int_def scan_number_digits scan_number_neg in_int32_def Let_def)

lemma dec_int_chars:
  "c \<in> set (dec_int z) \<Longrightarrow> isdigit c \<or> c = CHR ''-''"
  using dec_nat_isdigit by (auto simp: dec_int_def split: if_splits)

lemma dec_int_not_Nil [simp]: "dec_int z \<noteq> []"
  by (simp add: dec_int_def)

end
