(* ===== verification/At_Tok.thy ===== *)
theory At_Tok
  imports Prelude
begin

text \<open>
  The tokenizer of AT response lines, \<open>src/huawei-generic/at_tok.c\<close>.  A cursor \<open>char **p_cur\<close>
  is passed and returned explicitly: the text from the cursor to the terminating zero, or
  \<open>NULL\<close>.  The tokenizer overwrites the delimiter behind a token with a zero, so the token it
  returns is the text up to that delimiter.  The outer option is the memory fault of the
  quoted scanner: a backslash in front of the terminating zero makes it step over the zero.
\<close>

named_theorems tok_simps "one token from a text of known shape"

section \<open>Operations\<close>

fun at_tok_start :: "cursor \<Rightarrow> int \<times> cursor" where
  "at_tok_start None = (-1, None)"
| "at_tok_start (Some s) =
     (case strchr s (CHR '':'') of None \<Rightarrow> (-1, None) | Some t \<Rightarrow> (0, Some (tl t)))"

definition skipWhiteSpace :: "string \<Rightarrow> string" where
  "skipWhiteSpace s = dropWhile isspace s"

definition skipNextComma :: "string \<Rightarrow> string" where
  "skipNextComma s = (case dropWhile (\<lambda>c. c \<noteq> CHR '','') s of [] \<Rightarrow> [] | _ # t \<Rightarrow> t)"

datatype tok_state = NORMAL | ESCAPE

text \<open>How the scan of a quoted token ends: with the token and the text behind the closing
  quote, at the end of the line (the error case), or behind the end of the line.\<close>

datatype quoted_end = Closed string string | Unterminated | Overrun

fun quoted_cons :: "char \<Rightarrow> quoted_end \<Rightarrow> quoted_end" where
  "quoted_cons c (Closed t r) = Closed (c # t) r"
| "quoted_cons c Unterminated = Unterminated"
| "quoted_cons c Overrun = Overrun"

fun quoted_loop :: "tok_state \<Rightarrow> string \<Rightarrow> quoted_end" where
  "quoted_loop NORMAL [] = Unterminated"
| "quoted_loop ESCAPE [] = Overrun"
| "quoted_loop NORMAL (c # cs) =
     (if c = backslash then quoted_cons c (quoted_loop ESCAPE cs)
      else if c = dquote then Closed [] cs
      else quoted_cons c (quoted_loop NORMAL cs))"
| "quoted_loop ESCAPE (c # cs) = quoted_cons c (quoted_loop NORMAL cs)"

text \<open>\<open>strsep (p_cur, ",")\<close> on a cursor that is not \<open>NULL\<close>.\<close>

definition strsep_comma :: "string \<Rightarrow> string \<times> cursor" where
  "strsep_comma s =
     (takeWhile (\<lambda>c. c \<noteq> CHR '','') s,
      (case dropWhile (\<lambda>c. c \<noteq> CHR '','') s of [] \<Rightarrow> None | _ # t \<Rightarrow> Some t))"

fun nextTok :: "cursor \<Rightarrow> (string option \<times> cursor) option" where
  "nextTok None = Some (None, None)"
| "nextTok (Some s) =
     (case skipWhiteSpace s of
        [] \<Rightarrow> (case strsep_comma [] of (t, cur) \<Rightarrow> Some (Some t, cur))
      | c # cs \<Rightarrow>
          if c = dquote then
            (case quoted_loop NORMAL cs of
               Closed t r \<Rightarrow> Some (Some t, Some (skipNextComma r))
             | Unterminated \<Rightarrow> Some (None, Some [])
             | Overrun \<Rightarrow> None)
          else (case strsep_comma (c # cs) of (t, cur) \<Rightarrow> Some (Some t, cur)))"

text \<open>The out parameter is \<open>None\<close> for a \<open>NULL\<close> pointer and its old contents otherwise.  The
  result is the return code, the contents of the out parameter and the cursor.\<close>

definition at_tok_nextint_base ::
  "cursor \<Rightarrow> int option \<Rightarrow> nat \<Rightarrow> bool \<Rightarrow> (int \<times> int option \<times> cursor) option" where
  "at_tok_nextint_base cur out base uns =
     (if cur = None then Some (-1, out, cur)
      else if out = None then Some (-1, out, cur)
      else case nextTok cur of
        None \<Rightarrow> None
      | Some (None, cur') \<Rightarrow> Some (-1, out, cur')
      | Some (Some t, cur') \<Rightarrow>
          (case (if uns then strtoul base t else strtol base t) of
             (found, l) \<Rightarrow> Some (if found then 0 else -1, Some (int32 l), cur')))"

definition at_tok_nextint :: "cursor \<Rightarrow> int option \<Rightarrow> (int \<times> int option \<times> cursor) option" where
  "at_tok_nextint cur out = at_tok_nextint_base cur out 10 False"

definition at_tok_nexthexint :: "cursor \<Rightarrow> int option \<Rightarrow> (int \<times> int option \<times> cursor) option" where
  "at_tok_nexthexint cur out = at_tok_nextint_base cur out 16 True"

text \<open>\<open>result\<close> is the uninitialised local of \<open>at_tok_nextbool\<close>; it is not read before it is set.\<close>

definition at_tok_nextbool :: "int \<Rightarrow> cursor \<Rightarrow> int option \<Rightarrow> (int \<times> int option \<times> cursor) option" where
  "at_tok_nextbool result cur out =
     (case at_tok_nextint cur (Some result) of
        None \<Rightarrow> None
      | Some (ret, res, cur') \<Rightarrow>
          if ret < 0 then Some (-1, out, cur')
          else if \<not> (res = Some 0 \<or> res = Some 1) then Some (-1, out, cur')
          else if out \<noteq> None then Some (ret, res, cur') else Some (-1, out, cur'))"

definition at_tok_nextstr ::
  "cursor \<Rightarrow> string option \<Rightarrow> (int \<times> string option \<times> cursor) option" where
  "at_tok_nextstr cur out =
     (if cur = None then Some (-1, out, cur)
      else case nextTok cur of
        None \<Rightarrow> None
      | Some (t, cur') \<Rightarrow> Some (if t = None then -1 else 0, t, cur'))"

fun at_tok_hasmore :: "cursor \<Rightarrow> bool" where
  "at_tok_hasmore None = False"
| "at_tok_hasmore (Some s) = (s \<noteq> [])"

fun charcount :: "string \<Rightarrow> char \<Rightarrow> nat" where
  "charcount [] needle = 0"
| "charcount (c # cs) needle = (if c = needle then 1 else 0) + charcount cs needle"

definition at_tok_charcounter :: "cursor \<Rightarrow> char \<Rightarrow> int \<Rightarrow> int \<times> int" where
  "at_tok_charcounter p_in needle out =
     (case p_in of None \<Rightarrow> (-1, out) | Some s \<Rightarrow> (0, int32 (int (charcount s needle))))"

section \<open>The scanners\<close>

lemma skipNextComma_length: "length (skipNextComma s) \<le> length s"
  using length_dropWhile_le [of "\<lambda>c. c \<noteq> CHR '',''" s]
  by (auto simp: skipNextComma_def split: list.splits)

lemma skipNextComma_simp [tok_simps]:
  "CHR '','' \<notin> set u \<Longrightarrow> skipNextComma (u @ CHR '','' # t) = t"
  "CHR '','' \<notin> set u \<Longrightarrow> skipNextComma u = []"
proof -
  assume "CHR '','' \<notin> set u"
  then have "dropWhile (\<lambda>c. c \<noteq> CHR '','') u = []" by (induction u) auto
  then show "skipNextComma (u @ CHR '','' # t) = t" "skipNextComma u = []"
    unfolding skipNextComma_def by (simp_all only: dropWhile_append) auto
qed

lemma strsep_simp [tok_simps]:
  "CHR '','' \<notin> set u \<Longrightarrow> strsep_comma (u @ CHR '','' # t) = (u, Some t)"
  "CHR '','' \<notin> set u \<Longrightarrow> strsep_comma u = (u, None)"
  by (auto simp: strsep_comma_def takeWhile_tail split: list.splits)
    (induction u; auto)+

lemma strsep_length:
  "strsep_comma s = (t, Some r) \<Longrightarrow> length t + length r < length s"
proof -
  assume a: "strsep_comma s = (t, Some r)"
  have "length s = length (takeWhile (\<lambda>c. c \<noteq> CHR '','') s) + length (dropWhile (\<lambda>c. c \<noteq> CHR '','') s)"
    by (metis length_append takeWhile_dropWhile_id)
  with a show ?thesis by (auto simp: strsep_comma_def split: list.splits)
qed

lemma quoted_cons_eq_Closed:
  "quoted_cons c q = Closed t r \<longleftrightarrow> (\<exists>t'. q = Closed t' r \<and> t = c # t')"
  by (cases q) auto

lemma quoted_cons_eq_simps [simp]:
  "quoted_cons c q = Overrun \<longleftrightarrow> q = Overrun"
  "quoted_cons c q = Unterminated \<longleftrightarrow> q = Unterminated"
  by (cases q; simp)+

lemma quoted_length: "quoted_loop st s = Closed t r \<Longrightarrow> length t + length r < length s"
  by (induction st s arbitrary: t r rule: quoted_loop.induct)
    (force simp: quoted_cons_eq_Closed split: if_splits)+

lemma quoted_closed_append:
  "quoted_loop st s = Closed t r \<Longrightarrow> quoted_loop st (s @ u) = Closed t (r @ u)"
  by (induction st s arbitrary: t r rule: quoted_loop.induct)
    (force simp: quoted_cons_eq_Closed split: if_splits)+

lemma quoted_plain [tok_simps]:
  "dquote \<notin> set f \<Longrightarrow> backslash \<notin> set f \<Longrightarrow> quoted_loop NORMAL (f @ dquote # r) = Closed f r"
  by (induction f) auto

text \<open>A text that leaves a backslash open at its end: it ends with an odd number of
  backslashes.  The definition counts them and knows nothing of the scanner.\<close>

definition trailing :: "nat \<Rightarrow> string \<Rightarrow> nat" where
  "trailing n s = foldl (\<lambda>n c. if c = backslash then Suc n else 0) n s"

definition open_escape :: "string \<Rightarrow> bool" where
  "open_escape s = odd (trailing 0 s)"

lemma trailing_simps [simp]:
  "trailing n [] = n"
  "trailing n (c # s) = trailing (if c = backslash then Suc n else 0) s"
  by (simp_all add: trailing_def)

lemma quoted_overrun:
  "quoted_loop st s = Overrun \<Longrightarrow> (st = NORMAL \<longleftrightarrow> even n) \<Longrightarrow> odd (trailing n s)"
  by (induction st s arbitrary: n rule: quoted_loop.induct) (auto split: if_splits)

lemma trailing_dropWhile: "trailing 0 (dropWhile isspace s) = trailing 0 s"
  by (induction s) (auto simp: isspace_def)

lemma trailing_plain: "backslash \<notin> set s \<Longrightarrow> trailing 0 s = 0"
  by (induction s) auto

lemma nextTok_fault:
  assumes "nextTok (Some s) = None"
  shows "open_escape s"
proof -
  from assms obtain cs where "skipWhiteSpace s = dquote # cs" "quoted_loop NORMAL cs = Overrun"
    by (auto split: list.splits if_splits quoted_end.splits prod.splits)
  moreover from this have "odd (trailing 0 cs)" by (intro quoted_overrun) auto
  ultimately show ?thesis
    using trailing_dropWhile [of s] by (simp add: open_escape_def skipWhiteSpace_def)
qed

section \<open>Progress and safety of a sequence of calls\<close>

lemma nextTok_Some_cases:
  assumes "nextTok (Some s) = Some (t, Some r)"
  obtains (quoted) cs t' r' where "skipWhiteSpace s = dquote # cs"
      "quoted_loop NORMAL cs = Closed t' r'" "t = Some t'" "r = skipNextComma r'"
  | (unterminated) cs where "skipWhiteSpace s = dquote # cs" "t = None" "r = []"
  | (plain) t' where "strsep_comma (skipWhiteSpace s) = (t', Some r)" "t = Some t'"
  using assms by (fastforce split: list.splits if_splits quoted_end.splits prod.splits)

lemma skipWhiteSpace_length: "length (skipWhiteSpace s) \<le> length s"
  by (simp add: skipWhiteSpace_def length_dropWhile_le)

lemma nextTok_rest:
  assumes "nextTok (Some s) = Some (t, Some r)" "s \<noteq> []"
  shows "length r < length s"
  using assms(1)
proof (cases rule: nextTok_Some_cases)
  case (quoted cs t' r')
  then show ?thesis
    using skipWhiteSpace_length [of s] quoted_length [of NORMAL cs t' r'] skipNextComma_length [of r']
    by simp
next
  case unterminated then show ?thesis using assms by simp
next
  case (plain t')
  then show ?thesis using skipWhiteSpace_length [of s] strsep_length [of _ t' r] by fastforce
qed

lemma trailing_append: "trailing n (u @ s) = trailing (trailing n u) s"
  by (simp add: trailing_def)

lemma trailing_break: "c \<noteq> backslash \<Longrightarrow> trailing n (u @ c # s) = trailing 0 s"
  by (simp add: trailing_append)

lemma quoted_closed_split: "quoted_loop st s = Closed t r \<Longrightarrow> \<exists>u. s = u @ dquote # r"
  by (induction st s arbitrary: t r rule: quoted_loop.induct)
    (force simp: quoted_cons_eq_Closed Cons_eq_append_conv split: if_splits)+

lemma dropWhile_comma:
  "dropWhile (\<lambda>c. c \<noteq> CHR '','') s = x # t \<Longrightarrow> \<exists>u. s = u @ CHR '','' # t"
  by (metis (full_types) dropWhile_eq_Cons_conv takeWhile_dropWhile_id)

lemma trailing_skipNextComma: "even (trailing 0 s) \<Longrightarrow> even (trailing 0 (skipNextComma s))"
  by (auto simp: skipNextComma_def trailing_break dest: dropWhile_comma split: list.splits)

lemma trailing_strsep: "strsep_comma s = (t, Some r) \<Longrightarrow> trailing n s = trailing 0 r"
  by (auto simp: strsep_comma_def trailing_break dest!: dropWhile_comma split: list.splits)

lemma nextTok_closed_escape:
  assumes "nextTok (Some s) = Some (t, Some r)" "\<not> open_escape s"
  shows "\<not> open_escape r"
proof -
  let ?w = "skipWhiteSpace s"
  have w: "even (trailing 0 ?w)"
    using assms(2) trailing_dropWhile [of s] by (simp add: open_escape_def skipWhiteSpace_def)
  from assms(1) show ?thesis
  proof (cases rule: nextTok_Some_cases)
    case (quoted cs t' r')
    then obtain v where "cs = v @ dquote # r'" using quoted_closed_split by blast
    with quoted w have "even (trailing 0 r')" by (simp add: trailing_break)
    with quoted show ?thesis by (simp add: open_escape_def trailing_skipNextComma)
  next
    case (plain t')
    then show ?thesis using w trailing_strsep [of ?w t' r 0] by (simp add: open_escape_def)
  qed (simp add: open_escape_def)
qed

text \<open>A call of the tokenizer, and the cursor after a sequence of calls, whatever they
  return.\<close>

datatype tok_call = Start | NextInt | NextHex | NextBool | NextStr

fun tok_step :: "tok_call \<Rightarrow> cursor \<Rightarrow> cursor option" where
  "tok_step Start cur = Some (snd (at_tok_start cur))"
| "tok_step NextInt cur = map_option (snd \<circ> snd) (at_tok_nextint cur (Some 0))"
| "tok_step NextHex cur = map_option (snd \<circ> snd) (at_tok_nexthexint cur (Some 0))"
| "tok_step NextBool cur = map_option (snd \<circ> snd) (at_tok_nextbool 0 cur (Some 0))"
| "tok_step NextStr cur = map_option (snd \<circ> snd) (at_tok_nextstr cur None)"

fun tok_run :: "tok_call list \<Rightarrow> cursor \<Rightarrow> cursor option" where
  "tok_run [] cur = Some cur"
| "tok_run (c # cs) cur = Option.bind (tok_step c cur) (tok_run cs)"

fun cursor_safe :: "cursor \<Rightarrow> bool" where
  "cursor_safe None = True"
| "cursor_safe (Some s) = (\<not> open_escape s)"

lemma nextTok_safe: "cursor_safe cur \<Longrightarrow> \<exists>t cur'. nextTok cur = Some (t, cur') \<and> cursor_safe cur'"
proof (cases cur)
  case (Some s)
  assume "cursor_safe cur"
  with Some nextTok_fault [of s] obtain t cur' where n: "nextTok (Some s) = Some (t, cur')"
    by (metis cursor_safe.simps(2) option.exhaust surj_pair)
  with Some \<open>cursor_safe cur\<close> show ?thesis
    using nextTok_closed_escape [of s t] by (cases cur') auto
qed simp

lemma nextint_base_safe:
  "cursor_safe cur \<Longrightarrow>
   \<exists>r v cur'. at_tok_nextint_base cur out b u = Some (r, v, cur') \<and> cursor_safe cur'"
  using nextTok_safe [of cur]
  by (auto simp: at_tok_nextint_base_def split: option.splits prod.splits)

lemma start_safe: "cursor_safe cur \<Longrightarrow> cursor_safe (snd (at_tok_start cur))"
proof (cases cur)
  case (Some s)
  assume "cursor_safe cur"
  with Some show ?thesis
    by (cases "strchr s (CHR '':'')"; cases "the (strchr s (CHR '':''))")
      (auto simp: open_escape_def trailing_break dest!: strchr_Some)
qed simp

lemma tok_step_safe: "cursor_safe cur \<Longrightarrow> \<exists>cur'. tok_step c cur = Some cur' \<and> cursor_safe cur'"
proof (cases c)
  case NextBool
  assume "cursor_safe cur"
  then obtain r v cur' where "at_tok_nextint cur (Some 0) = Some (r, v, cur')" "cursor_safe cur'"
    using nextint_base_safe unfolding at_tok_nextint_def by blast
  with NextBool show ?thesis by (auto simp: at_tok_nextbool_def)
next
  case NextStr
  assume "cursor_safe cur"
  then show ?thesis using nextTok_safe [of cur] NextStr by (auto simp: at_tok_nextstr_def)
next
  case NextInt
  assume "cursor_safe cur"
  then show ?thesis using nextint_base_safe [of cur "Some 0" 10 False] NextInt
    by (auto simp: at_tok_nextint_def)
next
  case NextHex
  assume "cursor_safe cur"
  then show ?thesis using nextint_base_safe [of cur "Some 0" 16 True] NextHex
    by (auto simp: at_tok_nexthexint_def)
qed (simp add: start_safe)

section \<open>Lines as the modem prints them\<close>

text \<open>A response line is a prefix, a colon, and fields separated by commas, each a decimal
  number or a quoted text.  Blanks may stand before a field.\<close>

datatype field = FInt int | FStr string

fun render_field :: "field \<Rightarrow> string" where
  "render_field (FInt z) = dec_int z"
| "render_field (FStr t) = dquote # t @ [dquote]"

fun render_fields :: "(string \<times> field) list \<Rightarrow> string" where
  "render_fields [] = []"
| "render_fields [(ws, f)] = ws @ render_field f"
| "render_fields ((ws, f) # g # fs) = ws @ render_field f @ CHR '','' # render_fields (g # fs)"

definition render_line :: "string \<Rightarrow> (string \<times> field) list \<Rightarrow> string" where
  "render_line p fs = p @ CHR '':'' # render_fields fs"

fun field_ok :: "string \<times> field \<Rightarrow> bool" where
  "field_ok (ws, FInt z) \<longleftrightarrow> list_all isspace ws"
| "field_ok (ws, FStr t) \<longleftrightarrow> list_all isspace ws \<and> dquote \<notin> set t \<and> backslash \<notin> set t"

text \<open>What a reader that expects these fields sees: one call per field, on the cursor the
  previous call left.\<close>

fun read_fields :: "field list \<Rightarrow> cursor \<Rightarrow> (field list \<times> cursor) option" where
  "read_fields [] cur = Some ([], cur)"
| "read_fields (FInt _ # fs) cur =
     (case at_tok_nextint cur (Some 0) of
        Some (ret, Some v, cur') \<Rightarrow>
          (if ret = 0 then map_option (apfst ((#) (FInt v))) (read_fields fs cur') else None)
      | _ \<Rightarrow> None)"
| "read_fields (FStr _ # fs) cur =
     (case at_tok_nextstr cur None of
        Some (ret, Some v, cur') \<Rightarrow>
          (if ret = 0 then map_option (apfst ((#) (FStr v))) (read_fields fs cur') else None)
      | _ \<Rightarrow> None)"

definition clamp32 :: "int \<Rightarrow> int" where
  "clamp32 z = max (- 2147483648) (min 2147483647 z)"

fun field_seen :: "field \<Rightarrow> field" where
  "field_seen (FInt z) = FInt (clamp32 z)"
| "field_seen (FStr t) = FStr t"

lemma clamp32_in [simp]: "in_int32 (clamp32 z)"
  by (simp add: clamp32_def in_int32_def)

lemma strtol_dec_int_clamp: "strtol 10 (dec_int z) = (True, clamp32 z)"
  using dec_nat_isdigit
  by (auto simp: strtol_def dec_int_def scan_number_digits scan_number_neg clamp32_def Let_def)

lemma skipWhiteSpace_append [tok_simps]:
  "list_all isspace ws \<Longrightarrow> skipWhiteSpace (ws @ s) = skipWhiteSpace s"
  by (simp add: skipWhiteSpace_def dropWhile_append2 list_all_iff)

lemma skipWhiteSpace_quote [tok_simps]: "skipWhiteSpace (dquote # s) = dquote # s"
  by (simp add: skipWhiteSpace_def isspace_def)

lemma dec_int_head: "\<exists>c cs. dec_int z = c # cs \<and> \<not> isspace c \<and> c \<noteq> dquote"
proof -
  obtain c cs where d: "dec_int z = c # cs" using dec_int_not_Nil by (cases "dec_int z") auto
  then have "isdigit c \<or> c = CHR ''-''" using dec_int_chars [of c z] by simp
  moreover have "\<not> isspace (CHR ''-'')" by (simp add: isspace_def)
  ultimately show ?thesis using d isdigit_not_isspace isdigit_not_sign by (auto intro!: exI)
qed

lemma dec_int_no_comma: "CHR '','' \<notin> set (dec_int z)"
  using dec_int_chars isdigit_not_sign by fastforce

lemma nextTok_plain:
  "list_all isspace ws \<Longrightarrow> \<not> isspace c \<Longrightarrow> c \<noteq> dquote \<Longrightarrow>
   nextTok (Some (ws @ c # cs)) = (case strsep_comma (c # cs) of (t, cur) \<Rightarrow> Some (Some t, cur))"
  by (simp add: skipWhiteSpace_append) (simp add: skipWhiteSpace_def)

lemma nextTok_dec_int:
  assumes "list_all isspace ws"
  shows "nextTok (Some (ws @ dec_int z @ CHR '','' # t)) = Some (Some (dec_int z), Some t)"
    "nextTok (Some (ws @ dec_int z)) = Some (Some (dec_int z), None)"
proof -
  obtain c cs where d: "dec_int z = c # cs" "\<not> isspace c" "c \<noteq> dquote" using dec_int_head by blast
  show "nextTok (Some (ws @ dec_int z @ CHR '','' # t)) = Some (Some (dec_int z), Some t)"
    using nextTok_plain [OF assms d(2,3), of "cs @ CHR '','' # t"] d
      strsep_simp(1) [OF dec_int_no_comma, of z t] by simp
  show "nextTok (Some (ws @ dec_int z)) = Some (Some (dec_int z), None)"
    using nextTok_plain [OF assms d(2,3), of cs] d strsep_simp(2) [OF dec_int_no_comma, of z] by simp
qed

declare nextTok.simps [simp del]

lemma nextTok_quoted:
  assumes "list_all isspace ws" "dquote \<notin> set f" "backslash \<notin> set f"
  shows "nextTok (Some (ws @ dquote # f @ dquote # CHR '','' # t)) = Some (Some f, Some t)"
    "nextTok (Some (ws @ dquote # f @ [dquote])) = Some (Some f, Some [])"
proof -
  have "skipNextComma (CHR '','' # t) = t" "skipNextComma [] = []"
    using skipNextComma_simp(1) [of "[]" t] skipNextComma_simp(2) [of "[]"] by simp_all
  then show "nextTok (Some (ws @ dquote # f @ dquote # CHR '','' # t)) = Some (Some f, Some t)"
    "nextTok (Some (ws @ dquote # f @ [dquote])) = Some (Some f, Some [])"
    using assms by (simp_all add: nextTok.simps tok_simps)
qed

lemma nextint_dec_int:
  assumes "list_all isspace ws"
  shows "at_tok_nextint (Some (ws @ dec_int z @ CHR '','' # t)) (Some v) = Some (0, Some (clamp32 z), Some t)"
    "at_tok_nextint (Some (ws @ dec_int z)) (Some v) = Some (0, Some (clamp32 z), None)"
  using nextTok_dec_int [OF assms]
  by (simp_all add: at_tok_nextint_def at_tok_nextint_base_def strtol_dec_int_clamp)

lemma nextstr_quoted:
  assumes "list_all isspace ws" "dquote \<notin> set f" "backslash \<notin> set f"
  shows "at_tok_nextstr (Some (ws @ dquote # f @ dquote # CHR '','' # t)) out = Some (0, Some f, Some t)"
    "at_tok_nextstr (Some (ws @ dquote # f @ [dquote])) out = Some (0, Some f, Some [])"
  using nextTok_quoted [OF assms] by (simp_all add: at_tok_nextstr_def)

lemma read_one:
  assumes "field_ok (ws, f)"
  shows "read_fields (f # fs) (Some (ws @ render_field f @ CHR '','' # t)) =
           map_option (apfst ((#) (field_seen f))) (read_fields fs (Some t))"
    and "\<exists>cur. \<not> at_tok_hasmore cur \<and>
           read_fields [f] (Some (ws @ render_field f)) = Some ([field_seen f], cur)"
  using assms by (cases f; simp add: nextint_dec_int nextstr_quoted)+

section \<open>Properties\<close>

text \<open>C25: reading a printed response line gives back its fields, whatever blanks stand before
  them: texts without quotes and backslashes unchanged, numbers clamped to the range of
  \<open>int\<close>; and nothing is left on the line.\<close>

theorem read_line_render:
  assumes "CHR '':'' \<notin> set p" "fs \<noteq> []" "list_all field_ok fs"
  shows "\<exists>s cur. at_tok_start (Some (render_line p fs)) = (0, Some s) \<and>
           read_fields (map snd fs) (Some s) = Some (map (field_seen \<circ> snd) fs, cur) \<and>
           \<not> at_tok_hasmore cur"
proof -
  have "\<exists>cur. read_fields (map snd fs) (Some (render_fields fs)) = Some (map (field_seen \<circ> snd) fs, cur)
          \<and> \<not> at_tok_hasmore cur"
    using assms(2,3)
  proof (induction fs rule: render_fields.induct)
    case (2 ws f) then show ?case using read_one(2) [of ws f] by auto
  next
    case (3 ws f g fs) then show ?case using read_one(1) [of ws f] by fastforce
  qed simp
  then show ?thesis using assms(1) by (simp add: render_line_def)
qed

lemma read_line_render_witness:
  "\<exists>s cur. at_tok_start (Some (render_line ''+COPS'' [('' '', FInt 3000000000), ([], FStr ''A b'')])) =
       (0, Some s) \<and>
     read_fields (map snd [('' '', FInt 3000000000), ([], FStr ''A b'')]) (Some s) =
       Some (map (field_seen \<circ> snd) [('' '', FInt 3000000000), ([], FStr ''A b'')], cur) \<and>
     \<not> at_tok_hasmore cur"
  by (rule read_line_render) (simp_all add: isspace_def)

text \<open>As long as the line has more, a tokenizer call that returns consumes at least one
  character, so every loop over \<open>at_tok_hasmore\<close> ends.\<close>

theorem nextstr_progress:
  assumes "at_tok_hasmore (Some s)" "at_tok_nextstr (Some s) out = Some (ret, tok, Some r)"
  shows "length r < length s"
  using assms nextTok_rest [of s tok r]
  by (auto simp: at_tok_nextstr_def split: option.splits prod.splits)

lemma nextstr_progress_witness: "length ''b'' < length '' x,b''"
  by (rule nextstr_progress [of "'' x,b''" None 0 "Some ''x''"])
    (simp_all add: at_tok_nextstr_def nextTok.simps skipWhiteSpace_def strsep_comma_def isspace_def)

text \<open>On a line that does not end with an odd number of backslashes, no sequence of
  tokenizer calls reads behind the end of the line.\<close>

theorem tok_run_safe: "\<not> open_escape s \<Longrightarrow> tok_run cs (Some s) \<noteq> None"
proof -
  have "cursor_safe cur \<Longrightarrow> tok_run cs cur \<noteq> None" for cur
  proof (induction cs arbitrary: cur)
    case (Cons c cs) then show ?case using tok_step_safe [of cur c] by auto
  qed simp
  then show "\<not> open_escape s \<Longrightarrow> ?thesis" by simp
qed

lemma tok_run_safe_witness:
  "\<not> open_escape ''+A: 1,2'' \<and> tok_run [Start, NextInt, NextStr] (Some ''+A: 1,2'') \<noteq> None"
  using tok_run_safe [of "''+A: 1,2''" "[Start, NextInt, NextStr]"] by (simp add: open_escape_def)

end
