(* ===== verification/Hex_Codec.thy ===== *)
theory Hex_Codec
  imports Prelude
begin

text \<open>
  The interface of the hexadecimal digit pairs that three parts of the program convert with
  their own tables (\<open>misc.c\<close>, \<open>gsm.c\<close>, \<open>sms.c\<close>): a function from a nibble to its digit and
  one back.  The laws and the conversions of whole texts are proved here once.
\<close>

definition byte_of_nibbles :: "byte \<Rightarrow> byte \<Rightarrow> byte" where
  "byte_of_nibbles h l = push_bit 4 h OR l"

fun hex_with :: "(byte \<Rightarrow> 'c) \<Rightarrow> bytes \<Rightarrow> 'c list" where
  "hex_with digit [] = []"
| "hex_with digit (b # bs) = digit (drop_bit 4 b) # digit (b AND 15) # hex_with digit bs"

fun unhex_with :: "('c \<Rightarrow> byte) \<Rightarrow> 'c list \<Rightarrow> bytes" where
  "unhex_with val (a # b # cs) = byte_of_nibbles (val a) (val b) # unhex_with val cs"
| "unhex_with val cs = []"

lemma length_hex_with [simp]: "length (hex_with d bs) = 2 * length bs"
  by (induction bs) auto

lemma length_unhex_with [simp]: "length (unhex_with v cs) = length cs div 2"
  by (induction v cs rule: unhex_with.induct) auto

lemma hex_with_append [simp]: "hex_with d (xs @ ys) = hex_with d xs @ hex_with d ys"
  by (induction xs) auto

lemma unhex_with_append [simp]:
  "even (length xs) \<Longrightarrow> unhex_with v (xs @ ys) = unhex_with v xs @ unhex_with v ys"
  by (induction v xs rule: unhex_with.induct) auto

lemma nibble_high_less: "drop_bit 4 (b :: byte) < 16"
proof -
  have "unat (drop_bit 4 b) = drop_bit 4 (unat b)"
    unfolding unsigned_drop_bit_eq using unsigned_less [of b, where ?'a = nat]
    by (simp only: take_bit_nat_eq_self)
  also have "\<dots> = unat b div 16" by (simp add: drop_bit_eq_div)
  also have "\<dots> < 16" using unsigned_less [of b, where ?'a = nat] by simp
  finally show ?thesis by (simp add: word_less_nat_alt)
qed

lemma nibble_low_less: "(b :: byte) AND 15 < 16"
proof -
  have "b AND 15 \<le> 15" by (rule word_and_le1)
  also have "(15 :: byte) < 16" by simp
  finally show ?thesis .
qed

lemma byte_of_nibbles_split [simp]: "byte_of_nibbles (drop_bit 4 b) (b AND 15) = b"
proof (rule bit_eqI)
  fix n assume "possible_bit TYPE(byte) n"
  then have "n < 8" by simp
  then have "n \<in> {0, 1, 2, 3, 4, 5, 6, 7}" by auto
  then show "bit (byte_of_nibbles (drop_bit 4 b) (b AND 15)) n = bit b n"
    by (auto simp: byte_of_nibbles_def bit_simps bit_numeral_rec)
qed

lemma nibble_cases:
  assumes "n < (16 :: byte)"
    and "P 0" "P 1" "P 2" "P 3" "P 4" "P 5" "P 6" "P 7" "P 8" "P 9" "P 10" "P 11" "P 12" "P 13" "P 14" "P 15"
  shows "P n"
proof -
  obtain m where m: "n = of_nat m" "m < 16"
  proof
    show "n = of_nat (unat n)" by simp
    show "unat n < 16" using assms(1) by (simp add: word_less_nat_alt)
  qed
  then have "m \<in> {0, 1, 2, 3, 4, 5, 6, 7, 8, 9, 10, 11, 12, 13, 14, 15}"
    unfolding insert_iff empty_iff by presburger
  then show ?thesis using assms(2-) m(1) by (elim insertE emptyE) simp_all
qed

lemma nibble_and_15: "n < 16 \<Longrightarrow> n AND 15 = (n :: byte)"
  by (erule nibble_cases) simp_all

lemma uint_nibbles:
  "nat (drop_bit 4 (uint b) AND 15) = unat (drop_bit 4 (b :: byte))"
  "nat (uint b AND 15) = unat (b AND 15)"
proof -
  have "uint (drop_bit 4 b AND 15) = drop_bit 4 (uint b) AND 15"
    by (simp only: unsigned_and_eq unsigned_drop_bit_eq) (simp add: bintr_uint)
  then show "nat (drop_bit 4 (uint b) AND 15) = unat (drop_bit 4 b)"
    using nibble_and_15 [OF nibble_high_less [of b]] by (metis unat_eq_nat_uint)
  show "nat (uint b AND 15) = unat (b AND 15)"
    by (simp add: unat_eq_nat_uint unsigned_and_eq)
qed

section \<open>The interface\<close>

locale nibble_codec =
  fixes digit :: "byte \<Rightarrow> 'c" and val :: "'c \<Rightarrow> byte"
  assumes val_digit: "n < 16 \<Longrightarrow> val (digit n) = n"
begin

lemma val_digit_high: "val (digit (drop_bit 4 b)) = drop_bit 4 b"
  by (simp add: val_digit nibble_high_less)

lemma val_digit_low: "val (digit (b AND 15)) = b AND 15"
  by (simp add: val_digit nibble_low_less)

lemma byte_roundtrip: "byte_of_nibbles (val (digit (drop_bit 4 b))) (val (digit (b AND 15))) = b"
  by (simp add: val_digit_high val_digit_low)

lemma text_roundtrip: "unhex_with val (hex_with digit bs) = bs"
  by (induction bs) (simp_all add: val_digit_high val_digit_low)

lemma text_inj: "hex_with digit bs = hex_with digit cs \<Longrightarrow> bs = cs"
  by (metis text_roundtrip)

lemma text_nth:
  "i < length bs \<Longrightarrow> hex_with digit bs ! (2 * i) = digit (drop_bit 4 (bs ! i)) \<and>
     hex_with digit bs ! (2 * i + 1) = digit (bs ! i AND 15)"
proof (induction bs arbitrary: i)
  case (Cons b bs) then show ?case by (cases i) auto
qed simp

end

end
