(* ===== verification/Misc.thy ===== *)
theory Misc
  imports Hex_Codec
begin

text \<open>
  The helpers of \<open>src/huawei-generic/misc.c\<close>: prefixes, the text between two tags, conversions
  between hexadecimal texts and bytes, and one tag-length-value item of a hexadecimal stream.
  A stream is the text between its start and its end; pointers into it are indices, and an
  access outside it is a fault (\<open>None\<close>).
\<close>

section \<open>Operations\<close>

fun strStartsWith :: "string \<Rightarrow> string \<Rightarrow> bool" where
  "strStartsWith (l # ls) (p # ps) = (if l \<noteq> p then False else strStartsWith ls ps)"
| "strStartsWith line prefix = (prefix = [])"

text \<open>The value between the tags and the rest of the document, \<open>None\<close> for \<open>NULL\<close>; the outer
  option is the fault of copying a negative number of characters, when the end tag is found
  before the end of the begin tag.  A document with that shape makes \<open>m\<close> negative.\<close>

definition getFirstElementValue ::
  "string \<Rightarrow> string \<Rightarrow> string \<Rightarrow> string option \<Rightarrow> (string option \<times> string option) option" where
  "getFirstElementValue document elementBeginTag elementEndTag remaining =
     (case strstr document elementBeginTag of
        None \<Rightarrow> Some (None, remaining)
      | Some start \<Rightarrow>
          (case strstr start elementEndTag of
             None \<Rightarrow> Some (None, remaining)
           | Some e \<Rightarrow>
               let m = int (length start) - int (length e) - int (length elementBeginTag) in
               if m < 0 then None
               else Some (Some (take (nat m) (drop (length elementBeginTag) start)),
                          map_option (\<lambda>_. drop (length elementEndTag) e) remaining)))"

definition char2nib :: "char \<Rightarrow> byte" where
  "char2nib ch = (let c = of_char ch :: byte in
     if 0x30 \<le> c \<and> c \<le> 0x39 then c - 0x30
     else if 0x41 \<le> c \<and> c \<le> 0x46 then c - 0x41 + 0xA
     else if 0x61 \<le> c \<and> c \<le> 0x66 then c - 0x61 + 0xA
     else 0)"

definition EINVAL :: int where "EINVAL = 22"
definition ENOTSUP :: int where "ENOTSUP = 95"

text \<open>The loop of \<open>stringToBinary\<close>: \<open>n\<close> pairs are left, \<open>it\<close> is the read index.\<close>

fun stringToBinary_loop :: "nat \<Rightarrow> string \<Rightarrow> nat \<Rightarrow> nat \<Rightarrow> bytes \<Rightarrow> bytes option" where
  "stringToBinary_loop 0 s it pos binary = Some binary"
| "stringToBinary_loop (Suc n) s it pos binary = do {
     a \<leftarrow> rd s it;
     b \<leftarrow> rd s (it + 1);
     binary' \<leftarrow> wr binary pos (push_bit 4 (char2nib a) OR char2nib b);
     stringToBinary_loop n s (it + 2) (pos + 1) binary' }"

definition stringToBinary :: "string \<Rightarrow> nat \<Rightarrow> bytes \<Rightarrow> (int \<times> bytes) option" where
  "stringToBinary s len binary =
     (if odd len then Some (- EINVAL, binary)
      else map_option (Pair 0) (stringToBinary_loop (len div 2) s 0 0 binary))"

definition nibbles :: "string" where
  "nibbles = ''0123456789ABCDEF''"

fun binaryToString_loop :: "nat \<Rightarrow> bytes \<Rightarrow> nat \<Rightarrow> nat \<Rightarrow> string \<Rightarrow> string option" where
  "binaryToString_loop 0 bin it pos s = wr s pos (CHR 0x00)"
| "binaryToString_loop (Suc n) bin it pos s = do {
     b \<leftarrow> rd bin it;
     h \<leftarrow> rd nibbles (unat (drop_bit 4 b));
     s1 \<leftarrow> wr s pos h;
     l \<leftarrow> rd nibbles (unat (b AND 0x0f));
     s2 \<leftarrow> wr s1 (pos + 1) l;
     binaryToString_loop n bin (it + 1) (pos + 2) s2 }"

definition binaryToString :: "bytes \<Rightarrow> nat \<Rightarrow> string \<Rightarrow> (int \<times> string) option" where
  "binaryToString bin len s = map_option (Pair 0) (binaryToString_loop len bin 0 0 s)"

text \<open>\<open>struct tlv\<close>; the data and its end are indices into the stream.\<close>

record tlv =
  tlv_tag :: byte
  tlv_data :: nat
  tlv_end :: nat

text \<open>The macro \<open>TLV_STREAM_GET\<close>: the error is the jump to \<open>underflow\<close>.\<close>

definition tlv_stream_get :: "string \<Rightarrow> nat \<Rightarrow> nat \<Rightarrow> (unit + byte \<times> nat) option" where
  "tlv_stream_get mem stream e =
     (if stream + 1 \<ge> e then Some (Inl ())
      else do {
        a \<leftarrow> rd mem stream;
        b \<leftarrow> rd mem (stream + 1);
        Some (Inr (push_bit 4 (char2nib a) OR char2nib b, stream + 2)) })"

definition parseTlv :: "string \<Rightarrow> nat \<Rightarrow> nat \<Rightarrow> (int + tlv) option" where
  "parseTlv mem stream e =
     (case tlv_stream_get mem stream e of
        None \<Rightarrow> None
      | Some (Inl _) \<Rightarrow> Some (Inl (- EINVAL))
      | Some (Inr (tag, stream1)) \<Rightarrow>
          (case tlv_stream_get mem stream1 e of
             None \<Rightarrow> None
           | Some (Inl _) \<Rightarrow> Some (Inl (- EINVAL))
           | Some (Inr (sz, stream2)) \<Rightarrow>
               if stream2 + unat sz * 2 > e then Some (Inl (- EINVAL))
               else Some (Inr \<lparr>tlv_tag = tag, tlv_data = stream2, tlv_end = stream2 + unat sz * 2\<rparr>)))"

text \<open>The macro \<open>TLV_DATA\<close>.\<close>

definition tlv_DATA :: "string \<Rightarrow> tlv \<Rightarrow> nat \<Rightarrow> byte option" where
  "tlv_DATA mem t pos = do {
     a \<leftarrow> rd mem (tlv_data t + pos * 2);
     b \<leftarrow> rd mem (tlv_data t + pos * 2 + 1);
     Some (push_bit 4 (char2nib a) OR char2nib b) }"

section \<open>Texts\<close>

lemma strStartsWith_iff: "strStartsWith line prefix \<longleftrightarrow> (\<exists>t. line = prefix @ t)"
  by (induction line prefix rule: strStartsWith.induct) auto

lemma strStartsWith_append [simp, cstr_simps]: "strStartsWith (p @ t) p"
  by (simp add: strStartsWith_iff)

lemma strStartsWith_prefix: "strStartsWith = (\<lambda>l p. str_prefix p l)"
  by (simp add: fun_eq_iff strStartsWith_iff str_prefix_iff)

lemma strstr_append:
  "(\<forall>i < length u. \<not> str_prefix p (drop i (u @ p @ v))) \<Longrightarrow> strstr (u @ p @ v) p = Some (p @ v)"
proof (induction u)
  case Nil then show ?case by (cases p; cases v) (auto simp: str_prefix_iff)
next
  case (Cons c u)
  have "\<forall>i < length u. \<not> str_prefix p (drop i (u @ p @ v))"
    using Cons.prems by (metis Suc_less_eq append_Cons drop_Suc_Cons length_Cons)
  moreover have "\<not> str_prefix p (c # u @ p @ v)" using Cons.prems by force
  ultimately show ?case using Cons.IH by simp
qed

lemma strstr_single: "c \<notin> set u \<Longrightarrow> strstr (u @ c # v) [c] = Some (c # v)"
  by (induction u) auto

section \<open>Hexadecimal texts\<close>

lemma char2nib_nibbles: "n < 16 \<Longrightarrow> char2nib (nibbles ! unat n) = n"
  by (erule nibble_cases) (simp_all add: nibbles_def char2nib_def)

interpretation misc_hex: nibble_codec "\<lambda>n. nibbles ! unat n" char2nib
  by unfold_locales (rule char2nib_nibbles)

lemma rd_nibbles: "n < 16 \<Longrightarrow> rd nibbles (unat n) = Some (nibbles ! unat n)" for n :: byte
  by (simp add: rd_def nibbles_def word_less_nat_alt)

lemma unhex_Cons2: "unhex_with char2nib (a # b # cs) = (push_bit 4 (char2nib a) OR char2nib b) # unhex_with char2nib cs"
  by (simp add: byte_of_nibbles_def)

lemma stringToBinary_loop_blit:
  assumes "it + 2 * n \<le> length s" "i + length vs = pos" "pos + n \<le> length binary"
  shows "stringToBinary_loop n s it pos (blit binary i vs) =
           Some (blit binary i (vs @ unhex_with char2nib (take (2 * n) (drop it s))))"
  using assms
proof (induction n arbitrary: it pos vs)
  case (Suc n)
  then have "take (2 * Suc n) (drop it s) = s ! it # s ! (it + 1) # take (2 * n) (drop (it + 2) s)"
    by (simp add: take_Suc_conv_app_nth Cons_nth_drop_Suc [symmetric])
  with Suc show ?case
    by (auto simp: rd_Some wr_blit unhex_Cons2 simp del: unhex_with.simps)
qed simp

lemma binaryToString_loop_blit:
  assumes "it + n \<le> length bin" "length vs = pos" "pos + 2 * n < length s"
  shows "binaryToString_loop n bin it pos (blit s 0 vs) =
           Some (blit s 0 (vs @ hex_with (\<lambda>n. nibbles ! unat n) (take n (drop it bin)) @ [CHR 0x00]))"
  using assms
proof (induction n arbitrary: it pos vs)
  case 0 then show ?case using wr_blit [of 0 vs s] by simp
next
  case (Suc n)
  then have "take (Suc n) (drop it bin) = bin ! it # take n (drop (it + 1) bin)"
    by (simp add: Cons_nth_drop_Suc [symmetric])
  moreover have "wr (blit s 0 vs) pos x = Some (blit s 0 (vs @ [x]))"
    "wr (blit s 0 (vs @ [x])) (pos + 1) y = Some (blit s 0 (vs @ [x, y]))" for x y
    using Suc.prems wr_blit [of 0 vs s x] wr_blit [of 0 "vs @ [x]" s y] by auto
  ultimately show ?case
    using Suc by (simp add: rd_Some rd_nibbles nibble_high_less nibble_low_less)
qed

section \<open>Items of a stream\<close>

lemma tlv_stream_get_ok:
  assumes "e \<le> length mem"
  shows "tlv_stream_get mem p e =
    Some (if p + 1 \<ge> e then Inl ()
          else Inr (byte_of_nibbles (char2nib (mem ! p)) (char2nib (mem ! (p + 1))), p + 2))"
  using assms by (simp add: tlv_stream_get_def rd_Some byte_of_nibbles_def)

text \<open>On a stream that reaches to its end pointer \<open>parseTlv\<close> makes no stray access, and the
  item it returns lies inside the stream.\<close>

lemma parseTlv_total: "e \<le> length mem \<Longrightarrow> parseTlv mem p e \<noteq> None"
  by (simp add: parseTlv_def tlv_stream_get_ok)

lemma parseTlv_bounds:
  assumes "parseTlv mem p e = Some (Inr t)"
  shows "tlv_data t = p + 4" "tlv_data t \<le> tlv_end t" "tlv_end t \<le> e"
    "even (tlv_end t - tlv_data t)"
  using assms
  by (auto simp: parseTlv_def tlv_stream_get_def Let_def split: option.splits sum.splits if_splits
      bind_splits)

lemma parseTlv_progress: "parseTlv mem p e = Some (Inr t) \<Longrightarrow> p < tlv_end t"
  using parseTlv_bounds(1,2) [of mem p e t] by simp

lemma parseTlv_error: "parseTlv mem p e = Some (Inl r) \<Longrightarrow> r = - EINVAL"
  by (auto simp: parseTlv_def split: option.splits sum.splits if_splits)

definition encode_tlv :: "byte \<Rightarrow> bytes \<Rightarrow> string" where
  "encode_tlv tag v = hex_with (\<lambda>n. nibbles ! unat n) (tag # of_nat (length v) # v)"

lemma length_encode_tlv [simp]: "length (encode_tlv tag v) = 4 + 2 * length v"
  by (simp add: encode_tlv_def)

lemma parseTlv_encode:
  assumes "length v < 256" "length pre = p" "e \<le> length (pre @ encode_tlv tag v @ post)"
    "p + 4 + 2 * length v \<le> e"
  shows "parseTlv (pre @ encode_tlv tag v @ post) p e =
    Some (Inr \<lparr>tlv_tag = tag, tlv_data = p + 4, tlv_end = p + 4 + 2 * length v\<rparr>)"
proof -
  let ?m = "pre @ encode_tlv tag v @ post" and ?d = "\<lambda>n. nibbles ! unat (n :: byte)"
  have "?m ! p = ?d (drop_bit 4 tag)" "?m ! (p + 1) = ?d (tag AND 15)"
    "?m ! (p + 2) = ?d (drop_bit 4 (of_nat (length v)))" "?m ! Suc (Suc (Suc p)) = ?d (of_nat (length v) AND 15)"
    using assms(2) by (simp_all add: nth_append encode_tlv_def)
  moreover have len: "unat (of_nat (length v) :: byte) = length v"
    using assms(1) by (rule unat_of_nat_byte)
  ultimately have "tlv_stream_get ?m p e = Some (Inr (tag, p + 2))"
    "tlv_stream_get ?m (p + 2) e = Some (Inr (of_nat (length v), p + 2 + 2))"
    using assms(3,4) by (simp_all add: tlv_stream_get_ok misc_hex.byte_roundtrip)
  then show ?thesis using assms(4) len
    by (simp add: parseTlv_def)
qed

lemma tlv_DATA_encode:
  assumes "i < length v" "tlv_data t = length pre + 4"
  shows "tlv_DATA (pre @ encode_tlv tag v @ post) t i = Some (v ! i)"
proof -
  let ?m = "pre @ encode_tlv tag v @ post" and ?d = "\<lambda>n. nibbles ! unat (n :: byte)"
  have "length pre + 4 + 2 * i + 1 < length ?m" using assms(1) by simp
  moreover have "?m ! (length pre + 4 + 2 * i) = ?d (drop_bit 4 (v ! i))"
    "?m ! (length pre + 4 + 2 * i + 1) = ?d (v ! i AND 15)"
    using assms(1) misc_hex.text_nth [of i v]
    by (simp_all add: nth_append encode_tlv_def)
  ultimately show ?thesis
    using assms(2) misc_hex.byte_roundtrip [of "v ! i"]
    by (simp add: tlv_DATA_def rd_Some byte_of_nibbles_def mult.commute)
qed

section \<open>Properties\<close>

text \<open>Writing bytes as hexadecimal text and reading the text back gives the bytes, for
  every buffer large enough for the text and its terminating zero.\<close>

theorem hex_text_roundtrip:
  assumes "length s > 2 * length bin" "length out = length bin"
  shows "\<exists>s'. binaryToString bin (length bin) s = Some (0, s') \<and>
           stringToBinary s' (2 * length bin) out = Some (0, bin)"
proof -
  let ?h = "hex_with (\<lambda>n. nibbles ! unat n) bin"
  let ?s = "blit s 0 (?h @ [CHR 0x00])"
  have "binaryToString bin (length bin) s = Some (0, ?s)"
    using binaryToString_loop_blit [of 0 "length bin" bin "[]" 0 s] assms by (simp add: binaryToString_def)
  moreover have "take (2 * length bin) ?s = ?h" by (simp add: blit_def)
  then have "stringToBinary ?s (2 * length bin) out = Some (0, bin)"
    using stringToBinary_loop_blit [of 0 "length bin" ?s 0 "[]" 0 out] assms
    by (simp add: stringToBinary_def misc_hex.text_roundtrip blit_def)
  ultimately show ?thesis by blast
qed

lemma hex_text_roundtrip_witness:
  "\<exists>s'. binaryToString [0x3F, 0x00] (length [0x3F, 0x00 :: byte]) ''xxxxx'' = Some (0, s') \<and>
     stringToBinary s' (2 * length [0x3F, 0x00 :: byte]) [7, 7] = Some (0, [0x3F, 0x00])"
  by (rule hex_text_roundtrip) simp_all

text \<open>when the first begin tag of the document is followed by a value and the first end
  tag behind the start of the begin tag closes it, exactly the value is returned, and the
  remaining document is what follows the end tag.\<close>

theorem getFirstElementValue_correct:
  assumes "\<forall>i < length pre. \<not> str_prefix bt (drop i (pre @ bt @ v @ et @ post))"
    and "\<forall>i < length (bt @ v). \<not> str_prefix et (drop i ((bt @ v) @ et @ post))"
  shows "getFirstElementValue (pre @ bt @ v @ et @ post) bt et (Some r) = Some (Some v, Some post) \<and>
    getFirstElementValue (pre @ bt @ v @ et @ post) bt et None = Some (Some v, None)"
  using strstr_append [OF assms(1)] strstr_append [OF assms(2)]
  by (simp_all add: getFirstElementValue_def)

lemma getFirstElementValue_correct_witness:
  "getFirstElementValue ''a(b)c'' ''('' '')'' (Some ''old'') = Some (Some ''b'', Some ''c'') \<and>
   getFirstElementValue ''a(b)c'' ''('' '')'' None = Some (Some ''b'', None)"
  using getFirstElementValue_correct [of "''a''" "''(''" "''b''" "'')''" "''c''"]
  by (auto simp: less_Suc_eq numeral_2_eq_2)

end
