(* ===== verification/Fcp.thy ===== *)
theory Fcp
  imports Misc
begin

text \<open>
  The conversion of a UICC file control parameter template into the response of 3GPP TS 51.011,
  \<open>src/huawei-generic/fcp_parser.c\<close>.  The template is a hexadecimal text; \<open>FCP_CVT_THROW\<close>
  leaves with an error code, the response as far as it was filled.  An abstract description of
  the same conversion on decoded properties comes after the code's own definitions, and the
  lemmas show that the parser computes it on every encoded template.
\<close>

section \<open>Operations\<close>

text \<open>\<open>struct ts_51011_921_resp\<close>; the two big-endian fields are kept as their bytes.\<close>

record ts_51011_921_resp =
  rfu_1 :: "byte \<times> byte"
  file_size :: "byte \<times> byte"
  file_id :: "byte \<times> byte"
  file_type :: byte
  rfu_2 :: byte
  file_acc :: "byte \<times> byte \<times> byte"
  file_status :: byte
  data_size :: byte
  file_structure :: byte
  record_size :: byte

definition zero_resp :: ts_51011_921_resp where
  "zero_resp = \<lparr>rfu_1 = (0, 0), file_size = (0, 0), file_id = (0, 0), file_type = 0, rfu_2 = 0,
     file_acc = (0, 0, 0), file_status = 0, data_size = 0, file_structure = 0, record_size = 0\<rparr>"

text \<open>The \<open>switch\<close> over the property's tag: the return code and the response.\<close>

definition fcp_descriptor ::
  "string \<Rightarrow> tlv \<Rightarrow> nat \<Rightarrow> ts_51011_921_resp \<Rightarrow> (int \<times> ts_51011_921_resp) option" where
  "fcp_descriptor mem t property_size out =
     (if property_size < 2 then Some (- EINVAL, out)
      else do {
        fdbyte \<leftarrow> tlv_DATA mem t 0;
        if fdbyte AND 0xBF = 0x38 then Some (0, out\<lparr>file_type := 2\<rparr>)
        else if fdbyte AND 0xB0 = 0x00 then
          let out1 = out\<lparr>file_type := 4, file_status := 1, data_size := data_size out + 1\<rparr> in
          (if fdbyte AND 0x07 = 0x01 then Some (0, out1\<lparr>file_structure := 0\<rparr>)
           else if property_size < 5 then Some (- EINVAL, out1)
           else do {
             r \<leftarrow> tlv_DATA mem t 3;
             let out2 = out1\<lparr>data_size := data_size out1 + 1, record_size := r\<rparr>;
             if fdbyte AND 0x07 = 0x06 then Some (0, out2\<lparr>file_structure := 3\<rparr>)
             else if fdbyte AND 0x07 = 0x02 then Some (0, out2\<lparr>file_structure := 1\<rparr>)
             else Some (- EINVAL, out2) })
        else Some (0, out\<lparr>file_type := 0\<rparr>) })"

definition fcp_property ::
  "string \<Rightarrow> tlv \<Rightarrow> ts_51011_921_resp \<Rightarrow> (int \<times> ts_51011_921_resp) option" where
  "fcp_property mem t out =
     (let property_size = (tlv_end t - tlv_data t) div 2 in
      if tlv_tag t = 0x80 then
        (if property_size \<noteq> 2 then Some (- ENOTSUP, out)
         else do {
           a \<leftarrow> tlv_DATA mem t 0;
           b \<leftarrow> tlv_DATA mem t 1;
           Some (0, out\<lparr>file_size := (a, b)\<rparr>) })
      else if tlv_tag t = 0x83 then
        (if property_size \<noteq> 2 then Some (- EINVAL, out)
         else do {
           a \<leftarrow> tlv_DATA mem t 0;
           b \<leftarrow> tlv_DATA mem t 1;
           Some (0, out\<lparr>file_id := (a, b)\<rparr>) })
      else if tlv_tag t = 0x82 then fcp_descriptor mem t property_size out
      else Some (0, out))"

text \<open>The loop over the properties: \<open>data\<close> and \<open>fend\<close> are the members of \<open>fcp\<close>, \<open>e\<close> is the end
  of the whole stream, which is what the code gives to \<open>parseTlv\<close>.  An error of a property is
  negative and leaves the loop.\<close>

function fcp_loop ::
  "string \<Rightarrow> nat \<Rightarrow> nat \<Rightarrow> nat \<Rightarrow> int \<Rightarrow> ts_51011_921_resp \<Rightarrow> (int \<times> ts_51011_921_resp) option" where
  "fcp_loop mem data fend e ret out =
     (if data < fend then
        case parseTlv mem data e of
          None \<Rightarrow> None
        | Some (Inl r) \<Rightarrow> Some (r, out)
        | Some (Inr t) \<Rightarrow>
            (case fcp_property mem t out of
               None \<Rightarrow> None
             | Some (r, out') \<Rightarrow>
                 if r < 0 then Some (r, out') else fcp_loop mem (tlv_end t) fend e 0 out')
      else Some (ret, out))"
  by pat_completeness auto

termination fcp_loop
  by (relation "measure (\<lambda>(mem, data, fend, e, ret, out). fend - data)")
    (auto dest!: parseTlv_progress)

declare fcp_loop.simps [simp del]

definition fcp_to_ts_51011 ::
  "string \<Rightarrow> nat \<Rightarrow> ts_51011_921_resp \<Rightarrow> (int \<times> ts_51011_921_resp) option" where
  "fcp_to_ts_51011 stream len out =
     (case parseTlv stream 0 len of
        None \<Rightarrow> None
      | Some (Inl r) \<Rightarrow> Some (r, out)
      | Some (Inr fcp) \<Rightarrow>
          if tlv_tag fcp \<noteq> 0x62 then Some (- EINVAL, out)
          else fcp_loop stream (tlv_data fcp) (tlv_end fcp) len 0 zero_resp)"

section \<open>The conversion on decoded properties\<close>

text \<open>What one property (tag and value) does to the response, without cursors and digits.\<close>

fun descriptor_effect :: "bytes \<Rightarrow> ts_51011_921_resp \<Rightarrow> int \<times> ts_51011_921_resp" where
  "descriptor_effect (fd # c # rest) out =
     (if fd AND 0xBF = 0x38 then (0, out\<lparr>file_type := 2\<rparr>)
      else if fd AND 0xB0 \<noteq> 0 then (0, out\<lparr>file_type := 0\<rparr>)
      else
        let ef = out\<lparr>file_type := 4, file_status := 1, data_size := data_size out + 1\<rparr> in
        if fd AND 7 = 1 then (0, ef\<lparr>file_structure := 0\<rparr>)
        else case rest of
          _ # r # _ # _ \<Rightarrow>
            let rec = ef\<lparr>data_size := data_size out + 2, record_size := r\<rparr> in
            if fd AND 7 = 6 then (0, rec\<lparr>file_structure := 3\<rparr>)
            else if fd AND 7 = 2 then (0, rec\<lparr>file_structure := 1\<rparr>)
            else (- EINVAL, rec)
        | _ \<Rightarrow> (- EINVAL, ef))"
| "descriptor_effect v out = (- EINVAL, out)"

definition property_effect :: "byte \<times> bytes \<Rightarrow> ts_51011_921_resp \<Rightarrow> int \<times> ts_51011_921_resp" where
  "property_effect p out = (case p of (tag, v) \<Rightarrow>
     if tag = 0x80 then (case v of [a, b] \<Rightarrow> (0, out\<lparr>file_size := (a, b)\<rparr>) | _ \<Rightarrow> (- ENOTSUP, out))
     else if tag = 0x83 then (case v of [a, b] \<Rightarrow> (0, out\<lparr>file_id := (a, b)\<rparr>) | _ \<Rightarrow> (- EINVAL, out))
     else if tag = 0x82 then descriptor_effect v out
     else (0, out))"

fun properties_effect :: "(byte \<times> bytes) list \<Rightarrow> ts_51011_921_resp \<Rightarrow> int \<times> ts_51011_921_resp" where
  "properties_effect [] out = (0, out)"
| "properties_effect (p # ps) out =
     (case property_effect p out of (r, out') \<Rightarrow>
        if r < 0 then (r, out') else properties_effect ps out')"

definition encode_props :: "(byte \<times> bytes) list \<Rightarrow> string" where
  "encode_props ps = concat (map (\<lambda>(tag, v). encode_tlv tag v) ps)"

definition props_size :: "(byte \<times> bytes) list \<Rightarrow> nat" where
  "props_size ps = sum_list (map (\<lambda>(tag, v). 2 + length v) ps)"

text \<open>The bytes of the whole template.\<close>

definition props_bytes :: "(byte \<times> bytes) list \<Rightarrow> bytes" where
  "props_bytes ps = concat (map (\<lambda>(tag, v). tag # of_nat (length v) # v) ps)"

definition encode_fcp :: "(byte \<times> bytes) list \<Rightarrow> string" where
  "encode_fcp ps = encode_tlv 0x62 (props_bytes ps)"

section \<open>The parser computes the abstract conversion\<close>

lemma tlv_DATA_in:
  "tlv_end t \<le> length mem \<Longrightarrow> tlv_data t + 2 * i + 2 \<le> tlv_end t \<Longrightarrow> \<exists>b. tlv_DATA mem t i = Some b"
  by (simp add: tlv_DATA_def rd_Some)

lemma fcp_property_total:
  assumes "tlv_end t \<le> length mem"
  shows "fcp_property mem t out \<noteq> None"
proof -
  have d: "(tlv_end t - tlv_data t) div 2 > i \<Longrightarrow> \<exists>b. tlv_DATA mem t i = Some b" for i
  proof -
    assume "(tlv_end t - tlv_data t) div 2 > i"
    then have "tlv_data t + 2 * i + 2 \<le> tlv_end t" by presburger
    then show ?thesis by (rule tlv_DATA_in [OF assms])
  qed
  show ?thesis
    using d [of 0] d [of 1] d [of 3]
    by (auto simp: fcp_property_def fcp_descriptor_def Let_def)
qed

lemma fcp_loop_total: "e \<le> length mem \<Longrightarrow> fcp_loop mem data fend e ret out \<noteq> None"
proof (induction mem data fend e ret out rule: fcp_loop.induct)
  case (1 mem data fend e ret out)
  show ?case
  proof (cases "parseTlv mem data e")
    case None then show ?thesis using 1 parseTlv_total by blast
  next
    case (Some x)
    show ?thesis
    proof (cases x)
      case (Inr t)
      then have "fcp_property mem t out \<noteq> None"
        using Some 1 fcp_property_total [of t mem out] parseTlv_bounds(3) [of mem data e t] by simp
      then show ?thesis using 1 Some Inr by (subst fcp_loop.simps) auto
    qed (use Some in \<open>subst fcp_loop.simps; simp\<close>)
  qed
qed

lemma property_code:
  assumes "tlv_tag t = tag" "tlv_data t = length pre + 4" "tlv_end t = length pre + 4 + 2 * length v"
  shows "fcp_property (pre @ encode_tlv tag v @ post) t out = Some (property_effect (tag, v) out)"
proof -
  define m where "m = pre @ encode_tlv tag v @ post"
  have D: "i < length v \<Longrightarrow> tlv_DATA m t i = Some (v ! i)" for i
    using tlv_DATA_encode assms(2) by (simp add: m_def)
  have sz: "(tlv_end t - tlv_data t) div 2 = length v" using assms by simp
  consider "v = []" | a where "v = [a]" | a b where "v = [a, b]" | a b c where "v = [a, b, c]"
    | a b c d where "v = [a, b, c, d]" | a b c d e w where "v = a # b # c # d # e # w"
    by (metis list.exhaust)
  then show ?thesis
    using D [of 0] D [of 1] D [of 3]
    unfolding m_def [symmetric]
    by cases (simp_all add: fcp_property_def fcp_descriptor_def property_effect_def sz assms(1) Let_def)
qed

lemma encode_props_simps [simp]:
  "encode_props [] = []"
  "encode_props ((tag, v) # ps) = encode_tlv tag v @ encode_props ps"
  by (simp_all add: encode_props_def)

lemma encode_props_hex:
  "encode_props ps = hex_with (\<lambda>n. nibbles ! unat n) (props_bytes ps)"
  by (induction ps) (auto simp: props_bytes_def encode_tlv_def)

lemma length_encode_props: "length (encode_props ps) = 2 * length (props_bytes ps)"
  by (simp add: encode_props_hex)

lemma fcp_loop_encode:
  assumes "\<forall>(tag, v) \<in> set ps. length v < 256"
    and "fend = length pre + length (encode_props ps)" "e = fend + length post"
  shows "fcp_loop (pre @ encode_props ps @ post) (length pre) fend e 0 out =
           Some (properties_effect ps out)"
  using assms
proof (induction ps arbitrary: pre out)
  case Nil then show ?case by (subst fcp_loop.simps) simp
next
  case (Cons p ps)
  obtain tag v where p: "p = (tag, v)" by (cases p)
  let ?m = "pre @ encode_tlv tag v @ encode_props ps @ post"
  let ?t = "\<lparr>tlv_tag = tag, tlv_data = length pre + 4, tlv_end = length pre + 4 + 2 * length v\<rparr>"
  have parse: "parseTlv ?m (length pre) e = Some (Inr ?t)"
    using Cons.prems p by (intro parseTlv_encode) auto
  have eff: "fcp_property ?m ?t out = Some (property_effect (tag, v) out)"
    by (rule property_code) simp_all
  have rest: "fcp_loop ?m (tlv_end ?t) fend e 0 out' = Some (properties_effect ps out')" for out'
    using Cons.IH [of "pre @ encode_tlv tag v" out'] Cons.prems p by (simp add: add.assoc)
  have "length pre < fend" using Cons.prems p by simp
  with rest parse eff p show ?case
    by (subst fcp_loop.simps) (auto split: prod.splits)
qed

section \<open>Properties\<close>

text \<open>Whatever bytes the card answers, the conversion reads only the stream it was given
  and returns.\<close>

theorem fcp_total: "len \<le> length stream \<Longrightarrow> fcp_to_ts_51011 stream len out \<noteq> None"
proof -
  assume a: "len \<le> length stream"
  then have "parseTlv stream 0 len \<noteq> None" by (rule parseTlv_total)
  then show ?thesis using a fcp_loop_total [OF a]
    by (auto simp: fcp_to_ts_51011_def split: sum.splits)
qed

lemma fcp_total_witness: "fcp_to_ts_51011 ''6204800210'' 10 zero_resp \<noteq> None"
  by (rule fcp_total) simp

text \<open>C35: on the hexadecimal text of a template the parser returns exactly what its properties
  say, in their order: the first property that violates the specification ends the conversion
  with its error code.\<close>

theorem fcp_refines:
  assumes "\<forall>(tag, v) \<in> set ps. length v < 256" "length (props_bytes ps) < 256"
  shows "fcp_to_ts_51011 (encode_fcp ps) (length (encode_fcp ps)) out = Some (properties_effect ps zero_resp)"
proof -
  let ?b = "props_bytes ps"
  have "parseTlv (encode_tlv 0x62 ?b) 0 (4 + 2 * length ?b) =
     Some (Inr \<lparr>tlv_tag = 0x62, tlv_data = 4, tlv_end = 4 + 2 * length ?b\<rparr>)"
    using parseTlv_encode [of ?b "[]" 0 "4 + 2 * length ?b" "0x62" "[]"] assms(2) by simp
  moreover have "fcp_loop (encode_tlv 0x62 ?b) 4 (4 + 2 * length ?b) (4 + 2 * length ?b) 0 zero_resp =
     Some (properties_effect ps zero_resp)"
  proof -
    define hdr where "hdr = hex_with (\<lambda>n. nibbles ! unat n) [0x62, of_nat (length ?b)]"
    have "encode_tlv 0x62 ?b = hdr @ encode_props ps @ []" "length hdr = 4"
      by (simp_all add: hdr_def encode_tlv_def encode_props_hex)
    then show ?thesis
      using fcp_loop_encode [OF assms(1), of "4 + 2 * length ?b" hdr "4 + 2 * length ?b" "[]" zero_resp]
        length_encode_props [of ps] by simp
  qed
  ultimately show ?thesis by (simp add: fcp_to_ts_51011_def encode_fcp_def)
qed

lemma fcp_refines_witness:
  "fcp_to_ts_51011 (encode_fcp [(0x80, [1, 2]), (0x82, [0x42, 0x21, 0, 0x1C, 2])])
     (length (encode_fcp [(0x80, [1, 2]), (0x82, [0x42, 0x21, 0, 0x1C, 2])])) zero_resp =
   Some (properties_effect [(0x80, [1, 2]), (0x82, [0x42, 0x21, 0, 0x1C, 2])] zero_resp)"
  by (rule fcp_refines) (simp_all add: props_bytes_def)

end
