(* ===== verification/Gsm_Text.thy ===== *)
theory Gsm_Text
  imports Prelude
begin

text \<open>
  UTF-8 and UCS-2 in \<open>src/huawei-generic/gsm.c\<close>.  Texts are byte buffers, pointers into them
  indices; a destination the code tests for \<open>NULL\<close> is an optional buffer, so that one definition
  is both the sizing and the writing pass.  The decoder \<open>utf8_next\<close> has an inner loop that does
  not move its pointer; it is a partial function, whose value \<open>None\<close> is that it does not return.
\<close>

section \<open>Operations\<close>

fun utf8_skip_cont :: "bytes \<Rightarrow> nat \<Rightarrow> nat \<Rightarrow> nat \<Rightarrow> nat option" where
  "utf8_skip_cont mem p e 0 = Some p"
| "utf8_skip_cont mem p e (Suc n) =
     (if p < e then do {
        b \<leftarrow> rd mem p;
        if b AND 0xc0 = 0x80 then utf8_skip_cont mem (p + 1) e n else Some p }
      else Some p)"

text \<open>The inner loop moves \<open>p\<close> at most to \<open>e\<close>, so \<open>e - p\<close> rounds are enough.\<close>

fun utf8_skip :: "bytes \<Rightarrow> nat \<Rightarrow> nat \<Rightarrow> nat \<Rightarrow> nat option" where
  "utf8_skip mem p e 0 = Some p"
| "utf8_skip mem p e (Suc count) =
     (if p > e then Some p
      else do {
        c \<leftarrow> rd mem p;
        p1 \<leftarrow> (if c > 128 then utf8_skip_cont mem (p + 1) e (e - (p + 1)) else Some (p + 1));
        utf8_skip mem p1 e count })"

partial_function (option) utf8_next_cont :: "bytes \<Rightarrow> nat \<Rightarrow> nat \<Rightarrow> int \<Rightarrow> int option" where
  "utf8_next_cont mem p e c =
     (if p < e then
        (case rd mem p of
           None \<Rightarrow> None
         | Some b \<Rightarrow>
             if b AND 0xc0 = 0x80 then utf8_next_cont mem p e (push_bit 6 c OR uint (b AND 0x3f))
             else Some c)
      else Some c)"

text \<open>The character (-1 at the end) and the new position.\<close>

definition utf8_next :: "bytes \<Rightarrow> nat \<Rightarrow> nat \<Rightarrow> (int \<times> nat) option" where
  "utf8_next mem p e =
     (if p < e then
        (case rd mem p of
           None \<Rightarrow> None
         | Some b \<Rightarrow>
             if b \<ge> 128 then
               (let c = (if b AND 0xe0 = 0xc0 then b AND 0x1f
                         else if b AND 0xf0 = 0xe0 then b AND 0x0f
                         else b AND 0x07)
                in map_option (\<lambda>r. (r, p + 1)) (utf8_next_cont mem (p + 1) e (uint c)))
             else Some (uint b, p + 1))
      else Some (-1, p))"

fun put_all :: "bytes option \<Rightarrow> nat \<Rightarrow> int list \<Rightarrow> bytes option option" where
  "put_all dst i [] = Some dst"
| "put_all dst i (v # vs) = Option.bind (put dst i (word_of_int v)) (\<lambda>dst'. put_all dst' (i + 1) vs)"

definition utf8_write :: "bytes option \<Rightarrow> nat \<Rightarrow> int \<Rightarrow> (nat \<times> bytes option) option" where
  "utf8_write utf8 offset v =
     (if v < 128 then map_option (Pair 1) (put_all utf8 offset [v])
      else if v < 0x800 then
        map_option (Pair 2) (put_all utf8 offset [0xc0 OR drop_bit 6 v, 0x80 OR (v AND 0x3f)])
      else if v < 0x10000 then
        map_option (Pair 3) (put_all utf8 offset
          [0xe0 OR drop_bit 12 v, 0x80 OR (drop_bit 6 v AND 0x3f), 0x80 OR (v AND 0x3f)])
      else
        map_option (Pair 4) (put_all utf8 offset
          [0xf0 OR (drop_bit 18 v AND 0x7), 0x80 OR (drop_bit 12 v AND 0x3f),
           0x80 OR (drop_bit 6 v AND 0x3f), 0x80 OR (v AND 0x3f)]))"

definition ucs2_write :: "bytes option \<Rightarrow> nat \<Rightarrow> int \<Rightarrow> (nat \<times> bytes option) option" where
  "ucs2_write ucs2 offset v = map_option (Pair 2) (put_all ucs2 offset [drop_bit 8 v, v])"

text \<open>The loop of \<open>utf8_check\<close> on the bytes from \<open>p\<close> to the end.\<close>

definition utf8_check_len :: "byte \<Rightarrow> nat option" where
  "utf8_check_len c =
     (if c AND 0xe0 = 0xc0 then Some 1
      else if c AND 0xf0 = 0xe0 then Some 2
      else if c AND 0xf8 = 0xf0 then Some 3
      else None)"

function utf8_check_loop :: "bytes \<Rightarrow> bool" where
  "utf8_check_loop [] = True"
| "utf8_check_loop (c # p) =
     (if c \<ge> 128 then
        (case utf8_check_len c of
           None \<Rightarrow> False
         | Some len \<Rightarrow>
             if len > length p then False
             else if list_all (\<lambda>b. b AND 0xc0 = 0x80) (take len p) then utf8_check_loop (drop len p)
             else False)
      else utf8_check_loop p)"
  by pat_completeness auto

termination utf8_check_loop
  by (relation "measure length") auto

definition utf8_check :: "bytes option \<Rightarrow> int" where
  "utf8_check p = (case p of None \<Rightarrow> 0 | Some text \<Rightarrow> (if utf8_check_loop text then 1 else 0))"

fun ucs2_to_utf8_loop ::
  "nat \<Rightarrow> bytes \<Rightarrow> nat \<Rightarrow> bytes option \<Rightarrow> nat \<Rightarrow> (nat \<times> bytes option) option" where
  "ucs2_to_utf8_loop 0 ucs2 p buf result = Some (result, buf)"
| "ucs2_to_utf8_loop (Suc left) ucs2 p buf result = do {
     a \<leftarrow> rd ucs2 p;
     b \<leftarrow> rd ucs2 (p + 1);
     (n, buf') \<leftarrow> utf8_write buf result (push_bit 8 (uint a) OR uint b);
     ucs2_to_utf8_loop left ucs2 (p + 2) buf' (result + n) }"

definition ucs2_to_utf8 :: "bytes \<Rightarrow> int \<Rightarrow> bytes option \<Rightarrow> (nat \<times> bytes option) option" where
  "ucs2_to_utf8 ucs2 ucs2len buf = ucs2_to_utf8_loop (nat ucs2len) ucs2 0 buf 0"

text \<open>A call of \<open>utf8_next\<close> below the end moves the position, so the loops over a UTF-8 text take
  at most as many rounds as the text has bytes; \<open>n\<close> counts them.\<close>

fun utf8_to_ucs2_loop ::
  "nat \<Rightarrow> bytes \<Rightarrow> nat \<Rightarrow> nat \<Rightarrow> bytes option \<Rightarrow> nat \<Rightarrow> (nat \<times> bytes option) option" where
  "utf8_to_ucs2_loop 0 utf8 p e ucs2 result = Some (result, ucs2)"
| "utf8_to_ucs2_loop (Suc n) utf8 p e ucs2 result =
     (if p < e then do {
        (c, p') \<leftarrow> utf8_next utf8 p e;
        if c < 0 then Some (result, ucs2)
        else do {
          (k, ucs2') \<leftarrow> ucs2_write ucs2 result c;
          utf8_to_ucs2_loop n utf8 p' e ucs2' (result + k) } }
      else Some (result, ucs2))"

definition utf8_to_ucs2 :: "bytes \<Rightarrow> nat \<Rightarrow> bytes option \<Rightarrow> (nat \<times> bytes option) option" where
  "utf8_to_ucs2 utf8 utf8len ucs2 =
     map_option (\<lambda>(r, d). (r div 2, d)) (utf8_to_ucs2_loop utf8len utf8 0 utf8len ucs2 0)"

section \<open>The decoder\<close>

lemma utf8_next_cont_Some:
  "utf8_next_cont mem p e c = Some r \<Longrightarrow> \<not> (p < e \<and> (\<exists>b. rd mem p = Some b \<and> b AND 0xc0 = 0x80))"
  by (erule utf8_next_cont.raw_induct [where P = "\<lambda>mem p e c r.
        \<not> (p < e \<and> (\<exists>b. rd mem p = Some b \<and> b AND 0xc0 = 0x80))", rotated])
    (fastforce split: if_splits option.splits)

text \<open>On a continuation byte the inner loop does not return; elsewhere it ends at once.\<close>

lemma utf8_next_cont_eq:
  "utf8_next_cont mem p e c =
     (if p < e then (case rd mem p of None \<Rightarrow> None | Some b \<Rightarrow> if b AND 0xc0 = 0x80 then None else Some c)
      else Some c)"
proof (cases "utf8_next_cont mem p e c")
  case None
  moreover from this have "(if p < e then
        (case rd mem p of
           None \<Rightarrow> None
         | Some b \<Rightarrow>
             if b AND 0xc0 = 0x80 then utf8_next_cont mem p e (push_bit 6 c OR uint (b AND 0x3f))
             else Some c)
      else Some c) = None"
    by (subst (asm) utf8_next_cont.simps)
  ultimately show ?thesis by (auto split: if_splits option.splits)
next
  case (Some r)
  then have "\<not> (p < e \<and> (\<exists>b. rd mem p = Some b \<and> b AND 0xc0 = 0x80))"
    by (rule utf8_next_cont_Some)
  then show ?thesis by (subst utf8_next_cont.simps) (auto split: option.splits)
qed

lemma utf8_next_ascii:
  "p < e \<Longrightarrow> e \<le> length mem \<Longrightarrow> mem ! p < 128 \<Longrightarrow> utf8_next mem p e = Some (uint (mem ! p), p + 1)"
  by (auto simp: utf8_next_def rd_Some)

lemma utf8_next_moves:
  "utf8_next mem p e = Some (c, p') \<Longrightarrow> p < e \<Longrightarrow> p' = p + 1 \<and> 0 \<le> c"
  by (auto simp: utf8_next_def utf8_next_cont_eq Let_def split: option.splits if_splits)

section \<open>The encoder\<close>

text \<open>The bytes of a character, as the standard defines them for the range of the code.\<close>

definition utf8_bytes :: "int \<Rightarrow> bytes" where
  "utf8_bytes v = map word_of_int
     (if v < 128 then [v]
      else if v < 0x800 then [0xc0 + v div 64, 0x80 + v mod 64]
      else if v < 0x10000 then [0xe0 + v div 4096, 0x80 + v div 64 mod 64, 0x80 + v mod 64]
      else [0xf0 + v div 262144 mod 8, 0x80 + v div 4096 mod 64, 0x80 + v div 64 mod 64, 0x80 + v mod 64])"

lemma int_and_mask: "v AND 0x3f = v mod 64" "v AND 0x7 = v mod 8" for v :: int
proof -
  have m: "(63 :: int) = mask 6" "(7 :: int) = mask 3" by (simp_all add: mask_eq_exp_minus_1)
  show "v AND 0x3f = v mod 64" "v AND 0x7 = v mod 8"
    unfolding m by (simp_all add: take_bit_eq_mask [symmetric] take_bit_eq_mod)
qed

lemma or_table:
  "list_all (\<lambda>w. 0x80 OR w = 0x80 + (w :: int)) [0..63]"
  "list_all (\<lambda>w. 0xc0 OR w = 0xc0 + (w :: int)) [0..31]"
  "list_all (\<lambda>w. 0xe0 OR w = 0xe0 + (w :: int)) [0..15]"
  "list_all (\<lambda>w. 0xf0 OR w = 0xf0 + (w :: int)) [0..7]"
  by code_simp+

lemma or_add:
  "0 \<le> w \<Longrightarrow> w < 64 \<Longrightarrow> 0x80 OR w = 0x80 + (w :: int)"
  "0 \<le> w \<Longrightarrow> w < 32 \<Longrightarrow> 0xc0 OR w = 0xc0 + (w :: int)"
  "0 \<le> w \<Longrightarrow> w < 16 \<Longrightarrow> 0xe0 OR w = 0xe0 + (w :: int)"
  "0 \<le> w \<Longrightarrow> w < 8 \<Longrightarrow> 0xf0 OR w = 0xf0 + (w :: int)"
  using or_table unfolding list_all_iff set_upto by auto

lemma put_all_None [simp]: "put_all None i vs = Some None"
  by (induction vs arbitrary: i) auto

lemma put_all_blit:
  "i + length us + length vs \<le> length xs \<Longrightarrow>
   put_all (Some (blit xs i us)) (i + length us) vs = Some (Some (blit xs i (us @ map word_of_int vs)))"
proof (induction vs arbitrary: us)
  case (Cons v vs)
  then show ?case using Cons.IH [of "us @ [word_of_int v]"] by (simp add: wr_blit)
qed simp

definition utf8_len :: "int \<Rightarrow> nat" where
  "utf8_len v = (if v < 128 then 1 else if v < 0x800 then 2 else if v < 0x10000 then 3 else 4)"

lemma length_utf8_bytes [simp]: "length (utf8_bytes v) = utf8_len v"
  by (simp add: utf8_bytes_def utf8_len_def)

lemma utf8_write_eq:
  assumes "0 \<le> v"
  shows "utf8_write dst off v = map_option (Pair (utf8_len v))
    (put_all dst off (if v < 128 then [v]
      else if v < 0x800 then [0xc0 + v div 64, 0x80 + v mod 64]
      else if v < 0x10000 then [0xe0 + v div 4096, 0x80 + v div 64 mod 64, 0x80 + v mod 64]
      else [0xf0 + v div 262144 mod 8, 0x80 + v div 4096 mod 64, 0x80 + v div 64 mod 64, 0x80 + v mod 64]))"
proof -
  have "0 \<le> v div 64" "0 \<le> v div 4096" using assms by simp_all
  moreover have "v < 0x800 \<Longrightarrow> v div 64 < 32" "v < 0x10000 \<Longrightarrow> v div 4096 < 16" by simp_all
  ultimately show ?thesis
    by (simp add: utf8_write_def utf8_len_def or_add int_and_mask drop_bit_eq_div del: put_all.simps)
qed

lemma utf8_write_blit:
  assumes "0 \<le> v" "i + length us + utf8_len v \<le> length xs"
  shows "utf8_write (Some (blit xs i us)) (i + length us) v =
    Some (utf8_len v, Some (blit xs i (us @ utf8_bytes v)))"
proof -
  define vs where "vs = (if v < 128 then [v]
      else if v < 0x800 then [0xc0 + v div 64, 0x80 + v mod 64]
      else if v < 0x10000 then [0xe0 + v div 4096, 0x80 + v div 64 mod 64, 0x80 + v mod 64]
      else [0xf0 + v div 262144 mod 8, 0x80 + v div 4096 mod 64, 0x80 + v div 64 mod 64, 0x80 + v mod 64])"
  have "utf8_bytes v = map word_of_int vs" by (simp add: vs_def utf8_bytes_def)
  moreover have "length vs = utf8_len v" by (simp add: vs_def utf8_len_def)
  ultimately show ?thesis
    using assms(2) unfolding utf8_write_eq [OF assms(1)] vs_def [symmetric]
    by (simp add: put_all_blit)
qed

lemma utf8_write_size: "0 \<le> v \<Longrightarrow> utf8_write None off v = Some (utf8_len v, None)"
  by (simp add: utf8_write_eq)

text \<open>An optional destination after \<open>us\<close> has been written to its start, and that it has room.\<close>

definition dst_at :: "bytes option \<Rightarrow> bytes \<Rightarrow> bytes option" where
  "dst_at d us = map_option (\<lambda>b. blit b 0 us) d"

definition dst_room :: "bytes option \<Rightarrow> nat \<Rightarrow> bool" where
  "dst_room d n \<longleftrightarrow> (case d of None \<Rightarrow> True | Some b \<Rightarrow> n \<le> length b)"

lemma dst_room_le: "dst_room d n \<Longrightarrow> m \<le> n \<Longrightarrow> dst_room d m"
  by (auto simp: dst_room_def split: option.splits)

lemma dst_at_Nil [simp]: "dst_at d [] = d"
  by (cases d) (simp_all add: dst_at_def)

lemma put_all_dst:
  "dst_room d (length us + length vs) \<Longrightarrow>
   put_all (dst_at d us) (length us) vs = Some (dst_at d (us @ map word_of_int vs))"
  using put_all_blit [of 0 us vs] by (cases d) (simp_all add: dst_at_def dst_room_def)

lemma utf8_write_dst:
  "0 \<le> v \<Longrightarrow> dst_room d (length us + utf8_len v) \<Longrightarrow>
   utf8_write (dst_at d us) (length us) v = Some (utf8_len v, dst_at d (us @ utf8_bytes v))"
  using utf8_write_blit [of v 0 us] by (cases d) (simp_all add: utf8_write_size dst_at_def dst_room_def)

section \<open>Well-formed texts\<close>

lemma lead_table:
  "list_all (\<lambda>w. \<not> (word_of_int w :: byte) \<ge> 128) [0..127]"
  "list_all (\<lambda>w. let c = word_of_int (0xc0 + w) in c \<ge> 128 \<and> utf8_check_len c = Some 1) [0..31]"
  "list_all (\<lambda>w. let c = word_of_int (0xe0 + w) in c \<ge> 128 \<and> utf8_check_len c = Some 2) [0..15]"
  "list_all (\<lambda>w. let c = word_of_int (0xf0 + w) in c \<ge> 128 \<and> utf8_check_len c = Some 3) [0..7]"
  "list_all (\<lambda>w. (word_of_int (0x80 + w) :: byte) AND 0xc0 = 0x80) [0..63]"
  by code_simp+

lemma lead_byte:
  "0 \<le> w \<Longrightarrow> w < 128 \<Longrightarrow> \<not> (word_of_int w :: byte) \<ge> 128"
  "0 \<le> w \<Longrightarrow> w < 32 \<Longrightarrow> word_of_int (0xc0 + w) \<ge> (128 :: byte) \<and> utf8_check_len (word_of_int (0xc0 + w)) = Some 1"
  "0 \<le> w \<Longrightarrow> w < 16 \<Longrightarrow> word_of_int (0xe0 + w) \<ge> (128 :: byte) \<and> utf8_check_len (word_of_int (0xe0 + w)) = Some 2"
  "0 \<le> w \<Longrightarrow> w < 8 \<Longrightarrow> word_of_int (0xf0 + w) \<ge> (128 :: byte) \<and> utf8_check_len (word_of_int (0xf0 + w)) = Some 3"
  "(word_of_int (0x80 + u mod 64) :: byte) AND 0xc0 = 0x80"
  using lead_table unfolding list_all_iff set_upto Let_def by auto

lemma utf8_check_char:
  assumes "0 \<le> v" "v < 0x200000"
  shows "utf8_check_loop (utf8_bytes v @ rest) = utf8_check_loop rest"
proof -
  consider "v < 128" | "128 \<le> v" "v < 0x800" | "0x800 \<le> v" "v < 0x10000" | "0x10000 \<le> v"
    by linarith
  then show ?thesis
  proof cases
    case 1 then show ?thesis using assms lead_byte(1) [of v] by (simp add: utf8_bytes_def)
  next
    case 2
    define w where "w = v div 64"
    have "0 \<le> w" "w < 32" using 2 by (simp_all add: w_def)
    with 2 show ?thesis using lead_byte(2) [of w] lead_byte(5) [of v]
      by (simp add: utf8_bytes_def w_def [symmetric] del: of_int_add)
  next
    case 3
    define w where "w = v div 4096"
    have "0 \<le> w" "w < 16" using 3 by (simp_all add: w_def)
    with 3 show ?thesis using lead_byte(3) [of w] lead_byte(5) [of v] lead_byte(5) [of "v div 64"]
      by (simp add: utf8_bytes_def w_def [symmetric] numeral_2_eq_2 del: of_int_add)
  next
    case 4
    define w where "w = v div 262144 mod 8"
    have "0 \<le> w" "w < 8" by (simp_all add: w_def)
    with 4 show ?thesis using lead_byte(4) [of w] lead_byte(5) [of v] lead_byte(5) [of "v div 64"]
        lead_byte(5) [of "v div 4096"]
      by (simp add: utf8_bytes_def w_def [symmetric] numeral_3_eq_3 del: of_int_add)
  qed
qed

lemma utf8_next_ascii_char:
  assumes "0 \<le> c" "c < 128" "p < e" "e \<le> length mem" "mem ! p = word_of_int c"
  shows "utf8_next mem p e = Some (c, p + 1)"
proof -
  have "uint (word_of_int c :: byte) = c" using assms by (simp add: uint_word_of_int mod_pos_pos_trivial)
  then show ?thesis using utf8_next_ascii [of p e mem] lead_byte(1) [of c] assms by (simp add: not_le)
qed

definition utf8_text :: "int list \<Rightarrow> bytes" where
  "utf8_text vs = concat (map utf8_bytes vs)"

definition ucs2_bytes :: "int list \<Rightarrow> bytes" where
  "ucs2_bytes vs = concat (map (\<lambda>v. [word_of_int (v div 256), word_of_int v]) vs)"

lemma utf8_check_text:
  "\<forall>v \<in> set vs. 0 \<le> v \<and> v < 0x200000 \<Longrightarrow> utf8_check_loop (utf8_text vs)"
  by (induction vs) (simp_all add: utf8_text_def utf8_check_char)

lemma ucs2_bytes_simps [simp]:
  "ucs2_bytes [] = []"
  "ucs2_bytes (v # vs) = word_of_int (v div 256) # word_of_int v # ucs2_bytes vs"
  by (simp_all add: ucs2_bytes_def)

lemma length_ucs2_bytes [simp]: "length (ucs2_bytes vs) = 2 * length vs"
  by (induction vs) auto

lemma utf8_text_simps [simp]:
  "utf8_text [] = []" "utf8_text (v # vs) = utf8_bytes v @ utf8_text vs"
  by (simp_all add: utf8_text_def)

lemma ucs2_char:
  assumes "0 \<le> v" "v < 0x10000"
  shows "push_bit 8 (uint (word_of_int (v div 256) :: byte)) OR uint (word_of_int v :: byte) = v"
proof -
  have "uint (word_of_int (v div 256) :: byte) = v div 256" "uint (word_of_int v :: byte) = v mod 256"
    using assms by (simp_all add: uint_word_of_int mod_pos_pos_trivial)
  moreover have "push_bit 8 (v div 256) OR (v mod 256) = v"
  proof -
    have "push_bit 8 (drop_bit 8 v) OR take_bit 8 v = v"
      by (rule bit_eqI) (auto simp: bit_simps)
    then show ?thesis by (simp add: drop_bit_eq_div take_bit_eq_mod)
  qed
  ultimately show ?thesis by simp
qed

section \<open>From UCS-2\<close>

lemma ucs2_loop_step:
  assumes "mem = pre @ ucs2_bytes (v # vs) @ post" "0 \<le> v" "v < 0x10000" "p = length pre"
  shows "ucs2_to_utf8_loop (Suc n) mem p buf r =
    Option.bind (utf8_write buf r v) (\<lambda>(k, buf'). ucs2_to_utf8_loop n mem (p + 2) buf' (r + k))"
proof -
  have "rd mem p = Some (word_of_int (v div 256))" "rd mem (p + 1) = Some (word_of_int v)"
    using assms(1,4) by (simp_all add: rd_def nth_append)
  then show ?thesis using ucs2_char [OF assms(2,3)] by simp
qed

lemma ucs2_loop_size:
  assumes "mem = pre @ ucs2_bytes vs @ post" "\<forall>v \<in> set vs. 0 \<le> v \<and> v < 0x10000" "p = length pre"
  shows "ucs2_to_utf8_loop (length vs) mem p None r = Some (r + length (utf8_text vs), None)"
  using assms
proof (induction vs arbitrary: pre p r)
  case (Cons v vs)
  then show ?case
    using Cons.IH [of "pre @ ucs2_bytes [v]" "p + 2"] ucs2_loop_step [OF Cons.prems(1), of p "length vs" None r]
    by (simp add: utf8_write_size add.assoc)
qed simp

lemma ucs2_loop_blit:
  assumes "mem = pre @ ucs2_bytes vs @ post" "\<forall>v \<in> set vs. 0 \<le> v \<and> v < 0x10000" "p = length pre"
    and "length us + length (utf8_text vs) \<le> length buf" "r = length us"
  shows "ucs2_to_utf8_loop (length vs) mem p (Some (blit buf 0 us)) r =
    Some (r + length (utf8_text vs), Some (blit buf 0 (us @ utf8_text vs)))"
  using assms
proof (induction vs arbitrary: pre p us r)
  case (Cons v vs)
  have "utf8_write (Some (blit buf 0 us)) r v = Some (utf8_len v, Some (blit buf 0 (us @ utf8_bytes v)))"
    using Cons.prems utf8_write_blit [of v 0 us buf] by simp
  then show ?case
    using Cons.prems Cons.IH [of "pre @ ucs2_bytes [v]" "p + 2" "us @ utf8_bytes v" "r + utf8_len v"]
      ucs2_loop_step [OF Cons.prems(1), of p "length vs" "Some (blit buf 0 us)" r]
    by (simp add: add.assoc)
qed simp

section \<open>To UCS-2\<close>

lemma ucs2_write_blit:
  "i + length us + 2 \<le> length xs \<Longrightarrow>
   ucs2_write (Some (blit xs i us)) (i + length us) v = Some (2, Some (blit xs i (us @ ucs2_bytes [v])))"
  using put_all_blit [of i us "[drop_bit 8 v, v]" xs]
  by (simp add: ucs2_write_def drop_bit_eq_div)

lemma utf8_to_ucs2_ascii_loop:
  assumes "utf8 = pre @ map word_of_int vs" "p = length pre" "n = length vs"
    and "\<forall>v \<in> set vs. 0 \<le> v \<and> v < 128"
    and "length us + 2 * length vs \<le> length dst" "r = length us"
  shows "utf8_to_ucs2_loop n utf8 p (length utf8) (Some (blit dst 0 us)) r =
    Some (r + 2 * length vs, Some (blit dst 0 (us @ ucs2_bytes vs)))"
  using assms
proof (induction vs arbitrary: pre p n us r)
  case (Cons v vs)
  have b: "utf8 ! p = word_of_int v" "p < length utf8" using Cons.prems by (simp_all add: nth_append)
  have "utf8_next utf8 p (length utf8) = Some (v, p + 1)"
    using b Cons.prems(4) by (intro utf8_next_ascii_char) auto
  moreover have "ucs2_write (Some (blit dst 0 us)) r v = Some (2, Some (blit dst 0 (us @ ucs2_bytes [v])))"
    using Cons.prems ucs2_write_blit [of 0 us dst v] by simp
  ultimately show ?case
    using Cons.prems b Cons.IH [of "pre @ [word_of_int v]" "p + 1" "n - 1" "us @ ucs2_bytes [v]" "r + 2"]
    by simp
qed simp

lemma utf8_next_multibyte:
  assumes "p + 1 < e" "e \<le> length mem" "mem ! p \<ge> 128" "mem ! (p + 1) AND 0xc0 = 0x80"
  shows "utf8_next mem p e = None"
  using assms by (auto simp: utf8_next_def utf8_next_cont_eq rd_Some Let_def)

section \<open>Properties\<close>

text \<open>C39: a message in UCS-2 becomes the UTF-8 text of its characters: the sizing pass returns
  the size of the text, the writing pass needs no more room than that and writes the text, and
  the text passes \<open>utf8_check\<close>.\<close>

theorem ucs2_to_utf8_correct:
  assumes "\<forall>v \<in> set vs. 0 \<le> v \<and> v < 0x10000" "length (utf8_text vs) \<le> length buf"
  shows "ucs2_to_utf8 (ucs2_bytes vs @ post) (int (length vs)) None = Some (length (utf8_text vs), None) \<and>
    ucs2_to_utf8 (ucs2_bytes vs @ post) (int (length vs)) (Some buf) =
      Some (length (utf8_text vs), Some (utf8_text vs @ drop (length (utf8_text vs)) buf)) \<and>
    utf8_check (Some (utf8_text vs)) = 1"
  using ucs2_loop_size [of "ucs2_bytes vs @ post" "[]" vs post 0 0]
    ucs2_loop_blit [of "ucs2_bytes vs @ post" "[]" vs post 0 "[]" buf 0]
    utf8_check_text [of vs] assms
  by (force simp: ucs2_to_utf8_def utf8_check_def blit_def)

lemma ucs2_to_utf8_correct_witness:
  "ucs2_to_utf8 (ucs2_bytes [65, 0x20ac] @ []) (int (length [65, 0x20ac :: int])) None =
     Some (length (utf8_text [65, 0x20ac]), None) \<and>
   ucs2_to_utf8 (ucs2_bytes [65, 0x20ac] @ []) (int (length [65, 0x20ac :: int])) (Some [0, 0, 0, 0, 9]) =
     Some (length (utf8_text [65, 0x20ac]), Some (utf8_text [65, 0x20ac] @ drop (length (utf8_text [65, 0x20ac])) [0, 0, 0, 0, 9])) \<and>
   utf8_check (Some (utf8_text [65, 0x20ac])) = 1"
  by (rule ucs2_to_utf8_correct) (simp_all add: utf8_len_def)

text \<open>The conversion to UCS-2 is right on ASCII texts, and it does not return on a text that
  has an ASCII part followed by a character of two or more bytes.\<close>

theorem utf8_to_ucs2_ascii_only:
  assumes "\<forall>v \<in> set vs. 0 \<le> v \<and> v < 128" "2 * length vs \<le> length dst"
    and "a \<ge> (128 :: byte)" "b AND 0xc0 = (0x80 :: byte)"
  shows "utf8_to_ucs2 (map word_of_int vs) (length vs) (Some dst) =
           Some (length vs, Some (ucs2_bytes vs @ drop (2 * length vs) dst)) \<and>
         utf8_to_ucs2 (map word_of_int vs @ a # b # rest) (length vs + 2 + length rest) None = None"
proof
  show "utf8_to_ucs2 (map word_of_int vs) (length vs) (Some dst) =
      Some (length vs, Some (ucs2_bytes vs @ drop (2 * length vs) dst))"
    using utf8_to_ucs2_ascii_loop [of "map word_of_int vs" "[]" vs 0 "length vs" "[]" dst 0] assms(1,2)
    by (simp add: utf8_to_ucs2_def blit_def)
  let ?m = "map word_of_int vs @ a # b # rest" and ?e = "length vs + 2 + length rest"
  have "p \<le> length vs \<Longrightarrow> utf8_to_ucs2_loop (Suc (length vs - p) + k) ?m p ?e None r = None" for p k r
  proof (induction "length vs - p" arbitrary: p r)
    case 0
    then have "utf8_next ?m p ?e = None"
      using assms(3,4) by (intro utf8_next_multibyte) (simp_all add: nth_append)
    then show ?case using 0 by simp
  next
    case (Suc d)
    then have "p < length vs" by simp
    then have "?m ! p = word_of_int (vs ! p)" "0 \<le> vs ! p \<and> vs ! p < 128"
      using assms(1) by (simp_all add: nth_append)
    moreover from this have "\<not> (128 :: byte) \<le> word_of_int (vs ! p)" using lead_byte(1) by blast
    ultimately have "utf8_next ?m p ?e = Some (uint (?m ! p), p + 1)"
      using Suc by (intro utf8_next_ascii) auto
    moreover have "Suc (length vs - p) = Suc (Suc (length vs - (p + 1)))" using Suc by simp
    ultimately show ?case using Suc by (simp add: ucs2_write_def)
  qed
  from this [of 0 "1 + length rest" 0] show "utf8_to_ucs2 ?m ?e None = None"
    by (simp add: utf8_to_ucs2_def)
qed

lemma utf8_to_ucs2_ascii_only_witness:
  "utf8_to_ucs2 (map word_of_int [72, 105]) (length [72, 105 :: int]) (Some [0, 0, 0, 0]) =
     Some (length [72, 105 :: int], Some (ucs2_bytes [72, 105] @ drop (2 * length [72, 105 :: int]) [0, 0, 0, 0])) \<and>
   utf8_to_ucs2 (map word_of_int [72, 105] @ 0xc3 # 0xa9 # []) (length [72, 105 :: int] + 2 + length ([] :: bytes)) None = None"
  by (rule utf8_to_ucs2_ascii_only) simp_all

end
