(* ===== verification/Gsm_Alphabet.thy ===== *)
theory Gsm_Alphabet
  imports Gsm_Text
begin

text \<open>
  The GSM default alphabet of \<open>src/huawei-generic/gsm.c\<close>: its two tables, texts of packed
  7-bit characters (septets) at any bit offset, texts of one character per byte, and their
  conversions from and to UTF-8 and UCS-2.  The bit writer is a record; the memory it writes to
  is passed beside it.  A packed text is described by the bits of the memory, counted from bit 0
  of byte 0, and the lemmas show that what the writer packs is what the reader unpacks.
\<close>

section \<open>The alphabet\<close>

definition GSM_7BITS_ESCAPE :: int where
  "GSM_7BITS_ESCAPE = 0x1b"

definition gsm7bits_to_unicode :: "int list" where
  "gsm7bits_to_unicode =
     [0x40, 0xa3, 0x24, 0xa5, 0xe8, 0xe9, 0xf9, 0xec, 0xf2, 0xc7, 0xa, 0xd8, 0xf8, 0xd, 0xc5, 0xe5,
      0x394, 0x5f, 0x3a6, 0x393, 0x39b, 0x3a9, 0x3a0, 0x3a8, 0x3a3, 0x398, 0x39e, 0, 0xc6, 0xe6, 0xdf, 0xc9,
      0x20, 0x21, 0x22, 0x23, 0xa4, 0x25, 0x26, 0x27, 0x28, 0x29, 0x2a, 0x2b, 0x2c, 0x2d, 0x2e, 0x2f,
      0x30, 0x31, 0x32, 0x33, 0x34, 0x35, 0x36, 0x37, 0x38, 0x39, 0x3a, 0x3b, 0x3c, 0x3d, 0x3e, 0x3f,
      0xa1, 0x41, 0x42, 0x43, 0x44, 0x45, 0x46, 0x47, 0x48, 0x49, 0x4a, 0x4b, 0x4c, 0x4d, 0x4e, 0x4f,
      0x50, 0x51, 0x52, 0x53, 0x54, 0x55, 0x56, 0x57, 0x58, 0x59, 0x5a, 0xc4, 0xd6, 0x147, 0xdc, 0xa7,
      0xbf, 0x61, 0x62, 0x63, 0x64, 0x65, 0x66, 0x67, 0x68, 0x69, 0x6a, 0x6b, 0x6c, 0x6d, 0x6e, 0x6f,
      0x70, 0x71, 0x72, 0x73, 0x74, 0x75, 0x76, 0x77, 0x78, 0x79, 0x7a, 0xe4, 0xf6, 0xf1, 0xfc, 0xe0]"

definition gsm7bits_extend_to_unicode :: "int list" where
  "gsm7bits_extend_to_unicode =
     [0, 0, 0, 0, 0, 0, 0, 0, 0, 0, 0xc, 0, 0, 0, 0, 0,
      0, 0, 0, 0, 0x5e, 0, 0, 0, 0, 0, 0, 0, 0, 0, 0, 0,
      0, 0, 0, 0, 0, 0, 0, 0, 0x7b, 0x7d, 0, 0, 0, 0, 0, 0x5c,
      0, 0, 0, 0, 0, 0, 0, 0, 0, 0, 0, 0, 0x5b, 0x7e, 0x5d, 0,
      0x7c, 0, 0, 0, 0, 0, 0, 0, 0, 0, 0, 0, 0, 0, 0, 0,
      0, 0, 0, 0, 0, 0, 0, 0, 0, 0, 0, 0, 0, 0, 0, 0,
      0, 0, 0, 0, 0, 0x20ac, 0, 0, 0, 0, 0, 0, 0, 0, 0, 0,
      0, 0, 0, 0, 0, 0, 0, 0, 0, 0, 0, 0, 0, 0, 0, 0]"

fun table_search :: "int list \<Rightarrow> int \<Rightarrow> int \<Rightarrow> int" where
  "table_search [] nn u = -1"
| "table_search (x # xs) nn u = (if x = u then nn else table_search xs (nn + 1) u)"

definition unichar_to_gsm7 :: "int \<Rightarrow> int" where
  "unichar_to_gsm7 unicode = table_search gsm7bits_to_unicode 0 unicode"

definition unichar_to_gsm7_extend :: "int \<Rightarrow> int" where
  "unichar_to_gsm7_extend unichar = table_search gsm7bits_extend_to_unicode 0 unichar"

definition unichar_to_gsm7_count :: "int \<Rightarrow> nat" where
  "unichar_to_gsm7_count unicode =
     (if unichar_to_gsm7 unicode \<ge> 0 then 1
      else if unichar_to_gsm7_extend unicode \<ge> 0 then 2 else 0)"

text \<open>Loops over a UTF-8 text take at most as many rounds as it has bytes; \<open>n\<close> counts them.\<close>

fun utf8_check_gsm7_loop :: "nat \<Rightarrow> bytes \<Rightarrow> nat \<Rightarrow> nat \<Rightarrow> int option" where
  "utf8_check_gsm7_loop 0 utf8 p e = Some 1"
| "utf8_check_gsm7_loop (Suc n) utf8 p e =
     (if p < e then do {
        (c, p') \<leftarrow> utf8_next utf8 p e;
        if unichar_to_gsm7_count c = 0 then Some 0 else utf8_check_gsm7_loop n utf8 p' e }
      else Some 1)"

definition utf8_check_gsm7 :: "bytes \<Rightarrow> nat \<Rightarrow> int option" where
  "utf8_check_gsm7 utf8 utf8len = utf8_check_gsm7_loop utf8len utf8 0 utf8len"

section \<open>Reading packed texts\<close>

text \<open>The septet at byte \<open>p\<close>, bit \<open>shift\<close>: the second byte is read only when it is needed.\<close>

definition gsm7_septet :: "bytes \<Rightarrow> nat \<Rightarrow> nat \<Rightarrow> int option" where
  "gsm7_septet src p shift = do {
     b0 \<leftarrow> rd src p;
     let c = drop_bit shift (uint b0) AND 0x7f;
     if shift > 1 then do {
       b1 \<leftarrow> rd src (p + 1);
       Some ((push_bit (8 - shift) (uint b1) OR c) AND 0x7f) }
     else Some c }"

fun utf8_from_gsm7_loop ::
  "nat \<Rightarrow> bytes \<Rightarrow> nat \<Rightarrow> nat \<Rightarrow> bool \<Rightarrow> bytes option \<Rightarrow> nat \<Rightarrow> (nat \<times> bytes option) option" where
  "utf8_from_gsm7_loop 0 src p shift escaped utf8 result = Some (result, utf8)"
| "utf8_from_gsm7_loop (Suc count) src p shift escaped utf8 result = do {
     c \<leftarrow> gsm7_septet src p shift;
     let shift' = (if shift + 7 \<ge> 8 then shift + 7 - 8 else shift + 7);
     let p' = (if shift + 7 \<ge> 8 then p + 1 else p);
     if \<not> escaped \<and> c = GSM_7BITS_ESCAPE then utf8_from_gsm7_loop count src p' shift' True utf8 result
     else do {
       let v = (if escaped then gsm7bits_extend_to_unicode ! nat c else gsm7bits_to_unicode ! nat c);
       (k, utf8') \<leftarrow> utf8_write utf8 result v;
       utf8_from_gsm7_loop count src p' shift' escaped utf8' (result + k) } }"

definition utf8_from_gsm7 ::
  "bytes \<Rightarrow> nat \<Rightarrow> nat \<Rightarrow> bytes option \<Rightarrow> (nat \<times> bytes option) option" where
  "utf8_from_gsm7 src septet_offset septet_count utf8 =
     utf8_from_gsm7_loop septet_count src (septet_offset div 8) (septet_offset mod 8) False utf8 0"

fun utf8_from_gsm8_loop ::
  "nat \<Rightarrow> bytes \<Rightarrow> nat \<Rightarrow> bool \<Rightarrow> bytes option \<Rightarrow> nat \<Rightarrow> (nat \<times> bytes option) option" where
  "utf8_from_gsm8_loop 0 src p escaped utf8 result = Some (result, utf8)"
| "utf8_from_gsm8_loop (Suc count) src p escaped utf8 result = do {
     b \<leftarrow> rd src p;
     let c = uint b;
     if c = 0xff then Some (result, utf8)
     else if c = GSM_7BITS_ESCAPE \<and> \<not> escaped then
       utf8_from_gsm8_loop count src (p + 1) True utf8 result
     else do {
       let c' = (if c = GSM_7BITS_ESCAPE then 0x20
                 else if c \<ge> 0x80 then 0x20
                 else if escaped then gsm7bits_extend_to_unicode ! nat c
                 else gsm7bits_to_unicode ! nat c);
       let escaped' = (if c = GSM_7BITS_ESCAPE \<or> c \<ge> 0x80 then False else escaped);
       (k, utf8') \<leftarrow> utf8_write utf8 result c';
       utf8_from_gsm8_loop count src (p + 1) escaped' utf8' (result + k) } }"

definition utf8_from_gsm8 :: "bytes \<Rightarrow> int \<Rightarrow> bytes option \<Rightarrow> (nat \<times> bytes option) option" where
  "utf8_from_gsm8 src count utf8 = utf8_from_gsm8_loop (nat count) src 0 False utf8 0"

text \<open>\<open>ucs2_from_gsm7\<close> reads every septet from the same place and looks an escaped one up in the
  basic table, any other in the extension table.\<close>

fun ucs2_from_gsm7_loop ::
  "nat \<Rightarrow> bytes \<Rightarrow> nat \<Rightarrow> nat \<Rightarrow> bool \<Rightarrow> bytes option \<Rightarrow> nat \<Rightarrow> (nat \<times> bytes option) option" where
  "ucs2_from_gsm7_loop 0 src p shift escaped ucs2 result = Some (result, ucs2)"
| "ucs2_from_gsm7_loop (Suc count) src p shift escaped ucs2 result = do {
     val \<leftarrow> gsm7_septet src p shift;
     if escaped then do {
       (k, ucs2') \<leftarrow> ucs2_write ucs2 result (gsm7bits_to_unicode ! nat val);
       ucs2_from_gsm7_loop count src p shift False ucs2' (result + k) }
     else if val = GSM_7BITS_ESCAPE then ucs2_from_gsm7_loop count src p shift True ucs2 result
     else do {
       let val1 = gsm7bits_extend_to_unicode ! nat val;
       (k, ucs2') \<leftarrow> ucs2_write ucs2 result (if val1 = 0 then 0x20 else val1);
       ucs2_from_gsm7_loop count src p shift escaped ucs2' (result + k) } }"

definition ucs2_from_gsm7 ::
  "bytes option \<Rightarrow> bytes \<Rightarrow> nat \<Rightarrow> nat \<Rightarrow> (nat \<times> bytes option) option" where
  "ucs2_from_gsm7 ucs2 src septet_offset septet_count =
     map_option (\<lambda>(r, d). (r div 2, d))
       (ucs2_from_gsm7_loop septet_count src (septet_offset div 8) (septet_offset mod 8) False ucs2 0)"

fun utf8_to_gsm7_count_loop :: "nat \<Rightarrow> bytes \<Rightarrow> nat \<Rightarrow> nat \<Rightarrow> nat \<Rightarrow> nat option" where
  "utf8_to_gsm7_count_loop 0 utf8 p e result = Some result"
| "utf8_to_gsm7_count_loop (Suc n) utf8 p e result =
     (if p < e then do {
        (c, p') \<leftarrow> utf8_next utf8 p e;
        if c < 0 then Some result
        else do {
          let len = unichar_to_gsm7_count c;
          utf8_to_gsm7_count_loop n utf8 p' e (result + (if len = 0 then 1 else len)) } }
      else Some result)"

definition utf8_to_gsm7_count :: "bytes \<Rightarrow> nat \<Rightarrow> nat option" where
  "utf8_to_gsm7_count utf8 utf8len = utf8_to_gsm7_count_loop utf8len utf8 0 utf8len 0"

section \<open>Writing packed texts\<close>

record bwriter =
  bw_dst :: nat
  bw_pad :: "32 word"
  bw_bits :: nat
  bw_offset :: nat

definition bwriter_init :: "bytes \<Rightarrow> nat \<Rightarrow> bwriter option" where
  "bwriter_init dst start =
     (let shift = start mod 8;
          w = \<lparr>bw_dst = start div 8, bw_pad = 0, bw_bits = shift, bw_offset = start\<rparr>
      in if shift > 0 then do {
           b \<leftarrow> rd dst (start div 8);
           Some (w\<lparr>bw_pad := ucast b AND NOT (push_bit shift 0xFF)\<rparr>) }
         else Some w)"

definition bwriter_add7 :: "bwriter \<Rightarrow> bytes \<Rightarrow> int \<Rightarrow> (bwriter \<times> bytes) option" where
  "bwriter_add7 w dst value =
     (let pad = bw_pad w OR push_bit (bw_bits w) (word_of_int value);
          bits = bw_bits w + 7
      in if bits \<ge> 8 then do {
           dst' \<leftarrow> wr dst (bw_dst w) (ucast pad);
           Some (w\<lparr>bw_pad := drop_bit 8 pad, bw_bits := bits - 8, bw_dst := bw_dst w + 1,
                   bw_offset := bw_offset w + 7\<rparr>, dst') }
         else Some (w\<lparr>bw_pad := pad, bw_bits := bits, bw_offset := bw_offset w + 7\<rparr>, dst))"

definition bwriter_done :: "bwriter \<Rightarrow> bytes \<Rightarrow> (nat \<times> bytes) option" where
  "bwriter_done w dst =
     (if bw_bits w > 0 then map_option (Pair (bw_offset w)) (wr dst (bw_dst w) (ucast (bw_pad w)))
      else Some (bw_offset w, dst))"

text \<open>One character of a text: its septet, escape and septet, or a blank.\<close>

definition gsm7_put_char :: "bwriter \<Rightarrow> bytes \<Rightarrow> int \<Rightarrow> (bwriter \<times> bytes) option" where
  "gsm7_put_char w dst c =
     (let nn = unichar_to_gsm7 c in
      if nn \<ge> 0 then bwriter_add7 w dst nn
      else let ext = unichar_to_gsm7_extend c in
      if ext \<ge> 0 then
        Option.bind (bwriter_add7 w dst GSM_7BITS_ESCAPE) (\<lambda>(w1, dst1). bwriter_add7 w1 dst1 ext)
      else bwriter_add7 w dst 0x20)"

fun utf8_to_gsm7_loop ::
  "nat \<Rightarrow> bytes \<Rightarrow> nat \<Rightarrow> nat \<Rightarrow> bwriter \<Rightarrow> bytes \<Rightarrow> (nat \<times> bytes) option" where
  "utf8_to_gsm7_loop 0 utf8 p e w dst = bwriter_done w dst"
| "utf8_to_gsm7_loop (Suc n) utf8 p e w dst =
     (if p < e then do {
        (c, p') \<leftarrow> utf8_next utf8 p e;
        if c < 0 then bwriter_done w dst
        else do {
          (w', dst') \<leftarrow> gsm7_put_char w dst c;
          utf8_to_gsm7_loop n utf8 p' e w' dst' } }
      else bwriter_done w dst)"

definition utf8_to_gsm7 :: "bytes \<Rightarrow> nat \<Rightarrow> bytes option \<Rightarrow> nat \<Rightarrow> (nat \<times> bytes option) option" where
  "utf8_to_gsm7 utf8 utf8len dst offset =
     (case dst of
        None \<Rightarrow> map_option (\<lambda>n. (n, None)) (utf8_to_gsm7_count utf8 utf8len)
      | Some d \<Rightarrow>
          Option.bind (bwriter_init d offset)
            (\<lambda>w. map_option (\<lambda>(n, d'). (n, Some d')) (utf8_to_gsm7_loop utf8len utf8 0 utf8len w d)))"

text \<open>One character of a text of one character per byte.\<close>

definition gsm8_put_char :: "bytes option \<Rightarrow> nat \<Rightarrow> int \<Rightarrow> (nat \<times> bytes option) option" where
  "gsm8_put_char dst result c =
     (let nn = unichar_to_gsm7 c in
      if nn \<ge> 0 then map_option (Pair 1) (put_all dst result [nn])
      else let ext = unichar_to_gsm7_extend c in
      if ext \<ge> 0 then map_option (Pair 2) (put_all dst result [GSM_7BITS_ESCAPE, ext])
      else map_option (Pair 1) (put_all dst result [0x20]))"

fun utf8_to_gsm8_loop ::
  "nat \<Rightarrow> bytes \<Rightarrow> nat \<Rightarrow> nat \<Rightarrow> bytes option \<Rightarrow> nat \<Rightarrow> (nat \<times> bytes option) option" where
  "utf8_to_gsm8_loop 0 utf8 p e dst result = Some (result, dst)"
| "utf8_to_gsm8_loop (Suc n) utf8 p e dst result =
     (if p < e then do {
        (c, p') \<leftarrow> utf8_next utf8 p e;
        if c < 0 then Some (result, dst)
        else do {
          (k, dst') \<leftarrow> gsm8_put_char dst result c;
          utf8_to_gsm8_loop n utf8 p' e dst' (result + k) } }
      else Some (result, dst))"

definition utf8_to_gsm8 :: "bytes \<Rightarrow> nat \<Rightarrow> bytes option \<Rightarrow> (nat \<times> bytes option) option" where
  "utf8_to_gsm8 utf8 utf8len dst = utf8_to_gsm8_loop utf8len utf8 0 utf8len dst 0"

text \<open>The two conversions from UCS-2 take one byte of the source for a character.\<close>

fun ucs2_to_gsm7_loop :: "nat \<Rightarrow> bytes \<Rightarrow> nat \<Rightarrow> bwriter \<Rightarrow> bytes \<Rightarrow> (nat \<times> bytes) option" where
  "ucs2_to_gsm7_loop 0 ucs2 p w dst = bwriter_done w dst"
| "ucs2_to_gsm7_loop (Suc n) ucs2 p w dst = do {
     b \<leftarrow> rd ucs2 p;
     (w', dst') \<leftarrow> gsm7_put_char w dst (uint b);
     ucs2_to_gsm7_loop n ucs2 (p + 1) w' dst' }"

definition ucs2_to_gsm7 :: "bytes \<Rightarrow> nat \<Rightarrow> bytes \<Rightarrow> nat \<Rightarrow> (nat \<times> bytes) option" where
  "ucs2_to_gsm7 ucs2 ucs2len dst offset =
     Option.bind (bwriter_init dst offset) (\<lambda>w. ucs2_to_gsm7_loop (ucs2len * 2) ucs2 0 w dst)"

fun ucs2_to_gsm8_loop :: "nat \<Rightarrow> bytes \<Rightarrow> nat \<Rightarrow> bytes option \<Rightarrow> nat \<Rightarrow> (nat \<times> bytes option) option" where
  "ucs2_to_gsm8_loop 0 ucs2 p dst result = Some (result, dst)"
| "ucs2_to_gsm8_loop (Suc n) ucs2 p dst result = do {
     b \<leftarrow> rd ucs2 p;
     (k, dst') \<leftarrow> gsm8_put_char dst result (uint b);
     ucs2_to_gsm8_loop n ucs2 (p + 1) dst' (result + k) }"

definition ucs2_to_gsm8 :: "bytes \<Rightarrow> nat \<Rightarrow> bytes \<Rightarrow> (nat \<times> bytes option) option" where
  "ucs2_to_gsm8 ucs2 ucs2len dst = ucs2_to_gsm8_loop (ucs2len * 2) ucs2 0 (Some dst) 0"

section \<open>The bits of a memory\<close>

definition mem_bit :: "bytes \<Rightarrow> nat \<Rightarrow> bool" where
  "mem_bit mem i = bit (mem ! (i div 8)) (i mod 8)"

definition bits7 :: "int \<Rightarrow> bool list" where
  "bits7 v = map (bit v) [0..<7]"

lemma length_bits7 [simp]: "length (bits7 v) = 7"
  by (simp add: bits7_def)

lemma bits7_nth: "j < 7 \<Longrightarrow> bits7 v ! j = bit v j"
  by (simp add: bits7_def)

lemma bit_septet:
  assumes "0 \<le> v" "v < 128"
  shows "bit (v :: int) j \<longleftrightarrow> j < 7 \<and> bit v j"
proof -
  have "take_bit 7 v = v" using assms by (simp add: take_bit_int_eq_self)
  then show ?thesis by (metis bit_take_bit_iff)
qed

lemma mem_bit_byte: "s < 8 \<Longrightarrow> mem_bit mem (8 * p + s) = bit (mem ! p) s"
  by (simp add: mem_bit_def)

lemma gsm7_septet_bits:
  assumes "s < 8" "p < length src" "s > 1 \<longrightarrow> p + 1 < length src"
  shows "\<exists>c. gsm7_septet src p s = Some c \<and> (\<forall>j. bit c j \<longleftrightarrow> j < 7 \<and> mem_bit src (8 * p + s + j))"
proof -
  have m: "(0x7f :: int) = mask 7" by (simp add: mask_eq_exp_minus_1)
  have b: "bit (uint (src ! q)) k \<longleftrightarrow> k < 8 \<and> bit (src ! q) k" for q k
    using bit_imp_le_length [of "src ! q" k] by (auto simp: bit_simps)
  have in_p: "mem_bit src (8 * p + s + j) = bit (src ! p) (s + j)" if "s + j < 8" for j
    using mem_bit_byte [OF that, of src p] by (simp add: add.assoc)
  have in_q: "mem_bit src (8 * p + s + j) = bit (src ! (p + 1)) (s + j - 8)" if "8 \<le> s + j" "j < 7" for j
    using mem_bit_byte [of "s + j - 8" src "p + 1"] that assms(1) by (simp add: algebra_simps)
  show ?thesis
  proof (cases "s > 1")
    case True
    define c where "c = (push_bit (8 - s) (uint (src ! (p + 1))) OR (drop_bit s (uint (src ! p)) AND 0x7f)) AND 0x7f"
    have "bit c j \<longleftrightarrow> j < 7 \<and> mem_bit src (8 * p + s + j)" for j
    proof (cases "s + j < 8")
      case T: True
      then show ?thesis using in_p [OF T] assms(1)
        by (auto simp: c_def m bit_simps b add.commute)
    next
      case F: False
      then have "j - (8 - s) = s + j - 8" "8 - s \<le> j" using assms(1) by simp_all
      moreover have "\<not> bit (src ! p) (s + j)" using F bit_imp_le_length [of "src ! p" "s + j"] by auto
      ultimately show ?thesis using in_q [of j] F assms(1)
        by (auto simp: c_def m bit_simps b)
    qed
    moreover have "gsm7_septet src p s = Some c"
      using True assms by (simp add: gsm7_septet_def rd_Some c_def Let_def)
    ultimately show ?thesis by blast
  next
    case False
    define c where "c = drop_bit s (uint (src ! p)) AND 0x7f"
    have "bit c j \<longleftrightarrow> j < 7 \<and> mem_bit src (8 * p + s + j)" for j
    proof (cases "j < 7")
      case True
      then have "s + j < 8" using False by simp
      then show ?thesis using in_p [of j] by (auto simp: c_def m bit_simps b)
    qed (simp add: c_def m bit_simps)
    moreover have "gsm7_septet src p s = Some c"
      using False assms by (simp add: gsm7_septet_def rd_Some c_def Let_def)
    ultimately show ?thesis by blast
  qed
qed

text \<open>A septet that lies at bit \<open>o\<close> of the memory is read as such.\<close>

lemma gsm7_septet_eq:
  assumes "s < 8" "p < length src" "s > 1 \<longrightarrow> p + 1 < length src" "0 \<le> v" "v < 128"
    and "\<forall>j < 7. mem_bit src (8 * p + s + j) = bits7 v ! j"
  shows "gsm7_septet src p s = Some v"
proof -
  obtain c where c: "gsm7_septet src p s = Some c"
      "\<And>j. bit c j \<longleftrightarrow> j < 7 \<and> mem_bit src (8 * p + s + j)"
    using gsm7_septet_bits [OF assms(1-3)] by blast
  have "c = v"
  proof (rule bit_eqI)
    fix j show "bit c j = bit v j"
      using c(2) [of j] bit_septet [OF assms(4,5), of j] assms(6) by (auto simp: bits7_nth)
  qed
  with c show ?thesis by simp
qed

section \<open>The writer\<close>

definition bw_inv :: "bwriter \<Rightarrow> bytes \<Rightarrow> bool list \<Rightarrow> bool" where
  "bw_inv w mem bs \<longleftrightarrow>
     bw_offset w = 8 * bw_dst w + bw_bits w \<and> bw_bits w < 8 \<and> length bs = bw_offset w \<and>
     (\<forall>i < 8 * bw_dst w. mem_bit mem i = bs ! i) \<and>
     (\<forall>j. bit (bw_pad w) j \<longleftrightarrow> j < bw_bits w \<and> bs ! (8 * bw_dst w + j))"

lemma mem_bit_update:
  assumes "d < length mem"
  shows "mem_bit (mem[d := b]) i = (if i div 8 = d then bit b (i mod 8) else mem_bit mem i)"
  using assms by (simp add: mem_bit_def nth_list_update)

lemma bwriter_init_inv:
  assumes "start mod 8 > 0 \<longrightarrow> start div 8 < length mem"
  shows "\<exists>w. bwriter_init mem start = Some w \<and> bw_inv w mem (map (mem_bit mem) [0..<start]) \<and> bw_offset w = start"
proof (cases "start mod 8 > 0")
  case True
  let ?s = "start mod 8" and ?d = "start div 8"
  let ?pad = "ucast (mem ! ?d) AND NOT (push_bit ?s 0xFF) :: 32 word"
  have m: "(0xFF :: 32 word) = mask 8" by (simp add: mask_eq_exp_minus_1)
  have "bit ?pad j \<longleftrightarrow> j < ?s \<and> mem_bit mem (8 * ?d + j)" for j
  proof (cases "j < 8")
    case True
    then have "8 * ?d + j = 8 * ?d + j" "mem_bit mem (8 * ?d + j) = bit (mem ! ?d) j"
      by (simp_all add: mem_bit_byte)
    with True show ?thesis by (auto simp: m bit_simps)
  next
    case False
    then have "\<not> j < ?s" by (meson mod_less_divisor order.strict_trans zero_less_numeral)
    moreover have "\<not> bit (mem ! ?d) j" using False by (simp add: bit_simps impossible_bit)
    ultimately show ?thesis by (simp add: bit_simps)
  qed
  moreover have "8 * ?d + j < start" if "j < ?s" for j
    using that by (metis add_less_cancel_left mult_div_mod_eq)
  ultimately show ?thesis using True assms
    by (auto simp: bwriter_init_def bw_inv_def rd_Some Let_def)
next
  case False
  then show ?thesis by (auto simp: bwriter_init_def bw_inv_def)
qed

lemma bits7_pad:
  assumes "0 \<le> v" "v < 128"
  shows "bit (push_bit k (word_of_int v :: 32 word)) j \<longleftrightarrow> j < 32 \<and> k \<le> j \<and> j - k < 7 \<and> bit v (j - k)"
  using bit_septet [OF assms, of "j - k"] by (auto simp: bit_simps)

lemma bwriter_add7_inv:
  assumes inv: "bw_inv w mem bs" and v: "0 \<le> v" "v < 128" and room: "bw_offset w + 7 \<le> 8 * length mem"
  shows "\<exists>w' mem'. bwriter_add7 w mem v = Some (w', mem') \<and> bw_inv w' mem' (bs @ bits7 v) \<and>
    length mem' = length mem \<and> bw_offset w' = bw_offset w + 7"
proof -
  let ?pad = "bw_pad w OR push_bit (bw_bits w) (word_of_int v)" and ?d = "bw_dst w" and ?k = "bw_bits w"
  from inv have k: "?k < 8" and off: "bw_offset w = 8 * ?d + ?k" and len: "length bs = 8 * ?d + ?k"
    by (auto simp: bw_inv_def)
  from inv have padw: "\<And>j. bit (bw_pad w) j \<longleftrightarrow> j < ?k \<and> bs ! (8 * ?d + j)"
    by (simp add: bw_inv_def)
  from inv have memw: "\<And>i. i < 8 * ?d \<Longrightarrow> mem_bit mem i = bs ! i"
    by (simp add: bw_inv_def)
  have pad: "bit ?pad j \<longleftrightarrow> j < ?k + 7 \<and> (bs @ bits7 v) ! (8 * ?d + j)" for j
  proof (cases "j < ?k")
    case True
    then show ?thesis unfolding bit_or_iff padw bits7_pad [OF v] by (simp add: nth_append len)
  next
    case False
    then have "(bs @ bits7 v) ! (8 * ?d + j) = bits7 v ! (j - ?k)" by (simp add: nth_append len)
    then show ?thesis unfolding bit_or_iff padw bits7_pad [OF v] using False k
      by (cases "j < ?k + 7") (simp_all add: bits7_nth less_diff_conv2)
  qed
  show ?thesis
  proof (cases "?k + 7 \<ge> 8")
    case False
    let ?w = "w\<lparr>bw_pad := ?pad, bw_bits := ?k + 7, bw_offset := bw_offset w + 7\<rparr>"
    have "bwriter_add7 w mem v = Some (?w, mem)" using False by (simp add: bwriter_add7_def Let_def)
    moreover have "bw_inv ?w mem (bs @ bits7 v)"
      unfolding bw_inv_def using False off len pad memw by (simp add: nth_append)
    ultimately show ?thesis by auto
  next
    case True
    then have d: "?d < length mem" using room off by simp
    let ?m = "mem[?d := ucast ?pad]"
    have mem: "mem_bit ?m i = (bs @ bits7 v) ! i" if "i < 8 * (?d + 1)" for i
    proof (cases "i < 8 * ?d")
      case True
      then have "i div 8 \<noteq> ?d" by auto
      then show ?thesis using True memw len d by (simp add: mem_bit_update nth_append)
    next
      case False
      define j where "j = i - 8 * ?d"
      have i: "i = 8 * ?d + j" "j < 8" using False that by (simp_all add: j_def)
      then have "mem_bit ?m i = bit ?pad j"
        using d by (simp add: mem_bit_update bit_ucast_iff)
      then show ?thesis using pad [of j] i True by simp
    qed
    have next_pad: "bit (drop_bit 8 ?pad) j \<longleftrightarrow> j < ?k + 7 - 8 \<and> (bs @ bits7 v) ! (8 * (?d + 1) + j)" for j
    proof -
      have "bit (drop_bit 8 ?pad) j \<longleftrightarrow> 8 + j < ?k + 7 \<and> (bs @ bits7 v) ! (8 * ?d + (8 + j))"
        unfolding bit_drop_bit_eq o_def pad ..
      moreover have "8 * ?d + (8 + j) = 8 * (?d + 1) + j" "8 + j < ?k + 7 \<longleftrightarrow> j < ?k + 7 - 8"
        by auto
      ultimately show ?thesis by (simp only:)
    qed
    let ?w = "w\<lparr>bw_pad := drop_bit 8 ?pad, bw_bits := ?k + 7 - 8, bw_dst := ?d + 1,
        bw_offset := bw_offset w + 7\<rparr>"
    have "bwriter_add7 w mem v = Some (?w, ?m)"
      using True d by (simp add: bwriter_add7_def Let_def wr_Some)
    moreover have "bw_inv ?w ?m (bs @ bits7 v)"
      unfolding bw_inv_def using True k off len mem next_pad by (simp del: drop_bit_or)
    ultimately show ?thesis by auto
  qed
qed

lemma bwriter_done_bits:
  assumes inv: "bw_inv w mem bs" and room: "bw_offset w \<le> 8 * length mem"
  shows "\<exists>mem'. bwriter_done w mem = Some (bw_offset w, mem') \<and> length mem' = length mem \<and>
    (\<forall>i < bw_offset w. mem_bit mem' i = bs ! i)"
proof -
  let ?d = "bw_dst w" and ?m = "mem[bw_dst w := ucast (bw_pad w)]"
  from inv have off: "bw_offset w = 8 * ?d + bw_bits w" "bw_bits w < 8"
    and memw: "\<And>i. i < 8 * ?d \<Longrightarrow> mem_bit mem i = bs ! i"
    and padw: "\<And>j. bit (bw_pad w) j \<longleftrightarrow> j < bw_bits w \<and> bs ! (8 * ?d + j)"
    by (simp_all add: bw_inv_def)
  show ?thesis
  proof (cases "bw_bits w > 0")
    case True
    with off room have d: "?d < length mem" by simp
    have "mem_bit ?m i = bs ! i" if "i < bw_offset w" for i
    proof (cases "i < 8 * ?d")
      case T: True
      then have "i div 8 \<noteq> ?d" by auto
      then show ?thesis using T memw d by (simp add: mem_bit_update)
    next
      case False
      define j where "j = i - 8 * ?d"
      have i: "i = 8 * ?d + j" "j < 8" "j < bw_bits w"
        using False that off by (simp_all add: j_def)
      then have "mem_bit ?m i = bit (bw_pad w) j"
        using d by (simp add: mem_bit_update bit_ucast_iff)
      then show ?thesis using padw i by simp
    qed
    then show ?thesis using True d by (simp add: bwriter_done_def wr_Some)
  next
    case False
    then show ?thesis using off memw by (simp add: bwriter_done_def)
  qed
qed

text \<open>A run of septets.\<close>

fun bwriter_puts :: "int list \<Rightarrow> bwriter \<Rightarrow> bytes \<Rightarrow> (bwriter \<times> bytes) option" where
  "bwriter_puts [] w mem = Some (w, mem)"
| "bwriter_puts (v # vs) w mem = Option.bind (bwriter_add7 w mem v) (\<lambda>(w', mem'). bwriter_puts vs w' mem')"

definition septet_bits :: "int list \<Rightarrow> bool list" where
  "septet_bits vs = concat (map bits7 vs)"

lemma septet_bits_simps [simp]:
  "septet_bits [] = []" "septet_bits (v # vs) = bits7 v @ septet_bits vs"
  "septet_bits (us @ vs) = septet_bits us @ septet_bits vs"
  by (simp_all add: septet_bits_def)

lemma length_septet_bits [simp]: "length (septet_bits vs) = 7 * length vs"
  by (induction vs) auto

lemma bwriter_puts_append:
  "bwriter_puts (us @ vs) w mem = Option.bind (bwriter_puts us w mem) (\<lambda>(w', mem'). bwriter_puts vs w' mem')"
proof (induction us arbitrary: w mem)
  case (Cons u us) then show ?case by (cases "bwriter_add7 w mem u") auto
qed simp

lemma bwriter_puts_inv:
  assumes "bw_inv w mem bs" "\<forall>v \<in> set vs. 0 \<le> v \<and> v < 128" "bw_offset w + 7 * length vs \<le> 8 * length mem"
  shows "\<exists>w' mem'. bwriter_puts vs w mem = Some (w', mem') \<and> bw_inv w' mem' (bs @ septet_bits vs) \<and>
    length mem' = length mem \<and> bw_offset w' = bw_offset w + 7 * length vs"
  using assms
proof (induction vs arbitrary: w mem bs)
  case (Cons v vs)
  then obtain w1 mem1 where "bwriter_add7 w mem v = Some (w1, mem1)" "bw_inv w1 mem1 (bs @ bits7 v)"
      "length mem1 = length mem" "bw_offset w1 = bw_offset w + 7"
    using bwriter_add7_inv [of w mem bs v] by auto
  then show ?case using Cons.IH [of w1 mem1 "bs @ bits7 v"] Cons.prems by auto
qed simp

section \<open>The reader\<close>

text \<open>The characters that \<open>utf8_from_gsm7\<close> takes a run of septets for: it never leaves the extension table once
  an escape was seen.\<close>

fun gsm7_decode :: "bool \<Rightarrow> int list \<Rightarrow> int list" where
  "gsm7_decode escaped [] = []"
| "gsm7_decode escaped (c # cs) =
     (if \<not> escaped \<and> c = GSM_7BITS_ESCAPE then gsm7_decode True cs
      else (if escaped then gsm7bits_extend_to_unicode ! nat c else gsm7bits_to_unicode ! nat c)
             # gsm7_decode escaped cs)"

lemma tables_nonneg:
  "list_all (\<lambda>v. 0 \<le> v) gsm7bits_to_unicode" "list_all (\<lambda>v. 0 \<le> v) gsm7bits_extend_to_unicode"
  by (simp_all add: gsm7bits_to_unicode_def gsm7bits_extend_to_unicode_def)

lemma length_tables [simp]: "length gsm7bits_to_unicode = 128" "length gsm7bits_extend_to_unicode = 128"
  by (simp_all add: gsm7bits_to_unicode_def gsm7bits_extend_to_unicode_def)

lemma table_nonneg:
  "0 \<le> c \<Longrightarrow> c < 128 \<Longrightarrow> 0 \<le> gsm7bits_to_unicode ! nat c"
  "0 \<le> c \<Longrightarrow> c < 128 \<Longrightarrow> 0 \<le> gsm7bits_extend_to_unicode ! nat c"
  using tables_nonneg by (simp_all add: list_all_length)

lemma utf8_from_gsm7_loop_text:
  assumes "\<forall>i < 7 * length cs. mem_bit mem (8 * p + s + i) = septet_bits cs ! i" "s < 8"
    and "\<forall>c \<in> set cs. 0 \<le> c \<and> c < 128" "8 * p + s + 7 * length cs \<le> 8 * length mem"
    and "dst_room d (length us + length (utf8_text (gsm7_decode escaped cs)))" "r = length us"
  shows "utf8_from_gsm7_loop (length cs) mem p s escaped (dst_at d us) r =
    Some (r + length (utf8_text (gsm7_decode escaped cs)), dst_at d (us @ utf8_text (gsm7_decode escaped cs)))"
  using assms
proof (induction cs arbitrary: p s escaped us r)
  case (Cons c cs)
  let ?s = "if s + 7 \<ge> 8 then s + 7 - 8 else s + 7" and ?p = "if s + 7 \<ge> 8 then p + 1 else p"
  have next_pos: "8 * ?p + ?s = 8 * p + s + 7" "?s < 8" using Cons.prems(2) by auto
  have c: "0 \<le> c" "c < 128" using Cons.prems(3) by auto
  have septet: "gsm7_septet mem p s = Some c"
  proof (rule gsm7_septet_eq)
    show "\<forall>j < 7. mem_bit mem (8 * p + s + j) = bits7 c ! j"
      using Cons.prems(1) by (auto simp: nth_append)
  qed (use Cons.prems(2,4) c in auto)
  have bits: "\<forall>i < 7 * length cs. mem_bit mem (8 * ?p + ?s + i) = septet_bits cs ! i"
  proof (intro allI impI)
    fix i assume "i < 7 * length cs"
    then show "mem_bit mem (8 * ?p + ?s + i) = septet_bits cs ! i"
      using Cons.prems(1)[rule_format, of "7 + i"] unfolding next_pos(1) by (simp add: nth_append add.assoc)
  qed
  have room: "8 * ?p + ?s + 7 * length cs \<le> 8 * length mem"
    using Cons.prems(4) unfolding next_pos(1) by simp
  note IH = Cons.IH [OF bits next_pos(2) _ room]
  show ?case
  proof (cases "\<not> escaped \<and> c = GSM_7BITS_ESCAPE")
    case True
    then show ?thesis using septet IH [of us True r] Cons.prems by (simp add: Let_def)
  next
    case False
    define v where "v = (if escaped then gsm7bits_extend_to_unicode ! nat c else gsm7bits_to_unicode ! nat c)"
    have v: "0 \<le> v" using table_nonneg [OF c] by (simp add: v_def)
    have dec: "gsm7_decode escaped (c # cs) = v # gsm7_decode escaped cs"
      using False by (auto simp: v_def)
    then have "dst_room d (length us + utf8_len v)"
      using Cons.prems(5) by (auto elim: dst_room_le)
    then have "utf8_write (dst_at d us) r v = Some (utf8_len v, dst_at d (us @ utf8_bytes v))"
      using utf8_write_dst v Cons.prems(6) by simp
    then show ?thesis
      using septet False IH [of "us @ utf8_bytes v" escaped "r + utf8_len v"] Cons.prems dec
      by (auto simp: v_def [symmetric] Let_def add.assoc simp del: gsm7_decode.simps)
  qed
qed simp

text \<open>Packing: the whole run of the writer.\<close>

lemma pack_bits:
  assumes "\<forall>v \<in> set vs. 0 \<le> v \<and> v < 128" "off + 7 * length vs \<le> 8 * length mem"
  shows "\<exists>w w' mem' mem''. bwriter_init mem off = Some w \<and> bwriter_puts vs w mem = Some (w', mem') \<and>
    bwriter_done w' mem' = Some (off + 7 * length vs, mem'') \<and> length mem'' = length mem \<and>
    (\<forall>i < off. mem_bit mem'' i = mem_bit mem i) \<and>
    (\<forall>i < 7 * length vs. mem_bit mem'' (off + i) = septet_bits vs ! i)"
proof -
  have "off mod 8 > 0 \<longrightarrow> off div 8 < length mem"
    using assms(2) by presburger
  from bwriter_init_inv [OF this] obtain w where w: "bwriter_init mem off = Some w" "bw_inv w mem (map (mem_bit mem) [0..<off])" "bw_offset w = off"
    by (elim exE conjE)
  then obtain w' mem' where w': "bwriter_puts vs w mem = Some (w', mem')"
      "bw_inv w' mem' (map (mem_bit mem) [0..<off] @ septet_bits vs)" "length mem' = length mem"
      "bw_offset w' = off + 7 * length vs"
    using bwriter_puts_inv [OF w(2) assms(1)] assms(2) by auto
  then obtain mem'' where m: "bwriter_done w' mem' = Some (off + 7 * length vs, mem'')" "length mem'' = length mem"
      "\<forall>i < off + 7 * length vs. mem_bit mem'' i = (map (mem_bit mem) [0..<off] @ septet_bits vs) ! i"
    using bwriter_done_bits [OF w'(2)] assms(2) by auto
  have "\<forall>i < off. mem_bit mem'' i = mem_bit mem i"
    using m(3) by (simp add: nth_append)
  moreover have "\<forall>i < 7 * length vs. mem_bit mem'' (off + i) = septet_bits vs ! i"
    using m(3) by (simp add: nth_append)
  ultimately show ?thesis using w(1) w'(1) m(1,2) by blast
qed

section \<open>Characters of the alphabet\<close>

lemma table_search_sound:
  "table_search xs k u = r \<Longrightarrow> 0 \<le> k \<Longrightarrow> 0 \<le> r \<Longrightarrow> k \<le> r \<and> r < k + int (length xs) \<and> xs ! nat (r - k) = u"
proof (induction xs arbitrary: k)
  case (Cons x xs)
  show ?case
  proof (cases "x = u")
    case True then show ?thesis using Cons.prems by auto
  next
    case False
    then have "k + 1 \<le> r \<and> r < k + 1 + int (length xs) \<and> xs ! nat (r - (k + 1)) = u"
      using Cons by auto
    moreover from this have "nat (r - k) = Suc (nat (r - (k + 1)))" by linarith
    ultimately show ?thesis by simp
  qed
qed simp

lemma unichar_to_gsm7_sound:
  assumes "0 \<le> unichar_to_gsm7 u"
  shows "unichar_to_gsm7 u < 128 \<and> gsm7bits_to_unicode ! nat (unichar_to_gsm7 u) = u"
  using table_search_sound [of gsm7bits_to_unicode 0 u] assms by (simp add: unichar_to_gsm7_def)

lemma unichar_to_gsm7_extend_sound:
  assumes "0 \<le> unichar_to_gsm7_extend u"
  shows "unichar_to_gsm7_extend u < 128 \<and> gsm7bits_extend_to_unicode ! nat (unichar_to_gsm7_extend u) = u"
  using table_search_sound [of gsm7bits_extend_to_unicode 0 u] assms by (simp add: unichar_to_gsm7_extend_def)

text \<open>The septets of a character.\<close>

definition septets_of :: "int \<Rightarrow> int list" where
  "septets_of c =
     (if unichar_to_gsm7 c \<ge> 0 then [unichar_to_gsm7 c]
      else if unichar_to_gsm7_extend c \<ge> 0 then [GSM_7BITS_ESCAPE, unichar_to_gsm7_extend c]
      else [0x20])"

lemma gsm7_put_char_puts: "gsm7_put_char w mem c = bwriter_puts (septets_of c) w mem"
  by (auto simp: gsm7_put_char_def septets_of_def Let_def split: Option.bind_splits)

lemma septets_of_range: "v \<in> set (septets_of c) \<Longrightarrow> 0 \<le> v \<and> v < 128"
  using unichar_to_gsm7_sound [of c] unichar_to_gsm7_extend_sound [of c]
  by (auto simp: septets_of_def GSM_7BITS_ESCAPE_def split: if_splits)

text \<open>The characters of one septet, escape excluded.\<close>

definition basic_char :: "int \<Rightarrow> bool" where
  "basic_char c \<longleftrightarrow> 0 < c \<and> 0 \<le> unichar_to_gsm7 c"

lemma basic_septet:
  assumes "basic_char c"
  shows "septets_of c = [unichar_to_gsm7 c]" "unichar_to_gsm7 c \<noteq> GSM_7BITS_ESCAPE"
proof -
  show "septets_of c = [unichar_to_gsm7 c]" using assms by (simp add: septets_of_def basic_char_def)
  have "gsm7bits_to_unicode ! nat GSM_7BITS_ESCAPE = 0"
    by (simp add: gsm7bits_to_unicode_def GSM_7BITS_ESCAPE_def)
  then show "unichar_to_gsm7 c \<noteq> GSM_7BITS_ESCAPE"
    using unichar_to_gsm7_sound [of c] assms unfolding basic_char_def by (metis less_irrefl less_imp_le)
qed

lemma decode_basic:
  "\<forall>c \<in> set cs. basic_char c \<Longrightarrow> gsm7_decode False (concat (map septets_of cs)) = cs"
proof (induction cs)
  case (Cons c cs)
  then show ?case using basic_septet [of c] unichar_to_gsm7_sound [of c]
    by (auto simp: basic_char_def)
qed simp

text \<open>An ASCII text is written as the septets of its characters.\<close>

lemma utf8_to_gsm7_loop_ascii:
  assumes "utf8 = pre @ map word_of_int cs @ post" "p = length pre" "n = length cs" "e = p + length cs"
    and "\<forall>c \<in> set cs. 0 \<le> c \<and> c < 128"
  shows "utf8_to_gsm7_loop n utf8 p e w dst =
    Option.bind (bwriter_puts (concat (map septets_of cs)) w dst) (\<lambda>(w', dst'). bwriter_done w' dst')"
  using assms
proof (induction cs arbitrary: pre p n w dst)
  case (Cons c cs)
  have "utf8_next utf8 p e = Some (c, p + 1)"
    using Cons.prems by (intro utf8_next_ascii_char [of c]) (simp_all add: nth_append)
  then show ?case
    using Cons.prems Cons.IH [of "pre @ [word_of_int c]" "p + 1" "n - 1"]
    by (cases "bwriter_puts (septets_of c) w dst")
      (auto simp: gsm7_put_char_puts bwriter_puts_append)
qed simp

lemma utf8_to_gsm7_count_ascii:
  assumes "utf8 = pre @ map word_of_int cs @ post" "p = length pre" "n = length cs" "e = p + length cs"
    and "\<forall>c \<in> set cs. 0 \<le> c \<and> c < 128"
  shows "utf8_to_gsm7_count_loop n utf8 p e r = Some (r + length (concat (map septets_of cs)))"
  using assms
proof (induction cs arbitrary: pre p n r)
  case (Cons c cs)
  have "utf8_next utf8 p e = Some (c, p + 1)"
    using Cons.prems by (intro utf8_next_ascii_char [of c]) (simp_all add: nth_append)
  then show ?case
    using Cons.prems Cons.IH [of "pre @ [word_of_int c]" "p + 1" "n - 1"]
    by (auto simp: unichar_to_gsm7_count_def septets_of_def Let_def)
qed simp

text \<open>An ASCII text in the basic alphabet, packed and unpacked; the text may stand in front of
  other bytes.\<close>

lemma gsm7_text_pack:
  assumes "\<forall>c \<in> set cs. basic_char c \<and> c < 128" "off + 7 * length cs \<le> 8 * length dst"
    and "length cs \<le> length buf" "utf8 = map word_of_int cs @ post"
  shows "utf8_to_gsm7 utf8 (length cs) None off0 = Some (length cs, None) \<and>
    (\<exists>dst'. utf8_to_gsm7 utf8 (length cs) (Some dst) off =
              Some (off + 7 * length cs, Some dst') \<and> length dst' = length dst \<and>
       utf8_from_gsm7 dst' off (length cs) (Some buf) =
         Some (length cs, Some (map word_of_int cs @ drop (length cs) buf)))"
proof
  let ?vs = "concat (map septets_of cs)" and ?t = "map word_of_int cs :: bytes"
  have r: "\<forall>c \<in> set cs. 0 \<le> c \<and> c < 128" using assms(1) by (auto simp: basic_char_def)
  have len: "length ?vs = length cs"
    using assms(1) by (induction cs) (auto simp: basic_septet)
  have dec: "gsm7_decode False ?vs = cs" using assms(1) by (intro decode_basic) simp
  have text_eq: "utf8_text cs = ?t" using r by (induction cs) (auto simp: utf8_bytes_def)
  have range: "\<forall>v \<in> set ?vs. 0 \<le> v \<and> v < 128" using septets_of_range by auto
  show "utf8_to_gsm7 utf8 (length cs) None off0 = Some (length cs, None)"
    using utf8_to_gsm7_count_ascii [of utf8 "[]" cs post 0 "length cs" "length cs" 0] r len assms(4)
    by (simp add: utf8_to_gsm7_def utf8_to_gsm7_count_def)
  obtain w w' mem' mem'' where m: "bwriter_init dst off = Some w" "bwriter_puts ?vs w dst = Some (w', mem')"
    "bwriter_done w' mem' = Some (off + 7 * length ?vs, mem'')" "length mem'' = length dst"
    "\<forall>i < 7 * length ?vs. mem_bit mem'' (off + i) = septet_bits ?vs ! i"
    using pack_bits [OF range, of off dst] assms(2) len by auto
  have "utf8_to_gsm7 utf8 (length cs) (Some dst) off = Some (off + 7 * length cs, Some mem'')"
    using utf8_to_gsm7_loop_ascii [of utf8 "[]" cs post 0 "length cs" "length cs" w dst] r m len assms(4)
    by (simp add: utf8_to_gsm7_def)
  moreover have "utf8_from_gsm7 mem'' off (length cs) (Some buf) =
      Some (length cs, Some (?t @ drop (length cs) buf))"
    using utf8_from_gsm7_loop_text [of ?vs mem'' "off div 8" "off mod 8" "Some buf" "[]" False 0]
      m(4,5) assms(2,3) range len dec text_eq
    by (simp add: utf8_from_gsm7_def dst_room_def dst_at_def blit_def)
  ultimately show "\<exists>dst'. utf8_to_gsm7 utf8 (length cs) (Some dst) off = Some (off + 7 * length cs, Some dst') \<and>
       length dst' = length dst \<and> utf8_from_gsm7 dst' off (length cs) (Some buf) = Some (length cs, Some (?t @ drop (length cs) buf))"
    using m(4) by blast
qed

section \<open>Properties\<close>

text \<open>The bytes of a character in a text of one character per byte, and what its buffer has to hold.\<close>

definition gsm8_size :: "int \<Rightarrow> nat" where
  "gsm8_size c = (if unichar_to_gsm7 c < 0 \<and> 0 \<le> unichar_to_gsm7_extend c then 2 else 1)"

lemma put_all_total:
  "i + length vs \<le> length xs \<Longrightarrow> \<exists>ys. put_all (Some xs) i vs = Some (Some ys) \<and> length ys = length xs"
proof (induction vs arbitrary: i xs)
  case (Cons v vs)
  then show ?case using Cons.IH [of "i + 1" "xs[i := word_of_int v]"] by (simp add: wr_def)
qed simp

lemma gsm8_put_char_total:
  assumes "r + gsm8_size c \<le> length xs"
  shows "\<exists>ys. gsm8_put_char (Some xs) r c = Some (gsm8_size c, Some ys) \<and> length ys = length xs"
  using assms put_all_total [of r "[unichar_to_gsm7 c]" xs] put_all_total [of r "[GSM_7BITS_ESCAPE, unichar_to_gsm7_extend c]" xs]
    put_all_total [of r "[0x20]" xs]
  by (auto simp: gsm8_put_char_def gsm8_size_def Let_def simp del: put_all.simps split: if_splits)

lemma utf8_to_gsm8_loop_ascii:
  assumes "utf8 = pre @ map word_of_int cs @ post" "p = length pre" "n = length cs" "e = p + length cs"
    and "\<forall>c \<in> set cs. 0 \<le> c \<and> c < 128" "r + sum_list (map gsm8_size cs) \<le> length xs"
  shows "\<exists>ys. utf8_to_gsm8_loop n utf8 p e (Some xs) r = Some (r + sum_list (map gsm8_size cs), Some ys) \<and> length ys = length xs"
  using assms
proof (induction cs arbitrary: pre p n r xs)
  case (Cons c cs)
  have next_char: "utf8_next utf8 p e = Some (c, p + 1)"
    using Cons.prems by (intro utf8_next_ascii_char [of c]) (simp_all add: nth_append)
  obtain ys where y: "gsm8_put_char (Some xs) r c = Some (gsm8_size c, Some ys)" "length ys = length xs"
    using gsm8_put_char_total [of r c xs] Cons.prems(6) by auto
  have "\<exists>zs. utf8_to_gsm8_loop (length cs) utf8 (p + 1) e (Some ys) (r + gsm8_size c) =
      Some (r + gsm8_size c + sum_list (map gsm8_size cs), Some zs) \<and> length zs = length ys"
    by (rule Cons.IH [of "pre @ [word_of_int c]"]) (use Cons.prems y in auto)
  then show ?case using Cons.prems next_char y by (auto simp: add.assoc)
qed auto

text \<open>The characters that septets stand for: an escape takes the septet behind it, and no other, from the
  extension table.  The code agrees as long as nothing follows that septet.\<close>

fun gsm7_chars :: "int list \<Rightarrow> int list" where
  "gsm7_chars [] = []"
| "gsm7_chars (v # vs) =
    (if v = GSM_7BITS_ESCAPE then (case vs of [] \<Rightarrow> [] | x # xs \<Rightarrow> gsm7bits_extend_to_unicode ! nat x # gsm7_chars xs)
     else gsm7bits_to_unicode ! nat v # gsm7_chars vs)"

lemma gsm7_decode_chars:
  "GSM_7BITS_ESCAPE \<notin> set (take (length vs - 2) vs) \<Longrightarrow> gsm7_decode False vs = gsm7_chars vs"
proof (induction vs)
  case (Cons v vs)
  show ?case
  proof (cases "2 \<le> length vs")
    case True
    then have "take (length (v # vs) - 2) (v # vs) = v # take (length vs - 2) vs" by (simp add: take_Cons' numeral_2_eq_2 [symmetric])
    then show ?thesis using Cons by simp
  next
    case False
    then consider "vs = []" | x where "vs = [x]" by (cases vs; cases "tl vs") auto
    then show ?thesis by cases auto
  qed
qed simp

text \<open>C23: septets packed at any bit offset are unpacked as the characters they stand for, provided that an
  escape is followed by one septet at most (later ones are taken from the extension table too, which is an error of the
  code), and packing leaves the bits before the offset alone.\<close>

theorem gsm7_pack_unpack:
  assumes "\<forall>v \<in> set vs. 0 \<le> v \<and> v < 128" "off + 7 * length vs \<le> 8 * length mem"
    and "GSM_7BITS_ESCAPE \<notin> set (take (length vs - 2) vs)" "dst_room d (length (utf8_text (gsm7_chars vs)))"
  shows "\<exists>w w' mem' mem''. bwriter_init mem off = Some w \<and> bwriter_puts vs w mem = Some (w', mem') \<and>
    bwriter_done w' mem' = Some (off + 7 * length vs, mem'') \<and>
    (\<forall>i < off. mem_bit mem'' i = mem_bit mem i) \<and>
    utf8_from_gsm7 mem'' off (length vs) d =
      Some (length (utf8_text (gsm7_chars vs)), dst_at d (utf8_text (gsm7_chars vs)))"
proof -
  obtain w w' mem' mem'' where m: "bwriter_init mem off = Some w" "bwriter_puts vs w mem = Some (w', mem')"
    "bwriter_done w' mem' = Some (off + 7 * length vs, mem'')" "length mem'' = length mem"
    "\<forall>i < off. mem_bit mem'' i = mem_bit mem i"
    "\<forall>i < 7 * length vs. mem_bit mem'' (off + i) = septet_bits vs ! i"
    using pack_bits [OF assms(1,2)] by blast
  have "utf8_from_gsm7 mem'' off (length vs) d =
      Some (length (utf8_text (gsm7_chars vs)), dst_at d (utf8_text (gsm7_chars vs)))"
    using utf8_from_gsm7_loop_text [of vs mem'' "off div 8" "off mod 8" d "[]" False 0] m(4,6) assms
    by (simp add: utf8_from_gsm7_def gsm7_decode_chars)
  with m show ?thesis by blast
qed

lemma gsm7_pack_unpack_witness:
  "\<exists>w w' mem' mem''. bwriter_init [0xFF, 0xFF, 0xFF, 0xFF] 5 = Some w \<and>
    bwriter_puts [72, 27, 101] w [0xFF, 0xFF, 0xFF, 0xFF] = Some (w', mem') \<and>
    bwriter_done w' mem' = Some (5 + 7 * length [72, 27, 101 :: int], mem'') \<and>
    (\<forall>i < 5. mem_bit mem'' i = mem_bit [0xFF, 0xFF, 0xFF, 0xFF] i) \<and>
    utf8_from_gsm7 mem'' 5 (length [72, 27, 101 :: int]) None =
      Some (length (utf8_text (gsm7_chars [72, 27, 101])), dst_at None (utf8_text (gsm7_chars [72, 27, 101])))
   \<and> gsm7_chars [72, 27, 101] = [0x48, 0x20AC]"
proof -
  have v: "\<forall>v \<in> set [72, 27, 101 :: int]. 0 \<le> v \<and> v < 128" "5 + 7 * length [72, 27, 101 :: int] \<le> 8 * length [0xFF, 0xFF, 0xFF, 0xFF :: byte]"
    "GSM_7BITS_ESCAPE \<notin> set (take (length [72, 27, 101 :: int] - 2) [72, 27, 101])" "dst_room None (length (utf8_text (gsm7_chars [72, 27, 101])))"
    by (simp_all add: dst_room_def GSM_7BITS_ESCAPE_def)
  have "gsm7_chars [72, 27, 101] = [0x48, 0x20AC]" by code_simp
  with gsm7_pack_unpack [OF v] show ?thesis by blast
qed

text \<open>C24: an ASCII text in the basic alphabet survives the 7-bit packing of a message body: the
  sizing pass counts its characters, the packing ends that many septets further, and unpacking
  gives the text back.\<close>

theorem gsm7_text_roundtrip:
  assumes "\<forall>c \<in> set cs. basic_char c \<and> c < 128" "off + 7 * length cs \<le> 8 * length dst"
    and "length cs \<le> length buf"
  shows "utf8_to_gsm7 (map word_of_int cs) (length cs) None off = Some (length cs, None) \<and>
    (\<exists>dst'. utf8_to_gsm7 (map word_of_int cs) (length cs) (Some dst) off =
              Some (off + 7 * length cs, Some dst') \<and>
       utf8_from_gsm7 dst' off (length cs) (Some buf) =
         Some (length cs, Some (map word_of_int cs @ drop (length cs) buf)))"
  using gsm7_text_pack [OF assms, of "map word_of_int cs" "[]" off] by auto

lemma gsm7_text_roundtrip_witness:
  "utf8_to_gsm7 (map word_of_int [72, 105]) (length [72, 105 :: int]) None 3 = Some (length [72, 105 :: int], None) \<and>
   (\<exists>dst'. utf8_to_gsm7 (map word_of_int [72, 105]) (length [72, 105 :: int]) (Some [1, 2, 3]) 3 =
       Some (3 + 7 * length [72, 105 :: int], Some dst') \<and>
     utf8_from_gsm7 dst' 3 (length [72, 105 :: int]) (Some [9, 9, 9]) =
       Some (length [72, 105 :: int], Some (map word_of_int [72, 105] @ drop (length [72, 105 :: int]) [9, 9, 9])))"
  by (rule gsm7_text_roundtrip)
    (simp_all add: basic_char_def unichar_to_gsm7_def gsm7bits_to_unicode_def)

end
