(* ===== verification/Gsm_Hex.thy ===== *)
theory Gsm_Hex
  imports Hex_Codec
begin

text \<open>
  Hexadecimal texts and packed decimal numbers of \<open>src/huawei-generic/gsm.c\<close>.  A destination
  the code tests for \<open>NULL\<close> is an optional buffer; a read or write outside a buffer is a fault.
  A position in a packed number is the number \<open>k\<close> of its nibble: the byte \<open>k div 2\<close>, shifted
  by 0 for even and 4 for odd \<open>k\<close>.
\<close>

section \<open>Packed decimals\<close>

definition gsm_int_to_bcdi :: "int \<Rightarrow> byte" where
  "gsm_int_to_bcdi value = word_of_int (cdiv value 10 OR push_bit 4 (cmod value 10))"

definition gsm_int_from_bcdi :: "byte \<Rightarrow> int" where
  "gsm_int_from_bcdi v =
     (let val = uint v;
          ret = (if val AND 0xf0 \<le> 0x90 then drop_bit 4 val else 0)
      in if val AND 0x0f \<le> 0x90 then ret OR ((val mod 0xf) * 10) else ret)"

definition bcdichars :: string where
  "bcdichars = ''0123456789*#,N''"

definition bcd_nibble :: "bytes \<Rightarrow> nat \<Rightarrow> nat option" where
  "bcd_nibble bcd k = map_option (\<lambda>b. unat (drop_bit (4 * (k mod 2)) b AND 0xf)) (rd bcd (k div 2))"

fun gsm_bcdi_to_ascii_loop ::
  "bytes \<Rightarrow> nat \<Rightarrow> nat \<Rightarrow> string option \<Rightarrow> nat \<Rightarrow> (nat \<times> string option) option" where
  "gsm_bcdi_to_ascii_loop bcd k 0 dst result = Some (result, dst)"
| "gsm_bcdi_to_ascii_loop bcd k (Suc bcdlen) dst result = do {
     c \<leftarrow> bcd_nibble bcd k;
     if c = 0xf \<and> bcdlen = 0 then Some (result, dst)
     else if c < 14 then do {
       ch \<leftarrow> rd bcdichars c;
       dst' \<leftarrow> put dst result ch;
       gsm_bcdi_to_ascii_loop bcd (k + 1) bcdlen dst' (result + 1) }
     else gsm_bcdi_to_ascii_loop bcd (k + 1) bcdlen dst result }"

definition gsm_bcdi_to_ascii :: "bytes \<Rightarrow> int \<Rightarrow> string option \<Rightarrow> (nat \<times> string option) option" where
  "gsm_bcdi_to_ascii bcd bcdlen dst = gsm_bcdi_to_ascii_loop bcd 0 (nat bcdlen) dst 0"

text \<open>The digit of a character in \<open>gsm_bcdi_from_ascii\<close>; \<open>None\<close> leaves the loop.\<close>

definition bcdi_digit :: "char \<Rightarrow> int option" where
  "bcdi_digit ch =
     (if ch = CHR ''*'' then Some 11
      else if ch = CHR ''#'' then Some 12
      else if ch = CHR '','' then Some 13
      else if ch = CHR ''N'' then Some 14
      else let c = int (of_char ch) - 48 in if uint32 c \<ge> 10 then None else Some c)"

definition bcdi_finish :: "int \<Rightarrow> bytes option \<Rightarrow> nat \<Rightarrow> (nat \<times> bytes option) option" where
  "bcdi_finish phase dst result =
     (if phase \<noteq> 1 then map_option (Pair (result + 1)) (put dst result (word_of_int (phase OR 0xf0)))
      else Some (result, dst))"

fun gsm_bcdi_from_ascii_loop ::
  "string \<Rightarrow> int \<Rightarrow> bytes option \<Rightarrow> nat \<Rightarrow> (nat \<times> bytes option) option" where
  "gsm_bcdi_from_ascii_loop [] phase dst result = bcdi_finish phase dst result"
| "gsm_bcdi_from_ascii_loop (ch # ascii) phase dst result =
     (case bcdi_digit ch of
        None \<Rightarrow> bcdi_finish phase dst result
      | Some c \<Rightarrow>
          let phase' = push_bit 4 phase OR c in
          if phase' AND 0x100 \<noteq> 0 then
            (case put dst result (word_of_int phase') of
               None \<Rightarrow> None
             | Some dst' \<Rightarrow> gsm_bcdi_from_ascii_loop ascii 1 dst' (result + 1))
          else gsm_bcdi_from_ascii_loop ascii phase' dst result)"

definition gsm_bcdi_from_ascii :: "string \<Rightarrow> nat \<Rightarrow> bytes option \<Rightarrow> (nat \<times> bytes option) option" where
  "gsm_bcdi_from_ascii ascii asciilen dst = gsm_bcdi_from_ascii_loop (take asciilen ascii) 1 dst 0"

text \<open>\<open>gsm_bcdnum_to_ascii\<close>: its loop does not change \<open>count\<close>, so it ends only at a trailing
  filler when \<open>count\<close> is 1, or by reading or writing outside its buffers.\<close>

function gsm_bcdnum_to_ascii_loop ::
  "bytes \<Rightarrow> nat \<Rightarrow> int \<Rightarrow> string option \<Rightarrow> nat \<Rightarrow> (nat \<times> string option) option" where
  "gsm_bcdnum_to_ascii_loop bcd k count dst result =
     (if \<not> count > 0 then Some (result, dst)
      else case bcd_nibble bcd k of
        None \<Rightarrow> None
      | Some c \<Rightarrow>
          if c = 15 \<and> count = 1 then Some (result, dst)
          else
            (case rd bcdichars (if c \<ge> 14 then 0 else c) of
               None \<Rightarrow> None
             | Some ch \<Rightarrow>
                 (case put dst result ch of
                    None \<Rightarrow> None
                  | Some dst' \<Rightarrow> gsm_bcdnum_to_ascii_loop bcd (k + 1) count dst' (result + 1))))"
  by pat_completeness auto

termination gsm_bcdnum_to_ascii_loop
  by (relation "measure (\<lambda>(bcd, k, count, dst, result). 2 * length bcd - k)")
    (auto simp: bcd_nibble_def dest!: rd_SomeD)

declare gsm_bcdnum_to_ascii_loop.simps [simp del]

definition gsm_bcdnum_to_ascii :: "bytes \<Rightarrow> int \<Rightarrow> string option \<Rightarrow> (nat \<times> string option) option" where
  "gsm_bcdnum_to_ascii bcd count dst = gsm_bcdnum_to_ascii_loop bcd 0 count dst 0"

definition bcdnum_digit :: "char \<Rightarrow> int option" where
  "bcdnum_digit ch =
     (if ch = CHR ''*'' then Some 10
      else if ch = CHR ''#'' then Some 11
      else if ch = CHR '','' then Some 12
      else if ch = CHR ''N'' then Some 13
      else let c = int (of_char ch) - 48 in if uint32 c \<ge> 10 then None else Some c)"

fun gsm_bcdnum_from_ascii_loop ::
  "string \<Rightarrow> int \<Rightarrow> bytes option \<Rightarrow> nat \<Rightarrow> (int \<times> bytes option) option" where
  "gsm_bcdnum_from_ascii_loop [] phase dst result =
     (if odd result
      then map_option (Pair (int result)) (put dst (result div 2) (word_of_int (phase OR 0xf0)))
      else Some (int result, dst))"
| "gsm_bcdnum_from_ascii_loop (ch # ascii) phase dst result =
     (case bcdnum_digit ch of
        None \<Rightarrow> Some (-1, dst)
      | Some c \<Rightarrow>
          let phase' = push_bit 4 phase OR c; result' = result + 1 in
          if phase' AND 0x100 \<noteq> 0 then
            (case put dst (result' div 2) (word_of_int phase') of
               None \<Rightarrow> None
             | Some dst' \<Rightarrow> gsm_bcdnum_from_ascii_loop ascii 1 dst' result')
          else gsm_bcdnum_from_ascii_loop ascii phase' dst result')"

definition gsm_bcdnum_from_ascii :: "string \<Rightarrow> nat \<Rightarrow> bytes option \<Rightarrow> (int \<times> bytes option) option" where
  "gsm_bcdnum_from_ascii ascii asciilen dst = gsm_bcdnum_from_ascii_loop (take asciilen ascii) 1 dst 0"

section \<open>Hexadecimal texts\<close>

definition gsm_hexchar_to_int :: "char \<Rightarrow> int" where
  "gsm_hexchar_to_int ch = (let c = int (of_char ch) in
     if uint32 (c - 48) < 10 then c - 48
     else if uint32 (c - 97) < 6 then 10 + (c - 97)
     else if uint32 (c - 65) < 6 then 10 + (c - 65)
     else -1)"

definition gsm_hexchar_to_int0 :: "char \<Rightarrow> int" where
  "gsm_hexchar_to_int0 c = (let ret = gsm_hexchar_to_int c in if ret < 0 then 0 else ret)"

text \<open>The functions that read a text take it with the index to read at.\<close>

definition gsm_hex2_to_byte :: "string \<Rightarrow> nat \<Rightarrow> int option" where
  "gsm_hex2_to_byte hex p = do {
     a \<leftarrow> rd hex p;
     b \<leftarrow> rd hex (p + 1);
     let hi = gsm_hexchar_to_int a;
     let lo = gsm_hexchar_to_int b;
     Some (if hi < 0 \<or> lo < 0 then -1 else push_bit 4 hi OR lo) }"

definition gsm_hex4_to_short :: "string \<Rightarrow> nat \<Rightarrow> int option" where
  "gsm_hex4_to_short hex p = do {
     hi \<leftarrow> gsm_hex2_to_byte hex p;
     lo \<leftarrow> gsm_hex2_to_byte hex (p + 2);
     Some (if hi < 0 \<or> lo < 0 then -1 else push_bit 8 hi OR lo) }"

definition gsm_hex2_to_byte0 :: "string \<Rightarrow> nat \<Rightarrow> byte option" where
  "gsm_hex2_to_byte0 hex p = do {
     a \<leftarrow> rd hex p;
     b \<leftarrow> rd hex (p + 1);
     Some (word_of_int (push_bit 4 (gsm_hexchar_to_int0 a) OR gsm_hexchar_to_int0 b)) }"

definition gsm_hexdigits :: string where
  "gsm_hexdigits = ''0123456789ABCDEF''"

definition gsm_hex_from_byte :: "string \<Rightarrow> nat \<Rightarrow> int \<Rightarrow> string option" where
  "gsm_hex_from_byte hex p val = do {
     h \<leftarrow> rd gsm_hexdigits (nat (drop_bit 4 val AND 15));
     hex1 \<leftarrow> wr hex p h;
     l \<leftarrow> rd gsm_hexdigits (nat (val AND 15));
     wr hex1 (p + 1) l }"

definition gsm_hex_from_short :: "string \<Rightarrow> nat \<Rightarrow> int \<Rightarrow> string option" where
  "gsm_hex_from_short hex p val = do {
     hex1 \<leftarrow> gsm_hex_from_byte hex p (drop_bit 8 val);
     gsm_hex_from_byte hex1 (p + 2) val }"

fun gsm_hex_to_bytes_loop :: "nat \<Rightarrow> string \<Rightarrow> nat \<Rightarrow> bytes \<Rightarrow> bytes option" where
  "gsm_hex_to_bytes_loop 0 hex nn dst = Some dst"
| "gsm_hex_to_bytes_loop (Suc left) hex nn dst = do {
     b \<leftarrow> gsm_hex2_to_byte0 hex (2 * nn);
     dst' \<leftarrow> wr dst nn b;
     gsm_hex_to_bytes_loop left hex (nn + 1) dst' }"

definition gsm_hex_to_bytes :: "string \<Rightarrow> nat \<Rightarrow> bytes \<Rightarrow> bytes option" where
  "gsm_hex_to_bytes hex hexlen dst = do {
     dst' \<leftarrow> gsm_hex_to_bytes_loop (hexlen div 2) hex 0 dst;
     if odd hexlen then do {
       c \<leftarrow> rd hex (2 * (hexlen div 2));
       wr dst' (hexlen div 2) (word_of_int (push_bit 4 (gsm_hexchar_to_int0 c))) }
     else Some dst' }"

fun gsm_hex_from_bytes_loop :: "nat \<Rightarrow> string \<Rightarrow> bytes \<Rightarrow> nat \<Rightarrow> string option" where
  "gsm_hex_from_bytes_loop 0 hex src nn = Some hex"
| "gsm_hex_from_bytes_loop (Suc left) hex src nn = do {
     b \<leftarrow> rd src nn;
     hex' \<leftarrow> gsm_hex_from_byte hex (2 * nn) (uint b);
     gsm_hex_from_bytes_loop left hex' src (nn + 1) }"

definition gsm_hex_from_bytes :: "string \<Rightarrow> bytes \<Rightarrow> nat \<Rightarrow> string option" where
  "gsm_hex_from_bytes hex src srclen = gsm_hex_from_bytes_loop srclen hex src 0"

section \<open>Lemmas on hexadecimal texts\<close>

abbreviation gsm_digit :: "byte \<Rightarrow> char" where
  "gsm_digit n \<equiv> gsm_hexdigits ! unat n"

abbreviation gsm_nibble :: "char \<Rightarrow> byte" where
  "gsm_nibble c \<equiv> word_of_int (gsm_hexchar_to_int0 c)"

lemma gsm_nibble_digit: "n < 16 \<Longrightarrow> gsm_nibble (gsm_digit n) = n"
  by (erule nibble_cases)
    (simp_all add: gsm_hexdigits_def gsm_hexchar_to_int0_def gsm_hexchar_to_int_def uint32_def Let_def)

interpretation gsm_hex: nibble_codec gsm_digit gsm_nibble
  by unfold_locales (rule gsm_nibble_digit)

lemma rd_hexdigits: "n < 16 \<Longrightarrow> rd gsm_hexdigits (unat n) = Some (gsm_digit n)" for n :: byte
  by (simp add: rd_def gsm_hexdigits_def word_less_nat_alt)

lemma gsm_hex_from_byte_uint:
  "p + 1 < length hex \<Longrightarrow> gsm_hex_from_byte hex p (uint b) =
     Some (hex[p := gsm_digit (drop_bit 4 b), p + 1 := gsm_digit (b AND 15)])"
  by (simp add: gsm_hex_from_byte_def uint_nibbles rd_hexdigits nibble_high_less nibble_low_less wr_Some)

lemma gsm_hex2_to_byte0_eq:
  "p + 1 < length hex \<Longrightarrow>
   gsm_hex2_to_byte0 hex p = Some (byte_of_nibbles (gsm_nibble (hex ! p)) (gsm_nibble (hex ! (p + 1))))"
  by (simp add: gsm_hex2_to_byte0_def rd_Some word_of_int_push_OR byte_of_nibbles_def)

lemma gsm_hexchar_digit: "n < 16 \<Longrightarrow> gsm_hexchar_to_int (gsm_digit n) = uint (n :: byte)"
  by (erule nibble_cases)
    (simp_all add: gsm_hexdigits_def gsm_hexchar_to_int_def uint32_def Let_def)

lemma push_4_OR_uint:
  "push_bit 4 (uint (drop_bit 4 b)) OR uint (b AND 15) = uint (b :: byte)"
proof (rule bit_eqI)
  fix n
  show "bit (push_bit 4 (uint (drop_bit 4 b)) OR uint (b AND 15)) n = bit (uint b) n"
  proof (cases "n < 4")
    case True
    then have "n \<in> {0, 1, 2, 3}" by auto
    then show ?thesis by (auto simp: bit_simps bit_numeral_rec)
  next
    case False
    have "bit (15 :: byte) n = False" if "4 \<le> n" for n
    proof -
      have "(15 :: byte) = mask 4" by (simp add: mask_eq_exp_minus_1)
      then show ?thesis using that by (simp only: bit_mask_iff) simp
    qed
    with False show ?thesis by (auto simp: bit_simps)
  qed
qed

text \<open>Reading back what \<open>gsm_hex_from_byte\<close> wrote.\<close>

lemma gsm_hex2_to_byte_digits:
  assumes "p + 1 < length hex" "hex ! p = gsm_digit (drop_bit 4 b)" "hex ! (p + 1) = gsm_digit (b AND 15)"
  shows "gsm_hex2_to_byte hex p = Some (uint b)"
proof -
  have "gsm_hexchar_to_int (hex ! p) = uint (drop_bit 4 b)" "gsm_hexchar_to_int (hex ! (p + 1)) = uint (b AND 15)"
    using assms by (simp_all only: gsm_hexchar_digit nibble_high_less nibble_low_less)
  moreover have "\<not> uint (drop_bit 4 b) < 0" "\<not> uint (b AND 15) < 0"
    by (simp_all only: not_less unsigned_greater_eq)
  ultimately show ?thesis
    using assms(1) push_4_OR_uint [of b] by (simp add: gsm_hex2_to_byte_def rd_Some Let_def del: uint_ge_0)
qed

lemma gsm_hex_to_bytes_loop_blit:
  assumes "2 * (nn + left) \<le> length hex" "length vs = nn" "nn + left \<le> length dst"
  shows "gsm_hex_to_bytes_loop left hex nn (blit dst 0 vs) =
           Some (blit dst 0 (vs @ unhex_with gsm_nibble (take (2 * left) (drop (2 * nn) hex))))"
  using assms
proof (induction left arbitrary: nn vs)
  case (Suc left)
  then have "take (2 * Suc left) (drop (2 * nn) hex) =
      hex ! (2 * nn) # hex ! (2 * nn + 1) # take (2 * left) (drop (2 * (nn + 1)) hex)"
    by (simp add: Cons_nth_drop_Suc [symmetric])
  moreover have "wr (blit dst 0 vs) nn x = Some (blit dst 0 (vs @ [x]))" for x
    using Suc.prems wr_blit [of 0 vs dst x] by simp
  ultimately show ?case
    using Suc by (simp add: gsm_hex2_to_byte0_eq)
qed simp

lemma gsm_hex_from_bytes_loop_blit:
  assumes "nn + left \<le> length src" "length vs = 2 * nn" "2 * (nn + left) \<le> length hex"
  shows "gsm_hex_from_bytes_loop left (blit hex 0 vs) src nn =
           Some (blit hex 0 (vs @ hex_with gsm_digit (take left (drop nn src))))"
  using assms
proof (induction left arbitrary: nn vs)
  case (Suc left)
  then have t: "take (Suc left) (drop nn src) = src ! nn # take left (drop (nn + 1) src)"
    by (simp add: Cons_nth_drop_Suc [symmetric])
  have w: "(blit hex 0 vs)[2 * nn := x, 2 * nn + 1 := y] = blit hex 0 (vs @ [x, y])" for x y
    using Suc.prems blit_snoc [of 0 vs hex x] blit_snoc [of 0 "vs @ [x]" hex y] by simp
  show ?case
    using Suc t w by (simp add: rd_Some gsm_hex_from_byte_uint)
qed simp

section \<open>Properties\<close>

text \<open>The hexadecimal text written for a byte string is read back as that byte string, and
  nothing behind the text or the bytes is touched.\<close>

theorem gsm_hex_roundtrip:
  assumes "2 * length src \<le> length hex" "length src \<le> length dst"
  shows "\<exists>hex'. gsm_hex_from_bytes hex src (length src) = Some hex' \<and>
           drop (2 * length src) hex' = drop (2 * length src) hex \<and>
           gsm_hex_to_bytes hex' (2 * length src) dst = Some (src @ drop (length src) dst)"
proof -
  let ?h = "hex_with gsm_digit src" and ?H = "blit hex 0 (hex_with gsm_digit src)"
  have "gsm_hex_from_bytes hex src (length src) = Some ?H"
    using gsm_hex_from_bytes_loop_blit [of 0 "length src" src "[]" hex] assms
    by (simp add: gsm_hex_from_bytes_def)
  moreover have "take (2 * length src) ?H = ?h" "drop (2 * length src) ?H = drop (2 * length src) hex"
    by (simp_all add: blit_def)
  moreover have "gsm_hex_to_bytes ?H (2 * length src) dst = Some (src @ drop (length src) dst)"
    using gsm_hex_to_bytes_loop_blit [of 0 "length src" ?H "[]" dst] assms calculation(2)
    by (simp add: gsm_hex_to_bytes_def gsm_hex.text_roundtrip blit_def)
  ultimately show ?thesis by blast
qed

lemma gsm_hex_roundtrip_witness:
  "\<exists>hex'. gsm_hex_from_bytes ''zzzzz'' [0xA0, 5] (length [0xA0, 5 :: byte]) = Some hex' \<and>
     drop (2 * length [0xA0, 5 :: byte]) hex' = drop (2 * length [0xA0, 5 :: byte]) ''zzzzz'' \<and>
     gsm_hex_to_bytes hex' (2 * length [0xA0, 5 :: byte]) [1, 2, 3] =
       Some ([0xA0, 5] @ drop (length [0xA0, 5 :: byte]) [1, 2, 3])"
  by (rule gsm_hex_roundtrip) simp_all

text \<open>The two conversions between a number and its packed form are inverse to each other only on
  the multiples of ten.\<close>

lemma bcdi_table:
  "list_all (\<lambda>v. gsm_int_from_bcdi (gsm_int_to_bcdi v) = v \<longleftrightarrow> v mod 10 = 0) [0..99]"
  by code_simp

text \<open>Of the two-digit numbers, exactly the multiples of ten survive being packed and
  unpacked again.\<close>

theorem bcdi_roundtrip_iff:
  assumes "0 \<le> v" "v < 100"
  shows "gsm_int_from_bcdi (gsm_int_to_bcdi v) = v \<longleftrightarrow> v mod 10 = 0"
  using bcdi_table assms by (simp add: list_all_iff del: set_upto) (simp add: atLeastAtMost_iff)

lemma bcdi_roundtrip_iff_witness:
  "gsm_int_from_bcdi (gsm_int_to_bcdi 12) = 12 \<longleftrightarrow> (12 :: int) mod 10 = 0"
  by (rule bcdi_roundtrip_iff) simp_all

lemma bcdnum_loop_faults:
  "2 \<le> count \<Longrightarrow> gsm_bcdnum_to_ascii_loop bcd k count dst result = None"
proof (induction bcd k count dst result rule: gsm_bcdnum_to_ascii_loop.induct)
  case (1 bcd k count dst result)
  then show ?case
    by (subst gsm_bcdnum_to_ascii_loop.simps) (auto split: option.splits)
qed

text \<open>\<open>gsm_bcdnum_to_ascii\<close> never returns for a count of two or more digits: whatever the
  number and the destination are, it runs off one of them.\<close>

theorem bcdnum_to_ascii_faults:
  assumes "2 \<le> count"
  shows "gsm_bcdnum_to_ascii bcd count dst = None"
  using bcdnum_loop_faults [OF assms] by (simp add: gsm_bcdnum_to_ascii_def)

lemma bcdnum_to_ascii_faults_witness: "gsm_bcdnum_to_ascii [0x21, 0x43] 4 None = None"
  by (rule bcdnum_to_ascii_faults) simp

end
