(* ===== verification/Gsm_Adn.thy ===== *)
theory Gsm_Adn
  imports Gsm_Alphabet Gsm_Hex
begin

text \<open>
  The SIM phone book records of \<open>src/huawei-generic/gsm.c\<close>: the alpha tag in its three UCS-2
  encodings or one GSM character per byte, and the footer with the packed number.  The record
  holds two fixed arrays; text behind the terminating zero stays what it was.
\<close>

section \<open>Operations\<close>

fun adn_trim :: "bytes \<Rightarrow> nat \<Rightarrow> nat \<Rightarrow> nat option" where
  "adn_trim mem alpha 0 = Some 0"
| "adn_trim mem alpha (Suc e) =
     (if alpha < Suc e then do {
        b \<leftarrow> rd mem e;
        if b = 0xff then adn_trim mem alpha e else Some (Suc e) }
      else Some (Suc e))"

text \<open>A call with a destination that starts \<open>k\<close> bytes behind \<open>dst\<close>.\<close>

definition at_offset ::
  "bytes option \<Rightarrow> nat \<Rightarrow> (bytes option \<Rightarrow> (nat \<times> bytes option) option) \<Rightarrow> (nat \<times> bytes option) option" where
  "at_offset dst k f =
     (case dst of
        None \<Rightarrow> f None
      | Some b \<Rightarrow> map_option (\<lambda>(n, d). (n, map_option (\<lambda>b'. take k b @ b') d)) (f (Some (drop k b))))"

text \<open>The inner loop that counts the characters of the GSM set.\<close>

fun gsm_run_length :: "nat \<Rightarrow> bytes \<Rightarrow> nat \<Rightarrow> nat \<Rightarrow> nat option" where
  "gsm_run_length 0 mem p count = Some count"
| "gsm_run_length (Suc n) mem p count = do {
     b \<leftarrow> rd mem p;
     if b < 128 then gsm_run_length n mem (p + 1) (count + 1) else Some count }"

text \<open>Every round of the loop consumes at least one byte; \<open>n\<close> counts the rounds.\<close>

fun adn_ucs2_loop ::
  "nat \<Rightarrow> bytes \<Rightarrow> nat \<Rightarrow> nat \<Rightarrow> int \<Rightarrow> bytes option \<Rightarrow> nat \<Rightarrow> (nat \<times> bytes option) option" where
  "adn_ucs2_loop 0 mem alpha e base dst result = Some (result, dst)"
| "adn_ucs2_loop (Suc n) mem alpha e base dst result =
     (if alpha < e then do {
        c \<leftarrow> rd mem alpha;
        if c \<ge> 0x80 then do {
          (k, dst') \<leftarrow> utf8_write dst result (base + uint (c AND 0x7f));
          adn_ucs2_loop n mem (alpha + 1) e base dst' (result + k) }
        else do {
          count \<leftarrow> gsm_run_length (e - alpha) mem alpha 0;
          (k, dst') \<leftarrow> at_offset dst result (utf8_from_gsm8 (drop alpha mem) (int count));
          adn_ucs2_loop n mem (alpha + count) e base dst' (result + k) } }
      else Some (result, dst))"

definition sim_adn_alpha_to_utf8 ::
  "bytes \<Rightarrow> nat \<Rightarrow> nat \<Rightarrow> bytes option \<Rightarrow> (nat \<times> bytes option) option" where
  "sim_adn_alpha_to_utf8 mem alpha end0 dst = do {
     e \<leftarrow> adn_trim mem alpha end0;
     if alpha \<ge> e then Some (0, dst)
     else do {
       b0 \<leftarrow> rd mem alpha;
       if b0 = 0x80 then ucs2_to_utf8 (drop (alpha + 1) mem) (int ((e - (alpha + 1)) div 2)) dst
       else if alpha + 3 \<le> e \<and> b0 = 0x81 then do {
         len \<leftarrow> rd mem (alpha + 1);
         b2 \<leftarrow> rd mem (alpha + 2);
         let l = min (unat len) (e - (alpha + 3));
         adn_ucs2_loop l mem (alpha + 3) (alpha + 3 + l) (push_bit 7 (uint b2)) dst 0 }
       else if alpha + 4 \<le> e \<and> b0 = 0x82 then do {
         len \<leftarrow> rd mem (alpha + 1);
         b2 \<leftarrow> rd mem (alpha + 2);
         b3 \<leftarrow> rd mem (alpha + 3);
         let l = min (unat len) (e - (alpha + 4));
         adn_ucs2_loop l mem (alpha + 4) (alpha + 4 + l) (push_bit 8 (uint b2) OR uint b3) dst 0 }
       else utf8_from_gsm8 (drop alpha mem) (int (e - alpha)) dst } }"

definition sim_adn_alpha_from_utf8 :: "bytes \<Rightarrow> nat \<Rightarrow> bytes option \<Rightarrow> (nat \<times> bytes option) option" where
  "sim_adn_alpha_from_utf8 utf8 utf8len dst = do {
     ok \<leftarrow> utf8_check_gsm7 utf8 utf8len;
     if ok \<noteq> 0 then utf8_to_gsm8 utf8 utf8len dst
     else do {
       dst1 \<leftarrow> put dst 0 0x80;
       (n, dst2) \<leftarrow> at_offset dst1 1 (utf8_to_ucs2 utf8 utf8len);
       Some (1 + n * 2, dst2) } }"

definition ADN_FOOTER_SIZE :: nat where "ADN_FOOTER_SIZE = 14"

text \<open>\<open>SimAdnRecordRec\<close>: \<open>alpha\<close> has 61 bytes, \<open>number\<close> 21.\<close>

record adn_record =
  adn_alpha :: bytes
  adn_number :: string
  adn_ext_record :: byte

definition sim_adn_record_from_bytes ::
  "adn_record \<Rightarrow> bytes \<Rightarrow> nat \<Rightarrow> (int \<times> adn_record) option" where
  "sim_adn_record_from_bytes rec0 data len = do {
     a0 \<leftarrow> wr (adn_alpha rec0) 0 0;
     n0 \<leftarrow> wr (adn_number rec0) 0 (CHR 0x00);
     let rec1 = rec0\<lparr>adn_alpha := a0, adn_number := n0, adn_ext_record := 0xff\<rparr>;
     if len < ADN_FOOTER_SIZE then Some (-1, rec1)
     else do {
       let footer = len - ADN_FOOTER_SIZE;
       (ok, rec2) \<leftarrow>
         (if len > ADN_FOOTER_SIZE then do {
            (count, _) \<leftarrow> sim_adn_alpha_to_utf8 data 0 footer None;
            if count > length (adn_alpha rec1) - 1 then Some (False, rec1)
            else do {
              (_, alpha) \<leftarrow> sim_adn_alpha_to_utf8 data 0 footer (Some (adn_alpha rec1));
              alpha' \<leftarrow> wr (the alpha) count 0;
              Some (True, rec1\<lparr>adn_alpha := alpha'\<rparr>) } }
          else Some (True, rec1));
       if \<not> ok then Some (-1, rec2)
       else do {
         num_len \<leftarrow> rd data footer;
         if num_len > 11 then Some (-1, rec2)
         else do {
           ton \<leftarrow> rd data (footer + 1);
           if ton \<noteq> 0x81 \<and> ton \<noteq> 0x91 then Some (-1, rec2)
           else do {
             let plus = (if ton = 0x91 then 1 else 0);
             n1 \<leftarrow> (if ton = 0x91 then wr (adn_number rec2) 0 (CHR ''+'') else Some (adn_number rec2));
             (count, n2) \<leftarrow>
               gsm_bcdnum_to_ascii (drop (footer + 2) data) (int (unat num_len) * 2) (Some (drop plus n1));
             n3 \<leftarrow> wr (the n2) count (CHR 0x00);
             Some (0, rec2\<lparr>adn_number := take plus n1 @ n3\<rparr>) } } } } }"

text \<open>The writer fills in the length of the number and leaves the rest of the record alone.\<close>

definition sim_adn_record_to_bytes :: "adn_record \<Rightarrow> bytes \<Rightarrow> nat \<Rightarrow> (int \<times> bytes) option" where
  "sim_adn_record_to_bytes rec0 data datalen = do {
     c \<leftarrow> rd (adn_number rec0) 0;
     let number = (if c = CHR ''+'' then drop 1 (adn_number rec0) else adn_number rec0);
     let n = length (takeWhile (\<lambda>ch. ch \<noteq> CHR 0x00) number);
     data' \<leftarrow> (if n < length number \<and> ADN_FOOTER_SIZE \<le> datalen
               then wr data (datalen - ADN_FOOTER_SIZE) (of_nat ((n + 1) div 2 + 1)) else None);
     Some (0, data') }"

text \<open>A record whose number is not empty is never decoded, because of the loop of
  \<open>gsm_bcdnum_to_ascii\<close>.\<close>

lemma adn_number_never_decoded:
  assumes "len = ADN_FOOTER_SIZE" "len \<le> length data"
    and "0 < data ! 0" "data ! 0 \<le> 11" "data ! 1 = 0x81 \<or> data ! 1 = 0x91"
  shows "sim_adn_record_from_bytes r data len = None"
proof -
  have "1 \<le> unat (data ! 0)" using assms(3) by (simp add: word_less_nat_alt Suc_leI)
  then have "gsm_bcdnum_to_ascii_loop b k (int (unat (data ! 0)) * 2) dst n = None" for b k dst n
    by (intro bcdnum_loop_faults, linarith)
  moreover have "\<not> 11 < data ! 0" using assms(4) by (simp add: not_less)
  moreover have "rd data 0 = Some (data ! 0)" "rd data (Suc 0) = Some (data ! 1)"
    using assms(1,2) by (simp_all add: ADN_FOOTER_SIZE_def rd_def) force
  ultimately show ?thesis using assms
    by (auto simp: sim_adn_record_from_bytes_def ADN_FOOTER_SIZE_def gsm_bcdnum_to_ascii_def
        Let_def split: Option.bind_splits)
qed

end
