(* ===== verification/Gsm_Rope.thy ===== *)
theory Gsm_Rope
  imports Prelude
begin

text \<open>
  The growable byte buffers of \<open>src/huawei-generic/gsm.c\<close>.  A rope whose data pointer is
  \<open>NULL\<close> only counts; one built with \<open>gsm_rope_init_alloc\<close> starts in the 16 bytes inside the
  structure or in an allocated block.  The allocator is a parameter: for a size, the block it
  returns with its arbitrary contents, or \<open>None\<close> when it fails.
\<close>

named_theorems rope_simps "one operation on a rope of known kind"

type_synonym allocator = "nat \<Rightarrow> bytes option"

definition alloc_ok :: "allocator \<Rightarrow> bool" where
  "alloc_ok malloc \<longleftrightarrow> (\<forall>n b. malloc n = Some b \<longrightarrow> length b = n)"

section \<open>Operations\<close>

text \<open>The data pointer: \<open>NULL\<close>, the array inside the structure, or a block of the heap.\<close>

datatype rope_data = RNull | RData0 | RHeap bytes

record rope =
  rope_data :: rope_data
  rope_pos :: nat
  rope_max :: nat
  rope_error :: int
  rope_data0 :: bytes

definition gsm_rope_init :: "rope \<Rightarrow> rope" where
  "gsm_rope_init r = r\<lparr>rope_data := RNull, rope_pos := 0, rope_max := 0, rope_error := 0\<rparr>"

definition gsm_rope_init_alloc :: "allocator \<Rightarrow> rope \<Rightarrow> nat \<Rightarrow> rope" where
  "gsm_rope_init_alloc malloc r count =
     (let r1 = r\<lparr>rope_data := RData0, rope_pos := 0, rope_max := length (rope_data0 r), rope_error := 0\<rparr>
      in if count > 0 then
           (case malloc count of
              Some b \<Rightarrow> r1\<lparr>rope_data := RHeap (replicate count 0), rope_max := count\<rparr>
            | None \<Rightarrow> r1\<lparr>rope_data := RNull, rope_max := 0, rope_error := 1\<rparr>)
         else r1)"

definition gsm_rope_done :: "rope \<Rightarrow> int \<times> rope" where
  "gsm_rope_done r =
     (rope_error r, r\<lparr>rope_data := RNull, rope_pos := 0, rope_max := 0, rope_error := 0\<rparr>)"

text \<open>The block handed over (\<open>None\<close> for \<open>NULL\<close>) and the size.\<close>

definition gsm_rope_done_acquire :: "allocator \<Rightarrow> rope \<Rightarrow> (bytes option \<times> nat) option" where
  "gsm_rope_done_acquire malloc r =
     (case rope_data r of
        RNull \<Rightarrow> Some (None, rope_pos r)
      | RHeap b \<Rightarrow> Some (Some b, rope_pos r)
      | RData0 \<Rightarrow>
          (case malloc (rope_pos r) of
             None \<Rightarrow> Some (None, rope_pos r)
           | Some b \<Rightarrow>
               if rope_pos r \<le> length (rope_data0 r)
               then Some (Some (take (rope_pos r) (rope_data0 r)), rope_pos r)
               else None))"

function rope_new_max :: "nat \<Rightarrow> nat \<Rightarrow> nat" where
  "rope_new_max new_max new_count =
     (if new_max < new_count then rope_new_max (new_max + (new_max div 2 + 4)) new_count else new_max)"
  by pat_completeness auto

termination rope_new_max
  by (relation "measure (\<lambda>(m, c). c - m)") auto

declare rope_new_max.simps [simp del]

text \<open>\<open>realloc\<close> keeps the bytes of the old block and fills the rest with what it finds.\<close>

definition c_realloc :: "allocator \<Rightarrow> bytes \<Rightarrow> nat \<Rightarrow> bytes option" where
  "c_realloc malloc old n = map_option (\<lambda>b. take n old @ drop (length old) b) (malloc n)"

definition gsm_rope_ensure :: "allocator \<Rightarrow> rope \<Rightarrow> nat \<Rightarrow> int \<times> rope" where
  "gsm_rope_ensure malloc r new_count =
     (if rope_data r \<noteq> RNull then
        let old_data = (case rope_data r of RHeap b \<Rightarrow> b | _ \<Rightarrow> []);
            new_max = rope_new_max (rope_max r) new_count
        in case c_realloc malloc old_data new_max of
             None \<Rightarrow> (-1, r\<lparr>rope_error := 1\<rparr>)
           | Some b \<Rightarrow> (0, r\<lparr>rope_data := RHeap b, rope_max := new_max\<rparr>)
      else (0, r\<lparr>rope_max := new_count\<rparr>))"

definition gsm_rope_can_grow :: "allocator \<Rightarrow> rope \<Rightarrow> nat \<Rightarrow> bool \<times> rope" where
  "gsm_rope_can_grow malloc r count =
     (if rope_data r = RNull \<or> rope_error r \<noteq> 0 then (False, r)
      else if rope_pos r + count > rope_max r then
        (if rope_data r = RNull then (True, r\<lparr>rope_max := rope_pos r + count\<rparr>)
         else if rope_error r \<noteq> 0 then (False, r)
         else case gsm_rope_ensure malloc r (rope_pos r + count) of
           (res, r') \<Rightarrow> (\<not> res < 0, r'))
      else (True, r))"

text \<open>Writes through the data pointer, one byte and a run of bytes.\<close>

definition rope_poke :: "rope \<Rightarrow> nat \<Rightarrow> byte \<Rightarrow> rope option" where
  "rope_poke r i v =
     (case rope_data r of
        RNull \<Rightarrow> None
      | RData0 \<Rightarrow> map_option (\<lambda>b. r\<lparr>rope_data0 := b\<rparr>) (wr (rope_data0 r) i v)
      | RHeap b \<Rightarrow> map_option (\<lambda>b. r\<lparr>rope_data := RHeap b\<rparr>) (wr b i v))"

definition rope_copy :: "rope \<Rightarrow> nat \<Rightarrow> bytes \<Rightarrow> rope option" where
  "rope_copy r i vs =
     (case rope_data r of
        RNull \<Rightarrow> None
      | RData0 \<Rightarrow> if i + length vs \<le> length (rope_data0 r)
                  then Some (r\<lparr>rope_data0 := blit (rope_data0 r) i vs\<rparr>) else None
      | RHeap b \<Rightarrow> if i + length vs \<le> length b
                  then Some (r\<lparr>rope_data := RHeap (blit b i vs)\<rparr>) else None)"

definition gsm_rope_add_c :: "allocator \<Rightarrow> rope \<Rightarrow> byte \<Rightarrow> rope option" where
  "gsm_rope_add_c malloc r c =
     (case gsm_rope_can_grow malloc r 1 of
        (ok, r1) \<Rightarrow>
          map_option (\<lambda>r2. r2\<lparr>rope_pos := rope_pos r2 + 1\<rparr>)
            (if ok then rope_poke r1 (rope_pos r1) c else Some r1))"

definition gsm_rope_add :: "allocator \<Rightarrow> rope \<Rightarrow> bytes \<Rightarrow> nat \<Rightarrow> rope option" where
  "gsm_rope_add malloc r buf buflen =
     (case gsm_rope_can_grow malloc r buflen of
        (ok, r1) \<Rightarrow>
          map_option (\<lambda>r2. r2\<lparr>rope_pos := rope_pos r2 + buflen\<rparr>)
            (if ok then (if buflen \<le> length buf then rope_copy r1 (rope_pos r1) (take buflen buf) else None)
             else Some r1))"

text \<open>The reserved place is an index into the rope's data, \<open>None\<close> for \<open>NULL\<close>.\<close>

definition gsm_rope_reserve :: "allocator \<Rightarrow> rope \<Rightarrow> nat \<Rightarrow> nat option \<times> rope" where
  "gsm_rope_reserve malloc r count =
     (case gsm_rope_can_grow malloc r count of
        (ok, r1) \<Rightarrow>
          (if ok \<and> rope_data r1 \<noteq> RNull then Some (rope_pos r1) else None,
           r1\<lparr>rope_pos := rope_pos r1 + count\<rparr>))"

section \<open>Well-formed ropes\<close>

text \<open>The bytes the data pointer leads to, and the text written so far.\<close>

fun rope_buf :: "rope \<Rightarrow> bytes" where
  "rope_buf r = (case rope_data r of RNull \<Rightarrow> [] | RData0 \<Rightarrow> rope_data0 r | RHeap b \<Rightarrow> b)"

definition rope_text :: "rope \<Rightarrow> bytes" where
  "rope_text r = take (rope_pos r) (rope_buf r)"

definition rope_inv :: "rope \<Rightarrow> bool" where
  "rope_inv r \<longleftrightarrow>
     (rope_data r = RNull \<or>
      length (rope_buf r) = rope_max r \<and> (rope_error r = 0 \<longrightarrow> rope_pos r \<le> rope_max r))"

declare rope_buf.simps [simp del]

lemma rope_new_max_ge: "new_count \<le> rope_new_max m new_count \<and> m \<le> rope_new_max m new_count"
  by (induction m new_count rule: rope_new_max.induct) (subst (1 2) rope_new_max.simps, auto)

lemma length_c_realloc:
  "alloc_ok malloc \<Longrightarrow> c_realloc malloc old n = Some b \<Longrightarrow> length old \<le> n \<Longrightarrow> length b = n"
  by (auto simp: alloc_ok_def c_realloc_def)

lemma ensure_inv:
  assumes "alloc_ok malloc" "rope_inv r" "gsm_rope_ensure malloc r n = (res, r')" "rope_data r \<noteq> RNull"
  shows "rope_inv r' \<and> rope_pos r' = rope_pos r \<and> (\<not> res < 0 \<longrightarrow> n \<le> rope_max r' \<and>
    rope_error r' = rope_error r \<and> (\<exists>b. rope_data r' = RHeap b)) \<and> (res < 0 \<longrightarrow> rope_error r' = 1)"
  using assms rope_new_max_ge [of n "rope_max r"]
  by (cases "rope_data r")
    (fastforce simp: gsm_rope_ensure_def rope_inv_def rope_buf.simps Let_def
      dest: length_c_realloc split: option.splits)+

lemma can_grow_inv:
  assumes "alloc_ok malloc" "rope_inv r" "gsm_rope_can_grow malloc r n = (ok, r')"
  shows "rope_inv r' \<and> rope_pos r' = rope_pos r \<and>
    (ok \<longrightarrow> rope_error r' = 0 \<and> rope_data r' \<noteq> RNull \<and> rope_pos r' + n \<le> length (rope_buf r')) \<and>
    (\<not> ok \<longrightarrow> rope_data r' = RNull \<or> rope_error r' \<noteq> 0)"
proof (cases "rope_data r = RNull \<or> rope_error r \<noteq> 0 \<or> rope_pos r + n \<le> rope_max r")
  case True then show ?thesis using assms by (auto simp: gsm_rope_can_grow_def rope_inv_def split: if_splits)
next
  case False
  obtain res r1 where e: "gsm_rope_ensure malloc r (rope_pos r + n) = (res, r1)" by fastforce
  then show ?thesis using False assms(3) ensure_inv [OF assms(1,2) e]
    by (auto simp: gsm_rope_can_grow_def rope_inv_def)
qed

lemma add_inv:
  assumes "alloc_ok malloc" "rope_inv r" "n \<le> length buf"
  shows "\<exists>r'. gsm_rope_add malloc r buf n = Some r' \<and> rope_inv r' \<and> rope_pos r' = rope_pos r + n"
proof -
  obtain ok r1 where g: "gsm_rope_can_grow malloc r n = (ok, r1)" by fastforce
  from can_grow_inv [OF assms(1,2) g] show ?thesis
    using g assms(3)
    by (cases ok; cases "rope_data r1")
      (auto simp: gsm_rope_add_def rope_copy_def rope_inv_def rope_buf.simps)
qed

lemma add_c_inv:
  assumes "alloc_ok malloc" "rope_inv r"
  shows "\<exists>r'. gsm_rope_add_c malloc r c = Some r' \<and> rope_inv r' \<and> rope_pos r' = rope_pos r + 1"
proof -
  obtain ok r1 where g: "gsm_rope_can_grow malloc r 1 = (ok, r1)" by fastforce
  from can_grow_inv [OF assms(1,2) g] show ?thesis
    using g
    by (cases ok; cases "rope_data r1")
      (auto simp: gsm_rope_add_c_def rope_poke_def rope_inv_def rope_buf.simps wr_Some)
qed

section \<open>Contents\<close>

text \<open>Sequences of additions, as a PDU is written.\<close>

datatype rope_op = AddC byte | Add bytes

fun rope_op_bytes :: "rope_op \<Rightarrow> bytes" where
  "rope_op_bytes (AddC c) = [c]"
| "rope_op_bytes (Add bs) = bs"

fun rope_op_run :: "allocator \<Rightarrow> rope_op \<Rightarrow> rope \<Rightarrow> rope option" where
  "rope_op_run malloc (AddC c) r = gsm_rope_add_c malloc r c"
| "rope_op_run malloc (Add bs) r = gsm_rope_add malloc r bs (length bs)"

fun rope_run :: "allocator \<Rightarrow> rope_op list \<Rightarrow> rope \<Rightarrow> rope option" where
  "rope_run malloc [] r = Some r"
| "rope_run malloc (op # ops) r = Option.bind (rope_op_run malloc op r) (rope_run malloc ops)"

definition ops_bytes :: "rope_op list \<Rightarrow> bytes" where
  "ops_bytes ops = concat (map rope_op_bytes ops)"

lemma ops_bytes_simps [simp]:
  "ops_bytes [] = []" "ops_bytes (op # ops) = rope_op_bytes op @ ops_bytes ops"
  by (simp_all add: ops_bytes_def)

lemma rope_op_inv:
  "alloc_ok malloc \<Longrightarrow> rope_inv r \<Longrightarrow>
   \<exists>r'. rope_op_run malloc op r = Some r' \<and> rope_inv r' \<and>
        rope_pos r' = rope_pos r + length (rope_op_bytes op)"
  using add_inv [of malloc r "length (rope_op_bytes op)" "rope_op_bytes op"] add_c_inv
  by (cases op) auto

lemma rope_run_inv:
  "alloc_ok malloc \<Longrightarrow> rope_inv r \<Longrightarrow>
   \<exists>r'. rope_run malloc ops r = Some r' \<and> rope_inv r' \<and> rope_pos r' = rope_pos r + length (ops_bytes ops)"
proof (induction ops arbitrary: r)
  case (Cons op ops)
  then obtain r1 where r1: "rope_op_run malloc op r = Some r1" "rope_inv r1"
      "rope_pos r1 = rope_pos r + length (rope_op_bytes op)"
    using rope_op_inv by blast
  then show ?case using Cons.IH [OF Cons.prems(1) r1(2)] by auto
qed simp

text \<open>With enough room no addition touches the allocator and every one appends its bytes.\<close>

lemma rope_op_room:
  assumes "rope_data r = RHeap b" "length b = rope_max r" "rope_error r = 0"
    and "rope_pos r + length (rope_op_bytes op) \<le> rope_max r"
  shows "rope_op_run malloc op r =
    Some (r\<lparr>rope_data := RHeap (blit b (rope_pos r) (rope_op_bytes op)),
            rope_pos := rope_pos r + length (rope_op_bytes op)\<rparr>)"
proof (cases op)
  case (AddC c)
  then show ?thesis using assms wr_blit [of "rope_pos r" "[]" b c]
    by (simp add: gsm_rope_add_c_def gsm_rope_can_grow_def rope_poke_def)
next
  case (Add bs)
  then show ?thesis using assms
    by (simp add: gsm_rope_add_def gsm_rope_can_grow_def rope_copy_def)
qed

lemma rope_run_room:
  assumes "rope_data r = RHeap b" "length b = rope_max r" "rope_error r = 0"
    and "rope_pos r + length (ops_bytes ops) \<le> rope_max r"
  shows "\<exists>r'. rope_run malloc ops r = Some r' \<and> rope_text r' = rope_text r @ ops_bytes ops \<and>
    rope_pos r' = rope_pos r + length (ops_bytes ops) \<and> rope_error r' = 0 \<and>
    rope_max r' = rope_max r \<and> (\<exists>b'. rope_data r' = RHeap b' \<and> length b' = length b)"
  using assms
proof (induction ops arbitrary: r b)
  case (Cons op ops)
  let ?bs = "rope_op_bytes op"
  let ?r = "r\<lparr>rope_data := RHeap (blit b (rope_pos r) ?bs), rope_pos := rope_pos r + length ?bs\<rparr>"
  have run: "rope_op_run malloc op r = Some ?r"
    using Cons.prems by (intro rope_op_room) auto
  moreover have "rope_text ?r = rope_text r @ ?bs"
    using Cons.prems by (simp add: rope_text_def rope_buf.simps take_blit)
  ultimately show ?case
    using Cons.IH [of ?r "blit b (rope_pos r) ?bs"] Cons.prems by (auto simp: add.assoc)
qed simp

lemma rope_init_inv [simp]: "rope_inv (gsm_rope_init r)"
  by (simp add: rope_inv_def gsm_rope_init_def)

section \<open>Properties\<close>

text \<open>C36: additions never write outside a well-formed rope and keep it well-formed, also when
  the allocator fails.\<close>

theorem rope_additions_safe:
  assumes "alloc_ok malloc" "rope_inv r"
  shows "\<exists>r'. rope_run malloc ops r = Some r' \<and> rope_inv r'"
  using rope_run_inv [OF assms] by blast

definition heap_with :: "byte \<Rightarrow> allocator" where
  "heap_with v n = Some (replicate n v)"

lemma alloc_ok_heap_with [simp]: "alloc_ok (heap_with v)"
  by (simp add: alloc_ok_def heap_with_def)

lemma rope_additions_safe_witness:
  "\<exists>r'. rope_run (heap_with 7) [Add [1, 2], AddC 3]
     \<lparr>rope_data = RHeap [5], rope_pos = 1, rope_max = 1, rope_error = 0, rope_data0 = replicate 16 0\<rparr> = Some r' \<and>
   rope_inv r'"
  by (rule rope_additions_safe) (simp_all add: rope_inv_def rope_buf.simps)

text \<open>the size a counting rope reports after a sequence of additions is the size of the
  block the second pass needs: a rope allocated with it holds exactly the added bytes when the
  second pass ends, and the pass makes no further allocation.\<close>

theorem rope_two_pass:
  assumes "alloc_ok malloc" "ops_bytes ops \<noteq> []" "malloc (length (ops_bytes ops)) \<noteq> None"
  shows "\<exists>r1 r2. rope_run malloc ops (gsm_rope_init r) = Some r1 \<and>
    rope_run no_alloc ops (gsm_rope_init_alloc malloc r (rope_pos r1)) = Some r2 \<and>
    rope_error r2 = 0 \<and>
    gsm_rope_done_acquire no_alloc r2 = Some (Some (ops_bytes ops), length (ops_bytes ops))"
proof -
  obtain r1 where r1: "rope_run malloc ops (gsm_rope_init r) = Some r1" "rope_pos r1 = length (ops_bytes ops)"
    using rope_run_inv [OF assms(1) rope_init_inv [of r], of ops] by (auto simp: gsm_rope_init_def)
  let ?n = "length (ops_bytes ops)"
  let ?a = "gsm_rope_init_alloc malloc r ?n"
  have a: "rope_data ?a = RHeap (replicate ?n 0)" "rope_max ?a = ?n" "rope_error ?a = 0" "rope_pos ?a = 0"
    using assms by (auto simp: gsm_rope_init_alloc_def Let_def)
  obtain r2 b where r2: "rope_run no_alloc ops ?a = Some r2" "rope_text r2 = ops_bytes ops"
      "rope_pos r2 = ?n" "rope_error r2 = 0" "rope_data r2 = RHeap b" "length b = ?n"
    using rope_run_room [of ?a "replicate ?n 0" ops no_alloc] a
    by (auto simp: rope_text_def)
  then have "gsm_rope_done_acquire no_alloc r2 = Some (Some (ops_bytes ops), ?n)"
    by (auto simp: gsm_rope_done_acquire_def rope_text_def rope_buf.simps)
  with r1 r2 show ?thesis by auto
qed

lemma rope_two_pass_witness:
  "\<exists>r1 r2. rope_run (heap_with 7) [Add [1, 2], AddC 3]
       (gsm_rope_init \<lparr>rope_data = RNull, rope_pos = 9, rope_max = 9, rope_error = 0, rope_data0 = []\<rparr>) = Some r1 \<and>
     rope_run (\<lambda>n. None) [Add [1, 2], AddC 3]
       (gsm_rope_init_alloc (heap_with 7)
         \<lparr>rope_data = RNull, rope_pos = 9, rope_max = 9, rope_error = 0, rope_data0 = []\<rparr> (rope_pos r1)) = Some r2 \<and>
     rope_error r2 = 0 \<and>
     gsm_rope_done_acquire (\<lambda>n. None) r2 =
       Some (Some (ops_bytes [Add [1, 2], AddC 3]), length (ops_bytes [Add [1, 2], AddC 3]))"
  by (rule rope_two_pass) (simp_all add: heap_with_def)

text \<open>A rope that outgrows the array inside the structure loses what was written to it: the
  first bytes of the new block are whatever the allocator found there.\<close>

theorem rope_data0_growth_loses:
  assumes "alloc_ok malloc" "length (rope_data0 r) = 16" "length xs \<le> 16" "16 < length xs + length ys"
    and "malloc (rope_new_max 16 (length xs + length ys)) = Some junk"
  shows "\<exists>r'. rope_run malloc [Add xs, Add ys] (gsm_rope_init_alloc malloc r 0) = Some r' \<and>
           rope_text r' = take (length xs) junk @ ys"
proof -
  have "length junk = rope_new_max 16 (length xs + length ys)"
    using assms(1,5) by (simp add: alloc_ok_def)
  then have "length xs + length ys \<le> length junk"
    using rope_new_max_ge [of "length xs + length ys" 16] by simp
  then show ?thesis using assms
    by (simp add: gsm_rope_init_alloc_def gsm_rope_add_def gsm_rope_can_grow_def gsm_rope_ensure_def
        rope_copy_def c_realloc_def rope_text_def rope_buf.simps Let_def blit_def)
qed

lemma rope_data0_growth_loses_witness:
  "\<exists>r'. rope_run (heap_with 7) [Add (replicate 16 1), Add [2]]
     (gsm_rope_init_alloc (heap_with 7)
       \<lparr>rope_data = RNull, rope_pos = 0, rope_max = 0, rope_error = 0, rope_data0 = replicate 16 0\<rparr> 0) = Some r' \<and>
   rope_text r' = take (length (replicate 16 (1 :: byte))) (replicate 28 7) @ [2]"
  by (rule rope_data0_growth_loses) (simp_all add: heap_with_def rope_new_max.simps)

end
