(* ===== verification/Sms_Address.thy ===== *)
theory Sms_Address
  imports Gsm_Rope Gsm_Hex
begin

text \<open>
  Message texts, timestamps, addresses and the field parsers of
  \<open>src/huawei-generic/sms_gsm.c\<close>.  A cursor \<open>pcur\<close> and its end are indices into the PDU's
  bytes; a parser returns its result code, the cursor and what it filled in.  \<open>char\<close> is
  unsigned, as on the target.
\<close>

section \<open>Message texts\<close>

fun msg_cont :: "nat \<Rightarrow> string \<Rightarrow> nat \<Rightarrow> nat \<Rightarrow> int \<Rightarrow> (int \<times> nat) option" where
  "msg_cont 0 str p e c = Some (c, p)"
| "msg_cont (Suc n) str p e c =
     (if p < e then do {
        ch \<leftarrow> rd str p;
        let b = int (of_char ch);
        if b AND 0xc0 = 0x80 then msg_cont n str (p + 1) e (int32 (push_bit 6 c OR (b AND 0x3f)))
        else Some (c, p) }
      else Some (c, p))"

text \<open>A write the code guards with the size of the destination.\<close>

definition put_below :: "bytes \<Rightarrow> nat \<Rightarrow> nat \<Rightarrow> int \<Rightarrow> bytes option" where
  "put_below utf8 utf8len i v = (if i < utf8len then wr utf8 i (word_of_int v) else Some utf8)"

definition msg_emit :: "bytes \<Rightarrow> nat \<Rightarrow> nat \<Rightarrow> int \<Rightarrow> (nat \<times> bytes) option" where
  "msg_emit utf8 utf8len count c =
     (if c < 128 then do {
        u \<leftarrow> put_below utf8 utf8len count c;
        Some (count + 1, u) }
      else if c < 0x800 then do {
        u1 \<leftarrow> put_below utf8 utf8len count (0xc0 OR (drop_bit 6 c AND 0x1f));
        u2 \<leftarrow> put_below u1 utf8len (count + 1) (0x80 OR (c AND 0x3f));
        Some (count + 2, u2) }
      else do {
        u1 \<leftarrow> put_below utf8 utf8len count (0xc0 OR (drop_bit 12 c AND 0xf));
        u2 \<leftarrow> put_below u1 utf8len (count + 1) (0x80 OR (drop_bit 6 c AND 0x3f));
        u3 \<leftarrow> put_below u2 utf8len (count + 2) (0x80 OR (c AND 0x3f));
        Some (count + 3, u3) })"

text \<open>The value of an escape; \<open>Some None\<close> is the return of -1.\<close>

definition msg_escape :: "string \<Rightarrow> nat \<Rightarrow> nat \<Rightarrow> int \<Rightarrow> int option option" where
  "msg_escape str p e c =
     (if c = 0x5C then Some (Some c)
      else if c = 0x6E then Some (Some 10)
      else if c = 0x78 then
        (if p + 2 > e then Some None
         else map_option (\<lambda>v. if v < 0 then None else Some v) (gsm_hex2_to_byte str p))
      else if c = 0x75 then
        (if p + 4 > e then Some None
         else map_option (\<lambda>v. if v < 0 then None else Some v) (gsm_hex4_to_short str p))
      else Some None)"

text \<open>Every round moves the position; \<open>n\<close> counts the rounds, at most the length of the text.\<close>

fun sms_msg_loop ::
  "nat \<Rightarrow> string \<Rightarrow> nat \<Rightarrow> nat \<Rightarrow> bool \<Rightarrow> bytes \<Rightarrow> nat \<Rightarrow> nat \<Rightarrow> (int \<times> bytes) option" where
  "sms_msg_loop 0 str p e escaped utf8 utf8len count = Some (if escaped then -1 else int count, utf8)"
| "sms_msg_loop (Suc n) str p e escaped utf8 utf8len count =
     (if p < e then do {
        ch \<leftarrow> rd str p;
        let c0 = int (of_char ch);
        (c, p1) \<leftarrow>
          (if c0 \<ge> 128 then
             msg_cont (e - (p + 2)) str (p + 2) e
               (if c0 AND 0xe0 = 0xc0 then c0 AND 0x1f
                else if c0 AND 0xf0 = 0xe0 then c0 AND 0x0f else c0 AND 0x07)
           else Some (c0, p + 1));
        if escaped then do {
          v \<leftarrow> msg_escape str p1 e c;
          case v of
            None \<Rightarrow> Some (-1, utf8)
          | Some c' \<Rightarrow> do {
              (count', utf8') \<leftarrow> msg_emit utf8 utf8len count c';
              sms_msg_loop n str p1 e False utf8' utf8len count' } }
        else if c = 0x5C then sms_msg_loop n str p1 e True utf8 utf8len count
        else do {
          (count', utf8') \<leftarrow> msg_emit utf8 utf8len count c;
          sms_msg_loop n str p1 e False utf8' utf8len count' } }
      else Some (if escaped then -1 else int count, utf8))"

definition sms_utf8_from_message_str :: "string \<Rightarrow> nat \<Rightarrow> bytes \<Rightarrow> nat \<Rightarrow> (int \<times> bytes) option" where
  "sms_utf8_from_message_str str strlen utf8 utf8len =
     sms_msg_loop strlen str 0 strlen False utf8 utf8len 0"

section \<open>Timestamps\<close>

record tm =
  tm_sec :: int
  tm_min :: int
  tm_hour :: int
  tm_mday :: int
  tm_mon :: int
  tm_year :: int
  tm_yday :: int
  tm_isdst :: int

text \<open>The seven bytes for the two broken-down times of the clock, which are parameters.\<close>

definition sms_timestamp_now :: "tm \<Rightarrow> tm \<Rightarrow> bytes" where
  "sms_timestamp_now gm local =
     (let tz0 = (tm_hour local * 4 + cdiv (tm_min local) 15) - (tm_hour gm * 4 + cdiv (tm_min gm) 15);
          tz = (if tm_yday local > tm_yday gm then tz0 + 24 * 4
                else if tm_yday local < tm_yday gm then tz0 - 24 * 4 else tz0);
          d6 = gsm_int_to_bcdi (if tz \<ge> 0 then tz else - tz)
      in [gsm_int_to_bcdi (cmod (tm_year local) 100), gsm_int_to_bcdi (tm_mon local + 1),
          gsm_int_to_bcdi (tm_mday local), gsm_int_to_bcdi (tm_hour local),
          gsm_int_to_bcdi (tm_min local), gsm_int_to_bcdi (tm_sec local),
          if tz < 0 then d6 OR 0x08 else d6])"

definition sms_timestamp_to_tm :: "bytes \<Rightarrow> tm \<Rightarrow> int \<times> tm" where
  "sms_timestamp_to_tm stamp t0 =
     (let y = gsm_int_from_bcdi (stamp ! 0);
          t = t0\<lparr>tm_year := (if y < 50 then y + 100 else y),
                 tm_mon := gsm_int_from_bcdi (stamp ! 1) - 1,
                 tm_mday := gsm_int_from_bcdi (stamp ! 2),
                 tm_hour := gsm_int_from_bcdi (stamp ! 3),
                 tm_min := gsm_int_from_bcdi (stamp ! 4),
                 tm_sec := gsm_int_from_bcdi (stamp ! 5),
                 tm_isdst := -1\<rparr>;
          tz = gsm_int_from_bcdi (stamp ! 6 AND 0xf7)
      in (if stamp ! 6 AND 0x8 \<noteq> 0 then - tz else tz, t))"

section \<open>Addresses\<close>

text \<open>\<open>SmsAddressRec\<close>; the data array has 16 bytes.\<close>

record sms_address =
  adr_len :: byte
  adr_toa :: byte
  adr_data :: bytes

fun address_digits :: "nat \<Rightarrow> bytes \<Rightarrow> nat \<Rightarrow> string \<Rightarrow> nat \<Rightarrow> (string \<times> nat) option" where
  "address_digits 0 data i str s = Some (str, s)"
| "address_digits (Suc n) data i str s = do {
     b \<leftarrow> rd data (i div 2);
     let c = (if odd i then drop_bit 4 b else b);
     str' \<leftarrow> wr str s (char_of (48 + unat (c AND 15)));
     address_digits n data (i + 1) str' (s + 1) }"

definition sms_address_to_str :: "sms_address \<Rightarrow> string \<Rightarrow> (int \<times> string) option" where
  "sms_address_to_str address str = do {
     (str1, s) \<leftarrow> (if adr_toa address = 0x91
                  then map_option (\<lambda>x. (x, 1)) (wr str 0 (CHR ''+'')) else Some (str, 0));
     (str2, s2) \<leftarrow> address_digits (unat (adr_len address)) (adr_data address) 0 str1 s;
     str3 \<leftarrow> wr str2 s2 (CHR 0x00);
     Some (1, str3) }"

text \<open>The digits of a text: \<open>d\<close> and \<open>hi\<close> are the data pointer and whether \<open>shift\<close> is 4; the result
  is the digits read, or \<open>None\<close> for the jump to \<open>Fail\<close>, and the data.\<close>

fun address_pack :: "string \<Rightarrow> bytes \<Rightarrow> nat \<Rightarrow> bool \<Rightarrow> nat \<Rightarrow> nat option \<times> bytes" where
  "address_pack [] data d hi len =
     (Some len, if hi then data[d := data ! d OR 0xf0] else data)"
| "address_pack (ch # src) data d hi len =
     (let c = int (of_char ch) - 48 in
      if uint32 c \<ge> 10 \<or> d \<ge> length data then (None, data)
      else
        let data' = data[d := data ! d OR push_bit (if hi then 4 else 0) (word_of_int c)]
        in if hi then address_pack src data' (d + 1) False (len + 1)
           else address_pack src data' d True (len + 1))"

definition sms_address_from_str :: "sms_address \<Rightarrow> string \<Rightarrow> int \<times> sms_address" where
  "sms_address_from_str address src =
     (let a = address\<lparr>adr_len := 0, adr_toa := 0x81\<rparr> in
      case src of
        [] \<Rightarrow> (-1, a)
      | ch # rest \<Rightarrow>
          let plus = (ch = CHR ''+''); a1 = (if plus then a\<lparr>adr_toa := 0x91\<rparr> else a) in
          if plus \<and> rest = [] then (-1, a1)
          else case address_pack (if plus then rest else src)
                      (replicate (length (adr_data address)) 0) 0 False 0 of
            (None, data) \<Rightarrow> (-1, a1\<lparr>adr_data := data\<rparr>)
          | (Some len, data) \<Rightarrow> (0, a1\<lparr>adr_data := data, adr_len := of_nat len\<rparr>))"

text \<open>\<open>memcpy\<close> of \<open>n\<close> bytes from index \<open>i\<close> of a buffer over the start of the data.\<close>

definition copy_in :: "bytes \<Rightarrow> bytes \<Rightarrow> nat \<Rightarrow> nat \<Rightarrow> bytes option" where
  "copy_in data buf i n =
     (if i + n \<le> length buf \<and> n \<le> length data then Some (blit data 0 (take n (drop i buf))) else None)"

definition sms_address_from_bytes :: "sms_address \<Rightarrow> bytes \<Rightarrow> nat \<Rightarrow> (int \<times> sms_address) option" where
  "sms_address_from_bytes address buf buflen =
     (if buflen < 2 then Some (-1, address)
      else do {
        b0 \<leftarrow> rd buf 0;
        b1 \<leftarrow> rd buf 1;
        let a = address\<lparr>adr_len := b0, adr_toa := b1\<rparr>;
        let len = (unat b0 + 1) div 2;
        if len > length (adr_data a) then Some (-1, a)
        else do {
          data \<leftarrow> copy_in (adr_data a) buf 2 len;
          Some (0, a\<lparr>adr_data := data\<rparr>) } })"

definition sms_address_to_bytes :: "sms_address \<Rightarrow> bytes option \<Rightarrow> nat \<Rightarrow> (nat \<times> bytes option) option" where
  "sms_address_to_bytes address buf bufsize0 =
     (let len = (unat (adr_len address) + 1) div 2 + 2 in
      case buf of
        None \<Rightarrow> Some (len, None)
      | Some b \<Rightarrow>
          if bufsize0 < 1 then Some (len, Some b)
          else do {
            b1 \<leftarrow> wr b 0 (adr_len address);
            if bufsize0 < 2 then Some (len, Some b1)
            else do {
              b2 \<leftarrow> wr b1 1 (adr_toa address);
              let n = min (bufsize0 - 2) (len - 2);
              if n \<le> length (adr_data address) \<and> 2 + n \<le> length b2
              then Some (len, Some (blit b2 2 (take n (adr_data address)))) else None } })"

fun address_hex_loop :: "nat \<Rightarrow> string \<Rightarrow> nat \<Rightarrow> bytes \<Rightarrow> nat \<Rightarrow> bytes option" where
  "address_hex_loop 0 hex p data nn = Some data"
| "address_hex_loop (Suc n) hex p data nn = do {
     v \<leftarrow> gsm_hex2_to_byte hex (p + nn * 2);
     data' \<leftarrow> wr data nn (word_of_int v);
     address_hex_loop n hex p data' (nn + 1) }"

text \<open>\<open>num_digits\<close> stays -1 when the first two characters are not hexadecimal.  The loop is not
  bounded by the size of the data array.\<close>

definition sms_address_from_hex :: "sms_address \<Rightarrow> string \<Rightarrow> nat \<Rightarrow> (int \<times> sms_address) option" where
  "sms_address_from_hex address hex hexlen =
     (if hexlen < 4 then Some (-1, address)
      else do {
        num_digits \<leftarrow> gsm_hex2_to_byte hex 0;
        toa \<leftarrow> gsm_hex2_to_byte hex 2;
        let a = address\<lparr>adr_len := word_of_int num_digits, adr_toa := word_of_int toa\<rparr>;
        let len = nat (cdiv (num_digits + 1) 2);
        if 4 + len * 2 > hexlen then Some (-1, a)
        else do {
          data \<leftarrow> address_hex_loop len hex 4 (adr_data a) 0;
          Some (0, a\<lparr>adr_data := data\<rparr>) } })"

text \<open>The loop over \<open>nn = 0, 2, ..\<close> below \<open>hexlen\<close>.\<close>

fun address_to_hex_loop :: "nat \<Rightarrow> string \<Rightarrow> bytes \<Rightarrow> nat \<Rightarrow> string option" where
  "address_to_hex_loop 0 hex data nn = Some hex"
| "address_to_hex_loop (Suc n) hex data nn = do {
     b \<leftarrow> rd data (nn div 2);
     hex' \<leftarrow> gsm_hex_from_byte hex (4 + nn) (uint b);
     address_to_hex_loop n hex' data (nn + 2) }"

definition sms_address_to_hex :: "sms_address \<Rightarrow> string option \<Rightarrow> nat \<Rightarrow> (nat \<times> string option) option" where
  "sms_address_to_hex address hex hexlen =
     (let len = (unat (adr_len address) + 1) div 2 + 2 in
      case hex of
        None \<Rightarrow> Some (len * 2, None)
      | Some h \<Rightarrow>
          if hexlen < 2 then Some (len * 2, Some h)
          else do {
            h1 \<leftarrow> gsm_hex_from_byte h 0 (uint (adr_len address));
            if hexlen < 4 then Some (len * 2, Some h1)
            else do {
              h2 \<leftarrow> gsm_hex_from_byte h1 2 (uint (adr_toa address));
              let hl = (if hexlen - 4 > 2 * (len - 2) then (len - 2) div 2 else hexlen - 4);
              h3 \<leftarrow> address_to_hex_loop ((hl + 1) div 2) h2 (adr_data address) 0;
              Some (len * 2, Some h3) } })"

definition gsm_rope_add_timestamp :: "allocator \<Rightarrow> rope \<Rightarrow> bytes \<Rightarrow> rope option" where
  "gsm_rope_add_timestamp malloc r ts = gsm_rope_add malloc r ts 7"

definition gsm_rope_add_address :: "allocator \<Rightarrow> rope \<Rightarrow> sms_address \<Rightarrow> rope option" where
  "gsm_rope_add_address malloc r addr = do {
     r1 \<leftarrow> gsm_rope_add_c malloc r (adr_len addr);
     r2 \<leftarrow> gsm_rope_add_c malloc r1 (adr_toa addr);
     r3 \<leftarrow> gsm_rope_add malloc r2 (adr_data addr) ((unat (adr_len addr) + 1) div 2);
     if odd (unat (adr_len addr)) \<and> rope_error r3 = 0 \<and> rope_data r3 \<noteq> RNull then do {
       b \<leftarrow> rd (rope_buf r3) (rope_pos r3 - 1);
       rope_poke r3 (rope_pos r3 - 1) (b OR 0xf0) }
     else Some r3 }"

section \<open>Field parsers\<close>

definition sms_get_byte :: "bytes \<Rightarrow> nat \<Rightarrow> nat \<Rightarrow> (int \<times> nat) option" where
  "sms_get_byte mem cur e =
     (if cur < e then map_option (\<lambda>b. (uint b, cur + 1)) (rd mem cur) else Some (-1, cur))"

text \<open>The loop over the address bytes: \<open>n\<close> bytes are left; the result code, \<open>dlen\<close>, \<open>adjust\<close> and
  the data.\<close>

fun sc_address_loop ::
  "nat \<Rightarrow> bytes \<Rightarrow> nat \<Rightarrow> nat \<Rightarrow> nat \<Rightarrow> bytes \<Rightarrow> (int \<times> nat \<times> nat \<times> bytes) option" where
  "sc_address_loop 0 mem cur dlen adjust data = Some (0, dlen, adjust, data)"
| "sc_address_loop (Suc n) mem cur dlen adjust data = do {
     c \<leftarrow> rd mem (cur + dlen);
     if dlen \<ge> length data then Some (-1, dlen, 0, data)
     else if c AND 0xf \<ge> 0xe then Some (0, dlen, 0, data)
     else if drop_bit 4 c AND 0xf \<ge> 0xe then Some (0, dlen, 1, data[dlen := c])
     else sc_address_loop n mem cur (dlen + 1) 1 (data[dlen := c]) }"

definition sms_get_sc_address ::
  "bytes \<Rightarrow> nat \<Rightarrow> nat \<Rightarrow> sms_address \<Rightarrow> (int \<times> nat \<times> sms_address) option" where
  "sms_get_sc_address mem pcur e address =
     (if pcur < e then do {
        len \<leftarrow> rd mem pcur;
        if len = 0 then Some (0, pcur + 1, address\<lparr>adr_len := 0, adr_toa := 0\<rparr>)
        else if pcur + 1 + unat len > e then Some (-1, pcur, address)
        else do {
          toa \<leftarrow> rd mem (pcur + 1);
          (result, dlen, adjust, data) \<leftarrow> sc_address_loop (unat len - 1) mem (pcur + 2) 0 0 (adr_data address);
          let a = address\<lparr>adr_toa := toa, adr_data := data, adr_len := of_nat (2 * dlen + adjust)\<rparr>;
          Some (result, if result = 0 then pcur + 2 else pcur, a) } }
      else Some (-1, pcur, address))"

definition sms_skip_sc_address :: "bytes \<Rightarrow> nat \<Rightarrow> nat \<Rightarrow> (int \<times> nat) option" where
  "sms_skip_sc_address mem pcur e =
     (if pcur \<ge> e then Some (-1, pcur)
      else map_option (\<lambda>len. if pcur + 1 + unat len > e then (-1, pcur) else (0, pcur + 1 + unat len))
             (rd mem pcur))"

definition sms_get_address ::
  "bytes \<Rightarrow> nat \<Rightarrow> nat \<Rightarrow> sms_address \<Rightarrow> (int \<times> nat \<times> sms_address) option" where
  "sms_get_address mem pcur e address =
     (if pcur \<ge> e then Some (-1, pcur, address)
      else do {
        dlen \<leftarrow> rd mem pcur;
        if dlen = 0 then Some (0, pcur + 1, address\<lparr>adr_len := 0, adr_toa := 0\<rparr>)
        else if pcur + 1 + 1 + (unat dlen + 1) div 2 > e then Some (-1, pcur, address)
        else do {
          toa \<leftarrow> rd mem (pcur + 1);
          let a = address\<lparr>adr_len := dlen, adr_toa := toa\<rparr>;
          let len = (unat dlen + 1) div 2;
          if len > length (adr_data a) then Some (-1, pcur, a)
          else do {
            data \<leftarrow> copy_in (adr_data a) mem (pcur + 2) len;
            Some (0, pcur + 2 + len, a\<lparr>adr_data := data\<rparr>) } } })"

text \<open>\<open>sms_skip_address\<close> does not store the new position.\<close>

definition sms_skip_address :: "bytes \<Rightarrow> nat \<Rightarrow> nat \<Rightarrow> (int \<times> nat) option" where
  "sms_skip_address mem pcur e =
     (if pcur + 2 > e then Some (-1, pcur)
      else map_option (\<lambda>dlen. (if pcur + 2 + (unat dlen + 1) div 2 > e then -1 else 0, pcur)) (rd mem pcur))"

definition sms_get_timestamp :: "bytes \<Rightarrow> nat \<Rightarrow> nat \<Rightarrow> bytes \<Rightarrow> (int \<times> nat \<times> bytes) option" where
  "sms_get_timestamp mem pcur e ts =
     (if pcur + 7 > e then Some (-1, pcur, ts)
      else map_option (\<lambda>d. (0, pcur + 7, d)) (copy_in ts mem pcur 7))"

definition sms_skip_timestamp :: "nat \<Rightarrow> nat \<Rightarrow> int \<times> nat" where
  "sms_skip_timestamp pcur e = (if pcur + 7 > e then (-1, pcur) else (0, pcur + 7))"

section \<open>The digits of an address\<close>

definition adr_nib :: "bytes \<Rightarrow> nat \<Rightarrow> byte" where
  "adr_nib data i = (if odd i then drop_bit 4 (data ! (i div 2)) else data ! (i div 2)) AND 15"

lemma nibbles_of_byte:
  assumes "h < 16" "l < 16"
  shows "byte_of_nibbles h l AND 15 = l" "drop_bit 4 (byte_of_nibbles h l) AND 15 = h"
proof -
  have "h < 16 \<Longrightarrow> l < 16 \<Longrightarrow> byte_of_nibbles h l AND 15 = l \<and> drop_bit 4 (byte_of_nibbles h l) AND 15 = h"
    by (erule nibble_cases; erule nibble_cases) (simp_all add: byte_of_nibbles_def)
  with assms show "byte_of_nibbles h l AND 15 = l" "drop_bit 4 (byte_of_nibbles h l) AND 15 = h" by simp_all
qed

lemma or_f0_low: "(b OR 0xf0) AND 15 = (b AND 15 :: byte)"
  by (simp add: bit.conj_disj_distrib2)

lemma int_digit_char: "d < 10 \<Longrightarrow> int (of_char (digit_char d)) - 48 = int d"
  by simp

lemma adr_nib_update:
  assumes "d < length data" "i div 2 \<noteq> d"
  shows "adr_nib (data[d := b]) i = adr_nib data i"
  using assms by (simp add: adr_nib_def)

text \<open>After \<open>k\<close> digits the data pointer is at byte \<open>k div 2\<close> and everything behind is zero.\<close>

lemma address_pack_digits:
  assumes "\<forall>x \<in> set ds. x < 10" "k + length ds \<le> 2 * length data"
    and "\<forall>j. (k + 1) div 2 \<le> j \<and> j < length data \<longrightarrow> data ! j = 0"
    and "odd k \<longrightarrow> data ! (k div 2) < 16"
  shows "\<exists>data'. address_pack (map digit_char ds) data (k div 2) (odd k) k = (Some (k + length ds), data') \<and>
    length data' = length data \<and> (\<forall>i < k. adr_nib data' i = adr_nib data i) \<and>
    (\<forall>i < length ds. adr_nib data' (k + i) = of_nat (ds ! i))"
  using assms
proof (induction ds arbitrary: k data)
  case Nil
  show ?case
  proof (cases "odd k")
    case True
    have "adr_nib (data[k div 2 := data ! (k div 2) OR 0xf0]) i = adr_nib data i" if "i < k" for i
    proof (cases "i div 2 = k div 2")
      case T: True
      then have "even i" using that True by presburger
      then show ?thesis using T or_f0_low
        by (cases "k div 2 < length data") (simp_all add: adr_nib_def list_update_beyond)
    next
      case False then show ?thesis by (simp add: adr_nib_def)
    qed
    then show ?thesis using True by simp
  qed simp
next
  case (Cons x ds)
  let ?d = "k div 2" and ?b = "word_of_nat x :: byte"
  have x: "x < 10" and d: "?d < length data" using Cons.prems(1,2) by auto
  have b16: "?b < 16" using x by (simp add: word_less_nat_alt unat_of_nat_byte)
  let ?v = "data ! ?d OR push_bit (if odd k then 4 else 0) ?b" and ?data = "data[?d := data ! ?d OR push_bit (if odd k then 4 else 0) ?b]"
  have v: "if odd k then ?v = byte_of_nibbles ?b (data ! ?d) else ?v = ?b"
    using Cons.prems(3) d by (auto simp: byte_of_nibbles_def or.commute)
  have new: "adr_nib ?data k = ?b"
    using v d b16 Cons.prems(4) nibbles_of_byte [of ?b "data ! ?d"] nibble_and_15
    by (cases "odd k") (simp_all add: adr_nib_def)
  have old: "adr_nib ?data i = adr_nib data i" if "i < k" for i
  proof (cases "i div 2 = ?d")
    case True
    then have "even i" "odd k" using that by presburger+
    then show ?thesis using v d b16 Cons.prems(4) True nibbles_of_byte [of ?b "data ! ?d"]
      by (simp add: adr_nib_def nibble_and_15)
  next
    case False then show ?thesis by (simp add: adr_nib_def)
  qed
  have zero: "\<forall>j. (Suc k + 1) div 2 \<le> j \<and> j < length ?data \<longrightarrow> ?data ! j = 0"
  proof (intro allI impI)
    fix j assume j: "(Suc k + 1) div 2 \<le> j \<and> j < length ?data"
    then have "j \<noteq> ?d" "(k + 1) div 2 \<le> j" by auto
    then show "?data ! j = 0" using j Cons.prems(3) by simp
  qed
  have half: "odd (Suc k) \<longrightarrow> ?data ! (Suc k div 2) < 16"
    using v d b16 by auto
  have "address_pack (map digit_char (x # ds)) data ?d (odd k) k =
      address_pack (map digit_char ds) ?data (Suc k div 2) (odd (Suc k)) (Suc k)"
    using x d by (cases "odd k") (simp_all add: uint32_def Let_def)
  moreover obtain data' where "address_pack (map digit_char ds) ?data (Suc k div 2) (odd (Suc k)) (Suc k) =
        (Some (Suc k + length ds), data')" "length data' = length ?data"
      "\<forall>i < Suc k. adr_nib data' i = adr_nib ?data i"
      "\<forall>i < length ds. adr_nib data' (Suc k + i) = of_nat (ds ! i)"
    using Cons.IH [OF _ _ zero half] Cons.prems(1,2) by auto
  moreover from this have "\<forall>i < length (x # ds). adr_nib data' (k + i) = of_nat ((x # ds) ! i)"
    using new by (auto simp: nth_Cons split: nat.splits)
  ultimately show ?case using old by auto
qed

lemma address_digits_blit:
  assumes "\<forall>i < n. adr_nib data (k + i) = of_nat (ds ! (k + i))" "\<forall>x \<in> set ds. x < 10"
    and "k + n = length ds" "length ds \<le> 2 * length data" "s = length us" "s + n \<le> length str"
  shows "address_digits n data k (blit str 0 us) s =
    Some (blit str 0 (us @ map digit_char (drop k ds)), s + n)"
  using assms
proof (induction n arbitrary: k us s)
  case (Suc n)
  have "k div 2 < length data" using Suc.prems(3,4) by simp
  moreover have "(if odd k then drop_bit 4 (data ! (k div 2)) else data ! (k div 2)) AND 15 = of_nat (ds ! k)"
    using Suc.prems(1)[rule_format, of 0] by (simp add: adr_nib_def)
  moreover have "unat (of_nat (ds ! k) :: byte) = ds ! k"
  proof (rule unat_of_nat_byte)
    have "ds ! k \<in> set ds" using Suc.prems(3) by simp
    then show "ds ! k < 256" using Suc.prems(2) by fastforce
  qed
  moreover have "\<forall>i < n. adr_nib data (Suc k + i) = of_nat (ds ! (Suc k + i))"
    using Suc.prems(1) by (metis Suc_less_eq add_Suc_shift)
  moreover have "wr (blit str 0 us) s c = Some (blit str 0 (us @ [c]))" for c
    using wr_blit [of 0 us str c] Suc.prems(5,6) by simp
  moreover have "drop k ds = ds ! k # drop (Suc k) ds" using Suc.prems(3) by (simp add: Cons_nth_drop_Suc)
  ultimately show ?case
    using Suc.IH [of "Suc k" "Suc s" "us @ [digit_char (ds ! k)]"] Suc.prems
    by (auto simp: rd_Some digit_char_def Let_def)
qed simp

section \<open>Properties\<close>

text \<open>C26: a telephone number of up to 32 digits, with or without a leading plus, survives the
  conversion to an address and back.\<close>

theorem address_str_roundtrip:
  assumes "\<forall>x \<in> set ds. x < 10" "ds \<noteq> []" "length ds \<le> 2 * length (adr_data a)" "length ds < 256"
    and "src = (if intl then ''+'' else []) @ map digit_char ds" "length src < length str"
  shows "\<exists>a' str'. sms_address_from_str a src = (0, a') \<and> adr_len a' = of_nat (length ds) \<and>
    sms_address_to_str a' str = Some (1, str') \<and> take (length src + 1) str' = src @ [CHR 0x00]"
proof -
  let ?z = "replicate (length (adr_data a)) (0 :: byte)" and ?sz = "length (adr_data a)"
  obtain data where p: "address_pack (map digit_char ds) ?z 0 False 0 = (Some (length ds), data)"
      "length data = ?sz" "\<forall>i < length ds. adr_nib data i = of_nat (ds ! i)"
    using address_pack_digits [of ds 0 ?z] assms(1,3) by auto
  obtain x ds' where ds: "ds = x # ds'" using assms(2) by (cases ds) auto
  then have nplus: "digit_char x \<noteq> CHR ''+''"
    using assms(1) isdigit_not_sign [of "digit_char x"] by auto
  define a' where "a' = a\<lparr>adr_len := of_nat (length ds), adr_toa := (if intl then 0x91 else 0x81), adr_data := data\<rparr>"
  have from_str: "sms_address_from_str a src = (0, a')"
    using p(1) nplus assms(5) ds
    by (cases intl) (simp_all add: sms_address_from_str_def a'_def Let_def)
  let ?us = "if intl then ''+'' else []" and ?n = "length ds"
  have sl: "length src = length ?us + ?n" using assms(5) by simp
  have first: "(if adr_toa a' = 0x91 then map_option (\<lambda>x. (x, 1)) (wr str 0 (CHR ''+'')) else Some (str, 0)) =
      Some (blit str 0 ?us, length ?us)"
  proof -
    have "0 < length str" using assms(6) by auto
    then show ?thesis using wr_blit [of 0 "[]" str "CHR ''+''"] by (simp add: a'_def)
  qed
  have "address_digits ?n data 0 (blit str 0 ?us) (length ?us) =
      Some (blit str 0 (?us @ map digit_char ds), length ?us + ?n)"
    using address_digits_blit [of ?n data 0 ds "length ?us" ?us str] p(2,3) assms(1,3,6) sl by simp
  moreover have "wr (blit str 0 src) (length src) (CHR 0x00) = Some (blit str 0 (src @ [CHR 0x00]))"
    using wr_blit [of 0 src str] assms(6) by simp
  ultimately have "sms_address_to_str a' str = Some (1, blit str 0 (src @ [CHR 0x00]))"
    using first assms(4,5) sl
    by (simp add: sms_address_to_str_def a'_def unat_of_nat_byte)
  moreover have "take (length src + 1) (blit str 0 (src @ [CHR 0x00])) = src @ [CHR 0x00]"
    using assms(6) by (simp add: blit_def)
  moreover have "adr_len a' = of_nat (length ds)" by (simp add: a'_def)
  ultimately show ?thesis using from_str by blast
qed

lemma address_str_roundtrip_witness:
  "\<exists>a' str'. sms_address_from_str \<lparr>adr_len = 0, adr_toa = 0, adr_data = replicate 16 0\<rparr> ''+4912'' = (0, a') \<and>
     adr_len a' = of_nat (length [4, 9, 1, 2 :: nat]) \<and> sms_address_to_str a' ''zzzzzzzz'' = Some (1, str') \<and>
     take (length ''+4912'' + 1) str' = ''+4912'' @ [CHR 0x00]"
  by (rule address_str_roundtrip [where intl = True]) code_simp+

lemma address_hex_loop_overrun:
  "nn \<le> length data \<Longrightarrow> length data < nn + n \<Longrightarrow> address_hex_loop n hex p data nn = None"
proof (induction n arbitrary: data nn)
  case (Suc n)
  show ?case
  proof (cases "nn = length data")
    case True then show ?thesis by (auto simp: wr_def split: Option.bind_splits)
  next
    case False
    with Suc show ?thesis by (auto simp: wr_def split: Option.bind_splits)
  qed
qed simp

text \<open>An address in a binary message survives being written and parsed: the size announced
  without a buffer is the size written, and a buffer of that size is enough.\<close>

theorem address_bytes_roundtrip:
  assumes "(unat (adr_len a) + 1) div 2 \<le> length (adr_data a)"
    and "length (adr_data b) = length (adr_data a)"
    and "sms_address_to_bytes a None 0 = Some (n, None)" "length buf = n"
  shows "\<exists>buf'. sms_address_to_bytes a (Some buf) n = Some (n, Some buf') \<and>
    (\<exists>b'. sms_address_from_bytes b buf' n = Some (0, b') \<and> adr_len b' = adr_len a \<and> adr_toa b' = adr_toa a \<and>
       take ((unat (adr_len a) + 1) div 2) (adr_data b') = take ((unat (adr_len a) + 1) div 2) (adr_data a))"
proof -
  let ?k = "(unat (adr_len a) + 1) div 2"
  have n: "n = ?k + 2" using assms(3) by (simp add: sms_address_to_bytes_def)
  let ?buf = "adr_len a # adr_toa a # take ?k (adr_data a)"
  obtain x y rest where buf: "buf = x # y # rest" "length rest = ?k"
    using assms(4) n by (cases buf; cases "tl buf") auto
  have "sms_address_to_bytes a (Some buf) n = Some (n, Some ?buf)"
    using n buf assms(1) by (simp add: sms_address_to_bytes_def wr_def blit_def Let_def)
  moreover have "sms_address_from_bytes b ?buf n =
      Some (0, b\<lparr>adr_len := adr_len a, adr_toa := adr_toa a,
                 adr_data := blit (adr_data b) 0 (take ?k (adr_data a))\<rparr>)"
    using n assms(1,2) by (simp add: sms_address_from_bytes_def rd_def copy_in_def Let_def)
  moreover have "take ?k (blit (adr_data b) 0 (take ?k (adr_data a))) = take ?k (adr_data a)"
    using assms(1) by (simp add: blit_def)
  ultimately show ?thesis by auto
qed

lemma address_bytes_roundtrip_witness:
  "\<exists>buf'. sms_address_to_bytes \<lparr>adr_len = 3, adr_toa = 0x81, adr_data = [0x21, 0xF3]\<rparr> (Some [0, 0, 0, 0]) 4 =
       Some (4, Some buf') \<and>
     (\<exists>b'. sms_address_from_bytes \<lparr>adr_len = 0, adr_toa = 0, adr_data = [9, 9]\<rparr> buf' 4 = Some (0, b') \<and>
       adr_len b' = adr_len \<lparr>adr_len = 3, adr_toa = 0x81, adr_data = [0x21, 0xF3]\<rparr> \<and>
       adr_toa b' = adr_toa \<lparr>adr_len = 3, adr_toa = 0x81, adr_data = [0x21, 0xF3]\<rparr> \<and>
       take ((unat (adr_len \<lparr>adr_len = 3, adr_toa = 0x81, adr_data = [0x21, 0xF3]\<rparr>) + 1) div 2) (adr_data b') =
       take ((unat (adr_len \<lparr>adr_len = 3, adr_toa = 0x81, adr_data = [0x21, 0xF3]\<rparr>) + 1) div 2)
         (adr_data \<lparr>adr_len = 3, adr_toa = 0x81, adr_data = [0x21, 0xF3]\<rparr>))"
  by (rule address_bytes_roundtrip) (simp_all add: sms_address_to_bytes_def)

text \<open>An address in hexadecimal that announces more digits than the 16 data bytes hold is
  written behind them: the parser of a text long enough for its announced address faults.\<close>

theorem address_hex_overrun:
  assumes "gsm_hex2_to_byte hex 0 = Some n" "2 * int (length (adr_data a)) < n"
    and "4 + 2 * ((n + 1) div 2) \<le> int hexlen"
  shows "sms_address_from_hex a hex hexlen = None"
proof (cases "gsm_hex2_to_byte hex 2")
  case None
  then show ?thesis using assms by (auto simp: sms_address_from_hex_def)
next
  case (Some toa)
  have n: "0 < n" using assms(2) by linarith
  then have "cdiv (n + 1) 2 = (n + 1) div 2" by (simp add: cdiv_def)
  moreover have "length (adr_data a) < nat ((n + 1) div 2)" using assms(2) by linarith
  moreover have "4 + nat ((n + 1) div 2) * 2 \<le> hexlen" "4 \<le> hexlen" using assms(3) n by linarith+
  ultimately show ?thesis
    using assms(1) Some address_hex_loop_overrun [of 0 "adr_data a" "nat ((n + 1) div 2)" hex 4]
    by (simp add: sms_address_from_hex_def Let_def)
qed

lemma address_hex_overrun_witness:
  "sms_address_from_hex \<lparr>adr_len = 0, adr_toa = 0, adr_data = [0, 0]\<rparr> ''0581214365'' 10 = None"
  by (rule address_hex_overrun [of _ 5])
    (simp_all add: gsm_hex2_to_byte_def rd_def gsm_hexchar_to_int_def uint32_def)

section \<open>The field parsers stay inside the message\<close>

lemma sc_address_loop_total:
  "cur + dlen + n \<le> length mem \<Longrightarrow>
   \<exists>r dlen' adjust' data'. sc_address_loop n mem cur dlen adjust data = Some (r, dlen', adjust', data') \<and>
     length data' = length data"
proof (induction n arbitrary: dlen adjust data)
  case (Suc n)
  from Suc.prems have "cur + dlen < length mem" "cur + (dlen + 1) + n \<le> length mem" by simp_all
  then show ?case using Suc.IH [of "dlen + 1" 1 "data[dlen := mem ! (cur + dlen)]"]
    by (auto simp: rd_Some)
qed simp

lemma get_sc_address_total:
  assumes "e \<le> length mem"
  shows "\<exists>r cur a'. sms_get_sc_address mem pcur e a = Some (r, cur, a') \<and>
    length (adr_data a') = length (adr_data a) \<and> (pcur \<le> e \<longrightarrow> pcur \<le> cur \<and> cur \<le> e)"
proof (cases "pcur < e")
  case True
  then have rd0: "rd mem pcur = Some (mem ! pcur)" using assms by (simp add: rd_Some)
  let ?len = "mem ! pcur"
  show ?thesis
  proof (cases "?len = 0 \<or> pcur + 1 + unat ?len > e")
    case False
    then have "0 < unat ?len" by (simp add: unat_gt_0)
    with False assms have rd1: "rd mem (Suc pcur) = Some (mem ! Suc pcur)"
      and r: "pcur + 2 + 0 + (unat ?len - 1) \<le> length mem" by (simp_all add: rd_Some)
    from sc_address_loop_total [OF r, of 0 "adr_data a"] False \<open>0 < unat ?len\<close> show ?thesis
      using True rd0 rd1 by (auto simp: sms_get_sc_address_def)
  qed (use True rd0 in \<open>auto simp: sms_get_sc_address_def\<close>)
qed (auto simp: sms_get_sc_address_def)

lemma get_address_total:
  assumes "e \<le> length mem"
  shows "\<exists>r cur a'. sms_get_address mem pcur e a = Some (r, cur, a') \<and>
    length (adr_data a') = length (adr_data a) \<and> (pcur \<le> e \<longrightarrow> pcur \<le> cur \<and> cur \<le> e)"
proof (cases "pcur < e")
  case True
  then have rd0: "rd mem pcur = Some (mem ! pcur)" using assms by (simp add: rd_Some)
  let ?k = "(unat (mem ! pcur) + 1) div 2"
  show ?thesis
  proof (cases "mem ! pcur = 0 \<or> pcur + 1 + 1 + ?k > e")
    case False
    with assms have "rd mem (Suc pcur) = Some (mem ! Suc pcur)" "pcur + 2 + ?k \<le> length mem"
      by (simp_all add: rd_Some)
    with False True rd0 show ?thesis
      by (auto simp: sms_get_address_def copy_in_def Let_def)
  qed (use True rd0 in \<open>auto simp: sms_get_address_def\<close>)
qed (auto simp: sms_get_address_def)

lemma get_timestamp_total:
  "e \<le> length mem \<Longrightarrow> length ts = 7 \<Longrightarrow> \<exists>r cur ts'. sms_get_timestamp mem pcur e ts = Some (r, cur, ts') \<and>
     length ts' = 7 \<and> (pcur \<le> e \<longrightarrow> pcur \<le> cur \<and> cur \<le> e)"
  by (auto simp: sms_get_timestamp_def copy_in_def)

lemma get_byte_total:
  "e \<le> length mem \<Longrightarrow> \<exists>r cur. sms_get_byte mem pcur e = Some (r, cur) \<and> (pcur \<le> e \<longrightarrow> pcur \<le> cur \<and> cur \<le> e)"
  by (auto simp: sms_get_byte_def rd_Some)

lemma skip_sc_address_total:
  "e \<le> length mem \<Longrightarrow> \<exists>r cur. sms_skip_sc_address mem pcur e = Some (r, cur) \<and> (pcur \<le> e \<longrightarrow> pcur \<le> cur \<and> cur \<le> e) \<and>
     (r = 0 \<or> r = -1)"
  by (auto simp: sms_skip_sc_address_def rd_Some)

end
