(* ===== verification/Sms_Pdu.thy ===== *)
theory Sms_Pdu
  imports Sms_Address Gsm_Alphabet
begin

text \<open>
  The SMS protocol data units of \<open>src/huawei-generic/sms_gsm.c\<close>: reading the fields of a received
  unit, building SMS-DELIVER units in a counting pass and a writing pass over a rope, splitting a
  text over several units, and the hexadecimal form.  A unit is its bytes and the index \<open>tpdu\<close>;
  its end is the end of the bytes, so a read behind it is a fault.
\<close>

section \<open>Reading a unit\<close>

record smspdu =
  pdu_base :: bytes
  pdu_tpdu :: nat

abbreviation pdu_end :: "smspdu \<Rightarrow> nat" where
  "pdu_end p \<equiv> length (pdu_base p)"

datatype SmsPduType = SMS_PDU_INVALID | SMS_PDU_DELIVER | SMS_PDU_SUBMIT | SMS_PDU_STATUS_REPORT

text \<open>An uninitialised local address; every function below fills it before it is read.\<close>

definition local_address :: sms_address where
  "local_address = \<lparr>adr_len = 0, adr_toa = 0, adr_data = replicate 16 0\<rparr>"

definition smspdu_get_type :: "smspdu \<Rightarrow> SmsPduType option" where
  "smspdu_get_type p = do {
     (mtiByte, _) \<leftarrow> sms_get_byte (pdu_base p) (pdu_tpdu p) (pdu_end p);
     Some (if mtiByte AND 3 = 0 then SMS_PDU_DELIVER
           else if mtiByte AND 3 = 1 then SMS_PDU_SUBMIT
           else if mtiByte AND 3 = 2 then SMS_PDU_STATUS_REPORT
           else SMS_PDU_INVALID) }"

definition smspdu_get_sender_address :: "smspdu \<Rightarrow> sms_address \<Rightarrow> (int \<times> sms_address) option" where
  "smspdu_get_sender_address p address = do {
     (mtiByte, data) \<leftarrow> sms_get_byte (pdu_base p) (pdu_tpdu p) (pdu_end p);
     if mtiByte AND 3 = 0 then do {
       (r, _, a) \<leftarrow> sms_get_sc_address (pdu_base p) data (pdu_end p) address;
       Some (r, a) }
     else Some (-1, address) }"

definition smspdu_get_sc_timestamp :: "smspdu \<Rightarrow> bytes \<Rightarrow> (int \<times> bytes) option" where
  "smspdu_get_sc_timestamp p ts = do {
     (mtiByte, data) \<leftarrow> sms_get_byte (pdu_base p) (pdu_tpdu p) (pdu_end p);
     if mtiByte AND 3 = 0 then do {
       (r, data1, _) \<leftarrow> sms_get_sc_address (pdu_base p) data (pdu_end p) local_address;
       if r < 0 then Some (-1, ts)
       else do {
         (r2, _, ts') \<leftarrow> sms_get_timestamp (pdu_base p) (data1 + 2) (pdu_end p) ts;
         Some (r2, ts') } }
     else Some (-1, ts) }"

definition smspdu_get_receiver_address :: "smspdu \<Rightarrow> sms_address \<Rightarrow> (int \<times> sms_address) option" where
  "smspdu_get_receiver_address p address = do {
     (mtiByte, data) \<leftarrow> sms_get_byte (pdu_base p) (pdu_tpdu p) (pdu_end p);
     if mtiByte AND 3 = 1 then do {
       (r, _, a) \<leftarrow> sms_get_address (pdu_base p) (data + 1) (pdu_end p) address;
       Some (r, a) }
     else Some (-1, address) }"

datatype SmsCodingScheme = SMS_CODING_SCHEME_UNKNOWN | SMS_CODING_SCHEME_GSM7 | SMS_CODING_SCHEME_UCS2

definition coding_scheme_of :: "int \<Rightarrow> SmsCodingScheme" where
  "coding_scheme_of dataCoding =
     (let hi = drop_bit 4 dataCoding; cls = drop_bit 2 dataCoding AND 3 in
      if hi = 0 \<or> hi = 2 \<or> hi = 3 then SMS_CODING_SCHEME_GSM7
      else if hi = 1 then
        (if dataCoding = 0x10 then SMS_CODING_SCHEME_GSM7
         else if dataCoding = 0x11 then SMS_CODING_SCHEME_UCS2
         else SMS_CODING_SCHEME_UNKNOWN)
      else if hi = 4 \<or> hi = 5 \<or> hi = 6 \<or> hi = 7 then
        (if dataCoding AND 0x20 \<noteq> 0 then SMS_CODING_SCHEME_UNKNOWN
         else if cls = 0 then SMS_CODING_SCHEME_GSM7
         else if cls = 2 then SMS_CODING_SCHEME_UCS2
         else SMS_CODING_SCHEME_UNKNOWN)
      else if hi = 0xF \<and> dataCoding AND 4 = 0 then SMS_CODING_SCHEME_GSM7
      else SMS_CODING_SCHEME_UNKNOWN)"

definition sms_get_coding_scheme :: "bytes \<Rightarrow> nat \<Rightarrow> nat \<Rightarrow> (SmsCodingScheme \<times> nat) option" where
  "sms_get_coding_scheme mem pcur e =
     (if pcur \<ge> e then Some (SMS_CODING_SCHEME_UNKNOWN, pcur)
      else map_option (\<lambda>b. (coding_scheme_of (uint b), pcur + 1)) (rd mem pcur))"

text \<open>A converter called with a pointer to index \<open>i\<close> of the rope's data.\<close>

definition rope_set_buf :: "rope \<Rightarrow> bytes \<Rightarrow> rope" where
  "rope_set_buf r b =
     (case rope_data r of
        RNull \<Rightarrow> r | RData0 \<Rightarrow> r\<lparr>rope_data0 := b\<rparr> | RHeap _ \<Rightarrow> r\<lparr>rope_data := RHeap b\<rparr>)"

definition rope_fill :: "rope \<Rightarrow> nat \<Rightarrow> (bytes option \<Rightarrow> (nat \<times> bytes option) option) \<Rightarrow> rope option" where
  "rope_fill r i f =
     (if rope_data r = RNull \<or> length (rope_buf r) < i then None
      else case f (Some (drop i (rope_buf r))) of
        Some (_, Some d) \<Rightarrow> Some (rope_set_buf r (take i (rope_buf r) @ d))
      | _ \<Rightarrow> None)"

text \<open>The text of a message.  The length byte is not compared with the end of the unit.  Behind a
  user data header the first character of a 7-bit text is written by itself, and the whole count
  of septets after it.\<close>

definition sms_get_text_utf8 ::
  "allocator \<Rightarrow> bytes \<Rightarrow> nat \<Rightarrow> nat \<Rightarrow> bool \<Rightarrow> SmsCodingScheme \<Rightarrow> rope \<Rightarrow> (int \<times> nat \<times> rope) option" where
  "sms_get_text_utf8 malloc mem pcur e hasUDH coding rope =
     (if pcur \<ge> e then Some (-1, pcur, rope)
      else do {
        len0 \<leftarrow> rd mem pcur;
        hdr \<leftarrow>
          (if hasUDH then
             (if pcur + 1 \<ge> e then Some None
              else do {
                hlen \<leftarrow> rd mem (pcur + 1);
                if pcur + 2 + unat hlen > e then Some None
                else
                  let len = (if coding = SMS_CODING_SCHEME_GSM7 then uint len0 - (uint hlen * 2 - 2)
                             else uint len0 - (uint hlen + 1))
                  in Some (if len < 0 then None else Some (len, pcur + 2 + unat hlen)) })
           else Some (Some (uint len0, pcur + 1)));
        case hdr of
          None \<Rightarrow> Some (-1, pcur, rope)
        | Some (len, cur) \<Rightarrow>
            if coding = SMS_CODING_SCHEME_GSM7 then do {
              (count, _) \<leftarrow> utf8_from_gsm7 (drop cur mem) 0 (nat len) None;
              case gsm_rope_reserve malloc rope count of
                (None, rope1) \<Rightarrow> Some (0, cur + nat ((len + 1) div 2), rope1)
              | (Some dst, rope1) \<Rightarrow> do {
                  (rope2, dst2, cur2) \<leftarrow>
                    (if hasUDH then do {
                       b \<leftarrow> rd mem cur;
                       rope2 \<leftarrow> rope_poke rope1 dst (drop_bit 1 b);
                       Some (rope2, dst + 1, cur + 1) }
                     else Some (rope1, dst, cur));
                  rope3 \<leftarrow> rope_fill rope2 dst2 (utf8_from_gsm7 (drop cur2 mem) 0 (nat len));
                  Some (0, cur2 + nat ((len + 1) div 2), rope3) } }
            else if coding = SMS_CODING_SCHEME_UCS2 then do {
              (count, _) \<leftarrow> ucs2_to_utf8 (drop cur mem) (len div 2) None;
              case gsm_rope_reserve malloc rope count of
                (None, rope1) \<Rightarrow> Some (0, cur + nat len, rope1)
              | (Some dst, rope1) \<Rightarrow> do {
                  rope2 \<leftarrow> rope_fill rope1 dst (ucs2_to_utf8 (drop cur mem) (len div 2));
                  Some (0, cur + nat len, rope2) } }
            else Some (0, cur, rope) })"

text \<open>Copying the rope's text to the caller's buffer.\<close>

definition text_out :: "rope \<Rightarrow> bytes \<Rightarrow> nat \<Rightarrow> (int \<times> bytes) option" where
  "text_out r utf8 utf8len =
     (let n = min utf8len (rope_pos r) in
      if n = 0 then Some (int (rope_pos r), utf8)
      else if n \<le> length (rope_buf r) \<and> n \<le> length utf8
      then Some (int (rope_pos r), blit utf8 0 (take n (rope_buf r))) else None)"

text \<open>\<open>r0\<close> is the uninitialised local rope.\<close>

definition smspdu_get_text_message ::
  "allocator \<Rightarrow> rope \<Rightarrow> smspdu \<Rightarrow> bytes \<Rightarrow> nat \<Rightarrow> (int \<times> bytes) option" where
  "smspdu_get_text_message malloc r0 p utf8 utf8len = do {
     let mem = pdu_base p;
     let e = pdu_end p;
     (mtiByte, data) \<leftarrow> sms_get_byte mem (pdu_tpdu p) e;
     let udh = (mtiByte AND 0x40 \<noteq> 0);
     if mtiByte AND 3 = 0 then do {
       (r, data1, _) \<leftarrow> sms_get_sc_address mem data e local_address;
       if r < 0 then Some (-1, utf8)
       else do {
         (coding, data2) \<leftarrow> sms_get_coding_scheme mem (data1 + 1) e;
         if coding = SMS_CODING_SCHEME_UNKNOWN then Some (-1, utf8)
         else do {
           (r2, data3, _) \<leftarrow> sms_get_timestamp mem data2 e (replicate 7 0);
           if r2 < 0 then Some (-1, utf8)
           else do {
             (r3, _, rope) \<leftarrow> sms_get_text_utf8 malloc mem data3 e udh coding (gsm_rope_init_alloc malloc r0 0);
             if r3 < 0 then Some (-1, utf8) else text_out rope utf8 utf8len } } } }
     else if mtiByte AND 3 = 1 then do {
       (r, data1, _) \<leftarrow> sms_get_address mem (data + 1) e local_address;
       if r < 0 then Some (-1, utf8)
       else do {
         (coding, data2) \<leftarrow> sms_get_coding_scheme mem (data1 + 1) e;
         if coding = SMS_CODING_SCHEME_UNKNOWN then Some (-1, utf8)
         else do {
           (r3, _, rope) \<leftarrow> sms_get_text_utf8 malloc mem data2 e udh coding (gsm_rope_init_alloc malloc r0 0);
           if r3 < 0 then Some (-1, utf8) else text_out rope utf8 utf8len } } }
     else Some (-1, utf8) }"

section \<open>Building units\<close>

definition gsm_rope_add_sms_user_header ::
  "allocator \<Rightarrow> rope \<Rightarrow> byte \<Rightarrow> nat \<Rightarrow> nat \<Rightarrow> rope option" where
  "gsm_rope_add_sms_user_header malloc r ref_number pdu_count pdu_index = do {
     r1 \<leftarrow> gsm_rope_add_c malloc r 0x05;
     r2 \<leftarrow> gsm_rope_add_c malloc r1 0x00;
     r3 \<leftarrow> gsm_rope_add_c malloc r2 0x03;
     r4 \<leftarrow> gsm_rope_add_c malloc r3 ref_number;
     r5 \<leftarrow> gsm_rope_add_c malloc r4 (of_nat pdu_count);
     gsm_rope_add_c malloc r5 (of_nat pdu_index + 1) }"

text \<open>The part of a deliver unit before the user data.\<close>

definition deliver_head ::
  "allocator \<Rightarrow> rope \<Rightarrow> bool \<Rightarrow> sms_address \<Rightarrow> bytes \<Rightarrow> nat \<Rightarrow> rope option" where
  "deliver_head malloc r use_gsm7 sender_address timestamp pdu_count = do {
     r1 \<leftarrow> gsm_rope_add_c malloc r 0;
     r2 \<leftarrow> gsm_rope_add_c malloc r1 (if pdu_count > 1 then 0x20 OR 0x40 else 0x20);
     r3 \<leftarrow> gsm_rope_add_address malloc r2 sender_address;
     r4 \<leftarrow> gsm_rope_add_c malloc r3 0;
     r5 \<leftarrow> gsm_rope_add_c malloc r4 (if use_gsm7 then 0x00 else 0x09);
     gsm_rope_add_timestamp malloc r5 timestamp }"

definition reserve_and_fill ::
  "allocator \<Rightarrow> rope \<Rightarrow> nat \<Rightarrow> (bytes option \<Rightarrow> (nat \<times> bytes option) option) \<Rightarrow> rope option" where
  "reserve_and_fill malloc r count f =
     (case gsm_rope_reserve malloc r count of
        (None, r') \<Rightarrow> Some r'
      | (Some dst, r') \<Rightarrow> rope_fill r' dst f)"

definition gsm_rope_add_sms_deliver_pdu ::
  "allocator \<Rightarrow> rope \<Rightarrow> bytes \<Rightarrow> nat \<Rightarrow> bool \<Rightarrow> sms_address \<Rightarrow> bytes \<Rightarrow> byte \<Rightarrow> nat \<Rightarrow> nat \<Rightarrow> rope option" where
  "gsm_rope_add_sms_deliver_pdu malloc r utf8 utf8len use_gsm7 sender_address timestamp ref_num pdu_count pdu_index = do {
     r1 \<leftarrow> deliver_head malloc r use_gsm7 sender_address timestamp pdu_count;
     if use_gsm7 then do {
       (count, _) \<leftarrow> utf8_to_gsm7 utf8 utf8len None 0;
       let headerSeptets = 6 * 8 div 7 + (if (6 * 8 mod 7 :: nat) > 0 then 1 else 0 :: nat);
       let pad = (if pdu_count > 1 then headerSeptets * 7 - 6 * 8 else 0);
       r2 \<leftarrow> (if pdu_count > 1 then do {
                 r2 \<leftarrow> gsm_rope_add_c malloc r1 (of_nat (count + headerSeptets));
                 gsm_rope_add_sms_user_header malloc r2 ref_num pdu_count pdu_index }
               else gsm_rope_add_c malloc r1 (of_nat count));
       reserve_and_fill malloc r2 ((count * 7 + pad + 7) div 8) (\<lambda>dst. utf8_to_gsm7 utf8 utf8len dst pad) }
     else do {
       (count, _) \<leftarrow> utf8_to_ucs2 utf8 utf8len None;
       r2 \<leftarrow> (if pdu_count > 1 then do {
                 r2 \<leftarrow> gsm_rope_add_c malloc r1 (of_nat (count * 2 + 6));
                 gsm_rope_add_sms_user_header malloc r2 ref_num pdu_count pdu_index }
               else gsm_rope_add_c malloc r1 (of_nat (count * 2)));
       r3 \<leftarrow> gsm_rope_add_c malloc r2 (of_nat (count * 2));
       reserve_and_fill malloc r3 (count * 2) (utf8_to_ucs2 utf8 utf8len) } }"

definition sizeof_SmsPDURec :: nat where "sizeof_SmsPDURec = 12"

text \<open>The unit, \<open>None\<close> for \<open>NULL\<close>.\<close>

definition smspdu_create_deliver ::
  "allocator \<Rightarrow> rope \<Rightarrow> bytes \<Rightarrow> nat \<Rightarrow> bool \<Rightarrow> sms_address \<Rightarrow> bytes \<Rightarrow> byte \<Rightarrow> nat \<Rightarrow> nat \<Rightarrow> smspdu option option" where
  "smspdu_create_deliver malloc r0 utf8 utf8len use_gsm7 sender_address timestamp ref_num pdu_count pdu_index =
     (if malloc sizeof_SmsPDURec = None then Some None
      else do {
        r1 \<leftarrow> gsm_rope_add_sms_deliver_pdu malloc (gsm_rope_init r0) utf8 utf8len use_gsm7
                sender_address timestamp ref_num pdu_count pdu_index;
        if rope_error r1 \<noteq> 0 then Some None
        else do {
          r2 \<leftarrow> gsm_rope_add_sms_deliver_pdu malloc (gsm_rope_init_alloc malloc r1 (rope_pos r1)) utf8 utf8len
                  use_gsm7 sender_address timestamp ref_num pdu_count pdu_index;
          (base, size) \<leftarrow> gsm_rope_done_acquire malloc r2;
          Some (map_option (\<lambda>b. \<lparr>pdu_base = take size b, pdu_tpdu = 1\<rparr>) base) } })"

definition MAX_USER_DATA_BYTES :: nat where "MAX_USER_DATA_BYTES = 140"
definition MAX_USER_DATA_SEPTETS :: nat where "MAX_USER_DATA_SEPTETS = 160"
definition USER_DATA_HEADER_SIZE :: nat where "USER_DATA_HEADER_SIZE = 6"

text \<open>The loop over the parts: \<open>n\<close> parts are left, \<open>nn\<close> is the number of the next one.\<close>

fun deliver_loop ::
  "nat \<Rightarrow> (bytes \<Rightarrow> nat \<Rightarrow> nat \<Rightarrow> smspdu option option) \<Rightarrow> bytes \<Rightarrow> nat \<Rightarrow> nat \<Rightarrow> nat \<Rightarrow> nat \<Rightarrow> nat \<Rightarrow> nat
     \<Rightarrow> smspdu list option option" where
  "deliver_loop 0 create utf8 src src_end block leftover num_pdus nn = Some (Some [])"
| "deliver_loop (Suc n) create utf8 src src_end block leftover num_pdus nn = do {
     let skip = (if leftover > 0 \<and> nn = num_pdus - 1 then leftover else block);
     src_next \<leftarrow> utf8_skip utf8 src src_end skip;
     p \<leftarrow> create (drop src utf8) (src_next - src) nn;
     case p of
       None \<Rightarrow> Some None
     | Some pdu \<Rightarrow>
         map_option (map_option ((#) pdu))
           (deliver_loop n create utf8 src_next src_end block leftover num_pdus (nn + 1)) }"

text \<open>The list of units (\<open>None\<close> for \<open>NULL\<close>) and the static reference number.  A missing timestamp
  is the parameter \<open>now\<close>.\<close>

definition smspdu_create_deliver_utf8 ::
  "allocator \<Rightarrow> rope \<Rightarrow> bytes \<Rightarrow> byte \<Rightarrow> bytes \<Rightarrow> nat \<Rightarrow> sms_address \<Rightarrow> bytes option
     \<Rightarrow> (smspdu list option \<times> byte) option" where
  "smspdu_create_deliver_utf8 malloc r0 now ref_num utf8 utf8len sender_address timestamp = do {
     let ts = (case timestamp of None \<Rightarrow> now | Some t \<Rightarrow> t);
     use \<leftarrow> utf8_check_gsm7 utf8 utf8len;
     let use_gsm7 = (use \<noteq> 0);
     (count, _) \<leftarrow> (if use_gsm7 then utf8_to_gsm7 utf8 utf8len None 0 else utf8_to_ucs2 utf8 utf8len None);
     let block = (if use_gsm7 then MAX_USER_DATA_SEPTETS - USER_DATA_HEADER_SIZE
                  else MAX_USER_DATA_BYTES - USER_DATA_HEADER_SIZE);
     let leftover = count - count div block * block;
     let num_pdus = count div block + (if leftover > 0 then 1 else 0);
     if malloc (4 * (count + 1)) = None then Some (None, ref_num)
     else do {
       list \<leftarrow> deliver_loop num_pdus
         (\<lambda>src len nn. smspdu_create_deliver malloc r0 src len use_gsm7 sender_address ts ref_num num_pdus nn)
         utf8 0 utf8len block leftover num_pdus 0;
       Some (list, if list = None then ref_num else ref_num + 1) } }"

section \<open>Hexadecimal form\<close>

definition smspdu_create_from_hex :: "allocator \<Rightarrow> string \<Rightarrow> nat \<Rightarrow> smspdu option option" where
  "smspdu_create_from_hex malloc hex hexlen =
     (if malloc sizeof_SmsPDURec = None then Some None
      else case malloc ((hexlen + 1) div 2) of
        None \<Rightarrow> Some None
      | Some base0 \<Rightarrow> do {
          base \<leftarrow> gsm_hex_to_bytes hex hexlen base0;
          (r, data) \<leftarrow> sms_skip_sc_address base 0 (length base);
          Some (if r < 0 then None else Some \<lparr>pdu_base = base, pdu_tpdu = data\<rparr>) })"

fun smspdu_to_hex_loop :: "nat \<Rightarrow> bytes \<Rightarrow> string \<Rightarrow> nat \<Rightarrow> string option" where
  "smspdu_to_hex_loop 0 base hex nn = Some hex"
| "smspdu_to_hex_loop (Suc n) base hex nn = do {
     b \<leftarrow> rd base nn;
     hex' \<leftarrow> gsm_hex_from_byte hex (nn * 2) (uint b);
     smspdu_to_hex_loop n base hex' (nn + 1) }"

definition smspdu_to_hex :: "smspdu \<Rightarrow> string \<Rightarrow> nat \<Rightarrow> (nat \<times> string) option" where
  "smspdu_to_hex p hex hexlen =
     (let result = length (pdu_base p) * 2 in
      map_option (Pair result) (smspdu_to_hex_loop ((min hexlen result + 1) div 2) (pdu_base p) hex 0))"

section \<open>Ropes while a unit is built\<close>

text \<open>A counting rope, and a rope on the heap of capacity \<open>m\<close> that holds the text \<open>txt\<close>.\<close>

definition counting :: "rope \<Rightarrow> nat \<Rightarrow> bool" where
  "counting r n \<longleftrightarrow> rope_data r = RNull \<and> rope_pos r = n \<and> rope_error r = 0"

definition holds :: "rope \<Rightarrow> bytes \<Rightarrow> nat \<Rightarrow> bool" where
  "holds r ts m \<longleftrightarrow> (\<exists>b. rope_data r = RHeap b \<and> length b = m \<and> rope_max r = m \<and> rope_error r = 0 \<and>
     rope_pos r = length ts \<and> length ts \<le> m \<and> take (length ts) b = ts)"

lemma holds_blit:
  assumes "length b = m" "take (length ts) b = ts" "length ts + length vs \<le> m"
  shows "length (blit b (length ts) vs) = m" "take (length ts + length vs) (blit b (length ts) vs) = ts @ vs"
  using assms take_blit [of "length ts" vs b] by simp_all

lemma counting_add_c: "counting r n \<Longrightarrow> \<exists>r'. gsm_rope_add_c malloc r c = Some r' \<and> counting r' (n + 1)"
  by (simp add: counting_def gsm_rope_add_c_def gsm_rope_can_grow_def)

lemma counting_add:
  "counting r n \<Longrightarrow> \<exists>r'. gsm_rope_add malloc r vs k = Some r' \<and> counting r' (n + k)"
  by (simp add: counting_def gsm_rope_add_def gsm_rope_can_grow_def)

lemma counting_reserve:
  "counting r n \<Longrightarrow> \<exists>r'. reserve_and_fill malloc r k f = Some r' \<and> counting r' (n + k)"
  by (simp add: counting_def reserve_and_fill_def gsm_rope_reserve_def gsm_rope_can_grow_def)

lemma holds_add:
  assumes "holds r ts m" "k \<le> length vs" "length ts + k \<le> m"
  shows "\<exists>r'. gsm_rope_add malloc r vs k = Some r' \<and> holds r' (ts @ take k vs) m"
proof -
  obtain b where b: "rope_data r = RHeap b" "length b = m" "rope_max r = m" "rope_error r = 0"
    "rope_pos r = length ts" "take (length ts) b = ts"
    using assms(1) by (auto simp: holds_def)
  then show ?thesis
    using holds_blit [OF b(2,6), of "take k vs"] assms
    by (simp add: gsm_rope_add_def gsm_rope_can_grow_def rope_copy_def holds_def)
qed

lemma holds_add_c:
  assumes "holds r ts m" "length ts + 1 \<le> m"
  shows "\<exists>r'. gsm_rope_add_c malloc r c = Some r' \<and> holds r' (ts @ [c]) m"
proof -
  obtain b where b: "rope_data r = RHeap b" "length b = m" "rope_max r = m" "rope_error r = 0"
    "rope_pos r = length ts" "take (length ts) b = ts"
    using assms(1) by (auto simp: holds_def)
  then show ?thesis
    using holds_blit [OF b(2,6), of "[c]"] wr_blit [of "length ts" "[]" b c] assms
    by (simp add: gsm_rope_add_c_def gsm_rope_can_grow_def rope_poke_def holds_def)
qed

text \<open>The filler nibble of an address of odd length.\<close>

definition address_bytes :: "sms_address \<Rightarrow> bytes" where
  "address_bytes a =
     (let n = unat (adr_len a); d = take ((n + 1) div 2) (adr_data a) in
      adr_len a # adr_toa a # (if odd n then butlast d @ [last d OR 0xf0] else d))"

definition address_ok :: "sms_address \<Rightarrow> bool" where
  "address_ok a \<longleftrightarrow> (unat (adr_len a) + 1) div 2 \<le> length (adr_data a)"

lemma length_address_bytes:
  "address_ok a \<Longrightarrow> length (address_bytes a) = 2 + (unat (adr_len a) + 1) div 2"
proof -
  assume "address_ok a"
  then have "odd (unat (adr_len a)) \<Longrightarrow> 0 < (unat (adr_len a) + 1) div 2" by presburger
  with \<open>address_ok a\<close> show ?thesis by (auto simp: address_bytes_def address_ok_def Let_def)
qed

lemma counting_add_address:
  assumes "counting r n"
  shows "\<exists>r'. gsm_rope_add_address malloc r a = Some r' \<and> counting r' (n + 2 + (unat (adr_len a) + 1) div 2)"
proof -
  obtain r1 where 1: "gsm_rope_add_c malloc r (adr_len a) = Some r1" "counting r1 (n + 1)"
    using counting_add_c [OF assms] by blast
  obtain r2 where 2: "gsm_rope_add_c malloc r1 (adr_toa a) = Some r2" "counting r2 (n + 1 + 1)"
    using counting_add_c [OF 1(2)] by blast
  obtain r3 where 3: "gsm_rope_add malloc r2 (adr_data a) ((unat (adr_len a) + 1) div 2) = Some r3"
      "counting r3 (n + 1 + 1 + (unat (adr_len a) + 1) div 2)"
    using counting_add [OF 2(2)] by blast
  with 1 2 show ?thesis by (auto simp: gsm_rope_add_address_def counting_def)
qed

lemma holds_poke_last:
  assumes "holds r (ts @ [b]) m"
  shows "rd (rope_buf r) (rope_pos r - 1) = Some b"
    "\<exists>r'. rope_poke r (rope_pos r - 1) v = Some r' \<and> holds r' (ts @ [v]) m"
proof -
  obtain d where d: "rope_data r = RHeap d" "length d = m" "rope_max r = m" "rope_error r = 0"
    "rope_pos r = length ts + 1" "length ts + 1 \<le> m" "take (length ts + 1) d = ts @ [b]"
    using assms by (auto simp: holds_def)
  have "d ! length ts = b" using d(6,7) by (metis lessI nth_append_length nth_take Suc_eq_plus1)
  with d show "rd (rope_buf r) (rope_pos r - 1) = Some b" by (simp add: rope_buf.simps rd_def)
  have t: "take (length ts) d = ts" using d(7) by (metis append_eq_conv_conj take_take min.absorb1 le_add1)
  have "d[length ts := v] = blit d (length ts) [v]"
    using blit_snoc [of "length ts" "[]" d v] d(2,6) by simp
  then show "\<exists>r'. rope_poke r (rope_pos r - 1) v = Some r' \<and> holds r' (ts @ [v]) m"
    using d t holds_blit [of d m ts "[v]"] by (simp add: rope_poke_def holds_def wr_Some)
qed

lemma holds_add_address:
  assumes "holds r ts m" "address_ok a" "length ts + length (address_bytes a) \<le> m"
  shows "\<exists>r'. gsm_rope_add_address malloc r a = Some r' \<and> holds r' (ts @ address_bytes a) m"
proof -
  let ?k = "(unat (adr_len a) + 1) div 2" and ?d = "take ((unat (adr_len a) + 1) div 2) (adr_data a)"
  have m: "length ts + 2 + ?k \<le> m" using assms(3) length_address_bytes [OF assms(2)] by simp
  obtain r1 where 1: "gsm_rope_add_c malloc r (adr_len a) = Some r1" "holds r1 (ts @ [adr_len a]) m"
    using holds_add_c [OF assms(1), of malloc "adr_len a"] m by auto
  obtain r2 where 2: "gsm_rope_add_c malloc r1 (adr_toa a) = Some r2" "holds r2 (ts @ [adr_len a, adr_toa a]) m"
    using holds_add_c [OF 1(2), of malloc "adr_toa a"] m by auto
  obtain r3 where 3: "gsm_rope_add malloc r2 (adr_data a) ?k = Some r3" "holds r3 (ts @ [adr_len a, adr_toa a] @ ?d) m"
    using holds_add [OF 2(2), of ?k "adr_data a" malloc] m assms(2) by (auto simp: address_ok_def)
  show ?thesis
  proof (cases "odd (unat (adr_len a))")
    case False
    then show ?thesis using 1(1) 2(1) 3 by (simp add: gsm_rope_add_address_def address_bytes_def Let_def)
  next
    case True
    then have "?d \<noteq> []" using assms(2) by (auto simp: address_ok_def)
    then have d: "?d = butlast ?d @ [last ?d]" by simp
    then have h: "holds r3 ((ts @ [adr_len a, adr_toa a] @ butlast ?d) @ [last ?d]) m"
      using 3(2) by (metis append.assoc)
    have "rope_error r3 = 0" "rope_data r3 \<noteq> RNull" using 3(2) by (auto simp: holds_def)
    then show ?thesis
      using True 1(1) 2(1) 3(1) holds_poke_last(1) [OF h] holds_poke_last(2) [OF h, of "last ?d OR 0xf0"]
      by (auto simp: gsm_rope_add_address_def address_bytes_def Let_def)
  qed
qed

lemma holds_reserve_fill:
  assumes "holds r ts m" "length ts + k \<le> m"
    and "\<And>d. length d = m - length ts \<Longrightarrow> \<exists>n d'. f (Some d) = Some (n, Some d') \<and> length d' = m - length ts \<and> Q d'"
  shows "\<exists>r' d. reserve_and_fill malloc r k f = Some r' \<and> length d = m - length ts \<and>
    holds r' (ts @ take k d) m \<and> Q d"
proof -
  obtain b where b: "rope_data r = RHeap b" "length b = m" "rope_max r = m" "rope_error r = 0"
    "rope_pos r = length ts" "take (length ts) b = ts"
    using assms(1) by (auto simp: holds_def)
  let ?d = "drop (length ts) b"
  have "length ?d = m - length ts" using b(2) by simp
  then obtain n d where d: "f (Some ?d) = Some (n, Some d)" "length d = m - length ts" "Q d"
    using assms(3) by blast
  then have "reserve_and_fill malloc r k f =
      Some (r\<lparr>rope_pos := length ts + k, rope_data := RHeap (ts @ d)\<rparr>)"
    using b assms(2)
    by (simp add: reserve_and_fill_def gsm_rope_reserve_def gsm_rope_can_grow_def rope_fill_def
        rope_buf.simps rope_set_buf_def)
  moreover have "length (take k d) = k" using d(2) assms(2) by simp
  then have "holds (r\<lparr>rope_pos := length ts + k, rope_data := RHeap (ts @ d)\<rparr>) (ts @ take k d) m"
    using b assms(2) d(2) by (simp add: holds_def)
  ultimately show ?thesis using d by blast
qed

text \<open>The bytes in front of the user data.\<close>

definition deliver_prefix :: "bool \<Rightarrow> sms_address \<Rightarrow> bytes \<Rightarrow> nat \<Rightarrow> bytes" where
  "deliver_prefix use_gsm7 a ts pdu_count =
     [0, if pdu_count > 1 then 0x60 else 0x20] @ address_bytes a @ [0, if use_gsm7 then 0 else 9] @ ts"

text \<open>The length byte of a 7-bit message and the header of a part.\<close>

definition gsm7_header :: "nat \<Rightarrow> byte \<Rightarrow> nat \<Rightarrow> nat \<Rightarrow> bytes" where
  "gsm7_header count ref_num pdu_count pdu_index =
     (if pdu_count > 1
      then [of_nat (count + 7), 5, 0, 3, ref_num, of_nat pdu_count, of_nat pdu_index + 1]
      else [of_nat count])"

definition gsm7_pad :: "nat \<Rightarrow> nat" where
  "gsm7_pad pdu_count = (if pdu_count > 1 then 1 else 0)"

lemma counting_head:
  assumes "counting r n" "address_ok a" "length ts = 7"
  shows "\<exists>r'. deliver_head malloc r g a ts cnt = Some r' \<and> counting r' (n + length (deliver_prefix g a ts cnt))"
proof -
  let ?mti = "if cnt > 1 then 0x20 OR 0x40 else 0x20 :: byte" and ?cod = "if g then 0 else 9 :: byte"
  obtain r1 where 1: "gsm_rope_add_c malloc r 0 = Some r1" "counting r1 (n + 1)"
    using counting_add_c [OF assms(1)] by blast
  obtain r2 where 2: "gsm_rope_add_c malloc r1 ?mti = Some r2" "counting r2 (n + 1 + 1)"
    using counting_add_c [OF 1(2)] by blast
  obtain r3 where 3: "gsm_rope_add_address malloc r2 a = Some r3"
      "counting r3 (n + 1 + 1 + 2 + (unat (adr_len a) + 1) div 2)"
    using counting_add_address [OF 2(2)] by blast
  obtain r4 where 4: "gsm_rope_add_c malloc r3 0 = Some r4"
      "counting r4 (n + 1 + 1 + 2 + (unat (adr_len a) + 1) div 2 + 1)"
    using counting_add_c [OF 3(2)] by blast
  obtain r5 where 5: "gsm_rope_add_c malloc r4 ?cod = Some r5"
      "counting r5 (n + 1 + 1 + 2 + (unat (adr_len a) + 1) div 2 + 1 + 1)"
    using counting_add_c [OF 4(2)] by blast
  obtain r6 where 6: "gsm_rope_add malloc r5 ts 7 = Some r6"
      "counting r6 (n + 1 + 1 + 2 + (unat (adr_len a) + 1) div 2 + 1 + 1 + 7)"
    using counting_add [OF 5(2)] by blast
  show ?thesis
    using 1(1) 2(1) 3(1) 4(1) 5(1) 6 length_address_bytes [OF assms(2)] assms(3)
    by (simp add: deliver_head_def gsm_rope_add_timestamp_def deliver_prefix_def algebra_simps)
qed

lemma holds_head:
  assumes "holds r [] m" "address_ok a" "length ts = 7" "length (deliver_prefix g a ts cnt) \<le> m"
  shows "\<exists>r'. deliver_head malloc r g a ts cnt = Some r' \<and> holds r' (deliver_prefix g a ts cnt) m"
proof -
  let ?mti = "if cnt > 1 then 0x20 OR 0x40 else 0x20 :: byte" and ?cod = "if g then 0 else 9 :: byte"
  have m: "11 + length (address_bytes a) \<le> m" using assms(3,4) by (simp add: deliver_prefix_def)
  obtain r1 where 1: "gsm_rope_add_c malloc r 0 = Some r1" "holds r1 [0] m"
    using holds_add_c [OF assms(1), of malloc 0] m by auto
  obtain r2 where 2: "gsm_rope_add_c malloc r1 ?mti = Some r2" "holds r2 [0, ?mti] m"
    using holds_add_c [OF 1(2), of malloc ?mti] m by auto
  obtain r3 where 3: "gsm_rope_add_address malloc r2 a = Some r3" "holds r3 ([0, ?mti] @ address_bytes a) m"
    using holds_add_address [OF 2(2) assms(2), of malloc] m by auto
  obtain r4 where 4: "gsm_rope_add_c malloc r3 0 = Some r4" "holds r4 ([0, ?mti] @ address_bytes a @ [0]) m"
    using holds_add_c [OF 3(2), of malloc 0] m by auto
  obtain r5 where 5: "gsm_rope_add_c malloc r4 ?cod = Some r5" "holds r5 ([0, ?mti] @ address_bytes a @ [0, ?cod]) m"
    using holds_add_c [OF 4(2), of malloc ?cod] m by auto
  obtain r6 where 6: "gsm_rope_add malloc r5 ts 7 = Some r6"
      "holds r6 ([0, ?mti] @ address_bytes a @ [0, ?cod] @ ts) m"
    using holds_add [OF 5(2), of 7 ts malloc] m assms(3) by auto
  have mti: "?mti = (if cnt > 1 then 0x60 else 0x20)" by simp
  have "holds r6 (deliver_prefix g a ts cnt) m"
    using 6(2) unfolding mti by (simp add: deliver_prefix_def del: if_split)
  with 1(1) 2(1) 3(1) 4(1) 5(1) 6(1) show ?thesis
    by (simp add: deliver_head_def gsm_rope_add_timestamp_def)
qed

text \<open>The length byte and, in a message of several parts, the header.\<close>

definition gsm7_add_header :: "allocator \<Rightarrow> rope \<Rightarrow> nat \<Rightarrow> byte \<Rightarrow> nat \<Rightarrow> nat \<Rightarrow> rope option" where
  "gsm7_add_header malloc r1 count ref_num pdu_count pdu_index =
     (if pdu_count > 1 then do {
        r2 \<leftarrow> gsm_rope_add_c malloc r1 (of_nat (count + 7));
        gsm_rope_add_sms_user_header malloc r2 ref_num pdu_count pdu_index }
      else gsm_rope_add_c malloc r1 (of_nat count))"

fun add_cs :: "allocator \<Rightarrow> rope \<Rightarrow> bytes \<Rightarrow> rope option" where
  "add_cs malloc r [] = Some r"
| "add_cs malloc r (c # cs) = Option.bind (gsm_rope_add_c malloc r c) (\<lambda>r'. add_cs malloc r' cs)"

lemma gsm7_add_header_cs: "gsm7_add_header malloc r n ref cnt i = add_cs malloc r (gsm7_header n ref cnt i)"
  by (auto simp: gsm7_add_header_def gsm7_header_def gsm_rope_add_sms_user_header_def
      split: Option.bind_splits)

lemma counting_cs: "counting r n \<Longrightarrow> \<exists>r'. add_cs malloc r cs = Some r' \<and> counting r' (n + length cs)"
proof (induction cs arbitrary: r n)
  case (Cons c cs)
  then show ?case using counting_add_c [OF Cons.prems, of malloc c] by fastforce
qed simp

lemma holds_cs:
  "holds r ts m \<Longrightarrow> length ts + length cs \<le> m \<Longrightarrow> \<exists>r'. add_cs malloc r cs = Some r' \<and> holds r' (ts @ cs) m"
proof (induction cs arbitrary: r ts)
  case (Cons c cs)
  then obtain r1 where "gsm_rope_add_c malloc r c = Some r1" "holds r1 (ts @ [c]) m"
    using holds_add_c [OF Cons.prems(1), of malloc c] by auto
  then show ?case using Cons.IH [of r1 "ts @ [c]"] Cons.prems(2) by auto
qed simp

lemma deliver_gsm7:
  assumes "utf8_to_gsm7 utf8 n None 0 = Some (count, None)"
  shows "gsm_rope_add_sms_deliver_pdu malloc r utf8 n True a ts ref cnt i =
    Option.bind (deliver_head malloc r True a ts cnt) (\<lambda>r1.
      Option.bind (add_cs malloc r1 (gsm7_header count ref cnt i)) (\<lambda>r2.
        reserve_and_fill malloc r2 ((count * 7 + gsm7_pad cnt + 7) div 8)
          (\<lambda>dst. utf8_to_gsm7 utf8 n dst (gsm7_pad cnt))))"
  using assms
  by (simp add: gsm_rope_add_sms_deliver_pdu_def gsm7_add_header_cs [symmetric] gsm7_add_header_def
      gsm7_pad_def Let_def)

text \<open>Building one unit of a 7-bit message, from what its packer writes.\<close>

lemma create_deliver_gsm7:
  assumes malloc: "alloc_ok malloc" "malloc sizeof_SmsPDURec \<noteq> None"
    and count: "utf8_to_gsm7 utf8 n None 0 = Some (count, None)"
    and a: "address_ok a" "length ts = 7"
    and k: "k = (count * 7 + gsm7_pad cnt + 7) div 8"
    and hdr: "hdr = deliver_prefix True a ts cnt @ gsm7_header count ref cnt i"
    and room: "malloc (length hdr + k) \<noteq> None"
    and pack: "\<And>d. length d = k \<Longrightarrow> \<exists>d' x. utf8_to_gsm7 utf8 n (Some d) (gsm7_pad cnt) = Some (x, Some d') \<and>
      length d' = k \<and> Q d'"
  shows "\<exists>body. smspdu_create_deliver malloc r0 utf8 n True a ts ref cnt i =
      Some (Some \<lparr>pdu_base = hdr @ body, pdu_tpdu = 1\<rparr>) \<and> length body = k \<and> Q body"
proof -
  let ?p = "deliver_prefix True a ts cnt" and ?g = "gsm7_header count ref cnt i"
  let ?f = "\<lambda>dst. utf8_to_gsm7 utf8 n dst (gsm7_pad cnt)" and ?m = "length hdr + k"
  have "counting (gsm_rope_init r0) 0" by (simp add: counting_def gsm_rope_init_def)
  then obtain c1 where c1: "deliver_head malloc (gsm_rope_init r0) True a ts cnt = Some c1" "counting c1 (length ?p)"
    using counting_head [OF _ a, of "gsm_rope_init r0" 0 malloc True cnt] by auto
  then obtain c2 where c2: "add_cs malloc c1 ?g = Some c2" "counting c2 (length ?p + length ?g)"
    using counting_cs by blast
  then obtain c3 where c3: "reserve_and_fill malloc c2 k ?f = Some c3" "counting c3 ?m"
    using counting_reserve [OF c2(2), of malloc k ?f] by (auto simp: hdr)
  have pass1: "gsm_rope_add_sms_deliver_pdu malloc (gsm_rope_init r0) utf8 n True a ts ref cnt i = Some c3"
    using c1(1) c2(1) c3(1) by (simp add: deliver_gsm7 [OF count] k)
  let ?r = "gsm_rope_init_alloc malloc c3 ?m"
  have "0 < ?m" by (simp add: hdr deliver_prefix_def)
  then have "holds ?r [] ?m"
    using room malloc by (auto simp: gsm_rope_init_alloc_def holds_def Let_def)
  then obtain h1 where h1: "deliver_head malloc ?r True a ts cnt = Some h1" "holds h1 ?p ?m"
    using holds_head [OF _ a, of ?r ?m True cnt malloc] by (auto simp: hdr)
  then obtain h2 where h2: "add_cs malloc h1 ?g = Some h2" "holds h2 hdr ?m"
    using holds_cs [OF h1(2), of ?g malloc] by (auto simp: hdr)
  have "\<And>d. length d = ?m - length hdr \<Longrightarrow>
      \<exists>x d'. ?f (Some d) = Some (x, Some d') \<and> length d' = ?m - length hdr \<and> Q d'"
    using pack by (metis add_diff_cancel_left')
  then obtain h3 body where h3: "reserve_and_fill malloc h2 k ?f = Some h3" "holds h3 (hdr @ take k body) ?m"
      "length body = k" "Q body"
    using holds_reserve_fill [OF h2(2), of k ?f Q malloc] by auto
  have pass2: "gsm_rope_add_sms_deliver_pdu malloc ?r utf8 n True a ts ref cnt i = Some h3"
    using h1(1) h2(1) h3(1) by (simp add: deliver_gsm7 [OF count] k)
  obtain b where "rope_data h3 = RHeap b" "take ?m b = hdr @ body" "rope_pos h3 = ?m"
    using h3(2,3) by (auto simp: holds_def)
  then have "gsm_rope_done_acquire malloc h3 = Some (Some b, ?m)" "take ?m b = hdr @ body"
    by (simp_all add: gsm_rope_done_acquire_def)
  then have "smspdu_create_deliver malloc r0 utf8 n True a ts ref cnt i =
      Some (Some \<lparr>pdu_base = hdr @ body, pdu_tpdu = 1\<rparr>)"
    using pass1 pass2 c3(2) malloc(2) by (simp add: smspdu_create_deliver_def counting_def)
  with h3(3,4) show ?thesis by blast
qed

lemma gsm7_unit:
  assumes "alloc_ok malloc" "malloc sizeof_SmsPDURec \<noteq> None"
    and "\<forall>c \<in> set cs. basic_char c \<and> c < 128" "utf8 = map word_of_int cs @ post"
    and "address_ok a" "length ts = 7" "length cs \<le> length buf"
    and "k = (length cs * 7 + gsm7_pad cnt + 7) div 8"
    and "hdr = deliver_prefix True a ts cnt @ gsm7_header (length cs) ref cnt i" "malloc (length hdr + k) \<noteq> None"
  shows "\<exists>body. smspdu_create_deliver malloc r0 utf8 (length cs) True a ts ref cnt i =
      Some (Some \<lparr>pdu_base = hdr @ body, pdu_tpdu = 1\<rparr>) \<and> length body = k \<and>
    utf8_from_gsm7 body (gsm7_pad cnt) (length cs) (Some buf) =
      Some (length cs, Some (map word_of_int cs @ drop (length cs) buf))"
proof -
  let ?Q = "\<lambda>d. utf8_from_gsm7 d (gsm7_pad cnt) (length cs) (Some buf) =
      Some (length cs, Some (map word_of_int cs @ drop (length cs) buf))"
  have room: "gsm7_pad cnt + 7 * length cs \<le> 8 * k" using assms(8) by presburger
  have count: "utf8_to_gsm7 utf8 (length cs) None 0 = Some (length cs, None)"
    using gsm7_text_pack [OF assms(3) _ assms(7,4), of 0 "replicate (7 * length cs) 0" 0] by simp
  have pack: "\<exists>d' x. utf8_to_gsm7 utf8 (length cs) (Some d) (gsm7_pad cnt) = Some (x, Some d') \<and> length d' = k \<and> ?Q d'"
    if "length d = k" for d
    using gsm7_text_pack [OF assms(3) _ assms(7,4), of "gsm7_pad cnt" d 0] room that by auto
  show ?thesis
    by (rule create_deliver_gsm7 [OF assms(1,2) count assms(5,6,8,9,10) pack])
qed

section \<open>Splitting a text\<close>

lemma utf8_skip_ascii:
  assumes "\<forall>j. src \<le> j \<and> j < e \<longrightarrow> mem ! j < 128" "src + n \<le> e" "e \<le> length mem"
  shows "utf8_skip mem src e n = Some (src + n)"
  using assms
proof (induction n arbitrary: src)
  case (Suc n)
  then have "mem ! src < 128" "src < length mem" by auto
  moreover from this have "\<not> mem ! src > 128" by (meson order.asym)
  ultimately show ?case using Suc.IH [of "src + 1"] Suc.prems by (simp add: rd_Some)
qed simp

lemma deliver_loop_parts:
  assumes ascii: "\<forall>j < N. utf8 ! j < 128" "N \<le> length utf8"
    and parts: "num = N div block + (if N mod block > 0 then 1 else 0)" "0 < block"
    and create: "\<And>nn. nn < num \<Longrightarrow>
      \<exists>p. create (drop (nn * block) utf8) (min block (N - nn * block)) nn = Some (Some p) \<and> Q nn p"
    and "n + nn = num"
  shows "\<exists>ps. deliver_loop n create utf8 (min (nn * block) N) N block (N mod block) num nn = Some (Some ps) \<and>
    length ps = n \<and> (\<forall>i < n. Q (nn + i) (ps ! i))"
  using assms(6)
proof (induction n arbitrary: nn)
  case (Suc n)
  then have nn: "nn < num" by simp
  have lt: "nn * block < N"
  proof (cases "N mod block > 0")
    case True
    then have "nn \<le> N div block" using nn parts(1) by simp
    then have "nn * block \<le> N div block * block" by simp
    also have "\<dots> < N" using True by (metis div_mod_decomp less_add_same_cancel1)
    finally show ?thesis .
  next
    case False
    then have "nn < N div block" using nn parts(1) by simp
    then show ?thesis using parts(2) by (meson div_times_less_eq_dividend le_less_trans less_le_trans mult_less_cancel2 not_le order.refl)
  qed
  let ?skip = "if N mod block > 0 \<and> nn = num - 1 then N mod block else block"
  have skip: "nn * block + ?skip = min ((nn + 1) * block) N"
  proof (cases "N mod block > 0 \<and> nn = num - 1")
    case True
    then have "nn = N div block" using parts(1) by simp
    then have e: "nn * block + N mod block = N" by simp
    moreover have "N mod block < block" using parts(2) by simp
    ultimately have "N \<le> (nn + 1) * block" by (simp add: add_mult_distrib)
    with True e show ?thesis by simp
  next
    case False
    then have "nn + 1 \<le> N div block" using nn parts(1) by (cases "N mod block > 0") auto
    then have "(nn + 1) * block \<le> N" by (meson div_times_less_eq_dividend le_trans mult_le_mono1)
    moreover have "?skip = block" using False by (rule if_not_P)
    ultimately show ?thesis by (simp add: add_mult_distrib del: if_not_P)
  qed
  have "utf8_skip utf8 (nn * block) N ?skip = Some (min ((nn + 1) * block) N)"
    unfolding skip [symmetric] using ascii skip by (intro utf8_skip_ascii) auto
  moreover have "min ((nn + 1) * block) N - nn * block = min block (N - nn * block)"
    using lt by (simp add: add_mult_distrib min_def) linarith
  moreover obtain p where "create (drop (nn * block) utf8) (min block (N - nn * block)) nn = Some (Some p)" "Q nn p"
    using create [OF nn] by blast
  moreover obtain ps where "deliver_loop n create utf8 (min ((nn + 1) * block) N) N block (N mod block) num (nn + 1) = Some (Some ps)"
      "length ps = n" "\<forall>i < n. Q (nn + 1 + i) (ps ! i)"
    using Suc.IH [of "nn + 1"] Suc.prems by auto
  moreover have "min (nn * block) N = nn * block" using lt by simp
  ultimately show ?case
    by (auto simp: Let_def nth_Cons simp del: mult_Suc split: nat.splits)
qed simp

text \<open>The part of a text that goes into one unit.\<close>

definition text_part :: "int list \<Rightarrow> nat \<Rightarrow> int list" where
  "text_part cs i = take 154 (drop (i * 154) cs)"

lemma length_text_part: "length (text_part cs i) = min 154 (length cs - i * 154)"
  by (simp add: text_part_def min.commute)

lemma text_parts_concat: "length cs \<le> n * 154 \<Longrightarrow> concat (map (text_part cs) [0..<n]) = cs"
proof -
  have "concat (map (text_part cs) [0..<n]) = take (n * 154) cs"
    by (induction n) (simp_all add: text_part_def take_add [symmetric] add.commute)
  then show "length cs \<le> n * 154 \<Longrightarrow> ?thesis" by simp
qed

lemma part_bytes_bound: "6 + (n * 7 + 8) div 8 \<le> 140 \<longleftrightarrow> n \<le> 153" for n :: nat
proof -
  have "(n * 7 + 8) div 8 < 135 \<longleftrightarrow> n * 7 + 8 < 135 * 8"
    by (rule div_less_iff_less_mult) simp
  then show ?thesis by auto
qed

lemma parts_enough: "N \<le> (N div 154 + (if N mod 154 > 0 then 1 else 0)) * 154" for N :: nat
  using div_mult_mod_eq [of N 154] mod_less_divisor [of 154 N] by (auto simp: add_mult_distrib)

lemma utf8_check_gsm7_basic:
  assumes "utf8 = pre @ map word_of_int cs" "p = length pre" "n = length cs"
    and "\<forall>c \<in> set cs. basic_char c \<and> c < 128"
  shows "utf8_check_gsm7_loop n utf8 p (length utf8) = Some 1"
  using assms
proof (induction cs arbitrary: pre p n)
  case (Cons c cs)
  have "utf8_next utf8 p (length utf8) = Some (c, p + 1)"
    using Cons.prems by (intro utf8_next_ascii_char [of c]) (simp_all add: nth_append basic_char_def)
  moreover have "unichar_to_gsm7_count c \<noteq> 0"
    using Cons.prems(4) by (simp add: unichar_to_gsm7_count_def basic_char_def)
  ultimately show ?case
    using Cons.prems Cons.IH [of "pre @ [word_of_int c]" "p + 1" "n - 1"] by simp
qed simp

lemma smspdu_to_hex_loop_eq: "smspdu_to_hex_loop n base hex nn = gsm_hex_from_bytes_loop n hex base nn"
  by (induction n base hex nn rule: smspdu_to_hex_loop.induct)
    (auto simp: mult.commute split: Option.bind_splits)

lemma gsm_hex_to_bytes_total:
  assumes "hexlen \<le> length hex" "length dst = (hexlen + 1) div 2"
  shows "\<exists>bs. gsm_hex_to_bytes hex hexlen dst = Some bs \<and> length bs = length dst"
proof -
  let ?bs = "unhex_with gsm_nibble (take (2 * (hexlen div 2)) hex)"
  have "gsm_hex_to_bytes_loop (hexlen div 2) hex 0 dst = Some (blit dst 0 ?bs)"
    using gsm_hex_to_bytes_loop_blit [of 0 "hexlen div 2" hex "[]" dst] assms by simp
  moreover have "length (blit dst 0 ?bs) = length dst"
    using assms by (intro blit_length) simp
  moreover have "odd hexlen \<Longrightarrow> 2 * (hexlen div 2) < length hex \<and> hexlen div 2 < length dst"
    using assms by presburger
  ultimately show ?thesis by (auto simp: gsm_hex_to_bytes_def rd_Some wr_Some)
qed

section \<open>Properties\<close>

text \<open>C22: when memory is granted, an ASCII text in the basic alphabet is split over as many units as its characters need, in
  order and without losing or repeating a character: the user data of unit \<open>i\<close> unpacks to the
  \<open>i\<close>-th part of the text, behind the prefix and the header that number it.  (On the other characters of
  the alphabet, of two bytes and more, \<open>utf8_next\<close> does not end.)\<close>

theorem deliver_text_split:
  assumes "alloc_ok malloc" "\<forall>n. malloc n \<noteq> None"
    and "\<forall>c \<in> set cs. basic_char c \<and> c < 128" "address_ok a" "length ts = 7" "154 \<le> length buf"
  shows "\<exists>pdus. smspdu_create_deliver_utf8 malloc r0 now ref (map word_of_int cs) (length cs) a (Some ts) =
      Some (Some pdus, ref + 1) \<and>
    length pdus = length cs div 154 + (if length cs mod 154 > 0 then 1 else 0) \<and>
    concat (map (text_part cs) [0..<length pdus]) = cs \<and>
    (\<forall>i < length pdus. \<exists>body.
       pdu_base (pdus ! i) = deliver_prefix True a ts (length pdus) @
         gsm7_header (length (text_part cs i)) ref (length pdus) i @ body \<and>
       utf8_from_gsm7 body (gsm7_pad (length pdus)) (length (text_part cs i)) (Some buf) =
         Some (length (text_part cs i),
               Some (map word_of_int (text_part cs i) @ drop (length (text_part cs i)) buf)))"
proof -
  let ?u = "map word_of_int cs :: bytes" and ?N = "length cs"
  let ?num = "?N div 154 + (if ?N mod 154 > 0 then 1 else 0)"
  let ?create = "\<lambda>src len nn. smspdu_create_deliver malloc r0 src len True a ts ref ?num nn"
  let ?Q = "\<lambda>i p. \<exists>body. pdu_base p = deliver_prefix True a ts ?num @ gsm7_header (length (text_part cs i)) ref ?num i @ body \<and>
      utf8_from_gsm7 body (gsm7_pad ?num) (length (text_part cs i)) (Some buf) =
        Some (length (text_part cs i), Some (map word_of_int (text_part cs i) @ drop (length (text_part cs i)) buf))"
  have check: "utf8_check_gsm7 ?u ?N = Some 1"
    using utf8_check_gsm7_basic [of ?u "[]" cs 0 ?N] assms(3) by (simp add: utf8_check_gsm7_def)
  have count: "utf8_to_gsm7 ?u ?N None 0 = Some (?N, None)"
    using gsm7_text_pack [OF assms(3), of 0 "replicate (7 * ?N) 0" "replicate ?N 0" ?u "[]" 0] by simp
  have ascii: "\<forall>j < ?N. ?u ! j < 128"
  proof (intro allI impI)
    fix j assume "j < ?N"
    then have "0 \<le> cs ! j \<and> cs ! j < 128" using assms(3) nth_mem by (fastforce simp: basic_char_def)
    then show "?u ! j < 128" using lead_byte(1) [of "cs ! j"] \<open>j < ?N\<close> by (simp add: not_le)
  qed
  have create: "\<exists>p. ?create (drop (nn * 154) ?u) (min 154 (?N - nn * 154)) nn = Some (Some p) \<and> ?Q nn p" for nn
  proof -
    let ?c = "text_part cs nn"
    have chars: "\<forall>c \<in> set ?c. basic_char c \<and> c < 128"
      using assms(3) by (auto simp: text_part_def dest: in_set_takeD in_set_dropD)
    have src: "drop (nn * 154) ?u = map word_of_int ?c @ map word_of_int (drop 154 (drop (nn * 154) cs))"
      by (metis append_take_drop_id map_append drop_map text_part_def)
    have room: "length ?c \<le> length buf" using assms(6) by (simp add: length_text_part)
    have "malloc sizeof_SmsPDURec \<noteq> None" using assms(2) by blast
    from gsm7_unit [OF assms(1) this chars src assms(4,5) room refl refl, where cnt = ?num and ref = ref and i = nn]
    obtain body where "?create (drop (nn * 154) ?u) (length ?c) nn =
        Some (Some \<lparr>pdu_base = (deliver_prefix True a ts ?num @ gsm7_header (length ?c) ref ?num nn) @ body, pdu_tpdu = 1\<rparr>)"
      "utf8_from_gsm7 body (gsm7_pad ?num) (length ?c) (Some buf) =
         Some (length ?c, Some (map word_of_int ?c @ drop (length ?c) buf))"
      using assms(2) by blast
    moreover have "length ?c = min 154 (?N - nn * 154)" by (rule length_text_part)
    ultimately show ?thesis
      by (intro exI [of _ "\<lparr>pdu_base = (deliver_prefix True a ts ?num @ gsm7_header (length ?c) ref ?num nn) @ body, pdu_tpdu = 1\<rparr>"])
        simp
  qed
  obtain ps where ps: "deliver_loop ?num ?create ?u 0 ?N 154 (?N mod 154) ?num 0 = Some (Some ps)"
      "length ps = ?num" "\<forall>i < ?num. ?Q i (ps ! i)"
    using deliver_loop_parts [OF ascii, of ?num 154 ?create ?Q ?num 0] create by auto
  have "?N \<le> ?num * 154" by (rule parts_enough)
  then have "concat (map (text_part cs) [0..<length ps]) = cs" using ps(2) by (simp add: text_parts_concat)
  moreover obtain z where "malloc (4 + 4 * ?N) = Some z" using assms(2) by blast
  then have "smspdu_create_deliver_utf8 malloc r0 now ref ?u ?N a (Some ts) = Some (Some ps, ref + 1)"
    using check count ps(1)
    by (simp add: smspdu_create_deliver_utf8_def MAX_USER_DATA_SEPTETS_def USER_DATA_HEADER_SIZE_def
        minus_div_mult_eq_mod Let_def)
  ultimately show ?thesis using ps(2,3) by (intro exI [of _ ps]) simp
qed

definition witness_text :: "int list" where
  "witness_text = [72, 105, 33]"

definition witness_sender :: sms_address where
  "witness_sender = \<lparr>adr_len = 4, adr_toa = 0x81, adr_data = [0x21, 0x43]\<rparr>"

lemma witness_text_basic: "\<forall>c \<in> set witness_text. basic_char c \<and> c < 128"
  by (simp add: witness_text_def basic_char_def unichar_to_gsm7_def gsm7bits_to_unicode_def)

lemma witness_sender_ok: "address_ok witness_sender"
  by (simp add: witness_sender_def address_ok_def)

lemma deliver_text_split_witness:
  "\<exists>pdus. smspdu_create_deliver_utf8 (heap_with 0) (gsm_rope_init undefined) [] 9 (map word_of_int witness_text)
       (length witness_text) witness_sender (Some (replicate 7 0)) = Some (Some pdus, 9 + 1) \<and>
    length pdus = length witness_text div 154 + (if length witness_text mod 154 > 0 then 1 else 0) \<and>
    concat (map (text_part witness_text) [0..<length pdus]) = witness_text \<and>
    (\<forall>i < length pdus. \<exists>body.
       pdu_base (pdus ! i) = deliver_prefix True witness_sender (replicate 7 0) (length pdus) @
         gsm7_header (length (text_part witness_text i)) 9 (length pdus) i @ body \<and>
       utf8_from_gsm7 body (gsm7_pad (length pdus)) (length (text_part witness_text i)) (Some (replicate 154 0)) =
         Some (length (text_part witness_text i),
               Some (map word_of_int (text_part witness_text i) @
                 drop (length (text_part witness_text i)) (replicate 154 0))))"
  by (rule deliver_text_split)
    (use witness_text_basic witness_sender_ok in \<open>auto simp: heap_with_def\<close>)

text \<open>The user data of a unit of a 7-bit message of several parts, header included, fits into
  the 140 bytes a message may have only if it holds at most 153 characters; the splitter fills
  every part but the last with 154.\<close>

theorem part_fits_iff:
  assumes "alloc_ok malloc" "\<forall>n. malloc n \<noteq> None" "1 < cnt"
    and "\<forall>c \<in> set cs. basic_char c \<and> c < 128" "address_ok a" "length ts = 7"
    and "smspdu_create_deliver malloc r0 (map word_of_int cs) (length cs) True a ts ref cnt i = Some (Some p)"
  shows "length (pdu_base p) - (length (deliver_prefix True a ts cnt) + 1) \<le> MAX_USER_DATA_BYTES
    \<longleftrightarrow> length cs \<le> 153"
proof -
  have m: "malloc sizeof_SmsPDURec \<noteq> None" and src: "map word_of_int cs = map word_of_int cs @ ([] :: bytes)"
    and room: "length cs \<le> length (replicate (length cs) (0 :: byte))"
    using assms(2) by simp_all
  from gsm7_unit [OF assms(1) m assms(4) src assms(5,6) room refl refl, where cnt = cnt and ref = ref and i = i and ?r0.0 = r0]
  obtain body where body: "smspdu_create_deliver malloc r0 (map word_of_int cs) (length cs) True a ts ref cnt i =
      Some (Some \<lparr>pdu_base = (deliver_prefix True a ts cnt @ gsm7_header (length cs) ref cnt i) @ body, pdu_tpdu = 1\<rparr>)"
      "length body = (length cs * 7 + gsm7_pad cnt + 7) div 8"
    using assms(2) by blast
  have "p = \<lparr>pdu_base = (deliver_prefix True a ts cnt @ gsm7_header (length cs) ref cnt i) @ body, pdu_tpdu = 1\<rparr>"
    using body(1) assms(7) by (simp only: option.inject)
  with body(2)
  have "length (pdu_base p) - (length (deliver_prefix True a ts cnt) + 1) = 6 + (length cs * 7 + 8) div 8"
    using assms(3) by (simp add: gsm7_header_def gsm7_pad_def)
  then show ?thesis unfolding MAX_USER_DATA_BYTES_def by (simp only: part_bytes_bound)
qed

lemma part_fits_iff_witness:
  "\<exists>p. smspdu_create_deliver (heap_with 0) (gsm_rope_init undefined) (map word_of_int witness_text) (length witness_text)
       True witness_sender (replicate 7 0) 9 2 0 = Some (Some p) \<and>
    (length (pdu_base p) - (length (deliver_prefix True witness_sender (replicate 7 0) 2) + 1) \<le> MAX_USER_DATA_BYTES
      \<longleftrightarrow> length witness_text \<le> 153)"
proof -
  obtain p where p: "smspdu_create_deliver (heap_with 0) (gsm_rope_init undefined) (map word_of_int witness_text)
      (length witness_text) True witness_sender (replicate 7 0) 9 2 0 = Some (Some p)"
    using gsm7_unit [of "heap_with 0" witness_text "map word_of_int witness_text" "[]" witness_sender "replicate 7 0"
        "replicate 3 0" _ 2 _ 9 0 "gsm_rope_init undefined"] witness_text_basic witness_sender_ok
    by (auto simp: heap_with_def witness_text_def)
  then show ?thesis
    using part_fits_iff [OF _ _ _ witness_text_basic witness_sender_ok _ p] by (auto simp: heap_with_def)
qed

text \<open>C34: whatever hexadecimal text the modem delivers, turning it into a unit and reading its
  type, its addresses and its timestamp touches no byte outside the unit.\<close>

theorem received_pdu_safe:
  assumes "alloc_ok malloc" "hexlen \<le> length hex" "length ts = 7"
  shows "\<exists>r. smspdu_create_from_hex malloc hex hexlen = Some r \<and>
    (\<forall>p \<in> set_option r. smspdu_get_type p \<noteq> None \<and> smspdu_get_sender_address p a \<noteq> None \<and>
       smspdu_get_receiver_address p a \<noteq> None \<and> smspdu_get_sc_timestamp p ts \<noteq> None)"
proof -
  have acc: "smspdu_get_type p \<noteq> None \<and> smspdu_get_sender_address p a \<noteq> None \<and>
      smspdu_get_receiver_address p a \<noteq> None \<and> smspdu_get_sc_timestamp p ts \<noteq> None" for p
  proof -
    obtain t d where b: "sms_get_byte (pdu_base p) (pdu_tpdu p) (pdu_end p) = Some (t, d)"
      using get_byte_total [OF order.refl, of "pdu_base p" "pdu_tpdu p"] by blast
    obtain s1 c1 a1 where 1: "sms_get_sc_address (pdu_base p) d (pdu_end p) a = Some (s1, c1, a1)"
      using get_sc_address_total [OF order.refl, of "pdu_base p" d a] by blast
    obtain s2 c2 a2 where 2: "sms_get_sc_address (pdu_base p) d (pdu_end p) local_address = Some (s2, c2, a2)"
      using get_sc_address_total [OF order.refl, of "pdu_base p" d local_address] by blast
    obtain s3 c3 a3 where 3: "sms_get_address (pdu_base p) (d + 1) (pdu_end p) a = Some (s3, c3, a3)"
      using get_address_total [OF order.refl, of "pdu_base p" "d + 1" a] by blast
    obtain s4 c4 t4 where 4: "sms_get_timestamp (pdu_base p) (c2 + 2) (pdu_end p) ts = Some (s4, c4, t4)"
      using get_timestamp_total [OF order.refl assms(3), of "pdu_base p" "c2 + 2"] by blast
    from b 1 2 3 4 show ?thesis
      by (simp add: smspdu_get_type_def smspdu_get_sender_address_def smspdu_get_receiver_address_def
          smspdu_get_sc_timestamp_def)
  qed
  have "\<exists>r. smspdu_create_from_hex malloc hex hexlen = Some r"
  proof (cases "malloc sizeof_SmsPDURec = None \<or> malloc ((hexlen + 1) div 2) = None")
    case True then show ?thesis by (auto simp: smspdu_create_from_hex_def)
  next
    case False
    then obtain base0 where b0: "malloc ((hexlen + 1) div 2) = Some base0" by auto
    then have "length base0 = (hexlen + 1) div 2" using assms(1) by (simp add: alloc_ok_def)
    from gsm_hex_to_bytes_total [OF assms(2) this] obtain base where "gsm_hex_to_bytes hex hexlen base0 = Some base"
      by blast
    with b0 False skip_sc_address_total [OF order.refl, of base 0] show ?thesis
      by (auto simp: smspdu_create_from_hex_def)
  qed
  with acc show ?thesis by blast
qed

lemma received_pdu_safe_witness:
  "\<exists>r. smspdu_create_from_hex (heap_with 0) ''0004'' 4 = Some r \<and>
    (\<forall>p \<in> set_option r. smspdu_get_type p \<noteq> None \<and> smspdu_get_sender_address p local_address \<noteq> None \<and>
       smspdu_get_receiver_address p local_address \<noteq> None \<and> smspdu_get_sc_timestamp p (replicate 7 0) \<noteq> None)"
  by (rule received_pdu_safe) simp_all

text \<open>C27: the hexadecimal text of a unit whose service center address lies inside it is read as
  that unit, and printing the unit gives the text back.\<close>

theorem pdu_hex_roundtrip:
  assumes "alloc_ok malloc" "\<forall>n. malloc n \<noteq> None" "1 \<le> length bs" "1 + unat (bs ! 0) \<le> length bs"
    and "2 * length bs \<le> length out"
  shows "\<exists>p out'. smspdu_create_from_hex malloc (hex_with gsm_digit bs) (2 * length bs) = Some (Some p) \<and>
    pdu_base p = bs \<and> pdu_tpdu p = 1 + unat (bs ! 0) \<and>
    smspdu_to_hex p out (length out) = Some (2 * length bs, out') \<and> take (2 * length bs) out' = hex_with gsm_digit bs"
proof -
  let ?h = "hex_with gsm_digit bs"
  obtain base0 where b0: "malloc (length bs) = Some base0" "length base0 = length bs"
    using assms(1,2) by (metis alloc_ok_def option.exhaust)
  have "gsm_hex_to_bytes ?h (2 * length bs) base0 = Some bs"
    using gsm_hex_to_bytes_loop_blit [of 0 "length bs" ?h "[]" base0] b0(2)
    by (simp add: gsm_hex_to_bytes_def gsm_hex.text_roundtrip blit_def)
  moreover have "bs \<noteq> []" using assms(3) by auto
  then have "sms_skip_sc_address bs 0 (length bs) = Some (0, 1 + unat (bs ! 0))"
    using assms(4) by (simp add: sms_skip_sc_address_def rd_def)
  ultimately have "smspdu_create_from_hex malloc ?h (2 * length bs) =
      Some (Some \<lparr>pdu_base = bs, pdu_tpdu = 1 + unat (bs ! 0)\<rparr>)"
    using assms(2) b0(1) by (simp add: smspdu_create_from_hex_def)
  moreover have "smspdu_to_hex \<lparr>pdu_base = bs, pdu_tpdu = 1 + unat (bs ! 0)\<rparr> out (length out) =
      Some (2 * length bs, blit out 0 ?h)"
    using gsm_hex_from_bytes_loop_blit [of 0 "length bs" bs "[]" out] assms(5)
    by (simp add: smspdu_to_hex_def smspdu_to_hex_loop_eq Let_def mult.commute min_def)
  moreover have "take (2 * length bs) (blit out 0 ?h) = ?h" by (simp add: blit_def)
  ultimately show ?thesis by auto
qed

lemma pdu_hex_roundtrip_witness:
  "\<exists>p out'. smspdu_create_from_hex (heap_with 0) (hex_with gsm_digit [1, 0x91, 4]) (2 * length [1, 0x91, 4 :: byte]) = Some (Some p) \<and>
    pdu_base p = [1, 0x91, 4] \<and> pdu_tpdu p = 1 + unat ([1, 0x91, 4 :: byte] ! 0) \<and>
    smspdu_to_hex p ''xxxxxxx'' (length ''xxxxxxx'') = Some (2 * length [1, 0x91, 4 :: byte], out') \<and>
    take (2 * length [1, 0x91, 4 :: byte]) out' = hex_with gsm_digit [1, 0x91, 4]"
  by (rule pdu_hex_roundtrip) (simp_all add: heap_with_def)

end
