(* ===== verification/Fifo.thy ===== *)
theory Fifo
  imports Prelude
begin

text \<open>
  The contract of a first-in first-out queue, which the request list of the RIL and the list of
  held SMS units both provide, and what a client may conclude from it: over any sequence of
  insertions and removals nothing is lost, repeated or overtaken.
\<close>

datatype 'x fifo_op = Put 'x | Take

fun puts :: "'x fifo_op list \<Rightarrow> 'x list" where
  "puts [] = []"
| "puts (Put x # ops) = x # puts ops"
| "puts (Take # ops) = puts ops"

lemma puts_append [simp]: "puts (xs @ ys) = puts xs @ puts ys"
  by (induction xs rule: puts.induct) auto

locale fifo =
  fixes contents :: "'q \<Rightarrow> 'x list"
    and enq :: "'x \<Rightarrow> 'q \<Rightarrow> 'q"
    and deq :: "'q \<Rightarrow> 'x option \<times> 'q"
  assumes contents_enq: "contents (enq x q) = contents q @ [x]"
    and deq_Nil: "contents q = [] \<Longrightarrow> fst (deq q) = None \<and> contents (snd (deq q)) = []"
    and deq_Cons: "contents q = x # xs \<Longrightarrow> fst (deq q) = Some x \<and> contents (snd (deq q)) = xs"
begin

fun run :: "'x fifo_op list \<Rightarrow> 'q \<Rightarrow> 'x list \<times> 'q" where
  "run [] q = ([], q)"
| "run (Put x # ops) q = run ops (enq x q)"
| "run (Take # ops) q =
    (case deq q of (None, q') \<Rightarrow> run ops q'
     | (Some x, q') \<Rightarrow> (case run ops q' of (out, q'') \<Rightarrow> (x # out, q'')))"

lemma deq_contents:
  "deq q = (r, q') \<Longrightarrow> (case r of None \<Rightarrow> [] | Some x \<Rightarrow> [x]) @ contents q' = contents q"
  using deq_Nil [of q] deq_Cons [of q] by (cases "contents q") auto

lemma deq_None_iff: "fst (deq q) = None \<longleftrightarrow> contents q = []"
  using deq_Nil [of q] deq_Cons [of q] by (cases "contents q") auto

lemma deq_hd: "fst (deq q) = Some x \<Longrightarrow> contents q = x # contents (snd (deq q))"
  using deq_Nil [of q] deq_Cons [of q] by (cases "contents q") auto

lemma run_conserves:
  "run ops q = (out, q') \<Longrightarrow> out @ contents q' = contents q @ puts ops"
proof (induction ops q arbitrary: out rule: run.induct)
  case (1 q) then show ?case by simp
next
  case (2 x ops q) then show ?case by (simp add: contents_enq)
next
  case (3 ops q)
  obtain r q1 where d: "deq q = (r, q1)" by (cases "deq q")
  note c = deq_contents [OF d]
  show ?case
  proof (cases r)
    case None
    with 3 d c show ?thesis by simp
  next
    case (Some x)
    obtain out1 q2 where r: "run ops q1 = (out1, q2)" by (cases "run ops q1")
    with 3 Some d have "out1 @ contents q2 = contents q1 @ puts ops" by auto
    with 3 Some d r c show ?thesis by auto
  qed
qed

lemma run_in_order:
  assumes "run ops q = (out, q')" "contents q = []"
  shows "\<exists>rest. puts ops = out @ rest \<and> contents q' = rest"
  using run_conserves [OF assms(1)] assms(2) by simp

lemma run_drains:
  assumes "length (contents q) \<le> n"
  shows "fst (run (replicate n Take) q) = contents q \<and> contents (snd (run (replicate n Take) q)) = []"
  using assms
proof (induction n arbitrary: q)
  case 0 then show ?case by simp
next
  case (Suc n)
  obtain r q1 where d: "deq q = (r, q1)" by (cases "deq q")
  note c = deq_contents [OF d]
  show ?case
  proof (cases r)
    case None
    with d have "contents q = []" using deq_None_iff [of q] by simp
    with None d c Suc.IH [of q1] show ?thesis by simp
  next
    case (Some x)
    with c have q: "contents q = x # contents q1" by simp
    with Suc.prems have "length (contents q1) \<le> n" by simp
    from Suc.IH [OF this] Some d q show ?thesis by (auto split: prod.splits)
  qed
qed

end

end
