(* ===== verification/Ril_Queue.thy ===== *)
theory Ril_Queue
  imports Fifo "HOL-Library.Multiset"
begin

text \<open>
  The queue between the threads of the RIL, from \<open>huaweigeneric-ril.c\<close>: the list of requests
  (\<open>onRequest\<close>), the list of timed events (\<open>enqueueRILEvent\<close>) and the thread that serves both
  (\<open>queueRunner\<close>).

  The list of events is modelled twice: as the doubly linked list of the code, on a store of
  nodes, and as the list of the events themselves; the two are related by a refinement.
\<close>

section \<open>Times\<close>

datatype timespec = Timespec (tv_sec: int) (tv_nsec: int)

definition timespec_cmp :: "timespec \<Rightarrow> timespec \<Rightarrow> (int \<Rightarrow> int \<Rightarrow> bool) \<Rightarrow> bool" where
  "timespec_cmp a b opn =
    (if tv_sec a = tv_sec b then opn (tv_nsec a) (tv_nsec b) else opn (tv_sec a) (tv_sec b))"

instantiation timespec :: linorder
begin

definition less_timespec :: "timespec \<Rightarrow> timespec \<Rightarrow> bool" where
  "less_timespec a b \<longleftrightarrow> timespec_cmp a b (<)"

definition less_eq_timespec :: "timespec \<Rightarrow> timespec \<Rightarrow> bool" where
  "less_eq_timespec a b \<longleftrightarrow> timespec_cmp a b (\<le>)"

instance
  by standard (auto simp: less_timespec_def less_eq_timespec_def timespec_cmp_def timespec.expand
      split: if_splits intro: timespec.expand)

end

lemma timespec_cmp_simps [simp]:
  "timespec_cmp a b (<) \<longleftrightarrow> a < b"
  "timespec_cmp a b (>) \<longleftrightarrow> b < a"
  by (auto simp: less_timespec_def timespec_cmp_def)

text \<open>The time an event is due: \<open>now\<close> plus the delay, with the carry of the code.\<close>

definition abs_time :: "timespec \<Rightarrow> timespec option \<Rightarrow> timespec" where
  "abs_time now relativeTime =
    (let r = (case relativeTime of None \<Rightarrow> Timespec 0 0 | Some t \<Rightarrow> t);
         s = tv_sec now + tv_sec r; ns = tv_nsec now + tv_nsec r in
     if 1000000000 < ns then Timespec (s + 1) (ns - 1000000000) else Timespec s ns)"

definition nanos :: "timespec \<Rightarrow> int" where
  "nanos t = tv_sec t * 1000000000 + tv_nsec t"

text \<open>What \<open>pthread_cond_timedwait\<close> accepts.\<close>

definition valid_timespec :: "timespec \<Rightarrow> bool" where
  "valid_timespec t \<longleftrightarrow> 0 \<le> tv_nsec t \<and> tv_nsec t < 1000000000"

lemma nanos_abs_time:
  "nanos (abs_time now r) = nanos now + (case r of None \<Rightarrow> 0 | Some t \<Rightarrow> nanos t)"
  by (auto simp: abs_time_def nanos_def Let_def split: option.splits)

lemma abs_time_nsec:
  assumes "valid_timespec now" "\<And>t. r = Some t \<Longrightarrow> valid_timespec t"
  shows "0 \<le> tv_nsec (abs_time now r) \<and> tv_nsec (abs_time now r) \<le> 1000000000"
  using assms by (auto simp: abs_time_def valid_timespec_def Let_def split: option.splits)

section \<open>The callbacks, events and requests\<close>

datatype callback =
    CheckMessageStorageReady | OnSIMReady | PollSIMState | SendCallStateChanged
  | IsSimSmsStorageFull | PollOperatorSelected | OnDataCallListChanged

record 'p event =
  eventCallback :: callback
  param :: "'p option"
  abstime :: timespec

record 'd request =
  request_code :: int
  data :: 'd
  datalen :: nat
  token :: nat

text \<open>The loop of \<open>enqueueRILEvent\<close> over the list, by the key that is compared.\<close>

fun insert_walk :: "('x \<Rightarrow> timespec) \<Rightarrow> 'x list \<Rightarrow> 'x \<Rightarrow> 'x list" where
  "insert_walk k [] e = [e]"
| "insert_walk k (t # ts) e = (if timespec_cmp (k t) (k e) (>) then e # t # ts else t # insert_walk k ts e)"

lemma insert_walk_mset [simp]: "mset (insert_walk k ts e) = add_mset e (mset ts)"
  by (induction k ts e rule: insert_walk.induct) auto

lemma insert_walk_set [simp]: "set (insert_walk k ts e) = insert e (set ts)"
  by (induction k ts e rule: insert_walk.induct) auto

lemma insert_walk_distinct: "distinct (insert_walk k ts e) \<longleftrightarrow> distinct ts \<and> e \<notin> set ts"
  by (induction k ts e rule: insert_walk.induct) auto

lemma insert_walk_map: "map f (insert_walk (k \<circ> f) ts e) = insert_walk k (map f ts) (f e)"
  by (induction "k \<circ> f" ts e rule: insert_walk.induct) auto

lemma insert_walk_cong:
  "(\<And>x. x \<in> set ts \<Longrightarrow> k x = k' x) \<Longrightarrow> k e = k' e \<Longrightarrow> insert_walk k ts e = insert_walk k' ts e"
  by (induction k ts e rule: insert_walk.induct) auto

lemma insert_walk_sorted: "sorted (map k ts) \<Longrightarrow> sorted (map k (insert_walk k ts e))"
  by (induction k ts e rule: insert_walk.induct) (auto simp: less_imp_le)

text \<open>On a sorted list the new event stands behind all that are due no later and before the others.\<close>

lemma insert_walk_stable:
  assumes "sorted (map k ts)"
  shows "insert_walk k ts e = filter (\<lambda>t. k t \<le> k e) ts @ e # filter (\<lambda>t. k e < k t) ts"
  using assms
proof (induction k ts e rule: insert_walk.induct)
  case (1 k e) then show ?case by simp
next
  case (2 k t ts e)
  show ?case
  proof (cases "k e < k t")
    case True
    with 2 have "\<forall>x \<in> set ts. k e < k x" by auto
    then have "filter (\<lambda>t. k t \<le> k e) ts = []" "filter (\<lambda>t. k e < k t) ts = ts"
      by (auto simp: filter_empty_conv)
    with True show ?thesis by auto
  next
    case False with 2 show ?thesis by auto
  qed
qed

section \<open>The queue\<close>

record ('d, 'p) queue =
  requestList :: "'d request list"
  eventList :: "'p event list"
  closed :: bool

text \<open>\<open>enqueueRILEvent\<close>, \<open>onRequest\<close> and \<open>signalCloseQueues\<close>; waking the runner is part of the threads below.\<close>

definition enqueueRILEvent ::
    "callback \<Rightarrow> 'p option \<Rightarrow> timespec option \<Rightarrow> timespec \<Rightarrow> ('d, 'p) queue \<Rightarrow> ('d, 'p) queue" where
  "enqueueRILEvent cb p relativeTime now q =
    q\<lparr>eventList := insert_walk abstime (eventList q)
        \<lparr>eventCallback = cb, param = p, abstime = abs_time now relativeTime\<rparr>\<rparr>"

fun append_request :: "'d request list \<Rightarrow> 'd request \<Rightarrow> 'd request list" where
  "append_request [] r = [r]"
| "append_request [l] r = [l, r]"
| "append_request (l # m # ls) r = l # append_request (m # ls) r"

definition onRequest ::
    "(int \<Rightarrow> 'd \<Rightarrow> nat \<Rightarrow> 'd) \<Rightarrow> int \<Rightarrow> 'd \<Rightarrow> nat \<Rightarrow> nat \<Rightarrow> ('d, 'p) queue \<Rightarrow> ('d, 'p) queue" where
  "onRequest dupRequestData req dat len t q =
    q\<lparr>requestList := append_request (requestList q)
        \<lparr>request_code = req, data = dupRequestData req dat len, datalen = len, token = t\<rparr>\<rparr>"

definition signalCloseQueues :: "('d, 'p) queue \<Rightarrow> ('d, 'p) queue" where
  "signalCloseQueues q = q\<lparr>closed := True\<rparr>"

text \<open>What the runner takes from the queue at the time \<open>now\<close> before it leaves the mutex.\<close>

definition take_event :: "timespec \<Rightarrow> ('d, 'p) queue \<Rightarrow> 'p event option \<times> ('d, 'p) queue" where
  "take_event now q =
    (case eventList q of
       e # es \<Rightarrow> if timespec_cmp (abstime e) now (<) then (Some e, q\<lparr>eventList := es\<rparr>) else (None, q)
     | [] \<Rightarrow> (None, q))"

definition take_request :: "('d, 'p) queue \<Rightarrow> 'd request option \<times> ('d, 'p) queue" where
  "take_request q =
    (case requestList q of r # rs \<Rightarrow> (Some r, q\<lparr>requestList := rs\<rparr>) | [] \<Rightarrow> (None, q))"

lemma append_request_eq [simp]: "append_request rs r = rs @ [r]"
  by (induction rs r rule: append_request.induct) auto

interpretation requests: fifo
    requestList
    "\<lambda>r q. q\<lparr>requestList := append_request (requestList q) r\<rparr>"
    take_request
  by unfold_locales (auto simp: take_request_def)

section \<open>The doubly linked list of events\<close>

text \<open>
  The nodes are in a store; \<open>eventCallback\<close> and the time are the event of the node.  A
  dereferenced pointer that is \<open>NULL\<close> or whose node was freed is a fault.
\<close>

type_synonym addr = nat

record 'p node =
  ev :: "'p event"
  next_ptr :: "addr option"
  prev_ptr :: "addr option"

type_synonym 'p store = "addr \<Rightarrow> 'p node option"

definition deref :: "'p store \<Rightarrow> addr option \<Rightarrow> (addr \<times> 'p node) option" where
  "deref h p = (case p of None \<Rightarrow> None | Some a \<Rightarrow> map_option (Pair a) (h a))"

definition upd :: "'p store \<Rightarrow> addr option \<Rightarrow> ('p node \<Rightarrow> 'p node) \<Rightarrow> 'p store option" where
  "upd h p f = do { (a, n) \<leftarrow> deref h p; Some (h(a \<mapsto> f n)) }"

partial_function (option) enqueue_loop :: "'p store \<Rightarrow> addr \<Rightarrow> addr \<Rightarrow> 'p store option" where
  "enqueue_loop h tmp e = do {
    (_, t) \<leftarrow> deref h (Some tmp);
    (_, n) \<leftarrow> deref h (Some e);
    if timespec_cmp (abstime (ev t)) (abstime (ev n)) (>) then do {
      h1 \<leftarrow> upd h (prev_ptr t) (\<lambda>x. x\<lparr>next_ptr := Some e\<rparr>);
      (_, t1) \<leftarrow> deref h1 (Some tmp);
      h2 \<leftarrow> upd h1 (Some e) (\<lambda>x. x\<lparr>prev_ptr := prev_ptr t1\<rparr>);
      h3 \<leftarrow> upd h2 (Some tmp) (\<lambda>x. x\<lparr>prev_ptr := Some e\<rparr>);
      upd h3 (Some e) (\<lambda>x. x\<lparr>next_ptr := Some tmp\<rparr>)
    }
    else case next_ptr t of
      None \<Rightarrow> do {
        h1 \<leftarrow> upd h (Some tmp) (\<lambda>x. x\<lparr>next_ptr := Some e\<rparr>);
        upd h1 (Some e) (\<lambda>x. x\<lparr>prev_ptr := Some tmp\<rparr>)
      }
    | Some nx \<Rightarrow> enqueue_loop h nx e
  }"

text \<open>
  The new node is at the address \<open>e\<close> that \<open>malloc\<close> returned; its pointers are zero.
  The result is the store and the new \<open>q->eventList\<close>.
\<close>

definition enqueue_node ::
    "'p store \<Rightarrow> addr option \<Rightarrow> addr \<Rightarrow> 'p event \<Rightarrow> ('p store \<times> addr option) option" where
  "enqueue_node h0 lst e v = (let h = h0(e \<mapsto> \<lparr>ev = v, next_ptr = None, prev_ptr = None\<rparr>) in
    case lst of
      None \<Rightarrow> Some (h, Some e)
    | Some a \<Rightarrow> do {
        (_, t) \<leftarrow> deref h lst;
        if timespec_cmp (abstime (ev t)) (abstime v) (>) then do {
          h1 \<leftarrow> upd h (Some e) (\<lambda>x. x\<lparr>next_ptr := lst\<rparr>);
          h2 \<leftarrow> upd h1 lst (\<lambda>x. x\<lparr>prev_ptr := Some e\<rparr>);
          Some (h2, Some e)
        }
        else do { h1 \<leftarrow> enqueue_loop h a e; Some (h1, lst) }
      })"

text \<open>The runner takes the first node; it is freed when its callback has returned.\<close>

definition dequeue_node :: "'p store \<Rightarrow> addr option \<Rightarrow> ('p event \<times> 'p store \<times> addr option) option" where
  "dequeue_node h lst = do { (a, n) \<leftarrow> deref h lst; Some (ev n, h(a := None), next_ptr n) }"

text \<open>
  The list of nodes from a pointer on: each is linked to the next, and each but the first back
  to the one before.  The back pointer of the first node is not constrained: the code leaves it
  pointing to the node it freed.
\<close>

fun linked :: "'p store \<Rightarrow> addr option \<Rightarrow> addr list \<Rightarrow> bool" where
  "linked h p [] \<longleftrightarrow> p = None"
| "linked h p [a] \<longleftrightarrow> p = Some a \<and> (\<exists>n. h a = Some n \<and> next_ptr n = None)"
| "linked h p (a # b # as) \<longleftrightarrow> p = Some a \<and> (\<exists>n m. h a = Some n \<and> next_ptr n = Some b \<and>
      h b = Some m \<and> prev_ptr m = Some a) \<and> linked h (Some b) (b # as)"

definition event_of :: "'p store \<Rightarrow> addr \<Rightarrow> 'p event" where
  "event_of h a = ev (the (h a))"

definition events_at :: "'p store \<Rightarrow> addr option \<Rightarrow> addr list \<Rightarrow> 'p event list \<Rightarrow> bool" where
  "events_at h p as es \<longleftrightarrow> linked h p as \<and> distinct as \<and> es = map (event_of h) as"

lemma linked_hd: "linked h (Some a) as \<Longrightarrow> \<exists>as'. as = a # as' \<and> (\<exists>n. h a = Some n)"
  by (induction h "Some a" as rule: linked.induct) auto

lemma linked_tl:
  "linked h (Some a) (a # as) \<Longrightarrow> h a = Some n \<Longrightarrow> linked h (next_ptr n) as"
  by (cases as) auto

lemma linked_cong:
  "(\<And>a. a \<in> set as \<Longrightarrow> h' a = h a) \<Longrightarrow> linked h' p as = linked h p as"
  by (induction h p as rule: linked.induct) auto

text \<open>Nothing but the back pointer of its first node changed: the list is still linked.\<close>

lemma linked_hd_prev:
  assumes "linked h p (a # as)" "a \<notin> set as" "h a = Some n"
  shows "linked (h(a \<mapsto> n\<lparr>prev_ptr := x\<rparr>)) p (a # as)"
  using assms
proof (cases as)
  case Nil with assms show ?thesis by simp
next
  case (Cons b bs)
  with assms have "linked (h(a \<mapsto> n\<lparr>prev_ptr := x\<rparr>)) (Some b) as = linked h (Some b) as"
    by (intro linked_cong) auto
  with Cons assms show ?thesis by auto
qed

lemma linked_Cons:
  assumes "linked h (Some b) (b # bs)" "h a = Some n" "next_ptr n = Some b" "h b = Some m" "prev_ptr m = Some a"
  shows "linked h (Some a) (a # b # bs)"
  using assms by auto

text \<open>The loop from the second node on, behind the node at \<open>p\<close>.\<close>

abbreviation time_at :: "'p store \<Rightarrow> addr \<Rightarrow> timespec" where
  "time_at h a \<equiv> abstime (event_of h a)"

lemma enqueue_loop_linked:
  assumes "linked h (Some p) (p # as)" "as \<noteq> []" "distinct (e # p # as)"
    and "h e = Some \<lparr>ev = v, next_ptr = None, prev_ptr = None\<rparr>"
  shows "\<exists>h'. enqueue_loop h (hd as) e = Some h' \<and>
     linked h' (Some p) (p # insert_walk (time_at h) as e) \<and>
     (\<forall>a. a \<notin> set (e # p # as) \<longrightarrow> h' a = h a) \<and>
     (\<forall>a. map_option ev (h' a) = map_option ev (h a)) \<and>
     map_option prev_ptr (h' p) = map_option prev_ptr (h p)"
  using assms
proof (induction as arbitrary: p)
  case Nil then show ?case by simp
next
  case (Cons a as)
  let ?n = "\<lparr>ev = v, next_ptr = None, prev_ptr = None\<rparr> :: 'a node"
  from Cons.prems obtain np na where np: "h p = Some np" "next_ptr np = Some a"
    and na: "h a = Some na" "prev_ptr na = Some p" and lk: "linked h (Some a) (a # as)"
    by auto
  from Cons.prems have ne: "e \<noteq> p" "e \<noteq> a" "p \<noteq> a" "e \<notin> set as" "p \<notin> set as" "a \<notin> set as" "distinct as"
    by auto
  show ?case
  proof (cases "time_at h e < time_at h a")
    case True
    then have t: "abstime v < abstime (ev na)" using na Cons.prems(4) by (simp add: event_of_def)
    define h1 where "h1 = h(p \<mapsto> np\<lparr>next_ptr := Some e\<rparr>, e \<mapsto> ?n\<lparr>prev_ptr := Some p, next_ptr := Some a\<rparr>, a \<mapsto> na\<lparr>prev_ptr := Some e\<rparr>)"
    have ex: "enqueue_loop h a e = Some h1"
      using t na np ne Cons.prems(4)
      by (subst enqueue_loop.simps) (auto simp: deref_def upd_def h1_def fun_eq_iff)
    have "linked (h(a \<mapsto> na\<lparr>prev_ptr := Some e\<rparr>)) (Some a) (a # as)"
      by (rule linked_hd_prev) (use lk na ne in auto)
    then have "linked h1 (Some a) (a # as)"
      by (subst linked_cong [where h = "h(a \<mapsto> na\<lparr>prev_ptr := Some e\<rparr>)"]) (use ne in \<open>auto simp: h1_def\<close>)
    then have "linked h1 (Some p) (p # e # a # as)"
      using ne by (auto simp: h1_def)
    moreover have "\<forall>x. x \<notin> set (e # p # a # as) \<longrightarrow> h1 x = h x" by (simp add: h1_def)
    moreover have "\<forall>x. map_option ev (h1 x) = map_option ev (h x)"
      "map_option prev_ptr (h1 p) = map_option prev_ptr (h p)"
      using np na ne Cons.prems(4) by (auto simp: h1_def)
    ultimately show ?thesis
      using ex True by (intro exI [of _ h1]) simp
  next
    case False
    then have t: "\<not> abstime v < abstime (ev na)" using na Cons.prems(4) by (simp add: event_of_def)
    show ?thesis
    proof (cases "as = []")
      case True
      with lk na have nn: "next_ptr na = None" by auto
      define h1 where "h1 = h(a \<mapsto> na\<lparr>next_ptr := Some e\<rparr>, e \<mapsto> ?n\<lparr>prev_ptr := Some a\<rparr>)"
      have ex: "enqueue_loop h a e = Some h1"
        using t na nn ne Cons.prems(4)
        by (subst enqueue_loop.simps) (auto simp: deref_def upd_def h1_def fun_eq_iff)
      with True False show ?thesis
        using ne np na Cons.prems(4)
        by (intro exI [of _ h1]) (auto simp: h1_def)
    next
      case as: False
      from as obtain b bs where b: "as = b # bs" by (cases as) auto
      with lk na have nb: "next_ptr na = Some b" by auto
      from Cons.IH [OF lk as] ne Cons.prems(4)
      obtain h1 where h1: "enqueue_loop h b e = Some h1"
        "linked h1 (Some a) (a # insert_walk (time_at h) as e)"
        "\<forall>x. x \<notin> set (e # a # as) \<longrightarrow> h1 x = h x"
        "\<forall>x. map_option ev (h1 x) = map_option ev (h x)"
        "map_option prev_ptr (h1 a) = map_option prev_ptr (h a)"
        by (auto simp: b)
      have ex: "enqueue_loop h a e = enqueue_loop h b e"
        using t na nb ne Cons.prems(4)
        by (subst enqueue_loop.simps) (auto simp: deref_def)
      have hp: "h1 p = Some np" using h1(3) ne np by auto
      from h1(5) na obtain na1 where na1: "h1 a = Some na1" "prev_ptr na1 = Some p" by auto
      have "linked h1 (Some p) (p # a # insert_walk (time_at h) as e)"
        by (rule linked_Cons [OF h1(2) hp np(2) na1])
      with False ex h1 hp np show ?thesis by (intro exI [of _ h1]) auto
    qed
  qed
qed

lemma event_of_cong: "(\<forall>a. map_option ev (h' a) = map_option ev (h a)) \<Longrightarrow> a \<in> dom h \<Longrightarrow> event_of h' a = event_of h a"
  by (auto simp: event_of_def dest!: spec [of _ a])

lemma linked_dom: "linked h p as \<Longrightarrow> set as \<subseteq> dom h"
  by (induction h p as rule: linked.induct) auto

text \<open>Enqueueing on the nodes is enqueueing on the list of events.\<close>

lemma enqueue_node_refines:
  assumes "events_at h p as es" "e \<notin> dom h"
  shows "\<exists>h' p' as'. enqueue_node h p e v = Some (h', p') \<and> events_at h' p' as' (insert_walk abstime es v) \<and>
     (\<forall>a. a \<notin> set (e # as) \<longrightarrow> h' a = h a)"
proof -
  let ?n = "\<lparr>ev = v, next_ptr = None, prev_ptr = None\<rparr> :: 'a node"
  let ?h = "h(e \<mapsto> ?n)"
  from assms have lk: "linked h p as" and d: "distinct as" and es: "es = map (event_of h) as"
    by (auto simp: events_at_def)
  from linked_dom [OF lk] assms(2) have ea: "e \<notin> set as" by auto
  have lk': "linked ?h p as" using lk ea by (subst linked_cong [where h = h]) auto
  have es': "es = map (event_of ?h) as" using ea es by (auto simp: event_of_def)
  have ve: "event_of ?h e = v" by (simp add: event_of_def)
  have walk: "insert_walk abstime es v = map (event_of ?h) (insert_walk (time_at ?h) as e)"
    using insert_walk_map [of "event_of ?h" abstime as e] by (simp add: es' ve comp_def)
  show ?thesis
  proof (cases p)
    case None
    with lk have "as = []" by (auto elim: linked.elims)
    with None show ?thesis
      by (intro exI [of _ ?h] exI [of _ "Some e"] exI [of _ "[e]"])
        (use es in \<open>auto simp: enqueue_node_def events_at_def event_of_def Let_def\<close>)
  next
    case (Some a)
    with lk linked_hd obtain as1 n where a: "as = a # as1" "h a = Some n" by blast
    have ae: "a \<noteq> e" using ea a by auto
    have ta: "time_at ?h a = abstime (ev n)" using a ae by (simp add: event_of_def)
    show ?thesis
    proof (cases "abstime v < abstime (ev n)")
      case True
      define h1 where "h1 = ?h(e \<mapsto> ?n\<lparr>next_ptr := Some a\<rparr>, a \<mapsto> n\<lparr>prev_ptr := Some e\<rparr>)"
      have ex: "enqueue_node h p e v = Some (h1, Some e)"
        using Some a ae True by (auto simp: enqueue_node_def deref_def upd_def h1_def Let_def)
      have "linked (h(a \<mapsto> n\<lparr>prev_ptr := Some e\<rparr>)) (Some a) (a # as1)"
        by (rule linked_hd_prev) (use lk a d Some in auto)
      then have "linked h1 (Some a) (a # as1)"
        by (subst linked_cong [where h = "h(a \<mapsto> n\<lparr>prev_ptr := Some e\<rparr>)"]) (use ea a in \<open>auto simp: h1_def\<close>)
      then have "linked h1 (Some e) (e # as)"
        using ae a by (auto simp: h1_def)
      moreover have "insert_walk abstime es v = map (event_of h1) (e # as)"
        using True a ae ea es' by (auto simp: h1_def event_of_def)
      ultimately show ?thesis
        using ex ea d a by (intro exI [of _ h1] exI [of _ "Some e"] exI [of _ "e # as"])
          (auto simp: events_at_def h1_def)
    next
      case False
      then have nt: "\<not> time_at ?h e < time_at ?h a" by (simp add: ta ve)
      show ?thesis
      proof (cases "as1 = []")
        case True
        define h1 where "h1 = ?h(a \<mapsto> n\<lparr>next_ptr := Some e\<rparr>, e \<mapsto> ?n\<lparr>prev_ptr := Some a\<rparr>)"
        from True lk a Some have nn: "next_ptr n = None" by auto
        have "enqueue_loop ?h a e = Some h1"
          using False a nn ae by (subst enqueue_loop.simps) (auto simp: deref_def upd_def h1_def fun_eq_iff)
        then have ex: "enqueue_node h p e v = Some (h1, p)"
          using Some a ae False by (auto simp: enqueue_node_def deref_def Let_def)
        moreover have "linked h1 p [a, e]" using ae Some by (auto simp: h1_def)
        moreover have "insert_walk abstime es v = map (event_of h1) [a, e]"
          using False a ae es' True by (auto simp: h1_def event_of_def)
        ultimately show ?thesis
          using ae a True by (intro exI [of _ h1] exI [of _ p] exI [of _ "[a, e]"])
            (auto simp: events_at_def h1_def)
      next
        case as1: False
        from as1 obtain b bs where b: "as1 = b # bs" by (cases as1) auto
        with lk a Some have nb: "next_ptr n = Some b" by auto
        have ea1: "distinct (e # a # as1)" using ea d a by auto
        from enqueue_loop_linked [of ?h a as1 e v] lk' as1 ea1 a Some
        obtain h1 where h1: "enqueue_loop ?h b e = Some h1"
          "linked h1 (Some a) (a # insert_walk (time_at ?h) as1 e)"
          "\<forall>x. x \<notin> set (e # a # as1) \<longrightarrow> h1 x = ?h x"
          "\<forall>x. map_option ev (h1 x) = map_option ev (?h x)"
          by (auto simp: b)
        have "enqueue_loop ?h a e = enqueue_loop ?h b e"
          using False a nb ae by (subst enqueue_loop.simps) (auto simp: deref_def)
        with h1 have ex: "enqueue_node h p e v = Some (h1, p)"
          using Some a ae False by (auto simp: enqueue_node_def deref_def Let_def)
        have il: "insert_walk (time_at ?h) as e = a # insert_walk (time_at ?h) as1 e"
          using nt a by auto
        have "insert_walk abstime es v = map (event_of h1) (insert_walk (time_at ?h) as e)"
          unfolding walk using h1(4) linked_dom [OF lk']
          by (intro map_cong refl event_of_cong [symmetric]) auto
        then show ?thesis
          using ex h1 il Some ea d a
          by (intro exI [of _ h1] exI [of _ p] exI [of _ "insert_walk (time_at ?h) as e"])
            (auto simp: events_at_def insert_walk_distinct)
      qed
    qed
  qed
qed

lemma dequeue_node_refines:
  assumes "events_at h p as (v # es)"
  shows "\<exists>h' p'. dequeue_node h p = Some (v, h', p') \<and> events_at h' p' (tl as) es"
proof -
  from assms obtain a as1 where as: "as = a # as1" by (auto simp: events_at_def)
  with assms have p: "p = Some a" and d: "a \<notin> set as1" "distinct as1"
    by (auto simp: events_at_def elim: linked.elims)
  with assms as obtain n where n: "h a = Some n" using linked_hd by (fastforce simp: events_at_def)
  have "linked h (next_ptr n) as1" using assms as p n linked_tl by (auto simp: events_at_def)
  then have "linked (h(a := None)) (next_ptr n) as1"
    using d by (subst linked_cong [where h = h]) auto
  moreover have "map (event_of (h(a := None))) as1 = map (event_of h) as1"
    using d by (auto simp: event_of_def)
  ultimately show ?thesis
    using assms as p n d by (auto simp: dequeue_node_def deref_def events_at_def event_of_def)
qed

section \<open>The properties\<close>

text \<open>C16: on the doubly linked nodes, with whatever back pointer the first node has, enqueueRILEvent
  touches no node outside the list and puts the event behind all that are due no later and before
  the others; what the runner then takes is the first event, and the rest is again such a list.\<close>

theorem event_list_refined:
  assumes "events_at h p as es" "sorted (map abstime es)" "e \<notin> dom h"
    and "es' = filter (\<lambda>x. abstime x \<le> abstime v) es @ v # filter (\<lambda>x. abstime v < abstime x) es"
  shows "\<exists>h1 p1 as1. enqueue_node h p e v = Some (h1, p1) \<and> events_at h1 p1 as1 es' \<and>
     (\<forall>a. a \<notin> set (e # as) \<longrightarrow> h1 a = h a) \<and>
     (\<exists>h2 p2. dequeue_node h1 p1 = Some (hd es', h2, p2) \<and> events_at h2 p2 (tl as1) (tl es'))"
proof -
  have es': "es' = insert_walk abstime es v" using insert_walk_stable [OF assms(2)] assms(4) by simp
  from enqueue_node_refines [OF assms(1,3), of v] obtain h1 p1 as1 where
    h1: "enqueue_node h p e v = Some (h1, p1)" "events_at h1 p1 as1 es'" "\<forall>a. a \<notin> set (e # as) \<longrightarrow> h1 a = h a"
    unfolding es' by blast
  moreover have "es' = hd es' # tl es'" using assms(4) by simp
  ultimately show ?thesis using dequeue_node_refines [of h1 p1 as1 "hd es'" "tl es'"] by metis
qed

abbreviation due :: "int \<Rightarrow> unit event" where
  "due t \<equiv> \<lparr>eventCallback = PollSIMState, param = None, abstime = Timespec t 0\<rparr>"

text \<open>The first node has a back pointer to a node that was freed.\<close>

abbreviation sample_store :: "unit store" where
  "sample_store \<equiv> Map.empty(1 \<mapsto> \<lparr>ev = due 3, next_ptr = Some 2, prev_ptr = Some 9\<rparr>,
     2 \<mapsto> \<lparr>ev = due 8, next_ptr = None, prev_ptr = Some 1\<rparr>)"

lemma event_list_refined_witness:
  "\<exists>h1 p1 as1. enqueue_node sample_store (Some 1) 5 (due 3) = Some (h1, p1) \<and>
     events_at h1 p1 as1 [due 3, due 3, due 8] \<and>
     (\<forall>a. a \<notin> set (5 # [1, 2]) \<longrightarrow> h1 a = sample_store a) \<and>
     (\<exists>h2 p2. dequeue_node h1 p1 = Some (hd [due 3, due 3, due 8], h2, p2) \<and>
        events_at h2 p2 (tl as1) (tl [due 3, due 3, due 8]))"
  by (rule event_list_refined [where es = "[due 3, due 8]"])
    (simp_all add: events_at_def event_of_def less_eq_timespec_def less_timespec_def timespec_cmp_def)

text \<open>An event is due exactly its delay after the time it was enqueued.  The nanoseconds of that
  time are at most 10^9; they are exactly 10^9, which pthread_cond_timedwait does not accept, when
  the nanoseconds of the two times add up to a full second.\<close>

theorem event_time_carry:
  assumes "valid_timespec now" "\<forall>t. r = Some t \<longrightarrow> valid_timespec t"
  shows "nanos (abs_time now r) = nanos now + (case r of None \<Rightarrow> 0 | Some t \<Rightarrow> nanos t) \<and>
    tv_nsec (abs_time now r) \<le> 1000000000 \<and>
    (\<not> valid_timespec (abs_time now r) \<longleftrightarrow>
      tv_nsec now + (case r of None \<Rightarrow> 0 | Some t \<Rightarrow> tv_nsec t) = 1000000000)"
  using assms nanos_abs_time [of now r]
  by (auto simp: abs_time_def valid_timespec_def Let_def split: option.splits)

lemma event_time_carry_witness:
  "nanos (abs_time (Timespec 5 600000000) (Some (Timespec 1 400000000))) =
      nanos (Timespec 5 600000000) + (case Some (Timespec 1 400000000) of None \<Rightarrow> 0 | Some t \<Rightarrow> nanos t) \<and>
    tv_nsec (abs_time (Timespec 5 600000000) (Some (Timespec 1 400000000))) \<le> 1000000000 \<and>
    (\<not> valid_timespec (abs_time (Timespec 5 600000000) (Some (Timespec 1 400000000))) \<longleftrightarrow>
      tv_nsec (Timespec 5 600000000) +
        (case Some (Timespec 1 400000000) of None \<Rightarrow> 0 | Some t \<Rightarrow> tv_nsec t) = 1000000000)"
  by (rule event_time_carry) (simp_all add: valid_timespec_def)

end
