(* ===== verification/Ril_Runner.thy ===== *)
theory Ril_Runner
  imports Ril_Queue
begin

text \<open>
  The thread \<open>queueRunner\<close> of \<open>huaweigeneric-ril.c\<close> against the threads that fill its queue, as
  a step relation.  A step is what a thread does while it holds the mutex, or one call it makes
  without it; the condition variable is a flag that says whether a blocked runner was woken.
  The state also records what was submitted and what was served, for the statements.
\<close>

section \<open>The states\<close>

datatype ('d, 'p) pc =
    RTop
  | RWait bool
  | RTimed timespec bool
  | RRun "'p event option" "'d request option"
  | RRecover

record ('d, 'p) system =
  queue :: "('d, 'p) queue"
  pc :: "('d, 'p) pc"
  now :: timespec
  submitted :: "'d request list"
  processed :: "'d request list"
  enqueued :: "'p event list"
  ran :: "('p event \<times> timespec) list"

definition s_requestQueue :: "('d, 'p) queue" where
  "s_requestQueue = \<lparr>requestList = [], eventList = [], closed = True\<rparr>"

definition init_system :: "timespec \<Rightarrow> ('d, 'p) system" where
  "init_system t = \<lparr>queue = s_requestQueue, pc = RRecover, now = t, submitted = [], processed = [],
     enqueued = [], ran = []\<rparr>"

section \<open>The runner\<close>

text \<open>One turn of the inner loop of \<open>queueRunner\<close>, from each of the places where it can block.\<close>

definition runner_take :: "timespec \<Rightarrow> ('d, 'p) queue \<Rightarrow> ('d, 'p) pc \<times> ('d, 'p) queue" where
  "runner_take ts q =
    (case take_event ts q of (e, q1) \<Rightarrow> case take_request q1 of (r, q2) \<Rightarrow> (RRun e r, q2))"

definition after_timedwait :: "timespec \<Rightarrow> ('d, 'p) queue \<Rightarrow> ('d, 'p) pc \<times> ('d, 'p) queue" where
  "after_timedwait ts q = (if closed q then (RTop, q) else runner_take ts q)"

definition after_wait :: "timespec \<Rightarrow> ('d, 'p) queue \<Rightarrow> ('d, 'p) pc \<times> ('d, 'p) queue" where
  "after_wait ts q =
    (if \<not> closed q \<and> requestList q = [] \<and> eventList q \<noteq> []
     then (RTimed (abstime (hd (eventList q))) False, q) else after_timedwait ts q)"

definition wait_loop :: "timespec \<Rightarrow> ('d, 'p) queue \<Rightarrow> ('d, 'p) pc \<times> ('d, 'p) queue" where
  "wait_loop ts q =
    (if \<not> closed q \<and> requestList q = [] \<and> eventList q = [] then (RWait False, q) else after_wait ts q)"

definition runner_enter :: "timespec \<Rightarrow> ('d, 'p) queue \<Rightarrow> ('d, 'p) pc \<times> ('d, 'p) queue" where
  "runner_enter ts q = (if closed q then (RRecover, q) else wait_loop ts q)"

text \<open>
  A blocked runner goes on when it was woken, and a timed wait also when its time has come or
  is not a time \<open>pthread_cond_timedwait\<close> accepts.
\<close>

definition runnable :: "('d, 'p) system \<Rightarrow> bool" where
  "runnable s =
    (case pc s of
       RWait w \<Rightarrow> w
     | RTimed d w \<Rightarrow> w \<or> d \<le> now s \<or> \<not> valid_timespec d
     | RRecover \<Rightarrow> False
     | _ \<Rightarrow> True)"

definition runner_at :: "(timespec \<Rightarrow> ('d, 'p) queue \<Rightarrow> ('d, 'p) pc \<times> ('d, 'p) queue) \<Rightarrow>
    ('d, 'p) system \<Rightarrow> ('d, 'p) system" where
  "runner_at f s = (case f (now s) (queue s) of (p, q) \<Rightarrow> s\<lparr>pc := p, queue := q\<rparr>)"

definition runner_step :: "('d, 'p) system \<Rightarrow> ('d, 'p) system" where
  "runner_step s =
    (case pc s of
       RTop \<Rightarrow> runner_at runner_enter s
     | RWait w \<Rightarrow> runner_at wait_loop s
     | RTimed d w \<Rightarrow> runner_at after_timedwait s
     | RRun (Some e) r \<Rightarrow> s\<lparr>pc := RRun None r, ran := ran s @ [(e, now s)]\<rparr>
     | RRun None (Some r) \<Rightarrow> s\<lparr>pc := RTop, processed := processed s @ [r]\<rparr>
     | RRun None None \<Rightarrow> s\<lparr>pc := RTop\<rparr>
     | RRecover \<Rightarrow> s)"

section \<open>The other threads\<close>

fun wake :: "('d, 'p) pc \<Rightarrow> ('d, 'p) pc" where
  "wake (RWait w) = RWait True"
| "wake (RTimed d w) = RTimed d True"
| "wake p = p"

inductive sys_step :: "(int \<Rightarrow> 'd \<Rightarrow> nat \<Rightarrow> 'd) \<Rightarrow> ('d, 'p) system \<Rightarrow> ('d, 'p) system \<Rightarrow> bool"
  for dup :: "int \<Rightarrow> 'd \<Rightarrow> nat \<Rightarrow> 'd" where
  tick: "now s \<le> t \<Longrightarrow> sys_step dup s (s\<lparr>now := t\<rparr>)"
| submit: "q = onRequest dup req dat len t (queue s) \<Longrightarrow>
    sys_step dup s (s\<lparr>queue := q, pc := wake (pc s), submitted := submitted s @ [last (requestList q)]\<rparr>)"
| enqueue: "sys_step dup s (s\<lparr>queue := enqueueRILEvent cb p rel (now s) (queue s), pc := wake (pc s),
      enqueued := enqueued s @ [\<lparr>eventCallback = cb, param = p, abstime = abs_time (now s) rel\<rparr>]\<rparr>)"
| close: "sys_step dup s (s\<lparr>queue := signalCloseQueues (queue s), pc := wake (pc s)\<rparr>)"
| spurious: "sys_step dup s (s\<lparr>pc := wake (pc s)\<rparr>)"
| runner: "runnable s \<Longrightarrow> sys_step dup s (runner_step s)"
| reopen_failed: "pc s = RRecover \<Longrightarrow> sys_step dup s (s\<lparr>queue := (queue s)\<lparr>closed := False\<rparr>\<rparr>)"
| reopened: "pc s = RRecover \<Longrightarrow> sys_step dup s (s\<lparr>queue := (queue s)\<lparr>closed := False\<rparr>, pc := RTop\<rparr>)"

definition reachable :: "(int \<Rightarrow> 'd \<Rightarrow> nat \<Rightarrow> 'd) \<Rightarrow> ('d, 'p) system \<Rightarrow> bool" where
  "reachable dup s \<longleftrightarrow> (\<exists>t. (sys_step dup)\<^sup>*\<^sup>* (init_system t) s)"

lemma reachable_init: "reachable dup (init_system t)"
  by (auto simp: reachable_def)

lemma reachable_step: "reachable dup s \<Longrightarrow> sys_step dup s s' \<Longrightarrow> reachable dup s'"
  unfolding reachable_def by (meson rtranclp.rtrancl_into_rtrancl)

lemma reachable_induct [consumes 1, case_names init step]:
  assumes "reachable dup s"
    and "\<And>t. P (init_system t)"
    and "\<And>s s'. reachable dup s \<Longrightarrow> P s \<Longrightarrow> sys_step dup s s' \<Longrightarrow> P s'"
  shows "P s"
proof -
  from assms(1) obtain t where "(sys_step dup)\<^sup>*\<^sup>* (init_system t) s" by (auto simp: reachable_def)
  then have "reachable dup s \<and> P s"
  proof (induction rule: rtranclp_induct)
    case base show ?case using assms(2) by (simp add: reachable_init)
  next
    case (step y z) then show ?case using assms(3) reachable_step by blast
  qed
  then show ?thesis by simp
qed

section \<open>The invariant\<close>

fun event_in_hand :: "('d, 'p) pc \<Rightarrow> 'p event list" where
  "event_in_hand (RRun (Some e) r) = [e]"
| "event_in_hand p = []"

fun request_in_hand :: "('d, 'p) pc \<Rightarrow> 'd request list" where
  "request_in_hand (RRun e (Some r)) = [r]"
| "request_in_hand p = []"

definition at_time :: "timespec \<Rightarrow> 'p event list \<Rightarrow> 'p event list" where
  "at_time t es = filter (\<lambda>e. abstime e = t) es"

definition requests_ok :: "('d, 'p) system \<Rightarrow> bool" where
  "requests_ok s \<longleftrightarrow> submitted s = processed s @ request_in_hand (pc s) @ requestList (queue s)"

definition events_ok :: "('d, 'p) system \<Rightarrow> bool" where
  "events_ok s \<longleftrightarrow> sorted (map abstime (eventList (queue s))) \<and>
     (\<forall>t. at_time t (enqueued s) =
        at_time t (map fst (ran s)) @ at_time t (event_in_hand (pc s)) @ at_time t (eventList (queue s)))"

definition on_time :: "('d, 'p) system \<Rightarrow> bool" where
  "on_time s \<longleftrightarrow> (\<forall>(e, t) \<in> set (ran s). abstime e < t) \<and> (\<forall>e \<in> set (event_in_hand (pc s)). abstime e < now s)"

text \<open>A runner that blocks and was not woken has nothing to do, or waits for the event that is due first.\<close>

fun wait_ok :: "('d, 'p) pc \<Rightarrow> ('d, 'p) queue \<Rightarrow> bool" where
  "wait_ok (RWait False) q \<longleftrightarrow> \<not> closed q \<and> requestList q = [] \<and> eventList q = []"
| "wait_ok (RTimed d False) q \<longleftrightarrow> \<not> closed q \<and> requestList q = [] \<and>
     (\<exists>e es. eventList q = e # es \<and> d = abstime e)"
| "wait_ok p q = True"

definition waits_ok :: "('d, 'p) system \<Rightarrow> bool" where
  "waits_ok s = wait_ok (pc s) (queue s)"

lemmas runner_defs = runner_take_def after_timedwait_def after_wait_def wait_loop_def runner_enter_def
  runner_at_def take_event_def take_request_def

lemma wake_in_hand [simp]:
  "event_in_hand (wake p) = event_in_hand p" "request_in_hand (wake p) = request_in_hand p"
  by (cases p; simp)+

lemma wake_waits [simp]: "wait_ok (wake p) q"
  by (cases p) auto

lemma at_time_simps [simp]:
  "at_time t [] = []" "at_time t (xs @ ys) = at_time t xs @ at_time t ys"
  "at_time t (e # es) = (if abstime e = t then e # at_time t es else at_time t es)"
  by (simp_all add: at_time_def)

lemma at_time_insert:
  assumes "sorted (map abstime es)"
  shows "at_time t (insert_walk abstime es e) = at_time t es @ at_time t [e]"
  using assms
proof (induction es)
  case Nil then show ?case by simp
next
  case (Cons x xs)
  show ?case
  proof (cases "abstime e < abstime x")
    case True
    with Cons have "\<forall>y \<in> set (x # xs). abstime e < abstime y" by auto
    then have "abstime e = t \<Longrightarrow> at_time t (x # xs) = []" by (auto simp: at_time_def filter_empty_conv)
    with True show ?thesis by auto
  next
    case False with Cons show ?thesis by auto
  qed
qed

text \<open>What a turn of the loop does to the queue and to what is in hand.\<close>

definition turn_ok :: "timespec \<Rightarrow> ('d, 'p) queue \<Rightarrow> ('d, 'p) pc \<times> ('d, 'p) queue \<Rightarrow> bool" where
  "turn_ok ts q r = (case r of (p, q') \<Rightarrow>
     requestList q = request_in_hand p @ requestList q' \<and>
     eventList q = event_in_hand p @ eventList q' \<and> closed q' = closed q \<and>
     (\<forall>e \<in> set (event_in_hand p). abstime e < ts) \<and>
     wait_ok p q')"

lemma runner_take_ok: "turn_ok ts q (runner_take ts q)"
  by (auto simp: turn_ok_def runner_take_def take_event_def take_request_def split: list.splits)

lemma after_timedwait_ok: "turn_ok ts q (after_timedwait ts q)"
  using runner_take_ok [of ts q] by (auto simp: after_timedwait_def turn_ok_def [of ts q "(RTop, q)"])

lemma after_wait_ok: "turn_ok ts q (after_wait ts q)"
  using after_timedwait_ok [of ts q]
  by (auto simp: after_wait_def turn_ok_def [of ts q "(RTimed d w, q)" for d w] neq_Nil_conv split: if_splits)

lemma wait_loop_ok: "turn_ok ts q (wait_loop ts q)"
  using after_wait_ok [of ts q] by (auto simp: wait_loop_def turn_ok_def [of ts q "(RWait w, q)" for w])

lemma runner_enter_ok: "turn_ok ts q (runner_enter ts q)"
  using wait_loop_ok [of ts q] by (auto simp: runner_enter_def turn_ok_def [of ts q "(RRecover, q)"])

lemma runner_at_ok:
  assumes "\<And>ts q. turn_ok ts q (f ts q)" "request_in_hand (pc s) = []" "event_in_hand (pc s) = []"
    and "requests_ok s \<and> events_ok s \<and> on_time s"
  shows "requests_ok (runner_at f s) \<and> events_ok (runner_at f s) \<and> on_time (runner_at f s) \<and> waits_ok (runner_at f s)"
proof -
  obtain p q where pq: "f (now s) (queue s) = (p, q)" by (cases "f (now s) (queue s)")
  have r: "runner_at f s = s\<lparr>pc := p, queue := q\<rparr>" by (simp add: runner_at_def pq)
  from assms(1) [of "now s" "queue s"] pq
  have t: "requestList (queue s) = request_in_hand p @ requestList q"
      "eventList (queue s) = event_in_hand p @ eventList q"
      "\<forall>e \<in> set (event_in_hand p). abstime e < now s"
      "waits_ok (s\<lparr>pc := p, queue := q\<rparr>)"
    by (auto simp: turn_ok_def waits_ok_def)
  have "requests_ok (s\<lparr>pc := p, queue := q\<rparr>)" using assms t by (simp add: requests_ok_def)
  moreover have "events_ok (s\<lparr>pc := p, queue := q\<rparr>)"
    using assms t by (auto simp: events_ok_def sorted_append)
  moreover have "on_time (s\<lparr>pc := p, queue := q\<rparr>)" using assms t by (auto simp: on_time_def)
  ultimately show ?thesis using t r by simp
qed

lemma runner_step_ok:
  assumes "requests_ok s \<and> events_ok s \<and> on_time s \<and> waits_ok s"
  shows "requests_ok (runner_step s) \<and> events_ok (runner_step s) \<and> on_time (runner_step s) \<and> waits_ok (runner_step s)"
proof (cases "pc s")
  case RTop
  then show ?thesis using runner_at_ok [OF runner_enter_ok, of s] assms
    by (simp add: runner_step_def)
next
  case (RWait w)
  then show ?thesis using runner_at_ok [OF wait_loop_ok, of s] assms
    by (simp add: runner_step_def)
next
  case (RTimed d w)
  then show ?thesis using runner_at_ok [OF after_timedwait_ok, of s] assms
    by (simp add: runner_step_def)
next
  case (RRun e r)
  then show ?thesis using assms
    by (cases e; cases r)
      (auto simp: runner_step_def requests_ok_def events_ok_def on_time_def waits_ok_def)
next
  case RRecover then show ?thesis using assms by (simp add: runner_step_def)
qed

lemma on_time_mono: "on_time s \<Longrightarrow> now s \<le> t \<Longrightarrow> on_time (s\<lparr>now := t\<rparr>)"
  by (fastforce simp: on_time_def)

lemma step_ok:
  assumes "sys_step dup s s'" "requests_ok s \<and> events_ok s \<and> on_time s \<and> waits_ok s"
  shows "requests_ok s' \<and> events_ok s' \<and> on_time s' \<and> waits_ok s'"
  using assms
proof (induction rule: sys_step.induct)
  case (tick s t)
  then show ?case using on_time_mono [of s t]
    by (auto simp: requests_ok_def events_ok_def waits_ok_def split: pc.splits bool.splits)
next
  case (submit q req dat len t s)
  then show ?case
    by (auto simp: requests_ok_def events_ok_def on_time_def waits_ok_def wake_waits onRequest_def)
next
  case (enqueue s cb p rel)
  then show ?case
    by (auto simp: requests_ok_def events_ok_def on_time_def waits_ok_def wake_waits enqueueRILEvent_def
        insert_walk_sorted at_time_insert)
next
  case (close s)
  then show ?case
    by (auto simp: requests_ok_def events_ok_def on_time_def waits_ok_def wake_waits signalCloseQueues_def)
next
  case (spurious s)
  then show ?case by (auto simp: requests_ok_def events_ok_def on_time_def waits_ok_def wake_waits)
next
  case (runner s) then show ?case using runner_step_ok by blast
next
  case (reopen_failed s)
  then show ?case by (auto simp: requests_ok_def events_ok_def on_time_def waits_ok_def)
next
  case (reopened s)
  then show ?case by (auto simp: requests_ok_def events_ok_def on_time_def waits_ok_def)
qed

lemma reachable_ok: "reachable dup s \<Longrightarrow> requests_ok s \<and> events_ok s \<and> on_time s \<and> waits_ok s"
proof (induction rule: reachable_induct)
  case (init t)
  then show ?case
    by (simp add: init_system_def s_requestQueue_def requests_ok_def events_ok_def on_time_def waits_ok_def)
next
  case (step s s') then show ?case using step_ok by blast
qed

section \<open>The runner gets on\<close>

text \<open>\<open>k\<close> steps of the runner alone; \<open>None\<close> when it blocks before.\<close>

fun run_on :: "nat \<Rightarrow> ('d, 'p) system \<Rightarrow> ('d, 'p) system option" where
  "run_on 0 s = Some s"
| "run_on (Suc k) s = (if runnable s then run_on k (runner_step s) else None)"

lemma run_on_add: "run_on a s = Some s1 \<Longrightarrow> run_on (a + b) s = run_on b s1"
  by (induction a arbitrary: s) (auto split: if_splits)

text \<open>From a turn's beginning: what is at the head of the lists is in hand after one step.\<close>

definition turn_takes :: "('d, 'p) system \<Rightarrow> ('d, 'p) system \<Rightarrow> bool" where
  "turn_takes s s1 \<longleftrightarrow> processed s1 = processed s \<and> ran s1 = ran s \<and> now s1 = now s \<and>
     (\<exists>eo ro. pc s1 = RRun eo ro \<and>
       (\<forall>r rs. requestList (queue s) = r # rs \<longrightarrow> ro = Some r) \<and>
       (\<forall>e es. eventList (queue s) = e # es \<longrightarrow> abstime e < now s \<longrightarrow> eo = Some e))"

definition has_work :: "('d, 'p) system \<Rightarrow> bool" where
  "has_work s \<longleftrightarrow> requestList (queue s) \<noteq> [] \<or>
     (\<exists>e es. eventList (queue s) = e # es \<and> abstime e < now s)"

lemma take_takes: "turn_takes s (runner_at runner_take s)"
  by (auto simp: turn_takes_def runner_defs split: list.splits)

lemma timed_takes:
  assumes "\<not> closed (queue s)"
  shows "turn_takes s (runner_at after_timedwait s)"
  using assms take_takes [of s] by (simp add: after_timedwait_def runner_at_def)

lemma enter_takes:
  assumes "\<not> closed (queue s)" "requestList (queue s) \<noteq> []"
  shows "turn_takes s (runner_at runner_enter s)" "turn_takes s (runner_at wait_loop s)"
  using assms take_takes [of s]
  by (simp_all add: after_timedwait_def after_wait_def wait_loop_def runner_enter_def runner_at_def)

lemma enter_waits:
  assumes "\<not> closed (queue s)" "requestList (queue s) = []" "eventList (queue s) = e # es"
  shows "runner_at runner_enter s = s\<lparr>pc := RTimed (abstime e) False\<rparr>"
    "runner_at wait_loop s = s\<lparr>pc := RTimed (abstime e) False\<rparr>"
  using assms by (simp_all add: runner_enter_def wait_loop_def after_wait_def runner_at_def)

text \<open>From where the runner is between two turns, the next turn is at most two steps away.\<close>

lemma due_timed:
  assumes "\<not> closed (queue s)" "pc s = RTimed d w" "d \<le> now s \<or> w"
  shows "\<exists>s1. run_on 1 s = Some s1 \<and> turn_takes s s1"
  using assms timed_takes [of s] by (auto simp: runnable_def runner_step_def)

lemma turn_cong:
  "turn_takes (s\<lparr>pc := p\<rparr>) s1 = turn_takes s s1"
  by (simp add: turn_takes_def)

lemma turn_comes:
  assumes "waits_ok s" "has_work s" "\<not> closed (queue s)"
    and "pc s = RTop \<or> (\<exists>w. pc s = RWait w) \<or> (\<exists>d w. pc s = RTimed d w)"
  shows "\<exists>k \<le> 2. \<exists>s1. run_on k s = Some s1 \<and> turn_takes s s1"
proof (cases "\<exists>d w. pc s = RTimed d w")
  case True
  then obtain d w where p: "pc s = RTimed d w" by blast
  with assms have "d \<le> now s \<or> w" by (cases w) (auto simp: waits_ok_def has_work_def)
  with due_timed p assms(3) show ?thesis by (metis one_le_numeral)
next
  case False
  then have p: "pc s = RTop \<or> pc s = RWait True" using assms(1,2,4)
    by (auto simp: waits_ok_def has_work_def)
  then have step: "run_on 1 s = Some (runner_at runner_enter s) \<or> run_on 1 s = Some (runner_at wait_loop s)"
    by (auto simp: runnable_def runner_step_def)
  show ?thesis
  proof (cases "requestList (queue s) = []")
    case False
    then have "\<exists>s1. run_on 1 s = Some s1 \<and> turn_takes s s1"
      using step enter_takes assms(3) by metis
    then show ?thesis by (metis one_le_numeral)
  next
    case True
    with assms(2) obtain e es where e: "eventList (queue s) = e # es" "abstime e < now s"
      by (auto simp: has_work_def)
    let ?s1 = "s\<lparr>pc := RTimed (abstime e) False\<rparr>"
    from step enter_waits [OF assms(3) True e(1)] have s1: "run_on 1 s = Some ?s1" by auto
    have "\<exists>s2. run_on 1 ?s1 = Some s2 \<and> turn_takes ?s1 s2"
      by (rule due_timed [of _ "abstime e" False]) (use assms(3) e in auto)
    then obtain s2 where "run_on 1 ?s1 = Some s2" "turn_takes s s2"
      unfolding turn_cong by blast
    with run_on_add [OF s1, of 1] have "run_on 2 s = Some s2 \<and> turn_takes s s2" by (simp add: numeral_2_eq_2)
    then show ?thesis by blast
  qed
qed

text \<open>What is in hand is served in at most two steps.\<close>

lemma in_hand_served:
  assumes "pc s = RRun eo ro"
  shows "\<exists>k \<le> 2. \<exists>s1. run_on k s = Some s1 \<and> pc s1 = RTop \<and> queue s1 = queue s \<and> now s1 = now s \<and>
    processed s1 = processed s @ request_in_hand (pc s) \<and>
    ran s1 = ran s @ map (\<lambda>e. (e, now s)) (event_in_hand (pc s))"
proof -
  let ?k = "if eo = None then 1 else 2 :: nat"
  have "?k \<le> 2" by (cases eo) auto
  moreover have "\<exists>s1. run_on ?k s = Some s1 \<and> pc s1 = RTop \<and> queue s1 = queue s \<and> now s1 = now s \<and>
    processed s1 = processed s @ request_in_hand (pc s) \<and>
    ran s1 = ran s @ map (\<lambda>e. (e, now s)) (event_in_hand (pc s))"
    using assms by (cases eo; cases ro) (auto simp: runnable_def runner_step_def numeral_2_eq_2)
  ultimately show ?thesis by blast
qed

lemma runner_serves:
  assumes "waits_ok s" "has_work s" "\<not> closed (queue s)" "pc s \<noteq> RRecover"
  shows "\<exists>k \<le> 6. \<exists>s'. run_on k s = Some s' \<and>
    (\<forall>r rs. requestList (queue s) = r # rs \<longrightarrow> processed s' = processed s @ request_in_hand (pc s) @ [r]) \<and>
    (\<forall>e es. eventList (queue s) = e # es \<longrightarrow> abstime e < now s \<longrightarrow>
       ran s' = ran s @ map (\<lambda>e. (e, now s)) (event_in_hand (pc s) @ [e]))"
proof -
  have "\<exists>k \<le> 2. \<exists>s1. run_on k s = Some s1 \<and> queue s1 = queue s \<and> now s1 = now s \<and> waits_ok s1 \<and>
      (pc s1 = RTop \<or> (\<exists>w. pc s1 = RWait w) \<or> (\<exists>d w. pc s1 = RTimed d w)) \<and>
      processed s1 = processed s @ request_in_hand (pc s) \<and>
      ran s1 = ran s @ map (\<lambda>e. (e, now s)) (event_in_hand (pc s))"
  proof (cases "\<exists>eo ro. pc s = RRun eo ro")
    case True
    then obtain eo ro where p: "pc s = RRun eo ro" by blast
    from in_hand_served [OF p] obtain k s1 where s1: "k \<le> 2" "run_on k s = Some s1" "pc s1 = RTop"
      "queue s1 = queue s" "now s1 = now s"
      "processed s1 = processed s @ request_in_hand (pc s)"
      "ran s1 = ran s @ map (\<lambda>e. (e, now s)) (event_in_hand (pc s))" by blast
    then have "waits_ok s1" by (simp add: waits_ok_def)
    with s1 show ?thesis by blast
  next
    case False
    then have "event_in_hand (pc s) = []" "request_in_hand (pc s) = []"
      "pc s = RTop \<or> (\<exists>w. pc s = RWait w) \<or> (\<exists>d w. pc s = RTimed d w)"
      using assms(4) by (cases "pc s"; auto)+
    with assms(1) show ?thesis by (intro exI [of _ 0]) simp
  qed
  then obtain k1 s1 where k1: "k1 \<le> 2" "run_on k1 s = Some s1" "queue s1 = queue s" "now s1 = now s"
    "waits_ok s1" "pc s1 = RTop \<or> (\<exists>w. pc s1 = RWait w) \<or> (\<exists>d w. pc s1 = RTimed d w)"
    "processed s1 = processed s @ request_in_hand (pc s)"
    "ran s1 = ran s @ map (\<lambda>e. (e, now s)) (event_in_hand (pc s))" by blast
  then have "has_work s1" using assms(2) by (simp add: has_work_def)
  with turn_comes [OF k1(5)] k1 assms(3) obtain k2 s2 where k2: "k2 \<le> 2" "run_on k2 s1 = Some s2" "turn_takes s1 s2"
    by metis
  then obtain eo ro where p2: "pc s2 = RRun eo ro" by (auto simp: turn_takes_def)
  from in_hand_served [OF p2] obtain k3 s3 where k3: "k3 \<le> 2" "run_on k3 s2 = Some s3"
      "processed s3 = processed s2 @ request_in_hand (pc s2)"
      "ran s3 = ran s2 @ map (\<lambda>e. (e, now s2)) (event_in_hand (pc s2))" by blast
  have "run_on (k1 + (k2 + k3)) s = Some s3"
    using run_on_add [OF k1(2)] run_on_add [OF k2(2)] k3(2) by metis
  moreover have "k1 + (k2 + k3) \<le> 6" using k1 k2 k3 by simp
  moreover have "\<forall>r rs. requestList (queue s) = r # rs \<longrightarrow>
      processed s3 = processed s @ request_in_hand (pc s) @ [r]"
    using k2(3) k1 k3 p2 by (auto simp: turn_takes_def)
  moreover have "\<forall>e es. eventList (queue s) = e # es \<longrightarrow> abstime e < now s \<longrightarrow>
       ran s3 = ran s @ map (\<lambda>e. (e, now s)) (event_in_hand (pc s) @ [e])"
    using k2(3) k1 k3 p2 by (auto simp: turn_takes_def)
  ultimately show ?thesis by blast
qed

section \<open>The properties\<close>

text \<open>C5: in every state the system can reach, with any interleaving of the threads, the requests
  are those submitted, in the order submitted: first the ones processed, then the one the
  runner has in hand, then the queue.  None is lost, repeated or overtaken, also over a
  closed and reopened channel.\<close>

theorem requests_served_in_order:
  assumes "reachable dup s"
  shows "submitted s = processed s @ request_in_hand (pc s) @ requestList (queue s)"
  using reachable_ok [OF assms] by (simp add: requests_ok_def)

abbreviation no_dup :: "int \<Rightarrow> unit \<Rightarrow> nat \<Rightarrow> unit" where
  "no_dup \<equiv> \<lambda>r d n. d"

abbreviation sample_state :: "(unit, unit) system" where
  "sample_state \<equiv> (let s0 = init_system (Timespec 5 0);
     q1 = onRequest no_dup 10 () 0 1 (queue s0);
     s1 = s0\<lparr>queue := q1, pc := wake (pc s0), submitted := submitted s0 @ [last (requestList q1)]\<rparr>;
     s2 = s1\<lparr>queue := enqueueRILEvent PollSIMState None (Some (Timespec 1 0)) (now s1) (queue s1), pc := wake (pc s1),
       enqueued := enqueued s1 @ [\<lparr>eventCallback = PollSIMState, param = None,
         abstime = abs_time (now s1) (Some (Timespec 1 0))\<rparr>]\<rparr>;
     s3 = s2\<lparr>queue := (queue s2)\<lparr>closed := False\<rparr>, pc := RTop\<rparr>
     in s3\<lparr>now := Timespec 7 0\<rparr>)"

lemma sample_reachable: "reachable no_dup sample_state"
proof -
  have top: "pc (s\<lparr>queue := q, pc := wake (pc s), submitted := l\<rparr>) = wake (pc s)" for s :: "(unit, unit) system" and q l
    by simp
  show ?thesis unfolding Let_def
    apply (rule reachable_step [rotated], rule sys_step.tick)
     apply (simp add: init_system_def less_eq_timespec_def timespec_cmp_def)
    apply (rule reachable_step [rotated], rule sys_step.reopened)
     apply (simp add: init_system_def)
    apply (rule reachable_step [rotated], rule sys_step.enqueue)
    apply (rule reachable_step [rotated], rule sys_step.submit, rule refl)
    apply (rule reachable_init)
    done
qed

lemma requests_served_in_order_witness:
  "submitted sample_state = processed sample_state @ request_in_hand (pc sample_state) @
    requestList (queue sample_state)"
  by (rule requests_served_in_order [OF sample_reachable])

text \<open>C9: in every reachable state the list of events is sorted by the time they are due, no event
  was or is about to be run before it was due, and the events due at the same time run in the
  order in which they were enqueued, each once.\<close>

theorem events_run_when_due:
  assumes "reachable dup s"
  shows "sorted (map abstime (eventList (queue s))) \<and>
    list_all (\<lambda>(e, t). abstime e < t) (ran s) \<and>
    list_all (\<lambda>e. abstime e < now s) (event_in_hand (pc s)) \<and>
    (\<forall>t. at_time t (enqueued s) =
       at_time t (map fst (ran s)) @ at_time t (event_in_hand (pc s)) @ at_time t (eventList (queue s)))"
  using reachable_ok [OF assms] by (simp add: events_ok_def on_time_def list_all_iff)

lemma events_run_when_due_witness:
  "sorted (map abstime (eventList (queue sample_state))) \<and>
    list_all (\<lambda>(e, t). abstime e < t) (ran sample_state) \<and>
    list_all (\<lambda>e. abstime e < now sample_state) (event_in_hand (pc sample_state)) \<and>
    (\<forall>t. at_time t (enqueued sample_state) = at_time t (map fst (ran sample_state)) @
       at_time t (event_in_hand (pc sample_state)) @ at_time t (eventList (queue sample_state)))"
  by (rule events_run_when_due [OF sample_reachable])

text \<open>C6: no wake-up is lost.  While the channel is open, a runner that has a request or a due event
  to serve is not blocked: within six of its own steps it has processed the first request of the
  queue and has run the first event if that is due, after what it had in hand.\<close>

theorem runner_progress:
  assumes "reachable dup s" "\<not> closed (queue s)" "pc s \<noteq> RRecover" "has_work s"
  shows "\<exists>k \<le> 6. \<exists>s'. run_on k s = Some s' \<and>
    (\<forall>r rs. requestList (queue s) = r # rs \<longrightarrow> processed s' = processed s @ request_in_hand (pc s) @ [r]) \<and>
    (\<forall>e es. eventList (queue s) = e # es \<longrightarrow> abstime e < now s \<longrightarrow>
       ran s' = ran s @ map (\<lambda>e. (e, now s)) (event_in_hand (pc s) @ [e]))"
  using reachable_ok [OF assms(1)] assms by (intro runner_serves) auto

lemma runner_progress_witness:
  "\<exists>k \<le> 6. \<exists>s'. run_on k sample_state = Some s' \<and>
    (\<forall>r rs. requestList (queue sample_state) = r # rs \<longrightarrow>
       processed s' = processed sample_state @ request_in_hand (pc sample_state) @ [r]) \<and>
    (\<forall>e es. eventList (queue sample_state) = e # es \<longrightarrow> abstime e < now sample_state \<longrightarrow>
       ran s' = ran sample_state @ map (\<lambda>e. (e, now sample_state)) (event_in_hand (pc sample_state) @ [e]))"
  by (rule runner_progress [OF sample_reachable])
    (simp_all add: Let_def init_system_def s_requestQueue_def onRequest_def enqueueRILEvent_def has_work_def)

end
