(* ===== verification/At_Reader.thy ===== *)
theory At_Reader
  imports Prelude
begin

text \<open>
  The line reader of \<open>atchannel.c\<close>: \<open>findNextEOL\<close> and \<open>readline\<close>, on the bytes of the buffer
  \<open>ATBuffer\<close> with every access checked.  What \<open>poll\<close> and \<open>read\<close> report is a list of events.
\<close>

section \<open>The buffer and the scans over it\<close>

definition MAX_AT_RESPONSE :: nat where "MAX_AT_RESPONSE = 8 * 1024"

abbreviation NUL :: char where "NUL \<equiv> CHR 0x00"
abbreviation CR :: char where "CR \<equiv> CHR 0x0D"
abbreviation LF :: char where "LF \<equiv> CHR 0x0A"

definition eol :: "char \<Rightarrow> bool" where "eol c \<longleftrightarrow> c = CR \<or> c = LF"

lemma eol_NUL [simp]: "\<not> eol NUL"
  by (simp add: eol_def)

record rbuf =
  ATBuffer :: "char list"
  ATBufferCur :: nat

text \<open>\<open>while (*ATBufferCur == '\r' || *ATBufferCur == '\n') ATBufferCur++\<close>\<close>

function skip_eols :: "char list \<Rightarrow> nat \<Rightarrow> nat option" where
  "skip_eols buf i = do { c \<leftarrow> rd buf i; if eol c then skip_eols buf (Suc i) else Some i }"
  by pat_completeness auto
termination
  by (relation "measure (\<lambda>(buf, i). length buf - i)") (auto dest: rd_SomeD)

function find_eol :: "char list \<Rightarrow> nat \<Rightarrow> nat option option" where
  "find_eol buf i = do {
     c \<leftarrow> rd buf i;
     if c = NUL then Some None
     else if eol c then Some (Some i)
     else find_eol buf (Suc i)
   }"
  by pat_completeness auto
termination
  by (relation "measure (\<lambda>(buf, i). length buf - i)") (auto dest: rd_SomeD)

function c_strlen :: "char list \<Rightarrow> nat \<Rightarrow> nat option" where
  "c_strlen buf i = do { c \<leftarrow> rd buf i; if c = NUL then Some 0 else map_option Suc (c_strlen buf (Suc i)) }"
  by pat_completeness auto
termination
  by (relation "measure (\<lambda>(buf, i). length buf - i)") (auto dest: rd_SomeD)

declare skip_eols.simps [simp del] find_eol.simps [simp del] c_strlen.simps [simp del]

definition is_prompt :: "char list \<Rightarrow> nat \<Rightarrow> bool option" where
  "is_prompt buf i = do {
     c0 \<leftarrow> rd buf i;
     if c0 \<noteq> CHR ''>'' then Some False else do {
       c1 \<leftarrow> rd buf (i + 1);
       if c1 \<noteq> CHR '' '' then Some False else do {
         c2 \<leftarrow> rd buf (i + 2);
         Some (c2 = NUL)
       }
     }
   }"

definition findNextEOL :: "char list \<Rightarrow> nat \<Rightarrow> nat option option" where
  "findNextEOL buf i = do {
     p \<leftarrow> is_prompt buf i;
     if p then Some (Some (i + 2)) else find_eol buf i
   }"

definition copy_down :: "char list \<Rightarrow> nat \<Rightarrow> nat \<Rightarrow> char list option" where
  "copy_down buf src n =
    (if src + n \<le> length buf then Some (take n (drop src buf) @ drop n buf) else None)"

definition write_at :: "char list \<Rightarrow> nat \<Rightarrow> string \<Rightarrow> char list option" where
  "write_at buf p xs = (if p + length xs \<le> length buf then Some (blit buf p xs) else None)"

section \<open>Reading a line\<close>

text \<open>
  What one turn of the loop meets: the descriptor was closed by \<open>at_close\<close>, \<open>poll\<close> fails,
  the pipe wakes the reader, \<open>POLLERR\<close>, no input, a failing or empty read, or bytes that
  are there to be read.  A read returns at most what it was asked for; the rest stays.
\<close>

datatype rd_event = FdClosed | PollFailed | Woken | PollError | NoInput | ReadFailed | Bytes string

datatype eol_result = Eol nat | Null | Blocks

fun event_size :: "rd_event \<Rightarrow> nat" where
  "event_size (Bytes d) = Suc (length d)"
| "event_size _ = 1"

definition unread :: "string \<Rightarrow> rd_event list \<Rightarrow> rd_event list" where
  "unread d evs = (if d = [] then evs else Bytes d # evs)"

definition ditch :: "rbuf \<Rightarrow> nat \<Rightarrow> (rbuf \<times> nat) option" where
  "ditch b p =
    (if MAX_AT_RESPONSE \<le> p + 2 then
       map_option (\<lambda>buf. (b\<lparr>ATBuffer := buf, ATBufferCur := 0\<rparr>, 0)) (wr (ATBuffer b) 0 NUL)
     else Some (b, p))"

text \<open>Bytes arrive at \<open>p_read\<close>; the position of the end of a line, if there is one now.\<close>

definition receive :: "rbuf \<Rightarrow> nat \<Rightarrow> string \<Rightarrow> (nat option \<times> rbuf) option" where
  "receive b p got = do {
     buf1 \<leftarrow> write_at (ATBuffer b) p got;
     buf2 \<leftarrow> wr buf1 (p + length got) NUL;
     buf3 \<leftarrow> wr buf2 (p + length got + 1) NUL;
     cur \<leftarrow> skip_eols buf3 (ATBufferCur b);
     e \<leftarrow> findNextEOL buf3 cur;
     Some (e, b\<lparr>ATBuffer := buf3, ATBufferCur := cur\<rparr>)
   }"

lemma ditch_room: "ditch b p = Some (b', p') \<Longrightarrow> p' + 2 < MAX_AT_RESPONSE"
  by (auto simp: ditch_def MAX_AT_RESPONSE_def split: if_splits)

lemma unread_size:
  "d \<noteq> [] \<Longrightarrow> 0 < n \<Longrightarrow> sum_list (map event_size (unread (drop n d) r)) < Suc (length d + sum_list (map event_size r))"
  by (cases d) (auto simp: unread_def)

function read_loop :: "rbuf \<Rightarrow> nat \<Rightarrow> rd_event list \<Rightarrow> (eol_result \<times> rbuf \<times> rd_event list) option" where
  "read_loop b p evs =
    (case ditch b p of
       None \<Rightarrow> None
     | Some (b1, p1) \<Rightarrow>
         (case evs of
            [] \<Rightarrow> Some (Blocks, b1, [])
          | NoInput # r \<Rightarrow> read_loop b1 p1 r
          | Woken # r \<Rightarrow> read_loop b1 p1 r
          | Bytes d # r \<Rightarrow>
              (if d = [] then Some (Null, b1, r)
               else let n = MAX_AT_RESPONSE - p1 - 2; got = take n d; evs' = unread (drop n d) r in
                 (case receive b1 p1 got of
                    None \<Rightarrow> None
                  | Some (Some e, b2) \<Rightarrow> Some (Eol e, b2, evs')
                  | Some (None, b2) \<Rightarrow> read_loop b2 (p1 + length got) evs'))
          | e # r \<Rightarrow> Some (Null, b1, r)))"
  by pat_completeness auto
termination
  by (relation "measure (\<lambda>(b, p, evs). sum_list (map event_size evs))")
    (auto dest!: ditch_room intro!: unread_size)

declare read_loop.simps [simp del]

datatype read_result = LineRead string | NoLine | Pending

text \<open>A zero replaces the end of the line; the next line starts behind it.\<close>

definition finish_line :: "rbuf \<Rightarrow> nat \<Rightarrow> (string \<times> rbuf) option" where
  "finish_line b e = do {
     buf \<leftarrow> wr (ATBuffer b) e NUL;
     Some (takeWhile (\<lambda>c. c \<noteq> NUL) (drop (ATBufferCur b) buf), b\<lparr>ATBuffer := buf, ATBufferCur := e + 1\<rparr>)
   }"

definition next_eol :: "rbuf \<Rightarrow> rd_event list \<Rightarrow> (eol_result \<times> rbuf \<times> rd_event list) option" where
  "next_eol b evs = do {
     c \<leftarrow> rd (ATBuffer b) (ATBufferCur b);
     if c = NUL then do {
       buf \<leftarrow> wr (ATBuffer b) 0 NUL;
       read_loop (b\<lparr>ATBuffer := buf, ATBufferCur := 0\<rparr>) 0 evs
     } else do {
       cur \<leftarrow> skip_eols (ATBuffer b) (ATBufferCur b);
       e \<leftarrow> findNextEOL (ATBuffer b) cur;
       case e of
         Some k \<Rightarrow> Some (Eol k, b\<lparr>ATBufferCur := cur\<rparr>, evs)
       | None \<Rightarrow> do {
           len \<leftarrow> c_strlen (ATBuffer b) cur;
           buf \<leftarrow> copy_down (ATBuffer b) cur (len + 1);
           read_loop (b\<lparr>ATBuffer := buf, ATBufferCur := 0\<rparr>) len evs
         }
     }
   }"

definition readline :: "rbuf \<Rightarrow> rd_event list \<Rightarrow> (read_result \<times> rbuf \<times> rd_event list) option" where
  "readline b evs = do {
     (r, b1, evs1) \<leftarrow> next_eol b evs;
     case r of
       Null \<Rightarrow> Some (NoLine, b1, evs1)
     | Blocks \<Rightarrow> Some (Pending, b1, evs1)
     | Eol e \<Rightarrow> do { (l, b2) \<leftarrow> finish_line b1 e; Some (LineRead l, b2, evs1) }
   }"

section \<open>The scans\<close>

abbreviation noteol :: "char \<Rightarrow> bool" where "noteol c \<equiv> \<not> eol c"

definition ctext :: "char list \<Rightarrow> nat \<Rightarrow> string" where
  "ctext buf i = takeWhile (\<lambda>c. c \<noteq> NUL) (drop i buf)"

lemma drop_rd: "rd buf i = Some c \<Longrightarrow> drop i buf = c # drop (Suc i) buf"
  by (auto dest!: rd_SomeD simp: Cons_nth_drop_Suc)

lemma rd_None_drop: "rd buf i = None \<Longrightarrow> drop i buf = []"
  by (simp add: rd_None)

lemma skip_eols_eq:
  "NUL \<in> set (drop i buf) \<Longrightarrow> skip_eols buf i = Some (i + length (takeWhile eol (drop i buf)))"
proof (induction buf i rule: skip_eols.induct)
  case (1 buf i)
  show ?case
  proof (cases "rd buf i")
    case None with 1 show ?thesis by (simp add: rd_None_drop)
  next
    case (Some c)
    note d = drop_rd [OF Some]
    show ?thesis
    proof (cases "eol c")
      case True
      with 1 d have "NUL \<in> set (drop (Suc i) buf)" by auto
      with 1 True Some d show ?thesis by (subst skip_eols.simps) auto
    next
      case False with Some d show ?thesis by (subst skip_eols.simps) auto
    qed
  qed
qed

lemma find_eol_eq:
  "NUL \<in> set (drop i buf) \<Longrightarrow> find_eol buf i =
     Some (if \<exists>c \<in> set (ctext buf i). eol c then Some (i + length (takeWhile noteol (ctext buf i))) else None)"
proof (induction buf i rule: find_eol.induct)
  case (1 buf i)
  show ?case
  proof (cases "rd buf i")
    case None with 1 show ?thesis by (simp add: rd_None_drop)
  next
    case (Some c)
    note d = drop_rd [OF Some]
    show ?thesis
    proof (cases "c = NUL \<or> eol c")
      case True with Some d show ?thesis by (subst find_eol.simps) (auto simp: ctext_def)
    next
      case False
      with 1 d have "NUL \<in> set (drop (Suc i) buf)" by auto
      with 1 False Some have "find_eol buf (Suc i) = Some (if \<exists>c \<in> set (ctext buf (Suc i)). eol c
          then Some (Suc i + length (takeWhile noteol (ctext buf (Suc i)))) else None)" by auto
      with False Some d show ?thesis by (subst find_eol.simps) (auto simp: ctext_def)
    qed
  qed
qed

lemma c_strlen_eq: "NUL \<in> set (drop i buf) \<Longrightarrow> c_strlen buf i = Some (length (ctext buf i))"
proof (induction buf i rule: c_strlen.induct)
  case (1 buf i)
  show ?case
  proof (cases "rd buf i")
    case None with 1 show ?thesis by (simp add: rd_None_drop)
  next
    case (Some c)
    note d = drop_rd [OF Some]
    show ?thesis
    proof (cases "c = NUL")
      case True with Some d show ?thesis by (subst c_strlen.simps) (auto simp: ctext_def)
    next
      case False
      with 1 d have "NUL \<in> set (drop (Suc i) buf)" by auto
      with 1 False Some d show ?thesis by (subst c_strlen.simps) (auto simp: ctext_def)
    qed
  qed
qed

definition prompt :: string where "prompt = ''> ''"

lemma is_prompt_eq:
  assumes "NUL \<in> set (drop i buf)"
  shows "is_prompt buf i = Some (ctext buf i = prompt)"
proof -
  obtain c0 r0 where 0: "drop i buf = c0 # r0" using assms by (cases "drop i buf") auto
  then have i0: "rd buf i = Some c0" "drop (i + 1) buf = r0"
    by (auto simp: rd_def nth_via_drop drop_Suc [symmetric] dest: drop_eq_Nil2 [THEN iffD1] split: if_splits)
      (metis drop_eq_Nil2 leI list.distinct(1), metis drop_Suc list.sel(3) tl_drop)
  show ?thesis
  proof (cases "c0 = CHR ''>''")
    case False then show ?thesis using 0 i0 by (auto simp: is_prompt_def ctext_def prompt_def)
  next
    case c0: True
    with assms 0 have "NUL \<in> set r0" by auto
    then obtain c1 r1 where 1: "r0 = c1 # r1" by (cases r0) auto
    with i0 have i1: "rd buf (i + 1) = Some c1" "drop (i + 2) buf = r1"
      by (auto simp: rd_def nth_via_drop) (metis drop_eq_Nil2 leI list.distinct(1), metis add_2_eq_Suc' drop_Suc list.sel(3) tl_drop)
    show ?thesis
    proof (cases "c1 = CHR '' ''")
      case False then show ?thesis using 0 1 i0 i1 c0 by (auto simp: is_prompt_def ctext_def prompt_def)
    next
      case c1: True
      with \<open>NUL \<in> set r0\<close> 1 have "r1 \<noteq> []" by auto
      then obtain c2 r2 where 2: "r1 = c2 # r2" by (cases r1) auto
      with i1 have i2: "rd buf (i + 2) = Some c2"
        by (auto simp: rd_def nth_via_drop) (metis drop_eq_Nil2 leI list.distinct(1))
      show ?thesis using 0 1 2 i0 i1 i2 c0 c1 by (auto simp: is_prompt_def ctext_def prompt_def)
    qed
  qed
qed

lemma findNextEOL_eq:
  assumes "NUL \<in> set (drop i buf)"
  shows "findNextEOL buf i = Some (let t = ctext buf i in
    if t = prompt then Some (i + 2)
    else if \<exists>c \<in> set t. eol c then Some (i + length (takeWhile noteol t)) else None)"
  using assms by (simp add: findNextEOL_def is_prompt_eq find_eol_eq Let_def)

section \<open>No access outside the buffer\<close>

text \<open>The last three bytes are never anything but zero.\<close>

definition buf_ok :: "char list \<Rightarrow> bool" where
  "buf_ok buf \<longleftrightarrow> length buf = MAX_AT_RESPONSE + 1 \<and>
     (\<forall>i. MAX_AT_RESPONSE \<le> i + 2 \<longrightarrow> i \<le> MAX_AT_RESPONSE \<longrightarrow> buf ! i = NUL)"

definition rbuf_ok :: "rbuf \<Rightarrow> bool" where
  "rbuf_ok b \<longleftrightarrow> buf_ok (ATBuffer b) \<and> ATBufferCur b \<le> MAX_AT_RESPONSE"

lemma buf_ok_NUL:
  assumes "buf_ok buf" "i \<le> MAX_AT_RESPONSE"
  shows "NUL \<in> set (drop i buf)"
proof -
  have "drop i buf ! (MAX_AT_RESPONSE - i) = NUL" "MAX_AT_RESPONSE - i < length (drop i buf)"
    using assms by (auto simp: buf_ok_def)
  then show ?thesis by (metis nth_mem)
qed

lemma takeWhile_drop_bound:
  assumes "\<And>j. m \<le> j \<Longrightarrow> j \<le> n \<Longrightarrow> \<not> P (xs ! j)" "i \<le> n" "n < length xs" "m \<le> n"
    "takeWhile P (drop i xs) \<noteq> []"
  shows "i + length (takeWhile P (drop i xs)) \<le> m"
proof (rule ccontr)
  assume "\<not> ?thesis"
  then have l: "m < i + length (takeWhile P (drop i xs))" by simp
  have "P (xs ! j)" if "i \<le> j" "j < i + length (takeWhile P (drop i xs))" for j
  proof -
    from that have k: "j - i < length (takeWhile P (drop i xs))" by simp
    then have "P (takeWhile P (drop i xs) ! (j - i))" using nth_mem set_takeWhileD by fastforce
    then show ?thesis using k that assms(2,3) by (simp add: takeWhile_nth)
  qed
  note at = this
  show False
  proof (cases "m \<le> i")
    case True
    have "P (xs ! i)" using at [of i] assms(5) by simp
    with True assms(1,2) show False by blast
  next
    case False
    then have "P (xs ! m)" using at [of m] l by simp
    with assms(1,4) show False by blast
  qed
qed

lemma ctext_bound:
  "buf_ok buf \<Longrightarrow> i \<le> MAX_AT_RESPONSE \<Longrightarrow> ctext buf i \<noteq> [] \<Longrightarrow>
     i + length (ctext buf i) \<le> MAX_AT_RESPONSE - 2"
  unfolding ctext_def
  by (rule takeWhile_drop_bound [where n = MAX_AT_RESPONSE]) (auto simp: buf_ok_def MAX_AT_RESPONSE_def)

lemma skip_bound:
  assumes "buf_ok buf" "i \<le> MAX_AT_RESPONSE"
  shows "i + length (takeWhile eol (drop i buf)) \<le> MAX_AT_RESPONSE"
proof (cases "takeWhile eol (drop i buf) = []")
  case False
  have "i + length (takeWhile eol (drop i buf)) \<le> MAX_AT_RESPONSE - 2"
    by (rule takeWhile_drop_bound [where n = MAX_AT_RESPONSE])
      (use assms False in \<open>auto simp: buf_ok_def MAX_AT_RESPONSE_def\<close>)
  then show ?thesis by simp
qed (use assms in simp)

lemma scan_ok:
  assumes "buf_ok buf" "i \<le> MAX_AT_RESPONSE"
  shows "\<exists>cur e. skip_eols buf i = Some cur \<and> cur \<le> MAX_AT_RESPONSE \<and> findNextEOL buf cur = Some e \<and>
     (\<forall>k. e = Some k \<longrightarrow> k \<le> MAX_AT_RESPONSE - 2)"
proof -
  let ?cur = "i + length (takeWhile eol (drop i buf))"
  have s: "skip_eols buf i = Some ?cur" by (rule skip_eols_eq) (rule buf_ok_NUL [OF assms])
  have c: "?cur \<le> MAX_AT_RESPONSE" by (rule skip_bound [OF assms])
  let ?t = "ctext buf ?cur"
  have b: "?t \<noteq> [] \<Longrightarrow> ?cur + length ?t \<le> MAX_AT_RESPONSE - 2" by (rule ctext_bound [OF assms(1) c])
  have "\<exists>e. findNextEOL buf ?cur = Some e \<and> (\<forall>k. e = Some k \<longrightarrow> k \<le> MAX_AT_RESPONSE - 2)"
    unfolding findNextEOL_eq [OF buf_ok_NUL [OF assms(1) c]] Let_def
  proof (cases "?t = []")
    case False
    have "length prompt = 2" by (simp add: prompt_def)
    then show "\<exists>e. Some (if ?t = prompt then Some (?cur + 2)
        else if \<exists>c \<in> set ?t. eol c then Some (?cur + length (takeWhile noteol ?t)) else None) = Some e \<and>
      (\<forall>k. e = Some k \<longrightarrow> k \<le> MAX_AT_RESPONSE - 2)"
      using b [OF False] length_takeWhile_le [of noteol ?t] by (cases "?t = prompt") simp_all
  qed (simp add: prompt_def)
  with s c show ?thesis by blast
qed

lemma buf_ok_wr:
  assumes "buf_ok buf" "p \<le> MAX_AT_RESPONSE"
  shows "\<exists>buf'. wr buf p NUL = Some buf' \<and> buf_ok buf'"
proof -
  from assms have p: "p < length buf" by (simp add: buf_ok_def)
  have "buf_ok (buf[p := NUL])"
    unfolding buf_ok_def
  proof (intro conjI allI impI)
    show "length (buf[p := NUL]) = MAX_AT_RESPONSE + 1" using assms(1) by (simp add: buf_ok_def)
    fix i assume i: "MAX_AT_RESPONSE \<le> i + 2" "i \<le> MAX_AT_RESPONSE"
    then have "buf ! i = NUL" using assms(1) unfolding buf_ok_def by blast
    then show "buf[p := NUL] ! i = NUL" using p by (cases "i = p") simp_all
  qed
  with p show ?thesis by (simp add: wr_def)
qed

lemma nth_blit_ge:
  "p + length got \<le> i \<Longrightarrow> i < length buf \<Longrightarrow> blit buf p got ! i = buf ! i"
  by (auto simp: blit_def nth_append min_def)

lemma buf_ok_write_at:
  assumes "buf_ok buf" "p + length got \<le> MAX_AT_RESPONSE - 2"
  shows "\<exists>buf'. write_at buf p got = Some buf' \<and> buf_ok buf'"
proof -
  from assms have len: "p + length got \<le> length buf" by (simp add: buf_ok_def)
  have "buf_ok (blit buf p got)"
    unfolding buf_ok_def
  proof (intro conjI allI impI)
    show "length (blit buf p got) = MAX_AT_RESPONSE + 1" using len assms(1) by (simp add: buf_ok_def)
    fix i assume "MAX_AT_RESPONSE \<le> i + 2" "i \<le> MAX_AT_RESPONSE"
    moreover from this have "buf ! i = NUL" using assms(1) unfolding buf_ok_def by blast
    moreover have "p + length got \<le> i" "i < length buf"
      using calculation assms len by (simp_all add: buf_ok_def)
    ultimately show "blit buf p got ! i = NUL" using nth_blit_ge [of p got i buf] by simp
  qed
  with len show ?thesis by (simp add: write_at_def)
qed

lemma receive_ok:
  assumes "rbuf_ok b" "p + length got \<le> MAX_AT_RESPONSE - 2"
  shows "\<exists>e b'. receive b p got = Some (e, b') \<and> rbuf_ok b' \<and> (\<forall>k. e = Some k \<longrightarrow> k \<le> MAX_AT_RESPONSE - 2)"
proof -
  from assms have ok: "buf_ok (ATBuffer b)" "ATBufferCur b \<le> MAX_AT_RESPONSE" by (auto simp: rbuf_ok_def)
  from buf_ok_write_at [OF ok(1) assms(2)] obtain b1 where b1: "write_at (ATBuffer b) p got = Some b1" "buf_ok b1" by blast
  from assms(2) have le: "p + length got \<le> MAX_AT_RESPONSE" "p + length got + 1 \<le> MAX_AT_RESPONSE"
    by (simp_all add: MAX_AT_RESPONSE_def)
  from buf_ok_wr [OF b1(2) le(1)] obtain b2
    where b2: "wr b1 (p + length got) NUL = Some b2" "buf_ok b2" by blast
  from buf_ok_wr [OF b2(2) le(2)] obtain b3
    where b3: "wr b2 (p + length got + 1) NUL = Some b3" "buf_ok b3" by blast
  from scan_ok [OF b3(2) ok(2)] b1 b2 b3 show ?thesis by (auto simp: receive_def rbuf_ok_def)
qed

lemma ditch_ok:
  assumes "rbuf_ok b"
  shows "\<exists>b' p'. ditch b p = Some (b', p') \<and> rbuf_ok b'"
  using assms buf_ok_wr [of "ATBuffer b" 0] by (auto simp: ditch_def rbuf_ok_def)

lemma read_loop_ok:
  assumes "rbuf_ok b"
  shows "\<exists>r b' evs'. read_loop b p evs = Some (r, b', evs') \<and> rbuf_ok b' \<and>
    (\<forall>k. r = Eol k \<longrightarrow> k \<le> MAX_AT_RESPONSE - 2)"
  using assms
proof (induction b p evs rule: read_loop.induct)
  case (1 b p evs)
  obtain b1 p1 where d: "ditch b p = Some (b1, p1)" "rbuf_ok b1" using ditch_ok [OF 1(4)] by blast
  note room = ditch_room [OF d(1)]
  show ?case
  proof (cases evs)
    case Nil with d show ?thesis by (subst read_loop.simps) simp
  next
    case (Cons ev r)
    show ?thesis
    proof (cases ev)
      case (Bytes s)
      show ?thesis
      proof (cases "s = []")
        case True with Bytes Cons d show ?thesis by (subst read_loop.simps) simp
      next
        case False
        let ?got = "take (MAX_AT_RESPONSE - p1 - 2) s"
        have "p1 + length ?got \<le> MAX_AT_RESPONSE - 2" using room by auto
        from receive_ok [OF d(2) this] obtain e b2 where
          e: "receive b1 p1 ?got = Some (e, b2)" "rbuf_ok b2" "\<forall>k. e = Some k \<longrightarrow> k \<le> MAX_AT_RESPONSE - 2"
          by blast
        show ?thesis
        proof (cases e)
          case (Some k) with e False Bytes Cons d(1) show ?thesis by (subst read_loop.simps) (simp add: Let_def)
        next
          case None
          from 1(3) [OF d(1) refl Cons Bytes False refl refl refl e(1) refl None e(2)] e None False Bytes Cons d(1)
          show ?thesis by (subst read_loop.simps) (simp add: Let_def)
        qed
      qed
    next
      case Woken with 1(1) [OF d(1) refl Cons Woken] d Cons show ?thesis by (subst read_loop.simps) simp
    next
      case NoInput with 1(2) [OF d(1) refl Cons NoInput] d Cons show ?thesis by (subst read_loop.simps) simp
    qed (subst read_loop.simps, use Cons d in simp)+
  qed
qed

lemma copy_down_ok:
  assumes "buf_ok buf" "cur \<le> MAX_AT_RESPONSE"
  shows "\<exists>buf'. copy_down buf cur (length (ctext buf cur) + 1) = Some buf' \<and> buf_ok buf'"
proof -
  let ?n = "length (ctext buf cur)"
  have split: "drop cur buf = ctext buf cur @ dropWhile (\<lambda>c. c \<noteq> NUL) (drop cur buf)"
    by (simp add: ctext_def)
  have "dropWhile (\<lambda>c. c \<noteq> NUL) (drop cur buf) \<noteq> []"
    using buf_ok_NUL [OF assms] by (simp add: dropWhile_eq_Nil_conv)
  then obtain x r where "dropWhile (\<lambda>c. c \<noteq> NUL) (drop cur buf) = x # r"
    by (cases "dropWhile (\<lambda>c. c \<noteq> NUL) (drop cur buf)") blast+
  moreover from this have "x = NUL" by (simp add: dropWhile_eq_Cons_conv)
  ultimately have r: "dropWhile (\<lambda>c. c \<noteq> NUL) (drop cur buf) = NUL # r" by simp
  have d: "drop cur buf = (ctext buf cur @ [NUL]) @ r" by (subst split) (simp add: r)
  have "take (length (ctext buf cur @ [NUL])) (drop cur buf) = ctext buf cur @ [NUL]"
    by (subst d) (rule append_eq_conv_conj [THEN iffD1, OF refl, THEN conjunct1, symmetric])
  then have t: "take (?n + 1) (drop cur buf) = ctext buf cur @ [NUL]" by simp
  have len: "cur + (?n + 1) \<le> length buf"
  proof -
    have "length (drop cur buf) = ?n + Suc (length r)" by (subst d) simp
    then have "length buf - cur = ?n + Suc (length r)" by (simp only: length_drop)
    then show ?thesis by linarith
  qed
  have n: "?n \<le> MAX_AT_RESPONSE - 2" using ctext_bound [OF assms] by (cases "ctext buf cur = []") auto
  have "buf_ok (ctext buf cur @ [NUL] @ drop (?n + 1) buf)"
    unfolding buf_ok_def
  proof (intro conjI allI impI)
    show "length (ctext buf cur @ [NUL] @ drop (?n + 1) buf) = MAX_AT_RESPONSE + 1"
      using assms(1) len by (simp add: buf_ok_def)
    fix i assume i: "MAX_AT_RESPONSE \<le> i + 2" "i \<le> MAX_AT_RESPONSE"
    then have "?n \<le> i" using n by simp
    have "i < length buf" using i assms(1) by (simp add: buf_ok_def)
    then have "(ctext buf cur @ [NUL] @ drop (?n + 1) buf) ! i = (if i = ?n then NUL else buf ! i)"
      using \<open>?n \<le> i\<close> len by (cases "i = ?n") (simp_all add: nth_append)
    moreover have "buf ! i = NUL" using assms(1) i unfolding buf_ok_def by blast
    ultimately show "(ctext buf cur @ [NUL] @ drop (?n + 1) buf) ! i = NUL" by simp
  qed
  with len t show ?thesis by (simp add: copy_down_def)
qed

lemma next_eol_ok:
  assumes "rbuf_ok b"
  shows "\<exists>r b' evs'. next_eol b evs = Some (r, b', evs') \<and> rbuf_ok b' \<and>
    (\<forall>k. r = Eol k \<longrightarrow> k \<le> MAX_AT_RESPONSE - 2)"
proof -
  from assms have ok: "buf_ok (ATBuffer b)" "ATBufferCur b \<le> MAX_AT_RESPONSE" by (auto simp: rbuf_ok_def)
  then have c: "rd (ATBuffer b) (ATBufferCur b) = Some (ATBuffer b ! ATBufferCur b)"
    by (simp add: rd_def buf_ok_def)
  show ?thesis
  proof (cases "ATBuffer b ! ATBufferCur b = NUL")
    case True
    from buf_ok_wr [OF ok(1), of 0] obtain b1 where "wr (ATBuffer b) 0 NUL = Some b1" "buf_ok b1" by auto
    then show ?thesis
      using True c read_loop_ok [of "b\<lparr>ATBuffer := b1, ATBufferCur := 0\<rparr>" 0 evs]
      by (auto simp: next_eol_def rbuf_ok_def)
  next
    case False
    from scan_ok [OF ok] obtain cur e where s: "skip_eols (ATBuffer b) (ATBufferCur b) = Some cur"
      "cur \<le> MAX_AT_RESPONSE" "findNextEOL (ATBuffer b) cur = Some e" "\<forall>k. e = Some k \<longrightarrow> k \<le> MAX_AT_RESPONSE - 2"
      by blast
    show ?thesis
    proof (cases e)
      case (Some k) with False c s ok show ?thesis by (simp add: next_eol_def rbuf_ok_def)
    next
      case None
      from copy_down_ok [OF ok(1) s(2)] obtain b1
        where "copy_down (ATBuffer b) cur (length (ctext (ATBuffer b) cur) + 1) = Some b1" "buf_ok b1" by blast
      with None False c s c_strlen_eq [OF buf_ok_NUL [OF ok(1) s(2)]] show ?thesis
        using read_loop_ok [of "b\<lparr>ATBuffer := b1, ATBufferCur := 0\<rparr>" "length (ctext (ATBuffer b) cur)" evs]
        by (simp add: next_eol_def rbuf_ok_def)
    qed
  qed
qed

lemma readline_ok:
  assumes "rbuf_ok b"
  shows "\<exists>r b' evs'. readline b evs = Some (r, b', evs') \<and> rbuf_ok b'"
proof -
  from next_eol_ok [OF assms] obtain r b1 evs1 where n: "next_eol b evs = Some (r, b1, evs1)" "rbuf_ok b1"
    "\<forall>k. r = Eol k \<longrightarrow> k \<le> MAX_AT_RESPONSE - 2" by blast
  show ?thesis
  proof (cases r)
    case (Eol k)
    with n have k: "k \<le> MAX_AT_RESPONSE - 2" by simp
    then have "k \<le> MAX_AT_RESPONSE" by simp
    with n(2) buf_ok_wr [of "ATBuffer b1" k] obtain b2 where "wr (ATBuffer b1) k NUL = Some b2" "buf_ok b2"
      unfolding rbuf_ok_def by blast
    with n Eol k show ?thesis by (auto simp: readline_def finish_line_def rbuf_ok_def MAX_AT_RESPONSE_def)
  qed (use n in \<open>auto simp: readline_def\<close>)
qed

section \<open>The lines of a stream, however it is cut into reads\<close>

fun stream :: "rd_event list \<Rightarrow> string" where
  "stream [] = []"
| "stream (Bytes d # r) = d @ stream r"
| "stream (_ # r) = stream r"

text \<open>The events of a channel that stays open: bytes arrive, or the reader wakes for nothing.\<close>

fun quiet :: "rd_event \<Rightarrow> bool" where
  "quiet (Bytes d) \<longleftrightarrow> d \<noteq> []"
| "quiet Woken \<longleftrightarrow> True"
| "quiet NoInput \<longleftrightarrow> True"
| "quiet _ \<longleftrightarrow> False"

abbreviation strip :: "string \<Rightarrow> string" where "strip s \<equiv> dropWhile eol s"

definition first_line :: "string \<Rightarrow> string" where "first_line s = takeWhile noteol (strip s)"
definition behind_line :: "string \<Rightarrow> string" where "behind_line s = tl (dropWhile noteol (strip s))"
definition has_line :: "string \<Rightarrow> bool" where "has_line s \<longleftrightarrow> (\<exists>c \<in> set (strip s). eol c)"

text \<open>
  The next line and the line ends before it fit into the buffer, and it does not begin like the
  prompt, which the reader takes for a line of its own when a read happens to end behind it.
\<close>

definition line_fits :: "string \<Rightarrow> bool" where
  "line_fits s \<longleftrightarrow> length (takeWhile eol s) + length (first_line s) < MAX_AT_RESPONSE - 2 \<and>
     \<not> str_prefix prompt (strip s)"

lemma behind_line_length: "has_line s \<Longrightarrow> length (behind_line s) < length s"
proof -
  assume "has_line s"
  then have "dropWhile noteol (strip s) \<noteq> []" by (auto simp: has_line_def dropWhile_eq_Nil_conv)
  moreover have "length (dropWhile noteol (strip s)) \<le> length s"
    using length_dropWhile_le order_trans by blast
  ultimately show ?thesis by (cases "dropWhile noteol (strip s)") (simp_all add: behind_line_def)
qed

function all_lines :: "string \<Rightarrow> string list" where
  "all_lines s = (if has_line s then first_line s # all_lines (behind_line s) else [])"
  by pat_completeness auto
termination by (relation "measure length") (auto simp: behind_line_length)

function lines_fit :: "string \<Rightarrow> bool" where
  "lines_fit s = (if has_line s then line_fits s \<and> lines_fit (behind_line s) else line_fits s)"
  by pat_completeness auto
termination by (relation "measure length") (auto simp: behind_line_length)

declare all_lines.simps [simp del] lines_fit.simps [simp del]

lemma takeWhile_drop_le:
  "j \<le> length (takeWhile P l) \<Longrightarrow> takeWhile P (drop j l) = drop j (takeWhile P l)"
proof (induction l arbitrary: j)
  case (Cons a l) then show ?case by (cases j) (auto split: if_splits)
qed simp

lemma strip_append:
  "strip x \<noteq> [] \<Longrightarrow> strip (x @ m) = strip x @ m \<and> takeWhile eol (x @ m) = takeWhile eol x"
  by (induction x) auto

lemma strip_Nil_append:
  "strip x = [] \<Longrightarrow> strip (x @ m) = strip m \<and> takeWhile eol (x @ m) = x @ takeWhile eol m"
  by (induction x) (auto split: if_splits)

lemma no_line_takeWhile: "\<forall>c \<in> set t. noteol c \<Longrightarrow> takeWhile noteol (t @ m) = t @ takeWhile noteol m"
  by (induction t) auto

lemma length_strip: "length (takeWhile eol x) + length (strip x) = length x"
  by (metis length_append takeWhile_dropWhile_id)

lemma partial_short:
  assumes "\<not> has_line x"
  shows "length x \<le> length (takeWhile eol (x @ m)) + length (first_line (x @ m))"
proof (cases "strip x = []")
  case True then show ?thesis using strip_Nil_append [OF True, of m] by simp
next
  case False
  have "takeWhile noteol (strip x @ m) = strip x @ takeWhile noteol m"
    by (rule no_line_takeWhile) (use assms in \<open>simp add: has_line_def\<close>)
  then show ?thesis
    using strip_append [OF False, of m] length_strip [of x] by (simp add: first_line_def)
qed

text \<open>A line found early is the line of the whole stream.\<close>

lemma has_line_append: "has_line x \<Longrightarrow> has_line (x @ m)"
  using strip_append [of x m] by (cases "strip x = []") (auto simp: has_line_def)

lemma takeWhile_found: "\<exists>c \<in> set t. eol c \<Longrightarrow> takeWhile noteol (t @ m) = takeWhile noteol t \<and>
    dropWhile noteol (t @ m) = dropWhile noteol t @ m \<and> dropWhile noteol t \<noteq> []"
  by (induction t) auto

lemma line_append:
  assumes "has_line x"
  shows "first_line (x @ m) = first_line x" "behind_line (x @ m) = behind_line x @ m"
proof -
  have "strip x \<noteq> []" using assms unfolding has_line_def by (metis empty_iff list.set(1))
  note s = strip_append [OF this, of m]
  have "\<exists>c \<in> set (strip x). eol c" using assms by (simp add: has_line_def)
  note t = takeWhile_found [OF this, of m]
  show "first_line (x @ m) = first_line x" "behind_line (x @ m) = behind_line x @ m"
    using s t by (simp_all add: first_line_def behind_line_def)
qed

lemma not_prompt_append:
  assumes "\<not> str_prefix prompt (strip (x @ m))"
  shows "strip x \<noteq> prompt"
proof
  assume p: "strip x = prompt"
  then have "strip (x @ m) = prompt @ m" using strip_append [of x m] by (simp add: prompt_def)
  with assms show False by simp
qed

lemma takeWhile_NUL: "NUL \<notin> set w \<Longrightarrow> takeWhile (\<lambda>c. c \<noteq> NUL) (w @ NUL # z) = w"
  by (induction w) auto

lemma ctext_append: "NUL \<notin> set w \<Longrightarrow> drop i buf = w @ NUL # z \<Longrightarrow> ctext buf i = w"
  by (simp only: ctext_def takeWhile_NUL not_False_eq_True)

lemma scan_text:
  assumes "drop i buf = w @ NUL # z" "NUL \<notin> set w" "strip w \<noteq> prompt" "i \<le> length buf"
  shows "skip_eols buf i = Some (i + length (takeWhile eol w)) \<and>
    findNextEOL buf (i + length (takeWhile eol w)) =
      Some (if has_line w then Some (i + length (takeWhile eol w) + length (first_line w)) else None)"
proof -
  have tw: "takeWhile eol (w @ NUL # z) = takeWhile eol w"
    using strip_append [of w "NUL # z"] strip_Nil_append [of w "NUL # z"] length_strip [of w]
    by (cases "strip w = []") (simp_all, metis takeWhile_eq_all_conv dropWhile_eq_Nil_conv)
  let ?c = "i + length (takeWhile eol w)"
  have "drop ?c buf = drop (length (takeWhile eol w)) (w @ NUL # z)"
    using assms(1) by (metis add.commute drop_drop)
  also have "\<dots> = strip w @ NUL # z"
    by (metis append_assoc append_eq_conv_conj takeWhile_dropWhile_id)
  finally have d: "drop ?c buf = strip w @ NUL # z" .
  have n: "NUL \<notin> set (strip w)" using assms(2) set_dropWhileD by metis
  have ct: "ctext buf ?c = strip w" by (rule ctext_append [OF n d])
  have "NUL \<in> set (drop ?c buf)" by (simp add: d)
  from findNextEOL_eq [OF this] ct assms(3)
  have "findNextEOL buf ?c = Some (if has_line w then Some (?c + length (first_line w)) else None)"
    by (simp add: has_line_def first_line_def Let_def)
  moreover have "skip_eols buf i = Some ?c"
    using skip_eols_eq [of i buf] assms(1) tw by simp
  ultimately show ?thesis by simp
qed

lemma receive_eq:
  assumes "ATBuffer b = x @ ys" "length got + 2 \<le> length ys" "ATBufferCur b \<le> length (takeWhile eol x)"
    and "NUL \<notin> set (x @ got)" "strip (x @ got) \<noteq> prompt"
  shows "receive b (length x) got =
    Some (if has_line (x @ got) then Some (length (takeWhile eol (x @ got)) + length (first_line (x @ got))) else None,
      b\<lparr>ATBuffer := (x @ got) @ NUL # NUL # drop (length got + 2) ys,
        ATBufferCur := length (takeWhile eol (x @ got))\<rparr>)"
proof -
  let ?x = "x @ got" and ?z = "NUL # drop (length got + 2) ys"
  let ?cur = "ATBufferCur b"
  from assms(2) obtain g2 a1 a2 where ys: "ys = g2 @ a1 # a2 # drop (length got + 2) ys" "length g2 = length got"
  proof -
    have "drop (length got) ys = ys ! length got # ys ! Suc (length got) # drop (length got + 2) ys"
      using assms(2) by (simp add: Cons_nth_drop_Suc)
    then have "ys = take (length got) ys @ ys ! length got # ys ! Suc (length got) # drop (length got + 2) ys"
      by (metis append_take_drop_id)
    moreover have "length (take (length got) ys) = length got" using assms(2) by simp
    ultimately show ?thesis using that by blast
  qed
  let ?d = "drop (length got + 2) ys"
  have w1: "write_at (ATBuffer b) (length x) got = Some (?x @ a1 # a2 # ?d)"
    using assms(1,2) by (subst (asm) (1) ys(1)) (simp add: write_at_def blit_def ys(2))
  have w2: "wr (?x @ a1 # a2 # ?d) (length x + length got) NUL = Some (?x @ NUL # a2 # ?d)"
    by (simp add: wr_def list_update_append)
  have w3: "wr (?x @ NUL # a2 # ?d) (length x + length got + 1) NUL = Some (?x @ NUL # ?z)"
    by (simp add: wr_def list_update_append)
  have tw: "length (takeWhile eol x) \<le> length (takeWhile eol ?x)"
    using strip_append [of x got] strip_Nil_append [of x got] length_strip [of x]
    by (cases "strip x = []") simp_all
  then have cur: "?cur \<le> length (takeWhile eol ?x)" using assms(3) by simp
  then have curx: "?cur \<le> length ?x" using length_strip [of ?x] by simp
  have d: "drop ?cur (?x @ NUL # ?z) = drop ?cur ?x @ NUL # ?z" using curx by simp
  have nn: "NUL \<notin> set (drop ?cur ?x)" using assms(4) in_set_dropD by metis
  have tk: "takeWhile eol (drop ?cur ?x) = drop ?cur (takeWhile eol ?x)" by (rule takeWhile_drop_le [OF cur])
  have st: "strip (drop ?cur ?x) = strip ?x"
  proof -
    have "drop ?cur ?x = drop ?cur (takeWhile eol ?x) @ strip ?x"
      using cur by (metis drop_append diff_is_0_eq drop_0 takeWhile_dropWhile_id)
    then show ?thesis using tk by (metis append_eq_append_conv same_append_eq takeWhile_dropWhile_id)
  qed
  have hl: "has_line (drop ?cur ?x) = has_line ?x" "first_line (drop ?cur ?x) = first_line ?x"
    by (simp_all only: has_line_def first_line_def st)
  have "?cur + length (takeWhile eol (drop ?cur ?x)) = length (takeWhile eol ?x)" using tk cur by simp
  with scan_text [OF d nn, unfolded st] assms(5) curx hl
  have "skip_eols (?x @ NUL # ?z) ?cur = Some (length (takeWhile eol ?x)) \<and>
    findNextEOL (?x @ NUL # ?z) (length (takeWhile eol ?x)) =
      Some (if has_line ?x then Some (length (takeWhile eol ?x) + length (first_line ?x)) else None)"
    by simp
  with w1 w2 w3 show ?thesis by (simp add: receive_def)
qed

text \<open>The loop, with the part \<open>x\<close> of the stream in the buffer.\<close>

definition found :: "string \<Rightarrow> (eol_result \<times> rbuf \<times> rd_event list) option \<Rightarrow> bool" where
  "found s r \<longleftrightarrow> (\<exists>x ys b evs. r = Some (Eol (length (takeWhile eol x) + length (first_line x)), b, evs) \<and>
     ATBuffer b = x @ NUL # NUL # ys \<and> length (ATBuffer b) = MAX_AT_RESPONSE + 1 \<and>
     ATBufferCur b = length (takeWhile eol x) \<and> NUL \<notin> set x \<and>
     has_line x \<and> x @ stream evs = s \<and> list_all quiet evs)"

lemma loop_finds:
  assumes "ATBuffer b = x @ ys" "length (ATBuffer b) = MAX_AT_RESPONSE + 1"
    and "ATBufferCur b \<le> length (takeWhile eol x)" "\<not> has_line x" "list_all quiet evs"
    and "NUL \<notin> set (x @ stream evs)" "line_fits (x @ stream evs)"
  shows "if has_line (x @ stream evs) then found (x @ stream evs) (read_loop b (length x) evs)
    else (\<exists>b'. read_loop b (length x) evs = Some (Blocks, b', []))"
  using assms
proof (induction "sum_list (map event_size evs)" arbitrary: b x ys evs rule: less_induct)
  case less
  from less.prems(4,7) have short: "length x < MAX_AT_RESPONSE - 2"
    using partial_short [of x "stream evs"] by (simp add: line_fits_def)
  then have "\<not> MAX_AT_RESPONSE \<le> length x + 2" by linarith
  then have d: "ditch b (length x) = Some (b, length x)" by (simp add: ditch_def)
  show ?case
  proof (cases evs)
    case Nil
    then show ?thesis using less.prems(4) d by (subst read_loop.simps) simp
  next
    case (Cons ev r)
    show ?thesis
    proof (cases "ev = Woken \<or> ev = NoInput")
      case True
      then have "read_loop b (length x) evs = read_loop b (length x) r" "stream evs = stream r"
        "list_all quiet r" "sum_list (map event_size r) < sum_list (map event_size evs)"
        using Cons d less.prems(5) by (auto simp: read_loop.simps [of b "length x" "ev # r"])
      then show ?thesis using less.hyps [of r b x ys] less.prems Cons by simp
    next
      case False
      then obtain s where ev: "ev = Bytes s" "s \<noteq> []" using less.prems(5) Cons by (cases ev) auto
      let ?n = "MAX_AT_RESPONSE - length x - 2"
      let ?got = "take ?n s" and ?evs = "unread (drop ?n s) r"
      have st: "x @ stream evs = (x @ ?got) @ stream ?evs" using Cons ev by (auto simp: unread_def)
      have q: "list_all quiet ?evs" using less.prems(5) Cons by (auto simp: unread_def)
      have room: "length ?got + 2 \<le> length ys" using less.prems(1,2) short by auto
      have nul: "NUL \<notin> set (x @ ?got)" "NUL \<notin> set ((x @ ?got) @ stream ?evs)"
        using less.prems(6) unfolding st by auto
      have np: "strip (x @ ?got) \<noteq> prompt"
        by (rule not_prompt_append [of _ "stream ?evs"]) (use less.prems(7) in \<open>simp add: st line_fits_def del: append_assoc\<close>)
      note rc = receive_eq [OF less.prems(1) room less.prems(3) nul(1) np]
      let ?b = "b\<lparr>ATBuffer := (x @ ?got) @ NUL # NUL # drop (length ?got + 2) ys,
        ATBufferCur := length (takeWhile eol (x @ ?got))\<rparr>"
      have len: "length (ATBuffer ?b) = MAX_AT_RESPONSE + 1" using less.prems(1,2) room by simp
      show ?thesis
      proof (cases "has_line (x @ ?got)")
        case True
        have "read_loop b (length x) evs =
            Some (Eol (length (takeWhile eol (x @ ?got)) + length (first_line (x @ ?got))), ?b, ?evs)"
          using Cons ev d rc True by (subst read_loop.simps) (simp add: Let_def)
        then have "found (x @ stream evs) (read_loop b (length x) evs)"
          using True len nul(1) q st unfolding found_def
          by (intro exI [of _ "x @ ?got"] exI [of _ "drop (length ?got + 2) ys"] exI [of _ ?b] exI [of _ ?evs]) simp
        moreover have "has_line (x @ stream evs)" using has_line_append [OF True] st by metis
        ultimately show ?thesis by simp
      next
        case False
        have eq: "read_loop b (length x) evs = read_loop ?b (length (x @ ?got)) ?evs"
          using Cons ev d rc False by (subst read_loop.simps) (simp add: Let_def)
        have "0 < ?n" using short by simp
        then have sz: "sum_list (map event_size ?evs) < sum_list (map event_size evs)"
          using unread_size [OF ev(2), of ?n r] Cons ev by simp
        have "line_fits ((x @ ?got) @ stream ?evs)" using less.prems(7) by (simp only: st)
        from less.hyps [OF sz _ len _ False q nul(2) this, of "NUL # NUL # drop (length ?got + 2) ys"]
        show ?thesis unfolding eq st by simp
      qed
    qed
  qed
qed

text \<open>Between two calls the buffer holds the text \<open>w\<close> that was received and not returned yet.\<close>

definition holds :: "rbuf \<Rightarrow> string \<Rightarrow> bool" where
  "holds b w \<longleftrightarrow> length (ATBuffer b) = MAX_AT_RESPONSE + 1 \<and> ATBufferCur b \<le> MAX_AT_RESPONSE \<and>
     NUL \<notin> set w \<and> (\<exists>z. drop (ATBufferCur b) (ATBuffer b) = w @ NUL # z)"

lemma line_cut:
  assumes "has_line x"
  shows "\<exists>c. eol c \<and> x = takeWhile eol x @ first_line x @ c # behind_line x"
proof -
  have "dropWhile noteol (strip x) \<noteq> []" using assms by (auto simp: has_line_def dropWhile_eq_Nil_conv)
  then obtain c r where c: "dropWhile noteol (strip x) = c # r" by (cases "dropWhile noteol (strip x)") blast+
  then have "eol c" by (simp add: dropWhile_eq_Cons_conv)
  moreover have "strip x = first_line x @ c # behind_line x"
    using c takeWhile_dropWhile_id [of noteol "strip x"] by (simp add: first_line_def behind_line_def)
  ultimately show ?thesis by (metis takeWhile_dropWhile_id)
qed

text \<open>Ending the line at its place in the buffer.\<close>

lemma finish_eq:
  assumes "drop i (ATBuffer b) = x @ NUL # z" "i \<le> length (ATBuffer b)" "length (ATBuffer b) = MAX_AT_RESPONSE + 1"
    and "ATBufferCur b = i + length (takeWhile eol x)" "NUL \<notin> set x" "has_line x"
  shows "\<exists>b'. finish_line b (i + length (takeWhile eol x) + length (first_line x)) = Some (first_line x, b') \<and>
    holds b' (behind_line x)"
proof -
  from line_cut [OF assms(6)] obtain c where c: "x = takeWhile eol x @ first_line x @ c # behind_line x" by blast
  let ?a = "takeWhile eol x" and ?l = "first_line x" and ?r = "behind_line x"
  let ?e = "i + length ?a + length ?l"
  obtain u where buf: "ATBuffer b = u @ ?a @ ?l @ c # ?r @ NUL # z" and ui: "length u = i"
  proof
    show "ATBuffer b = take i (ATBuffer b) @ ?a @ ?l @ c # ?r @ NUL # z"
      using assms(1) c by (metis append.assoc append_Cons append_take_drop_id)
    show "length (take i (ATBuffer b)) = i" using assms(2) by simp
  qed
  have nn: "NUL \<notin> set ?l" "NUL \<notin> set ?r" using assms(5) c by (metis Un_iff set_append list.set_intros(2))+
  have "length (ATBuffer b) = i + length (?a @ ?l @ c # ?r @ NUL # z)" by (subst buf) (simp only: length_append ui)
  then have e: "?e < length (ATBuffer b)" by simp
  have "(ATBuffer b)[?e := NUL] = u @ ?a @ ?l @ NUL # ?r @ NUL # z"
    unfolding buf by (simp add: list_update_append ui [symmetric])
  then have w: "wr (ATBuffer b) ?e NUL = Some (u @ ?a @ ?l @ NUL # ?r @ NUL # z)" using e by (simp add: wr_def)
  have "drop (ATBufferCur b) (u @ ?a @ ?l @ NUL # ?r @ NUL # z) = ?l @ NUL # ?r @ NUL # z"
    using ui assms(4) by simp
  then have line: "takeWhile (\<lambda>c. c \<noteq> NUL) (drop (ATBufferCur b) (u @ ?a @ ?l @ NUL # ?r @ NUL # z)) = ?l"
    using takeWhile_NUL [OF nn(1)] by metis
  let ?b = "b\<lparr>ATBuffer := u @ ?a @ ?l @ NUL # ?r @ NUL # z, ATBufferCur := ?e + 1\<rparr>"
  have len: "length (u @ ?a @ ?l @ NUL # ?r @ NUL # z) = MAX_AT_RESPONSE + 1"
    using assms(3) by (subst (asm) buf) simp
  have "holds ?b ?r" using len nn ui by (simp add: holds_def)
  with w line show ?thesis by (simp add: finish_line_def)
qed

lemma next_eol_finds:
  assumes "holds b w" "list_all quiet evs" "NUL \<notin> set (w @ stream evs)" "line_fits (w @ stream evs)"
    and "s = w @ stream evs"
  shows "if has_line s then (\<exists>l b' w' evs'. readline b evs = Some (LineRead (first_line s), b', evs') \<and>
      holds b' w' \<and> w' @ stream evs' = behind_line s \<and> list_all quiet evs')
    else (\<exists>b'. readline b evs = Some (Pending, b', []))"
proof -
  have by_loop: ?thesis
    if n: "next_eol b evs = read_loop b1 (length x) evs" and b1: "ATBuffer b1 = x @ ys"
      "length (ATBuffer b1) = MAX_AT_RESPONSE + 1" "ATBufferCur b1 = 0" and x: "\<not> has_line x" "NUL \<notin> set x"
      and same: "strip (x @ stream evs) = strip s" "length (takeWhile eol (x @ stream evs)) \<le> length (takeWhile eol s)"
    for b1 x ys
  proof -
    have lines: "has_line (x @ stream evs) = has_line s" "first_line (x @ stream evs) = first_line s"
      "behind_line (x @ stream evs) = behind_line s"
      using same(1) by (simp_all add: has_line_def first_line_def behind_line_def)
    have "line_fits (x @ stream evs)"
      using assms(4,5) same lines by (simp add: line_fits_def)
    moreover have "NUL \<notin> set (x @ stream evs)" using x assms(3) by simp
    ultimately have l: "if has_line s then found (x @ stream evs) (read_loop b1 (length x) evs)
      else (\<exists>b'. read_loop b1 (length x) evs = Some (Blocks, b', []))"
      using loop_finds [of b1 x ys evs] b1 x assms(2) lines by simp
    show ?thesis
    proof (cases "has_line s")
      case False with l n show ?thesis by (auto simp: readline_def)
    next
      case True
      with l obtain y z b2 evs2 where f:
        "read_loop b1 (length x) evs = Some (Eol (length (takeWhile eol y) + length (first_line y)), b2, evs2)"
        "ATBuffer b2 = y @ NUL # NUL # z" "length (ATBuffer b2) = MAX_AT_RESPONSE + 1"
        "ATBufferCur b2 = length (takeWhile eol y)" "NUL \<notin> set y" "has_line y" "y @ stream evs2 = x @ stream evs"
        "list_all quiet evs2" by (auto simp: found_def)
      from finish_eq [of 0 b2 y "NUL # z"] f obtain b3 where
        "finish_line b2 (length (takeWhile eol y) + length (first_line y)) = Some (first_line y, b3)"
        "holds b3 (behind_line y)" by auto
      moreover have "first_line y = first_line s" "behind_line y @ stream evs2 = behind_line s"
        using line_append [OF f(6), of "stream evs2"] lines f(7) by simp_all
      ultimately show ?thesis using f n True by (auto simp: readline_def)
    qed
  qed
  from assms(1) obtain z where h: "length (ATBuffer b) = MAX_AT_RESPONSE + 1" "ATBufferCur b \<le> MAX_AT_RESPONSE"
    "NUL \<notin> set w" "drop (ATBufferCur b) (ATBuffer b) = w @ NUL # z" by (auto simp: holds_def)
  then have rd: "rd (ATBuffer b) (ATBufferCur b) = Some (hd (w @ NUL # z))"
    by (metis hd_drop_conv_nth le_imp_less_Suc rd_Some Suc_eq_plus1)
  show ?thesis
  proof (cases "w = []")
    case True
    have "wr (ATBuffer b) 0 NUL = Some ((ATBuffer b)[0 := NUL])" using h by (simp add: wr_def)
    with rd True have "next_eol b evs =
        read_loop (b\<lparr>ATBuffer := (ATBuffer b)[0 := NUL], ATBufferCur := 0\<rparr>) (length []) evs"
      by (simp add: next_eol_def)
    from by_loop [OF this, of "(ATBuffer b)[0 := NUL]"] h True assms(5) show ?thesis by (simp add: has_line_def)
  next
    case False
    then obtain c w1 where w: "w = c # w1" by (cases w) auto
    with h have c: "c \<noteq> NUL" by auto
    have np: "strip w \<noteq> prompt"
      by (rule not_prompt_append [of _ "stream evs"]) (use assms(4) in \<open>simp add: line_fits_def\<close>)
    have cb: "ATBufferCur b \<le> length (ATBuffer b)" using h by simp
    note sc = scan_text [OF h(4,3) np cb]
    let ?cur = "ATBufferCur b + length (takeWhile eol w)"
    show ?thesis
    proof (cases "has_line w")
      case True
      have "next_eol b evs = Some (Eol (?cur + length (first_line w)), b\<lparr>ATBufferCur := ?cur\<rparr>, evs)"
        using rd w c sc True by (simp add: next_eol_def)
      moreover from finish_eq [of "ATBufferCur b" "b\<lparr>ATBufferCur := ?cur\<rparr>" w z] h True cb
      obtain b3 where "finish_line (b\<lparr>ATBufferCur := ?cur\<rparr>) (?cur + length (first_line w)) = Some (first_line w, b3)"
        "holds b3 (behind_line w)" by auto
      ultimately show ?thesis
        using has_line_append [OF True, of "stream evs"] line_append [OF True, of "stream evs"] assms(2,5)
        by (auto simp: readline_def)
    next
      case nl: False
      have wsplit: "w = takeWhile eol w @ strip w" by simp
      have d: "drop ?cur (ATBuffer b) = strip w @ NUL # z"
      proof -
        have "drop ?cur (ATBuffer b) = drop (length (takeWhile eol w)) (w @ NUL # z)"
          using h(4) by (metis add.commute drop_drop)
        also have "\<dots> = strip w @ NUL # z"
          by (metis append_assoc append_eq_conv_conj takeWhile_dropWhile_id)
        finally show ?thesis .
      qed
      have nn: "NUL \<notin> set (strip w)" using h(3) set_dropWhileD by metis
      have ct: "ctext (ATBuffer b) ?cur = strip w" by (rule ctext_append [OF nn d])
      have ln: "c_strlen (ATBuffer b) ?cur = Some (length (strip w))"
        using c_strlen_eq [of ?cur "ATBuffer b"] d ct by simp
      have "length (drop ?cur (ATBuffer b)) = length (strip w) + Suc (length z)" by (simp add: d)
      then have le: "?cur + (length (strip w) + 1) \<le> length (ATBuffer b)" by (simp only: length_drop)
      let ?buf = "strip w @ NUL # drop (length (strip w) + 1) (ATBuffer b)"
      have cd: "copy_down (ATBuffer b) ?cur (length (strip w) + 1) = Some ?buf"
        using le d by (simp add: copy_down_def)
      have n: "next_eol b evs = read_loop (b\<lparr>ATBuffer := ?buf, ATBufferCur := 0\<rparr>) (length (strip w)) evs"
        using rd w c sc nl ln cd by (simp add: next_eol_def)
      have "length ?buf = MAX_AT_RESPONSE + 1" using le h(1) by simp
      moreover have "\<not> has_line (strip w)" using nl by (simp add: has_line_def)
      moreover have "strip (strip w @ stream evs) = strip s \<and>
          length (takeWhile eol (strip w @ stream evs)) \<le> length (takeWhile eol s)"
      proof (cases "strip w = []")
        case True
        from strip_Nil_append [OF True, of "stream evs"] show ?thesis
          unfolding True assms(5) by simp
      next
        case False
        have "takeWhile eol (strip w) = []" by (induction w) auto
        then show ?thesis
          using strip_append [OF False, of "stream evs"] strip_append [of "strip w" "stream evs"] False
          unfolding assms(5) by simp
      qed
      ultimately show ?thesis using by_loop [OF n] nn by simp
    qed
  qed
qed

text \<open>The buffer of a new channel: \<open>initializeAtContext\<close> clears it.\<close>

definition rbuf_init :: rbuf where
  "rbuf_init = \<lparr>ATBuffer = replicate (MAX_AT_RESPONSE + 1) NUL, ATBufferCur = 0\<rparr>"

text \<open>Up to \<open>n\<close> calls of \<open>readline\<close>, until one does not return a line.\<close>

fun read_lines :: "nat \<Rightarrow> rbuf \<Rightarrow> rd_event list \<Rightarrow> string list option" where
  "read_lines 0 b evs = Some []"
| "read_lines (Suc n) b evs = do {
     (r, b', evs') \<leftarrow> readline b evs;
     case r of LineRead l \<Rightarrow> map_option ((#) l) (read_lines n b' evs') | _ \<Rightarrow> Some []
   }"

text \<open>Any number of calls, each meeting its own events.\<close>

fun read_calls :: "rd_event list list \<Rightarrow> rbuf \<Rightarrow> rbuf option" where
  "read_calls [] b = Some b"
| "read_calls (evs # es) b = do { (_, b', _) \<leftarrow> readline b evs; read_calls es b' }"

lemma rbuf_init_ok: "rbuf_ok rbuf_init"
  by (auto simp: rbuf_ok_def buf_ok_def rbuf_init_def MAX_AT_RESPONSE_def nth_Cons' simp del: replicate.simps)

lemma rbuf_init_holds: "holds rbuf_init []"
  by (auto simp: holds_def rbuf_init_def intro: exI [of _ "replicate MAX_AT_RESPONSE NUL"])

lemma read_calls_ok: "rbuf_ok b \<Longrightarrow> \<exists>b'. read_calls es b = Some b' \<and> rbuf_ok b'"
proof (induction es arbitrary: b)
  case (Cons evs es)
  from readline_ok [OF Cons.prems, of evs] Cons.IH show ?case by fastforce
qed simp

lemma read_lines_all:
  assumes "holds b w" "list_all quiet evs" "NUL \<notin> set (w @ stream evs)" "lines_fit (w @ stream evs)"
    "length (all_lines (w @ stream evs)) \<le> n"
  shows "read_lines n b evs = Some (all_lines (w @ stream evs))"
  using assms
proof (induction n arbitrary: b w evs)
  case 0 then show ?case by simp
next
  case (Suc n)
  let ?s = "w @ stream evs"
  have fit: "line_fits ?s" using Suc.prems(4) by (simp add: lines_fit.simps [of ?s] split: if_splits)
  note f = next_eol_finds [OF Suc.prems(1-3) fit refl]
  show ?case
  proof (cases "has_line ?s")
    case False
    with f show ?thesis by (auto simp: all_lines.simps [of ?s])
  next
    case True
    with f obtain b' w' evs' where r: "readline b evs = Some (LineRead (first_line ?s), b', evs')"
      "holds b' w'" "w' @ stream evs' = behind_line ?s" "list_all quiet evs'" by auto
    obtain c where c: "?s = takeWhile eol ?s @ first_line ?s @ c # behind_line ?s"
      using line_cut [OF True] by blast
    have "set (behind_line ?s) \<subseteq> set ?s" by (subst (2) c) auto
    then have "NUL \<notin> set (w' @ stream evs')" using Suc.prems(3) r(3) by auto
    moreover have "lines_fit (w' @ stream evs')" using Suc.prems(4) True r(3) by (simp add: lines_fit.simps [of ?s])
    moreover have al: "all_lines ?s = first_line ?s # all_lines (w' @ stream evs')"
      using True r(3) all_lines.simps by metis
    ultimately have "read_lines n b' evs' = Some (all_lines (w' @ stream evs'))"
      using Suc.IH [OF r(2,4)] Suc.prems(5) by simp
    then show ?thesis using r(1) al by simp
  qed
qed

section \<open>The properties\<close>

text \<open>C8: the reader never reads or writes outside its buffer, whatever arrives on the channel, in
  whatever portions, over any number of calls from the cleared buffer on.\<close>

theorem reader_never_overruns: "read_calls es rbuf_init \<noteq> None"
  using read_calls_ok [OF rbuf_init_ok, of es] by auto

text \<open>C21: the lines that readline returns are the lines of the byte stream, in order and complete,
  without the empty ones, however the stream is cut into reads.  The stream has no zero byte, no
  line that begins like the prompt, and no line that exceeds the buffer.\<close>

theorem readline_chunking:
  assumes "holds b w" "list_all quiet evs" "NUL \<notin> set (w @ stream evs)" "lines_fit (w @ stream evs)"
    "length (all_lines (w @ stream evs)) \<le> n"
  shows "read_lines n b evs = Some (all_lines (w @ stream evs))"
  by (rule read_lines_all [OF assms])

lemma readline_chunking_witness:
  "read_lines 3 rbuf_init [Bytes (CR # LF # ''OK''), Woken, Bytes (CR # LF # ''+CSQ: '' @ [CR, LF]), Bytes ''R''] =
     Some [''OK'', ''+CSQ: '']"
proof -
  let ?evs = "[Bytes (CR # LF # ''OK''), Woken, Bytes (CR # LF # ''+CSQ: '' @ [CR, LF]), Bytes ''R'']"
  have "read_lines 3 rbuf_init ?evs = Some (all_lines ([] @ stream ?evs))"
  proof (rule readline_chunking [OF rbuf_init_holds])
    show "lines_fit ([] @ stream ?evs)" by code_simp
    show "length (all_lines ([] @ stream ?evs)) \<le> 3" by code_simp
  qed simp_all
  moreover have "all_lines ([] @ stream ?evs) = [''OK'', ''+CSQ: '']" by code_simp
  ultimately show ?thesis by simp
qed

end
