(* ===== verification/At_Error.thy ===== *)
theory At_Error
  imports Prelude
begin

text \<open>
  The error numbers of the AT channel: the tables of \<open>at_error.h\<close>, which the header expands to
  the enumerations and to the texts, the numbering by a base per group, and the functions of
  \<open>atchannel.c\<close> that classify a number.  The functions that send commands return the
  negated number.
\<close>

section \<open>The tables\<close>

definition at_error :: "(string \<times> int) list" where
  "at_error =
    [(''NOERROR'', 0), (''ERROR_GENERIC'', 1), (''ERROR_COMMAND_PENDING'', 2), 
     (''ERROR_CHANNEL_CLOSED'', 3), (''ERROR_TIMEOUT'', 4), (''ERROR_INVALID_THREAD'', 5), 
     (''ERROR_INVALID_RESPONSE'', 6), (''ERROR_MEMORY_ALLOCATION'', 7), (''ERROR_STRING_CREATION'', 8)]"

definition cme_error :: "(string \<times> int) list" where
  "cme_error =
    [(''MODULE_FAILURE'', 0), (''NO_MODULE_CONNECTION'', 1), (''PHONE_ADAPTER_RESERVED'', 2), 
     (''OPERATION_NOT_ALLOWED'', 3), (''OPERATION_NOT_SUPPORTED'', 4), (''PH_SIM_PIN'', 5), 
     (''PH_FSIM_PIN'', 6), (''PH_FSIM_PUK'', 7), (''SIM_NOT_INSERTED'', 10), (''SIM_PIN_REQUIRED'', 11), 
     (''SIM_PUK_REQUIRED'', 12), (''FAILURE'', 13), (''SIM_BUSY'', 14), (''SIM_WRONG'', 15), 
     (''INCORRECT_PASSWORD'', 16), (''SIM_PIN2_REQUIRED'', 17), (''SIM_PUK2_REQUIRED'', 18), 
     (''MEMORY_FULL'', 20), (''INVALID_INDEX'', 21), (''NOT_FOUND'', 22), (''MEMORY_FAILURE'', 23), 
     (''STRING_TO_LONG'', 24), (''INVALID_CHAR'', 25), (''DIALSTR_TO_LONG'', 26), 
     (''INVALID_DIALCHAR'', 27), (''NO_NETWORK_SERVICE'', 30), (''NETWORK_TIMEOUT'', 31), 
     (''NETWORK_NOT_ALLOWED'', 32), (''NETWORK_PERSONALIZATION_PIN_REQUIRED'', 40), 
     (''NETWORK_PERSONALIZATION_PUK_REQUIRED'', 41), 
     (''NETWORK_SUBSET_PERSONALIZATION_PIN_REQUIRED'', 42), 
     (''NETWORK_SUBSET_PERSONALIZATION_PUK_REQUIRED'', 43), 
     (''SERVICE_PROVIDER_PERSONALIZATION_PIN_REQUIRED'', 44), 
     (''SERVICE_PROVIDER_PERSONALIZATION_PUK_REQUIRED'', 45), 
     (''CORPORATE_PERSONALIZATION_PIN_REQUIRED'', 46), (''CORPORATE_PERSONALIZATION_PUK_REQUIRED'', 47), 
     (''HIDDEN_KEY'', 48), (''EAP_NOT_SUPORTED'', 49), (''INCORRECT_PARAMETERS'', 50), (''UNKNOWN'', 100), 
     (''ILLEGAL_MS'', 103), (''ILLEGAL_ME'', 106), (''PLMN_NOT_ALLOWED'', 111), 
     (''LOCATION_AREA_NOT_ALLOWED'', 112), (''ROAMING_AREA_NOT_ALLOWED'', 113), 
     (''SERVICE_NOT_SUPPORTED'', 132), (''SERVICE_NOT_SUBSCRIBED'', 133), 
     (''SERVICE_TEMPORARILY_OUT'', 134), (''UNSPECIFIED_GPRS_ERROR'', 148), (''PDP_AUTH_FAILURE'', 149), 
     (''INVALID_MOBILE_CLASS'', 150), (''PH_SIMLOCK_PIN_REQUIRED'', 200), (''SYNTAX_ERROR'', 257), 
     (''INVALID_PARAMETER'', 258), (''LENGTH_ERROR'', 259), (''SIM_AUTH_FAILURE'', 260), 
     (''SIM_FILE_ERROR'', 261), (''FILE_SYSTEM_ERROR'', 262), (''SERVICE_UNAVIABLE'', 263), 
     (''PHONEBOOK_NOT_READY'', 264), (''PHONEBOOK_NOT_SUPPORTED'', 265), (''COMMAND_TO_LONG'', 266), 
     (''PARAMETER_OUT_OF_RANGE'', 267), (''BAND_NOT_ALLOWED'', 268), 
     (''SUPPLEMENTARY_SERIVEC_FAILURE'', 269), (''COMMAND_ABORTED'', 270), 
     (''ACTION_ALREADY_IN_PROGRESS'', 271), (''WAN_DISABLED'', 272), (''GPS_DISABLE_DUE_TO_TEMP'', 273), 
     (''RADIO_NOT_ACTIVATED'', 274), (''USB_NOT_CONFIGURED'', 275), (''NOT_CONNECTED'', 276), 
     (''NOT_DISCONNECTED'', 277), (''TOO_MANY_CONNECTIONS'', 278), (''TOO_MANY_USERS'', 279), 
     (''FDN_RESTRICITONS'', 280)]"

definition cms_error :: "(string \<times> int) list" where
  "cms_error =
    [(''UNASSIGNED_NUMBER'', 1), (''BARRING'', 8), (''CALL_BARRED'', 10), 
     (''SHORT_MESSAGE_REJECTED'', 21), (''DESTINATION_OUT_OF_SERVICE'', 27), 
     (''UNIDENTIFIED_SUBSCRIBER'', 28), (''FACILITY_REJECTED'', 29), (''UNKNOWN_SUBSCRIBER'', 30), 
     (''NETWORK_OUT_OF_ORDER'', 38), (''TEMP_FAILURE'', 41), (''SMS_CONGESTION'', 42), 
     (''RESOURCE_UNAVAIBLE'', 47), (''REQUESTED_FACILITY_NOT_SUBSCRIBED'', 50), 
     (''REQUESTED_FACILITY_NOT_IMPLEMENTED'', 69), (''INVALID_SMS_REF'', 81), (''INVALID_MESSAGE'', 95), 
     (''INVALID_MANDATORY_INFORMATION'', 96), (''MESSAGE_TYPE_NOT_IMPLEMENTED'', 97), 
     (''MESSAGE_NOT_COMPATIBLE'', 98), (''INFORMATION_ELEMENT_NOT_IMPLEMENTED'', 99), 
     (''PROTOCOL_ERROR'', 111), (''INTERWORKING_UNSPECIFIED'', 127), 
     (''TELEMATIC_INTERWORKING_NOT_SUPPORTED'', 128), (''SHORT_MESSAGE_TYPE_0_NOT_SUPPORTED'', 129), 
     (''CANNOT_REPLACE_SHORT_MESSAGE'', 130), (''UNSPECIFIED_TP_PID_ERROR'', 143), 
     (''DATA_SCHEME_NOT_SUPPORTED'', 144), (''MESSAGE_CLASS_NOT_SUPPORTED'', 145), 
     (''UNSPECIFIED_TP_DCS_ERROR'', 159), (''COMMAND_CANT_BE_ACTIONED'', 160), 
     (''COMMAND_UNSUPPORTED'', 161), (''UNSPECIFIED_TP_COMMAND'', 175), (''TPDU_NOT_SUPPORTED'', 176), 
     (''SC_BUSY'', 192), (''NO_SC_SUBSCRIPTINO'', 193), (''SC_FAILURE'', 194), 
     (''INVALID_SME_ADDRESS'', 195), (''SME_BARRIED'', 196), (''SM_DUPLICATE_REJECTED'', 197), 
     (''TP_VPF_NOT_SUPPORTED'', 198), (''TP_VP_NOT_SUPPORTED'', 199), (''SIM_SMS_FULL'', 208), 
     (''NO_SMS_STORAGE_CAPABILITY'', 209), (''ERROR_IN_MS'', 210), (''MEMORY_CAPACITY_EXCEEDED'', 211), 
     (''STK_BUSY'', 212), (''UNSPECIFIED_ERROR'', 255), (''ME_FAILURE'', 300), 
     (''SMS_OF_ME_RESERVED'', 301), (''SERVICE_OPERATION_NOT_ALLOWED'', 302), 
     (''SERVICE_OPERATION_NOT_SUPPORTED'', 303), (''INVALID_PDU_PARAMETER'', 304), 
     (''INVALID_TEXT_PARAMETER'', 305), (''SERVICE_SIM_NOT_INSERTED'', 310), 
     (''SERVICE_SIM_PIN_REQUIRED'', 311), (''PH_SIM_PIN_REQUIRED'', 312), (''SIM_FAILURE'', 313), 
     (''SERVICE_SIM_BUSY'', 314), (''SERVICE_SIM_WRONG'', 315), (''SIM_PUK_REQUIRED'', 316), 
     (''SERVICE_SIM_PIN2_REQUIRED'', 317), (''SERVICE_SIM_PUK2_REQUIRED'', 318), 
     (''SERVICE_MEMORY_FAILURE'', 320), (''INVALID_MEMORY_INDEX'', 321), (''SERVICE_MEMORY_FULL'', 322), 
     (''SMSC_ADDR_UNKNOWN'', 330), (''NO_NETWORK_SERVICE'', 331), (''NETWORK_TIMEOUT'', 332), 
     (''NO_CNMA'', 340), (''UNKNOWN_ERROR'', 500)]"

definition generic_error :: "(string \<times> int) list" where
  "generic_error =
    [(''ERROR_RESPONSE'', 1), (''NO_CARRIER_RESPONSE'', 2), (''NO_ANSWER_RESPONSE'', 3), 
     (''NO_DIALTONE_RESPONSE'', 4), (''ERROR_UNSPECIFIED'', 5)]"

section \<open>The numbering\<close>

definition AT_ERROR_BASE :: int where "AT_ERROR_BASE = 0"
definition CME_ERROR_BASE :: int where "CME_ERROR_BASE = 1000"
definition CMS_ERROR_BASE :: int where "CMS_ERROR_BASE = 2000"
definition GENERIC_ERROR_BASE :: int where "GENERIC_ERROR_BASE = 3000"

definition AT_ERROR_TOP :: int where "AT_ERROR_TOP = CME_ERROR_BASE - 1"
definition CME_ERROR_TOP :: int where "CME_ERROR_TOP = CMS_ERROR_BASE - 1"
definition CMS_ERROR_TOP :: int where "CMS_ERROR_TOP = GENERIC_ERROR_BASE - 1"
definition GENERIC_ERROR_TOP :: int where "GENERIC_ERROR_TOP = GENERIC_ERROR_BASE + 999"

lemmas error_bases = AT_ERROR_BASE_def CME_ERROR_BASE_def CMS_ERROR_BASE_def GENERIC_ERROR_BASE_def
  AT_ERROR_TOP_def CME_ERROR_TOP_def CMS_ERROR_TOP_def GENERIC_ERROR_TOP_def

datatype AT_Error_type = NONE_ERROR | AT_ERROR | CME_ERROR | CMS_ERROR | GENERIC_ERROR | UNKNOWN_ERROR

text \<open>The members of \<open>MBM_Error\<close> that the code names.\<close>

definition AT_NOERROR :: int where "AT_NOERROR = 0 + AT_ERROR_BASE"
definition AT_ERROR_GENERIC :: int where "AT_ERROR_GENERIC = 1 + AT_ERROR_BASE"
definition AT_ERROR_COMMAND_PENDING :: int where "AT_ERROR_COMMAND_PENDING = 2 + AT_ERROR_BASE"
definition AT_ERROR_CHANNEL_CLOSED :: int where "AT_ERROR_CHANNEL_CLOSED = 3 + AT_ERROR_BASE"
definition AT_ERROR_TIMEOUT :: int where "AT_ERROR_TIMEOUT = 4 + AT_ERROR_BASE"
definition AT_ERROR_INVALID_THREAD :: int where "AT_ERROR_INVALID_THREAD = 5 + AT_ERROR_BASE"
definition AT_ERROR_INVALID_RESPONSE :: int where "AT_ERROR_INVALID_RESPONSE = 6 + AT_ERROR_BASE"
definition AT_ERROR_MEMORY_ALLOCATION :: int where "AT_ERROR_MEMORY_ALLOCATION = 7 + AT_ERROR_BASE"
definition AT_ERROR_STRING_CREATION :: int where "AT_ERROR_STRING_CREATION = 8 + AT_ERROR_BASE"

lemmas at_error_numbers = AT_NOERROR_def AT_ERROR_GENERIC_def AT_ERROR_COMMAND_PENDING_def
  AT_ERROR_CHANNEL_CLOSED_def AT_ERROR_TIMEOUT_def AT_ERROR_INVALID_THREAD_def
  AT_ERROR_INVALID_RESPONSE_def AT_ERROR_MEMORY_ALLOCATION_def AT_ERROR_STRING_CREATION_def error_bases

definition GENERIC_ERROR_RESPONSE :: int where "GENERIC_ERROR_RESPONSE = 1"
definition GENERIC_NO_CARRIER_RESPONSE :: int where "GENERIC_NO_CARRIER_RESPONSE = 2"
definition GENERIC_NO_ANSWER_RESPONSE :: int where "GENERIC_NO_ANSWER_RESPONSE = 3"
definition GENERIC_NO_DIALTONE_RESPONSE :: int where "GENERIC_NO_DIALTONE_RESPONSE = 4"
definition GENERIC_ERROR_UNSPECIFIED :: int where "GENERIC_ERROR_UNSPECIFIED = 5"

text \<open>\<open>merror\<close> adds in \<open>int\<close>.  A sum that does not fit is undefined in C; here it wraps, as it does in the
  registers of the target, and the property about final lines leaves such numbers out.\<close>

fun merror :: "AT_Error_type \<Rightarrow> int \<Rightarrow> int" where
  "merror AT_ERROR e = int32 (AT_ERROR_BASE + e)"
| "merror CME_ERROR e = int32 (CME_ERROR_BASE + e)"
| "merror CMS_ERROR e = int32 (CMS_ERROR_BASE + e)"
| "merror GENERIC_ERROR e = int32 (GENERIC_ERROR_BASE + e)"
| "merror _ e = GENERIC_ERROR_UNSPECIFIED"

lemma merror_small:
  assumes "- 2147483648 \<le> e" "e \<le> 2147480647"
  shows "merror AT_ERROR e = AT_ERROR_BASE + e" "merror CME_ERROR e = CME_ERROR_BASE + e"
    "merror CMS_ERROR e = CMS_ERROR_BASE + e" "merror GENERIC_ERROR e = GENERIC_ERROR_BASE + e"
  using assms by (simp_all add: in_int32_def error_bases)

section \<open>Reading a number\<close>

definition at_get_at_error :: "int \<Rightarrow> int" where
  "at_get_at_error error = (let e = - error in
    if AT_ERROR_BASE \<le> e \<and> e < AT_ERROR_TOP then e - AT_ERROR_BASE else - 1)"

definition at_get_cme_error :: "int \<Rightarrow> int" where
  "at_get_cme_error error = (let e = - error in
    if CME_ERROR_BASE \<le> e \<and> e < CME_ERROR_TOP then e - CME_ERROR_BASE else - 1)"

definition at_get_cms_error :: "int \<Rightarrow> int" where
  "at_get_cms_error error = (let e = - error in
    if CMS_ERROR_BASE \<le> e \<and> e < CMS_ERROR_TOP then e - CMS_ERROR_BASE else - 1)"

definition at_get_generic_error :: "int \<Rightarrow> int" where
  "at_get_generic_error error = (let e = - error in
    if GENERIC_ERROR_BASE \<le> e \<and> e < GENERIC_ERROR_TOP then e - GENERIC_ERROR_BASE else - 1)"

definition at_get_error_type :: "int \<Rightarrow> AT_Error_type" where
  "at_get_error_type error = (let e = - error in
    if e = AT_NOERROR then NONE_ERROR
    else if AT_ERROR_BASE < e \<and> e \<le> AT_ERROR_TOP then AT_ERROR
    else if CME_ERROR_BASE \<le> e \<and> e \<le> CME_ERROR_TOP then CME_ERROR
    else if CMS_ERROR_BASE \<le> e \<and> e \<le> CMS_ERROR_TOP then CMS_ERROR
    else if GENERIC_ERROR_BASE \<le> e \<and> e \<le> GENERIC_ERROR_TOP then GENERIC_ERROR
    else UNKNOWN_ERROR)"

text \<open>The cases of the switch in \<open>at_str_err\<close>, group by group.\<close>

definition error_names :: "(int \<times> string) list" where
  "error_names =
     map (\<lambda>(n, k). (k + AT_ERROR_BASE, ''AT_'' @ n)) at_error @
     map (\<lambda>(n, k). (k + CME_ERROR_BASE, ''CME_'' @ n)) cme_error @
     map (\<lambda>(n, k). (k + CMS_ERROR_BASE, ''CMS_'' @ n)) cms_error @
     map (\<lambda>(n, k). (k + GENERIC_ERROR_BASE, ''GENERIC_'' @ n)) generic_error"

definition at_str_err :: "int \<Rightarrow> string" where
  "at_str_err error = (case map_of error_names (- error) of Some s \<Rightarrow> s | None \<Rightarrow> ''--UNKNOWN--'')"

text \<open>A group's table and the range of its numbers.\<close>

fun group_table :: "AT_Error_type \<Rightarrow> (string \<times> int) list" where
  "group_table AT_ERROR = at_error"
| "group_table CME_ERROR = cme_error"
| "group_table CMS_ERROR = cms_error"
| "group_table GENERIC_ERROR = generic_error"
| "group_table _ = []"

fun group_number :: "AT_Error_type \<Rightarrow> int \<Rightarrow> int" where
  "group_number AT_ERROR e = at_get_at_error e"
| "group_number CME_ERROR e = at_get_cme_error e"
| "group_number CMS_ERROR e = at_get_cms_error e"
| "group_number GENERIC_ERROR e = at_get_generic_error e"
| "group_number _ e = - 1"

fun group_prefix :: "AT_Error_type \<Rightarrow> string" where
  "group_prefix AT_ERROR = ''AT_''"
| "group_prefix CME_ERROR = ''CME_''"
| "group_prefix CMS_ERROR = ''CMS_''"
| "group_prefix GENERIC_ERROR = ''GENERIC_''"
| "group_prefix _ = []"

lemma table_ranges:
  "\<forall>(n, k) \<in> set at_error. 0 \<le> k \<and> k < 999"
  "\<forall>(n, k) \<in> set cme_error. 0 \<le> k \<and> k < 999"
  "\<forall>(n, k) \<in> set cms_error. 0 \<le> k \<and> k < 999"
  "\<forall>(n, k) \<in> set generic_error. 0 \<le> k \<and> k < 999"
  by (simp_all add: at_error_def cme_error_def cms_error_def generic_error_def)

lemma table_distinct:
  "distinct (map snd at_error)" "distinct (map snd cme_error)"
  "distinct (map snd cms_error)" "distinct (map snd generic_error)"
  by (simp_all add: at_error_def cme_error_def cms_error_def generic_error_def)

lemma map_fst_shift: "map fst (map (\<lambda>(n, k). (k + b, p n)) t) = map (\<lambda>k. k + b) (map snd t)"
  for b :: int
  by (induction t) auto

lemma distinct_shift: "distinct (map (\<lambda>k. k + b) ks) = distinct ks" for b :: int
  by (simp add: distinct_map inj_on_def)

lemma mem_shift: "(n, k) \<in> set t \<Longrightarrow> (k + b, p n) \<in> set (map (\<lambda>(n, k). (k + b, p n)) t)"
  for b :: int
  by force

lemma error_names_distinct: "distinct (map fst error_names)"
proof -
  have disj: "(\<lambda>k. k + a) ` set (map snd s) \<inter> (\<lambda>k. k + b) ` set (map snd t) = {}"
    if "\<forall>(n, k) \<in> set s. 0 \<le> k \<and> k < 999" "\<forall>(n, k) \<in> set t. 0 \<le> k \<and> k < 999" "a + 1000 \<le> b"
    for s t :: "(string \<times> int) list" and a b
    using that by fastforce
  have shift: "distinct (map fst (map (\<lambda>(n, k). (k + b, p n)) t))" if "distinct (map snd t)"
    for b :: int and p :: "string \<Rightarrow> string" and t :: "(string \<times> int) list"
    unfolding map_fst_shift distinct_shift by (rule that)
  have keys: "fst ` set (map (\<lambda>(n, k). (k + b, p n)) t) = (\<lambda>k. k + b) ` set (map snd t)"
    for b :: int and p :: "string \<Rightarrow> string" and t
    by force
  note r = table_ranges
  show ?thesis
    unfolding error_names_def map_append distinct_append set_append set_map [of fst] Int_Un_distrib keys
    using shift [OF table_distinct(1)] shift [OF table_distinct(2)] shift [OF table_distinct(3)]
      shift [OF table_distinct(4)]
      disj [OF r(1) r(2), of AT_ERROR_BASE CME_ERROR_BASE] disj [OF r(1) r(3), of AT_ERROR_BASE CMS_ERROR_BASE]
      disj [OF r(1) r(4), of AT_ERROR_BASE GENERIC_ERROR_BASE]
      disj [OF r(2) r(3), of CME_ERROR_BASE CMS_ERROR_BASE] disj [OF r(2) r(4), of CME_ERROR_BASE GENERIC_ERROR_BASE]
      disj [OF r(3) r(4), of CMS_ERROR_BASE GENERIC_ERROR_BASE]
    by (simp only: error_bases Un_empty)
qed

text \<open>an error number keeps its group, its number within the group and its name: for every entry
  of the four tables the number that the channel returns is classified as of that group (the entry
  0 of the first group is no error), gives back the entry's number, and prints as the entry's name.\<close>

theorem error_number_roundtrip:
  assumes "(n, k) \<in> set (group_table g)"
  shows "at_get_error_type (- merror g k) = (if merror g k = AT_NOERROR then NONE_ERROR else g) \<and>
    group_number g (- merror g k) = k \<and> at_str_err (- merror g k) = group_prefix g @ n"
proof -
  have range: "0 \<le> k \<and> k < 999" using assms table_ranges by (cases g) auto
  then have m: "merror AT_ERROR k = AT_ERROR_BASE + k" "merror CME_ERROR k = CME_ERROR_BASE + k"
    "merror CMS_ERROR k = CMS_ERROR_BASE + k" "merror GENERIC_ERROR k = GENERIC_ERROR_BASE + k"
    by (simp_all add: merror_small del: merror.simps)
  have str: "at_str_err (- m) = s" if "(m, s) \<in> set error_names" for m s
    using map_of_is_SomeI [OF error_names_distinct that] by (simp add: at_str_err_def)
  have mem: "(merror g k, group_prefix g @ n) \<in> set error_names"
  proof (cases g)
    case AT_ERROR
    with assms show ?thesis unfolding error_names_def set_append
      using mem_shift [of n k at_error AT_ERROR_BASE "\<lambda>n. ''AT_'' @ n"] by (simp only: Un_iff group_table.simps m group_prefix.simps add.commute simp_thms)
  next
    case CME_ERROR
    with assms show ?thesis unfolding error_names_def set_append
      using mem_shift [of n k cme_error CME_ERROR_BASE "\<lambda>n. ''CME_'' @ n"] by (simp only: Un_iff group_table.simps m group_prefix.simps add.commute simp_thms)
  next
    case CMS_ERROR
    with assms show ?thesis unfolding error_names_def set_append
      using mem_shift [of n k cms_error CMS_ERROR_BASE "\<lambda>n. ''CMS_'' @ n"] by (simp only: Un_iff group_table.simps m group_prefix.simps add.commute simp_thms)
  next
    case GENERIC_ERROR
    with assms show ?thesis unfolding error_names_def set_append
      using mem_shift [of n k generic_error GENERIC_ERROR_BASE "\<lambda>n. ''GENERIC_'' @ n"] by (simp only: Un_iff group_table.simps m group_prefix.simps add.commute simp_thms)
  qed (use assms in simp_all)
  note name = str [OF mem]
  from range name assms show ?thesis
    by (cases g) (simp_all add: m at_get_error_type_def at_get_at_error_def at_get_cme_error_def
        at_get_cms_error_def at_get_generic_error_def at_error_numbers Let_def del: merror.simps(1-4))
qed

lemma error_number_roundtrip_witness:
  "at_get_error_type (- merror CME_ERROR 10) = (if merror CME_ERROR 10 = AT_NOERROR then NONE_ERROR else CME_ERROR) \<and>
    group_number CME_ERROR (- merror CME_ERROR 10) = 10 \<and>
    at_str_err (- merror CME_ERROR 10) = group_prefix CME_ERROR @ ''SIM_NOT_INSERTED''"
  by (rule error_number_roundtrip) (simp add: cme_error_def)

end
