(* ===== verification/At_Channel.thy ===== *)
theory At_Channel
  imports At_Error At_Tok Misc
begin

text \<open>
  The AT channel of \<open>atchannel.c\<close>: what the reader thread does with a line (\<open>processLine\<close>,
  \<open>readerLoop\<close>), how a command is written and its answer awaited
  (\<open>at_send_command_full_nolock\<close>), and the functions that the RIL calls.

  The model of one command is sequential: the thread that sends it holds the request mutex, and
  what happens while it waits is a list of events.  A line is handled by the reader; the
  condition of the wait is looked at when the thread wakes, which may be some lines later.  The
  competition of several threads is in \<open>At_Threads\<close>.  \<open>None\<close> is a fault or a wait that has not
  ended with the events given.
\<close>

section \<open>The context\<close>

datatype ATCommandType = NO_RESULT | NUMERIC | SINGLELINE | MULTILINE

record ATResponse =
  success :: int
  finalResponse :: "string option"
  p_intermediates :: "string list"

text \<open>
  What \<open>write\<close> reports, call by call: bytes written, an interruption by a signal, a failure.
\<close>

datatype write_result = Wrote nat | Interrupted | WriteFailed

text \<open>
  The part of \<open>struct atcontext\<close> that commands use.  \<open>sent\<close> is what was written to the
  descriptor so far, \<open>writes\<close> what \<open>write\<close> will report, \<open>unsol\<close> the calls of the handler of
  unsolicited lines, \<open>timeouts\<close> and \<open>closings\<close> count the calls of the two callbacks.
\<close>

record atcontext =
  fd :: int
  unsolHandler :: bool
  ctype :: ATCommandType
  responsePrefix :: "string option"
  smsPDU :: "string option"
  response :: "ATResponse option"
  onTimeout :: bool
  onReaderClosed_set :: bool
  readerClosed :: bool
  timeoutMsec :: int
  sent :: string
  writes :: "write_result list"
  unsol :: "(string \<times> string option) list"
  timeouts :: nat
  closings :: nat

section \<open>The reader's side\<close>

definition s_finalResponsesError :: "string list" where
  "s_finalResponsesError =
    [''ERROR'', ''+CMS ERROR:'', ''+CME ERROR:'', ''NO CARRIER'', ''NO ANSWER'', ''NO DIALTONE'']"

definition isFinalResponseError :: "string \<Rightarrow> bool" where
  "isFinalResponseError line = list_ex (strStartsWith line) s_finalResponsesError"

definition s_finalResponsesSuccess :: "string list" where
  "s_finalResponsesSuccess = [''OK'', ''CONNECT'']"

definition isFinalResponseSuccess :: "string \<Rightarrow> bool" where
  "isFinalResponseSuccess line = list_ex (strStartsWith line) s_finalResponsesSuccess"

definition s_smsUnsoliciteds :: "string list" where
  "s_smsUnsoliciteds = [''+CMT:'', ''+CDS:'', ''+CBM:'']"

definition isSMSUnsolicited :: "string \<Rightarrow> bool" where
  "isSMSUnsolicited line = list_ex (strStartsWith line) s_smsUnsoliciteds"

text \<open>The lines are kept in reverse order while they arrive.\<close>

definition addIntermediate :: "string \<Rightarrow> ATResponse \<Rightarrow> atcontext \<Rightarrow> atcontext" where
  "addIntermediate line r ac = ac\<lparr>response := Some (r\<lparr>p_intermediates := line # p_intermediates r\<rparr>)\<rparr>"

definition handleFinalResponse :: "string \<Rightarrow> ATResponse \<Rightarrow> atcontext \<Rightarrow> atcontext" where
  "handleFinalResponse line r ac = ac\<lparr>response := Some (r\<lparr>finalResponse := Some line\<rparr>)\<rparr>"

definition handleUnsolicited :: "string \<Rightarrow> atcontext \<Rightarrow> atcontext" where
  "handleUnsolicited line ac = (if unsolHandler ac then ac\<lparr>unsol := unsol ac @ [(line, None)]\<rparr> else ac)"

text \<open>\<open>while (cur < len)\<close> in \<open>writeline\<close> and \<open>writeCtrlZ\<close>: did it succeed, what was written, what is left of \<open>writes\<close>.\<close>

fun write_main :: "string \<Rightarrow> write_result list \<Rightarrow> (bool \<times> string \<times> write_result list) option" where
  "write_main [] ws = Some (True, [], ws)"
| "write_main (c # s) [] = None"
| "write_main (c # s) (Wrote n # ws) =
     map_option (\<lambda>(ok, out, ws'). (ok, take n (c # s) @ out, ws')) (write_main (drop n (c # s)) ws)"
| "write_main (c # s) (Interrupted # ws) = write_main (c # s) ws"
| "write_main (c # s) (WriteFailed # ws) = Some (False, [], ws)"

fun write_last :: "char \<Rightarrow> write_result list \<Rightarrow> (bool \<times> string \<times> write_result list) option" where
  "write_last c [] = None"
| "write_last c (Wrote n # ws) = (if n = 0 then write_last c ws else Some (True, [c], ws))"
| "write_last c (Interrupted # ws) = write_last c ws"
| "write_last c (WriteFailed # ws) = Some (False, [], ws)"

definition write_with :: "char \<Rightarrow> string \<Rightarrow> atcontext \<Rightarrow> (int \<times> atcontext) option" where
  "write_with c s ac =
    (if fd ac < 0 \<or> readerClosed ac then Some (AT_ERROR_CHANNEL_CLOSED, ac)
     else do {
       (ok, out, ws) \<leftarrow> write_main s (writes ac);
       let ac1 = ac\<lparr>sent := sent ac @ out, writes := ws\<rparr>;
       if \<not> ok then Some (AT_ERROR_GENERIC, ac1) else do {
         (ok2, out2, ws2) \<leftarrow> write_last c ws;
         let ac2 = ac1\<lparr>sent := sent ac1 @ out2, writes := ws2\<rparr>;
         Some (if ok2 then 0 else AT_ERROR_GENERIC, ac2)
       }
     })"

definition writeline :: "string \<Rightarrow> atcontext \<Rightarrow> (int \<times> atcontext) option" where
  "writeline s ac = write_with (CHR 0x0D) s ac"

definition writeCtrlZ :: "string \<Rightarrow> atcontext \<Rightarrow> (int \<times> atcontext) option" where
  "writeCtrlZ s ac = write_with (CHR 0x1A) s ac"

definition at_prompt :: string where "at_prompt = ''> ''"

fun starts_digit :: "string \<Rightarrow> bool" where
  "starts_digit [] = False"
| "starts_digit (c # _) = isdigit c"

definition processLine :: "string \<Rightarrow> atcontext \<Rightarrow> atcontext option" where
  "processLine line ac =
    (case response ac of
       None \<Rightarrow> Some (handleUnsolicited line ac)
     | Some r \<Rightarrow>
         if isFinalResponseSuccess line then Some (handleFinalResponse line (r\<lparr>success := 1\<rparr>) ac)
         else if isFinalResponseError line then Some (handleFinalResponse line (r\<lparr>success := 0\<rparr>) ac)
         else if smsPDU ac \<noteq> None \<and> line = at_prompt then do {
           (_, ac1) \<leftarrow> writeCtrlZ (the (smsPDU ac)) ac;
           Some (ac1\<lparr>smsPDU := None\<rparr>)
         }
         else (case ctype ac of
             NO_RESULT \<Rightarrow> Some (handleUnsolicited line ac)
           | NUMERIC \<Rightarrow>
               Some (if p_intermediates r = [] \<and> starts_digit line then addIntermediate line r ac
                     else handleUnsolicited line ac)
           | SINGLELINE \<Rightarrow>
               if p_intermediates r = [] then (case responsePrefix ac of
                   None \<Rightarrow> None
                 | Some p \<Rightarrow> Some (if strStartsWith line p then addIntermediate line r ac
                                   else handleUnsolicited line ac))
               else Some (handleUnsolicited line ac)
           | MULTILINE \<Rightarrow> (case responsePrefix ac of
                 None \<Rightarrow> None
               | Some p \<Rightarrow> Some (if strStartsWith line p then addIntermediate line r ac
                                 else handleUnsolicited line ac))))"

definition onReaderClosed :: "atcontext \<Rightarrow> atcontext" where
  "onReaderClosed ac =
    (if onReaderClosed_set ac \<and> \<not> readerClosed ac
     then ac\<lparr>readerClosed := True, closings := closings ac + 1\<rparr> else ac)"

text \<open>The reader's loop over the lines that \<open>readline\<close> returns before it returns \<open>NULL\<close>.\<close>

fun readerLoop :: "string list \<Rightarrow> atcontext \<Rightarrow> atcontext option" where
  "readerLoop [] ac = Some (onReaderClosed ac)"
| "readerLoop [line] ac =
    (if isSMSUnsolicited line then Some (onReaderClosed ac)
     else map_option onReaderClosed (processLine line ac))"
| "readerLoop (line # line2 # lines) ac =
    (if isSMSUnsolicited line
     then readerLoop lines (if unsolHandler ac then ac\<lparr>unsol := unsol ac @ [(line, Some line2)]\<rparr> else ac)
     else do { ac1 \<leftarrow> processLine line ac; readerLoop (line2 # lines) ac1 })"

section \<open>The command's side\<close>

definition clearPendingCommand :: "atcontext \<Rightarrow> atcontext" where
  "clearPendingCommand ac = ac\<lparr>response := None, responsePrefix := None, smsPDU := None\<rparr>"

text \<open>\<open>at_get_error\<close>; a \<open>NULL\<close> response is \<open>None\<close>.\<close>

definition at_get_error :: "ATResponse option \<Rightarrow> int option" where
  "at_get_error p_response =
    (case p_response of
       None \<Rightarrow> Some (merror GENERIC_ERROR GENERIC_ERROR_UNSPECIFIED)
     | Some r \<Rightarrow>
         if 0 < success r then Some AT_NOERROR
         else (case finalResponse r of
             None \<Rightarrow> Some AT_ERROR_INVALID_RESPONSE
           | Some f \<Rightarrow>
               if isFinalResponseSuccess f then Some AT_NOERROR
               else (case at_tok_start (Some f) of (err, p_cur) \<Rightarrow>
                 if err < 0 then Some (merror GENERIC_ERROR GENERIC_ERROR_UNSPECIFIED)
                 else do {
                   (err2, ret, _) \<leftarrow> at_tok_nextint p_cur (Some 0);
                   if err2 < 0 then Some (merror GENERIC_ERROR GENERIC_ERROR_UNSPECIFIED)
                   else Some
                    (if strStartsWith f ''+CME ERROR:'' then merror CME_ERROR (the ret)
                     else if strStartsWith f ''+CMS ERROR:'' then merror CMS_ERROR (the ret)
                     else if strStartsWith f ''ERROR:'' then merror GENERIC_ERROR GENERIC_ERROR_RESPONSE
                     else if strStartsWith f ''+NO CARRIER:'' then merror GENERIC_ERROR GENERIC_NO_CARRIER_RESPONSE
                     else if strStartsWith f ''+NO ANSWER:'' then merror GENERIC_ERROR GENERIC_NO_ANSWER_RESPONSE
                     else if strStartsWith f ''+NO DIALTONE:'' then merror GENERIC_ERROR GENERIC_NO_DIALTONE_RESPONSE
                     else merror GENERIC_ERROR GENERIC_ERROR_UNSPECIFIED)
                 })))"

definition at_close :: "atcontext \<Rightarrow> atcontext" where
  "at_close ac = ac\<lparr>fd := - 1, readerClosed := True\<rparr>"

definition at_open :: "int \<Rightarrow> bool \<Rightarrow> atcontext \<Rightarrow> atcontext" where
  "at_open f h ac = ac\<lparr>fd := f, unsolHandler := h, readerClosed := False, responsePrefix := None,
     smsPDU := None, response := None\<rparr>"

definition at_response_new :: ATResponse where
  "at_response_new = \<lparr>success = 0, finalResponse = None, p_intermediates = []\<rparr>"

text \<open>\<open>reverseIntermediates\<close>, with the two lists of its loop.\<close>

fun reverse_loop :: "string list \<Rightarrow> string list \<Rightarrow> string list" where
  "reverse_loop [] acc = acc"
| "reverse_loop (pcur # pnext) acc = reverse_loop pnext (pcur # acc)"

definition reverseIntermediates :: "ATResponse \<Rightarrow> ATResponse" where
  "reverseIntermediates r = r\<lparr>p_intermediates := reverse_loop (p_intermediates r) []\<rparr>"

text \<open>What the reader and others do while a command waits: \<open>Line\<close> is a line that \<open>readerLoop\<close> gives to \<open>processLine\<close>, and
  \<open>Message\<close> the two lines of a message, which it gives to the handler by itself.\<close>

datatype wait_event = Line string | Message string string | ReaderGone | Closed_by_us | Wake | TimedOut

text \<open>The wait for the final response: blocked on the condition, with the timeout of the call.\<close>

definition wait_over :: "atcontext \<Rightarrow> bool option" where
  "wait_over ac = map_option (\<lambda>r. finalResponse r \<noteq> None \<or> readerClosed ac) (response ac)"

fun wait_response :: "int \<Rightarrow> wait_event list \<Rightarrow> atcontext \<Rightarrow> (int \<times> atcontext \<times> wait_event list) option" where
  "wait_response tmo [] ac = None"
| "wait_response tmo (Line l # es) ac = do { ac1 \<leftarrow> processLine l ac; wait_response tmo es ac1 }"
| "wait_response tmo (Message l1 l2 # es) ac =
    wait_response tmo es (if unsolHandler ac then ac\<lparr>unsol := unsol ac @ [(l1, Some l2)]\<rparr> else ac)"
| "wait_response tmo (ReaderGone # es) ac = wait_response tmo es (onReaderClosed ac)"
| "wait_response tmo (Closed_by_us # es) ac = wait_response tmo es (at_close ac)"
| "wait_response tmo (Wake # es) ac = do {
     over \<leftarrow> wait_over ac;
     if over then Some (AT_NOERROR, ac, es) else wait_response tmo es ac }"
| "wait_response tmo (TimedOut # es) ac =
     (if tmo \<noteq> 0 then Some (AT_ERROR_TIMEOUT, ac, es) else wait_response tmo es ac)"

text \<open>What a send returns: the error, what is stored in \<open>*pp_outResponse\<close>, the context and the events left.\<close>

type_synonym send_result = "(int \<times> ATResponse option \<times> atcontext \<times> wait_event list) option"

text \<open>The steps of \<open>at_send_command_full_nolock\<close>: the start, under the request mutex, and the end of the wait.\<close>

definition send_begin ::
    "string \<Rightarrow> ATCommandType \<Rightarrow> string option \<Rightarrow> string option \<Rightarrow> bool \<Rightarrow> atcontext \<Rightarrow> (int \<times> atcontext) option" where
  "send_begin command type prefix pdu mem ac =
    (if response ac \<noteq> None then Some (AT_ERROR_COMMAND_PENDING, ac)
     else let ac1 = ac\<lparr>ctype := type, responsePrefix := prefix, smsPDU := pdu\<rparr> in
       if \<not> mem then Some (AT_ERROR_MEMORY_ALLOCATION, ac1)
       else writeline command (ac1\<lparr>response := Some at_response_new\<rparr>))"

definition send_end :: "bool \<Rightarrow> atcontext \<Rightarrow> (int \<times> ATResponse option \<times> atcontext) option" where
  "send_end want ac = do {
     r \<leftarrow> response ac;
     err \<leftarrow> (if success r = 0 then at_get_error (Some r) else Some AT_NOERROR);
     let out = (if want then Some (reverseIntermediates r) else None);
     let ac1 = ac\<lparr>response := None\<rparr>;
     Some (if readerClosed ac1 then AT_ERROR_CHANNEL_CLOSED else err, out, ac1)
   }"

definition at_send_command_full_nolock ::
    "string \<Rightarrow> ATCommandType \<Rightarrow> string option \<Rightarrow> string option \<Rightarrow> int \<Rightarrow> bool \<Rightarrow> bool \<Rightarrow>
     wait_event list \<Rightarrow> atcontext \<Rightarrow> send_result" where
  "at_send_command_full_nolock command type prefix pdu tmo want mem evs ac = do {
     (err, ac1) \<leftarrow> send_begin command type prefix pdu mem ac;
     if err \<noteq> AT_NOERROR then Some (err, None, clearPendingCommand ac1, evs)
     else do {
       over \<leftarrow> wait_over ac1;
       (err1, ac2, evs1) \<leftarrow> (if over then Some (AT_NOERROR, ac1, evs) else wait_response tmo evs ac1);
       if err1 = AT_ERROR_TIMEOUT then Some (err1, None, clearPendingCommand ac2, evs1)
       else do {
         (err2, out, ac3) \<leftarrow> send_end want ac2;
         Some (err2, out, clearPendingCommand ac3, evs1)
       }
     }
   }"

definition BUFFSIZE :: nat where "BUFFSIZE = 512"

text \<open>
  \<open>vsnprintf\<close> into the buffer of \<open>BUFFSIZE\<close> bytes: the formatted text is cut without notice.
  \<open>reader\<close> says whether the caller is the reader thread; \<open>useap\<close> whether the text is formatted.
\<close>

definition at_send_command_full ::
    "bool \<Rightarrow> string \<Rightarrow> ATCommandType \<Rightarrow> string option \<Rightarrow> string option \<Rightarrow> int \<Rightarrow> bool \<Rightarrow> bool \<Rightarrow> bool \<Rightarrow>
     wait_event list \<Rightarrow> atcontext \<Rightarrow> send_result" where
  "at_send_command_full reader command type prefix pdu tmo want useap mem evs ac =
    (if reader then Some (AT_ERROR_INVALID_THREAD, None, ac, evs)
     else if useap \<and> command = [] then Some (AT_ERROR_STRING_CREATION, None, ac, evs)
     else do {
       let ptr = (if useap then take (BUFFSIZE - 1) command else command);
       (err, out, ac1, evs1) \<leftarrow> at_send_command_full_nolock ptr type prefix pdu tmo want mem evs ac;
       let ac2 = (if err = AT_ERROR_TIMEOUT \<and> onTimeout ac1 then ac1\<lparr>timeouts := timeouts ac1 + 1\<rparr> else ac1);
       Some (err, out, ac2, evs1)
     })"

text \<open>The checks of the callers: an answer is missing; a response is freed when there was an error.\<close>

definition need_intermediate :: "int \<times> ATResponse option \<times> 'a \<Rightarrow> int \<times> ATResponse option \<times> 'a" where
  "need_intermediate r = (case r of (err, out, x) \<Rightarrow>
     (if err = AT_NOERROR \<and> out \<noteq> None \<and> p_intermediates (the out) = [] then AT_ERROR_INVALID_RESPONSE else err, out, x))"

definition free_on_error :: "int \<times> ATResponse option \<times> 'a \<Rightarrow> int \<times> ATResponse option \<times> 'a" where
  "free_on_error r = (case r of (err, out, x) \<Rightarrow> (err, if err \<noteq> AT_NOERROR then None else out, x))"

definition negate_error :: "int \<times> ATResponse option \<times> 'a \<Rightarrow> int \<times> ATResponse option \<times> 'a" where
  "negate_error r = (case r of (err, x) \<Rightarrow> (- err, x))"

definition at_send_command :: "bool \<Rightarrow> bool \<Rightarrow> string \<Rightarrow> wait_event list \<Rightarrow> atcontext \<Rightarrow> send_result" where
  "at_send_command reader mem command evs ac = map_option negate_error
    (at_send_command_full reader command NO_RESULT None None (timeoutMsec ac) False True mem evs ac)"

definition at_send_command_raw :: "bool \<Rightarrow> bool \<Rightarrow> string \<Rightarrow> bool \<Rightarrow> wait_event list \<Rightarrow> atcontext \<Rightarrow> send_result" where
  "at_send_command_raw reader mem command want evs ac = map_option negate_error
    (at_send_command_full reader command MULTILINE (Some []) None (timeoutMsec ac) want False mem evs ac)"

definition at_send_command_singleline ::
    "bool \<Rightarrow> bool \<Rightarrow> string \<Rightarrow> string \<Rightarrow> bool \<Rightarrow> wait_event list \<Rightarrow> atcontext \<Rightarrow> send_result" where
  "at_send_command_singleline reader mem command prefix want evs ac =
    map_option (negate_error \<circ> free_on_error \<circ> need_intermediate)
      (at_send_command_full reader command SINGLELINE (Some prefix) None (timeoutMsec ac) want True mem evs ac)"

definition at_send_command_numeric :: "bool \<Rightarrow> bool \<Rightarrow> string \<Rightarrow> bool \<Rightarrow> wait_event list \<Rightarrow> atcontext \<Rightarrow> send_result" where
  "at_send_command_numeric reader mem command want evs ac =
    map_option (negate_error \<circ> free_on_error \<circ> need_intermediate)
      (at_send_command_full reader command NUMERIC None None (timeoutMsec ac) want False mem evs ac)"

definition at_send_command_sms ::
    "bool \<Rightarrow> bool \<Rightarrow> string \<Rightarrow> string \<Rightarrow> string \<Rightarrow> bool \<Rightarrow> wait_event list \<Rightarrow> atcontext \<Rightarrow> send_result" where
  "at_send_command_sms reader mem command pdu prefix want evs ac =
    map_option (negate_error \<circ> free_on_error \<circ> need_intermediate)
      (at_send_command_full reader command SINGLELINE (Some prefix) (Some pdu) (timeoutMsec ac) want False mem evs ac)"

definition at_send_command_multiline ::
    "bool \<Rightarrow> bool \<Rightarrow> string \<Rightarrow> string \<Rightarrow> bool \<Rightarrow> wait_event list \<Rightarrow> atcontext \<Rightarrow> send_result" where
  "at_send_command_multiline reader mem command prefix want evs ac =
    map_option (negate_error \<circ> free_on_error)
      (at_send_command_full reader command MULTILINE (Some prefix) None (timeoutMsec ac) want True mem evs ac)"

definition at_set_timeout_msec :: "int \<Rightarrow> atcontext \<Rightarrow> atcontext" where
  "at_set_timeout_msec t ac = ac\<lparr>timeoutMsec := t\<rparr>"

definition at_set_on_timeout :: "bool \<Rightarrow> atcontext \<Rightarrow> atcontext" where
  "at_set_on_timeout h ac = ac\<lparr>onTimeout := h\<rparr>"

definition at_set_on_reader_closed :: "bool \<Rightarrow> atcontext \<Rightarrow> atcontext" where
  "at_set_on_reader_closed h ac = ac\<lparr>onReaderClosed_set := h\<rparr>"

definition HANDSHAKE_RETRY_COUNT :: nat where "HANDSHAKE_RETRY_COUNT = 8"
definition HANDSHAKE_TIMEOUT_MSEC :: int where "HANDSHAKE_TIMEOUT_MSEC = 250"

text \<open>The loop of \<open>at_handshake\<close>; it returns the error itself, not negated.\<close>

fun handshake_loop :: "nat \<Rightarrow> int \<Rightarrow> bool \<Rightarrow> wait_event list \<Rightarrow> atcontext \<Rightarrow> (int \<times> atcontext \<times> wait_event list) option" where
  "handshake_loop 0 err mem evs ac = Some (err, ac, evs)"
| "handshake_loop (Suc n) err mem evs ac = do {
     (err1, _, ac1, evs1) \<leftarrow> at_send_command_full_nolock ''ATE0Q0V1'' NO_RESULT None None
        HANDSHAKE_TIMEOUT_MSEC False mem evs ac;
     if err1 = 0 then Some (err1, ac1, evs1) else handshake_loop n err1 mem evs1 ac1
   }"

definition at_handshake :: "bool \<Rightarrow> bool \<Rightarrow> wait_event list \<Rightarrow> atcontext \<Rightarrow> (int \<times> atcontext \<times> wait_event list) option" where
  "at_handshake reader mem evs ac =
    (if reader then Some (AT_ERROR_INVALID_THREAD, ac, evs)
     else handshake_loop HANDSHAKE_RETRY_COUNT 0 mem evs ac)"

end
