(* ===== verification/At_Command.thy ===== *)
theory At_Command
  imports At_Channel
begin

text \<open>
  What the commands of the AT channel do: where each line of an answer goes, what the callers get
  back, and the contract that the RIL relies on, as a locale with its interpretation on the model
  of \<open>atchannel.c\<close>.
\<close>

section \<open>Writing\<close>

lemma write_main_sent: "write_main s ws = Some (True, out, ws') \<Longrightarrow> out = s"
proof (induction s ws arbitrary: out rule: write_main.induct)
  case (3 c s n ws)
  then obtain out1 where "write_main (drop n (c # s)) ws = Some (True, out1, ws')" "out = take n (c # s) @ out1"
    by (auto split: prod.splits)
  with 3(1) [of out1] show ?case by (metis append_take_drop_id)
qed (auto split: if_splits)

lemma write_last_sent: "write_last c ws = Some (True, out, ws') \<Longrightarrow> out = [c]"
  by (induction c ws rule: write_last.induct) (auto split: if_splits)

lemma write_main_prefix: "write_main s ws = Some (ok, out, ws') \<Longrightarrow> \<exists>r. s = out @ r"
proof (induction s ws arbitrary: out rule: write_main.induct)
  case (3 c s n ws)
  then obtain out1 where o: "write_main (drop n (c # s)) ws = Some (ok, out1, ws')" "out = take n (c # s) @ out1"
    by (auto split: prod.splits)
  with 3(1) [of out1] obtain r where "drop n (c # s) = out1 @ r" by blast
  then show ?case using o by (metis append.assoc append_take_drop_id)
qed (auto split: if_splits)

lemma write_with_frame:
  assumes "write_with c s ac = Some (err, ac')"
  shows "\<exists>out ws. ac' = ac\<lparr>sent := sent ac @ out, writes := ws\<rparr> \<and> (err = 0 \<longrightarrow> out = s @ [c]) \<and>
    (\<exists>r. s @ [c] = out @ r)"
proof (cases "fd ac < 0 \<or> readerClosed ac")
  case True
  with assms have "ac' = ac" "err = AT_ERROR_CHANNEL_CLOSED" by (auto simp: write_with_def)
  then show ?thesis by (intro exI [of _ "[]"] exI [of _ "writes ac"]) (simp add: at_error_numbers)
next
  case False
  with assms obtain ok out ws where m: "write_main s (writes ac) = Some (ok, out, ws)"
    by (auto simp: write_with_def bind_eq_Some_conv)
  from write_main_prefix [OF m] obtain r where r: "s = out @ r" by blast
  show ?thesis
  proof (cases ok)
    case False
    with assms m \<open>\<not> (fd ac < 0 \<or> readerClosed ac)\<close> r show ?thesis
      by (intro exI [of _ out] exI [of _ ws]) (auto simp: write_with_def Let_def at_error_numbers)
  next
    case True
    with assms m \<open>\<not> (fd ac < 0 \<or> readerClosed ac)\<close> obtain ok2 out2 ws2 where
      l: "write_last c ws = Some (ok2, out2, ws2)"
      by (auto simp: write_with_def Let_def bind_eq_Some_conv)
    have "out2 = [c] \<or> out2 = []" using l
      by (induction c ws rule: write_last.induct) (auto split: if_splits)
    moreover have "ok2 \<Longrightarrow> out2 = [c]" using write_last_sent l by auto
    moreover have "out = s" using write_main_sent m True by auto
    ultimately show ?thesis using assms m l True \<open>\<not> (fd ac < 0 \<or> readerClosed ac)\<close>
      by (intro exI [of _ "out @ out2"] exI [of _ ws2])
        (auto simp: write_with_def Let_def at_error_numbers split: if_splits)
  qed
qed

section \<open>Where a line goes\<close>

text \<open>The lines a command asks for, and which of a list of lines it gets.\<close>

fun wanted :: "ATCommandType \<Rightarrow> string option \<Rightarrow> string \<Rightarrow> bool" where
  "wanted NO_RESULT p l = False"
| "wanted NUMERIC p l = starts_digit l"
| "wanted SINGLELINE p l = (case p of None \<Rightarrow> False | Some q \<Rightarrow> strStartsWith l q)"
| "wanted MULTILINE p l = (case p of None \<Rightarrow> False | Some q \<Rightarrow> strStartsWith l q)"

fun prefix_ok :: "ATCommandType \<Rightarrow> string option \<Rightarrow> bool" where
  "prefix_ok SINGLELINE p = (p \<noteq> None)"
| "prefix_ok MULTILINE p = (p \<noteq> None)"
| "prefix_ok _ p = True"

fun route :: "(string \<Rightarrow> bool) \<Rightarrow> bool \<Rightarrow> bool \<Rightarrow> string list \<Rightarrow> string list \<times> string list" where
  "route w once got [] = ([], [])"
| "route w once got (l # ls) =
    (if w l \<and> \<not> (once \<and> got) then apfst ((#) l) (route w once True ls)
     else apsnd ((#) l) (route w once got ls))"

lemma route_append:
  "route w once got (xs @ ys) =
    (fst (route w once got xs) @ fst (route w once (got \<or> fst (route w once got xs) \<noteq> []) ys),
     snd (route w once got xs) @ snd (route w once (got \<or> fst (route w once got xs) \<noteq> []) ys))"
  by (induction xs arbitrary: got) (auto simp: prod_eq_iff)

lemma route_all: "route w False got ls = (filter w ls, filter (\<lambda>l. \<not> w l) ls)"
  by (induction ls arbitrary: got) auto

lemma route_done: "route w True True ls = ([], ls)"
  by (induction ls) auto

lemma route_once:
  "route w True False ls =
    (take 1 (filter w ls), takeWhile (\<lambda>l. \<not> w l) ls @ tl (dropWhile (\<lambda>l. \<not> w l) ls))"
  by (induction ls) (auto simp: route_done)

definition answer :: "ATCommandType \<Rightarrow> string option \<Rightarrow> string list \<Rightarrow> string list" where
  "answer T p ls = (if T = MULTILINE then filter (wanted T p) ls else take 1 (filter (wanted T p) ls))"

definition others :: "ATCommandType \<Rightarrow> string option \<Rightarrow> string list \<Rightarrow> string list" where
  "others T p ls = (if T = MULTILINE then filter (\<lambda>l. \<not> wanted T p l) ls
     else takeWhile (\<lambda>l. \<not> wanted T p l) ls @ tl (dropWhile (\<lambda>l. \<not> wanted T p l) ls))"

lemma route_answer: "route (wanted T p) (T \<noteq> MULTILINE) False ls = (answer T p ls, others T p ls)"
  by (cases "T = MULTILINE") (simp_all add: answer_def others_def route_all route_once)

definition final :: "string \<Rightarrow> bool" where
  "final l \<longleftrightarrow> isFinalResponseSuccess l \<or> isFinalResponseError l"

definition to_handler :: "string list \<Rightarrow> (string \<times> string option) list" where
  "to_handler ls = map (\<lambda>l. (l, None)) ls"

lemma to_handler_simps [simp]:
  "to_handler [] = []" "to_handler (l # ls) = (l, None) # to_handler ls"
  "to_handler (xs @ ys) = to_handler xs @ to_handler ys"
  by (simp_all add: to_handler_def)

lemma processLine_plain:
  assumes "response ac = Some r" "\<not> final l" "smsPDU ac = None \<or> l \<noteq> at_prompt"
    "prefix_ok (ctype ac) (responsePrefix ac)"
  shows "processLine l ac =
    Some (if wanted (ctype ac) (responsePrefix ac) l \<and> \<not> (ctype ac \<noteq> MULTILINE \<and> p_intermediates r \<noteq> [])
          then addIntermediate l r ac else handleUnsolicited l ac)"
  using assms by (cases "ctype ac") (auto simp: processLine_def final_def)

lemma lines_route:
  assumes "response ac = Some r" "\<forall>l \<in> set ls. \<not> final l" "smsPDU ac = None \<or> at_prompt \<notin> set ls"
    "prefix_ok (ctype ac) (responsePrefix ac)" "unsolHandler ac"
    "route (wanted (ctype ac) (responsePrefix ac)) (ctype ac \<noteq> MULTILINE) (p_intermediates r \<noteq> []) ls = (a, b)"
  shows "wait_response tmo (map Line ls @ es) ac =
    wait_response tmo es (ac\<lparr>response := Some (r\<lparr>p_intermediates := rev a @ p_intermediates r\<rparr>),
      unsol := unsol ac @ to_handler b\<rparr>)"
  using assms
proof (induction ls arbitrary: ac r a b)
  case Nil
  have "ac\<lparr>response := Some r\<rparr> = ac" using Nil(1) by (cases ac) auto
  from arg_cong [OF this, of "wait_response tmo es"] show ?case using Nil by auto
next
  case (Cons l ls)
  let ?w = "wanted (ctype ac) (responsePrefix ac)"
  have p: "processLine l ac = Some (if ?w l \<and> \<not> (ctype ac \<noteq> MULTILINE \<and> p_intermediates r \<noteq> [])
      then addIntermediate l r ac else handleUnsolicited l ac)"
    by (rule processLine_plain) (use Cons.prems in auto)
  show ?case
  proof (cases "?w l \<and> \<not> (ctype ac \<noteq> MULTILINE \<and> p_intermediates r \<noteq> [])")
    case True
    let ?ac = "addIntermediate l r ac" and ?r = "r\<lparr>p_intermediates := l # p_intermediates r\<rparr>"
    from True Cons.prems(6) obtain a1 where a: "a = l # a1" "route ?w (ctype ac \<noteq> MULTILINE) True ls = (a1, b)"
      by (auto simp: apfst_def map_prod_def split: prod.splits)
    have "wait_response tmo (map Line ls @ es) ?ac = wait_response tmo es
        (?ac\<lparr>response := Some (?r\<lparr>p_intermediates := rev a1 @ p_intermediates ?r\<rparr>), unsol := unsol ?ac @ to_handler b\<rparr>)"
      by (rule Cons.IH) (use Cons.prems a in \<open>auto simp: addIntermediate_def\<close>)
    with True p a show ?thesis by (simp add: addIntermediate_def)
  next
    case False
    let ?ac = "handleUnsolicited l ac"
    have ac: "?ac = ac\<lparr>unsol := unsol ac @ [(l, None)]\<rparr>" using Cons.prems(5) by (simp add: handleUnsolicited_def)
    from False Cons.prems(6) obtain b1 where b: "b = l # b1"
      "route ?w (ctype ac \<noteq> MULTILINE) (p_intermediates r \<noteq> []) ls = (a, b1)"
      by (auto simp: apsnd_def map_prod_def split: prod.splits)
    have "wait_response tmo (map Line ls @ es) ?ac = wait_response tmo es
        (?ac\<lparr>response := Some (r\<lparr>p_intermediates := rev a @ p_intermediates r\<rparr>), unsol := unsol ?ac @ to_handler b1\<rparr>)"
      by (rule Cons.IH) (use Cons.prems b in \<open>auto simp: ac\<close>)
    moreover have "wait_response tmo (map Line (l # ls) @ es) ac = wait_response tmo (map Line ls @ es) ?ac"
      using False p by auto
    ultimately show ?thesis using b by (simp add: ac)
  qed
qed

lemma reverse_loop_eq: "reverse_loop xs acc = rev xs @ acc"
  by (induction xs acc rule: reverse_loop.induct) auto

lemma reverseIntermediates_eq: "reverseIntermediates r = r\<lparr>p_intermediates := rev (p_intermediates r)\<rparr>"
  by (simp add: reverseIntermediates_def reverse_loop_eq)

section \<open>A whole command\<close>

text \<open>The state in which a command may be sent, and the error of a final line.\<close>

definition idle :: "atcontext \<Rightarrow> bool" where
  "idle ac \<longleftrightarrow> response ac = None \<and> 0 \<le> fd ac \<and> \<not> readerClosed ac \<and> unsolHandler ac"

definition final_error :: "string \<Rightarrow> int option" where
  "final_error f = (if isFinalResponseSuccess f then Some 0
     else at_get_error (Some \<lparr>success = 0, finalResponse = Some f, p_intermediates = []\<rparr>))"

lemma at_get_error_cong:
  "success r = success r' \<Longrightarrow> finalResponse r = finalResponse r' \<Longrightarrow> at_get_error (Some r) = at_get_error (Some r')"
  by (simp add: at_get_error_def)

lemma processLine_final:
  assumes "response ac = Some r" "final f"
  shows "processLine f ac = Some (ac\<lparr>response := Some (r\<lparr>success := (if isFinalResponseSuccess f then 1 else 0),
    finalResponse := Some f\<rparr>)\<rparr>)"
  using assms by (auto simp: processLine_def final_def handleFinalResponse_def)

text \<open>From a pending command on: the final line ends it.\<close>

lemma final_ends:
  assumes "response ac = Some r" "final f" "final_error f = Some e" "success r = 0" "\<not> readerClosed ac"
  shows "\<exists>ac1. wait_response tmo (Line f # Wake # es) ac = Some (AT_NOERROR, ac1, es) \<and>
    send_end want ac1 = Some (e, if want then Some (reverseIntermediates (r\<lparr>success :=
        (if isFinalResponseSuccess f then 1 else 0), finalResponse := Some f\<rparr>)) else None,
      ac\<lparr>response := None\<rparr>)"
proof -
  let ?s = "if isFinalResponseSuccess f then 1 else 0 :: int"
  let ?r = "r\<lparr>success := ?s, finalResponse := Some f\<rparr>"
  let ?ac = "ac\<lparr>response := Some ?r\<rparr>"
  have w: "wait_response tmo (Line f # Wake # es) ac = Some (AT_NOERROR, ?ac, es)"
    using processLine_final [OF assms(1,2)] by (simp add: wait_over_def)
  have "at_get_error (Some ?r) = Some e" if "\<not> isFinalResponseSuccess f"
    using that assms(3) at_get_error_cong [of ?r "\<lparr>success = 0, finalResponse = Some f, p_intermediates = []\<rparr>"]
    by (simp add: final_error_def)
  then have "send_end want ?ac = Some (e, if want then Some (reverseIntermediates ?r) else None, ac\<lparr>response := None\<rparr>)"
    using assms(3,5) by (cases "isFinalResponseSuccess f") (simp_all add: send_end_def final_error_def at_error_numbers Let_def)
  with w show ?thesis by blast
qed

lemma begin_idle:
  assumes "idle ac" "write_main command (writes ac) = Some (True, out, w1)" "write_last (CHR 0x0D) w1 = Some (True, out2, w2)"
  shows "send_begin command T p pdu True ac = Some (AT_NOERROR,
    ac\<lparr>ctype := T, responsePrefix := p, smsPDU := pdu, response := Some at_response_new,
       sent := sent ac @ command @ [CHR 0x0D], writes := w2\<rparr>)"
  using assms write_main_sent [OF assms(2)] write_last_sent [OF assms(3)]
  by (simp add: send_begin_def writeline_def write_with_def idle_def at_error_numbers Let_def)

lemma transaction_lines:
  assumes "idle ac" "write_main command (writes ac) = Some (True, out, w1)" "write_last (CHR 0x0D) w1 = Some (True, out2, w2)"
    and "\<forall>l \<in> set ls. \<not> final l" "final f" "final_error f = Some e" "prefix_ok T p"
  shows "at_send_command_full_nolock command T p None tmo want True (map Line ls @ [Line f, Wake] @ es) ac =
    Some (e, if want then Some \<lparr>success = (if isFinalResponseSuccess f then 1 else 0), finalResponse = Some f,
               p_intermediates = answer T p ls\<rparr> else None,
      ac\<lparr>ctype := T, responsePrefix := None, smsPDU := None, response := None,
         sent := sent ac @ command @ [CHR 0x0D], writes := w2, unsol := unsol ac @ to_handler (others T p ls)\<rparr>, es)"
proof -
  let ?ac1 = "ac\<lparr>ctype := T, responsePrefix := p, smsPDU := None, response := Some at_response_new,
       sent := sent ac @ command @ [CHR 0x0D], writes := w2\<rparr>"
  let ?ac2 = "?ac1\<lparr>response := Some (at_response_new\<lparr>p_intermediates := rev (answer T p ls)\<rparr>),
      unsol := unsol ac @ to_handler (others T p ls)\<rparr>"
  have nr: "\<not> readerClosed ac" "unsolHandler ac" using assms(1) by (auto simp: idle_def)
  note b = begin_idle [OF assms(1-3), of T p None]
  have over: "wait_over ?ac1 = Some False" using nr by (simp add: wait_over_def at_response_new_def)
  have "wait_response tmo (map Line ls @ Line f # Wake # es) ?ac1 = wait_response tmo (Line f # Wake # es) ?ac2"
    using lines_route [of ?ac1 at_response_new ls "answer T p ls" "others T p ls" tmo "Line f # Wake # es"]
      assms(4,7) nr route_answer [of T p ls] by (simp add: at_response_new_def)
  moreover from final_ends [of ?ac2 _ f e tmo es want] assms(5,6) nr
  obtain ac3 where "wait_response tmo (Line f # Wake # es) ?ac2 = Some (AT_NOERROR, ac3, es)"
    "send_end want ac3 = Some (e, if want then Some (reverseIntermediates (at_response_new\<lparr>p_intermediates := rev (answer T p ls),
       success := (if isFinalResponseSuccess f then 1 else 0), finalResponse := Some f\<rparr>)) else None, ?ac2\<lparr>response := None\<rparr>)"
    by (auto simp: at_response_new_def)
  ultimately show ?thesis
    using b over
    by (simp add: at_send_command_full_nolock_def clearPendingCommand_def reverseIntermediates_eq
        at_response_new_def at_error_numbers)
qed

text \<open>With a unit to send: the prompt is answered by the unit and does not count as a line.\<close>

lemma sms_lines:
  assumes "idle ac" "write_main command (writes ac) = Some (True, out, w1)" "write_last (CHR 0x0D) w1 = Some (True, out2, w2)"
    and "write_main pdu w2 = Some (True, out3, w3)" "write_last (CHR 0x1A) w3 = Some (True, out4, w4)"
    and "\<forall>l \<in> set (ls1 @ ls2). \<not> final l" "at_prompt \<notin> set ls1" "final f" "final_error f = Some e"
  shows "at_send_command_full_nolock command SINGLELINE (Some p) (Some pdu) tmo want True
      (map Line ls1 @ Line at_prompt # map Line ls2 @ [Line f, Wake] @ es) ac =
    Some (e, if want then Some \<lparr>success = (if isFinalResponseSuccess f then 1 else 0), finalResponse = Some f,
               p_intermediates = answer SINGLELINE (Some p) (ls1 @ ls2)\<rparr> else None,
      ac\<lparr>ctype := SINGLELINE, responsePrefix := None, smsPDU := None, response := None,
         sent := sent ac @ command @ [CHR 0x0D] @ pdu @ [CHR 0x1A], writes := w4,
         unsol := unsol ac @ to_handler (others SINGLELINE (Some p) (ls1 @ ls2))\<rparr>, es)"
proof -
  let ?w = "wanted SINGLELINE (Some p)"
  let ?ac1 = "ac\<lparr>ctype := SINGLELINE, responsePrefix := Some p, smsPDU := Some pdu, response := Some at_response_new,
       sent := sent ac @ command @ [CHR 0x0D], writes := w2\<rparr>"
  obtain a1 b1 where r1: "route ?w True False ls1 = (a1, b1)" by (cases "route ?w True False ls1")
  obtain a2 b2 where r2: "route ?w True (a1 \<noteq> []) ls2 = (a2, b2)" by (cases "route ?w True (a1 \<noteq> []) ls2")
  have ab: "answer SINGLELINE (Some p) (ls1 @ ls2) = a1 @ a2" "others SINGLELINE (Some p) (ls1 @ ls2) = b1 @ b2"
    using route_append [of ?w True False ls1 ls2] route_answer [of SINGLELINE "Some p" "ls1 @ ls2"] r1 r2 by simp_all
  let ?r1 = "at_response_new\<lparr>p_intermediates := rev a1\<rparr>"
  let ?ac2 = "?ac1\<lparr>response := Some ?r1, unsol := unsol ac @ to_handler b1\<rparr>"
  let ?ac3 = "?ac2\<lparr>sent := sent ac @ command @ [CHR 0x0D] @ pdu @ [CHR 0x1A], writes := w4, smsPDU := None\<rparr>"
  let ?r2 = "at_response_new\<lparr>p_intermediates := rev (a1 @ a2)\<rparr>"
  let ?ac4 = "?ac3\<lparr>response := Some ?r2, unsol := unsol ac @ to_handler (b1 @ b2)\<rparr>"
  let ?fin = "Line f # Wake # es"
  have nr: "\<not> readerClosed ac" "unsolHandler ac" "\<not> fd ac < 0" using assms(1) by (auto simp: idle_def)
  note b = begin_idle [OF assms(1-3), of SINGLELINE "Some p" "Some pdu"]
  have over: "wait_over ?ac1 = Some False" using nr by (simp add: wait_over_def at_response_new_def)
  have s1: "wait_response tmo (map Line ls1 @ Line at_prompt # map Line ls2 @ ?fin) ?ac1 =
      wait_response tmo (Line at_prompt # map Line ls2 @ ?fin) ?ac2"
    using lines_route [of ?ac1 at_response_new ls1 a1 b1 tmo "Line at_prompt # map Line ls2 @ ?fin"]
      assms(6,7) nr r1 by (simp add: at_response_new_def)
  have np: "\<not> final at_prompt" by code_simp
  have "processLine at_prompt ?ac2 = Some ?ac3"
    using np assms(4,5) nr write_main_sent [OF assms(4)] write_last_sent [OF assms(5)]
    by (simp add: processLine_def final_def writeCtrlZ_def write_with_def Let_def)
  then have s2: "wait_response tmo (Line at_prompt # map Line ls2 @ ?fin) ?ac2 = wait_response tmo (map Line ls2 @ ?fin) ?ac3"
    by simp
  have s3: "wait_response tmo (map Line ls2 @ ?fin) ?ac3 = wait_response tmo ?fin ?ac4"
    using lines_route [of ?ac3 ?r1 ls2 a2 b2 tmo ?fin] assms(6) nr r2 by (simp add: at_response_new_def)
  from final_ends [of ?ac4 ?r2 f e tmo es want] assms(8,9) nr
  obtain ac5 where "wait_response tmo ?fin ?ac4 = Some (AT_NOERROR, ac5, es)"
    "send_end want ac5 = Some (e, if want then Some (reverseIntermediates (?r2\<lparr>
       success := (if isFinalResponseSuccess f then 1 else 0), finalResponse := Some f\<rparr>)) else None, ?ac4\<lparr>response := None\<rparr>)"
    by (auto simp: at_response_new_def)
  then show ?thesis
    using b over s1 s2 s3 ab
    by (simp add: at_send_command_full_nolock_def clearPendingCommand_def reverseIntermediates_eq
        at_response_new_def at_error_numbers)
qed

section \<open>What the callers get, whatever happens\<close>

text \<open>While a command is pending, its response holds only lines it asked for, at most one unless it asked for several.\<close>

definition pending_ok :: "ATCommandType \<Rightarrow> string option \<Rightarrow> atcontext \<Rightarrow> bool" where
  "pending_ok T p ac \<longleftrightarrow> ctype ac = T \<and> responsePrefix ac = p \<and> (\<exists>r. response ac = Some r \<and>
     (\<forall>l \<in> set (p_intermediates r). wanted T p l) \<and> (T \<noteq> MULTILINE \<longrightarrow> length (p_intermediates r) \<le> 1))"

lemma write_with_fields:
  assumes "write_with c s ac = Some (err, ac')"
  shows "ctype ac' = ctype ac \<and> responsePrefix ac' = responsePrefix ac \<and> response ac' = response ac \<and>
    timeoutMsec ac' = timeoutMsec ac \<and> onTimeout ac' = onTimeout ac \<and> smsPDU ac' = smsPDU ac"
  using write_with_frame [OF assms] by auto

lemma processLine_pending:
  assumes "pending_ok T p ac" "processLine l ac = Some ac'"
  shows "pending_ok T p ac' \<and> timeoutMsec ac' = timeoutMsec ac \<and> onTimeout ac' = onTimeout ac"
proof -
  from assms(1) obtain r where r: "ctype ac = T" "responsePrefix ac = p" "response ac = Some r"
    "\<forall>l \<in> set (p_intermediates r). wanted T p l" "T \<noteq> MULTILINE \<longrightarrow> length (p_intermediates r) \<le> 1"
    by (auto simp: pending_ok_def)
  show ?thesis
  proof (cases "final l \<or> \<not> (smsPDU ac \<noteq> None \<and> l = at_prompt)")
    case True
    then show ?thesis using assms(2) r
      by (cases "ctype ac")
        (auto simp: processLine_def final_def handleFinalResponse_def handleUnsolicited_def addIntermediate_def
          pending_ok_def split: if_splits option.splits)
  next
    case False
    then obtain e ac1 where "writeCtrlZ (the (smsPDU ac)) ac = Some (e, ac1)" "ac' = ac1\<lparr>smsPDU := None\<rparr>"
      using assms(2) r by (auto simp: processLine_def final_def bind_eq_Some_conv)
    then show ?thesis using write_with_fields [of "CHR 0x1A"] r by (auto simp: writeCtrlZ_def pending_ok_def)
  qed
qed

lemma wait_pending:
  assumes "wait_response tmo evs ac = Some (err, ac', es)" "pending_ok T p ac"
  shows "pending_ok T p ac' \<and> timeoutMsec ac' = timeoutMsec ac \<and> onTimeout ac' = onTimeout ac \<and>
    (err = AT_NOERROR \<or> err = AT_ERROR_TIMEOUT)"
  using assms
proof (induction tmo evs ac rule: wait_response.induct)
  case (2 tmo l es ac)
  then obtain ac1 where "processLine l ac = Some ac1" by (auto simp: bind_eq_Some_conv)
  with 2 processLine_pending [of T p ac l ac1] show ?case by auto
next
  case (6 tmo es ac)
  then show ?case by (auto simp: bind_eq_Some_conv split: if_splits)
qed (auto simp: pending_ok_def onReaderClosed_def at_close_def split: if_splits)

lemma send_begin_pending:
  assumes "send_begin command T p pdu mem ac = Some (err, ac1)" "response ac = None"
  shows "timeoutMsec ac1 = timeoutMsec ac \<and> onTimeout ac1 = onTimeout ac \<and> (err = AT_NOERROR \<longrightarrow> pending_ok T p ac1)"
proof (cases mem)
  case False with assms show ?thesis by (auto simp: send_begin_def Let_def at_error_numbers)
next
  case True
  let ?ac = "ac\<lparr>ctype := T, responsePrefix := p, smsPDU := pdu, response := Some at_response_new\<rparr>"
  from assms True have "writeline command ?ac = Some (err, ac1)" by (simp add: send_begin_def Let_def)
  from write_with_fields [OF this [unfolded writeline_def]] show ?thesis
    by (simp add: pending_ok_def at_response_new_def)
qed

text \<open>The answer of a successful command, and what is stored when there was an error.\<close>

definition answer_ok :: "ATCommandType \<Rightarrow> string option \<Rightarrow> bool \<Rightarrow> int \<Rightarrow> ATResponse option \<Rightarrow> bool" where
  "answer_ok T p want err out \<longleftrightarrow> (out \<noteq> None \<longrightarrow> want) \<and> (err = AT_NOERROR \<longrightarrow> want \<longrightarrow> out \<noteq> None) \<and>
     (\<forall>r. out = Some r \<longrightarrow> (\<forall>l \<in> set (p_intermediates r). wanted T p l) \<and>
       (T \<noteq> MULTILINE \<longrightarrow> length (p_intermediates r) \<le> 1))"

lemma nolock_contract:
  assumes "at_send_command_full_nolock command T p pdu tmo want mem evs ac = Some (err, out, ac', es)"
    and "response ac = None"
  shows "response ac' = None \<and> timeoutMsec ac' = timeoutMsec ac \<and> onTimeout ac' = onTimeout ac \<and> answer_ok T p want err out"
proof -
  from assms(1) obtain e1 ac1 where b: "send_begin command T p pdu mem ac = Some (e1, ac1)"
    by (auto simp: at_send_command_full_nolock_def bind_eq_Some_conv)
  note bp = send_begin_pending [OF b assms(2)]
  show ?thesis
  proof (cases "e1 = AT_NOERROR")
    case False
    with assms(1) b bp show ?thesis
      by (auto simp: at_send_command_full_nolock_def clearPendingCommand_def answer_ok_def)
  next
    case True
    then have po: "pending_ok T p ac1" using bp by simp
    from assms(1) b True obtain e2 ac2 where w: "pending_ok T p ac2" "timeoutMsec ac2 = timeoutMsec ac1"
        "onTimeout ac2 = onTimeout ac1"
      and rest: "(if e2 = AT_ERROR_TIMEOUT then Some (e2, None, clearPendingCommand ac2, es)
        else do { (err2, out, ac3) \<leftarrow> send_end want ac2; Some (err2, out, clearPendingCommand ac3, es) })
        = Some (err, out, ac', es)"
      using po wait_pending [of tmo evs ac1 _ _ _ T p]
      by (fastforce simp: at_send_command_full_nolock_def bind_eq_Some_conv split: if_splits)
    show ?thesis
    proof (cases "e2 = AT_ERROR_TIMEOUT")
      case True
      with rest w bp show ?thesis by (auto simp: clearPendingCommand_def answer_ok_def at_error_numbers)
    next
      case False
      with rest obtain ac3 where s: "send_end want ac2 = Some (err, out, ac3)" "ac' = clearPendingCommand ac3"
        by (auto simp: bind_eq_Some_conv)
      from w(1) obtain r where r: "response ac2 = Some r" "\<forall>l \<in> set (p_intermediates r). wanted T p l"
        "T \<noteq> MULTILINE \<longrightarrow> length (p_intermediates r) \<le> 1" by (auto simp: pending_ok_def)
      from s(1) r(1) have "out = (if want then Some (reverseIntermediates r) else None)" "ac3 = ac2\<lparr>response := None\<rparr>"
        by (auto simp: send_end_def bind_eq_Some_conv Let_def)
      then show ?thesis using s r w bp by (auto simp: answer_ok_def reverseIntermediates_eq clearPendingCommand_def)
    qed
  qed
qed

lemma full_contract:
  assumes "at_send_command_full reader command T p pdu tmo want useap mem evs ac = Some (err, out, ac', es)"
    and "response ac = None"
  shows "response ac' = None \<and> timeoutMsec ac' = timeoutMsec ac \<and> answer_ok T p want err out"
proof (cases "reader \<or> (useap \<and> command = [])")
  case True
  with assms show ?thesis by (auto simp: at_send_command_full_def answer_ok_def at_error_numbers split: if_splits)
next
  case False
  let ?ptr = "if useap then take (BUFFSIZE - 1) command else command"
  from False assms(1) obtain ac1 where n: "at_send_command_full_nolock ?ptr T p pdu tmo want mem evs ac = Some (err, out, ac1, es)"
    "ac' = ac1 \<or> ac' = ac1\<lparr>timeouts := timeouts ac1 + 1\<rparr>"
    by (fastforce simp: at_send_command_full_def bind_eq_Some_conv Let_def split: if_splits)
  from nolock_contract [OF n(1) assms(2)] n(2) show ?thesis by auto
qed

section \<open>A command that waits comes to an end\<close>

text \<open>A line that the tokenizer does not read past.\<close>

definition tame :: "string \<Rightarrow> bool" where "tame l \<longleftrightarrow> \<not> open_escape l"

fun tame_event :: "wait_event \<Rightarrow> bool" where
  "tame_event (Line l) = tame l"
| "tame_event _ = True"

definition tame_response :: "ATResponse \<Rightarrow> bool" where
  "tame_response r \<longleftrightarrow> list_all tame (p_intermediates r) \<and> (\<forall>f. finalResponse r = Some f \<longrightarrow> tame f)"

text \<open>The writes of a whole command do not block: at worst one fails.\<close>

definition writes_end :: "write_result list \<Rightarrow> bool" where
  "writes_end ws \<longleftrightarrow> (\<exists>us. ws = us @ [WriteFailed])"

lemma writes_end_Cons: "writes_end (w # ws) \<Longrightarrow> ws \<noteq> [] \<Longrightarrow> writes_end ws"
  by (auto simp: writes_end_def Cons_eq_append_conv)

lemma write_main_ends:
  "writes_end ws \<Longrightarrow> \<exists>ok out ws'. write_main s ws = Some (ok, out, ws') \<and> (ok \<longrightarrow> writes_end ws')"
proof (induction s ws rule: write_main.induct)
  case (2 c s) then show ?case by (simp add: writes_end_def)
next
  case (3 c s n ws)
  then have "ws \<noteq> []" by (auto simp: writes_end_def Cons_eq_append_conv)
  with 3 writes_end_Cons have "writes_end ws" by blast
  with 3(1) show ?case by fastforce
next
  case (4 c s ws)
  then have "ws \<noteq> []" by (auto simp: writes_end_def Cons_eq_append_conv)
  with 4 writes_end_Cons have "writes_end ws" by blast
  with 4(1) show ?case by fastforce
qed (auto simp: writes_end_def)

lemma write_last_ends:
  "writes_end ws \<Longrightarrow> \<exists>ok out ws'. write_last c ws = Some (ok, out, ws') \<and> (ok \<longrightarrow> writes_end ws')"
proof (induction c ws rule: write_last.induct)
  case (1 c) then show ?case by (simp add: writes_end_def)
next
  case (2 c n ws)
  then have "ws \<noteq> []" by (auto simp: writes_end_def Cons_eq_append_conv)
  with 2 writes_end_Cons have "writes_end ws" by blast
  with 2(1) show ?case by auto
next
  case (3 c ws)
  then have "ws \<noteq> []" by (auto simp: writes_end_def Cons_eq_append_conv)
  with 3 writes_end_Cons have "writes_end ws" by blast
  with 3(1) show ?case by auto
qed (auto simp: writes_end_def)

lemma write_with_ends:
  assumes "writes_end (writes ac)"
  shows "\<exists>err ac'. write_with c s ac = Some (err, ac') \<and> (err = 0 \<longrightarrow> writes_end (writes ac'))"
proof -
  from write_main_ends [OF assms, of s] obtain ok out ws where m: "write_main s (writes ac) = Some (ok, out, ws)"
    "ok \<longrightarrow> writes_end ws" by blast
  show ?thesis
  proof (cases "ok \<and> \<not> (fd ac < 0 \<or> readerClosed ac)")
    case True
    with m write_last_ends [of ws c] obtain ok2 out2 ws2 where "write_last c ws = Some (ok2, out2, ws2)"
      "ok2 \<longrightarrow> writes_end ws2" by blast
    with m True show ?thesis by (simp add: write_with_def Let_def at_error_numbers)
  next
    case False
    with m show ?thesis by (auto simp: write_with_def Let_def at_error_numbers)
  qed
qed

definition waiting_ok :: "ATCommandType \<Rightarrow> string option \<Rightarrow> atcontext \<Rightarrow> bool" where
  "waiting_ok T p ac \<longleftrightarrow> pending_ok T p ac \<and> prefix_ok T p \<and> (\<forall>r. response ac = Some r \<longrightarrow> tame_response r) \<and>
     (smsPDU ac = None \<or> writes_end (writes ac))"

lemma processLine_waits:
  assumes "waiting_ok T p ac" "tame l"
  shows "\<exists>ac'. processLine l ac = Some ac' \<and> waiting_ok T p ac'"
proof -
  from assms(1) obtain r where r: "ctype ac = T" "responsePrefix ac = p" "response ac = Some r"
    "tame_response r" "prefix_ok T p" "pending_ok T p ac" "smsPDU ac = None \<or> writes_end (writes ac)"
    by (auto simp: waiting_ok_def pending_ok_def)
  show ?thesis
  proof (cases "final l")
    case True
    from processLine_final [OF r(3) this] r assms(2) show ?thesis
      by (auto simp: waiting_ok_def pending_ok_def tame_response_def)
  next
    case nf: False
    show ?thesis
    proof (cases "smsPDU ac \<noteq> None \<and> l = at_prompt")
      case True
      then have "writes_end (writes ac)" using r(7) by auto
      from write_with_ends [OF this, of "CHR 0x1A" "the (smsPDU ac)"] obtain e ac1
        where w: "writeCtrlZ (the (smsPDU ac)) ac = Some (e, ac1)" by (auto simp: writeCtrlZ_def)
      then have p: "processLine l ac = Some (ac1\<lparr>smsPDU := None\<rparr>)"
        using nf True r(3) by (auto simp: processLine_def final_def)
      moreover have "pending_ok T p (ac1\<lparr>smsPDU := None\<rparr>)" using processLine_pending [OF r(6) p] by simp
      moreover have "response ac1 = Some r" using write_with_fields [OF w [unfolded writeCtrlZ_def]] r(3) by simp
      ultimately show ?thesis using r by (auto simp: waiting_ok_def)
    next
      case False
      have "processLine l ac = Some (if wanted (ctype ac) (responsePrefix ac) l \<and>
          \<not> (ctype ac \<noteq> MULTILINE \<and> p_intermediates r \<noteq> []) then addIntermediate l r ac else handleUnsolicited l ac)"
        by (rule processLine_plain) (use nf False r in auto)
      moreover have "pending_ok T p (the (processLine l ac))" using processLine_pending [OF r(6)] calculation by auto
      ultimately show ?thesis using r assms(2)
        by (auto simp: waiting_ok_def addIntermediate_def handleUnsolicited_def tame_response_def)
    qed
  qed
qed

lemma wait_ends:
  assumes "waiting_ok T p ac" "list_all tame_event evs" "tmo \<noteq> 0"
  shows "\<exists>err ac' es. wait_response tmo (evs @ [TimedOut]) ac = Some (err, ac', es) \<and> waiting_ok T p ac'"
  using assms
proof (induction evs arbitrary: ac)
  case Nil then show ?case by simp
next
  case (Cons ev evs)
  show ?case
  proof (cases ev)
    case (Line l)
    with Cons.prems processLine_waits [of T p ac l] obtain ac1 where "processLine l ac = Some ac1" "waiting_ok T p ac1"
      by auto
    with Cons Line show ?thesis by auto
  next
    case Wake
    from Cons.prems(1) obtain r where "response ac = Some r" by (auto simp: waiting_ok_def pending_ok_def)
    with Cons Wake show ?thesis by (auto simp: wait_over_def)
  next
    case ReaderGone
    have "waiting_ok T p (onReaderClosed ac)" using Cons.prems(1)
      by (auto simp: waiting_ok_def pending_ok_def onReaderClosed_def)
    with Cons ReaderGone show ?thesis by auto
  next
    case Closed_by_us
    have "waiting_ok T p (at_close ac)" using Cons.prems(1)
      by (auto simp: waiting_ok_def pending_ok_def at_close_def)
    with Cons Closed_by_us show ?thesis by auto
  next
    case (Message l1 l2)
    have "waiting_ok T p (ac\<lparr>unsol := us\<rparr>)" for us using Cons.prems(1)
      by (auto simp: waiting_ok_def pending_ok_def)
    with Cons Message show ?thesis by auto
  next
    case TimedOut with Cons show ?thesis by auto
  qed
qed

lemma at_get_error_total:
  assumes "tame_response r"
  shows "\<exists>e. at_get_error (Some r) = Some e"
proof (cases "finalResponse r")
  case None then show ?thesis by (auto simp: at_get_error_def)
next
  case (Some f)
  then have "cursor_safe (Some f)" using assms by (simp add: tame_response_def tame_def)
  from start_safe [OF this] nextint_base_safe [of "snd (at_tok_start (Some f))" "Some 0" 10 False]
  obtain e v c where "at_tok_nextint (snd (at_tok_start (Some f))) (Some 0) = Some (e, v, c)"
    by (auto simp: at_tok_nextint_def)
  with Some show ?thesis by (cases "at_tok_start (Some f)") (auto simp: at_get_error_def)
qed

lemma send_begin_waits:
  assumes "response ac = None" "writes_end (writes ac)" "prefix_ok T p"
  shows "\<exists>err ac1. send_begin command T p pdu mem ac = Some (err, ac1) \<and> (err = AT_NOERROR \<longrightarrow> waiting_ok T p ac1)"
proof (cases mem)
  case False with assms show ?thesis by (simp add: send_begin_def Let_def at_error_numbers)
next
  case True
  let ?ac = "ac\<lparr>ctype := T, responsePrefix := p, smsPDU := pdu, response := Some at_response_new\<rparr>"
  have we: "writes_end (writes ?ac)" using assms(2) by simp
  from write_with_ends [OF we, of "CHR 0x0D" command] obtain e ac1
    where w: "writeline command ?ac = Some (e, ac1)" "e = 0 \<longrightarrow> writes_end (writes ac1)" by (auto simp: writeline_def)
  then have b: "send_begin command T p pdu mem ac = Some (e, ac1)" using assms(1) True by (simp add: send_begin_def Let_def)
  have "response ac1 = Some at_response_new" using write_with_fields [OF w(1) [unfolded writeline_def]] by simp
  then show ?thesis using b w(2) send_begin_pending [OF b assms(1)] assms(3)
    by (auto simp: waiting_ok_def tame_response_def at_response_new_def at_error_numbers)
qed

definition tame_out :: "ATResponse option \<Rightarrow> bool" where
  "tame_out out \<longleftrightarrow> (\<forall>r. out = Some r \<longrightarrow> tame_response r)"

lemma nolock_ends:
  assumes "response ac = None" "writes_end (writes ac)" "prefix_ok T p" "list_all tame_event evs" "tmo \<noteq> 0"
  shows "\<exists>err out ac' es. at_send_command_full_nolock command T p pdu tmo want mem (evs @ [TimedOut]) ac = Some (err, out, ac', es)
    \<and> tame_out out"
proof -
  from send_begin_waits [OF assms(1-3), of command pdu mem] obtain e1 ac1 where
    b: "send_begin command T p pdu mem ac = Some (e1, ac1)" "e1 = AT_NOERROR \<longrightarrow> waiting_ok T p ac1" by blast
  show ?thesis
  proof (cases "e1 = AT_NOERROR")
    case False with b show ?thesis by (simp add: at_send_command_full_nolock_def tame_out_def)
  next
    case True
    with b have wo: "waiting_ok T p ac1" by simp
    then obtain r1 where r1: "response ac1 = Some r1" by (auto simp: waiting_ok_def pending_ok_def)
    from wait_ends [OF wo assms(4,5)] obtain e2 ac2 es where
      w: "wait_response tmo (evs @ [TimedOut]) ac1 = Some (e2, ac2, es)" "waiting_ok T p ac2" by blast
    have step: "\<exists>e ac2 es. (if finalResponse r1 \<noteq> None \<or> readerClosed ac1 then Some (AT_NOERROR, ac1, evs @ [TimedOut])
        else wait_response tmo (evs @ [TimedOut]) ac1) = Some (e, ac2, es) \<and> waiting_ok T p ac2"
      using w wo by auto
    then obtain e ac3 es3 where s: "(if finalResponse r1 \<noteq> None \<or> readerClosed ac1 then Some (AT_NOERROR, ac1, evs @ [TimedOut])
        else wait_response tmo (evs @ [TimedOut]) ac1) = Some (e, ac3, es3)" "waiting_ok T p ac3" by blast
    from s(2) obtain r where r: "response ac3 = Some r" "tame_response r" by (auto simp: waiting_ok_def pending_ok_def)
    from at_get_error_total [OF r(2)] obtain e4 where "at_get_error (Some r) = Some e4" by blast
    then show ?thesis using b True r1 s(1) r
      by (cases "e = AT_ERROR_TIMEOUT"; cases "success r = 0")
        (auto simp: at_send_command_full_nolock_def wait_over_def send_end_def tame_out_def tame_response_def
          reverseIntermediates_eq list_all_rev)
  qed
qed

section \<open>The contract with the RIL\<close>

text \<open>A call of one of the functions; \<open>AtSingle\<close> says whether the caller wants the response.\<close>

datatype at_cmd = AtCommand string | AtSingle string string bool | AtNumeric string | AtSms string string string
  | AtMulti string string | AtRaw string

text \<open>What is promised of the returned error and response.  Only \<open>at_send_command_raw\<close> may return both.\<close>

fun one_line :: "(string \<Rightarrow> bool) \<Rightarrow> ATResponse \<Rightarrow> bool" where
  "one_line w r = (case p_intermediates r of [l] \<Rightarrow> w l \<and> tame l | _ \<Rightarrow> False)"

fun at_promise :: "at_cmd \<Rightarrow> int \<Rightarrow> ATResponse option \<Rightarrow> bool" where
  "at_promise (AtCommand c) e out = (out = None)"
| "at_promise (AtSingle c p want) e out =
     (if e = 0 \<and> want then (case out of Some r \<Rightarrow> one_line (\<lambda>l. strStartsWith l p) r | None \<Rightarrow> False) else out = None)"
| "at_promise (AtNumeric c) e out =
     (if e = 0 then (case out of Some r \<Rightarrow> one_line starts_digit r | None \<Rightarrow> False) else out = None)"
| "at_promise (AtSms c d p) e out =
     (if e = 0 then (case out of Some r \<Rightarrow> one_line (\<lambda>l. strStartsWith l p) r | None \<Rightarrow> False) else out = None)"
| "at_promise (AtMulti c p) e out =
     (if e = 0 then (case out of Some r \<Rightarrow> list_all (\<lambda>l. strStartsWith l p \<and> tame l) (p_intermediates r) | None \<Rightarrow> False)
      else out = None)"
| "at_promise (AtRaw c) e out = (case out of Some r \<Rightarrow> list_all tame (p_intermediates r) | None \<Rightarrow> e \<noteq> 0)"

locale at_channel =
  fixes at_send :: "at_cmd \<Rightarrow> 'm \<Rightarrow> (int \<times> ATResponse option \<times> 'm) option"
    and alive :: "'m \<Rightarrow> bool"
  assumes at_returns: "alive m \<Longrightarrow> \<exists>e out m'. at_send c m = Some (e, out, m') \<and> alive m' \<and> at_promise c e out"
begin

lemma at_cases:
  assumes "alive m"
  obtains e out m' where "at_send c m = Some (e, out, m')" "alive m'" "at_promise c e out"
  using at_returns [OF assms] by blast

lemma single_line:
  assumes "alive m" "at_send (AtSingle c p True) m = Some (0, out, m')"
  shows "\<exists>r l. out = Some r \<and> p_intermediates r = [l] \<and> strStartsWith l p \<and> tame l"
  using at_returns [OF assms(1), of "AtSingle c p True"] assms(2)
  by (auto split: option.splits list.splits)

lemma failed_no_response:
  assumes "alive m" "at_send c m = Some (e, out, m')" "e \<noteq> 0" "\<forall>s. c \<noteq> AtRaw s"
  shows "out = None"
  using at_returns [OF assms(1), of c] assms(2-) by (cases c) auto

end

text \<open>
  The model of \<open>atchannel.c\<close> as such a channel: the context and, command by command, what \<open>write\<close>
  reports and what happens while the command waits.  Should that not be enough for a command, a
  write fails or the wait times out.
\<close>

type_synonym at_world = "atcontext \<times> (write_result list \<times> wait_event list) list"

definition at_exchange :: "at_cmd \<Rightarrow> at_world \<Rightarrow> (int \<times> ATResponse option \<times> at_world) option" where
  "at_exchange c m = (case m of (ac, ss) \<Rightarrow>
     let (ws, evs) = (case ss of [] \<Rightarrow> ([], []) | s # _ \<Rightarrow> s);
         ac1 = ac\<lparr>writes := ws @ [WriteFailed]\<rparr>;
         evs1 = evs @ [TimedOut]
     in map_option (\<lambda>(err, out, ac2, _). (err, out, (ac2, tl ss)))
      (case c of
         AtCommand s \<Rightarrow> at_send_command False True s evs1 ac1
       | AtSingle s p want \<Rightarrow> at_send_command_singleline False True s p want evs1 ac1
       | AtNumeric s \<Rightarrow> at_send_command_numeric False True s True evs1 ac1
       | AtSms s d p \<Rightarrow> at_send_command_sms False True s d p True evs1 ac1
       | AtMulti s p \<Rightarrow> at_send_command_multiline False True s p True evs1 ac1
       | AtRaw s \<Rightarrow> at_send_command_raw False True s True evs1 ac1))"

definition at_alive :: "at_world \<Rightarrow> bool" where
  "at_alive m \<longleftrightarrow> response (fst m) = None \<and> timeoutMsec (fst m) \<noteq> 0 \<and>
     list_all (\<lambda>s. list_all tame_event (snd s)) (snd m)"

lemma full_ends:
  assumes "response ac = None" "writes_end (writes ac)" "prefix_ok T p" "list_all tame_event evs" "tmo \<noteq> 0"
  shows "\<exists>err out ac' es. at_send_command_full False command T p pdu tmo want useap mem (evs @ [TimedOut]) ac =
      Some (err, out, ac', es) \<and> tame_out out \<and> response ac' = None \<and> timeoutMsec ac' = timeoutMsec ac \<and>
      answer_ok T p want err out"
proof -
  have "\<exists>err out ac' es. at_send_command_full False command T p pdu tmo want useap mem (evs @ [TimedOut]) ac =
      Some (err, out, ac', es) \<and> tame_out out"
    using nolock_ends [OF assms, of "if useap then take (BUFFSIZE - 1) command else command" pdu want mem]
    by (fastforce simp: at_send_command_full_def Let_def tame_out_def)
  then show ?thesis using full_contract [OF _ assms(1)] by blast
qed

lemma list_le_1: "length xs \<le> 1 \<Longrightarrow> xs \<noteq> [] \<Longrightarrow> \<exists>x. xs = [x]"
  by (cases xs) auto

lemma promise_one:
  assumes "answer_ok T p want err out" "tame_out out" "T \<noteq> MULTILINE"
    and "need_intermediate (err, out, x) = (err1, out1, x1)" "free_on_error (err1, out1, x1) = (err2, out2, x2)"
  shows "if err2 = 0 \<and> want then \<exists>r. out2 = Some r \<and> one_line (wanted T p) r else out2 = None"
proof -
  have e: "err1 = (if err = AT_NOERROR \<and> out \<noteq> None \<and> p_intermediates (the out) = [] then AT_ERROR_INVALID_RESPONSE else err)"
    "out1 = out" using assms(4) by (auto simp: need_intermediate_def)
  have f: "err2 = err1" "out2 = (if err1 \<noteq> AT_NOERROR then None else out1)" using assms(5) by (auto simp: free_on_error_def)
  show ?thesis
  proof (cases "err2 = 0 \<and> want")
    case True
    then have z: "err = AT_NOERROR" "out2 = out" "\<not> (out \<noteq> None \<and> p_intermediates (the out) = [])"
      using e f by (auto simp: at_error_numbers split: if_splits)
    with assms(1) True obtain r where r: "out = Some r" "\<forall>l \<in> set (p_intermediates r). wanted T p l"
      "length (p_intermediates r) \<le> 1" using assms(3) by (auto simp: answer_ok_def)
    with z list_le_1 obtain l where "p_intermediates r = [l]" by fastforce
    with r z assms(2) True show ?thesis by (auto simp: tame_out_def tame_response_def)
  next
    case False
    with e f assms(1) show ?thesis by (auto simp: answer_ok_def at_error_numbers)
  qed
qed

lemma one_line_cong: "one_line (wanted SINGLELINE (Some p)) r = one_line (\<lambda>l. strStartsWith l p) r"
  "one_line (wanted NUMERIC None) r = one_line starts_digit r"
  by (auto split: list.splits)

text \<open>A command that checks its answer keeps the promise.\<close>

lemma checked_ends:
  assumes "response ac = None" "writes_end (writes ac)" "prefix_ok T p" "list_all tame_event evs" "tmo \<noteq> 0" "T \<noteq> MULTILINE"
  shows "\<exists>err out ac' es. map_option (negate_error \<circ> free_on_error \<circ> need_intermediate)
      (at_send_command_full False command T p pdu tmo want useap mem (evs @ [TimedOut]) ac) = Some (err, out, ac', es) \<and>
      response ac' = None \<and> timeoutMsec ac' = timeoutMsec ac \<and>
      (if err = 0 \<and> want then \<exists>r. out = Some r \<and> one_line (wanted T p) r else out = None)"
proof -
  from full_ends [OF assms(1-5), of command pdu want useap mem] obtain err out ac' es where
    f: "at_send_command_full False command T p pdu tmo want useap mem (evs @ [TimedOut]) ac = Some (err, out, ac', es)"
    "tame_out out" "response ac' = None" "timeoutMsec ac' = timeoutMsec ac" "answer_ok T p want err out" by blast
  obtain err1 out1 x1 where n: "need_intermediate (err, out, ac', es) = (err1, out1, x1)"
    by (cases "need_intermediate (err, out, ac', es)")
  obtain err2 out2 x2 where g: "free_on_error (err1, out1, x1) = (err2, out2, x2)"
    by (cases "free_on_error (err1, out1, x1)")
  have x: "x2 = (ac', es)" using n g by (auto simp: need_intermediate_def free_on_error_def)
  from promise_one [OF f(5,2) assms(6) n g] f n g x show ?thesis
    by (auto simp: negate_error_def)
qed

interpretation atch: at_channel at_exchange at_alive
proof
  fix m c
  assume m: "at_alive m"
  obtain ac ss where acs: "m = (ac, ss)" by (cases m)
  let ?ws = "fst (case ss of [] \<Rightarrow> ([], []) | s # _ \<Rightarrow> s)" and ?evs = "snd (case ss of [] \<Rightarrow> ([], []) | s # _ \<Rightarrow> s)"
  let ?ac = "ac\<lparr>writes := ?ws @ [WriteFailed]\<rparr>"
  have a: "response ?ac = None" "timeoutMsec ac \<noteq> 0" "list_all tame_event ?evs"
      "list_all (\<lambda>s. list_all tame_event (snd s)) (tl ss)"
    using m acs by (cases ss; auto simp: at_alive_def)+
  have w: "writes_end (writes ?ac)" by (simp add: writes_end_def)
  note chk = checked_ends [OF a(1) w _ a(3) a(2)] and fin = full_ends [OF a(1) w _ a(3) a(2)]
  have go: "\<exists>e out m'. at_exchange c m = Some (e, out, m') \<and> at_alive m' \<and> at_promise c e out"
    if "case c of
         AtCommand s \<Rightarrow> at_send_command False True s (?evs @ [TimedOut]) ?ac = Some (e, out, ac', es)
       | AtSingle s p want \<Rightarrow> at_send_command_singleline False True s p want (?evs @ [TimedOut]) ?ac = Some (e, out, ac', es)
       | AtNumeric s \<Rightarrow> at_send_command_numeric False True s True (?evs @ [TimedOut]) ?ac = Some (e, out, ac', es)
       | AtSms s d p \<Rightarrow> at_send_command_sms False True s d p True (?evs @ [TimedOut]) ?ac = Some (e, out, ac', es)
       | AtMulti s p \<Rightarrow> at_send_command_multiline False True s p True (?evs @ [TimedOut]) ?ac = Some (e, out, ac', es)
       | AtRaw s \<Rightarrow> at_send_command_raw False True s True (?evs @ [TimedOut]) ?ac = Some (e, out, ac', es)"
      "response ac' = None" "timeoutMsec ac' = timeoutMsec ac" "at_promise c e out" for e out ac' es
  proof (intro exI [of _ e] exI [of _ out] exI [of _ "(ac', tl ss)"] conjI)
    show "at_exchange c m = Some (e, out, (ac', tl ss))"
      using that(1) acs by (cases c) (simp_all add: at_exchange_def Let_def split_beta)
    show "at_alive (ac', tl ss)" using that(2,3) a by (simp add: at_alive_def)
  qed (rule that(4))
  show "\<exists>e out m'. at_exchange c m = Some (e, out, m') \<and> at_alive m' \<and> at_promise c e out"
  proof (cases c)
    case (AtCommand s)
    from fin [of NO_RESULT None s None False True True] obtain e out ac' es where
      "at_send_command_full False s NO_RESULT None None (timeoutMsec ac) False True True (?evs @ [TimedOut]) ?ac = Some (e, out, ac', es)"
      "response ac' = None" "timeoutMsec ac' = timeoutMsec ac" "answer_ok NO_RESULT None False e out" by auto
    then show ?thesis using AtCommand
      by (intro go [of "- e" out ac' es]) (auto simp: at_send_command_def negate_error_def answer_ok_def)
  next
    case (AtSingle s p want)
    from chk [of SINGLELINE "Some p" s None want True True] obtain e out ac' es where
      "at_send_command_singleline False True s p want (?evs @ [TimedOut]) ?ac = Some (e, out, ac', es)"
      "response ac' = None" "timeoutMsec ac' = timeoutMsec ac"
      "if e = 0 \<and> want then \<exists>r. out = Some r \<and> one_line (wanted SINGLELINE (Some p)) r else out = None"
      by (auto simp: at_send_command_singleline_def)
    then show ?thesis using AtSingle
      by (intro go [of e out ac' es]) (auto simp: one_line_cong simp del: one_line.simps split: if_splits)
  next
    case (AtNumeric s)
    from chk [of NUMERIC None s None True False True] obtain e out ac' es where
      "at_send_command_numeric False True s True (?evs @ [TimedOut]) ?ac = Some (e, out, ac', es)"
      "response ac' = None" "timeoutMsec ac' = timeoutMsec ac"
      "if e = 0 \<and> True then \<exists>r. out = Some r \<and> one_line (wanted NUMERIC None) r else out = None"
      by (auto simp: at_send_command_numeric_def)
    then show ?thesis using AtNumeric
      by (intro go [of e out ac' es]) (auto simp: one_line_cong simp del: one_line.simps split: if_splits)
  next
    case (AtSms s d p)
    from chk [of SINGLELINE "Some p" s "Some d" True False True] obtain e out ac' es where
      "at_send_command_sms False True s d p True (?evs @ [TimedOut]) ?ac = Some (e, out, ac', es)"
      "response ac' = None" "timeoutMsec ac' = timeoutMsec ac"
      "if e = 0 \<and> True then \<exists>r. out = Some r \<and> one_line (wanted SINGLELINE (Some p)) r else out = None"
      by (auto simp: at_send_command_sms_def)
    then show ?thesis using AtSms
      by (intro go [of e out ac' es]) (auto simp: one_line_cong simp del: one_line.simps split: if_splits)
  next
    case (AtMulti s p)
    from fin [of MULTILINE "Some p" s None True True True] obtain e out ac' es where
      f: "at_send_command_full False s MULTILINE (Some p) None (timeoutMsec ac) True True True (?evs @ [TimedOut]) ?ac = Some (e, out, ac', es)"
      "tame_out out" "response ac' = None" "timeoutMsec ac' = timeoutMsec ac" "answer_ok MULTILINE (Some p) True e out" by auto
    have "at_send_command_multiline False True s p True (?evs @ [TimedOut]) ?ac =
        Some (- e, if e \<noteq> AT_NOERROR then None else out, ac', es)"
      using f(1) by (simp add: at_send_command_multiline_def negate_error_def free_on_error_def)
    moreover have "at_promise c (- e) (if e \<noteq> AT_NOERROR then None else out)"
      using AtMulti f(2,5) by (auto simp: answer_ok_def tame_out_def tame_response_def at_error_numbers list_all_iff)
    ultimately show ?thesis using AtMulti f(3,4)
      by (intro go [of "- e" "if e \<noteq> AT_NOERROR then None else out" ac' es]) simp_all
  next
    case (AtRaw s)
    from fin [of MULTILINE "Some []" s None True False True] obtain e out ac' es where
      f: "at_send_command_full False s MULTILINE (Some []) None (timeoutMsec ac) True False True (?evs @ [TimedOut]) ?ac = Some (e, out, ac', es)"
      "tame_out out" "response ac' = None" "timeoutMsec ac' = timeoutMsec ac" "answer_ok MULTILINE (Some []) True e out" by auto
    then show ?thesis using AtRaw
      by (intro go [of "- e" out ac' es])
        (auto simp: at_send_command_raw_def negate_error_def answer_ok_def tame_out_def tame_response_def at_error_numbers split: option.splits)
  qed
qed

section \<open>The error of a final line\<close>

lemma final_error_numbered:
  assumes "in_int32 n" "p = ''+CME ERROR: '' \<and> g = CME_ERROR \<or> p = ''+CMS ERROR: '' \<and> g = CMS_ERROR"
  shows "final_error (p @ dec_int n) = Some (merror g n)"
proof -
  let ?f = "p @ dec_int n"
  have c: "clamp32 n = n" using assms(1) by (simp add: clamp32_def in_int32_def)
  have st: "at_tok_start (Some ?f) = (0, Some ('' '' @ dec_int n))" using assms(2) by auto
  have nx: "at_tok_nextint (Some ('' '' @ dec_int n)) (Some 0) = Some (0, Some n, None)"
    using nextint_dec_int(2) [of "'' ''" n 0] c by (simp add: isspace_def)
  have ns: "\<not> isFinalResponseSuccess ?f"
    using assms(2) by (auto simp: isFinalResponseSuccess_def s_finalResponsesSuccess_def)
  show ?thesis
    using assms(2)
  proof
    assume "p = ''+CME ERROR: '' \<and> g = CME_ERROR"
    then show ?thesis using st nx ns by (simp add: final_error_def at_get_error_def)
  next
    assume "p = ''+CMS ERROR: '' \<and> g = CMS_ERROR"
    then show ?thesis using st nx ns by (simp add: final_error_def at_get_error_def)
  qed
qed

lemma final_error_plain:
  assumes "p \<in> {''ERROR'', ''NO CARRIER'', ''NO ANSWER'', ''NO DIALTONE''}" "CHR '':'' \<notin> set t"
  shows "final_error (p @ t) = Some (merror GENERIC_ERROR GENERIC_ERROR_UNSPECIFIED)"
proof -
  have "\<not> isFinalResponseSuccess (p @ t)"
    using assms(1) by (auto simp: isFinalResponseSuccess_def s_finalResponsesSuccess_def)
  moreover have "at_tok_start (Some (p @ t)) = (- 1, None)"
    using assms strchr_None [of "p @ t" "CHR '':''"] by auto
  ultimately show ?thesis by (simp add: final_error_def at_get_error_def)
qed

section \<open>The properties\<close>

text \<open>C4: a command that the modem answers returns the lines it asked for, in the order they came: none,
  the first that fits or all that fit, by its type.  Every other line goes to the handler of
  unsolicited lines, in order, so that no line is lost or seen twice; what is written is the
  command and a carriage return; and no command is pending any more.\<close>

theorem command_answered:
  assumes "idle ac" "write_main command (writes ac) = Some (True, out, w1)" "write_last (CHR 0x0D) w1 = Some (True, out2, w2)"
    and "\<forall>l \<in> set ls. \<not> final l" "final f" "final_error f = Some e" "prefix_ok T p"
  shows "at_send_command_full_nolock command T p None tmo want True (map Line ls @ [Line f, Wake] @ es) ac =
    Some (e, if want then Some \<lparr>success = (if isFinalResponseSuccess f then 1 else 0), finalResponse = Some f,
               p_intermediates = answer T p ls\<rparr> else None,
      ac\<lparr>ctype := T, responsePrefix := None, smsPDU := None, response := None,
         sent := sent ac @ command @ [CHR 0x0D], writes := w2, unsol := unsol ac @ to_handler (others T p ls)\<rparr>, es)"
  by (rule transaction_lines [OF assms])

abbreviation sample_context :: atcontext where
  "sample_context \<equiv> \<lparr>fd = 3, unsolHandler = True, ctype = NO_RESULT, responsePrefix = None, smsPDU = None,
     response = None, onTimeout = True, onReaderClosed_set = True, readerClosed = False, timeoutMsec = 180000,
     sent = [], writes = [Wrote 2, Interrupted, Wrote 5, Wrote 1, Wrote 9, Wrote 1], unsol = [], timeouts = 0, closings = 0\<rparr>"

lemma command_answered_witness:
  "at_send_command_full_nolock ''AT+CSQ'' SINGLELINE (Some ''+CSQ:'') None 180000 True True
     (map Line [''^RSSI:3'', ''+CSQ: 9,99'', ''+CSQ: 1,99''] @ [Line ''OK'', Wake] @ []) sample_context =
   Some (0, Some \<lparr>success = 1, finalResponse = Some ''OK'', p_intermediates = [''+CSQ: 9,99'']\<rparr>,
     sample_context\<lparr>ctype := SINGLELINE, sent := ''AT+CSQ'' @ [CHR 0x0D], writes := [Wrote 9, Wrote 1],
       unsol := [(''^RSSI:3'', None), (''+CSQ: 1,99'', None)]\<rparr>, [])"
proof -
  let ?ls = "[''^RSSI:3'', ''+CSQ: 9,99'', ''+CSQ: 1,99'']"
  have a: "answer SINGLELINE (Some ''+CSQ:'') ?ls = [''+CSQ: 9,99'']"
    "others SINGLELINE (Some ''+CSQ:'') ?ls = [''^RSSI:3'', ''+CSQ: 1,99'']"
    by (simp_all add: answer_def others_def)
  have f: "\<forall>l \<in> set ?ls. \<not> final l" "final ''OK''" "final_error ''OK'' = Some 0" "isFinalResponseSuccess ''OK''"
    by (simp_all add: final_def isFinalResponseSuccess_def s_finalResponsesSuccess_def isFinalResponseError_def
        s_finalResponsesError_def final_error_def)
  have w: "write_main ''AT+CSQ'' (writes sample_context) = Some (True, ''AT+CSQ'', [Wrote 1, Wrote 9, Wrote 1])"
    "write_last (CHR 0x0D) [Wrote 1, Wrote 9, Wrote 1] = Some (True, [CHR 0x0D], [Wrote 9, Wrote 1])"
    by simp_all
  have i: "idle sample_context" by (simp add: idle_def)
  show ?thesis
    using command_answered [OF i w f(1-3), of SINGLELINE "Some ''+CSQ:''" 180000 True "[]"] a f(4) by simp
qed

text \<open>C38: a command that sends a unit writes it, ended by a control-Z, when the modem prompts for it; the
  prompt is not taken for a line of the answer, and the lines before and behind it go where they
  would without it.\<close>

theorem sms_command_answered:
  assumes "idle ac" "write_main command (writes ac) = Some (True, out, w1)" "write_last (CHR 0x0D) w1 = Some (True, out2, w2)"
    and "write_main pdu w2 = Some (True, out3, w3)" "write_last (CHR 0x1A) w3 = Some (True, out4, w4)"
    and "\<forall>l \<in> set (ls1 @ ls2). \<not> final l" "at_prompt \<notin> set ls1" "final f" "final_error f = Some e"
  shows "at_send_command_full_nolock command SINGLELINE (Some p) (Some pdu) tmo want True
      (map Line ls1 @ Line at_prompt # map Line ls2 @ [Line f, Wake] @ es) ac =
    Some (e, if want then Some \<lparr>success = (if isFinalResponseSuccess f then 1 else 0), finalResponse = Some f,
               p_intermediates = answer SINGLELINE (Some p) (ls1 @ ls2)\<rparr> else None,
      ac\<lparr>ctype := SINGLELINE, responsePrefix := None, smsPDU := None, response := None,
         sent := sent ac @ command @ [CHR 0x0D] @ pdu @ [CHR 0x1A], writes := w4,
         unsol := unsol ac @ to_handler (others SINGLELINE (Some p) (ls1 @ ls2))\<rparr>, es)"
  by (rule sms_lines [OF assms])

lemma sms_command_answered_witness:
  "at_send_command_full_nolock ''CMGS=1'' SINGLELINE (Some ''+CMGS:'') (Some ''07'') 180000 True True
     (map Line [] @ Line at_prompt # map Line [''+CMGS: 4''] @ [Line ''OK'', Wake] @ []) sample_context =
   Some (0, Some \<lparr>success = 1, finalResponse = Some ''OK'', p_intermediates = [''+CMGS: 4'']\<rparr>,
     sample_context\<lparr>ctype := SINGLELINE, sent := ''CMGS=1'' @ [CHR 0x0D] @ ''07'' @ [CHR 0x1A], writes := [],
       unsol := []\<rparr>, [])"
proof -
  have a: "answer SINGLELINE (Some ''+CMGS:'') ([] @ [''+CMGS: 4'']) = [''+CMGS: 4'']"
    "others SINGLELINE (Some ''+CMGS:'') ([] @ [''+CMGS: 4'']) = []"
    by (simp_all add: answer_def others_def)
  have f: "\<forall>l \<in> set ([] @ [''+CMGS: 4'']). \<not> final l" "at_prompt \<notin> set []" "final ''OK''" "final_error ''OK'' = Some 0"
    "isFinalResponseSuccess ''OK''"
    by (simp_all add: final_def isFinalResponseSuccess_def s_finalResponsesSuccess_def isFinalResponseError_def
        s_finalResponsesError_def final_error_def)
  have w: "write_main ''CMGS=1'' (writes sample_context) = Some (True, ''CMGS=1'', [Wrote 1, Wrote 9, Wrote 1])"
    "write_last (CHR 0x0D) [Wrote 1, Wrote 9, Wrote 1] = Some (True, [CHR 0x0D], [Wrote 9, Wrote 1])"
    "write_main ''07'' [Wrote 9, Wrote 1] = Some (True, ''07'', [Wrote 1])"
    "write_last (CHR 0x1A) [Wrote 1] = Some (True, [CHR 0x1A], [])"
    by simp_all
  have i: "idle sample_context" by (simp add: idle_def)
  show ?thesis
    using sms_command_answered [OF i w f(1-4), of "''+CMGS:''" 180000 True "[]"] a f(5) by simp
qed

text \<open>C14: the contract that the handlers rely on.  Whatever lines the modem sends, short of a line that ends
  within an escape of a quoted text (the tokenizer steps over the end of that one), and whatever write reports,
  a command with a timeout that is waited for until the timeout at most, and whose writes block no longer than until
  one fails, touches nothing outside its lines, leaves no command pending, and keeps its promise: a caller that asked for
  one line and got no error has a response with exactly one line, which fits its prefix, and a caller that got an
  error has no response to free, except for at_send_command_raw.\<close>

theorem command_contract:
  assumes "at_alive m"
  shows "\<exists>e out m'. at_exchange c m = Some (e, out, m') \<and> at_alive m' \<and> at_promise c e out"
  by (rule atch.at_returns [OF assms])

lemma command_contract_witness:
  "\<exists>e out m'. at_exchange (AtSingle ''AT+CSQ'' ''+CSQ:'' True)
      (sample_context, [([Wrote 2], [Line ''+CME ERROR: 10'', Wake])]) = Some (e, out, m') \<and> at_alive m' \<and>
    at_promise (AtSingle ''AT+CSQ'' ''+CSQ:'' True) e out"
  by (rule command_contract) (simp add: at_alive_def tame_def open_escape_def)

text \<open>C37: a numbered error line gives the error of its group and number, for every number that can be added
  to the base of the group without an overflow of \<open>int\<close>; the number is not checked otherwise:
  the commands that fail with -1000 (or -2000) are reported as successful.  The lines without a
  number, NO CARRIER among them, all give the same unspecified error.\<close>

theorem final_line_error:
  assumes "- 2147483648 \<le> n" "n \<le> 2147483647 - CMS_ERROR_BASE"
    "p \<in> {''ERROR'', ''NO CARRIER'', ''NO ANSWER'', ''NO DIALTONE''}" "CHR '':'' \<notin> set t"
  shows "final_error (''+CME ERROR: '' @ dec_int n) = Some (CME_ERROR_BASE + n) \<and>
    final_error (''+CMS ERROR: '' @ dec_int n) = Some (CMS_ERROR_BASE + n) \<and>
    (final_error (''+CME ERROR: '' @ dec_int n) = Some AT_NOERROR \<longleftrightarrow> n = - 1000) \<and>
    (final_error (''+CMS ERROR: '' @ dec_int n) = Some AT_NOERROR \<longleftrightarrow> n = - 2000) \<and>
    final_error (p @ t) = Some (GENERIC_ERROR_BASE + GENERIC_ERROR_UNSPECIFIED)"
proof -
  have n: "in_int32 n" "in_int32 (CME_ERROR_BASE + n)" "in_int32 (CMS_ERROR_BASE + n)" "in_int32 (GENERIC_ERROR_BASE + GENERIC_ERROR_UNSPECIFIED)"
    using assms(1,2) by (simp_all add: in_int32_def error_bases GENERIC_ERROR_UNSPECIFIED_def)
  have "final_error (''+CME ERROR: '' @ dec_int n) = Some (CME_ERROR_BASE + n)"
    "final_error (''+CMS ERROR: '' @ dec_int n) = Some (CMS_ERROR_BASE + n)"
    using final_error_numbered [OF n(1)] n(2,3) by fastforce+
  moreover have "final_error (p @ t) = Some (GENERIC_ERROR_BASE + GENERIC_ERROR_UNSPECIFIED)"
    using final_error_plain [OF assms(3,4)] n(4) by simp
  moreover have "CME_ERROR_BASE + n = AT_NOERROR \<longleftrightarrow> n = - 1000" "CMS_ERROR_BASE + n = AT_NOERROR \<longleftrightarrow> n = - 2000"
    by (auto simp: at_error_numbers)
  ultimately show ?thesis by (simp only: option.inject simp_thms)
qed

lemma final_line_error_witness:
  "final_error (''+CME ERROR: '' @ dec_int (- 1000)) = Some AT_NOERROR \<and>
    final_error (''+CMS ERROR: '' @ dec_int (- 1000)) = Some (CMS_ERROR_BASE - 1000) \<and>
    final_error (''NO CARRIER'' @ '' 7'') = Some (GENERIC_ERROR_BASE + GENERIC_ERROR_UNSPECIFIED)"
proof -
  have "- 2147483648 \<le> (- 1000 :: int)" "(- 1000 :: int) \<le> 2147483647 - CMS_ERROR_BASE"
    "''NO CARRIER'' \<in> {''ERROR'', ''NO CARRIER'', ''NO ANSWER'', ''NO DIALTONE''}" "CHR '':'' \<notin> set '' 7''"
    by (simp_all add: error_bases)
  from final_line_error [OF this] show ?thesis by (elim conjE) (simp only: simp_thms add_uminus_conv_diff)
qed

end
