(* ===== verification/At_Threads.thy ===== *)
theory At_Threads
  imports At_Command
begin

text \<open>
  Several threads that send commands over one AT channel, and its reader: the locking of
  \<open>at_send_command_full\<close> in \<open>atchannel.c\<close> as a step relation.  A step is what a thread does while
  it holds the command mutex; it gives the mutex up when it waits for the request mutex or for
  its answer.  The buffer \<open>strbuf\<close> in which commands are formatted is shared by all threads.
\<close>

section \<open>States\<close>

record command =
  ctext :: string
  cuseap :: bool
  ctype_of :: ATCommandType
  cprefix :: "string option"
  cpdu :: "string option"
  ctmo :: int
  cwant :: bool

datatype thread = Idle | Blocked command | Waiting command | Returned int "ATResponse option"

text \<open>\<open>owner\<close> holds the request mutex; \<open>log\<close> records, for each command begun, the thread, the command and the text that was to be written.\<close>

record channel =
  ctx :: atcontext
  owner :: "nat option"
  strbuf :: string
  threads :: "nat \<Rightarrow> thread"
  log :: "(nat \<times> command \<times> string) list"

definition set_thread :: "nat \<Rightarrow> thread \<Rightarrow> channel \<Rightarrow> channel" where
  "set_thread t x s = s\<lparr>threads := (threads s)(t := x)\<rparr>"

text \<open>The end of \<open>at_send_command_full_nolock\<close> and of its caller.\<close>

definition finish :: "nat \<Rightarrow> int \<Rightarrow> ATResponse option \<Rightarrow> channel \<Rightarrow> channel" where
  "finish t err out s = set_thread t (Returned err out) (s\<lparr>ctx := clearPendingCommand (ctx s), owner := None\<rparr>)"

text \<open>The request mutex is taken if it is free; then the command is written.\<close>

definition try_begin :: "nat \<Rightarrow> command \<Rightarrow> channel \<Rightarrow> channel option" where
  "try_begin t c s =
    (if owner s \<noteq> None then Some (set_thread t (Blocked c) s)
     else do {
       let ptr = (if cuseap c then strbuf s else ctext c);
       (err, ac) \<leftarrow> send_begin ptr (ctype_of c) (cprefix c) (cpdu c) True (ctx s);
       let s1 = s\<lparr>ctx := ac, owner := Some t, log := log s @ [(t, c, ptr)]\<rparr>;
       Some (if err \<noteq> AT_NOERROR then finish t err None s1 else set_thread t (Waiting c) s1)
     })"

definition start :: "nat \<Rightarrow> command \<Rightarrow> channel \<Rightarrow> channel option" where
  "start t c s =
    (if cuseap c \<and> ctext c = [] then Some (set_thread t (Returned AT_ERROR_STRING_CREATION None) s)
     else try_begin t c (if cuseap c then s\<lparr>strbuf := take (BUFFSIZE - 1) (ctext c)\<rparr> else s))"

inductive chan_step :: "channel \<Rightarrow> channel \<Rightarrow> bool" where
  call: "threads s t = Idle \<or> (\<exists>e r. threads s t = Returned e r) \<Longrightarrow> prefix_ok (ctype_of c) (cprefix c) \<Longrightarrow>
    start t c s = Some s' \<Longrightarrow> chan_step s s'"
| retry: "threads s t = Blocked c \<Longrightarrow> try_begin t c s = Some s' \<Longrightarrow> chan_step s s'"
| line: "processLine l (ctx s) = Some ac \<Longrightarrow> chan_step s (s\<lparr>ctx := ac\<rparr>)"
| gone: "chan_step s (s\<lparr>ctx := onReaderClosed (ctx s)\<rparr>)"
| closed: "chan_step s (s\<lparr>ctx := at_close (ctx s)\<rparr>)"
| answered: "threads s t = Waiting c \<Longrightarrow> wait_over (ctx s) = Some True \<Longrightarrow>
    send_end (cwant c) (ctx s) = Some (err, out, ac) \<Longrightarrow> chan_step s (finish t err out (s\<lparr>ctx := ac\<rparr>))"
| timed_out: "threads s t = Waiting c \<Longrightarrow> ctmo c \<noteq> 0 \<Longrightarrow> chan_step s (finish t AT_ERROR_TIMEOUT None s)"

definition init_channel :: "atcontext \<Rightarrow> channel" where
  "init_channel ac = \<lparr>ctx = ac, owner = None, strbuf = [], threads = (\<lambda>_. Idle), log = []\<rparr>"

definition chan_reachable :: "channel \<Rightarrow> bool" where
  "chan_reachable s \<longleftrightarrow> (\<exists>ac. response ac = None \<and> chan_step\<^sup>*\<^sup>* (init_channel ac) s)"

lemma chan_reachable_init: "response ac = None \<Longrightarrow> chan_reachable (init_channel ac)"
  by (auto simp: chan_reachable_def)

lemma chan_reachable_step: "chan_reachable s \<Longrightarrow> chan_step s s' \<Longrightarrow> chan_reachable s'"
  unfolding chan_reachable_def by (meson rtranclp.rtrancl_into_rtrancl)

section \<open>The invariant\<close>

text \<open>The pending command is that of the owner of the request mutex, and nobody else waits for an answer.\<close>

definition chan_ok :: "channel \<Rightarrow> bool" where
  "chan_ok s \<longleftrightarrow>
     (case owner s of
        None \<Rightarrow> response (ctx s) = None \<and> (\<forall>t c. threads s t \<noteq> Waiting c)
      | Some t \<Rightarrow> \<exists>c. threads s t = Waiting c \<and> pending_ok (ctype_of c) (cprefix c) (ctx s) \<and>
          (\<forall>u c'. threads s u = Waiting c' \<longrightarrow> u = t))"

lemma pending_ok_cong:
  "ctype ac' = ctype ac \<Longrightarrow> responsePrefix ac' = responsePrefix ac \<Longrightarrow> response ac' = response ac \<Longrightarrow>
   pending_ok T p ac' = pending_ok T p ac"
  by (simp add: pending_ok_def)

lemma finish_ok:
  assumes "\<forall>u c. threads s u = Waiting c \<longrightarrow> u = t"
  shows "chan_ok (finish t err out s)"
  using assms by (auto simp: chan_ok_def finish_def set_thread_def clearPendingCommand_def)

lemma try_begin_ok:
  assumes "chan_ok s" "try_begin t c s = Some s'" "\<forall>c. threads s t \<noteq> Waiting c"
  shows "chan_ok s'"
proof (cases "owner s")
  case (Some u)
  with assms(2) have s': "s' = set_thread t (Blocked c) s" by (simp add: try_begin_def)
  from assms(1) Some obtain c0 where w: "threads s u = Waiting c0"
    "pending_ok (ctype_of c0) (cprefix c0) (ctx s)" "\<forall>v c'. threads s v = Waiting c' \<longrightarrow> v = u"
    by (auto simp: chan_ok_def)
  then have "u \<noteq> t" using assms(3) by auto
  with w Some show ?thesis by (auto simp: chan_ok_def s' set_thread_def)
next
  case None
  note n = assms(1) [unfolded chan_ok_def None, simplified]
  from assms(2) None obtain err ac where b: "send_begin (if cuseap c then strbuf s else ctext c) (ctype_of c) (cprefix c)
      (cpdu c) True (ctx s) = Some (err, ac)"
    by (auto simp: try_begin_def bind_eq_Some_conv Let_def)
  let ?s1 = "s\<lparr>ctx := ac, owner := Some t, log := log s @ [(t, c, if cuseap c then strbuf s else ctext c)]\<rparr>"
  have s': "s' = (if err \<noteq> AT_NOERROR then finish t err None ?s1 else set_thread t (Waiting c) ?s1)"
    using assms(2) None b by (simp add: try_begin_def Let_def)
  from send_begin_pending [OF b] n have po: "err = AT_NOERROR \<longrightarrow> pending_ok (ctype_of c) (cprefix c) ac" by simp
  show ?thesis
  proof (cases "err = AT_NOERROR")
    case False
    have "chan_ok (finish t err None ?s1)" by (rule finish_ok) (use n in simp)
    with False s' show ?thesis by simp
  next
    case True
    with s' po n show ?thesis by (auto simp: chan_ok_def set_thread_def)
  qed
qed

lemma chan_step_ok:
  assumes "chan_step s s'" "chan_ok s"
  shows "chan_ok s'"
  using assms
proof (induction rule: chan_step.induct)
  case (call s t c s')
  then have nw: "\<forall>c. threads s t \<noteq> Waiting c" by auto
  show ?case
  proof (cases "cuseap c \<and> ctext c = []")
    case True
    with call have "s' = set_thread t (Returned AT_ERROR_STRING_CREATION None) s" by (simp add: start_def)
    with call nw show ?thesis by (fastforce simp: chan_ok_def set_thread_def split: option.splits)
  next
    case False
    let ?s = "if cuseap c then s\<lparr>strbuf := take (BUFFSIZE - 1) (ctext c)\<rparr> else s"
    have ok: "chan_ok ?s" using call(4) by (simp add: chan_ok_def split: option.splits)
    have tb: "try_begin t c ?s = Some s'" using False call(3) by (auto simp: start_def)
    show ?thesis by (rule try_begin_ok [OF ok tb]) (use nw in simp)
  qed
next
  case (retry s t c s') then show ?case using try_begin_ok [of s t c s'] by simp
next
  case (line l s ac)
  show ?case
  proof (cases "owner s")
    case None
    with line have "response (ctx s) = None" by (simp add: chan_ok_def)
    with line(1) have "response ac = None" by (auto simp: processLine_def handleUnsolicited_def)
    with line None show ?thesis by (simp add: chan_ok_def)
  next
    case (Some t)
    with line processLine_pending [of _ _ "ctx s" l ac] show ?thesis by (fastforce simp: chan_ok_def)
  qed
next
  case (gone s)
  then show ?case
    by (auto simp: chan_ok_def onReaderClosed_def pending_ok_def split: option.splits)
next
  case (closed s)
  then show ?case by (auto simp: chan_ok_def at_close_def pending_ok_def split: option.splits)
next
  case (answered s t c err out ac)
  have "\<forall>u c. threads s u = Waiting c \<longrightarrow> u = t"
    using answered by (auto simp: chan_ok_def split: option.splits)
  then show ?case by (intro finish_ok) simp
next
  case (timed_out s t c)
  have "\<forall>u c. threads s u = Waiting c \<longrightarrow> u = t"
    using timed_out by (auto simp: chan_ok_def split: option.splits)
  then show ?case by (rule finish_ok)
qed

lemma chan_reachable_ok:
  assumes "chan_reachable s" shows "chan_ok s"
proof -
  from assms obtain ac where r: "response ac = None" "chan_step\<^sup>*\<^sup>* (init_channel ac) s" by (auto simp: chan_reachable_def)
  show ?thesis using r(2)
  proof (induction rule: rtranclp_induct)
    case base show ?case using r(1) by (simp add: chan_ok_def init_channel_def)
  next
    case (step y z) then show ?case using chan_step_ok by blast
  qed
qed

section \<open>The properties\<close>

abbreviation plain_command :: "string \<Rightarrow> command" where
  "plain_command x \<equiv> \<lparr>ctext = x, cuseap = True, ctype_of = NO_RESULT, cprefix = None, cpdu = None, ctmo = 180000, cwant = False\<rparr>"

abbreviation three_writes :: atcontext where
  "three_writes \<equiv> sample_context\<lparr>writes := [Wrote 9, Wrote 9, Wrote 9, Wrote 9, Wrote 9, Wrote 9]\<rparr>"

text \<open>C10: at most one command is pending: a thread that waits for an answer owns the request mutex, the
  pending response is the one to its own command, and while nobody owns the mutex no response is
  pending, so that no caller finds a command pending that is not its own.\<close>

theorem one_command_at_a_time:
  assumes "chan_reachable s"
  shows "case owner s of
     None \<Rightarrow> response (ctx s) = None \<and> (\<forall>t c. threads s t \<noteq> Waiting c)
   | Some t \<Rightarrow> (\<exists>c. threads s t = Waiting c \<and> pending_ok (ctype_of c) (cprefix c) (ctx s) \<and>
       (\<forall>u c'. threads s u = Waiting c' \<longrightarrow> u = t))"
  using chan_reachable_ok [OF assms] by (simp add: chan_ok_def)

lemma first_caller:
  "\<exists>s. start 1 (plain_command ''ATA'') (init_channel three_writes) = Some s \<and> chan_reachable s \<and> owner s = Some 1 \<and>
     threads s = (\<lambda>_. Idle)(1 := Waiting (plain_command ''ATA'')) \<and>
     ctx s = three_writes\<lparr>response := Some at_response_new, sent := ''ATA'' @ [CHR 0x0D], writes := [Wrote 9, Wrote 9, Wrote 9, Wrote 9]\<rparr>"
proof -
  let ?s0 = "init_channel three_writes"
  note e = start_def try_begin_def send_begin_def writeline_def write_with_def init_channel_def set_thread_def
    BUFFSIZE_def at_error_numbers Let_def
  obtain s where s: "start 1 (plain_command ''ATA'') ?s0 = Some s" "owner s = Some 1"
    "threads s = (\<lambda>_. Idle)(1 := Waiting (plain_command ''ATA''))"
    "ctx s = three_writes\<lparr>response := Some at_response_new, sent := ''ATA'' @ [CHR 0x0D], writes := [Wrote 9, Wrote 9, Wrote 9, Wrote 9]\<rparr>"
    by (simp add: e)
  have "chan_reachable ?s0" by (simp add: chan_reachable_init)
  moreover have "chan_step ?s0 s" by (rule chan_step.call [OF _ _ s(1)]) (simp_all add: init_channel_def)
  ultimately have "chan_reachable s" by (rule chan_reachable_step)
  with s show ?thesis by blast
qed

lemma one_command_at_a_time_witness:
  "\<exists>s :: channel. owner s = Some 1 \<and> threads s 1 = Waiting (plain_command ''ATA'') \<and> pending_ok NO_RESULT None (ctx s) \<and>
     (\<forall>u c'. threads s u = Waiting c' \<longrightarrow> u = 1)"
proof -
  obtain s where s: "chan_reachable s" "owner s = Some 1" "threads s 1 = Waiting (plain_command ''ATA'')"
    using first_caller by auto
  with one_command_at_a_time [OF s(1)] show ?thesis by - (rule exI [of _ s], auto)
qed

text \<open>Two threads that wait for the channel share one buffer for their formatted commands: a thread
  can come to write the command of another thread, and not its own.\<close>

theorem command_text_overwritten:
  "\<exists>s t c x. chan_reachable s \<and> (t, c, x) \<in> set (log s) \<and> cuseap c \<and> length (ctext c) < BUFFSIZE \<and> x \<noteq> ctext c"
proof -
  let ?A = "plain_command ''ATA''" and ?B = "plain_command ''ATH''" and ?C = "plain_command ''ATD''"
  let ?s0 = "init_channel three_writes"
  note e = start_def try_begin_def send_begin_def writeline_def write_with_def init_channel_def set_thread_def
    BUFFSIZE_def at_error_numbers Let_def
  obtain s1 where s1: "start 1 ?A ?s0 = Some s1" "threads s1 = (\<lambda>_. Idle)(1 := Waiting ?A)" "owner s1 = Some 1"
    "ctx s1 = three_writes\<lparr>response := Some at_response_new, sent := ''ATA'' @ [CHR 0x0D], writes := [Wrote 9, Wrote 9, Wrote 9, Wrote 9]\<rparr>"
    "chan_reachable s1"
    using first_caller by auto
  obtain s2 where s2: "start 2 ?B s1 = Some s2" "threads s2 = (threads s1)(2 := Blocked ?B)" "owner s2 = Some 1" "ctx s2 = ctx s1"
    using s1 by (simp add: start_def try_begin_def set_thread_def)
  obtain s3 where s3: "start 3 ?C s2 = Some s3" "threads s3 = (threads s2)(3 := Blocked ?C)" "owner s3 = Some 1" "ctx s3 = ctx s1"
    "strbuf s3 = ''ATD''"
    using s2 by (simp add: start_def try_begin_def set_thread_def BUFFSIZE_def)
  let ?r = "\<lparr>success = 1, finalResponse = Some ''OK'', p_intermediates = []\<rparr>"
  let ?ac = "(ctx s1)\<lparr>response := Some ?r\<rparr>"
  have pl: "processLine ''OK'' (ctx s3) = Some ?ac"
    using s1 s3 by (simp add: processLine_def isFinalResponseSuccess_def s_finalResponsesSuccess_def
        handleFinalResponse_def at_response_new_def)
  let ?s4 = "s3\<lparr>ctx := ?ac\<rparr>"
  let ?s5 = "finish 1 0 None (?s4\<lparr>ctx := ?ac\<lparr>response := None\<rparr>\<rparr>)"
  have s5: "threads ?s5 2 = Blocked ?B" "owner ?s5 = None" "strbuf ?s5 = ''ATD''"
    using s2 s3 by (simp_all add: finish_def set_thread_def)
  have c5: "ctx ?s5 = three_writes\<lparr>sent := ''ATA'' @ [CHR 0x0D], writes := [Wrote 9, Wrote 9, Wrote 9, Wrote 9]\<rparr>"
    using s1(4) by (simp add: finish_def set_thread_def clearPendingCommand_def)
  have sb: "\<exists>ac. send_begin ''ATD'' NO_RESULT None None True
      (three_writes\<lparr>sent := ''ATA'' @ [CHR 0x0D], writes := [Wrote 9, Wrote 9, Wrote 9, Wrote 9]\<rparr>) = Some (0, ac)"
    by (simp add: send_begin_def writeline_def write_with_def at_error_numbers Let_def)
  have "\<exists>s6. try_begin 2 ?B s5 = Some s6 \<and> (2, ?B, ''ATD'') \<in> set (log s6)"
    if o: "owner s5 = None" and b: "strbuf s5 = ''ATD''"
      and c: "ctx s5 = three_writes\<lparr>sent := ''ATA'' @ [CHR 0x0D], writes := [Wrote 9, Wrote 9, Wrote 9, Wrote 9]\<rparr>" for s5
  proof -
    have "\<exists>ac. send_begin ''ATD'' NO_RESULT None None True (ctx s5) = Some (0, ac)" unfolding c by (rule sb)
    then obtain ac where "send_begin ''ATD'' NO_RESULT None None True (ctx s5) = Some (0, ac)" by blast
    then have "try_begin 2 ?B s5 = Some (set_thread 2 (Waiting ?B)
        (s5\<lparr>ctx := ac, owner := Some 2, log := log s5 @ [(2, ?B, ''ATD'')]\<rparr>))"
      unfolding try_begin_def o b by (simp add: at_error_numbers)
    then show ?thesis by (simp add: set_thread_def)
  qed
  from this [OF s5(2,3) c5] obtain s6 where s6: "try_begin 2 ?B ?s5 = Some s6" "(2, ?B, ''ATD'') \<in> set (log s6)" by blast
  note s1(5)
  moreover have "chan_step s1 s2" by (rule chan_step.call [OF _ _ s2(1)]) (simp_all add: s1)
  ultimately have "chan_reachable s2" by (rule chan_reachable_step)
  moreover have "chan_step s2 s3" by (rule chan_step.call [OF _ _ s3(1)]) (simp_all add: s1 s2)
  ultimately have "chan_reachable s3" by (rule chan_reachable_step)
  then have "chan_reachable ?s4" using chan_step.line [OF pl] by (rule chan_reachable_step)
  moreover have "chan_step ?s4 ?s5"
    by (rule chan_step.answered [where c = ?A]) (simp_all add: s1 s2 s3 send_end_def at_error_numbers Let_def wait_over_def)
  ultimately have "chan_reachable ?s5" by (rule chan_reachable_step)
  then have "chan_reachable s6" using chan_step.retry [OF s5(1) s6(1)] by (rule chan_reachable_step)
  then show ?thesis using s6(2)
    by (intro exI [of _ s6] exI [of _ 2] exI [of _ ?B] exI [of _ "''ATD''"]) (simp add: BUFFSIZE_def)
qed

end
