(* ===== verification/Ril_Base.thy ===== *)
theory Ril_Base
  imports Ril_Queue At_Command Misc "HOL-Library.Multiset"
begin

text \<open>
  What the request handlers of \<open>huaweigeneric-ril.c\<close> share: the types of the RIL interface that
  they fill in, the state they keep, the commands they send and the lines they parse, and the rules
  by which the properties of a handler are computed from its text.

  A handler is a function of the state.  Its result is \<open>None\<close> when the C code has no defined
  behaviour: a null pointer is followed, a table is indexed out of range, an assertion fails.
\<close>

section \<open>The interface of the RIL library\<close>

datatype RIL_RadioState = RADIO_STATE_OFF | RADIO_STATE_UNAVAILABLE | RADIO_STATE_SIM_NOT_READY
  | RADIO_STATE_SIM_LOCKED_OR_ABSENT | RADIO_STATE_SIM_READY | RADIO_STATE_RUIM_NOT_READY | RADIO_STATE_RUIM_READY
  | RADIO_STATE_RUIM_LOCKED_OR_ABSENT | RADIO_STATE_NV_NOT_READY | RADIO_STATE_NV_READY | RADIO_STATE_OTHER int

datatype RIL_Errno = RIL_E_SUCCESS | RIL_E_RADIO_NOT_AVAILABLE | RIL_E_GENERIC_FAILURE | RIL_E_PASSWORD_INCORRECT
  | RIL_E_SIM_PUK2 | RIL_E_REQUEST_NOT_SUPPORTED | RIL_E_SMS_SEND_FAIL_RETRY | RIL_E_ILLEGAL_SIM_OR_ME

datatype ril_unsol = RIL_UNSOL_RESPONSE_RADIO_STATE_CHANGED | RIL_UNSOL_RESPONSE_CALL_STATE_CHANGED
  | RIL_UNSOL_RESPONSE_VOICE_NETWORK_STATE_CHANGED | RIL_UNSOL_RESPONSE_NEW_SMS
  | RIL_UNSOL_RESPONSE_NEW_SMS_STATUS_REPORT | RIL_UNSOL_RESPONSE_NEW_SMS_ON_SIM | RIL_UNSOL_ON_USSD
  | RIL_UNSOL_NITZ_TIME_RECEIVED | RIL_UNSOL_SIGNAL_STRENGTH | RIL_UNSOL_DATA_CALL_LIST_CHANGED
  | RIL_UNSOL_SIM_SMS_STORAGE_FULL | RIL_UNSOL_RESPONSE_NEW_BROADCAST_SMS | RIL_UNSOL_RESTRICTED_STATE_CHANGED

datatype RIL_CallState = RIL_CALL_ACTIVE | RIL_CALL_HOLDING | RIL_CALL_DIALING | RIL_CALL_ALERTING
  | RIL_CALL_INCOMING | RIL_CALL_WAITING

record RIL_Call =
  call_state :: RIL_CallState
  call_index :: int
  call_toa :: int
  isMpty :: int
  isMT :: int
  isVoice :: int
  call_number :: "string option"

record RIL_CallForwardInfo =
  cf_status :: int
  cf_reason :: int
  cf_serviceClass :: int
  cf_toa :: int
  cf_number :: "string option"
  cf_timeSeconds :: int

record RIL_SIM_IO_Response =
  sw1 :: int
  sw2 :: int
  simResponse :: "string option"

record RIL_Data_Call_Response =
  dc_status :: int
  dc_suggestedRetryTime :: int
  dc_cid :: int
  dc_active :: int
  dc_type :: string
  dc_ifname :: string
  dc_addresses :: string
  dc_dnses :: string
  dc_gateways :: string

record RIL_SignalStrength =
  GW_signalStrength :: int
  GW_bitErrorRate :: int
  CDMA_dbm :: int
  CDMA_ecio :: int
  EVDO_dbm :: int
  EVDO_ecio :: int
  EVDO_signalNoiseRatio :: int
  LTE_signalStrength :: int
  LTE_rsrp :: int
  LTE_rsrq :: int
  LTE_rssnr :: int
  LTE_cqi :: int

datatype RIL_AppType = RIL_APPTYPE_UNKNOWN | RIL_APPTYPE_SIM | RIL_APPTYPE_USIM
datatype RIL_AppState = RIL_APPSTATE_UNKNOWN | RIL_APPSTATE_DETECTED | RIL_APPSTATE_PIN | RIL_APPSTATE_PUK
  | RIL_APPSTATE_SUBSCRIPTION_PERSO | RIL_APPSTATE_READY
datatype RIL_PersoSubstate = RIL_PERSOSUBSTATE_UNKNOWN | RIL_PERSOSUBSTATE_READY | RIL_PERSOSUBSTATE_SIM_NETWORK
  | RIL_PERSOSUBSTATE_SIM_NETWORK_SUBSET | RIL_PERSOSUBSTATE_SIM_CORPORATE | RIL_PERSOSUBSTATE_SIM_SERVICE_PROVIDER
  | RIL_PERSOSUBSTATE_SIM_SIM | RIL_PERSOSUBSTATE_SIM_NETWORK_PUK | RIL_PERSOSUBSTATE_SIM_NETWORK_SUBSET_PUK
  | RIL_PERSOSUBSTATE_SIM_CORPORATE_PUK | RIL_PERSOSUBSTATE_SIM_SERVICE_PROVIDER_PUK | RIL_PERSOSUBSTATE_SIM_SIM_PUK
datatype RIL_PinState = RIL_PINSTATE_UNKNOWN | RIL_PINSTATE_ENABLED_NOT_VERIFIED | RIL_PINSTATE_ENABLED_BLOCKED
  | RIL_PINSTATE_ENABLED_PERM_BLOCKED
datatype RIL_CardState = RIL_CARDSTATE_ABSENT | RIL_CARDSTATE_PRESENT

text \<open>The members of \<open>RIL_AppStatus\<close> that are not \<open>NULL\<close> or \<open>0\<close> in the whole table.\<close>

datatype RIL_AppStatus = AppStatus (app_type: RIL_AppType) (app_state: RIL_AppState)
  (perso_substate: RIL_PersoSubstate) (pin1: RIL_PinState) (pin2: RIL_PinState)

record RIL_CardStatus =
  card_state :: RIL_CardState
  universal_pin_state :: RIL_PinState
  gsm_umts_subscription_app_index :: nat
  cdma_subscription_app_index :: nat
  ims_subscription_app_index :: nat
  num_applications :: nat
  applications :: "RIL_AppStatus list"

record RIL_GSM_BroadcastSmsConfigInfo =
  fromServiceId :: int
  toServiceId :: int
  selected :: int

text \<open>What a request carries, as the type its handler casts \<open>data\<close> to.\<close>

datatype ril_data = DNull | DInts "int list" | DStrings "string option list" | DString string | DBytes bytes
  | DDial string int
  | DSimIO (io_command: int) (io_fileid: int) (io_path: "string option") (io_p1: int) (io_p2: int) (io_p3: int)
      (io_data: "string option")
  | DWriteSms int string "string option"
  | DForward RIL_CallForwardInfo
  | DBroadcast "RIL_GSM_BroadcastSmsConfigInfo list"

text \<open>What is handed to the library with a response.\<close>

datatype ril_payload = PNone | PInts "int list" | PString string | PStrings "string option list" | PData ril_data
  | PCalls "RIL_Call list" | PForwards "RIL_CallForwardInfo list" | PSimIO RIL_SIM_IO_Response
  | PDataCalls "RIL_Data_Call_Response list" | PSignal RIL_SignalStrength | PCard RIL_CardStatus
  | PBroadcast "RIL_GSM_BroadcastSmsConfigInfo list" | PBytes bytes | PCell string int

section \<open>The state\<close>

text \<open>The callbacks that the RIL puts into its own queue.\<close>

datatype ril_event = CheckMessageStorageReady | OnSIMReady | PollSIMState int | IsSimSmsStorageFull
  | SendCallStateChanged | OnDataCallListChanged | PollOperatorSelected nat nat

text \<open>What leaves the RIL: a response to a request, an unsolicited response, a shell command.  Payloads
  come with the size that is passed along.\<close>

datatype ril_out = OnComplete nat RIL_Errno ril_payload nat | OnUnsol ril_unsol ril_payload nat
  | System string

datatype UICC_Type = UICC_TYPE_UNKNOWN | UICC_TYPE_SIM | UICC_TYPE_USIM | UICC_TYPE_UIM

datatype Reg_Deny_DetailReason = DEFAULT_VALUE | GENERAL | AUTHENTICATION_FAILURE | IMSI_UNKNOWN_IN_HLR | ILLEGAL_MS
  | ILLEGAL_ME | PLMN_NOT_ALLOWED | LOCATION_AREA_NOT_ALLOWED | ROAMING_NOT_ALLOWED
  | NO_SUITABLE_CELL_IN_LOCATION_AREA | NETWORK_FAILURE | PERSISTEN_LOCATION_UPDATE_REJECT

datatype held_pdu = Held (held_type: int) (held_text: string)

text \<open>The operating system: the system properties and the \<open>ppp0\<close> interface as they change with
  time, which the model counts in seconds of sleep, and what starting the audio tunnel returns.\<close>

record ril_env =
  property_at :: "nat \<Rightarrow> string \<Rightarrow> string option"
  ppp0_at :: "nat \<Rightarrow> bool"
  gsm_audio_tunnel_start :: "int \<Rightarrow> int \<Rightarrow> int \<Rightarrow> int"

record 'm ril =
  modem :: 'm
  sState :: RIL_RadioState
  s_outstanding_acknowledge :: bool
  s_held_pdus :: "held_pdu list"
  UiccType :: UICC_Type
  s_registrationDeniedReason :: Reg_Deny_DetailReason
  tunnel_running :: bool
  sNITZtime :: string
  events :: "(ril_event \<times> timespec option) list"
  clock :: nat
  env :: ril_env
  outputs :: "ril_out list"

definition emit :: "ril_out \<Rightarrow> 'm ril \<Rightarrow> 'm ril" where
  "emit x s = s\<lparr>outputs := outputs s @ [x]\<rparr>"

abbreviation RIL_onRequestComplete :: "nat \<Rightarrow> RIL_Errno \<Rightarrow> ril_payload \<Rightarrow> nat \<Rightarrow> 'm ril \<Rightarrow> 'm ril" where
  "RIL_onRequestComplete t e p n \<equiv> emit (OnComplete t e p n)"

abbreviation RIL_onUnsolicitedResponse :: "ril_unsol \<Rightarrow> ril_payload \<Rightarrow> nat \<Rightarrow> 'm ril \<Rightarrow> 'm ril" where
  "RIL_onUnsolicitedResponse u p n \<equiv> emit (OnUnsol u p n)"

text \<open>\<open>enqueueRILEvent\<close>.  The state keeps the events with the delays they were given, in the order of
  the calls; the theory of the request queue shows how the queue sorts them.\<close>

definition enqueue_event :: "ril_event \<Rightarrow> timespec option \<Rightarrow> 'm ril \<Rightarrow> 'm ril" where
  "enqueue_event e d s = s\<lparr>events := events s @ [(e, d)]\<rparr>"

text \<open>The static variables as they are initialised, on a channel and a system.\<close>

definition init_ril :: "'m \<Rightarrow> ril_env \<Rightarrow> 'm ril" where
  "init_ril m e = \<lparr>modem = m, sState = RADIO_STATE_UNAVAILABLE, s_outstanding_acknowledge = False, s_held_pdus = [],
     UiccType = UICC_TYPE_UNKNOWN, s_registrationDeniedReason = DEFAULT_VALUE, tunnel_running = False, sNITZtime = [],
     events = [], clock = 0, env = e, outputs = []\<rparr>"

text \<open>A system without properties and connections, for the examples.\<close>

abbreviation sample_env :: ril_env where
  "sample_env \<equiv> \<lparr>property_at = (\<lambda>_ _. None), ppp0_at = (\<lambda>_. False), gsm_audio_tunnel_start = (\<lambda>_ _ _. 0)\<rparr>"

definition sleep :: "nat \<Rightarrow> 'm ril \<Rightarrow> 'm ril" where
  "sleep n s = s\<lparr>clock := clock s + n\<rparr>"

definition property_get :: "string \<Rightarrow> 'm ril \<Rightarrow> string option" where
  "property_get name s = property_at (env s) (clock s) name"

text \<open>Sizes on the 32-bit target.\<close>

abbreviation (input) sizeof_ptr :: nat where "sizeof_ptr \<equiv> 4"
abbreviation (input) sizeof_int :: nat where "sizeof_int \<equiv> 4"

text \<open>\<open>((int *) data)[i]\<close> and \<open>((char **) data)[i]\<close>, and \<open>"%s"\<close> of a pointer that may be null.\<close>

fun data_int :: "ril_data \<Rightarrow> nat \<Rightarrow> int option" where
  "data_int (DInts xs) i = rd xs i"
| "data_int _ i = None"

fun data_str :: "ril_data \<Rightarrow> nat \<Rightarrow> string option option" where
  "data_str (DStrings xs) i = rd xs i"
| "data_str _ i = None"

fun fmt_s :: "string option \<Rightarrow> string" where
  "fmt_s (Some s) = s"
| "fmt_s None = ''(null)''"

text \<open>What a pointer points to that must not be null.\<close>

definition not_null :: "'a option \<Rightarrow> 'a option" where
  "not_null p = p"

text \<open>\<open>"%.2x"\<close>, \<open>"%04x"\<close> and the like: at least \<open>w\<close> digits.\<close>

definition hex_digit :: "nat \<Rightarrow> char" where
  "hex_digit d = ''0123456789abcdef'' ! d"

fun hex_nat :: "nat \<Rightarrow> string" where
  "hex_nat n = (if n < 16 then [hex_digit n] else hex_nat (n div 16) @ [hex_digit (n mod 16)])"

declare hex_nat.simps [simp del]

definition fmt_x :: "nat \<Rightarrow> int \<Rightarrow> string" where
  "fmt_x w z = (let d = hex_nat (nat (uint32 z)) in replicate (w - length d) (CHR ''0'') @ d)"

definition quoted :: "string \<Rightarrow> string" where
  "quoted s = [dquote] @ s @ [dquote]"

section \<open>Sending and parsing\<close>

type_synonym 'm at_fun = "at_cmd \<Rightarrow> 'm \<Rightarrow> (int \<times> ATResponse option \<times> 'm) option"

definition at :: "'m at_fun \<Rightarrow> at_cmd \<Rightarrow> 'm ril \<Rightarrow> (int \<times> ATResponse option \<times> 'm ril) option" where
  "at send c s = map_option (\<lambda>(err, r, m). (err, r, s\<lparr>modem := m\<rparr>)) (send c (modem s))"

text \<open>\<open>at_send_command\<close> where only the error matters.\<close>

definition at_cmd1 :: "'m at_fun \<Rightarrow> string \<Rightarrow> 'm ril \<Rightarrow> (int \<times> 'm ril) option" where
  "at_cmd1 send c s = map_option (\<lambda>(err, r, s'). (err, s')) (at send (AtCommand c) s)"

text \<open>\<open>atResponse->p_intermediates->line\<close>.\<close>

fun first_line :: "ATResponse option \<Rightarrow> string option" where
  "first_line None = None"
| "first_line (Some r) = (case p_intermediates r of [] \<Rightarrow> None | l # _ \<Rightarrow> Some l)"

text \<open>A parser gives a value, jumps to the error label (\<open>Some None\<close>) or has a memory fault.\<close>

type_synonym 'a parse = "'a option option"

definition pbind :: "'a parse \<Rightarrow> ('a \<Rightarrow> 'b parse) \<Rightarrow> 'b parse" where
  "pbind m f = (case m of None \<Rightarrow> None | Some None \<Rightarrow> Some None | Some (Some x) \<Rightarrow> f x)"

definition ret :: "'a \<Rightarrow> 'a parse" where "ret x = Some (Some x)"

definition fail :: "'a parse" where "fail = Some None"

definition tok_start :: "string \<Rightarrow> cursor parse" where
  "tok_start l = (case at_tok_start (Some l) of (err, cur) \<Rightarrow> if err < 0 then fail else ret cur)"

definition tok_int :: "cursor \<Rightarrow> (int \<times> cursor) parse" where
  "tok_int cur = do { (err, v, cur') \<leftarrow> at_tok_nextint cur (Some 0);
     if err < 0 then fail else do { x \<leftarrow> v; ret (x, cur') } }"

definition tok_hex :: "cursor \<Rightarrow> (int \<times> cursor) parse" where
  "tok_hex cur = do { (err, v, cur') \<leftarrow> at_tok_nexthexint cur (Some 0);
     if err < 0 then fail else do { x \<leftarrow> v; ret (x, cur') } }"

definition tok_bool :: "cursor \<Rightarrow> (int \<times> cursor) parse" where
  "tok_bool cur = do { (err, v, cur') \<leftarrow> at_tok_nextbool 0 cur (Some 0);
     if err < 0 then fail else do { x \<leftarrow> v; ret (x, cur') } }"

definition tok_str :: "cursor \<Rightarrow> (string \<times> cursor) parse" where
  "tok_str cur = do { (err, v, cur') \<leftarrow> at_tok_nextstr cur None;
     if err < 0 then fail else do { x \<leftarrow> v; ret (x, cur') } }"

text \<open>The usual beginning of a handler: send the command, give up on an error, parse the first line.\<close>

definition query :: "'m at_fun \<Rightarrow> at_cmd \<Rightarrow> (string \<Rightarrow> 'a parse) \<Rightarrow> 'm ril \<Rightarrow> ('a option \<times> 'm ril) option" where
  "query send c f s = do {
     (err, r, s1) \<leftarrow> at send c s;
     if err \<noteq> AT_NOERROR then Some (None, s1)
     else do { l \<leftarrow> first_line r; x \<leftarrow> f l; Some (x, s1) } }"

abbreviation at_single :: "string \<Rightarrow> string \<Rightarrow> at_cmd" where
  "at_single c p \<equiv> AtSingle c p True"

section \<open>Which requests are answered\<close>

text \<open>The tokens that are answered, or will be: a poll of the selected operator carries the token of its
  request.\<close>

fun completed_by :: "ril_out \<Rightarrow> nat list" where
  "completed_by (OnComplete t e p n) = [t]"
| "completed_by _ = []"

fun promised_by :: "ril_event \<times> timespec option \<Rightarrow> nat list" where
  "promised_by (PollOperatorSelected t n, d) = [t]"
| "promised_by _ = []"

definition answered :: "'m ril \<Rightarrow> nat multiset" where
  "answered s = mset (concat (map completed_by (outputs s))) + mset (concat (map promised_by (events s)))"

text \<open>While the SIM is not ready a poll of its state is due.\<close>

definition sim_polled :: "'m ril \<Rightarrow> bool" where
  "sim_polled s \<longleftrightarrow> (sState s = RADIO_STATE_SIM_NOT_READY \<longrightarrow> (\<exists>p d. (PollSIMState p, d) \<in> set (events s)))"

text \<open>The radio states that this RIL enters; the others are those of CDMA phones.\<close>

definition gsm_state :: "RIL_RadioState \<Rightarrow> bool" where
  "gsm_state r \<longleftrightarrow> r \<in> {RADIO_STATE_OFF, RADIO_STATE_UNAVAILABLE, RADIO_STATE_SIM_NOT_READY,
     RADIO_STATE_SIM_LOCKED_OR_ABSENT, RADIO_STATE_SIM_READY}"

lemma gsm_state_simps [simp]:
  "gsm_state RADIO_STATE_OFF" "gsm_state RADIO_STATE_UNAVAILABLE" "gsm_state RADIO_STATE_SIM_NOT_READY"
  "gsm_state RADIO_STATE_SIM_LOCKED_OR_ABSENT" "gsm_state RADIO_STATE_SIM_READY"
  by (simp_all add: gsm_state_def)

lemma answered_emit [simp]:
  "answered (emit x s) = answered s + mset (completed_by x)"
  "answered (enqueue_event e d s) = answered s + mset (promised_by (e, d))"
  by (simp_all add: answered_def emit_def enqueue_event_def)

lemma sim_polled_simps [simp]:
  "sim_polled (emit x s) = sim_polled s" "sim_polled (s\<lparr>modem := m\<rparr>) = sim_polled s"
  "sim_polled (s\<lparr>s_outstanding_acknowledge := b\<rparr>) = sim_polled s" "sim_polled (s\<lparr>s_held_pdus := hs\<rparr>) = sim_polled s"
  "sim_polled (s\<lparr>UiccType := u\<rparr>) = sim_polled s" "sim_polled (s\<lparr>tunnel_running := b\<rparr>) = sim_polled s"
  "sim_polled (s\<lparr>sNITZtime := z\<rparr>) = sim_polled s" "sim_polled (s\<lparr>clock := n\<rparr>) = sim_polled s"
  "sim_polled (sleep n s) = sim_polled s"
  by (simp_all add: sim_polled_def emit_def sleep_def)

lemma sim_polled_enqueue [simp]:
  "sim_polled s \<Longrightarrow> sim_polled (enqueue_event e d s)" "sim_polled (enqueue_event (PollSIMState p) d s)"
  by (auto simp: sim_polled_def enqueue_event_def)

lemma answered_update [simp]:
  "answered (s\<lparr>modem := m\<rparr>) = answered s" "answered (s\<lparr>sState := st\<rparr>) = answered s"
  "answered (s\<lparr>s_outstanding_acknowledge := b\<rparr>) = answered s" "answered (s\<lparr>s_held_pdus := hs\<rparr>) = answered s"
  "answered (s\<lparr>UiccType := u\<rparr>) = answered s" "answered (s\<lparr>tunnel_running := b\<rparr>) = answered s"
  "answered (s\<lparr>sNITZtime := z\<rparr>) = answered s" "answered (s\<lparr>clock := n\<rparr>) = answered s"
  "answered (sleep n s) = answered s"
  by (simp_all add: answered_def sleep_def)

lemma emit_fields [simp]:
  "modem (emit x s) = modem s" "sState (emit x s) = sState s" "tunnel_running (emit x s) = tunnel_running s"
  "s_outstanding_acknowledge (emit x s) = s_outstanding_acknowledge s" "s_held_pdus (emit x s) = s_held_pdus s"
  "UiccType (emit x s) = UiccType s" "s_registrationDeniedReason (emit x s) = s_registrationDeniedReason s"
  "sNITZtime (emit x s) = sNITZtime s" "clock (emit x s) = clock s" "env (emit x s) = env s"
  "outputs (emit x s) = outputs s @ [x]" "events (emit x s) = events s"
  by (simp_all add: emit_def)

lemma enqueue_event_fields [simp]:
  "modem (enqueue_event e d s) = modem s" "sState (enqueue_event e d s) = sState s"
  "tunnel_running (enqueue_event e d s) = tunnel_running s"
  "s_outstanding_acknowledge (enqueue_event e d s) = s_outstanding_acknowledge s"
  "s_held_pdus (enqueue_event e d s) = s_held_pdus s" "UiccType (enqueue_event e d s) = UiccType s"
  "s_registrationDeniedReason (enqueue_event e d s) = s_registrationDeniedReason s"
  "sNITZtime (enqueue_event e d s) = sNITZtime s" "clock (enqueue_event e d s) = clock s"
  "env (enqueue_event e d s) = env s" "outputs (enqueue_event e d s) = outputs s"
  "events (enqueue_event e d s) = events s @ [(e, d)]"
  by (simp_all add: enqueue_event_def)

lemma sleep_fields [simp]:
  "modem (sleep n s) = modem s" "sState (sleep n s) = sState s" "clock (sleep n s) = clock s + n"
  "env (sleep n s) = env s" "outputs (sleep n s) = outputs s"
  by (simp_all add: sleep_def)

section \<open>Computing what a handler does\<close>

text \<open>
  \<open>wp b m Q\<close>: the result of \<open>m\<close> satisfies \<open>Q\<close>; whether \<open>m\<close> may have a fault is \<open>b\<close>, so the rules
  give both that a handler has no fault (\<open>b\<close> false) and what it does if it has none (\<open>b\<close> true).
  \<open>parses b m Q\<close>: the same for a parser and what it returns when it does not jump to the error label.
\<close>

definition wp :: "bool \<Rightarrow> 'a option \<Rightarrow> ('a \<Rightarrow> bool) \<Rightarrow> bool" where
  "wp b m Q \<longleftrightarrow> (case m of None \<Rightarrow> b | Some x \<Rightarrow> Q x)"

definition parses :: "bool \<Rightarrow> 'a parse \<Rightarrow> ('a \<Rightarrow> bool) \<Rightarrow> bool" where
  "parses b m Q \<longleftrightarrow> wp b m (\<lambda>r. case r of None \<Rightarrow> True | Some x \<Rightarrow> Q x)"

named_theorems wps "rules that compute wp and parses"

text \<open>What a handler leaves behind: the channel can be used again, the radio state is one of this RIL,
  a SIM that is not ready is still polled, and the requests answered are the old ones (and the new one).\<close>

definition kept :: "('m \<Rightarrow> bool) \<Rightarrow> 'm ril \<Rightarrow> 'm ril \<Rightarrow> bool" where
  "kept alive s s' \<longleftrightarrow> alive (modem s') \<and> gsm_state (sState s') \<and> (sim_polled s \<longrightarrow> sim_polled s') \<and> answered s' = answered s"

definition served :: "('m \<Rightarrow> bool) \<Rightarrow> nat \<Rightarrow> 'm ril \<Rightarrow> 'm ril \<Rightarrow> bool" where
  "served alive t s s' \<longleftrightarrow> alive (modem s') \<and> gsm_state (sState s') \<and> (sim_polled s \<longrightarrow> sim_polled s') \<and>
     answered s' = add_mset t (answered s)"

lemma wp_Some [simp]: "wp b (Some x) Q = Q x" and wp_None [simp]: "wp b None Q = b"
  by (simp_all add: wp_def)

lemma wp_total: "wp False m Q \<Longrightarrow> \<exists>x. m = Some x \<and> Q x"
  by (cases m) simp_all

lemma wp_partial: "wp b m Q \<Longrightarrow> m = Some x \<Longrightarrow> Q x"
  by simp

lemma wp_bind [wps]: "wp b m (\<lambda>x. wp b (f x) Q) \<Longrightarrow> wp b (Option.bind m f) Q"
  by (cases m) simp_all

lemma wp_if [wps]: "(c \<Longrightarrow> wp b x Q) \<Longrightarrow> (\<not> c \<Longrightarrow> wp b y Q) \<Longrightarrow> wp b (if c then x else y) Q"
  by simp

lemma wp_bool [wps]: "(v \<Longrightarrow> wp b x Q) \<Longrightarrow> (\<not> v \<Longrightarrow> wp b y Q) \<Longrightarrow> wp b (case v of True \<Rightarrow> x | False \<Rightarrow> y) Q"
  by (cases v) simp_all

lemma wp_option [wps]:
  "(r = None \<Longrightarrow> wp b x Q) \<Longrightarrow> (\<And>v. r = Some v \<Longrightarrow> wp b (f v) Q) \<Longrightarrow> wp b (case r of None \<Rightarrow> x | Some v \<Rightarrow> f v) Q"
  by (cases r) simp_all

lemma wp_prod [wps]: "(\<And>u v. p = (u, v) \<Longrightarrow> wp b (f u v) Q) \<Longrightarrow> wp b (case p of (u, v) \<Rightarrow> f u v) Q"
  by (cases p) simp

lemma wp_rd [wps]: "b \<or> i < length xs \<Longrightarrow> (i < length xs \<Longrightarrow> Q (xs ! i)) \<Longrightarrow> wp b (rd xs i) Q"
  by (auto simp: rd_def)

text \<open>A value that the code reads through a pointer.\<close>

lemma wp_value: "b \<or> m \<noteq> None \<Longrightarrow> (\<And>x. m = Some x \<Longrightarrow> Q x) \<Longrightarrow> wp b m Q"
  by (cases m) simp_all

lemma data_int_wp [wps]:
  "b \<or> data_int dat i \<noteq> None \<Longrightarrow> (\<And>x. data_int dat i = Some x \<Longrightarrow> Q x) \<Longrightarrow> wp b (data_int dat i) Q"
  by (rule wp_value)

lemma data_str_wp [wps]:
  "b \<or> data_str dat i \<noteq> None \<Longrightarrow> (\<And>x. data_str dat i = Some x \<Longrightarrow> Q x) \<Longrightarrow> wp b (data_str dat i) Q"
  by (rule wp_value)

lemma not_null_wp [wps]: "b \<or> p \<noteq> None \<Longrightarrow> (\<And>x. p = Some x \<Longrightarrow> Q x) \<Longrightarrow> wp b (not_null p) Q"
  unfolding not_null_def by (rule wp_value)

lemma parses_ret [simp]: "parses b (ret x) Q = Q x" and parses_fail [simp]: "parses b fail Q"
  by (simp_all add: parses_def ret_def fail_def)

lemma parses_bind [wps]: "parses b m (\<lambda>x. parses b (f x) Q) \<Longrightarrow> parses b (pbind m f) Q"
  by (auto simp: parses_def pbind_def wp_def split: option.splits)

lemma parses_if [wps]: "(c \<Longrightarrow> parses b x Q) \<Longrightarrow> (\<not> c \<Longrightarrow> parses b y Q) \<Longrightarrow> parses b (if c then x else y) Q"
  by simp

lemma parses_prod [wps]: "(\<And>u v. p = (u, v) \<Longrightarrow> parses b (f u v) Q) \<Longrightarrow> parses b (case p of (u, v) \<Rightarrow> f u v) Q"
  by (cases p) simp

lemma parses_option [wps]:
  "(r = None \<Longrightarrow> parses b x Q) \<Longrightarrow> (\<And>v. r = Some v \<Longrightarrow> parses b (f v) Q) \<Longrightarrow>
   parses b (case r of None \<Rightarrow> x | Some v \<Rightarrow> f v) Q"
  by (cases r) simp_all

lemma parses_mono: "parses b m P \<Longrightarrow> (\<And>x. P x \<Longrightarrow> Q x) \<Longrightarrow> parses b m Q"
  by (auto simp: parses_def wp_def split: option.splits)

lemma parse_wp: "parses b m P \<Longrightarrow> Q None \<Longrightarrow> (\<And>x. P x \<Longrightarrow> Q (Some x)) \<Longrightarrow> wp b m Q"
  by (auto simp: parses_def wp_def split: option.splits)

lemmas parse_any = parse_wp [where P = "\<lambda>_. True"]

lemma first_line_wp [wps]:
  "case r of None \<Rightarrow> False | Some x \<Rightarrow> one_line w x \<Longrightarrow> (\<And>l. w l \<Longrightarrow> tame l \<Longrightarrow> Q l) \<Longrightarrow> wp b (first_line r) Q"
  by (auto split: option.splits list.splits)

text \<open>Where the cursor can be \<open>NULL\<close> or at an unfinished escape, the tokenizer has no fault on a safe one.\<close>

definition csafe :: "bool \<Rightarrow> cursor \<Rightarrow> bool" where
  "csafe b cur \<longleftrightarrow> b \<or> cursor_safe cur"

lemma csafe_simps [simp]: "csafe True cur" "csafe False cur = cursor_safe cur"
  by (simp_all add: csafe_def)

lemma start_parses [wps]:
  assumes "b \<or> tame l" "\<And>s. csafe b (Some s) \<Longrightarrow> Q (Some s)"
  shows "parses b (tok_start l) Q"
  using start_safe [of "Some l"] assms
  by (cases "strchr l (CHR '':'')") (auto simp: tok_start_def tame_def csafe_def)

lemma at_value: "at_tok_nextint_base cur (Some v0) n u = Some (r, v, cur') \<Longrightarrow> \<not> r < 0 \<Longrightarrow> \<exists>x. v = Some x"
  by (auto simp: at_tok_nextint_base_def split: if_splits option.splits prod.splits)

lemma base_parses:
  assumes "csafe b cur" "\<And>v cur'. csafe b cur' \<Longrightarrow> Q (v, cur')"
  shows "parses b (do { (err, v, cur') \<leftarrow> at_tok_nextint_base cur (Some 0) n u;
     if err < 0 then fail else do { x \<leftarrow> v; ret (x, cur') } }) Q"
proof (cases "at_tok_nextint_base cur (Some 0) n u")
  case None
  with nextint_base_safe [of cur "Some 0" n u] assms(1) show ?thesis by (auto simp: parses_def csafe_def)
next
  case (Some x)
  obtain r v cur' where x: "x = (r, v, cur')" by (cases x)
  have "csafe b cur'" using nextint_base_safe [of cur "Some 0" n u] assms(1) Some x by (auto simp: csafe_def)
  with assms(2) at_value [of cur 0 n u r v cur'] Some x show ?thesis by (cases "r < 0") auto
qed

lemma int_parses [wps]:
  "csafe b cur \<Longrightarrow> (\<And>v cur'. csafe b cur' \<Longrightarrow> Q (v, cur')) \<Longrightarrow> parses b (tok_int cur) Q"
  unfolding tok_int_def at_tok_nextint_def by (rule base_parses)

text \<open>A comma behind the cursor keeps the cursor from becoming \<open>NULL\<close>.\<close>

lemma nextTok_comma: "nextTok (Some s) = Some (t, cur) \<Longrightarrow> CHR '','' \<in> set s \<Longrightarrow> cur \<noteq> None"
proof -
  assume n: "nextTok (Some s) = Some (t, cur)" and c: "CHR '','' \<in> set s"
  have "\<not> isspace (CHR '','')" by (simp add: isspace_def)
  then have "CHR '','' \<in> set (skipWhiteSpace s)" using c
    unfolding skipWhiteSpace_def by (induction s) auto
  then have d: "dropWhile (\<lambda>c. c \<noteq> CHR '','') (skipWhiteSpace s) \<noteq> []"
    by (simp add: dropWhile_eq_Nil_conv)
  obtain z r where z: "dropWhile (\<lambda>c. c \<noteq> CHR '','') (skipWhiteSpace s) = z # r"
    using d by (cases "dropWhile (\<lambda>c. c \<noteq> CHR '','') (skipWhiteSpace s)") simp_all
  show ?thesis
  proof (cases "skipWhiteSpace s")
    case Nil
    with z show ?thesis by simp
  next
    case (Cons c cs)
    have "snd (strsep_comma (c # cs)) \<noteq> None" using z unfolding Cons strsep_comma_def by simp
    then show ?thesis using n [unfolded nextTok.simps Cons]
      by (auto split: if_splits quoted_end.splits prod.splits)
  qed
qed

lemma int_parses_comma:
  assumes "csafe b (Some s)" "CHR '','' \<in> set s" "\<And>v s'. csafe b (Some s') \<Longrightarrow> Q (v, Some s')"
  shows "parses b (tok_int (Some s)) Q"
proof (cases "at_tok_nextint (Some s) (Some 0)")
  case None
  with nextint_base_safe [of "Some s" "Some 0" 10 False] assms(1) show ?thesis
    by (auto simp: parses_def tok_int_def at_tok_nextint_def csafe_def)
next
  case (Some x)
  obtain r v cur' where x: "x = (r, v, cur')" by (cases x)
  have "csafe b cur'"
    using nextint_base_safe [of "Some s" "Some 0" 10 False] assms(1) Some x by (auto simp: at_tok_nextint_def csafe_def)
  moreover have "cur' \<noteq> None" using Some x nextTok_comma [OF _ assms(2)]
    by (auto simp: at_tok_nextint_def at_tok_nextint_base_def split: option.splits prod.splits)
  ultimately show ?thesis using assms(3) Some x at_value [of "Some s" 0 10 False r v cur']
    by (cases "r < 0") (auto simp: tok_int_def at_tok_nextint_def)
qed

lemma charcount_mem: "0 < charcount s c \<longleftrightarrow> c \<in> set s"
  by (induction s) auto

lemma hex_parses [wps]:
  "csafe b cur \<Longrightarrow> (\<And>v cur'. csafe b cur' \<Longrightarrow> Q (v, cur')) \<Longrightarrow> parses b (tok_hex cur) Q"
  unfolding tok_hex_def at_tok_nexthexint_def by (rule base_parses)

lemma bool_parses [wps]:
  assumes "csafe b cur" "\<And>v cur'. csafe b cur' \<Longrightarrow> v = 0 \<or> v = 1 \<Longrightarrow> Q (v, cur')"
  shows "parses b (tok_bool cur) Q"
proof (cases "at_tok_nextint cur (Some 0)")
  case None
  with nextint_base_safe [of cur "Some 0" 10 False] assms(1) show ?thesis
    by (auto simp: parses_def tok_bool_def at_tok_nextbool_def at_tok_nextint_def csafe_def)
next
  case (Some x)
  obtain r v cur' where x: "x = (r, v, cur')" by (cases x)
  have "csafe b cur'"
    using nextint_base_safe [of cur "Some 0" 10 False] assms(1) Some x by (auto simp: at_tok_nextint_def csafe_def)
  with Some x assms(2) show ?thesis by (auto simp: tok_bool_def at_tok_nextbool_def)
qed

lemma str_parses [wps]:
  assumes "csafe b cur" "\<And>v cur'. csafe b cur' \<Longrightarrow> Q (v, cur')"
  shows "parses b (tok_str cur) Q"
proof (cases "nextTok cur")
  case None
  with nextTok_safe [of cur] assms(1) show ?thesis by (auto simp: tok_str_def at_tok_nextstr_def parses_def fail_def csafe_def)
next
  case (Some x)
  obtain t cur' where x: "x = (t, cur')" by (cases x)
  have "csafe b cur'" using nextTok_safe [of cur] assms(1) Some x by (auto simp: csafe_def)
  with Some x assms(2) show ?thesis by (cases t) (auto simp: tok_str_def at_tok_nextstr_def)
qed

text \<open>The tokenizer itself, where the code goes on after an error or keeps what was in the variable.\<close>

lemma nextint_wp [wps]:
  assumes "csafe b cur" "\<And>e v cur'. csafe b cur' \<Longrightarrow> Q (e, Some v, cur')"
  shows "wp b (at_tok_nextint cur (Some x)) Q"
proof (cases "at_tok_nextint cur (Some x)")
  case None
  with nextint_base_safe [of cur "Some x" 10 False] assms(1) show ?thesis by (auto simp: at_tok_nextint_def csafe_def)
next
  case (Some y)
  obtain e v cur' where y: "y = (e, v, cur')" by (cases y)
  have "csafe b cur'"
    using nextint_base_safe [of cur "Some x" 10 False] assms(1) Some y by (auto simp: at_tok_nextint_def csafe_def)
  moreover have "\<exists>z. v = Some z" using Some y
    by (auto simp: at_tok_nextint_def at_tok_nextint_base_def split: if_splits option.splits prod.splits)
  ultimately show ?thesis using assms(2) Some y by auto
qed

lemma nextbool_wp [wps]:
  assumes "csafe b cur" "\<And>e v cur'. csafe b cur' \<Longrightarrow> Q (e, Some v, cur')"
  shows "wp b (at_tok_nextbool 0 cur (Some x)) Q"
proof -
  have "wp b (at_tok_nextint cur (Some 0)) (\<lambda>(e, v, cur'). (\<exists>z. v = Some z) \<and> (csafe b cur'))"
    using assms(1) by (rule nextint_wp) simp
  then show ?thesis using assms(2) by (auto simp: at_tok_nextbool_def wp_def split: option.splits)
qed

lemma nextstr_wp [wps]:
  assumes "csafe b cur" "\<And>e v cur'. csafe b cur' \<Longrightarrow> (0 \<le> e \<longrightarrow> v \<noteq> None) \<Longrightarrow> Q (e, v, cur')"
  shows "wp b (at_tok_nextstr cur x) Q"
proof (cases "nextTok cur")
  case None
  with nextTok_safe [of cur] assms show ?thesis by (auto simp: at_tok_nextstr_def csafe_def)
next
  case (Some y)
  obtain t cur' where y: "y = (t, cur')" by (cases y)
  have "csafe b cur'" using nextTok_safe [of cur] assms(1) Some y by (auto simp: csafe_def)
  with Some y assms show ?thesis by (auto simp: at_tok_nextstr_def)
qed

context at_channel
begin

lemma at_wp [wps]:
  assumes "alive (modem s)" "\<And>e r m. alive m \<Longrightarrow> at_promise c e r \<Longrightarrow> Q (e, r, s\<lparr>modem := m\<rparr>)"
  shows "wp b (at at_send c s) Q"
  using at_returns [OF assms(1), of c] assms(2) by (auto simp: at_def)

lemma at_cmd1_wp [wps]:
  assumes "alive (modem s)" "\<And>e m. alive m \<Longrightarrow> Q (e, s\<lparr>modem := m\<rparr>)"
  shows "wp b (at_cmd1 at_send c s) Q"
  using at_returns [OF assms(1), of "AtCommand c"] assms(2) by (auto simp: at_cmd1_def at_def)

lemma query_wp:
  assumes "alive (modem s)" "c = AtSingle k p True \<or> c = AtNumeric k \<or> c = AtSms k d p"
    "\<And>l. tame l \<Longrightarrow> parses b (f l) P"
    "\<And>r m. alive m \<Longrightarrow> (\<forall>x. r = Some x \<longrightarrow> P x) \<Longrightarrow> Q (r, s\<lparr>modem := m\<rparr>)"
  shows "wp b (query at_send c f s) Q"
proof -
  obtain e out m' where a: "at_send c (modem s) = Some (e, out, m')" "alive m'" "at_promise c e out"
    using at_returns [OF assms(1), of c] by blast
  show ?thesis
  proof (cases "e = AT_NOERROR")
    case True
    with a(3) assms(2) obtain l r where "out = Some r" "p_intermediates r = [l]" "tame l"
      by (auto simp: at_error_numbers split: option.splits list.splits)
    with assms(3) [of l] True a(1,2) assms(4) show ?thesis
      by (auto simp: query_def at_def parses_def wp_def split: option.splits)
  next
    case False
    with a assms(4) show ?thesis by (auto simp: query_def at_def)
  qed
qed

lemmas single_wp [wps] = query_wp [OF _ disjI1 [OF refl], where P = "\<lambda>_. True"]
lemmas numeric_wp [wps] = query_wp [OF _ disjI2 [OF disjI1 [OF refl]], where P = "\<lambda>_. True"]
lemmas sms_wp [wps] = query_wp [OF _ disjI2 [OF disjI2 [OF refl]], where P = "\<lambda>_. True"]

end

end
