(* ===== verification/Ril_State.thy ===== *)
theory Ril_State
  imports Ril_Base
begin

text \<open>
  The radio state and the state of the SIM, from \<open>huaweigeneric-ril.c\<close>: what the RIL concludes from
  the answer to \<open>AT+CPIN?\<close>, how it polls the SIM until it is ready, and what entering a radio state
  sets in motion.
\<close>

section \<open>The radio state\<close>

fun radioStateToString :: "RIL_RadioState \<Rightarrow> string" where
  "radioStateToString RADIO_STATE_OFF = ''RADIO_STATE_OFF''"
| "radioStateToString RADIO_STATE_UNAVAILABLE = ''RADIO_STATE_UNAVAILABLE''"
| "radioStateToString RADIO_STATE_SIM_NOT_READY = ''RADIO_STATE_SIM_NOT_READY''"
| "radioStateToString RADIO_STATE_SIM_LOCKED_OR_ABSENT = ''RADIO_STATE_SIM_LOCKED_OR_ABSENT''"
| "radioStateToString RADIO_STATE_SIM_READY = ''RADIO_STATE_SIM_READY''"
| "radioStateToString RADIO_STATE_RUIM_NOT_READY = ''RADIO_STATE_RUIM_NOT_READY''"
| "radioStateToString RADIO_STATE_RUIM_READY = ''RADIO_STATE_RUIM_READY''"
| "radioStateToString RADIO_STATE_RUIM_LOCKED_OR_ABSENT = ''RADIO_STATE_RUIM_READY''"
| "radioStateToString RADIO_STATE_NV_NOT_READY = ''RADIO_STATE_NV_NOT_READY''"
| "radioStateToString RADIO_STATE_NV_READY = ''RADIO_STATE_NV_READY''"
| "radioStateToString (RADIO_STATE_OTHER n) = ''RADIO_STATE_<> Unknown!''"

definition getRadioState :: "'m ril \<Rightarrow> RIL_RadioState" where
  "getRadioState s = sState s"

definition setRadioState :: "RIL_RadioState \<Rightarrow> 'm ril \<Rightarrow> 'm ril" where
  "setRadioState newState s =
    (let oldState = sState s; s1 = s\<lparr>sState := newState\<rparr> in
     if sState s1 \<noteq> oldState \<or> sState s1 = RADIO_STATE_SIM_LOCKED_OR_ABSENT then
       let s2 = RIL_onUnsolicitedResponse RIL_UNSOL_RESPONSE_RADIO_STATE_CHANGED PNone 0 s1 in
       if sState s2 = RADIO_STATE_SIM_READY then enqueue_event OnSIMReady None (enqueue_event CheckMessageStorageReady None s2)
       else if sState s2 = RADIO_STATE_SIM_NOT_READY then enqueue_event (PollSIMState 0) None s2
       else s2
     else s1)"

lemma setRadioState_fields [simp]:
  "modem (setRadioState r s) = modem s" "sState (setRadioState r s) = r" "answered (setRadioState r s) = answered s"
  "UiccType (setRadioState r s) = UiccType s" "env (setRadioState r s) = env s" "clock (setRadioState r s) = clock s"
  by (simp_all add: setRadioState_def Let_def)

lemma sim_polled_setRadioState [simp]: "r = RADIO_STATE_SIM_NOT_READY \<longrightarrow> sim_polled s \<Longrightarrow> sim_polled (setRadioState r s)"
  by (auto simp: setRadioState_def Let_def sim_polled_def)

definition isRadioOn :: "'m at_fun \<Rightarrow> 'm ril \<Rightarrow> (int \<times> 'm ril) option" where
  "isRadioOn send s = do {
     (r, s1) \<leftarrow> query send (at_single ''AT^RFSWITCH?'' ''^RFSWITCH:'')
       (\<lambda>line. pbind (tok_start line) (\<lambda>line. pbind (tok_bool line) (\<lambda>(ret1, line).
          pbind (tok_bool line) (\<lambda>(ret2, line). ret (ret1, ret2))))) s;
     Some (case r of
         Some (ret1, ret2) \<Rightarrow> if ret1 = 1 \<and> ret2 = 1 then 1 else 0
       | None \<Rightarrow> - 1, s1)
   }"

section \<open>The state of the SIM\<close>

datatype SIM_Status = SIM_ABSENT | SIM_NOT_READY | SIM_READY | SIM_PIN | SIM_PUK | SIM_NETWORK_PERSO | SIM_PIN2 | SIM_PUK2
  | SIM_NETWORK_SUBSET_PERSO | SIM_SERVICE_PROVIDER_PERSO | SIM_CORPORATE_PERSO | SIM_SIM_PERSO | SIM_STERICSSON_LOCK
  | SIM_BLOCKED | SIM_PERM_BLOCKED | SIM_NETWORK_PERSO_PUK | SIM_NETWORK_SUBSET_PERSO_PUK
  | SIM_SERVICE_PROVIDER_PERSO_PUK | SIM_CORPORATE_PERSO_PUK | SIM_SIM_PERSO_PUK | SIM_PUK2_PERM_BLOCKED

text \<open>The numbers of \<open>at_error.h\<close> that the handlers look at.\<close>

definition CME_SIM_NOT_INSERTED :: int where "CME_SIM_NOT_INSERTED = 10"
definition CME_SIM_PIN_REQUIRED :: int where "CME_SIM_PIN_REQUIRED = 11"
definition CME_SIM_PUK_REQUIRED :: int where "CME_SIM_PUK_REQUIRED = 12"
definition CME_PH_SIMLOCK_PIN_REQUIRED :: int where "CME_PH_SIMLOCK_PIN_REQUIRED = 200"
definition CME_INCORRECT_PASSWORD :: int where "CME_INCORRECT_PASSWORD = 16"
definition CME_SIM_PIN2_REQUIRED :: int where "CME_SIM_PIN2_REQUIRED = 17"
definition CME_SIM_PUK2_REQUIRED :: int where "CME_SIM_PUK2_REQUIRED = 18"
definition CME_NETWORK_PERSONALIZATION_PIN_REQUIRED :: int where "CME_NETWORK_PERSONALIZATION_PIN_REQUIRED = 40"
definition CME_NETWORK_PERSONALIZATION_PUK_REQUIRED :: int where "CME_NETWORK_PERSONALIZATION_PUK_REQUIRED = 41"
definition CME_NETWORK_SUBSET_PERSONALIZATION_PIN_REQUIRED :: int where "CME_NETWORK_SUBSET_PERSONALIZATION_PIN_REQUIRED = 42"
definition CME_NETWORK_SUBSET_PERSONALIZATION_PUK_REQUIRED :: int where "CME_NETWORK_SUBSET_PERSONALIZATION_PUK_REQUIRED = 43"
definition CME_SERVICE_PROVIDER_PERSONALIZATION_PIN_REQUIRED :: int where "CME_SERVICE_PROVIDER_PERSONALIZATION_PIN_REQUIRED = 44"
definition CME_SERVICE_PROVIDER_PERSONALIZATION_PUK_REQUIRED :: int where "CME_SERVICE_PROVIDER_PERSONALIZATION_PUK_REQUIRED = 45"
definition CME_CORPORATE_PERSONALIZATION_PIN_REQUIRED :: int where "CME_CORPORATE_PERSONALIZATION_PIN_REQUIRED = 46"
definition CME_CORPORATE_PERSONALIZATION_PUK_REQUIRED :: int where "CME_CORPORATE_PERSONALIZATION_PUK_REQUIRED = 47"
definition CME_ERROR_NON_CME :: int where "CME_ERROR_NON_CME = - 1"

lemmas cme_numbers = CME_SIM_NOT_INSERTED_def CME_SIM_PIN_REQUIRED_def CME_SIM_PUK_REQUIRED_def
  CME_PH_SIMLOCK_PIN_REQUIRED_def CME_INCORRECT_PASSWORD_def CME_SIM_PIN2_REQUIRED_def CME_SIM_PUK2_REQUIRED_def
  CME_NETWORK_PERSONALIZATION_PIN_REQUIRED_def CME_NETWORK_PERSONALIZATION_PUK_REQUIRED_def
  CME_NETWORK_SUBSET_PERSONALIZATION_PIN_REQUIRED_def CME_NETWORK_SUBSET_PERSONALIZATION_PUK_REQUIRED_def
  CME_SERVICE_PROVIDER_PERSONALIZATION_PIN_REQUIRED_def CME_SERVICE_PROVIDER_PERSONALIZATION_PUK_REQUIRED_def
  CME_CORPORATE_PERSONALIZATION_PIN_REQUIRED_def CME_CORPORATE_PERSONALIZATION_PUK_REQUIRED_def CME_ERROR_NON_CME_def

text \<open>The two switches of \<open>getSIMStatus\<close>: on the error of the command, and on the text it returned.\<close>

definition cme_status :: "int \<Rightarrow> SIM_Status" where
  "cme_status e =
    (if e = CME_SIM_NOT_INSERTED then SIM_ABSENT
     else if e = CME_SIM_PIN_REQUIRED then SIM_PIN
     else if e = CME_SIM_PUK_REQUIRED then SIM_PUK
     else if e = CME_SIM_PIN2_REQUIRED then SIM_PIN2
     else if e = CME_SIM_PUK2_REQUIRED then SIM_PUK2
     else if e = CME_NETWORK_PERSONALIZATION_PIN_REQUIRED then SIM_NETWORK_PERSO
     else if e = CME_NETWORK_PERSONALIZATION_PUK_REQUIRED then SIM_NETWORK_PERSO_PUK
     else if e = CME_NETWORK_SUBSET_PERSONALIZATION_PIN_REQUIRED then SIM_NETWORK_SUBSET_PERSO
     else if e = CME_NETWORK_SUBSET_PERSONALIZATION_PUK_REQUIRED then SIM_NETWORK_SUBSET_PERSO_PUK
     else if e = CME_SERVICE_PROVIDER_PERSONALIZATION_PIN_REQUIRED then SIM_SERVICE_PROVIDER_PERSO
     else if e = CME_SERVICE_PROVIDER_PERSONALIZATION_PUK_REQUIRED then SIM_SERVICE_PROVIDER_PERSO_PUK
     else if e = CME_PH_SIMLOCK_PIN_REQUIRED then SIM_SIM_PERSO
     else if e = CME_CORPORATE_PERSONALIZATION_PIN_REQUIRED then SIM_CORPORATE_PERSO
     else if e = CME_CORPORATE_PERSONALIZATION_PUK_REQUIRED then SIM_CORPORATE_PERSO_PUK
     else SIM_NOT_READY)"

definition cpin_status :: "string \<Rightarrow> SIM_Status" where
  "cpin_status cpinResult =
    (if cpinResult = ''READY'' then SIM_READY
     else if cpinResult = ''SIM PIN'' then SIM_PIN
     else if cpinResult = ''SIM PUK'' then SIM_PUK
     else if cpinResult = ''SIM PIN2'' then SIM_PIN2
     else if cpinResult = ''SIM PUK2'' then SIM_PUK2
     else if cpinResult = ''PH-NET PIN'' then SIM_NETWORK_PERSO
     else if cpinResult = ''PH-NETSUB PIN'' then SIM_NETWORK_SUBSET_PERSO
     else if cpinResult = ''PH-SP PIN'' then SIM_SERVICE_PROVIDER_PERSO
     else if cpinResult = ''PH-CORP PIN'' then SIM_CORPORATE_PERSO
     else if cpinResult = ''PH-SIMLOCK PIN'' then SIM_SIM_PERSO
     else if cpinResult = ''PH-ESL PIN'' then SIM_STERICSSON_LOCK
     else if cpinResult = ''BLOCKED'' then
       (let numRetries = (3 :: int) in if numRetries = - 1 \<or> numRetries = 0 then SIM_PERM_BLOCKED else SIM_PUK2_PERM_BLOCKED)
     else if cpinResult = ''PH-SIM PIN'' then SIM_BLOCKED
     else SIM_ABSENT)"

definition getSIMStatus :: "'m at_fun \<Rightarrow> 'm ril \<Rightarrow> (SIM_Status \<times> 'm ril) option" where
  "getSIMStatus send s =
    (if getRadioState s = RADIO_STATE_OFF \<or> getRadioState s = RADIO_STATE_UNAVAILABLE then Some (SIM_NOT_READY, s)
     else do {
       (err, atResponse, s1) \<leftarrow> at send (at_single ''AT+CPIN?'' ''+CPIN:'') s;
       if err \<noteq> AT_NOERROR then
         Some (if at_get_error_type err = AT_ERROR then SIM_NOT_READY else cme_status (at_get_cme_error err), s1)
       else do {
         l \<leftarrow> first_line atResponse;
         r \<leftarrow> pbind (tok_start l) (\<lambda>cpinLine. pbind (tok_str cpinLine) (\<lambda>(cpinResult, cpinLine). ret cpinResult));
         Some (case r of None \<Rightarrow> SIM_NOT_READY | Some cpinResult \<Rightarrow> cpin_status cpinResult, s1)
       }
     })"

definition TIMEVAL_SIMPOLL :: timespec where "TIMEVAL_SIMPOLL = Timespec 1 0"

definition pollSIMState :: "'m at_fun \<Rightarrow> int \<Rightarrow> 'm ril \<Rightarrow> 'm ril option" where
  "pollSIMState send p s =
    (if p \<noteq> 1 \<and> getRadioState s \<noteq> RADIO_STATE_SIM_NOT_READY \<and> getRadioState s \<noteq> RADIO_STATE_SIM_LOCKED_OR_ABSENT
     then Some s
     else do {
       (st, s1) \<leftarrow> getSIMStatus send s;
       Some (case st of
           SIM_NOT_READY \<Rightarrow> enqueue_event (PollSIMState 0) (Some TIMEVAL_SIMPOLL) s1
         | SIM_PIN2 \<Rightarrow> setRadioState RADIO_STATE_SIM_READY s1
         | SIM_PUK2 \<Rightarrow> setRadioState RADIO_STATE_SIM_READY s1
         | SIM_PUK2_PERM_BLOCKED \<Rightarrow> setRadioState RADIO_STATE_SIM_READY s1
         | SIM_READY \<Rightarrow> setRadioState RADIO_STATE_SIM_READY s1
         | _ \<Rightarrow> setRadioState RADIO_STATE_SIM_LOCKED_OR_ABSENT s1)
     })"

section \<open>When the SIM has become ready\<close>

text \<open>The result of \<open>setPreferredMessageStorage\<close> is 0 on success.\<close>

definition setPreferredMessageStorage :: "'m at_fun \<Rightarrow> 'm ril \<Rightarrow> (int \<times> 'm ril) option" where
  "setPreferredMessageStorage send s = do {
     (r, s1) \<leftarrow> query send (at_single (''AT+CPMS='' @ quoted ''SM'' @ '','' @ quoted ''SM'') ''+CPMS: '')
       (\<lambda>tok. pbind (tok_start tok) (\<lambda>tok. pbind (tok_int tok) (\<lambda>(used1, tok).
          pbind (tok_int tok) (\<lambda>(total1, tok). ret (used1, total1))))) s;
     Some (case r of
         Some (used1, total1) \<Rightarrow>
           (0, if used1 \<ge> total1 then RIL_onUnsolicitedResponse RIL_UNSOL_SIM_SMS_STORAGE_FULL PNone 0 s1 else s1)
       | None \<Rightarrow> (1, s1))
   }"

definition MESSAGE_STORAGE_READY_TIMER :: int where "MESSAGE_STORAGE_READY_TIMER = 3"

definition checkMessageStorageReady :: "'m at_fun \<Rightarrow> 'm ril \<Rightarrow> 'm ril option" where
  "checkMessageStorageReady send s = do {
     (err, _, s1) \<leftarrow> at send (AtSingle ''AT+CPMS?'' ''+CPMS: '' False) s;
     (done, s2) \<leftarrow> (if err = AT_NOERROR then do { (r, s2) \<leftarrow> setPreferredMessageStorage send s1; Some (r = 0, s2) }
                   else Some (False, s1));
     Some (if done then s2
           else enqueue_event CheckMessageStorageReady (Some (Timespec MESSAGE_STORAGE_READY_TIMER 0)) s2)
   }"

text \<open>A list of commands whose errors are only logged.\<close>

fun at_all :: "'m at_fun \<Rightarrow> string list \<Rightarrow> 'm ril \<Rightarrow> 'm ril option" where
  "at_all send [] s = Some s"
| "at_all send (c # cs) s = do { (err, s1) \<leftarrow> at_cmd1 send c s; at_all send cs s1 }"

definition onSIMReady :: "'m at_fun \<Rightarrow> 'm ril \<Rightarrow> 'm ril option" where
  "onSIMReady send s = do {
     s1 \<leftarrow> checkMessageStorageReady send s;
     s2 \<leftarrow> at_all send [''AT+CSMS=0'', ''AT+CNMI=1,2,2,1,1'', ''AT+CSCB=1'', ''AT+CTZU=1'', ''AT+CTZR=1''] s1;
     (err, s3) \<leftarrow> at_cmd1 send ''AT+CREG=2'' s2;
     s4 \<leftarrow> (if err \<noteq> AT_NOERROR then at_all send [''AT+CREG=1''] s3 else Some s3);
     s5 \<leftarrow> at_all send [''AT+CMGF=0'', ''AT^CURC=1'', ''AT+CGEREP=1,0''] s4;
     (_, _, s6) \<leftarrow> at send (AtSingle ''AT+CSMS=1'' ''+CSMS:'' False) s5;
     Some s6
   }"

section \<open>What the helpers leave alone\<close>

context at_channel
begin

lemma isRadioOn_wp [wps]:
  assumes "alive (modem s)" "\<And>n m. alive m \<Longrightarrow> Q (n, s\<lparr>modem := m\<rparr>)"
  shows "wp b (isRadioOn at_send s) Q"
  unfolding isRadioOn_def using assms by (auto intro!: wps)

lemma getSIMStatus_wp [wps]:
  assumes "alive (modem s)" "\<And>n m. alive m \<Longrightarrow> Q (n, s\<lparr>modem := m\<rparr>)"
  shows "wp b (getSIMStatus at_send s) Q"
proof (cases "getRadioState s = RADIO_STATE_OFF \<or> getRadioState s = RADIO_STATE_UNAVAILABLE")
  case True
  then show ?thesis using assms(2) [of "modem s" SIM_NOT_READY] assms(1) by (simp add: getSIMStatus_def)
next
  case False
  then show ?thesis unfolding getSIMStatus_def using assms
    by (auto intro!: wps parse_any simp: at_error_numbers)
qed

lemma pollSIMState_wp [wps]:
  assumes "alive (modem s)" "gsm_state (sState s)"
    "\<And>s'. alive (modem s') \<Longrightarrow> gsm_state (sState s') \<Longrightarrow> answered s' = answered s \<Longrightarrow> sim_polled s' \<Longrightarrow> Q s'"
  shows "wp b (pollSIMState at_send p s) Q"
  unfolding pollSIMState_def using assms
  by (auto intro!: wps simp: getRadioState_def sim_polled_def [of s] split: SIM_Status.split)

lemma setPreferredMessageStorage_wp [wps]:
  assumes "alive (modem s)"
    "\<And>n s'. alive (modem s') \<Longrightarrow> sState s' = sState s \<Longrightarrow> answered s' = answered s \<Longrightarrow> (sim_polled s \<Longrightarrow> sim_polled s') \<Longrightarrow> Q (n, s')"
  shows "wp b (setPreferredMessageStorage at_send s) Q"
  unfolding setPreferredMessageStorage_def using assms by (auto intro!: wps split: option.split)

lemma checkMessageStorageReady_wp [wps]:
  assumes "alive (modem s)"
    "\<And>s'. alive (modem s') \<Longrightarrow> sState s' = sState s \<Longrightarrow> answered s' = answered s \<Longrightarrow> (sim_polled s \<Longrightarrow> sim_polled s') \<Longrightarrow> Q s'"
  shows "wp b (checkMessageStorageReady at_send s) Q"
  unfolding checkMessageStorageReady_def using assms by (auto intro!: wps)

lemma at_all_wp [wps]:
  assumes "alive (modem s)" "\<And>m. alive m \<Longrightarrow> Q (s\<lparr>modem := m\<rparr>)"
  shows "wp b (at_all at_send cs s) Q"
  using assms
proof (induction cs arbitrary: s)
  case Nil
  then show ?case using Nil(2) [of "modem s"] by simp
next
  case (Cons c cs)
  then show ?case by (auto intro!: wps Cons.IH)
qed

lemma onSIMReady_wp [wps]:
  assumes "alive (modem s)"
    "\<And>s'. alive (modem s') \<Longrightarrow> sState s' = sState s \<Longrightarrow> answered s' = answered s \<Longrightarrow> (sim_polled s \<Longrightarrow> sim_polled s') \<Longrightarrow> Q s'"
  shows "wp b (onSIMReady at_send s) Q"
  unfolding onSIMReady_def using assms by (auto intro!: wps simp del: at_all.simps)

end

end
