(* ===== verification/Ril_Sms.thy ===== *)
theory Ril_Sms
  imports Ril_State
begin

text \<open>
  Short messages, from \<open>huaweigeneric-ril.c\<close>: received messages, of which the library is given one
  at a time until it has acknowledged it, sending, the messages on the SIM, the address of the
  service centre and cell broadcasts.
\<close>

section \<open>Received messages\<close>

definition OUTSTANDING_SMS :: int where "OUTSTANDING_SMS = 0"
definition OUTSTANDING_STATUS :: int where "OUTSTANDING_STATUS = 1"
definition OUTSTANDING_CB :: int where "OUTSTANDING_CB = 2"
definition BSM_LENGTH :: nat where "BSM_LENGTH = 88"

lemmas outstanding_numbers = OUTSTANDING_SMS_def OUTSTANDING_STATUS_def OUTSTANDING_CB_def

definition dequeue_held_pdu :: "'m ril \<Rightarrow> held_pdu option \<times> 'm ril" where
  "dequeue_held_pdu s =
    (case s_held_pdus s of [] \<Rightarrow> (None, s) | hpdu # rest \<Rightarrow> (Some hpdu, s\<lparr>s_held_pdus := rest\<rparr>))"

fun append_held :: "held_pdu list \<Rightarrow> held_pdu \<Rightarrow> held_pdu list" where
  "append_held [] h = [h]"
| "append_held [p] h = [p, h]"
| "append_held (p # q # ps) h = p # append_held (q # ps) h"

definition enqueue_held_pdu :: "int \<Rightarrow> string \<Rightarrow> 'm ril \<Rightarrow> 'm ril" where
  "enqueue_held_pdu ty sms_pdu s = s\<lparr>s_held_pdus := append_held (s_held_pdus s) (Held ty sms_pdu)\<rparr>"

lemma append_held_eq [simp]: "append_held ps h = ps @ [h]"
  by (induction ps h rule: append_held.induct) auto

interpretation held: fifo s_held_pdus "\<lambda>h s. enqueue_held_pdu (held_type h) (held_text h) s" dequeue_held_pdu
  by unfold_locales (simp_all add: enqueue_held_pdu_def dequeue_held_pdu_def)

definition onNewSms :: "string \<Rightarrow> 'm ril \<Rightarrow> 'm ril" where
  "onNewSms sms_pdu s =
    (if s_outstanding_acknowledge s then enqueue_held_pdu OUTSTANDING_SMS sms_pdu s
     else RIL_onUnsolicitedResponse RIL_UNSOL_RESPONSE_NEW_SMS (PString sms_pdu) (length sms_pdu)
       (s\<lparr>s_outstanding_acknowledge := True\<rparr>))"

definition onNewStatusReport :: "string \<Rightarrow> 'm ril \<Rightarrow> 'm ril" where
  "onNewStatusReport sms_pdu s =
    (let response = ''00'' @ sms_pdu in
     if s_outstanding_acknowledge s then enqueue_held_pdu OUTSTANDING_STATUS response s
     else RIL_onUnsolicitedResponse RIL_UNSOL_RESPONSE_NEW_SMS_STATUS_REPORT (PString response) (length response)
       (s\<lparr>s_outstanding_acknowledge := True\<rparr>))"

text \<open>\<open>strdup\<close> of the 88 bytes, which no zero ends: it takes those before the first zero, and reads
  behind the buffer when there is none.\<close>

definition strdup_bytes :: "bytes \<Rightarrow> string option" where
  "strdup_bytes b = (if 0 \<in> set b then Some (map (char_of \<circ> unat) (takeWhile (\<lambda>x. x \<noteq> 0) b)) else None)"

text \<open>The buffer \<open>message\<close> is uninitialised; \<open>stringToBinary\<close> writes all of it.\<close>

definition onNewBroadcastSms :: "string \<Rightarrow> 'm ril \<Rightarrow> 'm ril option" where
  "onNewBroadcastSms pdu s =
    (if length pdu \<noteq> 2 * BSM_LENGTH then Some s
     else do {
       (_, message) \<leftarrow> stringToBinary pdu (2 * BSM_LENGTH) (replicate BSM_LENGTH 0);
       if s_outstanding_acknowledge s then do {
         t \<leftarrow> strdup_bytes message;
         Some (enqueue_held_pdu OUTSTANDING_CB t s)
       }
       else Some (RIL_onUnsolicitedResponse RIL_UNSOL_RESPONSE_NEW_BROADCAST_SMS (PBytes message) BSM_LENGTH
         (s\<lparr>s_outstanding_acknowledge := True\<rparr>))
     })"

definition onNewSmsOnSIM :: "string \<Rightarrow> 'm ril \<Rightarrow> 'm ril option" where
  "onNewSmsOnSIM line s = do {
     r \<leftarrow> pbind (tok_start line) (\<lambda>tok. pbind (tok_str tok) (\<lambda>(mem, tok).
        if take 2 mem \<noteq> ''SM'' then fail
        else pbind (tok_int tok) (\<lambda>(index, tok). ret index)));
     Some (case r of
         Some index \<Rightarrow> RIL_onUnsolicitedResponse RIL_UNSOL_RESPONSE_NEW_SMS_ON_SIM (PInts [index]) sizeof_ptr s
       | None \<Rightarrow> s)
   }"

definition isSimSmsStorageFull :: "'m at_fun \<Rightarrow> 'm ril \<Rightarrow> 'm ril option" where
  "isSimSmsStorageFull send s = do {
     (r, s1) \<leftarrow> query send (at_single ''AT+CPMS?'' ''+CPMS: '')
       (\<lambda>line. pbind (tok_start line) (\<lambda>tok. pbind (tok_str tok) (\<lambda>(storage_area, tok).
          pbind (tok_int tok) (\<lambda>(used1, tok). pbind (tok_int tok) (\<lambda>(total1, tok). ret (used1, total1)))))) s;
     Some (case r of
         Some (used1, total1) \<Rightarrow>
           if used1 \<ge> total1 then RIL_onUnsolicitedResponse RIL_UNSOL_SIM_SMS_STORAGE_FULL PNone 0 s1 else s1
       | None \<Rightarrow> s1)
   }"

definition onNewSmsIndication :: "'m ril \<Rightarrow> 'm ril" where
  "onNewSmsIndication s = enqueue_event IsSimSmsStorageFull None s"

text \<open>The end of \<open>requestSMSAcknowledge\<close>: give the library the next message, if one is held.\<close>

definition next_held :: "'m ril \<Rightarrow> 'm ril" where
  "next_held s =
    (case dequeue_held_pdu s of
       (Some hpdu, s1) \<Rightarrow>
         RIL_onUnsolicitedResponse
           (if held_type hpdu = OUTSTANDING_SMS then RIL_UNSOL_RESPONSE_NEW_SMS
            else if held_type hpdu = OUTSTANDING_CB then RIL_UNSOL_RESPONSE_NEW_BROADCAST_SMS
            else RIL_UNSOL_RESPONSE_NEW_SMS_STATUS_REPORT)
           (PString (held_text hpdu)) (length (held_text hpdu)) s1
     | (None, s1) \<Rightarrow> s1\<lparr>s_outstanding_acknowledge := False\<rparr>)"

definition requestSMSAcknowledge :: "'m at_fun \<Rightarrow> ril_data \<Rightarrow> nat \<Rightarrow> 'm ril \<Rightarrow> 'm ril option" where
  "requestSMSAcknowledge send dat t s = do {
     ackSuccess \<leftarrow> data_int dat 0;
     if ackSuccess = 1 \<or> ackSuccess = 0 then do {
       (err, s1) \<leftarrow> at_cmd1 send (if ackSuccess = 1 then ''AT+CNMA=1'' else ''AT+CNMA=2'') s;
       Some (next_held (RIL_onRequestComplete t RIL_E_SUCCESS PNone 0 s1))
     }
     else Some (RIL_onRequestComplete t RIL_E_GENERIC_FAILURE PNone 0 s)
   }"

section \<open>Sending\<close>

definition CMS_NO_NETWORK_SERVICE :: int where "CMS_NO_NETWORK_SERVICE = 331"
definition CMS_NETWORK_TIMEOUT :: int where "CMS_NETWORK_TIMEOUT = 332"

definition SMSC_SIZE :: nat where "SMSC_SIZE = 30"

text \<open>\<open>sprintf\<close>, \<open>strcpy\<close> into a buffer, and its contents as a string.\<close>

definition str_into :: "string \<Rightarrow> string \<Rightarrow> string option" where
  "str_into buf t = (if length t < length buf then Some (t @ [CHR 0x00] @ drop (length t + 1) buf) else None)"

definition cstr :: "string \<Rightarrow> string" where
  "cstr buf = takeWhile (\<lambda>c. c \<noteq> CHR 0x00) buf"

text \<open>The loop that swaps the digits, from \<open>curChar\<close> on and into \<open>smsc + p\<close>: what is left of the
  number, the place and the buffer.\<close>

fun smsc_pairs :: "string \<Rightarrow> nat \<Rightarrow> string \<Rightarrow> (string \<times> nat \<times> string) option" where
  "smsc_pairs (c # d # ds) p smsc = do {
     smsc1 \<leftarrow> wr smsc (p + 1) c;
     smsc2 \<leftarrow> wr smsc1 p d;
     smsc_pairs ds (p + 2) smsc2 }"
| "smsc_pairs ds p smsc = Some (ds, p, smsc)"

text \<open>Behind the loop: a last single digit is filled up, and the string is terminated. The digit is
  read from the text itself, not from behind its plus sign.\<close>

definition smsc_end :: "string \<Rightarrow> nat \<Rightarrow> nat \<Rightarrow> string \<Rightarrow> string option" where
  "smsc_end temp n curChar smsc =
    (if odd n then do {
       d \<leftarrow> rd (temp @ [CHR 0x00]) curChar;
       smsc1 \<leftarrow> wr smsc (4 + n) d;
       smsc2 \<leftarrow> wr smsc1 (3 + n) (CHR ''F'');
       smsc3 \<leftarrow> wr smsc2 (5 + n) (CHR 0x00);
       Some (cstr smsc3) }
     else do { smsc1 \<leftarrow> wr smsc (4 + n) (CHR 0x00); Some (cstr smsc1) })"

text \<open>\<open>curChar\<close> and the offset \<open>i\<close> of the place grow together.\<close>

definition smsc_text :: "string \<Rightarrow> int \<Rightarrow> string option" where
  "smsc_text temp tosca =
    (let plus1 = (if take 1 temp = ''+'' then 1 else 0);
         n = length temp - plus1 in do {
       smsc \<leftarrow> str_into (replicate SMSC_SIZE (CHR 0x00)) (fmt_x 2 (int ((n + 1) div 2 + 1)) @ fmt_x 2 tosca);
       (left, p, smsc1) \<leftarrow> smsc_pairs (drop plus1 temp) 4 smsc;
       smsc_end temp n (p - 4) smsc1
     })"

definition send_sms_error :: "int \<Rightarrow> nat \<Rightarrow> 'm ril \<Rightarrow> 'm ril" where
  "send_sms_error aterr t s = RIL_onRequestComplete t
     (if at_get_cms_error aterr = CMS_NO_NETWORK_SERVICE \<or> at_get_cms_error aterr = CMS_NETWORK_TIMEOUT
      then RIL_E_SMS_SEND_FAIL_RETRY else RIL_E_GENERIC_FAILURE) PNone 0 s"

definition service_centre :: "'m at_fun \<Rightarrow> string option \<Rightarrow> 'm ril \<Rightarrow> (string option \<times> 'm ril) option" where
  "service_centre send testSmsc s =
    (case testSmsc of
       Some c \<Rightarrow> do { smsc \<leftarrow> str_into (replicate SMSC_SIZE (CHR 0x00)) c; Some (Some (cstr smsc), s) }
     | None \<Rightarrow> do {
         (r, s1) \<leftarrow> query send (at_single ''AT+CSCA?'' ''+CSCA:'')
           (\<lambda>line. pbind (tok_start line) (\<lambda>line. pbind (tok_str line) (\<lambda>(temp, line).
              pbind (tok_int line) (\<lambda>(tosca, line). ret (temp, tosca))))) s;
         case r of
           None \<Rightarrow> Some (None, s1)
         | Some (temp, tosca) \<Rightarrow> do { smsc \<leftarrow> smsc_text temp tosca; Some (Some smsc, s1) }
       })"

definition requestSendSMS :: "'m at_fun \<Rightarrow> ril_data \<Rightarrow> nat \<Rightarrow> 'm ril \<Rightarrow> 'm ril option" where
  "requestSendSMS send dat t s = do {
     testSmsc \<leftarrow> data_str dat 0;
     pdu0 \<leftarrow> data_str dat 1;
     pdu \<leftarrow> not_null pdu0;
     let tpLayerLength = length pdu div 2;
     (smsc, s1) \<leftarrow> service_centre send testSmsc s;
     case smsc of
       None \<Rightarrow> Some (send_sms_error 0 t s1)
     | Some smsc \<Rightarrow> do {
         (aterr, atResponse, s2) \<leftarrow> at send (AtSms (''AT+CMGS='' @ dec_int (int tpLayerLength)) (smsc @ pdu) ''+CMGS:'') s1;
         if aterr \<noteq> AT_NOERROR then Some (send_sms_error aterr t s2)
         else do {
           line \<leftarrow> first_line atResponse;
           r \<leftarrow> pbind (tok_start line) (\<lambda>line. pbind (tok_int line) (\<lambda>(messageRef, line). ret messageRef));
           Some (case r of
               None \<Rightarrow> send_sms_error aterr t s2
             | Some messageRef \<Rightarrow> RIL_onRequestComplete t RIL_E_SUCCESS (PInts [messageRef, 0, - 1]) 12 s2)
         }
       }
   }"

definition requestSendSMSExpectMore :: "'m at_fun \<Rightarrow> ril_data \<Rightarrow> nat \<Rightarrow> 'm ril \<Rightarrow> 'm ril option" where
  "requestSendSMSExpectMore send dat t s = do {
     (_, s1) \<leftarrow> at_cmd1 send ''AT+CMMS=1'' s;
     requestSendSMS send dat t s1
   }"

section \<open>The messages on the SIM, and the service centre\<close>

definition requestWriteSmsToSim :: "'m at_fun \<Rightarrow> ril_data \<Rightarrow> nat \<Rightarrow> 'm ril \<Rightarrow> 'm ril option" where
  "requestWriteSmsToSim send dat t s =
    (case dat of
       DWriteSms status pdu smsc \<Rightarrow> do {
         let n = length pdu div 2;
         (r, s1) \<leftarrow> query send (AtSms (''AT+CMGW='' @ dec_int (int n) @ '','' @ dec_int status)
             ((case smsc of Some c \<Rightarrow> c | None \<Rightarrow> ''00'') @ pdu) ''+CMGW:'')
           (\<lambda>line. pbind (tok_start line) (\<lambda>line. pbind (tok_int line) (\<lambda>(index, line). ret index))) s;
         Some (case r of
             Some index \<Rightarrow> RIL_onRequestComplete t RIL_E_SUCCESS (PInts [index]) sizeof_ptr s1
           | None \<Rightarrow> RIL_onRequestComplete t RIL_E_GENERIC_FAILURE PNone 0 s1)
       }
     | _ \<Rightarrow> None)"

text \<open>What many handlers end with.\<close>

definition complete_ok :: "int \<Rightarrow> nat \<Rightarrow> 'm ril \<Rightarrow> 'm ril" where
  "complete_ok err t s =
    (if err \<noteq> AT_NOERROR then RIL_onRequestComplete t RIL_E_GENERIC_FAILURE PNone 0 s
     else RIL_onRequestComplete t RIL_E_SUCCESS PNone 0 s)"

definition requestDeleteSmsOnSim :: "'m at_fun \<Rightarrow> ril_data \<Rightarrow> nat \<Rightarrow> 'm ril \<Rightarrow> 'm ril option" where
  "requestDeleteSmsOnSim send dat t s = do {
     index \<leftarrow> data_int dat 0;
     (err, s1) \<leftarrow> at_cmd1 send (''AT+CMGD='' @ dec_int index) s;
     Some (complete_ok err t s1)
   }"

definition requestGetSMSCAddress :: "'m at_fun \<Rightarrow> nat \<Rightarrow> 'm ril \<Rightarrow> 'm ril option" where
  "requestGetSMSCAddress send t s = do {
     (r, s1) \<leftarrow> query send (at_single ''AT+CSCA?'' ''+CSCA:'')
       (\<lambda>line. pbind (tok_start line) (\<lambda>line. pbind (tok_str line) (\<lambda>(resp, line). ret resp))) s;
     Some (case r of
         Some resp \<Rightarrow> RIL_onRequestComplete t RIL_E_SUCCESS (PString resp) sizeof_ptr s1
       | None \<Rightarrow> RIL_onRequestComplete t RIL_E_GENERIC_FAILURE PNone 0 s1)
   }"

text \<open>\<open>(const char *) data\<close>, which may be null.\<close>

fun data_cstr :: "ril_data \<Rightarrow> string option option" where
  "data_cstr (DString s) = Some (Some s)"
| "data_cstr DNull = Some None"
| "data_cstr _ = None"

definition requestSetSMSCAddress :: "'m at_fun \<Rightarrow> ril_data \<Rightarrow> nat \<Rightarrow> 'm ril \<Rightarrow> 'm ril option" where
  "requestSetSMSCAddress send dat t s = do {
     smsc \<leftarrow> data_cstr dat;
     (err, s1) \<leftarrow> at_cmd1 send (''AT+CSCA='' @ quoted (fmt_s smsc)) s;
     Some (complete_ok err t s1)
   }"

definition requestSmsStorageFull :: "ril_data \<Rightarrow> nat \<Rightarrow> 'm ril \<Rightarrow> 'm ril option" where
  "requestSmsStorageFull dat t s = do {
     ack \<leftarrow> data_int dat 0;
     Some (if ack = 0 \<or> ack = 1 then RIL_onRequestComplete t RIL_E_SUCCESS PNone 0 s
           else RIL_onRequestComplete t RIL_E_GENERIC_FAILURE PNone 0 s)
   }"

section \<open>Cell broadcasts\<close>

definition BROADCAST_MAX_RANGES_SUPPORTED :: nat where "BROADCAST_MAX_RANGES_SUPPORTED = 10"

definition commas_for_dashes :: "string \<Rightarrow> string" where
  "commas_for_dashes = map (\<lambda>c. if c = CHR ''-'' then CHR '','' else c)"

text \<open>The loop over the ranges; \<open>n\<close> is the number of entries still free.\<close>

fun broadcast_ranges :: "nat \<Rightarrow> cursor \<Rightarrow> RIL_GSM_BroadcastSmsConfigInfo list parse" where
  "broadcast_ranges n mids = do {
     (err, range, mids1) \<leftarrow> at_tok_nextstr mids None;
     if err \<noteq> 0 then ret []
     else case n of
       0 \<Rightarrow> ret []
     | Suc n' \<Rightarrow>
         pbind (tok_int (map_option commas_for_dashes range)) (\<lambda>(from_id, range1). do {
           (err, to_id, _) \<leftarrow> at_tok_nextint range1 (Some 0);
           t \<leftarrow> to_id;
           pbind (broadcast_ranges n' mids1) (\<lambda>infos.
             ret (\<lparr>fromServiceId = from_id, toServiceId = if err < 0 then from_id else t, selected = 1\<rparr> # infos)) })
   }"

declare broadcast_ranges.simps [simp del]

definition requestGSMGetBroadcastSMSConfig :: "'m at_fun \<Rightarrow> nat \<Rightarrow> 'm ril \<Rightarrow> 'm ril option" where
  "requestGSMGetBroadcastSMSConfig send t s = do {
     (r, s1) \<leftarrow> query send (at_single ''AT+CSCB?'' ''+CSCB:'')
       (\<lambda>line. pbind (tok_start line) (\<lambda>tok. pbind (tok_int tok) (\<lambda>(mode, tok). pbind (tok_str tok) (\<lambda>(mids, tok).
          broadcast_ranges BROADCAST_MAX_RANGES_SUPPORTED (Some mids))))) s;
     Some (case r of
         Some infos \<Rightarrow> RIL_onRequestComplete t RIL_E_SUCCESS (PBroadcast infos) (sizeof_ptr * length infos) s1
       | None \<Rightarrow> RIL_onRequestComplete t RIL_E_GENERIC_FAILURE PNone 0 s1)
   }"

text \<open>The loop that builds the list of ranges; \<open>None\<close> is the null \<open>mids\<close>.\<close>

fun broadcast_mids :: "RIL_GSM_BroadcastSmsConfigInfo list \<Rightarrow> string option \<Rightarrow> string option" where
  "broadcast_mids [] mids = mids"
| "broadcast_mids (c # cs) mids =
    broadcast_mids cs
      (if selected c \<noteq> 0 then
         Some ((case mids of Some m \<Rightarrow> m | None \<Rightarrow> []) @ dec_int (fromServiceId c) @ ''-'' @ dec_int (toServiceId c) @
           (if cs = [] then [] else '',''))
       else mids)"

definition requestGSMSetBroadcastSMSConfig :: "'m at_fun \<Rightarrow> ril_data \<Rightarrow> nat \<Rightarrow> nat \<Rightarrow> 'm ril \<Rightarrow> 'm ril option" where
  "requestGSMSetBroadcastSMSConfig send dat len t s =
    (case dat of
       DBroadcast infos \<Rightarrow>
         if length infos < len div sizeof_ptr then None
         else (case broadcast_mids (take (len div sizeof_ptr) infos) None of
             None \<Rightarrow> Some (RIL_onRequestComplete t RIL_E_GENERIC_FAILURE PNone 0 s)
           | Some mids \<Rightarrow> do {
               (err, s1) \<leftarrow> at_cmd1 send (''AT+CSCB=0,'' @ quoted mids) s;
               Some (complete_ok err t s1) })
     | _ \<Rightarrow> None)"

definition requestGSMSMSBroadcastActivation :: "'m at_fun \<Rightarrow> ril_data \<Rightarrow> nat \<Rightarrow> 'm ril \<Rightarrow> 'm ril option" where
  "requestGSMSMSBroadcastActivation send dat t s = do {
     (r, s1) \<leftarrow> query send (at_single ''AT+CNMI?'' ''+CNMI:'')
       (\<lambda>line. pbind (tok_start line) (\<lambda>tok. pbind (tok_int tok) (\<lambda>(mode, tok). pbind (tok_int tok) (\<lambda>(mt, tok).
          pbind (tok_int tok) (\<lambda>(skip, tok). pbind (tok_int tok) (\<lambda>(ds, tok). pbind (tok_int tok) (\<lambda>(bfr, tok).
          ret (mode, mt, ds, bfr)))))))) s;
     case r of
       None \<Rightarrow> Some (RIL_onRequestComplete t RIL_E_GENERIC_FAILURE PNone 0 s1)
     | Some (mode, mt, ds, bfr) \<Rightarrow> do {
         activation \<leftarrow> data_int dat 0;
         let bm = (if activation = 0 then 2 else 0);
         (err, s2) \<leftarrow> at_cmd1 send (''AT+CNMI='' @ dec_int mode @ '','' @ dec_int mt @ '','' @ dec_int bm @ '','' @
           dec_int ds @ '','' @ dec_int bfr) s1;
         Some (complete_ok err t s2)
       }
   }"

section \<open>What the handlers leave alone\<close>

lemma stringToBinary_loop_total:
  "it + 2 * n \<le> length s \<Longrightarrow> pos + n \<le> length buf \<Longrightarrow> \<exists>out. stringToBinary_loop n s it pos buf = Some out"
proof (induction n arbitrary: it pos buf)
  case (Suc n)
  show ?case using Suc.prems Suc.IH [of "it + 2" "pos + 1" "buf[pos := _]"]
    by (simp add: mem_simps)
qed simp

lemmas sms_values =
  wp_value [where m = "stringToBinary x n out" for x n out] wp_value [where m = "strdup_bytes x" for x]
  wp_value [where m = "str_into x y" for x y] wp_value [where m = "smsc_text x n" for x n]
  wp_value [where m = "data_cstr x" for x]

lemma onNewSms_kept: "alive (modem s) \<Longrightarrow> gsm_state (sState s) \<Longrightarrow> kept alive s (onNewSms sms_pdu s)"
  by (simp add: onNewSms_def enqueue_held_pdu_def kept_def)

lemma onNewStatusReport_kept:
  "alive (modem s) \<Longrightarrow> gsm_state (sState s) \<Longrightarrow> kept alive s (onNewStatusReport sms_pdu s)"
  by (simp add: onNewStatusReport_def enqueue_held_pdu_def kept_def Let_def)

lemma onNewBroadcastSms_kept:
  assumes "alive (modem s)" "gsm_state (sState s)"
  shows "wp True (onNewBroadcastSms pdu s) (kept alive s)"
  unfolding onNewBroadcastSms_def using assms
  by (auto intro!: wps sms_values simp: enqueue_held_pdu_def kept_def)

lemma onNewSmsOnSIM_kept:
  assumes "alive (modem s)" "gsm_state (sState s)" "b \<or> tame line"
  shows "wp b (onNewSmsOnSIM line s) (kept alive s)"
  unfolding onNewSmsOnSIM_def using assms
  by (auto intro!: wps parse_any simp: kept_def)

text \<open>A message that comes with a service centre which fits the buffer, so that the modem is not asked for one.\<close>

definition sms_fits :: "ril_data \<Rightarrow> bool" where
  "sms_fits dat \<longleftrightarrow> (\<exists>c p. data_str dat 0 = Some (Some c) \<and> length c < SMSC_SIZE \<and> data_str dat 1 = Some (Some p))"

lemma next_held_fields [simp]:
  "modem (next_held s) = modem s" "sState (next_held s) = sState s" "answered (next_held s) = answered s"
  "sim_polled (next_held s) = sim_polled s"
  by (simp_all add: next_held_def dequeue_held_pdu_def split: list.split)

context at_channel
begin

lemma isSimSmsStorageFull_kept:
  assumes "alive (modem s)" "gsm_state (sState s)"
  shows "wp b (isSimSmsStorageFull at_send s) (kept alive s)"
  unfolding isSimSmsStorageFull_def using assms by (auto intro!: wps simp: kept_def split: option.split)

lemma requestSMSAcknowledge_served:
  assumes "alive (modem s)" "gsm_state (sState s)" "b \<or> data_int dat 0 \<noteq> None"
  shows "wp b (requestSMSAcknowledge at_send dat t s) (served alive t s)"
  unfolding requestSMSAcknowledge_def using assms by (auto intro!: wps simp: served_def)

lemma requestSendSMS_wp:
  assumes "alive (modem s)" "gsm_state (sState s)" "\<And>s'. served alive t s s' \<Longrightarrow> Q s'" "b \<or> sms_fits dat"
  shows "wp b (requestSendSMS at_send dat t s) Q"
proof (cases b)
  case True
  then show ?thesis
    unfolding requestSendSMS_def service_centre_def send_sms_error_def using assms(1-3)
    by (auto intro!: wps sms_values parse_any simp: served_def at_error_numbers split: option.split)
next
  case False
  with assms(4) obtain c p where d: "data_str dat 0 = Some (Some c)" "length c < SMSC_SIZE" "data_str dat 1 = Some (Some p)"
    by (auto simp: sms_fits_def)
  then obtain smsc where "service_centre at_send (Some c) s = Some (Some smsc, s)"
    by (simp add: service_centre_def str_into_def)
  with d show ?thesis
    unfolding requestSendSMS_def send_sms_error_def using assms(1-3)
    by (auto intro!: wps sms_values parse_any simp: served_def at_error_numbers split: option.split)
qed

lemma requestSendSMSExpectMore_wp:
  assumes "alive (modem s)" "gsm_state (sState s)" "b \<or> sms_fits dat"
  shows "wp b (requestSendSMSExpectMore at_send dat t s) (served alive t s)"
  unfolding requestSendSMSExpectMore_def using assms
  by (auto intro!: wps requestSendSMS_wp simp: served_def)

lemma requestWriteSmsToSim_served:
  assumes "alive (modem s)" "gsm_state (sState s)" "b \<or> (\<exists>st pdu smsc. dat = DWriteSms st pdu smsc)"
  shows "wp b (requestWriteSmsToSim at_send dat t s) (served alive t s)"
  unfolding requestWriteSmsToSim_def using assms
  by (auto intro!: wps simp: served_def Let_def split: option.split ril_data.split)

lemma requestDeleteSmsOnSim_served:
  assumes "alive (modem s)" "gsm_state (sState s)" "b \<or> data_int dat 0 \<noteq> None"
  shows "wp b (requestDeleteSmsOnSim at_send dat t s) (served alive t s)"
  unfolding requestDeleteSmsOnSim_def complete_ok_def using assms by (auto intro!: wps simp: served_def)

lemma requestGetSMSCAddress_served:
  assumes "alive (modem s)" "gsm_state (sState s)"
  shows "wp b (requestGetSMSCAddress at_send t s) (served alive t s)"
  unfolding requestGetSMSCAddress_def using assms by (auto intro!: wps simp: served_def split: option.split)

lemma requestSetSMSCAddress_served:
  assumes "alive (modem s)" "gsm_state (sState s)" "b \<or> data_cstr dat \<noteq> None"
  shows "wp b (requestSetSMSCAddress at_send dat t s) (served alive t s)"
  unfolding requestSetSMSCAddress_def complete_ok_def using assms by (auto intro!: wps sms_values simp: served_def)

lemma requestSmsStorageFull_served:
  assumes "alive (modem s)" "gsm_state (sState s)" "b \<or> data_int dat 0 \<noteq> None"
  shows "wp b (requestSmsStorageFull dat t s) (served alive t s)"
  unfolding requestSmsStorageFull_def using assms by (auto intro!: wps simp: served_def)

lemma requestGSMGetBroadcastSMSConfig_served:
  assumes "alive (modem s)" "gsm_state (sState s)"
  shows "wp True (requestGSMGetBroadcastSMSConfig at_send t s) (served alive t s)"
proof -
  have p: "parses True m (\<lambda>_. True)" for m :: "'x parse"
    by (cases m) (auto simp: parses_def split: option.split)
  show ?thesis unfolding requestGSMGetBroadcastSMSConfig_def using assms
    by (auto intro!: wps p simp: served_def split: option.split)
qed

lemma requestGSMSetBroadcastSMSConfig_served:
  assumes "alive (modem s)" "gsm_state (sState s)" "b \<or> (\<exists>infos. dat = DBroadcast infos \<and> len div sizeof_ptr \<le> length infos)"
  shows "wp b (requestGSMSetBroadcastSMSConfig at_send dat len t s) (served alive t s)"
  unfolding requestGSMSetBroadcastSMSConfig_def complete_ok_def using assms
  by (auto intro!: wps simp: served_def split: ril_data.split)

lemma requestGSMSMSBroadcastActivation_served:
  assumes "alive (modem s)" "gsm_state (sState s)" "b \<or> data_int dat 0 \<noteq> None"
  shows "wp b (requestGSMSMSBroadcastActivation at_send dat t s) (served alive t s)"
  unfolding requestGSMSMSBroadcastActivation_def complete_ok_def using assms
  by (auto intro!: wps simp: served_def Let_def)

end

section \<open>The address of the service centre\<close>

text \<open>Semi-octets: the digits of each pair swapped, a last single one filled up with an F.\<close>

fun semi_octets :: "string \<Rightarrow> string" where
  "semi_octets (c # d # ds) = d # c # semi_octets ds"
| "semi_octets [c] = [CHR ''F'', c]"
| "semi_octets [] = []"

fun swap_pairs :: "string \<Rightarrow> string" where
  "swap_pairs (c # d # ds) = d # c # swap_pairs ds"
| "swap_pairs _ = []"

lemma semi_octets_pairs:
  "semi_octets ds = swap_pairs ds @ (if odd (length ds) then [CHR ''F'', last ds] else [])"
  by (induction ds rule: semi_octets.induct) auto

lemma swap_pairs_length: "length (swap_pairs ds) = 2 * (length ds div 2)"
  by (induction ds rule: swap_pairs.induct) auto

lemma swap_pairs_set: "set (swap_pairs ds) \<subseteq> set ds"
  by (induction ds rule: swap_pairs.induct) auto

lemma smsc_pairs_fit:
  "p + 2 * (length ds div 2) \<le> length buf \<Longrightarrow> smsc_pairs ds p buf =
   Some (if odd (length ds) then [last ds] else [], p + 2 * (length ds div 2),
     take p buf @ swap_pairs ds @ drop (p + 2 * (length ds div 2)) buf)"
proof (induction ds p buf rule: smsc_pairs.induct)
  case (1 c d ds p buf)
  then have l: "p + 1 < length buf" "p < length buf" by simp_all
  let ?b = "buf[p + 1 := c, p := d]"
  have t: "take (p + 2) ?b = take p buf @ [d, c]" using l
    by (intro nth_equalityI) (auto simp: nth_append nth_Cons nth_list_update less_Suc_eq split: nat.splits)
  have dr: "drop (p + 2 + 2 * (length ds div 2)) ?b = drop (p + 2 + 2 * (length ds div 2)) buf"
    by (intro nth_equalityI) (auto simp: nth_list_update)
  have "smsc_pairs (c # d # ds) p buf = smsc_pairs ds (p + 2) ?b" using l by (simp add: wr_Some)
  also have "\<dots> = Some (if odd (length ds) then [last ds] else [], p + 2 + 2 * (length ds div 2),
     take (p + 2) ?b @ swap_pairs ds @ drop (p + 2 + 2 * (length ds div 2)) ?b)"
    by (rule "1.IH") (use 1(2) l in \<open>auto simp: wr_Some\<close>)
  finally show ?case unfolding t dr by (auto simp: odd_pos)
qed auto

lemma smsc_pairs_overrun:
  "p \<le> length buf \<Longrightarrow> length buf < p + 2 * (length ds div 2) \<Longrightarrow> smsc_pairs ds p buf = None"
proof (induction ds p buf rule: smsc_pairs.induct)
  case (1 c d ds p buf)
  show ?case
  proof (cases "p + 1 < length buf")
    case True
    then have "smsc_pairs ds (p + 2) (buf[p + 1 := c, p := d]) = None"
      using 1(2,3) by (intro "1.IH") (auto simp: wr_Some)
    with True show ?thesis by (simp add: wr_Some)
  next
    case False
    then have "wr buf (p + 1) c = None" by (simp add: wr_def)
    then show ?thesis by simp
  qed
qed auto

lemma hex_digit_not_NUL: "d < 16 \<Longrightarrow> hex_digit d \<noteq> CHR 0x00"
  by (auto simp: hex_digit_def less_Suc_eq numeral_eq_Suc)

lemma hex_nat_small: "n < 256 \<Longrightarrow> hex_nat n = (if n < 16 then [hex_digit n] else [hex_digit (n div 16), hex_digit (n mod 16)])"
  using div_less_dividend [of 16 n] by (subst hex_nat.simps) (auto simp: hex_nat.simps [of "n div 16"])

lemma fmt_x_byte:
  assumes "0 \<le> z" "z < 256"
  shows "length (fmt_x 2 z) = 2 \<and> CHR 0x00 \<notin> set (fmt_x 2 z)"
proof -
  have u: "nat (uint32 z) < 256" using assms by (simp add: uint32_def)
  have "nat (uint32 z) mod 16 < 16" "nat (uint32 z) div 16 < 16" using u by simp_all
  then show ?thesis using u hex_digit_not_NUL [of "nat (uint32 z) mod 16"] hex_digit_not_NUL [of "nat (uint32 z) div 16"]
      hex_digit_not_NUL [of "nat (uint32 z)"]
    by (auto simp: fmt_x_def Let_def hex_nat_small)
qed

lemma cstr_append: "CHR 0x00 \<notin> set x \<Longrightarrow> cstr (x @ CHR 0x00 # y) = x"
  unfolding cstr_def by (induction x) auto



lemma update_at: "length x = k \<Longrightarrow> (x @ c # y)[k := d] = x @ d # y"
  by (simp add: list_update_append)

lemma swap_pairs_last: "odd (length ds) \<Longrightarrow> semi_octets (butlast ds @ [d]) = swap_pairs ds @ [CHR ''F'', d]"
  by (induction ds rule: swap_pairs.induct) (auto split: if_splits elim: oddE)

lemma smsc_end_even:
  assumes "length x = 4 + n" "CHR 0x00 \<notin> set x" "even n"
  shows "smsc_end temp n i (x @ y) = (if y = [] then None else Some x)"
  using assms by (cases y) (simp_all add: smsc_end_def wr_def update_at cstr_append)

lemma smsc_end_odd:
  assumes "length x = 3 + n" "CHR 0x00 \<notin> set (x @ [d])" "odd n" "rd (temp @ [CHR 0x00]) i = Some d"
  shows "smsc_end temp n i (x @ y) = (if length y < 3 then None else Some (x @ [CHR ''F'', d]))"
proof (cases "length y < 3")
  case True
  then show ?thesis using assms by (auto simp: smsc_end_def wr_def)
next
  case False
  then obtain a b c y' where y: "y = a # b # c # y'" by (metis length_Cons list.exhaust list.size(3) not_less_eq numeral_3_eq_3 zero_less_Suc)
  have "(x @ y)[4 + n := d, 3 + n := CHR ''F'', 5 + n := CHR 0x00] = (x @ [CHR ''F'', d]) @ CHR 0x00 # y'"
    using assms(1) by (simp add: y list_update_append)
  then show ?thesis using assms cstr_append [of "x @ [CHR ''F'', d]" y'] by (simp add: smsc_end_def wr_def y)
qed

lemma smsc_from_buffer:
  assumes "length h = 4" "length buf = 30" "take 4 buf = h" "CHR 0x00 \<notin> set (h @ number)"
    "d \<noteq> CHR 0x00" "odd (length number) \<Longrightarrow> rd (temp @ [CHR 0x00]) (length number - 1) = Some d"
  shows "do { (left, p, smsc1) \<leftarrow> smsc_pairs number 4 buf; smsc_end temp (length number) (p - 4) smsc1 } =
    (if length number \<le> 24 then Some (h @ semi_octets (if odd (length number) then butlast number @ [d] else number)) else None)"
proof (cases "4 + 2 * (length number div 2) \<le> 30")
  case False
  with smsc_pairs_overrun [of 4 buf number] assms(2) show ?thesis by auto
next
  case True
  let ?k = "2 * (length number div 2)" and ?x = "h @ swap_pairs number"
  have ps: "smsc_pairs number 4 buf = Some (if odd (length number) then [last number] else [], 4 + ?k, ?x @ drop (4 + ?k) buf)"
    using smsc_pairs_fit [of 4 number buf] True assms(2,3) by simp
  have x: "length ?x = 4 + ?k" "CHR 0x00 \<notin> set ?x"
    using assms(1,4) swap_pairs_set [of number] by (auto simp: swap_pairs_length)
  show ?thesis
  proof (cases "odd (length number)")
    case odd: True
    then have l: "length ?x = 3 + length number" "4 + ?k - 4 = length number - 1" using x(1) by (auto elim: oddE)
    have z: "CHR 0x00 \<notin> set (?x @ [d])" using x(2) assms(5) by auto
    have d: "length (drop (4 + ?k) buf) < 3 \<longleftrightarrow> \<not> length number \<le> 24" using assms(2) odd by (auto elim!: oddE)
    have e: "smsc_end temp (length number) (4 + ?k - 4) (?x @ drop (4 + ?k) buf) =
        (if \<not> length number \<le> 24 then None else Some (?x @ [CHR ''F'', d]))"
      unfolding l(2) smsc_end_odd [OF l(1) z odd assms(6) [OF odd]] d by simp
    show ?thesis unfolding ps if_P [OF odd]
      by (simp only: Option.bind.bind_lunit prod.case e) (use odd in \<open>simp add: swap_pairs_last\<close>)
  next
    case even: False
    then have l: "length ?x = 4 + length number" "even (length number)" using x(1) by auto
    have d: "drop (4 + ?k) buf = [] \<longleftrightarrow> \<not> length number \<le> 24" using assms(2) even by (auto elim!: evenE)
    have e: "smsc_end temp (length number) (4 + ?k - 4) (?x @ drop (4 + ?k) buf) =
        (if \<not> length number \<le> 24 then None else Some ?x)"
      unfolding smsc_end_even [OF l(1) x(2) l(2)] d by simp
    show ?thesis unfolding ps using even
      by (simp only: if_False Option.bind.bind_lunit prod.case e) (simp add: semi_octets_pairs)
  qed
qed

text \<open>The number as the code sends it: an odd last digit of an international number is replaced by the
  character in front of it.\<close>

definition centre_octets :: "int \<Rightarrow> string \<Rightarrow> string option" where
  "centre_octets tosca number =
    (if length number \<le> 24 then
       Some (fmt_x 2 (int ((length number + 1) div 2 + 1)) @ fmt_x 2 tosca @ semi_octets number)
     else None)"

text \<open>The address of the service centre, as the modem reports it, is put in front of the message as
  the length, the type and the semi-octets of its number, provided the number has at most 24
  digits; a longer one overruns the buffer. Of a number with a plus sign and an odd number of digits the
  last digit is lost: the character in front of it is sent twice.\<close>

theorem smsc_buffer:
  assumes "CHR 0x00 \<notin> set number" "number = [] \<or> hd number \<noteq> CHR ''+''" "0 \<le> tosca" "tosca < 256" "length number < 400"
  shows "smsc_text number tosca = centre_octets tosca number \<and>
    smsc_text (CHR ''+'' # number) tosca = centre_octets tosca
      (if odd (length number) then butlast number @ [last (CHR ''+'' # butlast number)] else number)"
proof -
  let ?h = "fmt_x 2 (int ((length number + 1) div 2 + 1)) @ fmt_x 2 tosca" and ?d = "last (CHR ''+'' # butlast number)"
  have h: "length ?h = 4" "CHR 0x00 \<notin> set ?h"
    using fmt_x_byte [of tosca] fmt_x_byte [of "int ((length number + 1) div 2 + 1)"] assms(3-5) by auto
  define buf where "buf = ?h @ CHR 0x00 # replicate 25 (CHR 0x00)"
  have si: "str_into (replicate SMSC_SIZE (CHR 0x00)) ?h = Some buf" and bl: "length buf = 30" and tb: "take 4 buf = ?h"
    using h(1) by (simp_all only: str_into_def SMSC_SIZE_def buf_def length_replicate length_append)
      (simp_all add: replicate_append_same [symmetric] numeral_eq_Suc)
  have nul: "CHR 0x00 \<notin> set (?h @ number)" using h(2) assms(1) by simp
  have n: "take 1 number \<noteq> ''+''" using assms(2) by (cases number) auto
  have last1: "rd (number @ [CHR 0x00]) (length number - 1) = Some (last number) \<and> last number \<noteq> CHR 0x00"
    if "number \<noteq> []" using that assms(1) by (cases number rule: rev_cases) (auto simp: rd_def nth_append)
  have last2: "rd ((CHR ''+'' # number) @ [CHR 0x00]) (length number - 1) = Some ?d" if "number \<noteq> []"
    using that by (cases number rule: rev_cases) (auto simp: rd_def nth_append nth_Cons last_conv_nth split: nat.splits)
  have d: "?d \<noteq> CHR 0x00" using assms(1) by (cases number rule: rev_cases) (auto dest: last_in_set)
  have "smsc_text number tosca = do { (left, p, smsc1) \<leftarrow> smsc_pairs number 4 buf; smsc_end number (length number) (p - 4) smsc1 }"
    unfolding smsc_text_def Let_def using n si by (simp only: if_False diff_zero drop_0 Option.bind.bind_lunit)
  moreover have "smsc_text (CHR ''+'' # number) tosca =
      do { (left, p, smsc1) \<leftarrow> smsc_pairs number 4 buf; smsc_end (CHR ''+'' # number) (length number) (p - 4) smsc1 }"
    using si by (simp add: smsc_text_def Let_def del: of_nat_add of_nat_Suc)
  moreover note smsc_from_buffer [OF h(1) bl tb nul d, of "CHR ''+'' # number"]
  moreover note smsc_from_buffer [OF h(1) bl tb nul, of "if number = [] then CHR ''F'' else last number" number]
  ultimately show ?thesis using last1 last2
    by (cases "number = []") (simp_all add: centre_octets_def del: of_nat_add of_nat_Suc)
qed

lemma smsc_buffer_witness:
  "smsc_text ''358501'' 145 = Some ''0491535810'' \<and> smsc_text ''+35850'' 145 = Some ''04915358F5''"
  using smsc_buffer [of "''358501''" 145] smsc_buffer [of "''35850''" 145]
  by (simp add: centre_octets_def fmt_x_def uint32_def hex_nat.simps hex_digit_def)

end
