(* ===== verification/Ril_Held.thy ===== *)
theory Ril_Held
  imports Ril_Sms
begin

text \<open>
  The flow of received messages from the modem to the library: none is lost, repeated or overtaken,
  and the library has at most one that it has not acknowledged.  How many are held is counted from the events
  alone.
\<close>

section \<open>The order of received messages\<close>

datatype sms_event = NewSms string | NewStatusReport string | NewBroadcast string | Acknowledge ril_data nat

fun sms_step :: "'m at_fun \<Rightarrow> sms_event \<Rightarrow> 'm ril \<Rightarrow> 'm ril option" where
  "sms_step send (NewSms p) s = Some (onNewSms p s)"
| "sms_step send (NewStatusReport p) s = Some (onNewStatusReport p s)"
| "sms_step send (NewBroadcast p) s = onNewBroadcastSms p s"
| "sms_step send (Acknowledge d t) s = requestSMSAcknowledge send d t s"

fun sms_run :: "'m at_fun \<Rightarrow> sms_event list \<Rightarrow> 'm ril \<Rightarrow> 'm ril option" where
  "sms_run send [] s = Some s"
| "sms_run send (e # es) s = do { s1 \<leftarrow> sms_step send e s; sms_run send es s1 }"

text \<open>The bytes of a broadcast as a text.\<close>

definition text_of_bytes :: "bytes \<Rightarrow> string" where
  "text_of_bytes b = map (char_of \<circ> unat) b"

definition broadcast_bytes :: "string \<Rightarrow> bytes option" where
  "broadcast_bytes pdu = map_option snd (stringToBinary pdu (2 * BSM_LENGTH) (replicate BSM_LENGTH 0))"

fun received :: "sms_event \<Rightarrow> (int \<times> string) list" where
  "received (NewSms p) = [(OUTSTANDING_SMS, p)]"
| "received (NewStatusReport p) = [(OUTSTANDING_STATUS, ''00'' @ p)]"
| "received (NewBroadcast p) =
    (if length p = 2 * BSM_LENGTH then
       (case broadcast_bytes p of Some b \<Rightarrow> [(OUTSTANDING_CB, text_of_bytes b)] | None \<Rightarrow> [])
     else [])"
| "received (Acknowledge d t) = []"

fun given_of :: "ril_out \<Rightarrow> (int \<times> string) list" where
  "given_of (OnUnsol RIL_UNSOL_RESPONSE_NEW_SMS (PString p) n) = [(OUTSTANDING_SMS, p)]"
| "given_of (OnUnsol RIL_UNSOL_RESPONSE_NEW_SMS_STATUS_REPORT (PString p) n) = [(OUTSTANDING_STATUS, p)]"
| "given_of (OnUnsol RIL_UNSOL_RESPONSE_NEW_BROADCAST_SMS (PString p) n) = [(OUTSTANDING_CB, p)]"
| "given_of (OnUnsol RIL_UNSOL_RESPONSE_NEW_BROADCAST_SMS (PBytes b) n) = [(OUTSTANDING_CB, text_of_bytes b)]"
| "given_of _ = []"

definition given :: "'m ril \<Rightarrow> (int \<times> string) list" where
  "given s = concat (map given_of (outputs s))"

definition held_messages :: "'m ril \<Rightarrow> (int \<times> string) list" where
  "held_messages s = map (\<lambda>h. (held_type h, held_text h)) (s_held_pdus s)"

fun acknowledges :: "sms_event \<Rightarrow> nat" where
  "acknowledges (Acknowledge d t) = (if data_int d 0 = Some 0 \<or> data_int d 0 = Some 1 then 1 else 0)"
| "acknowledges _ = 0"

text \<open>How many messages are not acknowledged after some events, from \<open>n\<close> before them; an acknowledgement of nothing has
  no effect.\<close>

fun unacknowledged :: "nat \<Rightarrow> sms_event list \<Rightarrow> nat" where
  "unacknowledged n [] = n"
| "unacknowledged n (e # es) = unacknowledged (n + length (received e) - acknowledges e) es"

text \<open>What the library is to get: every message as it was received, but a broadcast that has to wait as
  \<open>strdup\<close> copies it, up to its first zero byte.\<close>

definition waiting_copy :: "int \<times> string \<Rightarrow> int \<times> string" where
  "waiting_copy m = (fst m, if fst m = OUTSTANDING_CB then takeWhile (\<lambda>c. c \<noteq> CHR 0x00) (snd m) else snd m)"

fun expected :: "nat \<Rightarrow> sms_event list \<Rightarrow> (int \<times> string) list" where
  "expected n [] = []"
| "expected n (e # es) =
    (if n = 0 then received e else map waiting_copy (received e)) @ expected (n + length (received e) - acknowledges e) es"

lemma char_of_zero: "char_of (unat (x :: byte)) = CHR 0x00 \<longleftrightarrow> x = 0"
proof -
  have "take_bit 8 (unat x) = unat x" using unsigned_less [of x, where ?'a = nat] by (simp add: take_bit_nat_eq_self)
  then show ?thesis by (simp add: char_of_eq_iff unat_eq_0)
qed

lemma unacknowledged_append [simp]: "unacknowledged n (xs @ ys) = unacknowledged (unacknowledged n xs) ys"
  by (induction xs arbitrary: n) auto

lemma expected_append [simp]: "expected n (xs @ ys) = expected n xs @ expected (unacknowledged n xs) ys"
  by (induction xs arbitrary: n) auto

text \<open>What the operations need to be defined: an acknowledgement carries its number, and a zero byte
  ends a broadcast, lest \<open>strdup\<close> read on behind it.\<close>

fun sms_event_ok :: "sms_event \<Rightarrow> bool" where
  "sms_event_ok (NewBroadcast p) \<longleftrightarrow> length p \<noteq> 2 * BSM_LENGTH \<or>
    (case broadcast_bytes p of Some b \<Rightarrow> 0 \<in> set b | None \<Rightarrow> False)"
| "sms_event_ok (Acknowledge d t) \<longleftrightarrow> data_int d 0 \<noteq> None"
| "sms_event_ok _ \<longleftrightarrow> True"

definition sms_inv :: "sms_event list \<Rightarrow> 'm ril \<Rightarrow> bool" where
  "sms_inv es s \<longleftrightarrow> given s @ held_messages s = expected 0 es \<and>
     length (held_messages s) = unacknowledged 0 es - 1 \<and>
     (s_outstanding_acknowledge s \<longleftrightarrow> 0 < unacknowledged 0 es) \<and>
     list_all (\<lambda>h. held_type h \<in> {OUTSTANDING_SMS, OUTSTANDING_STATUS, OUTSTANDING_CB}) (s_held_pdus s)"

lemma given_simps [simp]:
  "given (emit x s) = given s @ given_of x" "given (s\<lparr>modem := m\<rparr>) = given s"
  "given (s\<lparr>s_held_pdus := h\<rparr>) = given s" "given (s\<lparr>s_outstanding_acknowledge := z\<rparr>) = given s"
  by (simp_all add: given_def)

lemma modem_enqueue [simp]: "modem (enqueue_held_pdu ty p s) = modem s"
  by (simp add: enqueue_held_pdu_def)

lemma held_messages_simps [simp]:
  "held_messages (emit x s) = held_messages s" "held_messages (s\<lparr>modem := m\<rparr>) = held_messages s"
  "held_messages (s\<lparr>s_outstanding_acknowledge := z\<rparr>) = held_messages s"
  by (simp_all add: held_messages_def)

lemma sms_inv_hold:
  assumes "sms_inv es s" "s_outstanding_acknowledge s" "received e = [m]" "acknowledges e = 0" "waiting_copy m = (ty, p)"
    "ty \<in> {OUTSTANDING_SMS, OUTSTANDING_STATUS, OUTSTANDING_CB}"
  shows "sms_inv (es @ [e]) (enqueue_held_pdu ty p s)"
proof -
  have "s_held_pdus (enqueue_held_pdu ty p s) = s_held_pdus s @ [Held ty p]"
    using held.contents_enq [of "Held ty p" s] by simp
  with assms show ?thesis by (auto simp: sms_inv_def held_messages_def enqueue_held_pdu_def given_def)
qed

lemma sms_inv_give:
  assumes "sms_inv es s" "\<not> s_outstanding_acknowledge s" "received e = [m]" "acknowledges e = 0" "given_of x = [m]"
  shows "sms_inv (es @ [e]) (emit x (s\<lparr>s_outstanding_acknowledge := True\<rparr>))"
  using assms by (auto simp: sms_inv_def held_messages_def)

lemma sms_inv_next:
  assumes "sms_inv es s" "acknowledges e = 1" "received e = []"
  shows "sms_inv (es @ [e]) (next_held s)"
proof (cases "s_held_pdus s")
  case Nil
  then have "dequeue_held_pdu s = (None, s)" "held_messages s = []" by (simp_all add: dequeue_held_pdu_def held_messages_def)
  with assms Nil show ?thesis by (auto simp: sms_inv_def next_held_def)
next
  case (Cons h hs)
  then have d: "dequeue_held_pdu s = (Some h, s\<lparr>s_held_pdus := hs\<rparr>)" by (simp add: dequeue_held_pdu_def)
  show ?thesis using assms Cons
    by (auto simp: sms_inv_def next_held_def d held_messages_def outstanding_numbers)
qed

lemma sms_inv_same:
  "sms_inv es s \<Longrightarrow> received e = [] \<Longrightarrow> acknowledges e = 0 \<Longrightarrow> given_of x = [] \<Longrightarrow> sms_inv (es @ [e]) (emit x s)"
  "sms_inv es s \<Longrightarrow> received e = [] \<Longrightarrow> acknowledges e = 0 \<Longrightarrow> sms_inv (es @ [e]) s"
  "sms_inv es s \<Longrightarrow> given_of x = [] \<Longrightarrow> sms_inv es (emit x s)"
  "sms_inv es s \<Longrightarrow> sms_inv es (s\<lparr>modem := m\<rparr>)"
  by (simp_all add: sms_inv_def)

context at_channel
begin

lemma sms_step_inv:
  assumes "alive (modem s)" "sms_inv es s" "sms_event_ok e"
  shows "wp False (sms_step at_send e s) (\<lambda>s'. alive (modem s') \<and> sms_inv (es @ [e]) s')"
proof (cases e)
  case (NewSms p)
  with assms show ?thesis
    using sms_inv_hold [of es s e "(OUTSTANDING_SMS, p)" OUTSTANDING_SMS p] sms_inv_give [of es s e "(OUTSTANDING_SMS, p)"]
    by (auto simp: onNewSms_def waiting_copy_def outstanding_numbers)
next
  case (NewStatusReport p)
  with assms show ?thesis
    using sms_inv_hold [of es s e "(OUTSTANDING_STATUS, ''00'' @ p)" OUTSTANDING_STATUS "''00'' @ p"] sms_inv_give [of es s e "(OUTSTANDING_STATUS, ''00'' @ p)"]
    by (auto simp: onNewStatusReport_def waiting_copy_def outstanding_numbers Let_def)
next
  case (NewBroadcast p)
  show ?thesis
  proof (cases "length p = 2 * BSM_LENGTH")
    case False
    with NewBroadcast assms show ?thesis by (simp add: onNewBroadcastSms_def sms_inv_same)
  next
    case True
    with NewBroadcast assms(3) obtain k b where
      b: "stringToBinary p (2 * BSM_LENGTH) (replicate BSM_LENGTH 0) = Some (k, b)" "0 \<in> set b"
      by (auto simp: broadcast_bytes_def split: option.splits)
    then have r: "received e = [(OUTSTANDING_CB, text_of_bytes b)]" "acknowledges e = 0"
      using NewBroadcast True by (simp_all add: broadcast_bytes_def)
    have "takeWhile (\<lambda>c. c \<noteq> CHR 0x00) (map (char_of \<circ> unat) b) = map (char_of \<circ> unat) (takeWhile (\<lambda>x. x \<noteq> 0) b)"
      by (simp add: takeWhile_map o_def char_of_zero)
    then have w: "waiting_copy (OUTSTANDING_CB, text_of_bytes b) = (OUTSTANDING_CB, map (char_of \<circ> unat) (takeWhile (\<lambda>x. x \<noteq> 0) b))"
      by (simp add: waiting_copy_def text_of_bytes_def)
    show ?thesis using assms NewBroadcast True b
      sms_inv_hold [OF assms(2) _ r w] sms_inv_give [OF assms(2) _ r]
      by (auto simp: onNewBroadcastSms_def strdup_bytes_def)
  qed
next
  case (Acknowledge d t)
  with assms(3) obtain a where a: "data_int d 0 = Some a" by auto
  obtain r out m where c: "at_send (AtCommand (if a = 1 then ''AT+CNMA=1'' else ''AT+CNMA=2'')) (modem s) = Some (r, out, m)" "alive m"
    using at_returns [OF assms(1)] by blast
  show ?thesis
  proof (cases "a = 1 \<or> a = 0")
    case True
    have "sms_inv es (RIL_onRequestComplete t RIL_E_SUCCESS PNone 0 (s\<lparr>modem := m\<rparr>))"
      using assms(2) by (simp add: sms_inv_same)
    then have "sms_inv (es @ [e]) (next_held (RIL_onRequestComplete t RIL_E_SUCCESS PNone 0 (s\<lparr>modem := m\<rparr>)))"
      using Acknowledge a True by (intro sms_inv_next) auto
    then show ?thesis using Acknowledge a True c
      by (auto simp: requestSMSAcknowledge_def at_cmd1_def at_def next_held_def dequeue_held_pdu_def split: list.split)
  next
    case False
    with Acknowledge a assms show ?thesis by (auto simp: requestSMSAcknowledge_def sms_inv_same)
  qed
qed

lemma sms_run_inv:
  assumes "alive (modem s)" "sms_inv es s" "list_all sms_event_ok es'"
  shows "\<exists>s'. sms_run at_send es' s = Some s' \<and> sms_inv (es @ es') s'"
  using assms
proof (induction es' arbitrary: es s)
  case (Cons e es')
  from wp_total [OF sms_step_inv [of s es e]] Cons.prems obtain s1 where
    s1: "sms_step at_send e s = Some s1" "alive (modem s1)" "sms_inv (es @ [e]) s1" by auto
  from Cons.IH [OF s1(2,3)] Cons.prems s1(1) show ?case by auto
qed simp

end

section \<open>The property\<close>

text \<open>C3: received messages, status reports and broadcasts reach the library in the order they came in,
  each once, and one at a time: of the messages that are not acknowledged the first was given to the library and
  the others are held, so that an acknowledgement gives out the next one or ends the wait.  Each is given as it was
  received, except that a broadcast that has to wait loses what follows its first zero byte.  The broadcasts of 88 bytes
  are hexadecimal and have a zero byte (behind one without, \<open>strdup\<close> and the log read on), and the acknowledgements carry a number.\<close>

theorem messages_in_order:
  assumes "at_alive m" "list_all sms_event_ok es"
  shows "\<exists>s. sms_run at_exchange es (init_ril m e) = Some s \<and>
    given s @ held_messages s = expected 0 es \<and>
    length (held_messages s) = unacknowledged 0 es - 1 \<and>
    (s_outstanding_acknowledge s \<longleftrightarrow> 0 < unacknowledged 0 es)"
proof -
  have "sms_inv [] (init_ril m e)" by (simp add: sms_inv_def given_def held_messages_def init_ril_def)
  moreover have "at_alive (modem (init_ril m e))" using assms(1) by (simp add: init_ril_def)
  ultimately show ?thesis using atch.sms_run_inv [of "init_ril m e" "[]" es] assms(2)
    by (auto simp: sms_inv_def)
qed

lemma messages_in_order_witness:
  "\<exists>s. sms_run at_exchange [NewSms ''07A1'', NewStatusReport ''06'', NewSms ''07B2'', Acknowledge (DInts [1]) 3]
       (init_ril (sample_context, []) sample_env) = Some s \<and>
     given s @ held_messages s = [(0, ''07A1''), (1, ''0006''), (0, ''07B2'')] \<and>
     length (held_messages s) = 1 \<and> s_outstanding_acknowledge s"
  using messages_in_order [of "(sample_context, [])"
      "[NewSms ''07A1'', NewStatusReport ''06'', NewSms ''07B2'', Acknowledge (DInts [1]) 3]" sample_env]
  by (simp add: at_alive_def outstanding_numbers waiting_copy_def rd_def)

end
