(* ===== verification/Ril_Call.thy ===== *)
theory Ril_Call
  imports Ril_Sms Gsm_Alphabet Gsm_Hex
begin

text \<open>
  Calls and supplementary services, from \<open>huaweigeneric-ril.c\<close>: the list of calls with the audio
  tunnel that follows it, the commands to dial, answer and hang up, tones, call waiting and
  forwarding, caller identification and USSD.
\<close>

section \<open>The audio tunnel\<close>

definition startAudioTunnel :: "'m at_fun \<Rightarrow> 'm ril \<Rightarrow> 'm ril option" where
  "startAudioTunnel send s =
    (if tunnel_running s then Some s
     else do {
       (err, s1) \<leftarrow> at_cmd1 send ''AT^CVOICE=0'' s;
       if err \<noteq> AT_NOERROR then Some s1
       else do {
         (r, s2) \<leftarrow> query send (at_single ''AT^CVOICE=?'' ''^CVOICE:'')
           (\<lambda>line. pbind (tok_start line) (\<lambda>line. pbind (tok_int line) (\<lambda>(voice_disabled, line).
              pbind (tok_int line) (\<lambda>(sampling_rate, line). pbind (tok_int line) (\<lambda>(bits_per_sample, line).
              pbind (tok_int line) (\<lambda>(framesize_ms, line). ret (sampling_rate, bits_per_sample, framesize_ms))))))) s1;
         case r of
           None \<Rightarrow> Some s2
         | Some (sampling_rate, bits_per_sample, framesize_ms) \<Rightarrow> do {
             (err, s3) \<leftarrow> at_cmd1 send ''AT^DDSETEX=2'' s2;
             Some (if err \<noteq> AT_NOERROR then s3
               else if gsm_audio_tunnel_start (env s3) sampling_rate
                   (cdiv (int32 (sampling_rate * framesize_ms)) 1000) bits_per_sample \<noteq> 0 then s3
               else s3\<lparr>tunnel_running := True\<rparr>)
           }
       }
     })"

definition stopAudioTunnel :: "'m ril \<Rightarrow> 'm ril" where
  "stopAudioTunnel s = (if \<not> tunnel_running s then s else s\<lparr>tunnel_running := False\<rparr>)"

section \<open>The list of calls\<close>

definition sendCallStateChanged :: "'m ril \<Rightarrow> 'm ril" where
  "sendCallStateChanged s = RIL_onUnsolicitedResponse RIL_UNSOL_RESPONSE_CALL_STATE_CHANGED PNone 0 s"

text \<open>The return code and the out parameter.\<close>

definition clccStateToRILState :: "int \<Rightarrow> RIL_CallState \<Rightarrow> int \<times> RIL_CallState" where
  "clccStateToRILState st p_state =
    (if st = 0 then (0, RIL_CALL_ACTIVE)
     else if st = 1 then (0, RIL_CALL_HOLDING)
     else if st = 2 then (0, RIL_CALL_DIALING)
     else if st = 3 then (0, RIL_CALL_ALERTING)
     else if st = 4 then (0, RIL_CALL_INCOMING)
     else if st = 5 then (0, RIL_CALL_WAITING)
     else (- 1, p_state))"

definition phone_char :: "char \<Rightarrow> bool" where
  "phone_char c \<longleftrightarrow> c \<in> set ''+0123456789''"

text \<open>The record \<open>*p_call\<close> is passed in and returned: a line that is refused has already changed it.\<close>

definition callFromCLCCLine :: "string \<Rightarrow> RIL_Call \<Rightarrow> (int \<times> RIL_Call) option" where
  "callFromCLCCLine line c =
    (case at_tok_start (Some line) of (err, cur) \<Rightarrow>
     if err < 0 then Some (- 1, c) else do {
     (err, v, cur) \<leftarrow> at_tok_nextint cur (Some (call_index c));
     x \<leftarrow> v; let c = c\<lparr>call_index := x\<rparr>;
     if err < 0 then Some (- 1, c) else do {
     (err, v, cur) \<leftarrow> at_tok_nextbool 0 cur (Some (isMT c));
     x \<leftarrow> v; let c = c\<lparr>isMT := x\<rparr>;
     if err < 0 then Some (- 1, c) else do {
     (err, v, cur) \<leftarrow> at_tok_nextint cur (Some 0);
     st \<leftarrow> v;
     if err < 0 then Some (- 1, c) else
     case clccStateToRILState st (call_state c) of (err, cs) \<Rightarrow> do {
     let c = c\<lparr>call_state := cs\<rparr>;
     if err < 0 then Some (- 1, c) else do {
     (err, v, cur) \<leftarrow> at_tok_nextint cur (Some 0);
     mode \<leftarrow> v;
     if err < 0 then Some (- 1, c) else do {
     let c = c\<lparr>isVoice := (if mode = 0 then 1 else 0)\<rparr>;
     (err, v, cur) \<leftarrow> at_tok_nextbool 0 cur (Some (isMpty c));
     x \<leftarrow> v; let c = c\<lparr>isMpty := x\<rparr>;
     if err < 0 then Some (- 1, c)
     else if at_tok_hasmore cur then do {
       (err, v, cur) \<leftarrow> at_tok_nextstr cur (call_number c);
       let c = c\<lparr>call_number := v\<rparr>;
       if err < 0 then Some (0, c) else do {
         let c = (case v of
             Some n \<Rightarrow> if takeWhile phone_char n = [] then c\<lparr>call_number := None\<rparr> else c
           | None \<Rightarrow> c);
         (err, v, cur) \<leftarrow> at_tok_nextint cur (Some (call_toa c));
         x \<leftarrow> v; let c = c\<lparr>call_toa := x\<rparr>;
         Some (if err < 0 then - 1 else 0, c) } }
     else Some (0, c) } } } } } })"

definition zero_call :: RIL_Call where
  "zero_call = \<lparr>call_state = RIL_CALL_ACTIVE, call_index = 0, call_toa = 0, isMpty = 0, isMT = 0, isVoice = 0, call_number = None\<rparr>"

text \<open>The second loop of \<open>requestGetCurrentCalls\<close>: the calls counted so far and the record behind them,
  which the next line is read into.\<close>

fun calls_loop :: "string list \<Rightarrow> RIL_Call list \<Rightarrow> RIL_Call \<Rightarrow> bool \<Rightarrow> (RIL_Call list \<times> bool) option" where
  "calls_loop [] valid slot needRepoll = Some (valid, needRepoll)"
| "calls_loop (l # ls) valid slot needRepoll = do {
     (err, c) \<leftarrow> callFromCLCCLine l slot;
     if err \<noteq> 0 then calls_loop ls valid c needRepoll
     else let needRepoll' = (needRepoll \<or> (call_state c \<noteq> RIL_CALL_ACTIVE \<and> call_state c \<noteq> RIL_CALL_HOLDING)) in
       if isVoice c \<noteq> 0 then calls_loop ls (valid @ [c]) zero_call needRepoll'
       else calls_loop ls valid c needRepoll' }"

definition TIMEVAL_CALLSTATEPOLL :: timespec where "TIMEVAL_CALLSTATEPOLL = Timespec 0 500000"

definition requestGetCurrentCalls :: "'m at_fun \<Rightarrow> nat \<Rightarrow> 'm ril \<Rightarrow> 'm ril option" where
  "requestGetCurrentCalls send t s = do {
     let s0 = (if getRadioState s \<noteq> RADIO_STATE_SIM_READY then RIL_onRequestComplete t RIL_E_RADIO_NOT_AVAILABLE PNone 0 s else s);
     (err, atResponse, s1) \<leftarrow> at send (AtMulti ''AT+CLCC'' ''+CLCC:'') s0;
     if err \<noteq> AT_NOERROR then Some (RIL_onRequestComplete t RIL_E_GENERIC_FAILURE PNone 0 s1)
     else do {
       resp \<leftarrow> not_null atResponse;
       (calls, needRepoll) \<leftarrow> calls_loop (p_intermediates resp) [] zero_call False;
       s2 \<leftarrow> (if calls \<noteq> [] then startAudioTunnel send s1 else Some (stopAudioTunnel s1));
       let s3 = RIL_onRequestComplete t RIL_E_SUCCESS (PCalls calls) (length calls * sizeof_ptr) s2;
       Some (if needRepoll then enqueue_event SendCallStateChanged (Some TIMEVAL_CALLSTATEPOLL) s3 else s3)
     }
   }"

section \<open>Commands whose outcome is not reported\<close>

text \<open>Send a command, ignore its error and report success.\<close>

definition tell :: "'m at_fun \<Rightarrow> string \<Rightarrow> nat \<Rightarrow> 'm ril \<Rightarrow> 'm ril option" where
  "tell send c t s = do { (_, s1) \<leftarrow> at_cmd1 send c s; Some (RIL_onRequestComplete t RIL_E_SUCCESS PNone 0 s1) }"

definition requestDial :: "'m at_fun \<Rightarrow> ril_data \<Rightarrow> nat \<Rightarrow> 'm ril \<Rightarrow> 'm ril option" where
  "requestDial send dat t s =
    (case dat of
       DDial address clir_mode \<Rightarrow>
         let clir = (if clir_mode = 1 then ''I'' else if clir_mode = 2 then ''i'' else []) in
         tell send (''ATD'' @ address @ clir @ '';'') t s
     | _ \<Rightarrow> None)"

definition requestHangup :: "'m at_fun \<Rightarrow> ril_data \<Rightarrow> nat \<Rightarrow> 'm ril \<Rightarrow> 'm ril option" where
  "requestHangup send dat t s = do { line \<leftarrow> data_int dat 0; tell send (''AT+CHLD=1'' @ dec_int line) t s }"

definition requestHangupWaitingOrBackground :: "'m at_fun \<Rightarrow> nat \<Rightarrow> 'm ril \<Rightarrow> 'm ril option" where
  "requestHangupWaitingOrBackground send = tell send ''AT+CHLD=0''"

definition requestHangupForegroundResumeBackground :: "'m at_fun \<Rightarrow> nat \<Rightarrow> 'm ril \<Rightarrow> 'm ril option" where
  "requestHangupForegroundResumeBackground send = tell send ''AT+CHLD=1''"

definition requestSwitchWaitingOrHoldingAndActive :: "'m at_fun \<Rightarrow> nat \<Rightarrow> 'm ril \<Rightarrow> 'm ril option" where
  "requestSwitchWaitingOrHoldingAndActive send = tell send ''AT+CHLD=2''"

definition requestAnswer :: "'m at_fun \<Rightarrow> nat \<Rightarrow> 'm ril \<Rightarrow> 'm ril option" where
  "requestAnswer send = tell send ''ATA''"

definition requestConference :: "'m at_fun \<Rightarrow> nat \<Rightarrow> 'm ril \<Rightarrow> 'm ril option" where
  "requestConference send = tell send ''AT+CHLD=3''"

definition requestUDUB :: "'m at_fun \<Rightarrow> nat \<Rightarrow> 'm ril \<Rightarrow> 'm ril option" where
  "requestUDUB send = tell send ''ATH''"

definition requestSeparateConnection :: "'m at_fun \<Rightarrow> ril_data \<Rightarrow> nat \<Rightarrow> 'm ril \<Rightarrow> 'm ril option" where
  "requestSeparateConnection send dat t s = do {
     party \<leftarrow> data_int dat 0;
     if 0 < party \<and> party < 10 then tell send (''AT+CHLD=2'' @ dec_int party) t s
     else Some (RIL_onRequestComplete t RIL_E_GENERIC_FAILURE PNone 0 s)
   }"

section \<open>Commands whose error is reported\<close>

definition ask :: "'m at_fun \<Rightarrow> string \<Rightarrow> nat \<Rightarrow> 'm ril \<Rightarrow> 'm ril option" where
  "ask send c t s = do { (err, s1) \<leftarrow> at_cmd1 send c s; Some (complete_ok err t s1) }"

text \<open>\<open>assert (datalen >= n)\<close>\<close>

definition assert_len :: "nat \<Rightarrow> nat \<Rightarrow> unit option" where
  "assert_len len n = (if n \<le> len then Some () else None)"

definition requestSetMute :: "'m at_fun \<Rightarrow> ril_data \<Rightarrow> nat \<Rightarrow> nat \<Rightarrow> 'm ril \<Rightarrow> 'm ril option" where
  "requestSetMute send dat len t s = do {
     _ \<leftarrow> assert_len len sizeof_ptr;
     m \<leftarrow> data_int dat 0;
     ask send (''AT+CMUT='' @ dec_int m) t s }"

text \<open>A handler that asks for a line and reports what it parsed, or a failure.\<close>

definition report :: "'m at_fun \<Rightarrow> at_cmd \<Rightarrow> (string \<Rightarrow> 'a parse) \<Rightarrow> ('a \<Rightarrow> ril_payload) \<Rightarrow> nat \<Rightarrow> nat \<Rightarrow> 'm ril \<Rightarrow> 'm ril option" where
  "report send c f payload n t s = do {
     (r, s1) \<leftarrow> query send c f s;
     Some (case r of
         Some x \<Rightarrow> RIL_onRequestComplete t RIL_E_SUCCESS (payload x) n s1
       | None \<Rightarrow> RIL_onRequestComplete t RIL_E_GENERIC_FAILURE PNone 0 s1)
   }"

definition requestGetMute :: "'m at_fun \<Rightarrow> nat \<Rightarrow> 'm ril \<Rightarrow> 'm ril option" where
  "requestGetMute send = report send (at_single ''AT+CMUT?'' ''+CMUT:'')
     (\<lambda>line. pbind (tok_start line) (\<lambda>line. pbind (tok_int line) (\<lambda>(x, line). ret x))) (\<lambda>x. PInts [x]) sizeof_ptr"

text \<open>\<open>((char *) data)[0]\<close>: the first byte of a string, its terminating zero when it is empty.\<close>

fun data_char :: "ril_data \<Rightarrow> char option" where
  "data_char (DString (c # cs)) = Some c"
| "data_char (DString []) = Some (CHR 0x00)"
| "data_char _ = None"

text \<open>\<open>"%c"\<close>: a zero ends the command.\<close>

definition fmt_c :: "char \<Rightarrow> string" where
  "fmt_c c = (if c = CHR 0x00 then [] else [c])"

definition requestDTMF :: "'m at_fun \<Rightarrow> ril_data \<Rightarrow> nat \<Rightarrow> 'm ril \<Rightarrow> 'm ril option" where
  "requestDTMF send dat t s = do { c \<leftarrow> data_char dat; ask send (''AT+VTS='' @ fmt_c c) t s }"

definition requestDtmfStop :: "'m at_fun \<Rightarrow> nat \<Rightarrow> 'm ril \<Rightarrow> 'm ril option" where
  "requestDtmfStop send = ask send ''AT''"

definition requestDtmfStart :: "'m at_fun \<Rightarrow> ril_data \<Rightarrow> nat \<Rightarrow> nat \<Rightarrow> 'm ril \<Rightarrow> 'm ril option" where
  "requestDtmfStart send dat len t s = do {
     _ \<leftarrow> assert_len len sizeof_ptr;
     c \<leftarrow> data_char dat;
     ask send (''AT^DTMF=0,'' @ fmt_c c) t s }"

definition requestCancelUSSD :: "'m at_fun \<Rightarrow> nat \<Rightarrow> 'm ril \<Rightarrow> 'm ril option" where
  "requestCancelUSSD send = report send (AtNumeric ''AT+CUSD=2'') ret PString sizeof_ptr"

text \<open>\<open>response[1]\<close> is uninitialised when the line has one number only; \<open>junk\<close> is what it holds.\<close>

definition requestQueryCallWaiting :: "int \<Rightarrow> 'm at_fun \<Rightarrow> ril_data \<Rightarrow> nat \<Rightarrow> 'm ril \<Rightarrow> 'm ril option" where
  "requestQueryCallWaiting junk send dat t s = do {
     aclass \<leftarrow> data_int dat 0;
     report send (at_single (''AT+CCWA=1,2,'' @ dec_int aclass) ''+CCWA:'')
       (\<lambda>line. pbind (tok_start line) (\<lambda>line. pbind (tok_int line) (\<lambda>(x, line).
          if at_tok_hasmore line then pbind (tok_int line) (\<lambda>(y, line). ret [x, y]) else ret [x, junk])))
       PInts 8 t s
   }"

definition requestSetCallWaiting :: "'m at_fun \<Rightarrow> ril_data \<Rightarrow> nat \<Rightarrow> nat \<Rightarrow> 'm ril \<Rightarrow> 'm ril option" where
  "requestSetCallWaiting send dat len t s =
    (if len < 2 \<or> dat = DNull then Some (RIL_onRequestComplete t RIL_E_GENERIC_FAILURE PNone 0 s)
     else do {
       enabled \<leftarrow> data_int dat 0;
       aclass \<leftarrow> data_int dat 1;
       ask send (''AT+CCWA=0,'' @ dec_int enabled @ '','' @ dec_int aclass) t s
     })"

section \<open>Call forwarding\<close>

definition empty_forward :: RIL_CallForwardInfo where
  "empty_forward = \<lparr>cf_status = 0, cf_reason = 0, cf_serviceClass = 0, cf_toa = 0, cf_number = Some [], cf_timeSeconds = 0\<rparr>"

definition forward_line :: "string \<Rightarrow> RIL_CallForwardInfo parse" where
  "forward_line line = pbind (tok_start line) (\<lambda>line. pbind (tok_int line) (\<lambda>(st, line). pbind (tok_int line) (\<lambda>(cls, line).
     let f = empty_forward\<lparr>cf_status := st, cf_serviceClass := cls\<rparr> in
     if \<not> at_tok_hasmore line then ret f
     else pbind (tok_str line) (\<lambda>(number, line).
       let f = f\<lparr>cf_number := Some number\<rparr> in
       if \<not> at_tok_hasmore line then ret f
       else pbind (tok_int line) (\<lambda>(toa, line).
         let f = f\<lparr>cf_toa := toa\<rparr> in
         if \<not> at_tok_hasmore line then ret f
         else do {
           (_, _, line) \<leftarrow> at_tok_nextint line (Some 0);
           if \<not> at_tok_hasmore line then ret f
           else do {
             (_, _, line) \<leftarrow> at_tok_nextint line (Some 0);
             if \<not> at_tok_hasmore line then ret f
             else pbind (tok_int line) (\<lambda>(secs, line). ret (f\<lparr>cf_timeSeconds := secs\<rparr>)) } })))))"

fun forward_lines :: "string list \<Rightarrow> RIL_CallForwardInfo list parse" where
  "forward_lines [] = ret []"
| "forward_lines (l # ls) = pbind (forward_line l) (\<lambda>f. pbind (forward_lines ls) (\<lambda>fs. ret (f # fs)))"

definition requestQueryCallForwardStatus :: "'m at_fun \<Rightarrow> nat \<Rightarrow> 'm ril \<Rightarrow> 'm ril option" where
  "requestQueryCallForwardStatus send t s = do {
     (err, atResponse, s1) \<leftarrow> at send (AtMulti ''AT+CCFC=0,2'' ''+CCFC:'') s;
     if err \<noteq> AT_NOERROR then Some (RIL_onRequestComplete t RIL_E_GENERIC_FAILURE PNone 0 s1)
     else do {
       resp \<leftarrow> not_null atResponse;
       r \<leftarrow> forward_lines (p_intermediates resp);
       Some (case r of
           Some fs \<Rightarrow> RIL_onRequestComplete t RIL_E_SUCCESS (PForwards fs) sizeof_ptr s1
         | None \<Rightarrow> RIL_onRequestComplete t RIL_E_GENERIC_FAILURE PNone 0 s1)
     }
   }"

definition requestSetCallForward :: "'m at_fun \<Rightarrow> ril_data \<Rightarrow> nat \<Rightarrow> 'm ril \<Rightarrow> 'm ril option" where
  "requestSetCallForward send dat t s =
    (case dat of
       DNull \<Rightarrow> Some (RIL_onRequestComplete t RIL_E_GENERIC_FAILURE PNone 0 s)
     | DForward info \<Rightarrow>
         ask send (''AT+CCFC = '' @ dec_int (cf_reason info) @ '', '' @ dec_int (cf_status info) @ '', '' @
           quoted (fmt_s (cf_number info))) t s
     | _ \<Rightarrow> None)"

section \<open>Caller identification and the rest\<close>

definition requestGetCLIR :: "'m at_fun \<Rightarrow> nat \<Rightarrow> 'm ril \<Rightarrow> 'm ril option" where
  "requestGetCLIR send = report send (at_single ''AT+CLIR?'' ''+CLIR:'')
     (\<lambda>line. pbind (tok_start line) (\<lambda>line. pbind (tok_int line) (\<lambda>(x, line).
        pbind (tok_int line) (\<lambda>(y, line). ret [x, y])))) PInts 8"

definition requestSetCLIR :: "'m at_fun \<Rightarrow> ril_data \<Rightarrow> nat \<Rightarrow> 'm ril \<Rightarrow> 'm ril option" where
  "requestSetCLIR send dat t s = do {
     n \<leftarrow> data_int dat 0;
     (err, s1) \<leftarrow> at_cmd1 send (''AT+CLIR='' @ dec_int n) s;
     Some (RIL_onRequestComplete t (if err < 0 then RIL_E_PASSWORD_INCORRECT else RIL_E_SUCCESS) PNone 0 s1)
   }"

definition str_bytes :: "string \<Rightarrow> bytes" where "str_bytes = map of_char"

text \<open>The request as 8-bit GSM text in hexadecimal: the buffer for the text has the size of the request,
  although some characters take two bytes of it.\<close>

definition requestSendUSSD :: "'m at_fun \<Rightarrow> ril_data \<Rightarrow> nat \<Rightarrow> 'm ril \<Rightarrow> 'm ril option" where
  "requestSendUSSD send dat t s = do {
     p \<leftarrow> data_cstr dat;
     ussdRequest \<leftarrow> not_null p;
     (len, temp) \<leftarrow> utf8_to_gsm8 (str_bytes ussdRequest @ [0]) (length ussdRequest) (Some (replicate (length ussdRequest + 1) 0));
     temp1 \<leftarrow> not_null temp;
     newUSSDRequest \<leftarrow> gsm_hex_from_bytes (replicate (2 * len + 1) (CHR 0x00)) temp1 len;
     newUSSDRequest1 \<leftarrow> wr newUSSDRequest (2 * len) (CHR 0x00);
     ask send (''AT+CUSD=1,'' @ quoted (cstr newUSSDRequest1) @ '',15'') t s
   }"

definition requestChangeBarringPassword :: "'m at_fun \<Rightarrow> ril_data \<Rightarrow> nat \<Rightarrow> nat \<Rightarrow> 'm ril \<Rightarrow> 'm ril option" where
  "requestChangeBarringPassword send dat len t s = do {
     _ \<leftarrow> assert_len len (3 * sizeof_ptr);
     facility \<leftarrow> data_str dat 0;
     old_password \<leftarrow> data_str dat 1;
     new_password \<leftarrow> data_str dat 2;
     ask send (''AT+CPWD='' @ quoted (fmt_s facility) @ '','' @ quoted (fmt_s old_password) @ '','' @
       quoted (fmt_s new_password)) t s
   }"

definition requestQueryCLIP :: "'m at_fun \<Rightarrow> nat \<Rightarrow> 'm ril \<Rightarrow> 'm ril option" where
  "requestQueryCLIP send = report send (at_single ''AT+CLIP?'' ''+CLIP:'')
     (\<lambda>line. pbind (tok_start line) (\<lambda>line. pbind (tok_int line) (\<lambda>(x, line).
        pbind (tok_int line) (\<lambda>(y, line). ret y)))) (\<lambda>y. PInts [y]) sizeof_int"

definition requestResetRadio :: "'m at_fun \<Rightarrow> nat \<Rightarrow> 'm ril \<Rightarrow> 'm ril option" where
  "requestResetRadio send t s = do {
     (err, s1) \<leftarrow> at_cmd1 send ''AT+CFUN=6'' s;
     if err \<noteq> AT_NOERROR then Some (complete_ok err t s1) else ask send ''AT+CFUN=1'' t s1
   }"

definition requestSetSuppSVCNotification :: "'m at_fun \<Rightarrow> ril_data \<Rightarrow> nat \<Rightarrow> 'm ril \<Rightarrow> 'm ril option" where
  "requestSetSuppSVCNotification send dat t s = do {
     enabled \<leftarrow> data_int dat 0;
     ask send (''AT+CSSN='' @ dec_int enabled @ '','' @ dec_int enabled) t s }"

definition requestExplicitCallTransfer :: "'m at_fun \<Rightarrow> nat \<Rightarrow> 'm ril \<Rightarrow> 'm ril option" where
  "requestExplicitCallTransfer send = ask send ''AT+CHLD=4''"

definition requestSetLocationUpdates :: "'m at_fun \<Rightarrow> ril_data \<Rightarrow> nat \<Rightarrow> 'm ril \<Rightarrow> 'm ril option" where
  "requestSetLocationUpdates send dat t s = do {
     x \<leftarrow> data_int dat 0;
     let updates = (if x = 1 then 2 else 1);
     (err, _, s1) \<leftarrow> at send (at_single (''AT+CREG='' @ dec_int updates) ''+CLIP:'') s;
     Some (complete_ok err t s1)
   }"

definition requestLastFailCause :: "'m at_fun \<Rightarrow> nat \<Rightarrow> 'm ril \<Rightarrow> 'm ril option" where
  "requestLastFailCause send = report send (at_single ''AT+CEER'' ''+CEER:'')
     (\<lambda>line. pbind (tok_start line) (\<lambda>line. pbind (tok_str line) (\<lambda>(tmp, line).
        pbind (tok_int line) (\<lambda>(x, line). ret x)))) (\<lambda>x. PInts [x]) sizeof_int"

section \<open>What the handlers leave alone\<close>

lemma assert_len_wp [wps]: "b \<or> n \<le> len \<Longrightarrow> (n \<le> len \<Longrightarrow> Q ()) \<Longrightarrow> wp b (assert_len len n) Q"
  by (auto simp: assert_len_def)

lemmas call_values = wp_value [where m = "data_char x" for x] wp_value [where m = "data_cstr x" for x]
  wp_value [where m = "utf8_to_gsm8 x n d" for x n d] wp_value [where m = "gsm_hex_from_bytes x y n" for x y n]
  wp_value [where m = "wr x n c" for x n c]

text \<open>A USSD request in ASCII that fits the buffer of its own size and one byte: at most one character of it takes two.\<close>

definition ussd_chars :: "string \<Rightarrow> int list" where
  "ussd_chars p = map (\<lambda>c. int (of_char c)) p"

definition ussd_fits :: "ril_data \<Rightarrow> bool" where
  "ussd_fits dat \<longleftrightarrow> (\<exists>p. data_cstr dat = Some (Some p) \<and> (\<forall>c \<in> set p. of_char c < (128 :: nat)) \<and>
     sum_list (map gsm8_size (ussd_chars p)) \<le> length p + 1)"

lemma callFromCLCCLine_wp [wps]:
  assumes "b \<or> tame l" "\<And>e c'. Q (e, c')"
  shows "wp b (callFromCLCCLine l c) Q"
proof -
  have "csafe b (snd (at_tok_start (Some l)))"
    using start_safe [of "Some l"] assms(1) by (auto simp: tame_def csafe_def simp del: at_tok_start.simps)
  then show ?thesis unfolding callFromCLCCLine_def using assms(2)
    by (cases "at_tok_start (Some l)")
      (auto intro!: wps simp: clccStateToRILState_def Let_def simp del: at_tok_start.simps split: option.split)
qed

lemma calls_loop_wp [wps]:
  assumes "b \<or> list_all tame ls" "\<And>cs rp. Q (cs, rp)"
  shows "wp b (calls_loop ls valid slot rp0) Q"
  using assms(1)
proof (induction ls arbitrary: valid slot rp0)
  case (Cons l ls)
  then show ?case by (auto intro!: wps simp: Let_def)
qed (simp add: assms(2))

lemma forward_line_parses [wps]:
  "b \<or> tame l \<Longrightarrow> (\<And>f. Q f) \<Longrightarrow> parses b (forward_line l) Q"
proof -
  assume l: "b \<or> tame l" and Q: "\<And>f. Q f"
  have bind: "parses b (Option.bind m f) Q" if "wp b m (\<lambda>x. parses b (f x) Q)" for m :: "'x option" and f
    using that by (cases m) (auto simp: parses_def)
  show ?thesis unfolding forward_line_def Let_def using l Q by (auto intro!: wps bind)
qed

lemma forward_lines_parses [wps]:
  "b \<or> list_all tame ls \<Longrightarrow> (\<And>fs. Q fs) \<Longrightarrow> parses b (forward_lines ls) Q"
proof (induction ls arbitrary: Q)
  case (Cons l ls)
  then show ?case by (auto intro!: wps)
qed simp

lemma stopAudioTunnel_fields [simp]:
  "modem (stopAudioTunnel s) = modem s" "sState (stopAudioTunnel s) = sState s" "answered (stopAudioTunnel s) = answered s"
  "sim_polled (stopAudioTunnel s) = sim_polled s"
  by (simp_all add: stopAudioTunnel_def)

context at_channel
begin

lemma multi_lines:
  "at_promise (AtMulti c p) 0 r \<Longrightarrow> \<exists>x. r = Some x \<and> list_all tame (p_intermediates x)"
  by (auto split: option.splits simp: list_all_iff)

lemma startAudioTunnel_wp [wps]:
  assumes "alive (modem s)" "\<And>m x. alive m \<Longrightarrow> Q (s\<lparr>modem := m, tunnel_running := x\<rparr>)" "Q s"
  shows "wp b (startAudioTunnel at_send s) Q"
proof -
  have Q1: "Q (s\<lparr>modem := m\<rparr>)" if "alive m" for m
    using assms(2) [OF that, of "tunnel_running s"] by (cases s) simp
  show ?thesis unfolding startAudioTunnel_def using assms Q1 by (auto intro!: wps)
qed

lemma requestGetCurrentCalls_served:
  assumes "alive (modem s)" "sState s = RADIO_STATE_SIM_READY"
  shows "wp b (requestGetCurrentCalls at_send t s) (served alive t s)"
  unfolding requestGetCurrentCalls_def Let_def using assms
  by (auto intro!: wps simp: served_def getRadioState_def at_error_numbers list_all_iff simp del: calls_loop.simps
      split: option.splits if_splits)

lemma tell_served:
  assumes "alive (modem s)" "gsm_state (sState s)"
  shows "wp b (tell at_send c t s) (served alive t s)"
  unfolding tell_def using assms by (auto intro!: wps simp: served_def)

lemma ask_served:
  assumes "alive (modem s)" "gsm_state (sState s)"
  shows "wp b (ask at_send c t s) (served alive t s)"
  unfolding ask_def complete_ok_def using assms by (auto intro!: wps simp: served_def)

lemma report_served:
  assumes "alive (modem s)" "gsm_state (sState s)" "\<And>l. tame l \<Longrightarrow> parses b (f l) (\<lambda>_. True)"
    "\<exists>k p d. c = AtSingle k p True \<or> c = AtNumeric k \<or> c = AtSms k d p"
  shows "wp b (report at_send c f payload n t s) (served alive t s)"
proof -
  obtain k p d where c: "c = AtSingle k p True \<or> c = AtNumeric k \<or> c = AtSms k d p" using assms(4) by blast
  show ?thesis unfolding report_def using assms(1-3)
    by (auto intro!: wps query_wp [OF _ c, where P = "\<lambda>_. True"] simp: served_def split: option.split)
qed

lemmas reports = report_served tell_served ask_served

lemma requestDial_served:
  assumes "alive (modem s)" "gsm_state (sState s)" "b \<or> (\<exists>a c. dat = DDial a c)"
  shows "wp b (requestDial at_send dat t s) (served alive t s)"
  unfolding requestDial_def using assms by (auto intro!: wps reports simp: Let_def split: ril_data.split)

lemma requestHangup_served:
  assumes "alive (modem s)" "gsm_state (sState s)" "b \<or> data_int dat 0 \<noteq> None"
  shows "wp b (requestHangup at_send dat t s) (served alive t s)"
  unfolding requestHangup_def using assms by (auto intro!: wps reports)

lemma call_commands_served:
  assumes "alive (modem s)" "gsm_state (sState s)"
  shows "wp b (requestHangupWaitingOrBackground at_send t s) (served alive t s)"
    "wp b (requestHangupForegroundResumeBackground at_send t s) (served alive t s)"
    "wp b (requestSwitchWaitingOrHoldingAndActive at_send t s) (served alive t s)"
    "wp b (requestAnswer at_send t s) (served alive t s)"
    "wp b (requestConference at_send t s) (served alive t s)"
    "wp b (requestUDUB at_send t s) (served alive t s)"
    "wp b (requestDtmfStop at_send t s) (served alive t s)"
    "wp b (requestExplicitCallTransfer at_send t s) (served alive t s)"
  unfolding requestHangupWaitingOrBackground_def requestHangupForegroundResumeBackground_def
    requestSwitchWaitingOrHoldingAndActive_def requestAnswer_def requestConference_def requestUDUB_def
    requestDtmfStop_def requestExplicitCallTransfer_def
  using assms by (auto intro: reports)

lemma requestSeparateConnection_served:
  assumes "alive (modem s)" "gsm_state (sState s)" "b \<or> data_int dat 0 \<noteq> None"
  shows "wp b (requestSeparateConnection at_send dat t s) (served alive t s)"
  unfolding requestSeparateConnection_def using assms by (auto intro!: wps reports simp: served_def)

lemma requestSetMute_served:
  assumes "alive (modem s)" "gsm_state (sState s)" "b \<or> data_int dat 0 \<noteq> None \<and> sizeof_ptr \<le> len"
  shows "wp b (requestSetMute at_send dat len t s) (served alive t s)"
  unfolding requestSetMute_def using assms by (auto intro!: wps reports)

lemma call_queries_served:
  assumes "alive (modem s)" "gsm_state (sState s)"
  shows "wp b (requestGetMute at_send t s) (served alive t s)"
    "wp b (requestCancelUSSD at_send t s) (served alive t s)"
    "wp b (requestGetCLIR at_send t s) (served alive t s)"
    "wp b (requestQueryCLIP at_send t s) (served alive t s)"
    "wp b (requestLastFailCause at_send t s) (served alive t s)"
  unfolding requestGetMute_def requestCancelUSSD_def requestGetCLIR_def requestQueryCLIP_def requestLastFailCause_def
  using assms by (auto intro!: wps reports)

lemma requestDTMF_served:
  assumes "alive (modem s)" "gsm_state (sState s)" "b \<or> data_char dat \<noteq> None"
  shows "wp b (requestDTMF at_send dat t s) (served alive t s)"
  unfolding requestDTMF_def using assms by (auto intro!: wps reports call_values)

lemma requestDtmfStart_served:
  assumes "alive (modem s)" "gsm_state (sState s)" "b \<or> data_char dat \<noteq> None \<and> sizeof_ptr \<le> len"
  shows "wp b (requestDtmfStart at_send dat len t s) (served alive t s)"
  unfolding requestDtmfStart_def using assms by (auto intro!: wps reports call_values)

lemma requestQueryCallWaiting_served:
  assumes "alive (modem s)" "gsm_state (sState s)" "b \<or> data_int dat 0 \<noteq> None"
  shows "wp b (requestQueryCallWaiting junk at_send dat t s) (served alive t s)"
  unfolding requestQueryCallWaiting_def using assms by (auto intro!: wps reports)

lemma requestSetCallWaiting_served:
  assumes "alive (modem s)" "gsm_state (sState s)" "b \<or> data_int dat 0 \<noteq> None \<and> data_int dat 1 \<noteq> None"
  shows "wp b (requestSetCallWaiting at_send dat len t s) (served alive t s)"
  unfolding requestSetCallWaiting_def using assms by (auto intro!: wps reports simp: served_def)

lemma requestQueryCallForwardStatus_served:
  assumes "alive (modem s)" "gsm_state (sState s)"
  shows "wp b (requestQueryCallForwardStatus at_send t s) (served alive t s)"
  unfolding requestQueryCallForwardStatus_def using assms
  by (auto intro!: wps parse_any simp: served_def at_error_numbers list_all_iff simp del: forward_lines.simps split: option.splits)

lemma requestSetCallForward_served:
  assumes "alive (modem s)" "gsm_state (sState s)" "b \<or> dat = DNull \<or> (\<exists>f. dat = DForward f)"
  shows "wp b (requestSetCallForward at_send dat t s) (served alive t s)"
  unfolding requestSetCallForward_def using assms by (auto intro!: wps reports simp: served_def split: ril_data.split)

lemma requestSetCLIR_served:
  assumes "alive (modem s)" "gsm_state (sState s)" "b \<or> data_int dat 0 \<noteq> None"
  shows "wp b (requestSetCLIR at_send dat t s) (served alive t s)"
  unfolding requestSetCLIR_def using assms by (auto intro!: wps simp: served_def)

lemma requestSendUSSD_served:
  assumes "alive (modem s)" "gsm_state (sState s)" "b \<or> ussd_fits dat"
  shows "wp b (requestSendUSSD at_send dat t s) (served alive t s)"
proof (cases b)
  case True
  then show ?thesis unfolding requestSendUSSD_def using assms(1,2) by (auto intro!: wps reports call_values)
next
  case False
  with assms(3) obtain p where p: "data_cstr dat = Some (Some p)" "\<forall>c \<in> set p. of_char c < (128 :: nat)"
    "sum_list (map gsm8_size (ussd_chars p)) \<le> length p + 1"
    by (auto simp: ussd_fits_def)
  let ?n = "sum_list (map gsm8_size (ussd_chars p))"
  have bytes: "str_bytes p @ [0] = [] @ map word_of_int (ussd_chars p) @ [0]"
    by (simp add: str_bytes_def ussd_chars_def o_def of_char_def)
  have chars: "\<forall>c \<in> set (ussd_chars p). 0 \<le> c \<and> c < 128" using p(2) by (auto simp: ussd_chars_def)
  have room: "0 + ?n \<le> length (replicate (length p + 1) 0 :: bytes)" using p(3) by (simp only: length_replicate add_0)
  have len: "length p = length (ussd_chars p)" "length p = 0 + length (ussd_chars p)" by (simp_all add: ussd_chars_def)
  obtain ys where y: "utf8_to_gsm8 (str_bytes p @ [0]) (length p) (Some (replicate (length p + 1) 0)) = Some (?n, Some ys)" "length ys = length p + 1"
    using utf8_to_gsm8_loop_ascii [OF bytes _ len chars room] unfolding utf8_to_gsm8_def by (auto simp only: list.size add_0 length_replicate)
  have "gsm_hex_from_bytes_loop ?n (blit (replicate (2 * ?n + 1) (CHR 0x00)) 0 []) ys 0 =
      Some (blit (replicate (2 * ?n + 1) (CHR 0x00)) 0 ([] @ hex_with gsm_digit (take ?n (drop 0 ys))))"
    by (rule gsm_hex_from_bytes_loop_blit) (use y(2) p(3) in simp_all)
  then obtain hex where hex: "gsm_hex_from_bytes (replicate (2 * ?n + 1) (CHR 0x00)) ys ?n = Some hex" "length hex = 2 * ?n + 1"
    using y(2) p(3) by (simp add: gsm_hex_from_bytes_def)
  show ?thesis unfolding requestSendUSSD_def using assms(1,2) p(1) y(1) hex by (auto intro!: wps reports call_values simp: wr_def)
qed

lemma requestChangeBarringPassword_served:
  assumes "alive (modem s)" "gsm_state (sState s)"
    "b \<or> data_str dat 0 \<noteq> None \<and> data_str dat 1 \<noteq> None \<and> data_str dat 2 \<noteq> None \<and> 3 * sizeof_ptr \<le> len"
  shows "wp b (requestChangeBarringPassword at_send dat len t s) (served alive t s)"
  unfolding requestChangeBarringPassword_def using assms by (auto intro!: wps reports)

lemma requestResetRadio_served:
  assumes "alive (modem s)" "gsm_state (sState s)"
  shows "wp b (requestResetRadio at_send t s) (served alive t s)"
  unfolding requestResetRadio_def ask_def complete_ok_def using assms by (auto intro!: wps simp: served_def)

lemma requestSetSuppSVCNotification_served:
  assumes "alive (modem s)" "gsm_state (sState s)" "b \<or> data_int dat 0 \<noteq> None"
  shows "wp b (requestSetSuppSVCNotification at_send dat t s) (served alive t s)"
  unfolding requestSetSuppSVCNotification_def using assms by (auto intro!: wps reports)

lemma requestSetLocationUpdates_served:
  assumes "alive (modem s)" "gsm_state (sState s)" "b \<or> data_int dat 0 \<noteq> None"
  shows "wp b (requestSetLocationUpdates at_send dat t s) (served alive t s)"
  unfolding requestSetLocationUpdates_def complete_ok_def using assms by (auto intro!: wps simp: served_def)

end

end
