(* ===== verification/Ril_Network.thy ===== *)
theory Ril_Network
  imports Ril_Call
begin

text \<open>
  The network, from \<open>huaweigeneric-ril.c\<close>: selecting an operator, listing the operators, the
  registration state, the signal, the radio power, and what identifies the phone.
\<close>

section \<open>Selecting the network\<close>

definition requestQueryNetworkSelectionMode :: "'m at_fun \<Rightarrow> nat \<Rightarrow> 'm ril \<Rightarrow> 'm ril option" where
  "requestQueryNetworkSelectionMode send = report send (at_single ''AT+COPS?'' ''+COPS:'')
     (\<lambda>line. pbind (tok_start line) (\<lambda>line. pbind (tok_int line) (\<lambda>(x, line). ret x)))
     (\<lambda>x. PInts [if x = 4 then 1 else x]) sizeof_int"

definition REPOLL_OPERATOR_SELECTED :: nat where "REPOLL_OPERATOR_SELECTED = 30"
definition TIMEVAL_OPERATOR_SELECT_POLL :: timespec where "TIMEVAL_OPERATOR_SELECT_POLL = Timespec 2 0"

definition pollOperatorSelected :: "'m at_fun \<Rightarrow> nat \<Rightarrow> nat \<Rightarrow> 'm ril \<Rightarrow> 'm ril option" where
  "pollOperatorSelected send t loopcount s =
    (if loopcount \<ge> REPOLL_OPERATOR_SELECTED then Some (RIL_onRequestComplete t RIL_E_GENERIC_FAILURE PNone 0 s)
     else do {
       (r, s1) \<leftarrow> query send (at_single ''AT+COPS?'' ''+COPS:'')
         (\<lambda>line. pbind (tok_start line) (\<lambda>line. pbind (tok_int line) (\<lambda>(x, line). ret (at_tok_hasmore line)))) s;
       Some (case r of
           None \<Rightarrow> RIL_onRequestComplete t RIL_E_GENERIC_FAILURE PNone 0 s1
         | Some False \<Rightarrow>
             if s_registrationDeniedReason s1 = IMSI_UNKNOWN_IN_HLR \<or> s_registrationDeniedReason s1 = ILLEGAL_ME
             then RIL_onRequestComplete t RIL_E_ILLEGAL_SIM_OR_ME PNone 0 s1
             else enqueue_event (PollOperatorSelected t (loopcount + 1)) (Some TIMEVAL_OPERATOR_SELECT_POLL) s1
         | Some True \<Rightarrow> RIL_onRequestComplete t RIL_E_SUCCESS PNone 0 s1)
     })"

text \<open>Whether the answer to \<open>+COPS\<close> makes the handler start a new scan at once.\<close>

definition cops_scan :: "string \<Rightarrow> bool parse" where
  "cops_scan line = pbind (tok_start line) (\<lambda>line. pbind (tok_int line) (\<lambda>(mode, line).
     if \<not> at_tok_hasmore line then ret (mode = 1)
     else pbind (tok_int line) (\<lambda>(skip, line).
       if \<not> at_tok_hasmore line then ret (mode = 1)
       else pbind (tok_str line) (\<lambda>(netOperator, line).
         if length netOperator = 0 then ret (mode = 1) else ret True))))"

text \<open>Whether scanning has stopped, from the answer to \<open>+CREG\<close> or \<open>+CGREG\<close>.\<close>

definition scan_stopped :: "string \<Rightarrow> bool parse" where
  "scan_stopped line = pbind (tok_start line) (\<lambda>line. pbind (tok_int line) (\<lambda>(mode, line).
     pbind (tok_int line) (\<lambda>(mode, line). ret (mode = 0))))"

definition finish_scan :: "nat \<Rightarrow> 'm ril \<Rightarrow> 'm ril" where
  "finish_scan t s = enqueue_event (PollOperatorSelected t 0) (Some TIMEVAL_OPERATOR_SELECT_POLL) s"

definition do_auto :: "'m at_fun \<Rightarrow> nat \<Rightarrow> 'm ril \<Rightarrow> 'm ril option" where
  "do_auto send t s = do {
     (err, s1) \<leftarrow> at_cmd1 send ''AT+COPS=0'' s;
     Some (if err \<noteq> AT_NOERROR then RIL_onRequestComplete t RIL_E_GENERIC_FAILURE PNone 0 s1 else finish_scan t s1)
   }"

definition requestSetNetworkSelectionAutomatic :: "'m at_fun \<Rightarrow> nat \<Rightarrow> 'm ril \<Rightarrow> 'm ril option" where
  "requestSetNetworkSelectionAutomatic send t s = do {
     (r, s1) \<leftarrow> query send (at_single ''AT+COPS=3,2;+COPS?'' ''+COPS:'') cops_scan s;
     case r of
       None \<Rightarrow> Some (RIL_onRequestComplete t RIL_E_GENERIC_FAILURE PNone 0 s1)
     | Some True \<Rightarrow> do_auto send t s1
     | Some False \<Rightarrow> do {
         (r, s2) \<leftarrow> query send (at_single ''AT+CREG?'' ''+CREG:'') scan_stopped s1;
         case r of
           None \<Rightarrow> Some (RIL_onRequestComplete t RIL_E_GENERIC_FAILURE PNone 0 s2)
         | Some True \<Rightarrow> do_auto send t s2
         | Some False \<Rightarrow> do {
             (r, s3) \<leftarrow> query send (at_single ''AT+CGREG?'' ''+CGREG:'') scan_stopped s2;
             case r of
               None \<Rightarrow> Some (RIL_onRequestComplete t RIL_E_GENERIC_FAILURE PNone 0 s3)
             | Some True \<Rightarrow> do_auto send t s3
             | Some False \<Rightarrow> Some (finish_scan t s3)
           }
       }
   }"

definition requestSetNetworkSelectionManual :: "'m at_fun \<Rightarrow> ril_data \<Rightarrow> nat \<Rightarrow> 'm ril \<Rightarrow> 'm ril option" where
  "requestSetNetworkSelectionManual send dat t s = do {
     mccMnc \<leftarrow> data_cstr dat;
     case mccMnc of
       None \<Rightarrow> Some (RIL_onRequestComplete t RIL_E_GENERIC_FAILURE PNone 0 s)
     | Some n \<Rightarrow> do {
         (err, s1) \<leftarrow> at_cmd1 send (''AT+COPS=1,2,'' @ quoted n) s;
         if err \<noteq> AT_NOERROR then ask send ''AT+COPS=0'' t s1
         else Some (RIL_onRequestComplete t RIL_E_SUCCESS PNone 0 s1)
       }
   }"

section \<open>The list of operators\<close>

definition statusTable :: "string list" where
  "statusTable = [''unknown'', ''available'', ''current'', ''forbidden'']"

definition network_entry :: "string \<Rightarrow> string option list parse" where
  "network_entry line = pbind (tok_int (Some line)) (\<lambda>(status, line). pbind (tok_str line) (\<lambda>(longAlphaNumeric, line).
     pbind (tok_str line) (\<lambda>(shortAlphaNumeric, line). pbind (tok_str line) (\<lambda>(numeric, line). do {
       st \<leftarrow> (if status < 0 then None else rd statusTable (nat status));
       ret [Some (if length longAlphaNumeric = 0 then numeric else longAlphaNumeric),
            Some (if length shortAlphaNumeric = 0 then numeric else shortAlphaNumeric), Some numeric, Some st] }))))"

fun networks_loop :: "nat \<Rightarrow> string \<Rightarrow> string option list parse" where
  "networks_loop 0 p = ret []"
| "networks_loop (Suc n) p = do {
     (line, remaining) \<leftarrow> getFirstElementValue p ''('' '')'' (Some []);
     case line of
       None \<Rightarrow> ret []
     | Some l \<Rightarrow> pbind (network_entry l) (\<lambda>e. do {
         p' \<leftarrow> remaining;
         pbind (networks_loop n p') (\<lambda>es. ret (e @ es)) })
   }"

text \<open>When the command fails the message that is logged follows the null pointer \<open>atResponse\<close>.\<close>

definition requestQueryAvailableNetworks :: "'m at_fun \<Rightarrow> nat \<Rightarrow> 'm ril \<Rightarrow> 'm ril option" where
  "requestQueryAvailableNetworks send t s = do {
     (err, atResponse, s1) \<leftarrow> at send (AtMulti ''AT+COPS=?'' ''+COPS:'') s;
     resp \<leftarrow> not_null atResponse;
     case p_intermediates resp of
       [] \<Rightarrow> Some (RIL_onRequestComplete t RIL_E_GENERIC_FAILURE PNone 0 s1)
     | p # _ \<Rightarrow>
         if err \<noteq> AT_NOERROR then Some (RIL_onRequestComplete t RIL_E_GENERIC_FAILURE PNone 0 s1)
         else do {
           let n = charcount p (CHR ''('');
           r \<leftarrow> networks_loop (if n < 2 then 0 else n - 2) p;
           Some (case r of
               Some es \<Rightarrow> RIL_onRequestComplete t RIL_E_SUCCESS (PStrings es) (length es * sizeof_ptr) s1
             | None \<Rightarrow> RIL_onRequestComplete t RIL_E_GENERIC_FAILURE PNone 0 s1)
         }
   }"

section \<open>The preferred network type\<close>

text \<open>The numbers of \<open>RIL_PreferredNetworkType\<close> in \<open>ril.h\<close>.\<close>

definition PREF_NET_TYPE_GSM_WCDMA :: int where "PREF_NET_TYPE_GSM_WCDMA = 0"
definition PREF_NET_TYPE_GSM_ONLY :: int where "PREF_NET_TYPE_GSM_ONLY = 1"
definition PREF_NET_TYPE_GSM_WCDMA_AUTO :: int where "PREF_NET_TYPE_GSM_WCDMA_AUTO = 3"

lemmas pref_net_types = PREF_NET_TYPE_GSM_WCDMA_def PREF_NET_TYPE_GSM_ONLY_def PREF_NET_TYPE_GSM_WCDMA_AUTO_def

definition syscfg_command :: "int \<Rightarrow> string" where
  "syscfg_command rat =
    (if rat = PREF_NET_TYPE_GSM_ONLY then ''AT^SYSCFG=13,1,3FFFFFFF,2,4''
     else if rat = PREF_NET_TYPE_GSM_WCDMA then ''AT^SYSCFG=14,2,3FFFFFFF,2,4''
     else ''AT^SYSCFG=2,2,3FFFFFFF,2,4'')"

definition requestSetPreferredNetworkType :: "'m at_fun \<Rightarrow> ril_data \<Rightarrow> nat \<Rightarrow> nat \<Rightarrow> 'm ril \<Rightarrow> 'm ril option" where
  "requestSetPreferredNetworkType send dat len t s = do {
     _ \<leftarrow> assert_len len sizeof_ptr;
     rat \<leftarrow> data_int dat 0;
     (err, s1) \<leftarrow> at_cmd1 send (syscfg_command rat) s;
     if err \<noteq> AT_NOERROR then Some (RIL_onRequestComplete t RIL_E_GENERIC_FAILURE PNone 0 s1)
     else do {
       (err, s2) \<leftarrow> at_cmd1 send ''AT+COPS=0'' s1;
       Some (if err \<noteq> AT_NOERROR then RIL_onRequestComplete t RIL_E_GENERIC_FAILURE PNone 0 s2
             else RIL_onRequestComplete t RIL_E_SUCCESS PNone sizeof_int s2)
     }
   }"

definition syscfg_type :: "string \<Rightarrow> int parse" where
  "syscfg_type line = pbind (tok_start line) (\<lambda>line. pbind (tok_int line) (\<lambda>(ret1, line).
     pbind (tok_int line) (\<lambda>(ret2, line).
       ret (if ret1 = 13 then PREF_NET_TYPE_GSM_ONLY else if ret1 = 14 then PREF_NET_TYPE_GSM_WCDMA
            else PREF_NET_TYPE_GSM_WCDMA_AUTO))))"

definition requestGetPreferredNetworkType :: "'m at_fun \<Rightarrow> nat \<Rightarrow> 'm ril \<Rightarrow> 'm ril option" where
  "requestGetPreferredNetworkType send = report send (at_single ''AT^SYSCFG?'' ''^SYSCFG:'') syscfg_type (\<lambda>x. PInts [x]) sizeof_int"

section \<open>The registration state\<close>

definition CGREG_STAT_REG_HOME_NET :: int where "CGREG_STAT_REG_HOME_NET = 1"
definition CGREG_STAT_ROAMING :: int where "CGREG_STAT_ROAMING = 5"

definition creg_fields :: "string \<Rightarrow> (int \<times> int \<times> int) parse" where
  "creg_fields line = pbind (tok_start line) (\<lambda>line.
     case at_tok_charcounter line (CHR '','') 0 of (err, commas) \<Rightarrow>
       if err < 0 then fail
       else if commas = 0 then pbind (tok_int line) (\<lambda>(x, line). ret (x, - 1, - 1))
       else if commas = 1 then pbind (tok_int line) (\<lambda>(skip, line). pbind (tok_int line) (\<lambda>(x, line). ret (x, - 1, - 1)))
       else if commas = 2 then pbind (tok_int line) (\<lambda>(x, line). pbind (tok_hex line) (\<lambda>(lac, line).
         pbind (tok_hex line) (\<lambda>(cid, line). ret (x, lac, cid))))
       else if commas = 3 \<or> commas = 4 then pbind (tok_int line) (\<lambda>(skip, line). pbind (tok_int line) (\<lambda>(x, line).
         pbind (tok_hex line) (\<lambda>(lac, line). pbind (tok_hex line) (\<lambda>(cid, line). ret (x, lac, cid)))))
       else fail)"

definition creg_strings :: "int \<times> int \<times> int \<Rightarrow> string option list" where
  "creg_strings r = (case r of (x, lac, cid) \<Rightarrow>
     [Some (dec_int x), if lac > 0 then Some (fmt_x 4 lac) else None, if cid > 0 then Some (fmt_x 8 cid) else None] @
     replicate 12 None)"

definition requestRegistrationState :: "'m at_fun \<Rightarrow> nat \<Rightarrow> 'm ril \<Rightarrow> 'm ril option" where
  "requestRegistrationState send = report send (at_single ''AT+CREG?'' ''+CREG:'') creg_fields
     (\<lambda>r. PStrings (creg_strings r)) (15 * sizeof_ptr)"

text \<open>Three commas: without the first number when the second field is in quotes.\<close>

definition cgreg_three :: "cursor \<Rightarrow> (int \<times> int \<times> int \<times> int) parse" where
  "cgreg_three line = pbind (tok_int line) (\<lambda>(tmp, line). do {
         l \<leftarrow> not_null line;
         if take 1 l = [dquote] then pbind (tok_hex line) (\<lambda>(lac, line). pbind (tok_hex line) (\<lambda>(cid, line).
           pbind (tok_int line) (\<lambda>(act, line). ret (tmp, lac, cid, act))))
         else pbind (tok_int line) (\<lambda>(x, line). pbind (tok_hex line) (\<lambda>(lac, line).
           pbind (tok_hex line) (\<lambda>(cid, line). ret (x, lac, cid, 0)))) })"

definition cgreg_fields :: "string \<Rightarrow> (int \<times> int \<times> int \<times> int) parse" where
  "cgreg_fields line = pbind (tok_start line) (\<lambda>line.
     case at_tok_charcounter line (CHR '','') 0 of (err, commas) \<Rightarrow>
       if err < 0 then fail
       else if commas = 0 then pbind (tok_int line) (\<lambda>(x, line). ret (x, - 1, - 1, 0))
       else if commas = 1 then pbind (tok_int line) (\<lambda>(skip, line). pbind (tok_int line) (\<lambda>(x, line). ret (x, - 1, - 1, 0)))
       else if commas = 2 then pbind (tok_int line) (\<lambda>(x, line). pbind (tok_hex line) (\<lambda>(lac, line).
         pbind (tok_hex line) (\<lambda>(cid, line). ret (x, lac, cid, 0))))
       else if commas = 3 then cgreg_three line
       else if commas = 4 then pbind (tok_int line) (\<lambda>(skip, line). pbind (tok_int line) (\<lambda>(x, line).
         pbind (tok_hex line) (\<lambda>(lac, line). pbind (tok_hex line) (\<lambda>(cid, line).
         pbind (tok_int line) (\<lambda>(act, line). ret (x, lac, cid, act))))))
       else fail)"

definition cgreg_strings :: "int \<times> int \<times> int \<times> int \<Rightarrow> string option list" where
  "cgreg_strings r = (case r of (x, lac, cid, act) \<Rightarrow>
     [Some (dec_int x), if lac \<ge> 0 then Some (fmt_x 4 lac) else None, if cid \<ge> 0 then Some (fmt_x 8 cid) else None,
      if x = CGREG_STAT_REG_HOME_NET \<or> x = CGREG_STAT_ROAMING then Some (dec_int act) else None, None, Some ''1''])"

definition requestGprsRegistrationState :: "'m at_fun \<Rightarrow> nat \<Rightarrow> 'm ril \<Rightarrow> 'm ril option" where
  "requestGprsRegistrationState send = report send (at_single ''AT+CGREG?'' ''+CGREG: '') cgreg_fields
     (\<lambda>r. PStrings (cgreg_strings r)) (6 * sizeof_ptr)"

definition cell_fields :: "string \<Rightarrow> (int \<times> int) parse" where
  "cell_fields line = pbind (tok_start line) (\<lambda>line. do {
     l \<leftarrow> not_null line;
     let commas = charcount l (CHR '','');
     if commas = 2 then pbind (tok_int line) (\<lambda>(skip, line). pbind (tok_hex line) (\<lambda>(lac, line).
       pbind (tok_hex line) (\<lambda>(cid, line). ret (lac, cid))))
     else if commas = 3 then pbind (tok_int line) (\<lambda>(skip, line). pbind (tok_int line) (\<lambda>(skip, line).
       pbind (tok_hex line) (\<lambda>(lac, line). pbind (tok_hex line) (\<lambda>(cid, line). ret (lac, cid)))))
     else if commas = 4 then pbind (tok_int line) (\<lambda>(skip, line). pbind (tok_int line) (\<lambda>(skip, line).
       pbind (tok_hex line) (\<lambda>(lac, line). pbind (tok_hex line) (\<lambda>(cid, line).
       pbind (tok_hex line) (\<lambda>(skip, line). ret (lac, cid))))))
     else fail })"

definition csq_fields :: "string \<Rightarrow> (int \<times> int) parse" where
  "csq_fields line = pbind (tok_start line) (\<lambda>line. pbind (tok_int line) (\<lambda>(rssi, line).
     pbind (tok_int line) (\<lambda>(ber, line). ret (rssi, ber))))"

definition requestNeighboringCellIds :: "'m at_fun \<Rightarrow> nat \<Rightarrow> 'm ril \<Rightarrow> 'm ril option" where
  "requestNeighboringCellIds send t s = do {
     (r, s1) \<leftarrow> query send (at_single ''AT+CREG?'' ''+CREG:'') cell_fields s;
     case r of
       None \<Rightarrow> Some (RIL_onRequestComplete t RIL_E_GENERIC_FAILURE PNone 0 s1)
     | Some (lac, cid) \<Rightarrow>
         report send (at_single ''AT+CSQ'' ''+CSQ:'') csq_fields
           (\<lambda>(rssi, ber). PCell (fmt_x 4 (lac mod 65536) @ fmt_x 4 (cid mod 65536)) rssi) sizeof_ptr t s1
   }"

section \<open>Signal and operator\<close>

definition gw_signal :: "int \<Rightarrow> int \<Rightarrow> RIL_SignalStrength" where
  "gw_signal rssi ber = \<lparr>GW_signalStrength = rssi, GW_bitErrorRate = ber, CDMA_dbm = 0, CDMA_ecio = 0, EVDO_dbm = 0,
     EVDO_ecio = 0, EVDO_signalNoiseRatio = 0, LTE_signalStrength = 0, LTE_rsrp = 0, LTE_rsrq = 0, LTE_rssnr = 0, LTE_cqi = 0\<rparr>"

definition sizeof_signal :: nat where "sizeof_signal = 48"

definition requestSignalStrength :: "'m at_fun \<Rightarrow> nat \<Rightarrow> 'm ril \<Rightarrow> 'm ril option" where
  "requestSignalStrength send = report send (at_single ''AT+CSQ'' ''+CSQ:'') csq_fields
     (\<lambda>(rssi, ber). PSignal (gw_signal rssi ber)) sizeof_signal"

definition operator_line :: "string \<Rightarrow> string option parse" where
  "operator_line line = pbind (tok_start line) (\<lambda>line. pbind (tok_int line) (\<lambda>(skip, line).
     if \<not> at_tok_hasmore line then ret None
     else pbind (tok_int line) (\<lambda>(skip, line).
       if \<not> at_tok_hasmore line then ret None
       else pbind (tok_str line) (\<lambda>(name, line). ret (Some name)))))"

text \<open>The loop over the lines; \<open>n\<close> is the number of entries still free.\<close>

fun operator_lines :: "nat \<Rightarrow> string list \<Rightarrow> string option list parse" where
  "operator_lines (Suc n) (l # ls) = pbind (operator_line l) (\<lambda>r. pbind (operator_lines n ls) (\<lambda>rs. ret (r # rs)))"
| "operator_lines n ls = ret []"

definition fill_name :: "string option \<Rightarrow> string option \<Rightarrow> string option" where
  "fill_name numeric name = (case (numeric, name) of
     (Some c, Some n) \<Rightarrow> if length n = 0 then Some c else Some n
   | _ \<Rightarrow> name)"

definition requestOperator :: "'m at_fun \<Rightarrow> nat \<Rightarrow> 'm ril \<Rightarrow> 'm ril option" where
  "requestOperator send t s = do {
     (err, atResponse, s1) \<leftarrow> at send (AtMulti ''AT+COPS=3,0;+COPS?;+COPS=3,1;+COPS?;+COPS=3,2;+COPS?'' ''+COPS:'') s;
     if err \<noteq> AT_NOERROR then Some (RIL_onRequestComplete t RIL_E_GENERIC_FAILURE PNone 0 s1)
     else do {
       resp \<leftarrow> not_null atResponse;
       r \<leftarrow> operator_lines 3 (p_intermediates resp);
       Some (case r of
           Some [x, y, z] \<Rightarrow> RIL_onRequestComplete t RIL_E_SUCCESS (PStrings [fill_name z x, fill_name z y, z]) (3 * sizeof_ptr) s1
         | _ \<Rightarrow> RIL_onRequestComplete t RIL_E_GENERIC_FAILURE PNone 0 s1)
     }
   }"

section \<open>The radio power\<close>

definition property_set_p :: "string option \<Rightarrow> bool" where
  "property_set_p v \<longleftrightarrow> (case v of Some (c # cs) \<Rightarrow> True | _ \<Rightarrow> False)"

definition power_done :: "nat \<Rightarrow> 'm ril \<Rightarrow> 'm ril" where
  "power_done t s = RIL_onUnsolicitedResponse RIL_UNSOL_RESTRICTED_STATE_CHANGED (PInts [0]) sizeof_ptr
     (RIL_onRequestComplete t RIL_E_SUCCESS PNone 0 s)"

definition requestRadioPower :: "'m at_fun \<Rightarrow> ril_data \<Rightarrow> nat \<Rightarrow> nat \<Rightarrow> 'm ril \<Rightarrow> 'm ril option" where
  "requestRadioPower send dat len t s =
    (if len < sizeof_ptr then Some (RIL_onRequestComplete t RIL_E_GENERIC_FAILURE PNone 0 s)
     else do {
       onOff \<leftarrow> data_int dat 0;
       if onOff = 0 \<and> getRadioState s \<noteq> RADIO_STATE_OFF then do {
         (err, s1) \<leftarrow> at_cmd1 send ''AT^RFSWITCH=0'' s;
         Some (if err \<noteq> AT_NOERROR then RIL_onRequestComplete t RIL_E_GENERIC_FAILURE PNone 0 s1
           else power_done t (setRadioState
             (if property_set_p (property_get ''sys.shutdown.requested'' s1) then RADIO_STATE_UNAVAILABLE else RADIO_STATE_OFF) s1))
       }
       else if onOff > 0 \<and> getRadioState s = RADIO_STATE_OFF then do {
         (err, s1) \<leftarrow> at_cmd1 send ''AT^RFSWITCH=1'' s;
         Some (if err \<noteq> AT_NOERROR then RIL_onRequestComplete t RIL_E_GENERIC_FAILURE PNone 0 s1
           else power_done t (setRadioState RADIO_STATE_SIM_NOT_READY s1))
       }
       else Some (power_done t s)
     })"

section \<open>Identification\<close>

definition requestGetIMSI :: "'m at_fun \<Rightarrow> nat \<Rightarrow> 'm ril \<Rightarrow> 'm ril option" where
  "requestGetIMSI send = report send (AtNumeric ''AT+CIMI'') ret PString sizeof_ptr"

definition requestGetIMEISV :: "nat \<Rightarrow> 'm ril \<Rightarrow> 'm ril option" where
  "requestGetIMEISV t s = Some (RIL_onRequestComplete t RIL_E_SUCCESS (PString ''01'') sizeof_ptr s)"

definition requestDeviceIdentity :: "'m at_fun \<Rightarrow> nat \<Rightarrow> 'm ril \<Rightarrow> 'm ril option" where
  "requestDeviceIdentity send = report send (AtNumeric ''AT+CGSN'') ret
     (\<lambda>l. PStrings [Some l, Some ''01'', Some [], Some []]) (4 * sizeof_ptr)"

definition requestBasebandVersion :: "'m at_fun \<Rightarrow> nat \<Rightarrow> 'm ril \<Rightarrow> 'm ril option" where
  "requestBasebandVersion send = report send (at_single ''AT+CGMR'' []) ret PString sizeof_ptr"

definition requestOEMHookRaw :: "ril_data \<Rightarrow> nat \<Rightarrow> nat \<Rightarrow> 'm ril \<Rightarrow> 'm ril option" where
  "requestOEMHookRaw dat len t s = Some (RIL_onRequestComplete t RIL_E_SUCCESS (PData dat) len s)"

definition requestOEMHookStrings :: "'m at_fun \<Rightarrow> ril_data \<Rightarrow> nat \<Rightarrow> 'm ril \<Rightarrow> 'm ril option" where
  "requestOEMHookStrings send dat t s = do {
     p \<leftarrow> data_str dat 0;
     cmd \<leftarrow> not_null p;
     (err, atResponse, s1) \<leftarrow> at send (AtRaw cmd) s;
     Some (case atResponse of
         None \<Rightarrow> RIL_onRequestComplete t RIL_E_GENERIC_FAILURE PNone 0 s1
       | Some resp \<Rightarrow>
           if err \<noteq> AT_NOERROR \<and> at_get_error_type err = AT_ERROR then RIL_onRequestComplete t RIL_E_GENERIC_FAILURE PNone 0 s1
           else (case finalResponse resp of
               None \<Rightarrow> RIL_onRequestComplete t RIL_E_GENERIC_FAILURE PNone 0 s1
             | Some f \<Rightarrow> RIL_onRequestComplete t RIL_E_SUCCESS (PStrings (map Some (p_intermediates resp @ [f])))
                 ((length (p_intermediates resp) + 1) * sizeof_ptr) s1))
   }"

section \<open>What the handlers leave alone\<close>

lemma cops_scan_parses [wps]: "b \<or> tame l \<Longrightarrow> parses b (cops_scan l) (\<lambda>_. True)"
  unfolding cops_scan_def by (auto intro!: wps)

lemma scan_stopped_parses [wps]: "b \<or> tame l \<Longrightarrow> parses b (scan_stopped l) (\<lambda>_. True)"
  unfolding scan_stopped_def by (auto intro!: wps)

lemma syscfg_type_parses [wps]: "b \<or> tame l \<Longrightarrow> parses b (syscfg_type l) (\<lambda>_. True)"
  unfolding syscfg_type_def by (auto intro!: wps)

lemma creg_fields_parses [wps]: "b \<or> tame l \<Longrightarrow> parses b (creg_fields l) (\<lambda>_. True)"
  unfolding creg_fields_def at_tok_charcounter_def by (auto intro!: wps)

lemma parses_do [wps]: "wp b m (\<lambda>x. parses b (f x) Q) \<Longrightarrow> parses b (Option.bind m f) Q"
  by (cases m) (auto simp: parses_def)

lemma cgreg_three_parses [wps]:
  "csafe b (Some s) \<Longrightarrow> CHR '','' \<in> set s \<Longrightarrow> parses b (cgreg_three (Some s)) (\<lambda>_. True)"
  unfolding cgreg_three_def by (rule parses_bind, rule int_parses_comma) (auto intro!: wps)

lemma cgreg_fields_parses [wps]:
  assumes "b \<or> tame l" shows "parses b (cgreg_fields l) (\<lambda>_. True)"
proof -
  have "CHR '','' \<in> set s" if "int32 (int (charcount s (CHR '',''))) = 3" for s
    using that charcount_mem [of s "CHR '',''"] by (auto simp: int32_def intro!: gr0I)
  then show ?thesis unfolding cgreg_fields_def at_tok_charcounter_def using assms by (auto intro!: wps)
qed

lemma cell_fields_parses [wps]: "b \<or> tame l \<Longrightarrow> parses b (cell_fields l) (\<lambda>_. True)"
  unfolding cell_fields_def Let_def by (auto intro!: wps)

lemma csq_fields_parses [wps]: "b \<or> tame l \<Longrightarrow> parses b (csq_fields l) (\<lambda>_. True)"
  unfolding csq_fields_def by (auto intro!: wps)

lemma operator_line_parses [wps]: "b \<or> tame l \<Longrightarrow> (\<And>x. Q x) \<Longrightarrow> parses b (operator_line l) Q"
  unfolding operator_line_def by (auto intro!: wps)

lemma operator_lines_parses [wps]: "b \<or> list_all tame ls \<Longrightarrow> (\<And>x. Q x) \<Longrightarrow> parses b (operator_lines n ls) Q"
  by (induction n ls arbitrary: Q rule: operator_lines.induct) (auto intro!: wps)

context at_channel
begin

lemma requestQueryNetworkSelectionMode_served:
  assumes "alive (modem s)" "gsm_state (sState s)"
  shows "wp b (requestQueryNetworkSelectionMode at_send t s) (served alive t s)"
  unfolding requestQueryNetworkSelectionMode_def using assms by (auto intro!: wps reports)

lemma pollOperatorSelected_served:
  assumes "alive (modem s)" "gsm_state (sState s)"
  shows "wp b (pollOperatorSelected at_send t n s) (served alive t s)"
  unfolding pollOperatorSelected_def using assms by (auto intro!: wps simp: served_def split: option.split bool.split)

lemma do_auto_served:
  assumes "alive (modem s)" "gsm_state (sState s)" "\<And>s'. served alive t s s' \<Longrightarrow> Q s'"
  shows "wp b (do_auto at_send t s) Q"
  unfolding do_auto_def finish_scan_def using assms by (auto intro!: wps simp: served_def)

text \<open>One of the three questions, whether a new scan can start.\<close>

lemma scan_question:
  assumes "alive (modem s)" "gsm_state (sState s)" "answered s = answered s0" "sim_polled s0 \<longrightarrow> sim_polled s" "\<And>l. tame l \<Longrightarrow> parses b (f l) (\<lambda>_. True)"
    "\<And>m. alive m \<Longrightarrow> wp b (k (s\<lparr>modem := m\<rparr>)) (served alive t s0)"
  shows "wp b (do { (r, s1) \<leftarrow> query at_send (at_single c p) f s;
     case r of None \<Rightarrow> Some (RIL_onRequestComplete t RIL_E_GENERIC_FAILURE PNone 0 s1)
     | Some True \<Rightarrow> do_auto at_send t s1 | Some False \<Rightarrow> k s1 }) (served alive t s0)"
proof (intro wp_bind single_wp wp_prod)
  show "wp b (case r of None \<Rightarrow> Some (RIL_onRequestComplete t RIL_E_GENERIC_FAILURE PNone 0 s1)
     | Some True \<Rightarrow> do_auto at_send t s1 | Some False \<Rightarrow> k s1) (served alive t s0)"
    if "alive m" "(r', s\<lparr>modem := m\<rparr>) = (r, s1)" for r r' :: "bool option" and m s1
    using that assms do_auto_served [of s1 t "served alive t s0" b]
    by (cases r) (auto simp: served_def split: bool.split)
qed (use assms in auto)

lemma requestSetNetworkSelectionAutomatic_served:
  assumes "alive (modem s)" "gsm_state (sState s)"
  shows "wp b (requestSetNetworkSelectionAutomatic at_send t s) (served alive t s)"
  unfolding requestSetNetworkSelectionAutomatic_def
  using assms by (intro scan_question cops_scan_parses scan_stopped_parses) (simp_all add: finish_scan_def served_def)

lemma requestSetNetworkSelectionManual_served:
  assumes "alive (modem s)" "gsm_state (sState s)" "b \<or> data_cstr dat \<noteq> None"
  shows "wp b (requestSetNetworkSelectionManual at_send dat t s) (served alive t s)"
  unfolding requestSetNetworkSelectionManual_def ask_def complete_ok_def using assms
  by (auto intro!: wps call_values simp: served_def)

lemma requestQueryAvailableNetworks_served:
  assumes "alive (modem s)" "gsm_state (sState s)"
  shows "wp True (requestQueryAvailableNetworks at_send t s) (served alive t s)"
proof -
  have p: "parses True m (\<lambda>_. True)" for m :: "'x parse"
    by (cases m) (auto simp: parses_def split: option.split)
  show ?thesis unfolding requestQueryAvailableNetworks_def Let_def using assms
    by (auto intro!: wps parse_any p simp: served_def split: list.split option.split)
qed

lemma requestSetPreferredNetworkType_served:
  assumes "alive (modem s)" "gsm_state (sState s)" "b \<or> data_int dat 0 \<noteq> None \<and> sizeof_ptr \<le> len"
  shows "wp b (requestSetPreferredNetworkType at_send dat len t s) (served alive t s)"
  unfolding requestSetPreferredNetworkType_def using assms by (auto intro!: wps simp: served_def)

lemma network_queries_served:
  assumes "alive (modem s)" "gsm_state (sState s)"
  shows "wp b (requestGetPreferredNetworkType at_send t s) (served alive t s)"
    "wp b (requestRegistrationState at_send t s) (served alive t s)"
    "wp b (requestGprsRegistrationState at_send t s) (served alive t s)"
    "wp b (requestSignalStrength at_send t s) (served alive t s)"
    "wp b (requestGetIMSI at_send t s) (served alive t s)"
    "wp b (requestGetIMEISV t s) (served alive t s)"
    "wp b (requestDeviceIdentity at_send t s) (served alive t s)"
    "wp b (requestBasebandVersion at_send t s) (served alive t s)"
    "wp b (requestOEMHookRaw dat len t s) (served alive t s)"
  unfolding requestGetPreferredNetworkType_def requestRegistrationState_def requestGprsRegistrationState_def
    requestSignalStrength_def requestGetIMSI_def requestGetIMEISV_def requestDeviceIdentity_def
    requestBasebandVersion_def requestOEMHookRaw_def
  using assms by (auto intro!: wps reports simp: served_def)

lemma requestNeighboringCellIds_served:
  assumes "alive (modem s)" "gsm_state (sState s)"
  shows "wp b (requestNeighboringCellIds at_send t s) (served alive t s)"
  unfolding requestNeighboringCellIds_def report_def using assms
  by (auto intro!: wps simp: served_def split: option.split)

lemma requestOperator_served:
  assumes "alive (modem s)" "gsm_state (sState s)"
  shows "wp b (requestOperator at_send t s) (served alive t s)"
  unfolding requestOperator_def using assms
  by (auto intro!: wps parse_any simp: served_def at_error_numbers list_all_iff simp del: operator_lines.simps
      split: option.splits list.split)

lemma requestRadioPower_served:
  assumes "alive (modem s)" "gsm_state (sState s)" "b \<or> data_int dat 0 \<noteq> None"
  shows "wp b (requestRadioPower at_send dat len t s) (served alive t s)"
  unfolding requestRadioPower_def power_done_def using assms by (auto intro!: wps simp: served_def split: if_splits)

lemma requestOEMHookStrings_served:
  assumes "alive (modem s)" "gsm_state (sState s)" "b \<or> (\<exists>c. data_str dat 0 = Some (Some c))"
  shows "wp b (requestOEMHookStrings at_send dat t s) (served alive t s)"
  unfolding requestOEMHookStrings_def using assms by (auto intro!: wps simp: served_def split: option.split)

end

end
