(* ===== verification/Ril_Data.thy ===== *)
theory Ril_Data
  imports Ril_Network
begin

text \<open>
  The packet data connection, from \<open>huaweigeneric-ril.c\<close>: the notifications that follow the screen,
  starting and stopping \<open>pppd\<close>, and the list of connections.
\<close>

section \<open>The screen\<close>

text \<open>Commands up to the first error.\<close>

fun at_until :: "'m at_fun \<Rightarrow> string list \<Rightarrow> 'm ril \<Rightarrow> (bool \<times> 'm ril) option" where
  "at_until send [] s = Some (True, s)"
| "at_until send (c # cs) s = do {
     (err, s1) \<leftarrow> at_cmd1 send c s;
     if err \<noteq> AT_NOERROR then Some (False, s1) else at_until send cs s1
   }"

definition requestScreenState :: "'m at_fun \<Rightarrow> ril_data \<Rightarrow> nat \<Rightarrow> nat \<Rightarrow> 'm ril \<Rightarrow> 'm ril option" where
  "requestScreenState send dat len t s = do {
     _ \<leftarrow> assert_len len sizeof_ptr;
     screenState \<leftarrow> data_int dat 0;
     (ok, s1) \<leftarrow>
       (if screenState = 1 then at_until send [''AT+CREG=2'', ''AT+CGREG=2'', ''AT^CURC=1'', ''AT+CGEREP=1,0''] s
        else if screenState = 0 then at_until send [''AT+CREG=0'', ''AT+CGREG=0'', ''AT^CURC=0'', ''AT+CGEREP=0,0''] s
        else Some (False, s));
     Some (if ok then RIL_onRequestComplete t RIL_E_SUCCESS PNone 0 s1
           else RIL_onRequestComplete t RIL_E_GENERIC_FAILURE PNone 0 s1)
   }"

section \<open>Waiting for the system\<close>

text \<open>The naps of \<open>wait_for_property\<close>, one second each.\<close>

fun property_naps :: "string \<Rightarrow> string option \<Rightarrow> nat \<Rightarrow> 'm ril \<Rightarrow> int \<times> 'm ril" where
  "property_naps name desired 0 s = (- 1, s)"
| "property_naps name desired (Suc n) s =
    (let s1 = sleep 1 s in
     if property_set_p (property_get name s1) \<and> (desired = None \<or> desired = property_get name s1) then (0, s1)
     else property_naps name desired n s1)"

definition wait_for_property :: "string \<Rightarrow> string option \<Rightarrow> nat \<Rightarrow> 'm ril \<Rightarrow> int \<times> 'm ril" where
  "wait_for_property name desired maxwait s = property_naps name desired (if maxwait < 1 then 1 else maxwait) s"

text \<open>The text \<open>property_get\<close> leaves in its buffer when there is no default.\<close>

definition property_text :: "string \<Rightarrow> 'm ril \<Rightarrow> string" where
  "property_text name s = (case property_get name s of Some v \<Rightarrow> v | None \<Rightarrow> [])"

text \<open>The loop of \<open>killConn\<close>: whether the interface \<open>ppp0\<close> has gone.\<close>

function kill_pppd :: "nat \<Rightarrow> 'm ril \<Rightarrow> bool \<times> 'm ril" where
  "kill_pppd i s =
    (if ppp0_at (env s) (clock s) then
       (let s1 = (if i mod 5 = 0 then emit (System ''killall pppd'') s else s) in
        if i > 25 then (False, s1) else kill_pppd (i + 1) (sleep 2 s1))
     else (True, s))"
  by pat_completeness auto

termination kill_pppd
  by (relation "measure (\<lambda>(i, s). 26 - i)") auto

declare kill_pppd.simps [simp del]

definition killConn :: "'m at_fun \<Rightarrow> string option \<Rightarrow> 'm ril \<Rightarrow> (int \<times> 'm ril) option" where
  "killConn send cid s =
    (let k = kill_pppd 0 s in
     if \<not> fst k then Some (- 1, snd k)
     else do {
       (err, s2) \<leftarrow> at_cmd1 send (''AT+CGACT=0,'' @ fmt_s cid) (snd k);
       if err \<noteq> AT_NOERROR then Some (- 1, s2)
       else do { (err, s3) \<leftarrow> at_cmd1 send ''ATH'' s2; Some (0, s3) }
     })"

section \<open>Starting and stopping a connection\<close>

definition PPP_TTY_PATH :: string where "PPP_TTY_PATH = ''ppp0''"

abbreviation (input) sizeof_data_call :: nat where "sizeof_data_call \<equiv> 36"

definition USERPASS_SIZE :: nat where "USERPASS_SIZE = 512"

definition or_dummy :: "string option \<Rightarrow> string" where
  "or_dummy u = (case u of Some v \<Rightarrow> if length v < 2 then ''dummy'' else v | None \<Rightarrow> ''dummy'')"

definition pppd_command :: string where
  "pppd_command = ''/system/bin/pppd /dev/ttyUSB0 115200 nocrtscts usepeerdns debug ipcp-accept-local ipcp-accept-remote defaultroute''"

text \<open>The text of user and password is written into \<open>userpass\<close>, which is not used afterwards.\<close>

definition requestSetupDefaultPDP :: "'m at_fun \<Rightarrow> ril_data \<Rightarrow> nat \<Rightarrow> 'm ril \<Rightarrow> 'm ril option" where
  "requestSetupDefaultPDP send dat t s = do {
     apn \<leftarrow> data_str dat 2;
     user \<leftarrow> data_str dat 3;
     pass \<leftarrow> data_str dat 4;
     (r, s1) \<leftarrow> killConn send (Some ''1'') s;
     if r < 0 then Some (RIL_onRequestComplete t RIL_E_GENERIC_FAILURE PNone 0 s1)
     else do {
       s2 \<leftarrow> at_all send [''AT+CGDCONT=1,'' @ quoted ''IP'' @ '','' @ quoted (fmt_s apn) @ '',,0,0'',
         ''AT+CGQREQ=1'', ''AT+CGQMIN=1'', ''AT+CGEREP=1,0'', ''AT+CGACT=0,1''] s1;
       (err, s3) \<leftarrow> at_cmd1 send ''ATD*99***1#'' s2;
       if err \<noteq> AT_NOERROR then Some (RIL_onRequestComplete t RIL_E_GENERIC_FAILURE PNone 0 s3)
       else do {
         userpass \<leftarrow> str_into (replicate USERPASS_SIZE (CHR 0x00)) (or_dummy user @ '' * '' @ or_dummy pass);
         let w = wait_for_property ''net.ppp0.local-ip'' None 10 (sleep 2 (emit (System pppd_command) (sleep 2 s3)));
         let s4 = snd w;
         Some (if fst w < 0 then RIL_onRequestComplete t RIL_E_GENERIC_FAILURE PNone 0 s4
           else RIL_onRequestComplete t RIL_E_SUCCESS
             (PDataCalls [\<lparr>dc_status = 0, dc_suggestedRetryTime = - 1, dc_cid = 1, dc_active = 2, dc_type = ''PPP'',
                dc_ifname = PPP_TTY_PATH, dc_addresses = property_text ''net.ppp0.local-ip'' s4,
                dc_dnses = property_text ''net.ppp0.dns1'' s4 @ '' '' @ property_text ''net.ppp0.dns2'' s4,
                dc_gateways = property_text ''net.ppp0.gw'' s4\<rparr>]) sizeof_data_call s4)
       }
     }
   }"

definition requestDeactivateDefaultPDP :: "'m at_fun \<Rightarrow> ril_data \<Rightarrow> nat \<Rightarrow> 'm ril \<Rightarrow> 'm ril option" where
  "requestDeactivateDefaultPDP send dat t s = do {
     cid \<leftarrow> data_str dat 0;
     (r, s1) \<leftarrow> killConn send cid s;
     Some (if r < 0 then RIL_onRequestComplete t RIL_E_GENERIC_FAILURE PNone 0 s1
           else RIL_onRequestComplete t RIL_E_SUCCESS PNone 0 s1)
   }"

text \<open>The number is that of \<open>ril.h\<close>; the variable is never assigned.\<close>

definition PDP_FAIL_ERROR_UNSPECIFIED :: int where "PDP_FAIL_ERROR_UNSPECIFIED = 0xffff"

definition requestLastPDPFailCause :: "nat \<Rightarrow> 'm ril \<Rightarrow> 'm ril option" where
  "requestLastPDPFailCause t s = Some (RIL_onRequestComplete t RIL_E_SUCCESS (PInts [PDP_FAIL_ERROR_UNSPECIFIED]) sizeof_int s)"

section \<open>The list of connections\<close>

definition no_data_call :: RIL_Data_Call_Response where
  "no_data_call = \<lparr>dc_status = - 1, dc_suggestedRetryTime = - 1, dc_cid = - 1, dc_active = - 1, dc_type = [],
     dc_ifname = PPP_TTY_PATH, dc_addresses = [], dc_dnses = [], dc_gateways = []\<rparr>"

definition cgact_line :: "string \<Rightarrow> RIL_Data_Call_Response parse" where
  "cgact_line line = pbind (tok_start line) (\<lambda>line. pbind (tok_int line) (\<lambda>(cid, line).
     pbind (tok_int line) (\<lambda>(active, line). ret (no_data_call\<lparr>dc_cid := cid, dc_active := active\<rparr>))))"

fun cgact_lines :: "string list \<Rightarrow> RIL_Data_Call_Response list parse" where
  "cgact_lines [] = ret []"
| "cgact_lines (l # ls) = pbind (cgact_line l) (\<lambda>r. pbind (cgact_lines ls) (\<lambda>rs. ret (r # rs)))"

text \<open>The first response with a cid, the number of responses when there is none.\<close>

fun find_cid :: "int \<Rightarrow> RIL_Data_Call_Response list \<Rightarrow> nat" where
  "find_cid cid [] = 0"
| "find_cid cid (r # rs) = (if dc_cid r = cid then 0 else Suc (find_cid cid rs))"

definition cgdcont_line :: "string \<Rightarrow> RIL_Data_Call_Response list \<Rightarrow> RIL_Data_Call_Response list parse" where
  "cgdcont_line line rs = pbind (tok_start line) (\<lambda>line. pbind (tok_int line) (\<lambda>(cid, line).
     let i = find_cid cid rs in
     if i \<ge> length rs then ret rs
     else pbind (tok_str line) (\<lambda>(ty, line). pbind (tok_str line) (\<lambda>(apn, line). pbind (tok_str line) (\<lambda>(addr, line).
       ret (rs[i := (rs ! i)\<lparr>dc_status := 0, dc_type := ty, dc_ifname := PPP_TTY_PATH, dc_addresses := addr\<rparr>]))))))"

fun cgdcont_lines :: "string list \<Rightarrow> RIL_Data_Call_Response list \<Rightarrow> RIL_Data_Call_Response list parse" where
  "cgdcont_lines [] rs = ret rs"
| "cgdcont_lines (l # ls) rs = pbind (cgdcont_line l rs) (cgdcont_lines ls)"

text \<open>With a request the list is its response, without one it is sent unasked.\<close>

definition pdp_error :: "nat option \<Rightarrow> 'm ril \<Rightarrow> 'm ril" where
  "pdp_error t = (case t of Some u \<Rightarrow> RIL_onRequestComplete u RIL_E_GENERIC_FAILURE PNone 0
     | None \<Rightarrow> RIL_onUnsolicitedResponse RIL_UNSOL_DATA_CALL_LIST_CHANGED PNone 0)"

definition pdp_list :: "nat option \<Rightarrow> RIL_Data_Call_Response list \<Rightarrow> 'm ril \<Rightarrow> 'm ril" where
  "pdp_list t rs = (let n = length rs * sizeof_data_call in
     case t of Some u \<Rightarrow> RIL_onRequestComplete u RIL_E_SUCCESS (PDataCalls rs) n
     | None \<Rightarrow> RIL_onUnsolicitedResponse RIL_UNSOL_DATA_CALL_LIST_CHANGED (PDataCalls rs) n)"

definition requestOrSendPDPContextList :: "'m at_fun \<Rightarrow> nat option \<Rightarrow> 'm ril \<Rightarrow> 'm ril option" where
  "requestOrSendPDPContextList send t s = do {
     (err, atResponse, s1) \<leftarrow> at send (AtMulti ''AT+CGACT?'' ''+CGACT:'') s;
     if err \<noteq> AT_NOERROR then Some (pdp_error t s1)
     else do {
       resp \<leftarrow> not_null atResponse;
       r \<leftarrow> cgact_lines (p_intermediates resp);
       case r of
         None \<Rightarrow> Some (pdp_error t s1)
       | Some rs \<Rightarrow> do {
           (err, atResponse, s2) \<leftarrow> at send (AtMulti ''AT+CGDCONT?'' ''+CGDCONT:'') s1;
           if err \<noteq> AT_NOERROR then Some (pdp_error t s2)
           else do {
             resp \<leftarrow> not_null atResponse;
             r \<leftarrow> cgdcont_lines (p_intermediates resp) rs;
             Some (case r of None \<Rightarrow> pdp_error t s2 | Some rs' \<Rightarrow> pdp_list t rs' s2)
           }
         }
     }
   }"

definition requestPDPContextList :: "'m at_fun \<Rightarrow> nat \<Rightarrow> 'm ril \<Rightarrow> 'm ril option" where
  "requestPDPContextList send t = requestOrSendPDPContextList send (Some t)"

definition onDataCallListChanged :: "'m at_fun \<Rightarrow> 'm ril \<Rightarrow> 'm ril option" where
  "onDataCallListChanged send = requestOrSendPDPContextList send None"

section \<open>What the handlers leave alone\<close>

lemma property_naps_fields [simp]:
  "modem (snd (property_naps name d n s)) = modem s" "sState (snd (property_naps name d n s)) = sState s"
  "answered (snd (property_naps name d n s)) = answered s" "sim_polled (snd (property_naps name d n s)) = sim_polled s" "env (snd (property_naps name d n s)) = env s"
  "clock (snd (property_naps name d n s)) \<le> clock s + n"
  by (induction name d n s rule: property_naps.induct) (auto simp: Let_def)

lemma wait_for_property_fields [simp]:
  "modem (snd (wait_for_property name d n s)) = modem s" "sState (snd (wait_for_property name d n s)) = sState s"
  "answered (snd (wait_for_property name d n s)) = answered s" "sim_polled (snd (wait_for_property name d n s)) = sim_polled s"
  by (simp_all add: wait_for_property_def)

lemma kill_pppd_fields [simp]:
  "modem (snd (kill_pppd i s)) = modem s" "sState (snd (kill_pppd i s)) = sState s"
  "answered (snd (kill_pppd i s)) = answered s" "sim_polled (snd (kill_pppd i s)) = sim_polled s" "env (snd (kill_pppd i s)) = env s"
proof (induction i s rule: kill_pppd.induct)
  case (1 i s)
  { case 1 then show ?case using "1.IH" by (subst kill_pppd.simps) (simp add: Let_def) }
  { case 2 then show ?case using "1.IH" by (subst kill_pppd.simps) (simp add: Let_def) }
  { case 3 then show ?case using "1.IH" by (subst kill_pppd.simps) (simp add: Let_def) }
  { case 5 then show ?case using "1.IH" by (subst kill_pppd.simps) (simp add: Let_def) }
  { case 4 then show ?case using "1.IH" by (subst kill_pppd.simps) (simp add: Let_def) }
qed

lemma str_into_wp [wps]:
  "b \<or> length t < length buf \<Longrightarrow> (\<And>x. Q x) \<Longrightarrow> wp b (str_into buf t) Q"
  by (auto simp: str_into_def)

lemma cgact_line_parses [wps]: "b \<or> tame l \<Longrightarrow> (\<And>x. Q x) \<Longrightarrow> parses b (cgact_line l) Q"
  unfolding cgact_line_def by (auto intro!: wps)

lemma cgact_lines_parses [wps]: "b \<or> list_all tame ls \<Longrightarrow> (\<And>x. Q x) \<Longrightarrow> parses b (cgact_lines ls) Q"
  by (induction ls arbitrary: Q) (auto intro!: wps)

lemma cgdcont_line_parses [wps]: "b \<or> tame l \<Longrightarrow> (\<And>x. Q x) \<Longrightarrow> parses b (cgdcont_line l rs) Q"
  unfolding cgdcont_line_def Let_def by (auto intro!: wps)

lemma cgdcont_lines_parses [wps]: "b \<or> list_all tame ls \<Longrightarrow> (\<And>x. Q x) \<Longrightarrow> parses b (cgdcont_lines ls rs) Q"
  by (induction ls arbitrary: rs) (auto intro!: wps)

text \<open>The text of user and password fits into its buffer.\<close>

definition userpass_fits :: "ril_data \<Rightarrow> bool" where
  "userpass_fits dat = (case (data_str dat 2, data_str dat 3, data_str dat 4) of
     (Some apn, Some user, Some pass) \<Rightarrow> length (or_dummy user) + length (or_dummy pass) < 509 | _ \<Rightarrow> False)"

context at_channel
begin

lemma at_until_wp [wps]:
  assumes "alive (modem s)" "\<And>ok m. alive m \<Longrightarrow> Q (ok, s\<lparr>modem := m\<rparr>)"
  shows "wp b (at_until at_send cs s) Q"
  using assms
proof (induction cs arbitrary: s)
  case Nil
  then show ?case using Nil(2) [of "modem s"] by simp
next
  case (Cons c cs)
  then show ?case by (auto intro!: wps Cons.IH)
qed

lemma killConn_wp [wps]:
  assumes "alive (modem s)"
    "\<And>r s'. alive (modem s') \<Longrightarrow> sState s' = sState s \<Longrightarrow> answered s' = answered s \<Longrightarrow> (sim_polled s \<Longrightarrow> sim_polled s') \<Longrightarrow> Q (r, s')"
  shows "wp b (killConn at_send cid s) Q"
  unfolding killConn_def Let_def using assms by (auto intro!: wps)

lemma requestScreenState_served:
  assumes "alive (modem s)" "gsm_state (sState s)" "b \<or> data_int dat 0 \<noteq> None \<and> sizeof_ptr \<le> len"
  shows "wp b (requestScreenState at_send dat len t s) (served alive t s)"
  unfolding requestScreenState_def using assms
  by (auto intro!: wps simp: served_def simp del: at_until.simps)

lemma requestSetupDefaultPDP_served:
  assumes "alive (modem s)" "gsm_state (sState s)" "b \<or> userpass_fits dat"
  shows "wp b (requestSetupDefaultPDP at_send dat t s) (served alive t s)"
  unfolding requestSetupDefaultPDP_def Let_def using assms
  by (auto intro!: wps simp: served_def userpass_fits_def USERPASS_SIZE_def simp del: at_all.simps split: option.splits)

lemma requestDeactivateDefaultPDP_served:
  assumes "alive (modem s)" "gsm_state (sState s)" "b \<or> data_str dat 0 \<noteq> None"
  shows "wp b (requestDeactivateDefaultPDP at_send dat t s) (served alive t s)"
  unfolding requestDeactivateDefaultPDP_def using assms by (auto intro!: wps simp: served_def)

lemma requestLastPDPFailCause_served:
  assumes "alive (modem s)" "gsm_state (sState s)"
  shows "wp b (requestLastPDPFailCause t s) (served alive t s)"
  using assms by (simp add: requestLastPDPFailCause_def served_def)

lemma pdp_context_list_wp:
  assumes "alive (modem s)"
    "\<And>s'. alive (modem s') \<Longrightarrow> sState s' = sState s \<Longrightarrow> answered s' = answered s + (case t of Some u \<Rightarrow> {#u#} | None \<Rightarrow> {#}) \<Longrightarrow> (sim_polled s \<Longrightarrow> sim_polled s') \<Longrightarrow> Q s'"
  shows "wp b (requestOrSendPDPContextList at_send t s) Q"
  unfolding requestOrSendPDPContextList_def pdp_error_def pdp_list_def Let_def using assms
  by (auto intro!: wps parse_any simp: at_error_numbers list_all_iff
      simp del: cgact_lines.simps cgdcont_lines.simps split: option.splits)

lemma requestPDPContextList_served:
  assumes "alive (modem s)" "gsm_state (sState s)"
  shows "wp b (requestPDPContextList at_send t s) (served alive t s)"
  unfolding requestPDPContextList_def by (rule pdp_context_list_wp) (use assms in \<open>simp_all add: served_def\<close>)

lemma onDataCallListChanged_wp [wps]:
  assumes "alive (modem s)"
    "\<And>s'. alive (modem s') \<Longrightarrow> sState s' = sState s \<Longrightarrow> answered s' = answered s \<Longrightarrow> (sim_polled s \<Longrightarrow> sim_polled s') \<Longrightarrow> Q s'"
  shows "wp b (onDataCallListChanged at_send s) Q"
  unfolding onDataCallListChanged_def by (rule pdp_context_list_wp) (use assms in simp_all)

end

section \<open>The list of connections, as the join of two answers\<close>

text \<open>The lines as a modem prints them, and what the library should get: a response for each context,
  with the details of that context.\<close>

definition cgact_text :: "int \<times> int \<Rightarrow> string" where
  "cgact_text x = (case x of (cid, active) \<Rightarrow> ''+CGACT: '' @ dec_int cid @ '','' @ dec_int active)"

definition cgdcont_text :: "int \<times> string \<times> string \<times> string \<Rightarrow> string" where
  "cgdcont_text y = (case y of (cid, ty, apn, addr) \<Rightarrow>
     ''+CGDCONT: '' @ dec_int cid @ '','' @ quoted ty @ '','' @ quoted apn @ '','' @ quoted addr @ '',0,0'')"

definition data_call :: "(int \<times> string \<times> string \<times> string) list \<Rightarrow> int \<times> int \<Rightarrow> RIL_Data_Call_Response" where
  "data_call ys x = (case x of (cid, active) \<Rightarrow>
     (case map_of ys cid of
        None \<Rightarrow> no_data_call\<lparr>dc_cid := cid, dc_active := active\<rparr>
      | Some (ty, apn, addr) \<Rightarrow>
          no_data_call\<lparr>dc_status := 0, dc_cid := cid, dc_active := active, dc_type := ty, dc_addresses := addr\<rparr>))"

definition plain_text :: "string \<Rightarrow> bool" where
  "plain_text u \<longleftrightarrow> dquote \<notin> set u \<and> backslash \<notin> set u"

lemma tok_int_dec:
  "list_all isspace ws \<Longrightarrow> in_int32 z \<Longrightarrow> tok_int (Some (ws @ dec_int z @ CHR '','' # t)) = ret (z, Some t)"
  "list_all isspace ws \<Longrightarrow> in_int32 z \<Longrightarrow> tok_int (Some (ws @ dec_int z)) = ret (z, None)"
  using nextint_dec_int(1) [of ws z t 0] nextint_dec_int(2) [of ws z 0]
  by (auto simp: tok_int_def clamp32_def in_int32_def)

lemma tok_str_quoted: "plain_text u \<Longrightarrow> tok_str (Some (quoted u @ CHR '','' # t)) = ret (u, Some t)"
  using nextstr_quoted(1) [of "[]" u t None] by (simp add: tok_str_def plain_text_def quoted_def)

lemma cgact_line_text:
  "in_int32 cid \<Longrightarrow> in_int32 active \<Longrightarrow> cgact_line (cgact_text (cid, active)) = ret (data_call [] (cid, active))"
  using tok_int_dec(1) [of "'' ''" cid "dec_int active"] tok_int_dec(2) [of "[]" active]
  by (simp add: cgact_line_def cgact_text_def tok_start_def isspace_def pbind_def ret_def data_call_def)

lemma cgact_lines_text:
  "list_all (\<lambda>(cid, active). in_int32 cid \<and> in_int32 active) xs \<Longrightarrow>
   cgact_lines (map cgact_text xs) = ret (map (data_call []) xs)"
  by (induction xs) (auto simp: cgact_line_text pbind_def ret_def)

text \<open>Updating the response with a cid.\<close>

lemma update_by_cid:
  assumes "distinct (map fst xs)" "\<And>x. dc_cid (f x) = fst x"
  shows "(let i = find_cid c (map f xs) in if length xs \<le> i then map f xs else (map f xs)[i := g (map f xs ! i)]) =
    map (\<lambda>x. if fst x = c then g (f x) else f x) xs"
  using assms(1)
proof (induction xs)
  case (Cons x xs)
  show ?case
  proof (cases "fst x = c")
    case True
    then have "map (\<lambda>y. if fst y = c then g (f y) else f y) xs = map f xs"
      using Cons.prems by (auto simp: image_iff)
    with True show ?thesis by (simp add: assms(2))
  next
    case False
    with Cons show ?thesis
      by (cases "length xs \<le> find_cid c (map f xs)") (simp_all add: Let_def assms(2) del: map_eq_conv)
  qed
qed (simp add: Let_def)

lemma data_call_cid: "dc_cid (data_call ys x) = fst x"
  by (auto simp: data_call_def split: prod.splits option.splits)

lemma cgdcont_line_text:
  assumes "distinct (map fst xs)" "in_int32 cid" "plain_text ty" "plain_text apn" "plain_text addr" "cid \<notin> fst ` set ys"
  shows "cgdcont_line (cgdcont_text (cid, ty, apn, addr)) (map (data_call ys) xs) =
    ret (map (data_call (ys @ [(cid, ty, apn, addr)])) xs)"
proof -
  let ?g = "\<lambda>r. r\<lparr>dc_status := 0, dc_type := ty, dc_ifname := PPP_TTY_PATH, dc_addresses := addr\<rparr>"
  have m: "map_of ys cid = None" using assms(6) by (simp add: map_of_eq_None_iff)
  have "data_call (ys @ [(cid, ty, apn, addr)]) x = (if fst x = cid then ?g (data_call ys x) else data_call ys x)" for x
    using m by (auto simp: data_call_def map_of_append map_add_def no_data_call_def split: prod.split option.split)
  then have u: "(let i = find_cid cid (map (data_call ys) xs) in if length xs \<le> i then map (data_call ys) xs
      else (map (data_call ys) xs)[i := ?g (map (data_call ys) xs ! i)]) =
    map (data_call (ys @ [(cid, ty, apn, addr)])) xs"
    using update_by_cid [OF assms(1), of "data_call ys" cid ?g] data_call_cid by simp
  show ?thesis
    using tok_int_dec(1) [of "'' ''" cid "quoted ty @ '','' @ quoted apn @ '','' @ quoted addr @ '',0,0''"]
      tok_str_quoted [OF assms(3), of "quoted apn @ '','' @ quoted addr @ '',0,0''"]
      tok_str_quoted [OF assms(4), of "quoted addr @ '',0,0''"] tok_str_quoted [OF assms(5), of "''0,0''"] assms(2) u
    by (cases "length xs \<le> find_cid cid (map (data_call ys) xs)")
      (simp_all add: cgdcont_line_def cgdcont_text_def tok_start_def isspace_def pbind_def ret_def Let_def del: map_eq_conv nth_map)
qed

lemma cgdcont_lines_text:
  assumes "distinct (map fst xs)" "distinct (map fst (ys @ zs))"
    "list_all (\<lambda>(cid, ty, apn, addr). in_int32 cid \<and> plain_text ty \<and> plain_text apn \<and> plain_text addr) zs"
  shows "cgdcont_lines (map cgdcont_text zs) (map (data_call ys) xs) = ret (map (data_call (ys @ zs)) xs)"
  using assms(2,3)
proof (induction zs arbitrary: ys)
  case (Cons z zs)
  obtain cid ty apn addr where z: "z = (cid, ty, apn, addr)" by (cases z)
  have "cgdcont_line (cgdcont_text z) (map (data_call ys) xs) = ret (map (data_call (ys @ [z])) xs)"
    unfolding z by (rule cgdcont_line_text) (use Cons.prems z assms(1) in auto)
  with Cons.IH [of "ys @ [z]"] Cons.prems show ?case by (simp add: pbind_def ret_def)
qed simp

text \<open>C15: the list of connections is the join of the two answers of the modem: a response for each context
  it listed, in its order, with the type and the address of that context, whatever the order of the
  second answer and whatever other contexts it has.\<close>

theorem connections_joined:
  assumes "distinct (map fst xs)" "distinct (map fst ys)" "list_all (\<lambda>(cid, active). in_int32 cid \<and> in_int32 active) xs"
    "list_all (\<lambda>(cid, ty, apn, addr). in_int32 cid \<and> plain_text ty \<and> plain_text apn \<and> plain_text addr) ys"
    "send (AtMulti ''AT+CGACT?'' ''+CGACT:'') (modem s) = Some (0, Some \<lparr>success = k1, finalResponse = f1, p_intermediates = map cgact_text xs\<rparr>, m1)"
    "send (AtMulti ''AT+CGDCONT?'' ''+CGDCONT:'') m1 = Some (0, Some \<lparr>success = k2, finalResponse = f2, p_intermediates = map cgdcont_text ys\<rparr>, m2)"
  shows "requestOrSendPDPContextList send t s = Some (pdp_list t (map (data_call ys) xs) (s\<lparr>modem := m2\<rparr>))"
  using cgact_lines_text [OF assms(3)] cgdcont_lines_text [OF assms(1), of "[]" ys] assms(2,4-6)
  by (simp add: requestOrSendPDPContextList_def at_def not_null_def ret_def at_error_numbers)

lemma connections_joined_witness:
  "requestOrSendPDPContextList
     (\<lambda>c m. Some (0, Some \<lparr>success = 1, finalResponse = Some ''OK'', p_intermediates =
        (if m = (0 :: nat) then map cgact_text [(1, 1), (2, 0)]
         else map cgdcont_text [(3, ''IP'', ''net'', ''0.0.0.0''), (1, ''IP'', ''internet'', ''10.0.0.2'')])\<rparr>, m + 1))
     (Some 7) (init_ril 0 sample_env) =
   Some (pdp_list (Some 7) [data_call [(1, ''IP'', ''internet'', ''10.0.0.2'')] (1, 1), data_call [] (2, 0)]
     ((init_ril 0 sample_env)\<lparr>modem := 2\<rparr>))"
  using connections_joined [where xs = "[(1, 1), (2, 0)]" and ys = "[(3, ''IP'', ''net'', ''0.0.0.0''), (1, ''IP'', ''internet'', ''10.0.0.2'')]"
     and send = "\<lambda>c m. Some (0, Some \<lparr>success = 1, finalResponse = Some ''OK'', p_intermediates =
        (if m = (0 :: nat) then map cgact_text [(1, 1), (2, 0)]
         else map cgdcont_text [(3, ''IP'', ''net'', ''0.0.0.0''), (1, ''IP'', ''internet'', ''10.0.0.2'')])\<rparr>, m + 1)"
     and s = "init_ril 0 sample_env" and t = "Some 7" and ?m1.0 = 1 and ?m2.0 = 2]
  by (simp add: init_ril_def in_int32_def plain_text_def data_call_def)

end
