(* ===== verification/Ril_Sim.thy ===== *)
theory Ril_Sim
  imports Ril_Data Fcp
begin

text \<open>
  The SIM, from \<open>huaweigeneric-ril.c\<close>: the type of the card, access to its files, the status of the
  card, and the passwords and locks.
\<close>

section \<open>The type of the card\<close>

definition getUICCType :: "'m at_fun \<Rightarrow> 'm ril \<Rightarrow> (UICC_Type \<times> 'm ril) option" where
  "getUICCType send s =
    (if getRadioState s = RADIO_STATE_OFF \<or> getRadioState s = RADIO_STATE_UNAVAILABLE then Some (UICC_TYPE_UNKNOWN, s)
     else if UiccType s \<noteq> UICC_TYPE_UNKNOWN then Some (UiccType s, s)
     else do {
       (r, s1) \<leftarrow> query send (at_single ''AT^CARDMODE'' ''^CARDMODE:'')
         (\<lambda>line. pbind (tok_start line) (\<lambda>line. pbind (tok_int line) (\<lambda>(ty, line). ret ty))) s;
       let u = (case r of
           None \<Rightarrow> UICC_TYPE_UNKNOWN
         | Some ty \<Rightarrow> if ty = 0 then UICC_TYPE_SIM else if ty = 1 then UICC_TYPE_USIM
             else if ty = 2 then UICC_TYPE_UIM else UICC_TYPE_UNKNOWN);
       Some (u, s1\<lparr>UiccType := u\<rparr>)
     })"

section \<open>Access to the files of the card\<close>

definition ef_usim_files :: "int list" where
  "ef_usim_files =
    [0x6F05, 0x6F06, 0x6F07, 0x6F08, 0x6F09, 0x6F2C, 0x6F31, 0x6F32, 0x6F37, 0x6F38, 0x6F39, 0x6F3B,
     0x6F3C, 0x6F3E, 0x6F3F, 0x6F40, 0x6F41, 0x6F42, 0x6F43, 0x6F45, 0x6F46, 0x6F47, 0x6F48, 0x6F49,
     0x6F4B, 0x6F4C, 0x6F4D, 0x6F4E, 0x6F4F, 0x6F50, 0x6F55, 0x6F56, 0x6F57, 0x6F58, 0x6F5B, 0x6F5C,
     0x6F60, 0x6F61, 0x6F62, 0x6F73, 0x6F78, 0x6F7B, 0x6F7E, 0x6F80, 0x6F81, 0x6F82, 0x6F83, 0x6FAD,
     0x6FB1, 0x6FB2, 0x6FB3, 0x6FB4, 0x6FB5, 0x6FB6, 0x6FB7, 0x6FC3, 0x6FC4, 0x6FC5, 0x6FC6, 0x6FC7,
     0x6FC8, 0x6FC9, 0x6FCA, 0x6FCB, 0x6FCC, 0x6FCD, 0x6FCE, 0x6FCF, 0x6FD0, 0x6FD1, 0x6FD2, 0x6FD3,
     0x6FD4, 0x6FD5, 0x6FD6, 0x6FD7, 0x6FD8, 0x6FD9, 0x6FDA, 0x6FDB]"

definition ef_telecom_files :: "int list" where
  "ef_telecom_files = [0x6F3A, 0x6F3D, 0x6F44, 0x6F4A, 0x6F54]"

definition PATH_ADF_USIM_DIRECTORY :: string where "PATH_ADF_USIM_DIRECTORY = ''3F007FFF''"
definition PATH_ADF_TELECOM_DIRECTORY :: string where "PATH_ADF_TELECOM_DIRECTORY = ''3F007F10''"

text \<open>The path of a file on a USIM, when it is replaced.\<close>

definition usim_path :: "int \<Rightarrow> string option" where
  "usim_path fileid =
    (if fileid \<in> set ef_usim_files then Some PATH_ADF_USIM_DIRECTORY
     else if fileid \<in> set ef_telecom_files then Some PATH_ADF_TELECOM_DIRECTORY
     else None)"

text \<open>The formatted command; the last two arguments are the data and the path as far as they are given.\<close>

definition crsm_command :: "int \<Rightarrow> int \<Rightarrow> string option \<Rightarrow> int \<Rightarrow> int \<Rightarrow> int \<Rightarrow> string option \<Rightarrow> string" where
  "crsm_command cmd fileid path p1 p2 p3 d =
     ''AT+CRSM='' @ dec_int cmd @ '','' @ dec_int fileid @ '','' @ dec_int p1 @ '','' @ dec_int p2 @ '','' @ dec_int p3 @
     (case (path, d) of
        (Some p, Some x) \<Rightarrow> '','' @ quoted x @ '','' @ quoted p
      | (Some p, None) \<Rightarrow> '',,'' @ quoted p
      | (None, Some x) \<Rightarrow> '','' @ quoted x
      | (None, None) \<Rightarrow> [])"

definition no_sim_io :: RIL_SIM_IO_Response where
  "no_sim_io = \<lparr>sw1 = 0, sw2 = 0, simResponse = None\<rparr>"

definition crsm_line :: "string \<Rightarrow> RIL_SIM_IO_Response parse" where
  "crsm_line line = pbind (tok_start line) (\<lambda>line. pbind (tok_int line) (\<lambda>(a, line). pbind (tok_int line) (\<lambda>(b, line).
     if at_tok_hasmore line then pbind (tok_str line) (\<lambda>(r, line). ret \<lparr>sw1 = a, sw2 = b, simResponse = Some r\<rparr>)
     else ret \<lparr>sw1 = a, sw2 = b, simResponse = None\<rparr>)))"

text \<open>On an error the caller does not look at the response.\<close>

definition sendSimIOCmdICC ::
  "'m at_fun \<Rightarrow> string \<Rightarrow> 'm ril \<Rightarrow> ((int \<times> RIL_SIM_IO_Response) \<times> 'm ril) option" where
  "sendSimIOCmdICC send cmd s = do {
     (err, atResponse, s1) \<leftarrow> at send (at_single cmd ''+CRSM:'') s;
     if err \<noteq> AT_NOERROR then Some ((err, no_sim_io), s1)
     else do {
       l \<leftarrow> first_line atResponse;
       r \<leftarrow> crsm_line l;
       Some (case r of Some sr \<Rightarrow> (0, sr) | None \<Rightarrow> (- 1, no_sim_io), s1)
     }
   }"

text \<open>The 15 bytes of \<open>struct ts_51011_921_resp\<close>.\<close>

definition resp_bytes :: "ts_51011_921_resp \<Rightarrow> bytes" where
  "resp_bytes r = [fst (rfu_1 r), snd (rfu_1 r), fst (file_size r), snd (file_size r), fst (file_id r), snd (file_id r),
     file_type r, rfu_2 r, fst (file_acc r), fst (snd (file_acc r)), snd (snd (file_acc r)), file_status r, data_size r,
     file_structure r, record_size r]"

text \<open>\<open>resp\<close> is not initialised; \<open>fcp_to_ts_51011\<close> clears it before it fills it in.\<close>

definition convertSimIoFcp :: "RIL_SIM_IO_Response \<Rightarrow> string parse" where
  "convertSimIoFcp sr =
    (case simResponse sr of
       None \<Rightarrow> fail
     | Some stream \<Rightarrow>
         let fcplen = length stream in
         if fcplen = 0 \<or> odd fcplen then fail
         else do {
           (err, resp) \<leftarrow> fcp_to_ts_51011 stream fcplen zero_resp;
           if err < 0 then fail
           else do {
             (err, cvt) \<leftarrow> binaryToString (resp_bytes resp) 15 (replicate (15 * 2 + 1) (CHR 0x00));
             if err < 0 then fail else ret (cstr cvt)
           }
         })"

definition GET_RESPONSE :: int where "GET_RESPONSE = 0xC0"

definition requestSIM_IO :: "'m at_fun \<Rightarrow> ril_data \<Rightarrow> nat \<Rightarrow> 'm ril \<Rightarrow> 'm ril option" where
  "requestSIM_IO send dat t s = do {
     (ty, s1) \<leftarrow> getUICCType send s;
     case dat of
       DSimIO cmd fileid path p1 p2 p3 d \<Rightarrow> do {
         let newpath = (if ty = UICC_TYPE_USIM then (case usim_path fileid of Some p \<Rightarrow> Some p | None \<Rightarrow> path) else path);
         ((err, sr), s2) \<leftarrow> sendSimIOCmdICC send (crsm_command cmd fileid newpath p1 p2 p3 d) s1;
         if err < 0 then Some (RIL_onRequestComplete t RIL_E_GENERIC_FAILURE PNone 0 s2)
         else if cmd = GET_RESPONSE \<and> ty \<noteq> UICC_TYPE_SIM then do {
           r \<leftarrow> convertSimIoFcp sr;
           Some (case r of
               None \<Rightarrow> RIL_onRequestComplete t RIL_E_GENERIC_FAILURE PNone 0 s2
             | Some cvt \<Rightarrow> RIL_onRequestComplete t RIL_E_SUCCESS (PSimIO (sr\<lparr>simResponse := Some cvt\<rparr>)) 12 s2)
         }
         else Some (RIL_onRequestComplete t RIL_E_SUCCESS (PSimIO sr) 12 s2)
       }
     | _ \<Rightarrow> None
   }"

section \<open>The status of the card\<close>

fun app_status_array :: "SIM_Status \<Rightarrow> RIL_AppStatus" where
  "app_status_array SIM_ABSENT = AppStatus RIL_APPTYPE_UNKNOWN RIL_APPSTATE_UNKNOWN RIL_PERSOSUBSTATE_UNKNOWN RIL_PINSTATE_UNKNOWN RIL_PINSTATE_UNKNOWN"
| "app_status_array SIM_NOT_READY = AppStatus RIL_APPTYPE_SIM RIL_APPSTATE_DETECTED RIL_PERSOSUBSTATE_UNKNOWN RIL_PINSTATE_UNKNOWN RIL_PINSTATE_UNKNOWN"
| "app_status_array SIM_READY = AppStatus RIL_APPTYPE_SIM RIL_APPSTATE_READY RIL_PERSOSUBSTATE_READY RIL_PINSTATE_UNKNOWN RIL_PINSTATE_UNKNOWN"
| "app_status_array SIM_PIN = AppStatus RIL_APPTYPE_SIM RIL_APPSTATE_PIN RIL_PERSOSUBSTATE_UNKNOWN RIL_PINSTATE_ENABLED_NOT_VERIFIED RIL_PINSTATE_UNKNOWN"
| "app_status_array SIM_PUK = AppStatus RIL_APPTYPE_SIM RIL_APPSTATE_PUK RIL_PERSOSUBSTATE_UNKNOWN RIL_PINSTATE_ENABLED_BLOCKED RIL_PINSTATE_UNKNOWN"
| "app_status_array SIM_NETWORK_PERSO = AppStatus RIL_APPTYPE_SIM RIL_APPSTATE_SUBSCRIPTION_PERSO RIL_PERSOSUBSTATE_SIM_NETWORK RIL_PINSTATE_ENABLED_NOT_VERIFIED RIL_PINSTATE_UNKNOWN"
| "app_status_array SIM_PIN2 = AppStatus RIL_APPTYPE_SIM RIL_APPSTATE_READY RIL_PERSOSUBSTATE_UNKNOWN RIL_PINSTATE_UNKNOWN RIL_PINSTATE_ENABLED_NOT_VERIFIED"
| "app_status_array SIM_PUK2 = AppStatus RIL_APPTYPE_SIM RIL_APPSTATE_READY RIL_PERSOSUBSTATE_UNKNOWN RIL_PINSTATE_UNKNOWN RIL_PINSTATE_ENABLED_BLOCKED"
| "app_status_array SIM_NETWORK_SUBSET_PERSO = AppStatus RIL_APPTYPE_SIM RIL_APPSTATE_SUBSCRIPTION_PERSO RIL_PERSOSUBSTATE_SIM_NETWORK_SUBSET RIL_PINSTATE_ENABLED_NOT_VERIFIED RIL_PINSTATE_UNKNOWN"
| "app_status_array SIM_SERVICE_PROVIDER_PERSO = AppStatus RIL_APPTYPE_SIM RIL_APPSTATE_SUBSCRIPTION_PERSO RIL_PERSOSUBSTATE_SIM_SERVICE_PROVIDER RIL_PINSTATE_ENABLED_NOT_VERIFIED RIL_PINSTATE_UNKNOWN"
| "app_status_array SIM_CORPORATE_PERSO = AppStatus RIL_APPTYPE_SIM RIL_APPSTATE_SUBSCRIPTION_PERSO RIL_PERSOSUBSTATE_SIM_CORPORATE RIL_PINSTATE_ENABLED_NOT_VERIFIED RIL_PINSTATE_UNKNOWN"
| "app_status_array SIM_SIM_PERSO = AppStatus RIL_APPTYPE_SIM RIL_APPSTATE_SUBSCRIPTION_PERSO RIL_PERSOSUBSTATE_SIM_SIM RIL_PINSTATE_ENABLED_NOT_VERIFIED RIL_PINSTATE_UNKNOWN"
| "app_status_array SIM_STERICSSON_LOCK = AppStatus RIL_APPTYPE_SIM RIL_APPSTATE_SUBSCRIPTION_PERSO RIL_PERSOSUBSTATE_UNKNOWN RIL_PINSTATE_ENABLED_NOT_VERIFIED RIL_PINSTATE_UNKNOWN"
| "app_status_array SIM_BLOCKED = AppStatus RIL_APPTYPE_SIM RIL_APPSTATE_UNKNOWN RIL_PERSOSUBSTATE_UNKNOWN RIL_PINSTATE_ENABLED_BLOCKED RIL_PINSTATE_UNKNOWN"
| "app_status_array SIM_PERM_BLOCKED = AppStatus RIL_APPTYPE_SIM RIL_APPSTATE_UNKNOWN RIL_PERSOSUBSTATE_UNKNOWN RIL_PINSTATE_ENABLED_PERM_BLOCKED RIL_PINSTATE_UNKNOWN"
| "app_status_array SIM_NETWORK_PERSO_PUK = AppStatus RIL_APPTYPE_SIM RIL_APPSTATE_SUBSCRIPTION_PERSO RIL_PERSOSUBSTATE_SIM_NETWORK_PUK RIL_PINSTATE_ENABLED_NOT_VERIFIED RIL_PINSTATE_UNKNOWN"
| "app_status_array SIM_NETWORK_SUBSET_PERSO_PUK = AppStatus RIL_APPTYPE_SIM RIL_APPSTATE_SUBSCRIPTION_PERSO RIL_PERSOSUBSTATE_SIM_NETWORK_SUBSET_PUK RIL_PINSTATE_ENABLED_NOT_VERIFIED RIL_PINSTATE_UNKNOWN"
| "app_status_array SIM_SERVICE_PROVIDER_PERSO_PUK = AppStatus RIL_APPTYPE_SIM RIL_APPSTATE_SUBSCRIPTION_PERSO RIL_PERSOSUBSTATE_SIM_SERVICE_PROVIDER_PUK RIL_PINSTATE_ENABLED_NOT_VERIFIED RIL_PINSTATE_UNKNOWN"
| "app_status_array SIM_CORPORATE_PERSO_PUK = AppStatus RIL_APPTYPE_SIM RIL_APPSTATE_SUBSCRIPTION_PERSO RIL_PERSOSUBSTATE_SIM_CORPORATE_PUK RIL_PINSTATE_ENABLED_NOT_VERIFIED RIL_PINSTATE_UNKNOWN"
| "app_status_array SIM_SIM_PERSO_PUK = AppStatus RIL_APPTYPE_SIM RIL_APPSTATE_SUBSCRIPTION_PERSO RIL_PERSOSUBSTATE_SIM_SIM_PUK RIL_PINSTATE_ENABLED_NOT_VERIFIED RIL_PINSTATE_UNKNOWN"
| "app_status_array SIM_PUK2_PERM_BLOCKED = AppStatus RIL_APPTYPE_SIM RIL_APPSTATE_UNKNOWN RIL_PERSOSUBSTATE_UNKNOWN RIL_PINSTATE_UNKNOWN RIL_PINSTATE_ENABLED_PERM_BLOCKED"

definition RIL_CARD_MAX_APPS :: nat where "RIL_CARD_MAX_APPS = 8"

definition getCardStatus :: "'m at_fun \<Rightarrow> 'm ril \<Rightarrow> (RIL_CardStatus \<times> 'm ril) option" where
  "getCardStatus send s = do {
     (sim_status, s1) \<leftarrow> getSIMStatus send s;
     let base = \<lparr>card_state = (if sim_status = SIM_ABSENT then RIL_CARDSTATE_ABSENT else RIL_CARDSTATE_PRESENT),
       universal_pin_state = RIL_PINSTATE_UNKNOWN, gsm_umts_subscription_app_index = RIL_CARD_MAX_APPS,
       cdma_subscription_app_index = RIL_CARD_MAX_APPS, ims_subscription_app_index = RIL_CARD_MAX_APPS,
       num_applications = (if sim_status = SIM_ABSENT then 0 else 1),
       applications = replicate RIL_CARD_MAX_APPS (app_status_array SIM_ABSENT)\<rparr>;
     if num_applications base = 0 then Some (base, s1)
     else do {
       (uicc_type, s2) \<leftarrow> getUICCType send s1;
       let a = app_status_array sim_status;
       let a' = (if uicc_type = UICC_TYPE_SIM then a
                 else AppStatus RIL_APPTYPE_USIM (app_state a) (perso_substate a) (pin1 a) (pin2 a));
       Some (base\<lparr>num_applications := 1, gsm_umts_subscription_app_index := 0,
         applications := (applications base)[0 := a']\<rparr>, s2)
     }
   }"

definition requestGetSimStatus :: "'m at_fun \<Rightarrow> nat \<Rightarrow> 'm ril \<Rightarrow> 'm ril option" where
  "requestGetSimStatus send t s = do {
     (card, s1) \<leftarrow> getCardStatus send s;
     Some (RIL_onRequestComplete t RIL_E_SUCCESS (PCard card) 280 s1)
   }"

section \<open>Passwords and locks\<close>

definition requestChangePassword :: "'m at_fun \<Rightarrow> ril_data \<Rightarrow> nat \<Rightarrow> nat \<Rightarrow> string \<Rightarrow> 'm ril \<Rightarrow> 'm ril option" where
  "requestChangePassword send dat len t facility s =
    (if len \<noteq> 3 * sizeof_ptr \<or> length facility \<noteq> 2 then Some (RIL_onRequestComplete t RIL_E_GENERIC_FAILURE PNone 0 s)
     else do {
       oldPassword \<leftarrow> data_str dat 0;
       newPassword \<leftarrow> data_str dat 1;
       (err, s1) \<leftarrow> at_cmd1 send (''AT+CPWD='' @ quoted facility @ '','' @ quoted (fmt_s oldPassword) @ '','' @
         quoted (fmt_s newPassword)) s;
       Some (if err = AT_NOERROR then RIL_onRequestComplete t RIL_E_SUCCESS (PInts [3]) sizeof_ptr s1
         else if at_get_cme_error err = CME_INCORRECT_PASSWORD
           then RIL_onRequestComplete t RIL_E_PASSWORD_INCORRECT (PInts [3]) sizeof_ptr s1
         else RIL_onRequestComplete t RIL_E_GENERIC_FAILURE PNone 0 s1)
     })"

definition requestQueryFacilityLock :: "'m at_fun \<Rightarrow> ril_data \<Rightarrow> nat \<Rightarrow> nat \<Rightarrow> 'm ril \<Rightarrow> 'm ril option" where
  "requestQueryFacilityLock send dat len t s =
    (if len < 3 * sizeof_ptr then Some (RIL_onRequestComplete t RIL_E_GENERIC_FAILURE PNone 0 s)
     else do {
       facility_string \<leftarrow> data_str dat 0;
       facility_password \<leftarrow> data_str dat 1;
       facility_class \<leftarrow> data_str dat 2;
       report send (at_single (''AT+CLCK='' @ quoted (fmt_s facility_string) @ '',2,'' @ fmt_s facility_password @ '','' @
           fmt_s facility_class) ''+CLCK:'')
         (\<lambda>line. pbind (tok_start line) (\<lambda>line. pbind (tok_int line) (\<lambda>(x, line). ret x)))
         (\<lambda>x. PInts [x]) sizeof_int t s
     })"

text \<open>\<open>atoi\<close> is \<open>strtol\<close>, on a 32-bit \<open>long\<close>.\<close>

definition atoi :: "string \<Rightarrow> int" where
  "atoi s = snd (strtol 10 s)"

text \<open>The switch on the error: the result, and the retries if they are set.\<close>

definition facility_error :: "int \<Rightarrow> RIL_Errno \<times> int" where
  "facility_error cme =
    (if cme = CME_SIM_PIN_REQUIRED then (RIL_E_PASSWORD_INCORRECT, - 1)
     else if cme = CME_SIM_PUK_REQUIRED then (RIL_E_PASSWORD_INCORRECT, 0)
     else if cme = CME_INCORRECT_PASSWORD then (RIL_E_PASSWORD_INCORRECT, - 1)
     else if cme = CME_SIM_PIN2_REQUIRED then (RIL_E_PASSWORD_INCORRECT, - 1)
     else if cme = CME_SIM_PUK2_REQUIRED then (RIL_E_SIM_PUK2, 0)
     else (RIL_E_GENERIC_FAILURE, - 1))"

definition requestSetFacilityLock :: "'m at_fun \<Rightarrow> ril_data \<Rightarrow> nat \<Rightarrow> nat \<Rightarrow> 'm ril \<Rightarrow> 'm ril option" where
  "requestSetFacilityLock send dat len t s =
    (if len < 4 * sizeof_ptr then Some (RIL_onRequestComplete t RIL_E_GENERIC_FAILURE (PInts [- 1]) sizeof_ptr s)
     else do {
       facility_string \<leftarrow> data_str dat 0;
       p \<leftarrow> data_str dat 1;
       facility_password \<leftarrow> data_str dat 2;
       facility_class \<leftarrow> data_str dat 3;
       facility_mode_str \<leftarrow> not_null p;
       if take 1 facility_mode_str \<noteq> ''0'' \<and> take 1 facility_mode_str \<noteq> ''1''
       then Some (RIL_onRequestComplete t RIL_E_GENERIC_FAILURE (PInts [- 1]) sizeof_ptr s)
       else do {
         (err, s1) \<leftarrow> at_cmd1 send (''AT+CLCK='' @ quoted (fmt_s facility_string) @ '','' @ dec_int (atoi facility_mode_str) @
           '','' @ quoted (fmt_s facility_password) @ '','' @ fmt_s facility_class) s;
         if at_get_error_type err = AT_ERROR
         then Some (RIL_onRequestComplete t RIL_E_GENERIC_FAILURE (PInts [- 1]) sizeof_ptr s1)
         else do {
           let r = (if err \<noteq> AT_NOERROR then facility_error (at_get_cme_error err) else (RIL_E_SUCCESS, - 1));
           facility \<leftarrow> not_null facility_string;
           let num_retries = (if take 2 facility = ''SC'' \<or> take 2 facility = ''FD'' then 1 else snd r);
           Some (RIL_onRequestComplete t (fst r) (PInts [num_retries]) sizeof_ptr s1)
         }
       }
     })"

text \<open>The command that enters one or two strings; \<open>None\<close> stands for the jump to the error label.\<close>

definition cpin_command :: "ril_data \<Rightarrow> nat \<Rightarrow> string option option" where
  "cpin_command dat len =
    (if len = sizeof_ptr then do { a \<leftarrow> data_str dat 0; Some (Some (''AT+CPIN='' @ quoted (fmt_s a))) }
     else if len = 2 * sizeof_ptr then do {
       b \<leftarrow> data_str dat 1;
       a \<leftarrow> data_str dat 0;
       Some (Some (case b of
           None \<Rightarrow> ''AT+CPIN='' @ quoted (fmt_s a)
         | Some b' \<Rightarrow> ''AT+CPIN='' @ quoted (fmt_s a) @ '','' @ quoted b'))
     }
     else if len = 3 * sizeof_ptr then do {
       a \<leftarrow> data_str dat 0;
       b \<leftarrow> data_str dat 1;
       Some (Some (''AT+CPIN='' @ quoted (fmt_s a) @ '','' @ quoted (fmt_s b)))
     }
     else Some None)"

definition wrong_password :: "int \<Rightarrow> bool" where
  "wrong_password cme \<longleftrightarrow> cme \<in> {CME_SIM_PIN_REQUIRED, CME_SIM_PUK_REQUIRED, CME_INCORRECT_PASSWORD,
     CME_SIM_PIN2_REQUIRED, CME_SIM_PUK2_REQUIRED}"

definition requestEnterSimPin :: "'m at_fun \<Rightarrow> ril_data \<Rightarrow> nat \<Rightarrow> nat \<Rightarrow> 'm ril \<Rightarrow> 'm ril option" where
  "requestEnterSimPin send dat len t s = do {
     c \<leftarrow> cpin_command dat len;
     case c of
       None \<Rightarrow> Some (RIL_onRequestComplete t RIL_E_GENERIC_FAILURE PNone 0 s)
     | Some cmd \<Rightarrow> do {
         (err, s1) \<leftarrow> at_cmd1 send cmd s;
         let cme_err = at_get_cme_error err;
         Some (if cme_err \<noteq> CME_ERROR_NON_CME \<and> err \<noteq> AT_NOERROR then
             (if wrong_password cme_err then RIL_onRequestComplete t RIL_E_PASSWORD_INCORRECT (PInts [1]) sizeof_ptr s1
              else RIL_onRequestComplete t RIL_E_GENERIC_FAILURE PNone 0 s1)
           else RIL_onRequestComplete t RIL_E_SUCCESS (PInts [1]) sizeof_ptr s1)
       }
   }"

section \<open>What the handlers leave alone\<close>

lemma crsm_line_parses [wps]: "b \<or> tame l \<Longrightarrow> (\<And>x. Q x) \<Longrightarrow> parses b (crsm_line l) Q"
  unfolding crsm_line_def by (auto intro!: wps)

lemma binaryToString_done:
  assumes "length bin = n" "2 * n < length s"
  shows "\<exists>cvt. binaryToString bin n s = Some (0, cvt)"
  using binaryToString_loop_blit [of 0 n bin "[]" 0 s] assms by (auto simp: binaryToString_def blit_def)

lemma length_resp_bytes [simp]: "length (resp_bytes r) = 15"
  by (simp add: resp_bytes_def)

lemma convertSimIoFcp_parses [wps]: "(\<And>x. Q x) \<Longrightarrow> parses b (convertSimIoFcp sr) Q"
proof (cases "simResponse sr")
  case (Some l)
  assume Q: "\<And>x. Q x"
  obtain e r where f: "fcp_to_ts_51011 l (length l) zero_resp = Some (e, r)"
    using fcp_total [of "length l" l zero_resp] by auto
  obtain cvt where "binaryToString (resp_bytes r) 15 (replicate (15 * 2 + 1) (CHR 0x00)) = Some (0, cvt)"
    using binaryToString_done [of "resp_bytes r" 15 "replicate (15 * 2 + 1) (CHR 0x00)"] length_resp_bytes by fastforce
  with f Some Q show ?thesis by (simp add: convertSimIoFcp_def Let_def)
qed (simp add: convertSimIoFcp_def)

context at_channel
begin

lemma getUICCType_wp [wps]:
  assumes "alive (modem s)"
    "\<And>u s'. alive (modem s') \<Longrightarrow> sState s' = sState s \<Longrightarrow> answered s' = answered s \<Longrightarrow> (sim_polled s \<Longrightarrow> sim_polled s') \<Longrightarrow> Q (u, s')"
  shows "wp b (getUICCType at_send s) Q"
  unfolding getUICCType_def Let_def using assms by (auto intro!: wps)

lemma sendSimIOCmdICC_wp [wps]:
  assumes "alive (modem s)" "\<And>r m. alive m \<Longrightarrow> Q (r, s\<lparr>modem := m\<rparr>)"
  shows "wp b (sendSimIOCmdICC at_send cmd s) Q"
  unfolding sendSimIOCmdICC_def using assms by (auto intro!: wps parse_any simp: at_error_numbers split: option.split)

lemma requestSIM_IO_served:
  assumes "alive (modem s)" "gsm_state (sState s)" "b \<or> (\<exists>cmd f p p1 p2 p3 d. dat = DSimIO cmd f p p1 p2 p3 d)"
  shows "wp b (requestSIM_IO at_send dat t s) (served alive t s)"
  unfolding requestSIM_IO_def Let_def using assms
  by (cases dat) (auto intro!: wps parse_any simp: served_def split: option.split)

lemma getCardStatus_wp [wps]:
  assumes "alive (modem s)"
    "\<And>c s'. alive (modem s') \<Longrightarrow> sState s' = sState s \<Longrightarrow> answered s' = answered s \<Longrightarrow> (sim_polled s \<Longrightarrow> sim_polled s') \<Longrightarrow> Q (c, s')"
  shows "wp b (getCardStatus at_send s) Q"
  unfolding getCardStatus_def Let_def using assms by (auto intro!: wps)

lemma requestGetSimStatus_served:
  assumes "alive (modem s)" "gsm_state (sState s)"
  shows "wp b (requestGetSimStatus at_send t s) (served alive t s)"
  unfolding requestGetSimStatus_def using assms by (auto intro!: wps simp: served_def)

lemma requestChangePassword_served:
  assumes "alive (modem s)" "gsm_state (sState s)" "b \<or> list_all (\<lambda>i. data_str dat i \<noteq> None) [0, 1]"
  shows "wp b (requestChangePassword at_send dat len t facility s) (served alive t s)"
  unfolding requestChangePassword_def using assms by (auto intro!: wps simp: served_def)

lemma requestQueryFacilityLock_served:
  assumes "alive (modem s)" "gsm_state (sState s)" "b \<or> list_all (\<lambda>i. data_str dat i \<noteq> None) [0, 1, 2]"
  shows "wp b (requestQueryFacilityLock at_send dat len t s) (served alive t s)"
  unfolding requestQueryFacilityLock_def using assms by (auto intro!: wps reports simp: served_def)

lemma requestSetFacilityLock_served:
  assumes "alive (modem s)" "gsm_state (sState s)"
    "b \<or> (\<exists>f m. data_str dat 0 = Some (Some f) \<and> data_str dat 1 = Some (Some m)) \<and> list_all (\<lambda>i. data_str dat i \<noteq> None) [2, 3]"
  shows "wp b (requestSetFacilityLock at_send dat len t s) (served alive t s)"
  unfolding requestSetFacilityLock_def Let_def using assms by (auto intro!: wps simp: served_def)

lemma cpin_command_wp [wps]:
  "b \<or> list_all (\<lambda>i. data_str dat i \<noteq> None) [0 ..< len div sizeof_ptr] \<Longrightarrow> (\<And>c. Q c) \<Longrightarrow> wp b (cpin_command dat len) Q"
  unfolding cpin_command_def by (auto intro!: wps simp: list_all_iff)

lemma requestEnterSimPin_served:
  assumes "alive (modem s)" "gsm_state (sState s)" "b \<or> list_all (\<lambda>i. data_str dat i \<noteq> None) [0 ..< len div sizeof_ptr]"
  shows "wp b (requestEnterSimPin at_send dat len t s) (served alive t s)"
  unfolding requestEnterSimPin_def Let_def using assms by (auto intro!: wps simp: served_def)

end

end
