(* ===== verification/Ril_Unsol.thy ===== *)
theory Ril_Unsol
  imports Ril_Sim
begin

text \<open>
  What the modem sends unasked, and how the channel is set up and lost, from
  \<open>huaweigeneric-ril.c\<close>.  The handlers of unsolicited lines copy the line with \<open>strdup\<close>, move the
  pointer to the copy as they read it, and give that pointer to \<open>free\<close>: this is defined only when
  the pointer has become \<open>NULL\<close>.
\<close>

section \<open>Unsolicited lines\<close>

text \<open>\<open>free\<close> of a pointer that \<open>at_tok_start\<close> has moved away from the start of the block.\<close>

definition free_moved :: "cursor \<Rightarrow> unit option" where
  "free_moved cur = (case cur of None \<Rightarrow> Some () | Some s \<Rightarrow> None)"

definition NITZ_SIZE :: nat where "NITZ_SIZE = 64"

text \<open>An error leaves before the line is freed.\<close>

definition unsolicitedNitzTime :: "string \<Rightarrow> 'm ril \<Rightarrow> 'm ril option" where
  "unsolicitedNitzTime line s =
    (if strStartsWith line ''+CTZV:'' then do {
       (err, tz, cur) \<leftarrow> at_tok_nextstr (snd (at_tok_start (Some line))) None;
       if err < 0 then Some s
       else do {
         (err, resp, cur) \<leftarrow> at_tok_nextstr cur None;
         if err < 0 then Some s
         else do {
           z \<leftarrow> tz;
           r \<leftarrow> resp;
           time \<leftarrow> str_into (replicate NITZ_SIZE (CHR 0x00)) (r @ z);
           _ \<leftarrow> free_moved cur;
           Some (s\<lparr>sNITZtime := cstr time\<rparr>)
         }
       }
     }
     else if strStartsWith line ''+CTZDST:'' then do {
       (err, tz, cur) \<leftarrow> at_tok_nextstr (snd (at_tok_start (Some line))) None;
       if err < 0 then Some s
       else do {
         z \<leftarrow> tz;
         let resp = sNITZtime s @ '','' @ z;
         _ \<leftarrow> free_moved cur;
         Some (RIL_onUnsolicitedResponse RIL_UNSOL_NITZ_TIME_RECEIVED (PString resp) (length resp) s)
       }
     }
     else Some s)"

definition unsolicitedRSSI :: "string \<Rightarrow> 'm ril \<Rightarrow> 'm ril option" where
  "unsolicitedRSSI line s =
    (case at_tok_start (Some line) of (err, cur) \<Rightarrow>
       if err < 0 then do { _ \<leftarrow> free_moved cur; Some s }
       else do {
         (err, v, cur) \<leftarrow> at_tok_nextint cur (Some 0);
         if err < 0 then do { _ \<leftarrow> free_moved cur; Some s }
         else do {
           rssi \<leftarrow> v;
           _ \<leftarrow> free_moved cur;
           Some (RIL_onUnsolicitedResponse RIL_UNSOL_SIGNAL_STRENGTH (PSignal
             \<lparr>GW_signalStrength = rssi, GW_bitErrorRate = 99, CDMA_dbm = 0, CDMA_ecio = 0, EVDO_dbm = 0, EVDO_ecio = 0,
              EVDO_signalNoiseRatio = 0, LTE_signalStrength = 0, LTE_rsrp = 0, LTE_rsrq = 0, LTE_rssnr = 0, LTE_cqi = 0\<rparr>)
             sizeof_signal s)
         }
       })"

definition unsolicitedMode :: "string \<Rightarrow> 'm ril \<Rightarrow> 'm ril option" where
  "unsolicitedMode line s =
    (case at_tok_start (Some line) of (err, cur) \<Rightarrow>
       if err < 0 then do { _ \<leftarrow> free_moved cur; Some s }
       else do {
         (err, mode1, cur) \<leftarrow> at_tok_nextint cur (Some 0);
         if err < 0 then do { _ \<leftarrow> free_moved cur; Some s }
         else do {
           (err, mode2, cur) \<leftarrow> at_tok_nextint cur (Some 0);
           _ \<leftarrow> free_moved cur;
           Some s
         }
       })"

text \<open>\<open>malloc\<close> returns bytes with unknown contents, \<open>junk n\<close> for a block of \<open>n\<close>.  \<open>strlen\<close> of
  the message is taken although only half of the digits of the text were written into it.\<close>

definition strlen :: "bytes \<Rightarrow> nat option" where
  "strlen b = (if 0 \<in> set b then Some (length (takeWhile (\<lambda>x. x \<noteq> 0) b)) else None)"

definition ussd_text :: "(nat \<Rightarrow> bytes) \<Rightarrow> string \<Rightarrow> string option" where
  "ussd_text junk message = do {
     outputmessage \<leftarrow> gsm_hex_to_bytes message (length message) (junk (length message * 2 + 1));
     n \<leftarrow> strlen outputmessage;
     (len, r) \<leftarrow> utf8_from_gsm8 outputmessage (int n) (Some (junk (n * 2 + 1)));
     responseStr \<leftarrow> r;
     responseStr' \<leftarrow> wr responseStr (length message div 2) 0;
     Some (map (char_of \<circ> unat) (takeWhile (\<lambda>x. x \<noteq> 0) responseStr'))
   }"

definition unsolicitedUSSD :: "(nat \<Rightarrow> bytes) \<Rightarrow> string \<Rightarrow> 'm ril \<Rightarrow> 'm ril option" where
  "unsolicitedUSSD junk s0 s = do {
     r \<leftarrow> pbind (tok_start s0) (\<lambda>line. pbind (tok_int line) (\<lambda>(typeCode, line).
        if at_tok_hasmore line then pbind (tok_str line) (\<lambda>(message, line). do {
          t \<leftarrow> ussd_text junk message; ret [Some (dec_int typeCode), Some t] })
        else ret [Some (dec_int typeCode)]));
     Some (case r of
         Some responseStr \<Rightarrow> RIL_onUnsolicitedResponse RIL_UNSOL_ON_USSD (PStrings responseStr) (length responseStr * sizeof_ptr) s
       | None \<Rightarrow> s)
   }"

text \<open>The lines with a unit come with it; the others with \<open>NULL\<close>, which the handlers of units follow.\<close>

definition onUnsolicited :: "(nat \<Rightarrow> bytes) \<Rightarrow> string \<Rightarrow> string option \<Rightarrow> 'm ril \<Rightarrow> 'm ril option" where
  "onUnsolicited junk l sms_pdu s =
    (if getRadioState s = RADIO_STATE_UNAVAILABLE then Some s
     else if strStartsWith l ''%CTZV:'' \<or> strStartsWith l ''+CTZV:'' \<or> strStartsWith l ''+CTZDST:'' \<or>
       strStartsWith l ''+HTCCTZV:'' then unsolicitedNitzTime l s
     else if strStartsWith l ''+CRING:'' \<or> strStartsWith l ''RING'' \<or> strStartsWith l ''NO CARRIER'' \<or> strStartsWith l ''+CCWA'' then
       Some (enqueue_event OnDataCallListChanged None
         (RIL_onUnsolicitedResponse RIL_UNSOL_RESPONSE_CALL_STATE_CHANGED PNone 0 s))
     else if strStartsWith l ''^RSSI:'' \<or> strStartsWith l ''%RSSI:'' then unsolicitedRSSI l s
     else if strStartsWith l ''^MODE:'' then unsolicitedMode l s
     else if strStartsWith l ''+CREG:'' \<or> strStartsWith l ''+CGREG:'' then
       Some (enqueue_event OnDataCallListChanged None
         (RIL_onUnsolicitedResponse RIL_UNSOL_RESPONSE_VOICE_NETWORK_STATE_CHANGED PNone 0 s))
     else if strStartsWith l ''+CMT:'' then do { p \<leftarrow> sms_pdu; Some (onNewSms p s) }
     else if strStartsWith l ''+CBM:'' then do { p \<leftarrow> sms_pdu; onNewBroadcastSms p s }
     else if strStartsWith l ''+CMTI:'' then onNewSmsOnSIM l s
     else if strStartsWith l ''+CDS:'' then do { p \<leftarrow> sms_pdu; Some (onNewStatusReport p s) }
     else if strStartsWith l ''+CGEV:'' then Some (enqueue_event OnDataCallListChanged None s)
     else if strStartsWith l ''+CUSD:'' then unsolicitedUSSD junk l s
     else if strStartsWith l ''+CIEV: 7'' \<or> strStartsWith l ''Received SMS:'' then Some (onNewSmsIndication s)
     else Some s)"

section \<open>The channel comes and goes\<close>

text \<open>Both callbacks also close the queues; see the theory of the request thread.\<close>

definition onATReaderClosed :: "'m ril \<Rightarrow> 'm ril" where
  "onATReaderClosed s = setRadioState RADIO_STATE_UNAVAILABLE s"

definition onATTimeout :: "'m ril \<Rightarrow> 'm ril" where
  "onATTimeout s = setRadioState RADIO_STATE_UNAVAILABLE s"

text \<open>The local time as \<open>strftime\<close> formats it and the zone it gives for \<open>%z\<close>, a sign and four digits;
  \<open>None\<close> when one of the calls fails.\<close>

definition two_digits :: "int \<Rightarrow> string" where
  "two_digits z = (if 0 \<le> z \<and> z < 10 then ''0'' @ dec_int z else dec_int z)"

definition zone_quarters :: "string \<Rightarrow> int" where
  "zone_quarters tz =
    (let num = map (\<lambda>c. int (of_char c) - 48) (tl tz) in
     (num ! 0 * 10 + num ! 1) * 4 + cdiv (num ! 2 * 10 + num ! 3) 15)"

definition sendTime :: "'m at_fun \<Rightarrow> (string \<times> string) option \<Rightarrow> 'm ril \<Rightarrow> 'm ril option" where
  "sendTime send local s =
    (case local of
       None \<Rightarrow> Some s
     | Some (str, tz) \<Rightarrow> do {
         (err, s1) \<leftarrow> at_cmd1 send (''AT+CCLK='' @ quoted (str @ take 1 tz @ two_digits (zone_quarters tz))) s;
         Some s1 })"

text \<open>The commands are format strings.  In the fifth \<open>%A\<close> is a conversion without an argument;
  \<open>printed\<close> is what it prints.\<close>

definition common_initcmd :: "string \<Rightarrow> string list" where
  "common_initcmd printed = [''AT+CFUN=6'', ''ATZV1'', ''ATE0'', ''ATS0=0'', ''AT'' @ printed @ ''UTOANSWER=0'', ''ATQ0'',
     ''ATX3'', ''AT&C1'', ''AT&D1'', ''AT+CMEE=1'', ''AT+CRC=1;+CR=1'', ''AT+CLIP=1'', ''AT+CLIR=0'', ''AT+CCWA=1'',
     ''AT+COLP=0'', ''AT+CUSD=1'', ''AT+CMGF=0'', ''AT+CSSN=0,1'', ''AT+CSCS='' @ quoted ''IRA'', ''AT+FCLASS=0'',
     ''AT+CNMI=1,2,2,2,0'', ''AT'']"

text \<open>The handshake is that of the channel; the result is 1 when the code gives up.\<close>

definition initializeCommon ::
  "'m at_fun \<Rightarrow> ('m \<Rightarrow> (int \<times> 'm) option) \<Rightarrow> (string \<times> string) option \<Rightarrow> string \<Rightarrow> 'm ril \<Rightarrow> (int \<times> 'm ril) option" where
  "initializeCommon send handshake local printed s = do {
     (err, m) \<leftarrow> handshake (modem s);
     let s1 = s\<lparr>modem := m\<rparr>;
     if err < 0 then Some (1, s1)
     else do {
       s2 \<leftarrow> at_all send (common_initcmd printed) s1;
       s3 \<leftarrow> sendTime send local s2;
       Some (0, s3)
     }
   }"

definition channel_initcmd :: "string list" where
  "channel_initcmd = [''AT+CMOD=0'', ''AT+CMUT=0'', ''AT+CREG=2'', ''AT+CGREG=2'',
     ''AT+CGEQREQ=1,4,0,0,0,0,2,0,'' @ quoted ''0E0'' @ '','' @ quoted ''0E0'' @ '',3,0,0'', ''AT^CURC=1'', ''AT+CGEREP=1,0'',
     ''AT^SYSCFG=2,2,3FFFFFFF,1,2'', ''AT^RFSWITCH=0'']"

definition initializeChannel :: "'m at_fun \<Rightarrow> 'm ril \<Rightarrow> (int \<times> 'm ril) option" where
  "initializeChannel send s = do {
     s1 \<leftarrow> at_all send channel_initcmd (setRadioState RADIO_STATE_OFF s);
     (n, s2) \<leftarrow> isRadioOn send s1;
     Some (0, if n > 0 then setRadioState RADIO_STATE_SIM_NOT_READY s2 else s2)
   }"

section \<open>What the handlers leave alone\<close>

text \<open>Nothing that arrives unasked answers a request or uses the channel.\<close>

definition quiet :: "'m ril \<Rightarrow> 'm ril \<Rightarrow> bool" where
  "quiet s s' \<longleftrightarrow> modem s' = modem s \<and> sState s' = sState s \<and> answered s' = answered s \<and> (sim_polled s \<longrightarrow> sim_polled s')"

lemma quiet_simps [simp]:
  "quiet s s" "completed_by x = [] \<Longrightarrow> quiet s (emit x s') = quiet s s'"
  "promised_by (e, d) = [] \<Longrightarrow> quiet s s' \<Longrightarrow> quiet s (enqueue_event e d s')" "quiet s (s\<lparr>sNITZtime := z\<rparr>)"
  by (simp_all add: quiet_def)

lemma new_message_quiet [simp]:
  "quiet s (onNewSms p s)" "quiet s (onNewStatusReport p s)" "quiet s (onNewSmsIndication s)"
  by (simp_all add: quiet_def onNewSms_def onNewStatusReport_def onNewSmsIndication_def enqueue_held_pdu_def Let_def)

lemma onNewBroadcastSms_quiet: "wp True (onNewBroadcastSms p s) (quiet s)"
  unfolding onNewBroadcastSms_def
  by (auto intro!: wps wp_value [where m = "strdup_bytes x" for x] wp_value [where m = "stringToBinary x n y" for x n y]
      simp: quiet_def enqueue_held_pdu_def)

lemma onNewSmsOnSIM_quiet: "wp True (onNewSmsOnSIM l s) (quiet s)"
  unfolding onNewSmsOnSIM_def by (auto intro!: wps parse_any split: option.split)

lemma free_moved_wp [wps]: "b \<or> cur = None \<Longrightarrow> Q () \<Longrightarrow> wp b (free_moved cur) Q"
  by (auto simp: free_moved_def split: option.split)

lemma unsolicited_quiet:
  "wp True (unsolicitedNitzTime l s) (quiet s)" "wp True (unsolicitedRSSI l s) (quiet s)"
  "wp True (unsolicitedMode l s) (quiet s)" "wp True (unsolicitedUSSD junk l s) (quiet s)"
proof -
  show "wp True (unsolicitedNitzTime l s) (quiet s)"
    unfolding unsolicitedNitzTime_def Let_def by (auto intro!: wps wp_value [where m = "v :: string option" for v])
  show "wp True (unsolicitedRSSI l s) (quiet s)" unfolding unsolicitedRSSI_def by (auto intro!: wps)
  show "wp True (unsolicitedMode l s) (quiet s)" unfolding unsolicitedMode_def by (auto intro!: wps)
  show "wp True (unsolicitedUSSD junk l s) (quiet s)"
    by (cases "unsolicitedUSSD junk l s") (auto simp: unsolicitedUSSD_def bind_eq_Some_conv split: option.splits)
qed

lemma onUnsolicited_quiet: "wp True (onUnsolicited junk l p s) (quiet s)"
proof -
  have b: "wp True (Option.bind p f) (quiet s)" if "\<And>x. wp True (f x) (quiet s)" for f
    using that by (cases p) simp_all
  show ?thesis unfolding onUnsolicited_def
    by (intro wp_if b) (simp_all add: unsolicited_quiet onNewBroadcastSms_quiet onNewSmsOnSIM_quiet)
qed

context at_channel
begin

lemma sendTime_wp [wps]:
  assumes "alive (modem s)" "\<And>m. alive m \<Longrightarrow> Q (s\<lparr>modem := m\<rparr>)"
  shows "wp b (sendTime at_send local s) Q"
  unfolding sendTime_def using assms(1) assms(2) [of "modem s"] assms(2)
  by (auto intro!: wps split: option.split)

lemma initializeCommon_wp:
  assumes "alive (modem s)" "\<And>m. alive m \<Longrightarrow> \<exists>e m'. handshake m = Some (e, m') \<and> alive m'"
    "\<And>n m. alive m \<Longrightarrow> Q (n, s\<lparr>modem := m\<rparr>)"
  shows "wp b (initializeCommon at_send handshake local printed s) Q"
proof -
  obtain e m where h: "handshake (modem s) = Some (e, m)" "alive m" using assms(1,2) by blast
  then show ?thesis unfolding initializeCommon_def Let_def using assms(3)
    by (auto intro!: wps simp del: at_all.simps)
qed

lemma initializeChannel_wp:
  assumes "alive (modem s)"
    "\<And>n s'. alive (modem s') \<Longrightarrow> gsm_state (sState s') \<Longrightarrow> answered s' = answered s \<Longrightarrow> sim_polled s' \<Longrightarrow> Q (n, s')"
  shows "wp b (initializeChannel at_send s) Q"
  unfolding initializeChannel_def using assms by (auto intro!: wps simp del: at_all.simps)

end

section \<open>The property\<close>

abbreviation rssi_signal :: "int \<Rightarrow> RIL_SignalStrength" where
  "rssi_signal n \<equiv> \<lparr>GW_signalStrength = n, GW_bitErrorRate = 99, CDMA_dbm = 0, CDMA_ecio = 0, EVDO_dbm = 0, EVDO_ecio = 0,
     EVDO_signalNoiseRatio = 0, LTE_signalStrength = 0, LTE_rsrp = 0, LTE_rsrq = 0, LTE_rssnr = 0, LTE_cqi = 0\<rparr>"

text \<open>C40: a signal strength and a pair of modes are handled when nothing follows them on their line; when
  something does, or when a time zone comes with a time in quotes, a pointer into the copy of the
  line is freed.\<close>

theorem line_freed_inside:
  assumes "dquote \<notin> set tz" "backslash \<notin> set tz" "dquote \<notin> set tm" "backslash \<notin> set tm"
  shows "unsolicitedRSSI (''^RSSI:'' @ dec_int n) s =
      Some (RIL_onUnsolicitedResponse RIL_UNSOL_SIGNAL_STRENGTH (PSignal (rssi_signal (clamp32 n))) sizeof_signal s) \<and>
    unsolicitedMode (''^MODE:'' @ dec_int a @ '','' @ dec_int b) s = Some s \<and>
    unsolicitedRSSI (''^RSSI:'' @ dec_int n @ '','' @ t) s = None \<and>
    unsolicitedMode (''^MODE:'' @ dec_int a @ '','' @ dec_int b @ '','' @ t) s = None \<and>
    unsolicitedNitzTime (''+CTZV:'' @ quoted tz @ '','' @ quoted tm) s = None"
proof -
  note q = nextstr_quoted [of "[]"] and d = nextint_dec_int [of "[]"]
  have "unsolicitedNitzTime (''+CTZV:'' @ quoted tz @ '','' @ quoted tm) s = None"
    using q(1) [of tz] q(2) [of tm] assms
    by (simp add: unsolicitedNitzTime_def quoted_def free_moved_def Option.bind_eq_None_conv)
  then show ?thesis using d(1) d(2) by (simp add: unsolicitedRSSI_def unsolicitedMode_def free_moved_def)
qed

lemma line_freed_inside_witness:
  "unsolicitedRSSI (''^RSSI:'' @ dec_int 18 @ '',99'') (init_ril () sample_env) = None \<and>
    unsolicitedNitzTime (''+CTZV:'' @ quoted ''+08'' @ '','' @ quoted ''12/10/08,19:08:37'') (init_ril () sample_env) = None"
  using line_freed_inside [of "''+08''" "''12/10/08,19:08:37''" 18 "init_ril () sample_env" 3 2 "''99''"] by simp

end
