(* ===== verification/Ril_Dispatch.thy ===== *)
theory Ril_Dispatch
  imports Ril_Unsol
begin

text \<open>
  The entry point of the RIL for requests, from \<open>huaweigeneric-ril.c\<close>: which requests are answered at
  once in which radio state, the handler of each request, and the callbacks of the events.
\<close>

section \<open>The requests\<close>

text \<open>The requests that \<open>processRequest\<close> names; \<open>RIL_REQUEST n\<close> stands for every other number.\<close>

datatype (plugins only: code size) ril_request =
  RIL_REQUEST_GET_CURRENT_CALLS | RIL_REQUEST_SCREEN_STATE | RIL_REQUEST_SETUP_DATA_CALL
  | RIL_REQUEST_DEACTIVATE_DATA_CALL | RIL_REQUEST_LAST_DATA_CALL_FAIL_CAUSE | RIL_REQUEST_DATA_CALL_LIST
  | RIL_REQUEST_SEND_SMS | RIL_REQUEST_SEND_SMS_EXPECT_MORE | RIL_REQUEST_WRITE_SMS_TO_SIM
  | RIL_REQUEST_DELETE_SMS_ON_SIM | RIL_REQUEST_GET_SMSC_ADDRESS | RIL_REQUEST_SET_SMSC_ADDRESS
  | RIL_REQUEST_REPORT_SMS_MEMORY_STATUS | RIL_REQUEST_SMS_ACKNOWLEDGE
  | RIL_REQUEST_GSM_GET_BROADCAST_SMS_CONFIG | RIL_REQUEST_GSM_SET_BROADCAST_SMS_CONFIG
  | RIL_REQUEST_GSM_SMS_BROADCAST_ACTIVATION | RIL_REQUEST_SIM_IO | RIL_REQUEST_GET_SIM_STATUS
  | RIL_REQUEST_ENTER_SIM_PIN | RIL_REQUEST_ENTER_SIM_PUK | RIL_REQUEST_ENTER_SIM_PIN2
  | RIL_REQUEST_ENTER_SIM_PUK2 | RIL_REQUEST_CHANGE_SIM_PIN | RIL_REQUEST_CHANGE_SIM_PIN2
  | RIL_REQUEST_QUERY_FACILITY_LOCK | RIL_REQUEST_SET_FACILITY_LOCK
  | RIL_REQUEST_ENTER_NETWORK_DEPERSONALIZATION | RIL_REQUEST_QUERY_NETWORK_SELECTION_MODE
  | RIL_REQUEST_SET_NETWORK_SELECTION_AUTOMATIC | RIL_REQUEST_SET_NETWORK_SELECTION_MANUAL
  | RIL_REQUEST_QUERY_AVAILABLE_NETWORKS | RIL_REQUEST_SET_PREFERRED_NETWORK_TYPE
  | RIL_REQUEST_GET_PREFERRED_NETWORK_TYPE | RIL_REQUEST_VOICE_REGISTRATION_STATE
  | RIL_REQUEST_DATA_REGISTRATION_STATE | RIL_REQUEST_OEM_HOOK_RAW | RIL_REQUEST_OEM_HOOK_STRINGS
  | RIL_REQUEST_SIGNAL_STRENGTH | RIL_REQUEST_OPERATOR | RIL_REQUEST_RADIO_POWER | RIL_REQUEST_GET_IMSI
  | RIL_REQUEST_GET_IMEI | RIL_REQUEST_GET_IMEISV | RIL_REQUEST_DEVICE_IDENTITY | RIL_REQUEST_BASEBAND_VERSION
  | RIL_REQUEST_STK_SEND_TERMINAL_RESPONSE | RIL_REQUEST_STK_SEND_ENVELOPE_COMMAND | RIL_REQUEST_STK_GET_PROFILE
  | RIL_REQUEST_STK_SET_PROFILE | RIL_REQUEST_REPORT_STK_SERVICE_IS_RUNNING | RIL_REQUEST_DIAL
  | RIL_REQUEST_HANGUP | RIL_REQUEST_HANGUP_WAITING_OR_BACKGROUND
  | RIL_REQUEST_HANGUP_FOREGROUND_RESUME_BACKGROUND | RIL_REQUEST_SWITCH_WAITING_OR_HOLDING_AND_ACTIVE
  | RIL_REQUEST_ANSWER | RIL_REQUEST_CONFERENCE | RIL_REQUEST_UDUB | RIL_REQUEST_SEPARATE_CONNECTION
  | RIL_REQUEST_SET_MUTE | RIL_REQUEST_GET_MUTE | RIL_REQUEST_DTMF | RIL_REQUEST_DTMF_STOP
  | RIL_REQUEST_DTMF_START | RIL_REQUEST_CANCEL_USSD | RIL_REQUEST_QUERY_CALL_WAITING
  | RIL_REQUEST_SET_CALL_WAITING | RIL_REQUEST_QUERY_CALL_FORWARD_STATUS | RIL_REQUEST_SET_CALL_FORWARD
  | RIL_REQUEST_GET_CLIR | RIL_REQUEST_SET_CLIR | RIL_REQUEST_SEND_USSD | RIL_REQUEST_CHANGE_BARRING_PASSWORD
  | RIL_REQUEST_QUERY_CLIP | RIL_REQUEST_RESET_RADIO | RIL_REQUEST_SET_SUPP_SVC_NOTIFICATION
  | RIL_REQUEST_EXPLICIT_CALL_TRANSFER | RIL_REQUEST_SET_LOCATION_UPDATES | RIL_REQUEST_LAST_CALL_FAIL_CAUSE
  | RIL_REQUEST_CDMA_SET_SUBSCRIPTION_SOURCE | RIL_REQUEST_GET_NEIGHBORING_CELL_IDS | RIL_REQUEST int

section \<open>The last handlers\<close>

definition requestStkSendTerminalResponse :: "nat \<Rightarrow> 'm ril \<Rightarrow> 'm ril option" where
  "requestStkSendTerminalResponse t s = Some (RIL_onRequestComplete t RIL_E_SUCCESS PNone 0 s)"

definition requestStkSendEnvelopeCommand :: "nat \<Rightarrow> 'm ril \<Rightarrow> 'm ril option" where
  "requestStkSendEnvelopeCommand t s = Some (RIL_onRequestComplete t RIL_E_SUCCESS (PString ''ok'') sizeof_ptr s)"

definition requestStkGetProfile :: "nat \<Rightarrow> 'm ril \<Rightarrow> 'm ril option" where
  "requestStkGetProfile t s = Some (RIL_onRequestComplete t RIL_E_SUCCESS (PString ''default'') sizeof_ptr s)"

text \<open>The length of the profile is taken.\<close>

definition requestStkSetProfile :: "ril_data \<Rightarrow> nat \<Rightarrow> 'm ril \<Rightarrow> 'm ril option" where
  "requestStkSetProfile dat t s = do {
     p \<leftarrow> data_cstr dat;
     profile \<leftarrow> not_null p;
     Some (RIL_onRequestComplete t RIL_E_SUCCESS PNone 0 s)
   }"

definition requestReportStkServiceIsRunning :: "nat \<Rightarrow> 'm ril \<Rightarrow> 'm ril option" where
  "requestReportStkServiceIsRunning t s = Some (RIL_onRequestComplete t RIL_E_SUCCESS PNone 0 s)"

definition requestCdmaSubscription :: "nat \<Rightarrow> 'm ril \<Rightarrow> 'm ril option" where
  "requestCdmaSubscription t s = Some (RIL_onRequestComplete t RIL_E_SUCCESS PNone 0 s)"

definition requestNotSupported :: "nat \<Rightarrow> 'm ril \<Rightarrow> 'm ril option" where
  "requestNotSupported t s = Some (RIL_onRequestComplete t RIL_E_REQUEST_NOT_SUPPORTED PNone 0 s)"

section \<open>Processing a request\<close>

text \<open>The requests that are let through while the radio is off or the SIM is not ready, and while the
  SIM is locked or absent.\<close>

definition without_sim :: "ril_request \<Rightarrow> bool" where
  "without_sim r \<longleftrightarrow> r \<in> {RIL_REQUEST_RADIO_POWER, RIL_REQUEST_GET_SIM_STATUS, RIL_REQUEST_STK_GET_PROFILE,
     RIL_REQUEST_STK_SET_PROFILE, RIL_REQUEST_REPORT_STK_SERVICE_IS_RUNNING, RIL_REQUEST_GET_IMEISV,
     RIL_REQUEST_GET_IMEI, RIL_REQUEST_BASEBAND_VERSION, RIL_REQUEST_SCREEN_STATE}"

definition with_locked_sim :: "ril_request \<Rightarrow> bool" where
  "with_locked_sim r \<longleftrightarrow> r \<in> {RIL_REQUEST_ENTER_SIM_PIN, RIL_REQUEST_ENTER_SIM_PUK, RIL_REQUEST_ENTER_SIM_PIN2,
     RIL_REQUEST_ENTER_SIM_PUK2, RIL_REQUEST_ENTER_NETWORK_DEPERSONALIZATION, RIL_REQUEST_GET_SIM_STATUS,
     RIL_REQUEST_RADIO_POWER, RIL_REQUEST_GET_IMEISV, RIL_REQUEST_GET_IMEI, RIL_REQUEST_BASEBAND_VERSION,
     RIL_REQUEST_GET_CURRENT_CALLS}"

text \<open>The error that answers a request before it reaches its handler.\<close>

definition refused :: "RIL_RadioState \<Rightarrow> ril_request \<Rightarrow> RIL_Errno option" where
  "refused radio_state r =
    (if radio_state \<noteq> RADIO_STATE_SIM_READY \<and> (r = RIL_REQUEST_WRITE_SMS_TO_SIM \<or> r = RIL_REQUEST_DELETE_SMS_ON_SIM)
     then Some RIL_E_GENERIC_FAILURE
     else if radio_state = RADIO_STATE_UNAVAILABLE \<and> r \<noteq> RIL_REQUEST_GET_SIM_STATUS then Some RIL_E_RADIO_NOT_AVAILABLE
     else if (radio_state = RADIO_STATE_OFF \<or> radio_state = RADIO_STATE_SIM_NOT_READY) \<and> \<not> without_sim r
     then Some RIL_E_RADIO_NOT_AVAILABLE
     else if radio_state = RADIO_STATE_SIM_LOCKED_OR_ABSENT \<and> \<not> with_locked_sim r then Some RIL_E_GENERIC_FAILURE
     else None)"

text \<open>The switch; \<open>junk\<close> is what an uninitialised variable of \<open>requestQueryCallWaiting\<close> holds.\<close>

fun dispatch ::
  "int \<Rightarrow> 'm at_fun \<Rightarrow> ril_request \<Rightarrow> ril_data \<Rightarrow> nat \<Rightarrow> nat \<Rightarrow> 'm ril \<Rightarrow> 'm ril option" where
  "dispatch junk send RIL_REQUEST_GET_CURRENT_CALLS dat len t s = (if getRadioState s = RADIO_STATE_SIM_LOCKED_OR_ABSENT
     then Some (RIL_onRequestComplete t RIL_E_RADIO_NOT_AVAILABLE PNone 0 s) else requestGetCurrentCalls send t s)"
| "dispatch junk send RIL_REQUEST_SCREEN_STATE dat len t s = do {
     s1 \<leftarrow> requestScreenState send dat len t s;
     screenState \<leftarrow> data_int dat 0;
     Some (if screenState = 1 then RIL_onUnsolicitedResponse RIL_UNSOL_RESPONSE_VOICE_NETWORK_STATE_CHANGED PNone 0 s1 else s1)
   }"
| "dispatch junk send RIL_REQUEST_SETUP_DATA_CALL dat len t s = requestSetupDefaultPDP send dat t s"
| "dispatch junk send RIL_REQUEST_DEACTIVATE_DATA_CALL dat len t s = requestDeactivateDefaultPDP send dat t s"
| "dispatch junk send RIL_REQUEST_LAST_DATA_CALL_FAIL_CAUSE dat len t s = requestLastPDPFailCause t s"
| "dispatch junk send RIL_REQUEST_DATA_CALL_LIST dat len t s = requestPDPContextList send t s"
| "dispatch junk send RIL_REQUEST_SEND_SMS dat len t s = requestSendSMS send dat t s"
| "dispatch junk send RIL_REQUEST_SEND_SMS_EXPECT_MORE dat len t s = requestSendSMSExpectMore send dat t s"
| "dispatch junk send RIL_REQUEST_WRITE_SMS_TO_SIM dat len t s = requestWriteSmsToSim send dat t s"
| "dispatch junk send RIL_REQUEST_DELETE_SMS_ON_SIM dat len t s = requestDeleteSmsOnSim send dat t s"
| "dispatch junk send RIL_REQUEST_GET_SMSC_ADDRESS dat len t s = requestGetSMSCAddress send t s"
| "dispatch junk send RIL_REQUEST_SET_SMSC_ADDRESS dat len t s = requestSetSMSCAddress send dat t s"
| "dispatch junk send RIL_REQUEST_REPORT_SMS_MEMORY_STATUS dat len t s = requestSmsStorageFull dat t s"
| "dispatch junk send RIL_REQUEST_SMS_ACKNOWLEDGE dat len t s = requestSMSAcknowledge send dat t s"
| "dispatch junk send RIL_REQUEST_GSM_GET_BROADCAST_SMS_CONFIG dat len t s = requestGSMGetBroadcastSMSConfig send t s"
| "dispatch junk send RIL_REQUEST_GSM_SET_BROADCAST_SMS_CONFIG dat len t s = requestGSMSetBroadcastSMSConfig send dat len t s"
| "dispatch junk send RIL_REQUEST_GSM_SMS_BROADCAST_ACTIVATION dat len t s = requestGSMSMSBroadcastActivation send dat t s"
| "dispatch junk send RIL_REQUEST_SIM_IO dat len t s = requestSIM_IO send dat t s"
| "dispatch junk send RIL_REQUEST_GET_SIM_STATUS dat len t s = requestGetSimStatus send t s"
| "dispatch junk send RIL_REQUEST_ENTER_SIM_PIN dat len t s = requestEnterSimPin send dat len t s"
| "dispatch junk send RIL_REQUEST_ENTER_SIM_PUK dat len t s = requestEnterSimPin send dat len t s"
| "dispatch junk send RIL_REQUEST_ENTER_SIM_PIN2 dat len t s = requestEnterSimPin send dat len t s"
| "dispatch junk send RIL_REQUEST_ENTER_SIM_PUK2 dat len t s = requestEnterSimPin send dat len t s"
| "dispatch junk send RIL_REQUEST_CHANGE_SIM_PIN dat len t s = requestChangePassword send dat len t ''SC'' s"
| "dispatch junk send RIL_REQUEST_CHANGE_SIM_PIN2 dat len t s = requestChangePassword send dat len t ''P2'' s"
| "dispatch junk send RIL_REQUEST_QUERY_FACILITY_LOCK dat len t s = requestQueryFacilityLock send dat len t s"
| "dispatch junk send RIL_REQUEST_SET_FACILITY_LOCK dat len t s = requestSetFacilityLock send dat len t s"
| "dispatch junk send RIL_REQUEST_ENTER_NETWORK_DEPERSONALIZATION dat len t s = requestEnterSimPin send dat len t s"
| "dispatch junk send RIL_REQUEST_QUERY_NETWORK_SELECTION_MODE dat len t s = requestQueryNetworkSelectionMode send t s"
| "dispatch junk send RIL_REQUEST_SET_NETWORK_SELECTION_AUTOMATIC dat len t s = requestSetNetworkSelectionAutomatic send t s"
| "dispatch junk send RIL_REQUEST_SET_NETWORK_SELECTION_MANUAL dat len t s = requestSetNetworkSelectionManual send dat t s"
| "dispatch junk send RIL_REQUEST_QUERY_AVAILABLE_NETWORKS dat len t s = requestQueryAvailableNetworks send t s"
| "dispatch junk send RIL_REQUEST_SET_PREFERRED_NETWORK_TYPE dat len t s = requestSetPreferredNetworkType send dat len t s"
| "dispatch junk send RIL_REQUEST_GET_PREFERRED_NETWORK_TYPE dat len t s = requestGetPreferredNetworkType send t s"
| "dispatch junk send RIL_REQUEST_VOICE_REGISTRATION_STATE dat len t s = requestRegistrationState send t s"
| "dispatch junk send RIL_REQUEST_DATA_REGISTRATION_STATE dat len t s = requestGprsRegistrationState send t s"
| "dispatch junk send RIL_REQUEST_OEM_HOOK_RAW dat len t s = requestOEMHookRaw dat len t s"
| "dispatch junk send RIL_REQUEST_OEM_HOOK_STRINGS dat len t s = requestOEMHookStrings send dat t s"
| "dispatch junk send RIL_REQUEST_SIGNAL_STRENGTH dat len t s = requestSignalStrength send t s"
| "dispatch junk send RIL_REQUEST_OPERATOR dat len t s = requestOperator send t s"
| "dispatch junk send RIL_REQUEST_RADIO_POWER dat len t s = requestRadioPower send dat len t s"
| "dispatch junk send RIL_REQUEST_GET_IMSI dat len t s = requestGetIMSI send t s"
| "dispatch junk send RIL_REQUEST_GET_IMEI dat len t s = requestGetIMEISV t s"
| "dispatch junk send RIL_REQUEST_GET_IMEISV dat len t s = requestGetIMEISV t s"
| "dispatch junk send RIL_REQUEST_DEVICE_IDENTITY dat len t s = requestDeviceIdentity send t s"
| "dispatch junk send RIL_REQUEST_BASEBAND_VERSION dat len t s = requestBasebandVersion send t s"
| "dispatch junk send RIL_REQUEST_STK_SEND_TERMINAL_RESPONSE dat len t s = requestStkSendTerminalResponse t s"
| "dispatch junk send RIL_REQUEST_STK_SEND_ENVELOPE_COMMAND dat len t s = requestStkSendEnvelopeCommand t s"
| "dispatch junk send RIL_REQUEST_STK_GET_PROFILE dat len t s = requestStkGetProfile t s"
| "dispatch junk send RIL_REQUEST_STK_SET_PROFILE dat len t s = requestStkSetProfile dat t s"
| "dispatch junk send RIL_REQUEST_REPORT_STK_SERVICE_IS_RUNNING dat len t s = requestReportStkServiceIsRunning t s"
| "dispatch junk send RIL_REQUEST_DIAL dat len t s = requestDial send dat t s"
| "dispatch junk send RIL_REQUEST_HANGUP dat len t s = requestHangup send dat t s"
| "dispatch junk send RIL_REQUEST_HANGUP_WAITING_OR_BACKGROUND dat len t s = requestHangupWaitingOrBackground send t s"
| "dispatch junk send RIL_REQUEST_HANGUP_FOREGROUND_RESUME_BACKGROUND dat len t s = requestHangupForegroundResumeBackground send t s"
| "dispatch junk send RIL_REQUEST_SWITCH_WAITING_OR_HOLDING_AND_ACTIVE dat len t s = requestSwitchWaitingOrHoldingAndActive send t s"
| "dispatch junk send RIL_REQUEST_ANSWER dat len t s = requestAnswer send t s"
| "dispatch junk send RIL_REQUEST_CONFERENCE dat len t s = requestConference send t s"
| "dispatch junk send RIL_REQUEST_UDUB dat len t s = requestUDUB send t s"
| "dispatch junk send RIL_REQUEST_SEPARATE_CONNECTION dat len t s = requestSeparateConnection send dat t s"
| "dispatch junk send RIL_REQUEST_SET_MUTE dat len t s = requestSetMute send dat len t s"
| "dispatch junk send RIL_REQUEST_GET_MUTE dat len t s = requestGetMute send t s"
| "dispatch junk send RIL_REQUEST_DTMF dat len t s = requestDTMF send dat t s"
| "dispatch junk send RIL_REQUEST_DTMF_STOP dat len t s = requestDtmfStop send t s"
| "dispatch junk send RIL_REQUEST_DTMF_START dat len t s = requestDtmfStart send dat len t s"
| "dispatch junk send RIL_REQUEST_CANCEL_USSD dat len t s = requestCancelUSSD send t s"
| "dispatch junk send RIL_REQUEST_QUERY_CALL_WAITING dat len t s = requestQueryCallWaiting junk send dat t s"
| "dispatch junk send RIL_REQUEST_SET_CALL_WAITING dat len t s = requestSetCallWaiting send dat len t s"
| "dispatch junk send RIL_REQUEST_QUERY_CALL_FORWARD_STATUS dat len t s = requestQueryCallForwardStatus send t s"
| "dispatch junk send RIL_REQUEST_SET_CALL_FORWARD dat len t s = requestSetCallForward send dat t s"
| "dispatch junk send RIL_REQUEST_GET_CLIR dat len t s = requestGetCLIR send t s"
| "dispatch junk send RIL_REQUEST_SET_CLIR dat len t s = requestSetCLIR send dat t s"
| "dispatch junk send RIL_REQUEST_SEND_USSD dat len t s = requestSendUSSD send dat t s"
| "dispatch junk send RIL_REQUEST_CHANGE_BARRING_PASSWORD dat len t s = requestChangeBarringPassword send dat len t s"
| "dispatch junk send RIL_REQUEST_QUERY_CLIP dat len t s = requestQueryCLIP send t s"
| "dispatch junk send RIL_REQUEST_RESET_RADIO dat len t s = requestResetRadio send t s"
| "dispatch junk send RIL_REQUEST_SET_SUPP_SVC_NOTIFICATION dat len t s = requestSetSuppSVCNotification send dat t s"
| "dispatch junk send RIL_REQUEST_EXPLICIT_CALL_TRANSFER dat len t s = requestExplicitCallTransfer send t s"
| "dispatch junk send RIL_REQUEST_SET_LOCATION_UPDATES dat len t s = requestSetLocationUpdates send dat t s"
| "dispatch junk send RIL_REQUEST_LAST_CALL_FAIL_CAUSE dat len t s = requestLastFailCause send t s"
| "dispatch junk send RIL_REQUEST_CDMA_SET_SUBSCRIPTION_SOURCE dat len t s = requestCdmaSubscription t s"
| "dispatch junk send RIL_REQUEST_GET_NEIGHBORING_CELL_IDS dat len t s = requestNeighboringCellIds send t s"
| "dispatch junk send (RIL_REQUEST n) dat len t s =
    (if n = 503 then Some (RIL_onRequestComplete t RIL_E_SUCCESS PNone sizeof_int s)
     else if n = 504 then Some (RIL_onRequestComplete t RIL_E_SUCCESS (PInts [1, 0, 0, 0, 0, 0]) (6 * sizeof_int) s)
     else if n = 525 then Some s
     else requestNotSupported t s)"

definition processRequest ::
  "int \<Rightarrow> 'm at_fun \<Rightarrow> ril_request \<Rightarrow> ril_data \<Rightarrow> nat \<Rightarrow> nat \<Rightarrow> 'm ril \<Rightarrow> 'm ril option" where
  "processRequest junk send r dat len t s =
    (case refused (getRadioState s) r of
       Some e \<Rightarrow> Some (RIL_onRequestComplete t e PNone 0 s)
     | None \<Rightarrow> dispatch junk send r dat len t s)"

text \<open>The callback of an event, as \<open>queueRunner\<close> calls it.\<close>

fun run_event :: "'m at_fun \<Rightarrow> ril_event \<Rightarrow> 'm ril \<Rightarrow> 'm ril option" where
  "run_event send CheckMessageStorageReady s = checkMessageStorageReady send s"
| "run_event send OnSIMReady s = onSIMReady send s"
| "run_event send (PollSIMState p) s = pollSIMState send p s"
| "run_event send IsSimSmsStorageFull s = isSimSmsStorageFull send s"
| "run_event send SendCallStateChanged s = Some (sendCallStateChanged s)"
| "run_event send OnDataCallListChanged s = onDataCallListChanged send s"
| "run_event send (PollOperatorSelected t n) s = pollOperatorSelected send t n s"

section \<open>What the requests carry\<close>

text \<open>The data with which the handler of a request has no fault.  Two handlers read nothing of it and can still have
  one: that of the broadcast configuration when a list of identifiers from the modem ends within an escape, and that of the
  available networks, which follows the null pointer of a failed command (\<open>available_networks_fault\<close>).  A
  message has to name its service centre, as an address that the modem reports may overrun the buffer, and a USSD
  request has to be in ASCII.\<close>

definition has_strings :: "nat \<Rightarrow> ril_data \<Rightarrow> bool" where
  "has_strings n dat \<longleftrightarrow> list_all (\<lambda>i. data_str dat i \<noteq> None) [0 ..< n]"

lemma has_strings_numerals:
  "has_strings 1 dat \<longleftrightarrow> data_str dat 0 \<noteq> None"
  "has_strings 2 dat \<longleftrightarrow> data_str dat 0 \<noteq> None \<and> data_str dat 1 \<noteq> None"
  "has_strings 3 dat \<longleftrightarrow> data_str dat 0 \<noteq> None \<and> data_str dat 1 \<noteq> None \<and> data_str dat 2 \<noteq> None"
  "has_strings 4 dat \<longleftrightarrow> list_all (\<lambda>i. data_str dat i \<noteq> None) [0, 1, 2, 3]"
  by (simp_all add: has_strings_def numeral_eq_Suc)

fun carries :: "ril_request \<Rightarrow> ril_data \<Rightarrow> nat \<Rightarrow> bool" where
  "carries RIL_REQUEST_SCREEN_STATE dat len = (data_int dat 0 \<noteq> None \<and> sizeof_ptr \<le> len)"
| "carries RIL_REQUEST_SETUP_DATA_CALL dat len = userpass_fits dat"
| "carries RIL_REQUEST_DEACTIVATE_DATA_CALL dat len = has_strings 1 dat"
| "carries RIL_REQUEST_SEND_SMS dat len = sms_fits dat"
| "carries RIL_REQUEST_SEND_SMS_EXPECT_MORE dat len = sms_fits dat"
| "carries RIL_REQUEST_WRITE_SMS_TO_SIM dat len = (\<exists>st pdu smsc. dat = DWriteSms st pdu smsc)"
| "carries RIL_REQUEST_DELETE_SMS_ON_SIM dat len = (data_int dat 0 \<noteq> None)"
| "carries RIL_REQUEST_SET_SMSC_ADDRESS dat len = (data_cstr dat \<noteq> None)"
| "carries RIL_REQUEST_REPORT_SMS_MEMORY_STATUS dat len = (data_int dat 0 \<noteq> None)"
| "carries RIL_REQUEST_SMS_ACKNOWLEDGE dat len = (data_int dat 0 \<noteq> None)"
| "carries RIL_REQUEST_GSM_GET_BROADCAST_SMS_CONFIG dat len = False"
| "carries RIL_REQUEST_GSM_SET_BROADCAST_SMS_CONFIG dat len =
    (\<exists>infos. dat = DBroadcast infos \<and> len div sizeof_ptr \<le> length infos)"
| "carries RIL_REQUEST_GSM_SMS_BROADCAST_ACTIVATION dat len = (data_int dat 0 \<noteq> None)"
| "carries RIL_REQUEST_SIM_IO dat len = (\<exists>cmd f p p1 p2 p3 d. dat = DSimIO cmd f p p1 p2 p3 d)"
| "carries RIL_REQUEST_ENTER_SIM_PIN dat len = has_strings (len div sizeof_ptr) dat"
| "carries RIL_REQUEST_ENTER_SIM_PUK dat len = has_strings (len div sizeof_ptr) dat"
| "carries RIL_REQUEST_ENTER_SIM_PIN2 dat len = has_strings (len div sizeof_ptr) dat"
| "carries RIL_REQUEST_ENTER_SIM_PUK2 dat len = has_strings (len div sizeof_ptr) dat"
| "carries RIL_REQUEST_ENTER_NETWORK_DEPERSONALIZATION dat len = has_strings (len div sizeof_ptr) dat"
| "carries RIL_REQUEST_CHANGE_SIM_PIN dat len = has_strings 2 dat"
| "carries RIL_REQUEST_CHANGE_SIM_PIN2 dat len = has_strings 2 dat"
| "carries RIL_REQUEST_QUERY_FACILITY_LOCK dat len = has_strings 3 dat"
| "carries RIL_REQUEST_SET_FACILITY_LOCK dat len = (has_strings 4 dat \<and> data_str dat 0 \<noteq> Some None \<and> data_str dat 1 \<noteq> Some None)"
| "carries RIL_REQUEST_SET_NETWORK_SELECTION_MANUAL dat len = (data_cstr dat \<noteq> None)"
| "carries RIL_REQUEST_QUERY_AVAILABLE_NETWORKS dat len = False"
| "carries RIL_REQUEST_SET_PREFERRED_NETWORK_TYPE dat len = (data_int dat 0 \<noteq> None \<and> sizeof_ptr \<le> len)"
| "carries RIL_REQUEST_OEM_HOOK_STRINGS dat len = (\<exists>c. data_str dat 0 = Some (Some c))"
| "carries RIL_REQUEST_RADIO_POWER dat len = (data_int dat 0 \<noteq> None)"
| "carries RIL_REQUEST_STK_SET_PROFILE dat len = (\<exists>p. data_cstr dat = Some (Some p))"
| "carries RIL_REQUEST_DIAL dat len = (\<exists>a c. dat = DDial a c)"
| "carries RIL_REQUEST_HANGUP dat len = (data_int dat 0 \<noteq> None)"
| "carries RIL_REQUEST_SEPARATE_CONNECTION dat len = (data_int dat 0 \<noteq> None)"
| "carries RIL_REQUEST_SET_MUTE dat len = (data_int dat 0 \<noteq> None \<and> sizeof_ptr \<le> len)"
| "carries RIL_REQUEST_DTMF dat len = (data_char dat \<noteq> None)"
| "carries RIL_REQUEST_DTMF_START dat len = (data_char dat \<noteq> None \<and> sizeof_ptr \<le> len)"
| "carries RIL_REQUEST_QUERY_CALL_WAITING dat len = (data_int dat 0 \<noteq> None)"
| "carries RIL_REQUEST_SET_CALL_WAITING dat len = (data_int dat 0 \<noteq> None \<and> data_int dat 1 \<noteq> None)"
| "carries RIL_REQUEST_SET_CALL_FORWARD dat len = (dat = DNull \<or> (\<exists>f. dat = DForward f))"
| "carries RIL_REQUEST_SET_CLIR dat len = (data_int dat 0 \<noteq> None)"
| "carries RIL_REQUEST_SEND_USSD dat len = ussd_fits dat"
| "carries RIL_REQUEST_CHANGE_BARRING_PASSWORD dat len = (has_strings 3 dat \<and> 3 * sizeof_ptr \<le> len)"
| "carries RIL_REQUEST_SET_SUPP_SVC_NOTIFICATION dat len = (data_int dat 0 \<noteq> None)"
| "carries RIL_REQUEST_SET_LOCATION_UPDATES dat len = (data_int dat 0 \<noteq> None)"
| "carries r dat len = True"

lemma wp_mono: "wp b m P \<Longrightarrow> (\<And>x. P x \<Longrightarrow> Q x) \<Longrightarrow> wp b m Q"
  by (cases m) simp_all

lemma served_emit: "served alive t s s1 \<Longrightarrow> completed_by x = [] \<Longrightarrow> served alive t s (emit x s1)"
  by (simp add: served_def)

text \<open>Only a ready SIM lets the list of calls through to its handler.\<close>

lemma calls_refused:
  "refused st RIL_REQUEST_GET_CURRENT_CALLS = None \<Longrightarrow> gsm_state st \<Longrightarrow> st \<noteq> RADIO_STATE_SIM_LOCKED_OR_ABSENT \<Longrightarrow>
   st = RADIO_STATE_SIM_READY"
  by (auto simp: refused_def gsm_state_def without_sim_def split: if_splits)

context at_channel
begin

lemmas served_rules =
  requestSetupDefaultPDP_served requestDeactivateDefaultPDP_served requestLastPDPFailCause_served
  requestPDPContextList_served  requestWriteSmsToSim_served
  requestDeleteSmsOnSim_served requestGetSMSCAddress_served requestSetSMSCAddress_served requestSmsStorageFull_served
  requestSMSAcknowledge_served  requestGSMSetBroadcastSMSConfig_served
  requestGSMSMSBroadcastActivation_served requestSIM_IO_served requestGetSimStatus_served requestEnterSimPin_served
  requestChangePassword_served requestQueryFacilityLock_served requestSetFacilityLock_served
  requestQueryNetworkSelectionMode_served requestSetNetworkSelectionAutomatic_served
  requestSetNetworkSelectionManual_served  requestSetPreferredNetworkType_served
  network_queries_served requestNeighboringCellIds_served requestOperator_served requestRadioPower_served
  requestOEMHookStrings_served requestGetCurrentCalls_served requestDial_served requestHangup_served
  call_commands_served requestSeparateConnection_served requestSetMute_served call_queries_served requestDTMF_served
  requestDtmfStart_served requestQueryCallWaiting_served requestSetCallWaiting_served
  requestQueryCallForwardStatus_served requestSetCallForward_served requestSetCLIR_served
  requestChangeBarringPassword_served requestResetRadio_served requestSetSuppSVCNotification_served
  requestSetLocationUpdates_served requestScreenState_served

lemma immediate_served:
  assumes "alive (modem s)" "gsm_state (sState s)"
  shows "wp b (requestStkSendTerminalResponse t s) (served alive t s)"
    "wp b (requestStkSendEnvelopeCommand t s) (served alive t s)" "wp b (requestStkGetProfile t s) (served alive t s)"
    "wp b (requestReportStkServiceIsRunning t s) (served alive t s)" "wp b (requestCdmaSubscription t s) (served alive t s)"
  using assms by (simp_all add: served_def requestStkSendTerminalResponse_def requestStkSendEnvelopeCommand_def
      requestStkGetProfile_def requestReportStkServiceIsRunning_def requestCdmaSubscription_def)

lemma dispatch_served:
  assumes "alive (modem s)" "gsm_state (sState s)" "b \<or> carries r dat len" "refused (sState s) r = None" "r \<noteq> RIL_REQUEST 525"
  shows "wp b (dispatch junk at_send r dat len t s) (served alive t s)"
proof (cases r)
  case RIL_REQUEST_GET_CURRENT_CALLS
  then show ?thesis using assms calls_refused [of "sState s"]
    by (auto simp: getRadioState_def served_def intro: requestGetCurrentCalls_served)
next
  case RIL_REQUEST_SCREEN_STATE
  then show ?thesis using assms
    by (auto intro!: wps wp_mono [OF requestScreenState_served] simp: served_emit)
next
  case RIL_REQUEST_SEND_SMS
  then show ?thesis using assms by (auto intro: requestSendSMS_wp)
next
  case RIL_REQUEST_SEND_SMS_EXPECT_MORE
  then show ?thesis using assms by (auto intro: requestSendSMSExpectMore_wp)
next
  case RIL_REQUEST_GSM_GET_BROADCAST_SMS_CONFIG
  then show ?thesis using assms by (auto intro: requestGSMGetBroadcastSMSConfig_served)
next
  case RIL_REQUEST_QUERY_AVAILABLE_NETWORKS
  then show ?thesis using assms by (auto intro: requestQueryAvailableNetworks_served)
next
  case RIL_REQUEST_SEND_USSD
  then show ?thesis using assms by (auto intro: requestSendUSSD_served)
next
  case RIL_REQUEST_STK_SET_PROFILE
  then show ?thesis using assms by (auto intro!: wps sms_values simp: requestStkSetProfile_def served_def)
next
  case (RIL_REQUEST n)
  then show ?thesis using assms by (auto simp: served_def requestNotSupported_def)
qed (insert assms(1-3), (simp only: dispatch.simps carries.simps,
    rule served_rules immediate_served; (assumption | fastforce simp: has_strings_numerals | fastforce simp: has_strings_def))+)

lemma processRequest_served:
  assumes "alive (modem s)" "gsm_state (sState s)" "b \<or> carries r dat len" "r \<noteq> RIL_REQUEST 525"
  shows "wp b (processRequest junk at_send r dat len t s) (served alive t s)"
  using assms dispatch_served [OF assms(1-3) _ assms(4)]
  by (auto simp: processRequest_def getRadioState_def served_def split: option.split)

end

end
