(* ===== verification/Ril_System.thy ===== *)
theory Ril_System
  imports Ril_Dispatch
begin

text \<open>
  The RIL as a whole: requests of the library, events of its own queue, lines the modem sends unasked,
  and the loss and reopening of the channel, in any order.  The thread that runs the handlers is
  modelled in the theory of the request thread; here a step is one handler.
\<close>

section \<open>The steps\<close>

text \<open>Taking an event out of the queue.\<close>

definition take_out :: "nat \<Rightarrow> 'm ril \<Rightarrow> 'm ril" where
  "take_out i s = s\<lparr>events := take i (events s) @ drop (Suc i) (events s)\<rparr>"

text \<open>The log has the requests of the library in the order they came, each with the radio state in which
  it was processed.\<close>

type_synonym ril_log = "(RIL_RadioState \<times> ril_request \<times> nat) list"

text \<open>A new channel can be in any
  state \<open>m'\<close> that \<open>alive\<close> admits, after a handshake with any result.\<close>

inductive ril_step ::
  "'m at_fun \<Rightarrow> ('m \<Rightarrow> bool) \<Rightarrow> ril_log \<times> 'm ril \<Rightarrow> ril_log \<times> 'm ril \<Rightarrow> bool"
  for send :: "'m at_fun" and alive :: "'m \<Rightarrow> bool"
where
  request: "processRequest junk send r dat len t s = Some s' \<Longrightarrow> ril_step send alive (rs, s) (rs @ [(sState s, r, t)], s')"
| event: "i < length (events s) \<Longrightarrow> run_event send (fst (events s ! i)) (take_out i s) = Some s' \<Longrightarrow>
    ril_step send alive (rs, s) (rs, s')"
| unsolicited: "onUnsolicited junk l p s = Some s' \<Longrightarrow> ril_step send alive (rs, s) (rs, s')"
| closed: "ril_step send alive (rs, s) (rs, onATReaderClosed s)"
| timeout: "ril_step send alive (rs, s) (rs, onATTimeout s)"
| opened: "alive m' \<Longrightarrow> initializeCommon send (\<lambda>_. Some (err, m')) local printed s = Some (0, s1) \<Longrightarrow>
    initializeChannel send s1 = Some (n, s2) \<Longrightarrow> ril_step send alive (rs, s) (rs, s2)"

inductive ril_reachable ::
  "'m at_fun \<Rightarrow> ('m \<Rightarrow> bool) \<Rightarrow> 'm ril \<Rightarrow> ril_log \<times> 'm ril \<Rightarrow> bool"
  for send :: "'m at_fun" and alive :: "'m \<Rightarrow> bool" and s0 :: "'m ril"
where
  initial: "ril_reachable send alive s0 ([], s0)"
| step: "ril_reachable send alive s0 x \<Longrightarrow> ril_step send alive x y \<Longrightarrow> ril_reachable send alive s0 y"

inductive_cases ril_stepE: "ril_step send alive (rs, s) y"

text \<open>Every request is to be answered, but the one that \<open>processRequest\<close> forgets when it does not refuse it.\<close>

definition forgotten :: "RIL_RadioState \<Rightarrow> ril_request \<Rightarrow> bool" where
  "forgotten st r \<longleftrightarrow> r = RIL_REQUEST 525 \<and> refused st r = None"

definition to_answer :: "ril_log \<Rightarrow> nat multiset" where
  "to_answer rs = mset (map (\<lambda>(st, r, t). t) (filter (\<lambda>(st, r, t). \<not> forgotten st r) rs))"

definition ril_inv :: "('m \<Rightarrow> bool) \<Rightarrow> ril_log \<times> 'm ril \<Rightarrow> bool" where
  "ril_inv alive x = (case x of (rs, s) \<Rightarrow>
     alive (modem s) \<and> gsm_state (sState s) \<and> sim_polled s \<and> answered s = to_answer rs)"

section \<open>The invariant\<close>

lemma to_answer_snoc [simp]:
  "to_answer [] = {#}"
  "to_answer (rs @ [(st, r, t)]) = (if forgotten st r then to_answer rs else add_mset t (to_answer rs))"
  by (simp_all add: to_answer_def)

lemma take_out_fields [simp]:
  "modem (take_out i s) = modem s" "sState (take_out i s) = sState s" "outputs (take_out i s) = outputs s"
  by (simp_all add: take_out_def)

lemma answered_take_out:
  assumes "i < length (events s)"
  shows "answered s = answered (take_out i s) + mset (promised_by (events s ! i))"
proof -
  have "events s = take i (events s) @ events s ! i # drop (Suc i) (events s)"
    using assms by (rule id_take_nth_drop)
  then have "mset (concat (map promised_by (events s))) = mset (concat (map promised_by (take i (events s)))) +
      (mset (promised_by (events s ! i)) + mset (concat (map promised_by (drop (Suc i) (events s)))))"
    by (metis concat.simps(2) concat_append list.simps(9) map_append mset_append)
  then show ?thesis by (simp add: answered_def take_out_def)
qed

lemma sim_polled_take_out:
  assumes "sim_polled s" "i < length (events s)" "\<And>p d. events s ! i \<noteq> (PollSIMState p, d)"
  shows "sim_polled (take_out i s)"
proof -
  have e: "events s = take i (events s) @ events s ! i # drop (Suc i) (events s)"
    using assms(2) by (rule id_take_nth_drop)
  { fix p d assume "(PollSIMState p, d) \<in> set (events s)"
    then have "(PollSIMState p, d) \<in> set (take i (events s) @ events s ! i # drop (Suc i) (events s))" using e by simp
    with assms(3) have "(PollSIMState p, d) \<in> set (take i (events s)) \<or> (PollSIMState p, d) \<in> set (drop (Suc i) (events s))"
      by (metis Un_iff set_ConsD set_append) }
  then show ?thesis using assms(1) by (auto simp: sim_polled_def take_out_def)
qed

context at_channel
begin

text \<open>The callback of an event answers the request whose poll it is, if it is one.\<close>

lemma run_event_kept:
  assumes "alive (modem s)" "gsm_state (sState s)"
  shows "wp b (run_event at_send e s) (\<lambda>s'. alive (modem s') \<and> gsm_state (sState s') \<and>
    answered s' = answered s + mset (promised_by (e, d)) \<and>
    (sim_polled s \<or> (\<exists>p. e = PollSIMState p) \<longrightarrow> sim_polled s'))"
  using assms by (cases e) (auto intro!: wps wp_mono [OF isSimSmsStorageFull_kept] wp_mono [OF pollOperatorSelected_served]
    simp: kept_def served_def sendCallStateChanged_def)

lemma opened_kept:
  assumes "alive m'" "initializeCommon at_send (\<lambda>_. Some (err, m')) local printed s = Some (0, s1)"
    "initializeChannel at_send s1 = Some (n, s2)" "alive (modem s)"
  shows "alive (modem s2) \<and> gsm_state (sState s2) \<and> answered s2 = answered s \<and> sim_polled s2"
proof -
  from assms(2) obtain m where m: "alive m" "s1 = s\<lparr>modem := m\<rparr>"
    using initializeCommon_wp [OF assms(4), of "\<lambda>_. Some (err, m')" "\<lambda>(n, s1). \<exists>m. alive m \<and> s1 = s\<lparr>modem := m\<rparr>" True local printed]
      assms(1) by auto
  from m assms(3) show ?thesis
    using initializeChannel_wp [of s1 "\<lambda>(n, s'). alive (modem s') \<and> gsm_state (sState s') \<and> answered s' = answered s1 \<and> sim_polled s'" True]
    by auto
qed

lemma ril_step_inv:
  assumes "ril_step at_send alive x y" "ril_inv alive x"
  shows "ril_inv alive y"
  using assms
proof (induction rule: ril_step.induct)
  case (request junk r dat len t s s' rs)
  show ?case
  proof (cases "r = RIL_REQUEST 525")
    case True
    with request show ?thesis
      by (auto simp: ril_inv_def processRequest_def forgotten_def getRadioState_def split: option.splits)
  next
    case False
    have "wp True (processRequest junk at_send r dat len t s) (served alive t s)"
      using request False by (intro processRequest_served) (auto simp: ril_inv_def)
    with request False show ?thesis by (auto simp: ril_inv_def served_def forgotten_def)
  qed
next
  case (event i s s' rs)
  obtain e d where ed: "events s ! i = (e, d)" by (cases "events s ! i")
  from event(3) have "wp True (run_event at_send e (take_out i s)) (\<lambda>s'. alive (modem s') \<and> gsm_state (sState s') \<and>
      answered s' = answered (take_out i s) + mset (promised_by (e, d)) \<and>
      (sim_polled (take_out i s) \<or> (\<exists>p. e = PollSIMState p) \<longrightarrow> sim_polled s'))"
    by (intro run_event_kept) (simp_all add: ril_inv_def)
  with event ed show ?case
    using answered_take_out [OF event(1)] sim_polled_take_out [of s i] by (auto simp: ril_inv_def)
next
  case (unsolicited junk l p s s' rs)
  then show ?case using onUnsolicited_quiet [of junk l p s] by (auto simp: ril_inv_def quiet_def)
next
  case (opened m' err local printed s s1 n s2 rs)
  then show ?case using opened_kept by (auto simp: ril_inv_def)
qed (auto simp: ril_inv_def onATReaderClosed_def onATTimeout_def)

lemma ril_reachable_inv:
  assumes "ril_reachable at_send alive (init_ril m e) x" "alive m"
  shows "ril_inv alive x"
  using assms
proof (induction rule: ril_reachable.induct)
  case initial
  then show ?case by (simp add: ril_inv_def init_ril_def answered_def sim_polled_def)
next
  case (step x y)
  then show ?case using ril_step_inv by blast
qed

end

section \<open>A channel that only says the radio is on\<close>

text \<open>For the examples: what the channel does when writing fails, and when the modem answers
  \<open>AT^RFSWITCH?\<close>.\<close>

lemma failing_command:
  assumes "idle ac" "c \<noteq> []"
  shows "\<exists>e ac'. at_exchange (AtCommand c) (ac, ([], []) # ss) = Some (e, None, (ac', ss)) \<and> idle ac' \<and> timeoutMsec ac' = timeoutMsec ac"
proof -
  obtain x xs where "take (BUFFSIZE - 1) c = x # xs" using assms(2) by (cases c) (auto simp: BUFFSIZE_def)
  then show ?thesis using assms(1)
    by (simp add: at_exchange_def at_send_command_def at_send_command_full_def at_send_command_full_nolock_def Let_def
        send_begin_def writeline_def write_with_def idle_def at_error_numbers clearPendingCommand_def negate_error_def)
qed

lemma failing_commands:
  assumes "idle ac" "list_all (\<lambda>c. c \<noteq> []) cs"
  shows "\<exists>ac'. at_all at_exchange cs (s\<lparr>modem := (ac, replicate (length cs) ([], []) @ ss)\<rparr>) = Some (s\<lparr>modem := (ac', ss)\<rparr>) \<and>
    idle ac' \<and> timeoutMsec ac' = timeoutMsec ac"
  using assms
proof (induction cs arbitrary: ac)
  case (Cons c cs)
  then obtain e ac' where c: "at_exchange (AtCommand c) (ac, ([], []) # replicate (length cs) ([], []) @ ss) =
      Some (e, None, (ac', replicate (length cs) ([], []) @ ss))" "idle ac'" "timeoutMsec ac' = timeoutMsec ac"
    using failing_command [of ac c "replicate (length cs) ([], []) @ ss"] by auto
  with Cons.IH [of ac'] Cons.prems show ?case by (auto simp: at_cmd1_def at_def)
qed auto

lemma radio_on_answer:
  assumes "idle ac" "timeoutMsec ac \<noteq> 0"
  shows "\<exists>ac'. isRadioOn at_exchange (s\<lparr>modem := (ac, ([Wrote 100, Wrote 9], [Line ''^RFSWITCH:1,1'', Line ''OK'', Wake]) # ss)\<rparr>) =
    Some (1, s\<lparr>modem := (ac', ss)\<rparr>)"
proof -
  let ?c = "''AT^RFSWITCH?''" and ?ac = "ac\<lparr>writes := [Wrote 100, Wrote 9, WriteFailed]\<rparr>"
  have f: "\<not> final ''^RFSWITCH:1,1''" "final ''OK''" "final_error ''OK'' = Some 0" "isFinalResponseSuccess ''OK''"
    by (simp_all add: final_def isFinalResponseSuccess_def s_finalResponsesSuccess_def isFinalResponseError_def
        s_finalResponsesError_def final_error_def)
  have a: "answer SINGLELINE (Some ''^RFSWITCH:'') [''^RFSWITCH:1,1''] = [''^RFSWITCH:1,1'']" by (simp add: answer_def)
  have w: "write_main ?c (writes ?ac) = Some (True, ?c, [Wrote 9, WriteFailed])"
    "write_last (CHR 0x0D) [Wrote 9, WriteFailed] = Some (True, [CHR 0x0D], [WriteFailed])" by simp_all
  have "idle ?ac" using assms(1) by (simp add: idle_def)
  from transaction_lines [OF this w, of "[''^RFSWITCH:1,1'']" "''OK''" 0 SINGLELINE "Some ''^RFSWITCH:''" "timeoutMsec ac" True "[TimedOut]"] f a
  obtain ac' es where "at_send_command_full_nolock ?c SINGLELINE (Some ''^RFSWITCH:'') None (timeoutMsec ac) True True
      [Line ''^RFSWITCH:1,1'', Line ''OK'', Wake, TimedOut] ?ac =
     Some (0, Some \<lparr>success = 1, finalResponse = Some ''OK'', p_intermediates = [''^RFSWITCH:1,1'']\<rparr>, ac', es)"
    by simp
  then have "\<exists>ac'. at_exchange (at_single ?c ''^RFSWITCH:'') (ac, ([Wrote 100, Wrote 9], [Line ''^RFSWITCH:1,1'', Line ''OK'', Wake]) # ss) =
    Some (0, Some \<lparr>success = 1, finalResponse = Some ''OK'', p_intermediates = [''^RFSWITCH:1,1'']\<rparr>, (ac', ss))"
    by (simp add: at_exchange_def at_send_command_singleline_def at_send_command_full_def BUFFSIZE_def Let_def
        need_intermediate_def free_on_error_def negate_error_def at_error_numbers)
  moreover have "tok_start ''^RFSWITCH:1,1'' = ret (Some ''1,1'')" "tok_bool (Some ''1,1'') = ret (1, Some ''1'')"
    "tok_bool (Some ''1'') = ret (1, None)"
    by code_simp+
  ultimately show ?thesis by (auto simp: isRadioOn_def query_def at_def at_error_numbers pbind_def ret_def)
qed

lemma opened_radio_on:
  assumes "idle ac" "timeoutMsec ac \<noteq> 0" "printed \<noteq> []"
  shows "\<exists>ac1 s1 s2. at_alive (ac, replicate 31 ([], []) @ [([Wrote 100, Wrote 9], [Line ''^RFSWITCH:1,1'', Line ''OK'', Wake])]) \<and>
    initializeCommon at_exchange
      (\<lambda>_. Some (0, (ac, replicate 31 ([], []) @ [([Wrote 100, Wrote 9], [Line ''^RFSWITCH:1,1'', Line ''OK'', Wake])]))) None printed s = Some (0, s1) \<and>
    initializeChannel at_exchange s1 = Some (0, s2) \<and> sState s2 = RADIO_STATE_SIM_NOT_READY"
proof -
  let ?on = "[([Wrote 100, Wrote 9], [Line ''^RFSWITCH:1,1'', Line ''OK'', Wake])]"
  define fails :: "nat \<Rightarrow> (write_result list \<times> wait_event list) list" where "fails n = replicate n ([], [])" for n
  have n: "length (common_initcmd printed) = 22" "length channel_initcmd = 9"
    and ne: "list_all (\<lambda>c. c \<noteq> []) (common_initcmd printed)" "list_all (\<lambda>c. c \<noteq> []) channel_initcmd"
    by (simp_all add: common_initcmd_def channel_initcmd_def)
  have f: "fails 31 @ ?on = fails 22 @ fails 9 @ ?on"
    by (simp add: fails_def replicate_add [symmetric] flip: append_assoc)
  let ?m = "(ac, fails 22 @ fails 9 @ ?on)" and ?s0 = "setRadioState RADIO_STATE_OFF s"
  obtain ac1 where c: "at_all at_exchange (common_initcmd printed) (s\<lparr>modem := ?m\<rparr>) = Some (s\<lparr>modem := (ac1, fails 9 @ ?on)\<rparr>)"
      "idle ac1" "timeoutMsec ac1 = timeoutMsec ac"
    using failing_commands [OF assms(1) ne(1), of "fails 9 @ ?on" s] unfolding n fails_def by blast
  obtain ac2 where d: "at_all at_exchange channel_initcmd (?s0\<lparr>modem := (ac1, fails 9 @ ?on)\<rparr>) = Some (?s0\<lparr>modem := (ac2, ?on)\<rparr>)"
      "idle ac2" "timeoutMsec ac2 = timeoutMsec ac1"
    using failing_commands [OF c(2) ne(2), of ?on ?s0] unfolding n fails_def by blast
  obtain ac3 where e: "isRadioOn at_exchange (?s0\<lparr>modem := (ac2, ?on)\<rparr>) = Some (1, ?s0\<lparr>modem := (ac3, [])\<rparr>)"
    using radio_on_answer [of ac2 "[]" ?s0] d(2,3) c(3) assms(2) by auto
  let ?s1 = "s\<lparr>modem := (ac1, fails 9 @ ?on)\<rparr>"
  have m: "setRadioState RADIO_STATE_OFF ?s1 = ?s0\<lparr>modem := (ac1, fails 9 @ ?on)\<rparr>"
    by (simp add: setRadioState_def Let_def emit_def)
  have "initializeCommon at_exchange (\<lambda>_. Some (0, ?m)) None printed s = Some (0, ?s1)"
    by (simp add: initializeCommon_def sendTime_def c(1) del: at_all.simps)
  moreover have "initializeChannel at_exchange ?s1 = Some (0, setRadioState RADIO_STATE_SIM_NOT_READY (?s0\<lparr>modem := (ac3, [])\<rparr>))"
    unfolding initializeChannel_def m d(1) by (simp add: e del: at_all.simps)
  moreover have "at_alive (ac, replicate 31 ([], []) @ ?on)"
    using assms(1,2) by (simp add: at_alive_def idle_def tame_def open_escape_def list_all_iff)
  moreover have "replicate 31 ([], []) @ ?on = fails 22 @ fails 9 @ ?on" using f by (simp add: fails_def)
  ultimately show ?thesis by (metis setRadioState_fields(2))
qed

section \<open>The properties\<close>

text \<open>C1: whatever happens in whatever order, every request of the library is answered exactly once, or
  has exactly one poll of the selected operator in the queue that will answer it.  The only
  exception is request 525, which is forgotten.\<close>

theorem requests_answered_once:
  assumes "at_alive m" "ril_reachable at_exchange at_alive (init_ril m e) (rs, s)"
  shows "mset (concat (map completed_by (outputs s))) + mset (concat (map promised_by (events s))) = to_answer rs"
  using atch.ril_reachable_inv [OF assms(2,1)] by (simp add: ril_inv_def answered_def)

lemma requests_answered_once_witness:
  "\<exists>s. ril_reachable at_exchange at_alive (init_ril (sample_context, []) sample_env)
      ([(RADIO_STATE_UNAVAILABLE, RIL_REQUEST_GET_IMEI, 7)], s) \<and>
    mset (concat (map completed_by (outputs s))) + mset (concat (map promised_by (events s))) = {#7#}"
proof -
  let ?init = "init_ril (sample_context, []) sample_env"
  let ?done = "RIL_onRequestComplete 7 RIL_E_RADIO_NOT_AVAILABLE PNone 0 ?init"
  have st: "sState ?init = RADIO_STATE_UNAVAILABLE" by (simp add: init_ril_def)
  have rf: "refused RADIO_STATE_UNAVAILABLE RIL_REQUEST_GET_IMEI = Some RIL_E_RADIO_NOT_AVAILABLE"
    by (simp add: refused_def)
  have p: "processRequest 0 at_exchange RIL_REQUEST_GET_IMEI DNull 0 7 ?init = Some ?done"
    unfolding processRequest_def getRadioState_def st rf by (simp only: option.case)
  have r: "ril_reachable at_exchange at_alive ?init ([(RADIO_STATE_UNAVAILABLE, RIL_REQUEST_GET_IMEI, 7)], ?done)"
    using ril_reachable.step [OF ril_reachable.initial ril_step.request [OF p, of at_alive "[]"]] by (simp only: st append_Nil)
  have ta: "to_answer [(RADIO_STATE_UNAVAILABLE, RIL_REQUEST_GET_IMEI, 7)] = {#7#}" "at_alive (sample_context, [])"
    by (simp_all add: to_answer_def forgotten_def at_alive_def)
  show ?thesis using requests_answered_once [OF ta(2) r, unfolded ta] r by blast
qed

text \<open>C7: while the radio is on and the SIM is not ready, a poll of the SIM is in the queue: the RIL never
  stays behind when the SIM becomes ready.\<close>

theorem sim_not_ready_polled:
  assumes "at_alive m" "ril_reachable at_exchange at_alive (init_ril m e) (rs, s)" "sState s = RADIO_STATE_SIM_NOT_READY"
  shows "\<exists>p d. (PollSIMState p, d) \<in> set (events s)"
  using atch.ril_reachable_inv [OF assms(2,1)] assms(3) by (simp add: ril_inv_def sim_polled_def)

lemma sim_not_ready_polled_witness:
  "\<exists>s. ril_reachable at_exchange at_alive (init_ril (sample_context, []) sample_env) ([], s) \<and>
    sState s = RADIO_STATE_SIM_NOT_READY \<and> (\<exists>p d. (PollSIMState p, d) \<in> set (events s))"
proof -
  let ?s0 = "init_ril (sample_context, []) sample_env"
  obtain s2 where s2: "ril_step at_exchange at_alive ([], ?s0) ([], s2)" "sState s2 = RADIO_STATE_SIM_NOT_READY"
    using opened_radio_on [of sample_context "''0''" ?s0] ril_step.opened by (fastforce simp: idle_def)
  then have r: "ril_reachable at_exchange at_alive ?s0 ([], s2)" by (blast intro: ril_reachable.intros)
  from sim_not_ready_polled [OF _ r s2(2)] r s2(2) show ?thesis by (auto simp: at_alive_def)
qed

text \<open>A query for the available networks faults when the command cannot be written.\<close>

lemma available_networks_fault:
  assumes "idle ac" "modem s = (ac, ([], []) # ss)"
  shows "requestQueryAvailableNetworks at_exchange t s = None"
proof -
  obtain x xs where "take (BUFFSIZE - 1) ''AT+COPS=?'' = x # xs" by (simp add: BUFFSIZE_def)
  then show ?thesis using assms
    by (simp add: requestQueryAvailableNetworks_def at_def at_exchange_def at_send_command_multiline_def at_send_command_full_def
        at_send_command_full_nolock_def Let_def send_begin_def writeline_def write_with_def idle_def at_error_numbers
        clearPendingCommand_def negate_error_def free_on_error_def not_null_def)
qed



end
