(* ===== verification/Request_Data.thy ===== *)
theory Request_Data
  imports Prelude
begin

text \<open>
  The copies that the request queue keeps of the data of its requests, from
  \<open>requestdatahandler.c\<close>: every request is copied when it is queued and the copy is freed when it
  has been handled.  The heap is explicit here, since what matters is which blocks are allocated.
  The table from request numbers to copying functions comes from a header of the system and is a
  parameter.
\<close>

section \<open>The heap\<close>

text \<open>A block is a text, raw bytes, or the 4-byte words of a structure or an array.\<close>

datatype cell = Word int | Pointer "nat option"

datatype block = Text string | Raw bytes | Cells "cell list"

record rheap =
  blocks :: "nat \<Rightarrow> block option"
  fresh :: nat

text \<open>Addresses are not used again; an allocation never fails.\<close>

definition malloc :: "block \<Rightarrow> rheap \<Rightarrow> nat \<times> rheap" where
  "malloc b h = (fresh h, h\<lparr>blocks := (blocks h)(fresh h \<mapsto> b), fresh := fresh h + 1\<rparr>)"

definition mfree :: "nat \<Rightarrow> rheap \<Rightarrow> rheap option" where
  "mfree p h = (if blocks h p = None then None else Some (h\<lparr>blocks := (blocks h)(p := None)\<rparr>))"

definition load :: "nat \<Rightarrow> nat \<Rightarrow> rheap \<Rightarrow> cell option" where
  "load p i h = (case blocks h p of Some (Cells cs) \<Rightarrow> rd cs i | _ \<Rightarrow> None)"

definition store_cell :: "nat \<Rightarrow> nat \<Rightarrow> cell \<Rightarrow> rheap \<Rightarrow> rheap option" where
  "store_cell p i c h = (case blocks h p of
     Some (Cells cs) \<Rightarrow> map_option (\<lambda>cs'. h\<lparr>blocks := (blocks h)(p \<mapsto> Cells cs')\<rparr>) (wr cs i c)
   | _ \<Rightarrow> None)"

definition strdup :: "nat \<Rightarrow> rheap \<Rightarrow> (nat \<times> rheap) option" where
  "strdup p h = (case blocks h p of Some (Text t) \<Rightarrow> Some (malloc (Text t) h) | _ \<Rightarrow> None)"

section \<open>Copying\<close>

text \<open>What \<open>memcpy\<close> copies of a block, in whole words of a structure.\<close>

fun copy_of :: "block \<Rightarrow> nat \<Rightarrow> block option" where
  "copy_of (Raw b) len = (if len \<le> length b then Some (Raw (take len b)) else None)"
| "copy_of (Cells cs) len = (if len mod 4 = 0 \<and> len div 4 \<le> length cs then Some (Cells (take (len div 4) cs)) else None)"
| "copy_of (Text t) len = None"

definition dispatchRaw :: "nat option \<Rightarrow> nat \<Rightarrow> rheap \<Rightarrow> (nat \<times> rheap) option" where
  "dispatchRaw data len h =
    (case data of
       None \<Rightarrow> if len = 0 then Some (malloc (Cells []) h) else None
     | Some p \<Rightarrow> do { b \<leftarrow> blocks h p; c \<leftarrow> copy_of b len; Some (malloc c h) })"

text \<open>For each of some fields or entries: unless it is null, put a copy of what it points to into the
  same place of \<open>dst\<close>.  In the functions for structures \<open>src\<close> is \<open>dst\<close>.\<close>

fun dup_fields :: "(nat \<Rightarrow> rheap \<Rightarrow> (nat \<times> rheap) option) \<Rightarrow> nat list \<Rightarrow> nat \<Rightarrow> nat \<Rightarrow> rheap \<Rightarrow> rheap option" where
  "dup_fields dup [] src dst h = Some h"
| "dup_fields dup (i # is) src dst h = do {
     c \<leftarrow> load src i h;
     h1 \<leftarrow> (case c of
         Pointer (Some q) \<Rightarrow> do { (r, h1) \<leftarrow> dup q h; store_cell dst i (Pointer (Some r)) h1 }
       | Pointer None \<Rightarrow> Some h
       | Word w \<Rightarrow> None);
     dup_fields dup is src dst h1 }"

text \<open>The places of \<open>number\<close>, of \<open>address\<close>, of \<open>path\<close>, \<open>data\<close>, \<open>pin2\<close> and \<open>aidPtr\<close>, and of \<open>pdu\<close> and
  \<open>smsc\<close> in the structures of \<open>ril.h\<close>.\<close>

definition dispatchCallForward :: "nat option \<Rightarrow> nat \<Rightarrow> rheap \<Rightarrow> (nat option \<times> rheap) option" where
  "dispatchCallForward data len h = do {
     (r, h1) \<leftarrow> dispatchRaw data len h; h2 \<leftarrow> dup_fields strdup [4] r r h1; Some (Some r, h2) }"

definition dispatchDial :: "nat option \<Rightarrow> nat \<Rightarrow> rheap \<Rightarrow> (nat option \<times> rheap) option" where
  "dispatchDial data len h = do {
     (r, h1) \<leftarrow> dispatchRaw data len h; h2 \<leftarrow> dup_fields strdup [0] r r h1; Some (Some r, h2) }"

definition dispatchSIM_IO :: "nat option \<Rightarrow> nat \<Rightarrow> rheap \<Rightarrow> (nat option \<times> rheap) option" where
  "dispatchSIM_IO data len h = do {
     (r, h1) \<leftarrow> dispatchRaw data len h; h2 \<leftarrow> dup_fields strdup [2, 6, 7, 8] r r h1; Some (Some r, h2) }"

definition dispatchSmsWrite :: "nat option \<Rightarrow> nat \<Rightarrow> rheap \<Rightarrow> (nat option \<times> rheap) option" where
  "dispatchSmsWrite data len h = do {
     (r, h1) \<leftarrow> dispatchRaw data len h; h2 \<leftarrow> dup_fields strdup [1, 2] r r h1; Some (Some r, h2) }"

definition dispatchString :: "nat option \<Rightarrow> nat \<Rightarrow> rheap \<Rightarrow> (nat option \<times> rheap) option" where
  "dispatchString data len h =
    (if len \<noteq> 4 then None
     else case data of
       Some p \<Rightarrow> map_option (\<lambda>(r, h1). (Some r, h1)) (strdup p h)
     | None \<Rightarrow> Some (None, h))"

text \<open>The entries are read from \<open>data\<close>, which is null for no entries only.\<close>

definition dispatchStrings :: "nat option \<Rightarrow> nat \<Rightarrow> rheap \<Rightarrow> (nat option \<times> rheap) option" where
  "dispatchStrings data len h =
    (if len mod 4 \<noteq> 0 then None
     else let n = len div 4; (r, h1) = malloc (Cells (replicate n (Pointer None))) h in
       case data of
         Some p \<Rightarrow> do { h2 \<leftarrow> dup_fields strdup [0 ..< n] p r h1; Some (Some r, h2) }
       | None \<Rightarrow> if n = 0 then Some (Some r, h1) else None)"

definition BROADCAST_CONFIG_SIZE :: nat where "BROADCAST_CONFIG_SIZE = 20"

text \<open>Only the first entry of the new array is cleared; \<open>junk\<close> is what the others hold.\<close>

definition dispatchGsmBrSmsCnf :: "(nat \<Rightarrow> cell) \<Rightarrow> nat option \<Rightarrow> nat \<Rightarrow> rheap \<Rightarrow> (nat option \<times> rheap) option" where
  "dispatchGsmBrSmsCnf junk data len h =
    (let n = len div 4; (r, h1) = malloc (Cells (map junk [0 ..< n])) h in do {
       h2 \<leftarrow> store_cell r 0 (Pointer None) h1;
       p \<leftarrow> data;
       h3 \<leftarrow> dup_fields (\<lambda>q. dispatchRaw (Some q) BROADCAST_CONFIG_SIZE) [0 ..< n] p r h2;
       Some (Some r, h3) })"

text \<open>\<open>dispatchInts\<close> is \<open>dispatchRaw\<close>, \<open>dispatchDataCall\<close> is \<open>dispatchStrings\<close>, and the functions for
  CDMA are \<open>dummyDispatch\<close>.\<close>

datatype dispatcher = DispatchCallForward | DispatchDial | DispatchSIM_IO | DispatchSmsWrite | DispatchString
  | DispatchStrings | DispatchRaw | DispatchVoid | DispatchGsmBrSmsCnf | DummyDispatch

fun dispatchFunction :: "(nat \<Rightarrow> cell) \<Rightarrow> dispatcher \<Rightarrow> nat option \<Rightarrow> nat \<Rightarrow> rheap \<Rightarrow> (nat option \<times> rheap) option" where
  "dispatchFunction junk DispatchCallForward data len h = dispatchCallForward data len h"
| "dispatchFunction junk DispatchDial data len h = dispatchDial data len h"
| "dispatchFunction junk DispatchSIM_IO data len h = dispatchSIM_IO data len h"
| "dispatchFunction junk DispatchSmsWrite data len h = dispatchSmsWrite data len h"
| "dispatchFunction junk DispatchString data len h = dispatchString data len h"
| "dispatchFunction junk DispatchStrings data len h = dispatchStrings data len h"
| "dispatchFunction junk DispatchRaw data len h = map_option (\<lambda>(r, h1). (Some r, h1)) (dispatchRaw data len h)"
| "dispatchFunction junk DispatchVoid data len h = Some (None, h)"
| "dispatchFunction junk DispatchGsmBrSmsCnf data len h = dispatchGsmBrSmsCnf junk data len h"
| "dispatchFunction junk DummyDispatch data len h = Some (None, h)"

text \<open>\<open>&s_commandInfo[requestId]\<close>\<close>

definition command_info :: "dispatcher list \<Rightarrow> int \<Rightarrow> dispatcher option" where
  "command_info table requestId = (if requestId < 0 then None else rd table (nat requestId))"

definition dupRequestData ::
  "(nat \<Rightarrow> cell) \<Rightarrow> dispatcher list \<Rightarrow> int \<Rightarrow> nat option \<Rightarrow> nat \<Rightarrow> rheap \<Rightarrow> (nat option \<times> rheap) option" where
  "dupRequestData junk table requestId data len h = do {
     ci \<leftarrow> command_info table requestId;
     dispatchFunction junk ci data len h }"

section \<open>Freeing\<close>

text \<open>For each of some fields or entries: unless it is null, free what it points to.\<close>

fun free_fields :: "nat list \<Rightarrow> nat \<Rightarrow> rheap \<Rightarrow> rheap option" where
  "free_fields [] p h = Some h"
| "free_fields (i # is) p h = do {
     c \<leftarrow> load p i h;
     h1 \<leftarrow> (case c of Pointer (Some q) \<Rightarrow> mfree q h | Pointer None \<Rightarrow> Some h | Word w \<Rightarrow> None);
     free_fields is p h1 }"

definition freeDial :: "nat \<Rightarrow> rheap \<Rightarrow> rheap option" where
  "freeDial p h = do { h1 \<leftarrow> free_fields [0] p h; mfree p h1 }"

definition freeStrings :: "nat \<Rightarrow> nat \<Rightarrow> rheap \<Rightarrow> rheap option" where
  "freeStrings p len h = do { h1 \<leftarrow> free_fields [0 ..< len div 4] p h; mfree p h1 }"

text \<open>The number of entries is computed with the size of a structure, not of a pointer.\<close>

definition freeGsmBrSmsCnf :: "nat \<Rightarrow> nat \<Rightarrow> rheap \<Rightarrow> rheap option" where
  "freeGsmBrSmsCnf p len h = do { h1 \<leftarrow> free_fields [0 ..< len div BROADCAST_CONFIG_SIZE] p h; mfree p h1 }"

definition freeSIM_IO :: "nat \<Rightarrow> rheap \<Rightarrow> rheap option" where
  "freeSIM_IO p h = do { h1 \<leftarrow> free_fields [2, 6, 7, 8] p h; mfree p h1 }"

definition freeSmsWrite :: "nat \<Rightarrow> rheap \<Rightarrow> rheap option" where
  "freeSmsWrite p h = do { h1 \<leftarrow> free_fields [1, 2] p h; mfree p h1 }"

definition freeCallForward :: "nat \<Rightarrow> rheap \<Rightarrow> rheap option" where
  "freeCallForward p h = do { h1 \<leftarrow> free_fields [4] p h; mfree p h1 }"

text \<open>The functions for structures follow the pointer they are given.\<close>

fun free_kind :: "dispatcher \<Rightarrow> nat option \<Rightarrow> nat \<Rightarrow> rheap \<Rightarrow> rheap option" where
  "free_kind DispatchRaw data len h = (case data of Some p \<Rightarrow> mfree p h | None \<Rightarrow> Some h)"
| "free_kind DispatchString data len h = (case data of Some p \<Rightarrow> mfree p h | None \<Rightarrow> Some h)"
| "free_kind DispatchStrings data len h = (case data of
     Some p \<Rightarrow> freeStrings p len h | None \<Rightarrow> if len div 4 = 0 then Some h else None)"
| "free_kind DispatchSIM_IO data len h = do { p \<leftarrow> data; freeSIM_IO p h }"
| "free_kind DispatchDial data len h = do { p \<leftarrow> data; freeDial p h }"
| "free_kind DispatchVoid data len h = Some h"
| "free_kind DispatchCallForward data len h = do { p \<leftarrow> data; freeCallForward p h }"
| "free_kind DispatchSmsWrite data len h = do { p \<leftarrow> data; freeSmsWrite p h }"
| "free_kind DispatchGsmBrSmsCnf data len h = (case data of
     Some p \<Rightarrow> freeGsmBrSmsCnf p len h | None \<Rightarrow> if len div BROADCAST_CONFIG_SIZE = 0 then Some h else None)"
| "free_kind DummyDispatch data len h = Some h"

definition freeRequestData :: "dispatcher list \<Rightarrow> int \<Rightarrow> nat option \<Rightarrow> nat \<Rightarrow> rheap \<Rightarrow> rheap option" where
  "freeRequestData table requestId data len h = do {
     ci \<leftarrow> command_info table requestId;
     free_kind ci data len h }"

section \<open>What the copies point to\<close>

definition heap_ok :: "rheap \<Rightarrow> bool" where
  "heap_ok h \<longleftrightarrow> (\<forall>a. fresh h \<le> a \<longrightarrow> blocks h a = None)"

text \<open>What the fields of a structure point to.\<close>

fun field_ptrs :: "nat list \<Rightarrow> cell list \<Rightarrow> nat list" where
  "field_ptrs [] cs = []"
| "field_ptrs (i # is) cs = (case cs ! i of Pointer (Some q) \<Rightarrow> [q] | _ \<Rightarrow> []) @ field_ptrs is cs"

lemma heap_okD: "heap_ok h \<Longrightarrow> blocks h a = Some b \<Longrightarrow> a < fresh h"
  by (metis heap_ok_def leI option.distinct(1))

lemma malloc_simps [simp]:
  "fst (malloc b h) = fresh h" "blocks (snd (malloc b h)) = (blocks h)(fresh h \<mapsto> b)" "fresh (snd (malloc b h)) = fresh h + 1"
  by (simp_all add: malloc_def)

lemma malloc_ok: "heap_ok h \<Longrightarrow> heap_ok (snd (malloc b h))"
  by (auto simp: heap_ok_def)

lemma store_Cells:
  "blocks h p = Some (Cells cs) \<Longrightarrow> i < length cs \<Longrightarrow>
   store_cell p i c h = Some (h\<lparr>blocks := (blocks h)(p \<mapsto> Cells (cs[i := c]))\<rparr>)"
  by (simp add: store_cell_def wr_Some)

lemma load_Cells: "blocks h p = Some (Cells cs) \<Longrightarrow> i < length cs \<Longrightarrow> load p i h = Some (cs ! i)"
  by (simp add: load_def rd_Some)

lemma field_ptrs_cong: "(\<And>i. i \<in> set is \<Longrightarrow> cs ! i = ds ! i) \<Longrightarrow> field_ptrs is cs = field_ptrs is ds"
  by (induction "is") auto

lemma field_ptrs_in: "i \<in> set is \<Longrightarrow> cs ! i = Pointer (Some q) \<Longrightarrow> q \<in> set (field_ptrs is cs)"
  by (induction "is") auto

text \<open>Freeing the fields frees what they point to, and nothing else.\<close>

lemma free_fields_ok:
  "blocks h p = Some (Cells cs) \<Longrightarrow> \<forall>i\<in>set is. i < length cs \<and> (\<forall>w. cs ! i \<noteq> Word w) \<Longrightarrow>
   distinct (field_ptrs is cs) \<Longrightarrow> \<forall>q\<in>set (field_ptrs is cs). q \<noteq> p \<and> blocks h q \<noteq> None \<Longrightarrow>
   free_fields is p h = Some (h\<lparr>blocks := blocks h |` (- set (field_ptrs is cs))\<rparr>)"
proof (induction "is" arbitrary: h)
  case Nil
  then show ?case by (simp add: restrict_map_def)
next
  case (Cons i "is")
  have l: "load p i h = Some (cs ! i)" using Cons.prems by (simp add: load_Cells)
  show ?case
  proof (cases "cs ! i")
    case (Word w)
    with Cons.prems(2) show ?thesis by simp
  next
    case (Pointer x)
    show ?thesis
    proof (cases x)
      case None
      with Pointer l Cons show ?thesis by simp
    next
      case (Some q)
      let ?h = "h\<lparr>blocks := (blocks h)(q := None)\<rparr>"
      have f: "mfree q h = Some ?h" using Cons.prems(4) Pointer Some by (simp add: mfree_def)
      have "free_fields is p ?h = Some (?h\<lparr>blocks := blocks ?h |` (- set (field_ptrs is cs))\<rparr>)"
        using Cons.prems Pointer Some by (intro Cons.IH) auto
      moreover have "(blocks h)(q := None) |` (- set (field_ptrs is cs)) = blocks h |` (- insert q (set (field_ptrs is cs)))"
        by (auto simp: restrict_map_def fun_eq_iff)
      ultimately show ?thesis using l f Pointer Some by simp
    qed
  qed
qed

text \<open>What \<open>dup_fields\<close> relies on: the copy of a block is a new block with the same contents.\<close>

locale copier =
  fixes dup :: "nat \<Rightarrow> rheap \<Rightarrow> (nat \<times> rheap) option" and good :: "block \<Rightarrow> bool"
  assumes dup_good: "blocks h q = Some b \<Longrightarrow> good b \<Longrightarrow> dup q h = Some (malloc b h)"
begin

lemma dup_fields_ok:
  "heap_ok h \<Longrightarrow> blocks h src = Some (Cells cs) \<Longrightarrow> blocks h dst = Some (Cells ds) \<Longrightarrow> distinct is \<Longrightarrow>
   \<forall>i\<in>set is. i < length cs \<and> i < length ds \<and> (cs ! i = Pointer None \<and> ds ! i = Pointer None \<or>
     (\<exists>q b. cs ! i = Pointer (Some q) \<and> q \<noteq> dst \<and> blocks h q = Some b \<and> good b)) \<Longrightarrow>
   \<exists>h' ds'. dup_fields dup is src dst h = Some h' \<and> heap_ok h' \<and> fresh h \<le> fresh h' \<and>
     blocks h' dst = Some (Cells ds') \<and> length ds' = length ds \<and>
     (\<forall>a<fresh h. a \<noteq> dst \<longrightarrow> blocks h' a = blocks h a) \<and>
     (\<forall>j. j \<notin> set is \<longrightarrow> ds' ! j = ds ! j) \<and>
     (\<forall>i\<in>set is. cs ! i = Pointer None \<and> ds' ! i = Pointer None \<or>
        (\<exists>q r. cs ! i = Pointer (Some q) \<and> ds' ! i = Pointer (Some r) \<and> blocks h' r = blocks h q)) \<and>
     distinct (field_ptrs is ds') \<and> set (field_ptrs is ds') = {fresh h ..< fresh h'} \<and>
     (\<forall>a\<in>{fresh h ..< fresh h'}. blocks h' a \<noteq> None)"
proof (induction "is" arbitrary: h cs ds)
  case Nil
  then show ?case by simp
next
  case (Cons i "is")
  have l: "load src i h = Some (cs ! i)" using Cons.prems by (simp add: load_Cells)
  have dst: "dst < fresh h" using Cons.prems(1,3) by (rule heap_okD)
  show ?case
  proof (cases "cs ! i = Pointer None")
    case True
    with Cons.prems(5) have d: "ds ! i = Pointer None" by auto
    obtain h' ds' where "dup_fields dup is src dst h = Some h'" and r: "heap_ok h'" "fresh h \<le> fresh h'"
        "blocks h' dst = Some (Cells ds')" "length ds' = length ds"
        "\<forall>a<fresh h. a \<noteq> dst \<longrightarrow> blocks h' a = blocks h a" "\<forall>j. j \<notin> set is \<longrightarrow> ds' ! j = ds ! j"
        "\<forall>i\<in>set is. cs ! i = Pointer None \<and> ds' ! i = Pointer None \<or>
          (\<exists>q r. cs ! i = Pointer (Some q) \<and> ds' ! i = Pointer (Some r) \<and> blocks h' r = blocks h q)"
        "distinct (field_ptrs is ds')" "set (field_ptrs is ds') = {fresh h ..< fresh h'}"
        "\<forall>a\<in>{fresh h ..< fresh h'}. blocks h' a \<noteq> None"
      using Cons.IH [of h cs ds] Cons.prems by auto
    moreover have "ds' ! i = Pointer None" using r(6) d Cons.prems(4) by simp
    ultimately show ?thesis using l True by (intro exI [of _ h'] exI [of _ ds']) auto
  next
    case False
    then obtain q b where q: "cs ! i = Pointer (Some q)" "q \<noteq> dst" "blocks h q = Some b" "good b"
      using Cons.prems(5) by auto
    let ?r = "fresh h" and ?h1 = "snd (malloc b h)"
    define ds2 where "ds2 = ds[i := Pointer (Some ?r)]"
    define cs2 where "cs2 = (if src = dst then ds2 else cs)"
    define h2 where "h2 = ?h1\<lparr>blocks := (blocks ?h1)(dst \<mapsto> Cells ds2)\<rparr>"
    have st: "store_cell dst i (Pointer (Some ?r)) ?h1 = Some h2"
      using Cons.prems(3,5) dst by (simp add: store_Cells h2_def ds2_def)
    have dup: "dup q h = Some (?r, ?h1)" using dup_good [OF q(3,4)] by (metis malloc_simps(1) prod.collapse)
    have src: "src = dst \<Longrightarrow> cs = ds" using Cons.prems(2,3) by simp
    have c2: "j \<in> set is \<Longrightarrow> cs2 ! j = cs ! j \<and> ds2 ! j = ds ! j" for j
    proof -
      assume "j \<in> set is"
      then have "i \<noteq> j" using Cons.prems(4) by auto
      then show ?thesis using src by (simp add: cs2_def ds2_def)
    qed
    have ls: "length cs2 = length cs" using src by (auto simp: cs2_def ds2_def)
    have q': "q < fresh h" using Cons.prems(1) q(3) by (rule heap_okD)
    have "src < fresh h" using Cons.prems(1,2) by (rule heap_okD)
    then have b2: "blocks h2 src = Some (Cells cs2)" "blocks h2 dst = Some (Cells ds2)" "fresh h2 = fresh h + 1"
      using Cons.prems(2) by (auto simp: h2_def cs2_def)
    have old: "blocks h2 a = blocks h a" if "a < fresh h" "a \<noteq> dst" for a using that by (simp add: h2_def)
    have ok2: "heap_ok h2" using Cons.prems(1) dst by (auto simp: heap_ok_def h2_def)
    have d2: "distinct is" using Cons.prems(4) by simp
    have f2: "\<forall>i\<in>set is. i < length cs2 \<and> i < length ds2 \<and> (cs2 ! i = Pointer None \<and> ds2 ! i = Pointer None \<or>
        (\<exists>q b. cs2 ! i = Pointer (Some q) \<and> q \<noteq> dst \<and> blocks h2 q = Some b \<and> good b))"
      using Cons.prems(5) c2 ls old heap_okD [OF Cons.prems(1)] by (fastforce simp: ds2_def)
    obtain h' ds' where d: "dup_fields dup is src dst h2 = Some h'" and r: "heap_ok h'" "fresh h2 \<le> fresh h'"
        "blocks h' dst = Some (Cells ds')" "length ds' = length ds2"
        "\<forall>a<fresh h2. a \<noteq> dst \<longrightarrow> blocks h' a = blocks h2 a" "\<forall>j. j \<notin> set is \<longrightarrow> ds' ! j = ds2 ! j"
        "\<forall>i\<in>set is. cs2 ! i = Pointer None \<and> ds' ! i = Pointer None \<or>
          (\<exists>q r. cs2 ! i = Pointer (Some q) \<and> ds' ! i = Pointer (Some r) \<and> blocks h' r = blocks h2 q)"
        "distinct (field_ptrs is ds')" "set (field_ptrs is ds') = {fresh h2 ..< fresh h'}"
        "\<forall>a\<in>{fresh h2 ..< fresh h'}. blocks h' a \<noteq> None"
      using Cons.IH [OF ok2 b2(1,2) d2 f2] by (elim exE conjE) (rule that)
    have i: "ds' ! i = Pointer (Some ?r)" using r(6) Cons.prems(4,5) by (simp add: ds2_def)
    have fr: "blocks h' ?r = Some b" using r(5) b2(3) dst by (simp add: h2_def)
    have fields: "\<forall>k\<in>set (i # is). cs ! k = Pointer None \<and> ds' ! k = Pointer None \<or>
        (\<exists>q r. cs ! k = Pointer (Some q) \<and> ds' ! k = Pointer (Some r) \<and> blocks h' r = blocks h q)"
    proof
      fix k assume k: "k \<in> set (i # is)"
      show "cs ! k = Pointer None \<and> ds' ! k = Pointer None \<or>
        (\<exists>q r. cs ! k = Pointer (Some q) \<and> ds' ! k = Pointer (Some r) \<and> blocks h' r = blocks h q)"
      proof (cases "k = i")
        case True
        with q i fr show ?thesis by simp
      next
        case False
        with k have "k \<in> set is" by simp
        with r(7) c2 Cons.prems(5) old heap_okD [OF Cons.prems(1)] show ?thesis by fastforce
      qed
    qed
    have "\<forall>a<fresh h. a \<noteq> dst \<longrightarrow> blocks h' a = blocks h a" using r(5) b2(3) old by simp
    moreover have "\<forall>j. j \<notin> set (i # is) \<longrightarrow> ds' ! j = ds ! j" using r(6) by (simp add: ds2_def)
    moreover have new: "{fresh h ..< fresh h'} = insert (fresh h) {fresh h2 ..< fresh h'}" using r(2) b2(3) by auto
    moreover have "set (field_ptrs (i # is) ds') = {fresh h ..< fresh h'}" "distinct (field_ptrs (i # is) ds')"
      unfolding new field_ptrs.simps i using r(8,9) b2(3) by simp_all
    moreover have "\<forall>a\<in>{fresh h ..< fresh h'}. blocks h' a \<noteq> None" unfolding new using r(10) fr by simp
    ultimately show ?thesis using l dup st d q(1) r(1-4) b2(3) fields
      by (intro exI [of _ h'] exI [of _ ds']) (simp add: ds2_def)
  qed
qed

end

interpretation text_copy: copier strdup "\<lambda>b. \<exists>t. b = Text t"
  by unfold_locales (auto simp: strdup_def)

interpretation config_copy: copier "\<lambda>q. dispatchRaw (Some q) BROADCAST_CONFIG_SIZE" "\<lambda>b. \<exists>cs. b = Cells cs \<and> length cs = 5"
  by unfold_locales (auto simp: dispatchRaw_def BROADCAST_CONFIG_SIZE_def)

section \<open>Copies are complete, and freed completely\<close>

text \<open>The places that a function for structures copies.\<close>

fun places :: "dispatcher \<Rightarrow> nat \<Rightarrow> nat list" where
  "places DispatchCallForward n = [4]"
| "places DispatchDial n = [0]"
| "places DispatchSIM_IO n = [2, 6, 7, 8]"
| "places DispatchSmsWrite n = [1, 2]"
| "places DispatchStrings n = [0 ..< n]"
| "places _ n = []"

text \<open>The fields of a structure, with what the copied places point to in the place of the pointers.\<close>

definition fields_view :: "nat list \<Rightarrow> cell list \<Rightarrow> rheap \<Rightarrow> (cell + block option) list" where
  "fields_view is cs h = map (\<lambda>i. case cs ! i of
      Pointer (Some q) \<Rightarrow> if i \<in> set is then Inr (blocks h q) else Inl (cs ! i) | c \<Rightarrow> Inl c) [0 ..< length cs]"

text \<open>All that a handler can see of the data of a request.\<close>

definition request_view :: "dispatcher \<Rightarrow> nat option \<Rightarrow> rheap \<Rightarrow> ((cell + block option) list + block option) option" where
  "request_view k data h = (case data of None \<Rightarrow> None | Some p \<Rightarrow>
     if k = DispatchVoid then None
     else Some (case blocks h p of
        Some (Cells cs) \<Rightarrow> Inl (fields_view (places k (length cs)) cs h) | b \<Rightarrow> Inr b))"

text \<open>A field that is null or points to a text.\<close>

definition text_field :: "rheap \<Rightarrow> cell \<Rightarrow> bool" where
  "text_field h c = (case c of Word w \<Rightarrow> False | Pointer None \<Rightarrow> True
     | Pointer (Some q) \<Rightarrow> (case blocks h q of Some (Text t) \<Rightarrow> True | _ \<Rightarrow> False))"

text \<open>The data that the library sends with a request.\<close>

fun request_data :: "dispatcher \<Rightarrow> nat option \<Rightarrow> nat \<Rightarrow> rheap \<Rightarrow> bool" where
  "request_data DispatchRaw data len h = (case data of None \<Rightarrow> False | Some p \<Rightarrow>
     (case blocks h p of Some (Raw b) \<Rightarrow> len = length b | Some (Cells cs) \<Rightarrow> len = 4 * length cs | _ \<Rightarrow> False))"
| "request_data DispatchString data len h = (len = 4 \<and> (case data of None \<Rightarrow> True | Some p \<Rightarrow>
     (case blocks h p of Some (Text t) \<Rightarrow> True | _ \<Rightarrow> False)))"
| "request_data DispatchVoid data len h = True"
| "request_data DispatchGsmBrSmsCnf data len h = False"
| "request_data DummyDispatch data len h = False"
| "request_data k data len h = (case data of None \<Rightarrow> False | Some p \<Rightarrow>
     (case blocks h p of
        Some (Cells cs) \<Rightarrow> len = 4 * length cs \<and> (\<forall>i\<in>set (places k (length cs)). i < length cs \<and>
          text_field h (cs ! i))
      | _ \<Rightarrow> False))"

lemma fields_view_eq:
  "length ds = length cs \<Longrightarrow> \<forall>i<length cs. i \<notin> set is \<longrightarrow> ds ! i = cs ! i \<Longrightarrow>
   \<forall>i\<in>set is. cs ! i = Pointer None \<and> ds ! i = Pointer None \<or>
     (\<exists>q r. cs ! i = Pointer (Some q) \<and> ds ! i = Pointer (Some r) \<and> blocks g r = blocks h q) \<Longrightarrow>
   fields_view is ds g = fields_view is cs h"
  unfolding fields_view_def by (intro map_cong) (auto split: cell.splits option.splits, fastforce+)

lemma field_ptrs_append: "field_ptrs (xs @ ys) cs = field_ptrs xs cs @ field_ptrs ys cs"
  by (induction xs) auto

lemma copy_and_free:
  assumes h: "heap_ok h" and p: "blocks h p = Some (Cells cs)" and d: "distinct is"
    and i: "\<forall>i\<in>set is. i < length cs \<and> (cs ! i = Pointer None \<or> (\<exists>q t. cs ! i = Pointer (Some q) \<and> blocks h q = Some (Text t)))"
    and ds: "src = fresh h \<and> ds = cs \<or> src = p \<and> ds = replicate (length cs) (Pointer None) \<and> set is = {..<length cs}"
  shows "\<exists>h'. dup_fields strdup is src (fresh h) (snd (malloc (Cells ds) h)) = Some h' \<and> fresh h < fresh h' \<and>
    (\<forall>a<fresh h. blocks h' a = blocks h a) \<and>
    (\<forall>g. (\<forall>a\<in>{fresh h ..< fresh h'}. blocks g a = blocks h' a) \<longrightarrow>
       (\<exists>ds'. blocks g (fresh h) = Some (Cells ds') \<and> length ds' = length cs \<and> fields_view is ds' g = fields_view is cs h) \<and>
       Option.bind (free_fields is (fresh h) g) (mfree (fresh h)) = Some (g\<lparr>blocks := blocks g |` (- {fresh h ..< fresh h'})\<rparr>))"
proof -
  let ?r = "fresh h" and ?h1 = "snd (malloc (Cells ds) h)"
  have pf: "p < fresh h" using h p by (rule heap_okD)
  then have src: "blocks ?h1 src = Some (Cells cs)" using ds p by (elim disjE conjE) simp_all
  have len: "length ds = length cs" using ds by (elim disjE conjE) simp_all
  have q: "\<forall>i\<in>set is. i < length cs \<and> i < length ds \<and> (cs ! i = Pointer None \<and> ds ! i = Pointer None \<or>
     (\<exists>q b. cs ! i = Pointer (Some q) \<and> q \<noteq> ?r \<and> blocks ?h1 q = Some b \<and> (\<exists>t. b = Text t)))"
  proof
    fix j assume j: "j \<in> set is"
    with i consider "cs ! j = Pointer None" | q t where "cs ! j = Pointer (Some q)" "blocks h q = Some (Text t)" by blast
    then show "j < length cs \<and> j < length ds \<and> (cs ! j = Pointer None \<and> ds ! j = Pointer None \<or>
     (\<exists>q b. cs ! j = Pointer (Some q) \<and> q \<noteq> ?r \<and> blocks ?h1 q = Some b \<and> (\<exists>t. b = Text t)))"
    proof cases
      case 1
      moreover have "j < length cs" using j i by blast
      moreover have "ds ! j = Pointer None" using ds calculation by (elim disjE conjE) simp_all
      ultimately show ?thesis using len by simp
    next
      case 2
      then have "q < fresh h" using heap_okD [OF h] by blast
      moreover have "j < length cs" using j i by blast
      ultimately show ?thesis using 2 len by simp
    qed
  qed
  have hk: "heap_ok ?h1" and dst: "blocks ?h1 ?r = Some (Cells ds)" using h by (simp_all add: malloc_ok)
  obtain h' ds' where e: "dup_fields strdup is src ?r ?h1 = Some h'" and f: "fresh h + 1 \<le> fresh h'"
      and l: "blocks h' ?r = Some (Cells ds')" "length ds' = length cs"
      and old: "\<forall>a<fresh h + 1. a \<noteq> ?r \<longrightarrow> blocks h' a = blocks ?h1 a" and rest: "\<forall>j. j \<notin> set is \<longrightarrow> ds' ! j = ds ! j"
      and fs: "\<forall>i\<in>set is. cs ! i = Pointer None \<and> ds' ! i = Pointer None \<or>
          (\<exists>q r. cs ! i = Pointer (Some q) \<and> ds' ! i = Pointer (Some r) \<and> blocks h' r = blocks ?h1 q)"
      and ptrs: "distinct (field_ptrs is ds')" "set (field_ptrs is ds') = {fresh h + 1 ..< fresh h'}"
      and there: "\<forall>a\<in>{fresh h + 1 ..< fresh h'}. blocks h' a \<noteq> None"
    using text_copy.dup_fields_ok [OF hk src dst d q] len by auto
  have view: "fields_view is ds' g = fields_view is cs h" if g: "\<forall>a\<in>{fresh h ..< fresh h'}. blocks g a = blocks h' a" for g
  proof (rule fields_view_eq)
    show "length ds' = length cs" by (rule l)
    show "\<forall>i<length cs. i \<notin> set is \<longrightarrow> ds' ! i = cs ! i" using rest ds by auto
    show "\<forall>i\<in>set is. cs ! i = Pointer None \<and> ds' ! i = Pointer None \<or>
      (\<exists>q r. cs ! i = Pointer (Some q) \<and> ds' ! i = Pointer (Some r) \<and> blocks g r = blocks h q)"
    proof
      fix j assume j: "j \<in> set is"
      show "cs ! j = Pointer None \<and> ds' ! j = Pointer None \<or>
        (\<exists>q r. cs ! j = Pointer (Some q) \<and> ds' ! j = Pointer (Some r) \<and> blocks g r = blocks h q)"
      proof (cases "cs ! j = Pointer None")
        case True
        with fs j show ?thesis by auto
      next
        case False
        with fs j obtain q r where qr: "cs ! j = Pointer (Some q)" "ds' ! j = Pointer (Some r)" "blocks h' r = blocks ?h1 q"
          by blast
        have "r \<in> {fresh h + 1 ..< fresh h'}" using field_ptrs_in [OF j qr(2)] ptrs by simp
        moreover obtain t where "blocks h q = Some (Text t)" using i j qr(1) by fastforce
        then have "q < fresh h" using heap_okD [OF h] by blast
        ultimately show ?thesis using qr g by auto
      qed
    qed
  qed
  have free: "Option.bind (free_fields is ?r g) (mfree ?r) = Some (g\<lparr>blocks := blocks g |` (- {fresh h ..< fresh h'})\<rparr>)"
    if g: "\<forall>a\<in>{fresh h ..< fresh h'}. blocks g a = blocks h' a" for g
  proof -
    have "blocks g ?r = Some (Cells ds')" using g f l by simp
    moreover have "\<forall>i\<in>set is. i < length ds' \<and> (\<forall>w. ds' ! i \<noteq> Word w)" using i l(2) fs by auto
    moreover have "\<forall>q\<in>set (field_ptrs is ds'). q \<noteq> ?r \<and> blocks g q \<noteq> None" using ptrs(2) there g by auto
    ultimately have "free_fields is ?r g = Some (g\<lparr>blocks := blocks g |` (- {fresh h + 1 ..< fresh h'})\<rparr>)"
      using ptrs by (simp add: free_fields_ok)
    moreover have "(blocks g |` (- {fresh h + 1 ..< fresh h'}))(?r := None) = blocks g |` (- {fresh h ..< fresh h'})"
      using f by (auto simp: restrict_map_def fun_eq_iff)
    ultimately show ?thesis using \<open>blocks g ?r = _\<close> by (simp add: mfree_def restrict_map_def)
  qed
  show ?thesis
  proof (intro exI [of _ h'] conjI allI impI)
    show "dup_fields strdup is src ?r ?h1 = Some h'" by (rule e)
    show "fresh h < fresh h'" using f by simp
    show "blocks h' a = blocks h a" if "a < fresh h" for a using old that by simp
  next
    fix g :: rheap assume g: "\<forall>a\<in>{fresh h ..< fresh h'}. blocks g a = blocks h' a"
    show "\<exists>ds'. blocks g ?r = Some (Cells ds') \<and> length ds' = length cs \<and> fields_view is ds' g = fields_view is cs h"
      using g f l view [OF g] by (intro exI [of _ ds']) simp
    show "Option.bind (free_fields is ?r g) (mfree ?r) = Some (g\<lparr>blocks := blocks g |` (- {fresh h ..< fresh h'})\<rparr>)"
      using g by (rule free)
  qed
qed

text \<open>The functions for structures and for lists of texts.\<close>

lemma structure_copied:
  assumes h: "heap_ok h" and p: "blocks h p = Some (Cells cs)" and d: "distinct is"
    and i: "\<forall>i\<in>set is. i < length cs \<and> text_field h (cs ! i)"
    and dup: "dup = (\<lambda>data len h. do { (r, h1) \<leftarrow> dispatchRaw data len h; h2 \<leftarrow> dup_fields strdup is r r h1; Some (Some r, h2) })
      \<or> dup = dispatchStrings \<and> is = [0 ..< length cs]"
  shows "\<exists>h'. dup (Some p) (4 * length cs) h = Some (Some (fresh h), h') \<and> fresh h < fresh h' \<and>
    (\<forall>a<fresh h. blocks h' a = blocks h a) \<and>
    (\<forall>g. (\<forall>a\<in>{fresh h ..< fresh h'}. blocks g a = blocks h' a) \<longrightarrow>
       (\<exists>ds'. blocks g (fresh h) = Some (Cells ds') \<and> length ds' = length cs \<and> fields_view is ds' g = fields_view is cs h) \<and>
       Option.bind (free_fields is (fresh h) g) (mfree (fresh h)) = Some (g\<lparr>blocks := blocks g |` (- {fresh h ..< fresh h'})\<rparr>))"
proof -
  have i': "\<forall>i\<in>set is. i < length cs \<and> (cs ! i = Pointer None \<or> (\<exists>q t. cs ! i = Pointer (Some q) \<and> blocks h q = Some (Text t)))"
    using i by (fastforce simp: text_field_def split: cell.splits option.splits block.splits)
  from dup show ?thesis
  proof (elim disjE conjE)
    assume dup: "dup = (\<lambda>data len h. do { (r, h1) \<leftarrow> dispatchRaw data len h; h2 \<leftarrow> dup_fields strdup is r r h1; Some (Some r, h2) })"
    have "dup (Some p) (4 * length cs) h = do { h2 \<leftarrow> dup_fields strdup is (fresh h) (fresh h) (snd (malloc (Cells cs) h)); Some (Some (fresh h), h2) }"
      using p by (simp add: dup dispatchRaw_def split_def)
    with copy_and_free [OF h p d i', of "fresh h" cs] show ?thesis by auto
  next
    assume dup: "dup = dispatchStrings" and all: "is = [0 ..< length cs]"
    let ?ds = "replicate (length cs) (Pointer None)"
    have "dup (Some p) (4 * length cs) h = do { h2 \<leftarrow> dup_fields strdup is p (fresh h) (snd (malloc (Cells ?ds) h)); Some (Some (fresh h), h2) }"
      by (simp add: dup all dispatchStrings_def split_def Let_def)
    with copy_and_free [OF h p d i', of p ?ds] all show ?thesis by (auto simp: atLeast0LessThan)
  qed
qed

lemmas freeing_defs = freeDial_def freeStrings_def freeSIM_IO_def freeSmsWrite_def freeCallForward_def
lemmas copying_defs = dispatchCallForward_def dispatchDial_def dispatchSIM_IO_def dispatchSmsWrite_def

text \<open>What the copy of the data of a request has to be.\<close>

definition good_copy :: "dispatcher \<Rightarrow> nat option \<Rightarrow> nat \<Rightarrow> rheap \<Rightarrow> (nat option \<times> rheap) option \<Rightarrow> bool" where
  "good_copy k data len h d \<longleftrightarrow> (\<exists>p' h'. d = Some (p', h') \<and> (\<forall>a<fresh h. blocks h' a = blocks h a) \<and>
    (\<forall>g. (\<forall>a\<in>{fresh h ..< fresh h'}. blocks g a = blocks h' a) \<longrightarrow>
       request_view k p' g = request_view k data h \<and>
       free_kind k p' len g = Some (g\<lparr>blocks := blocks g |` (- {fresh h ..< fresh h'})\<rparr>)))"

lemma structure_good:
  assumes "heap_ok h" "blocks h p = Some (Cells cs)" "len = 4 * length cs" "distinct (places k (length cs))"
    "\<forall>i\<in>set (places k (length cs)). i < length cs \<and> text_field h (cs ! i)"
    "dup = (\<lambda>data len h. do { (r, h1) \<leftarrow> dispatchRaw data len h; h2 \<leftarrow> dup_fields strdup (places k (length cs)) r r h1; Some (Some r, h2) })
      \<or> dup = dispatchStrings \<and> places k (length cs) = [0 ..< length cs]"
    "\<And>p g. free_kind k (Some p) len g = Option.bind (free_fields (places k (length cs)) p g) (mfree p)" "k \<noteq> DispatchVoid"
  shows "good_copy k (Some p) len h (dup (Some p) len h)"
proof -
  obtain h' where d: "dup (Some p) len h = Some (Some (fresh h), h')" and old: "\<forall>a<fresh h. blocks h' a = blocks h a"
      and g: "\<And>g. \<forall>a\<in>{fresh h ..< fresh h'}. blocks g a = blocks h' a \<Longrightarrow>
       (\<exists>ds'. blocks g (fresh h) = Some (Cells ds') \<and> length ds' = length cs \<and>
         fields_view (places k (length cs)) ds' g = fields_view (places k (length cs)) cs h) \<and>
       Option.bind (free_fields (places k (length cs)) (fresh h) g) (mfree (fresh h)) = Some (g\<lparr>blocks := blocks g |` (- {fresh h ..< fresh h'})\<rparr>)"
    using structure_copied [OF assms(1,2,4,5,6)] assms(3) by blast
  have "request_view k (Some (fresh h)) g = request_view k (Some p) h"
    if "\<forall>a\<in>{fresh h ..< fresh h'}. blocks g a = blocks h' a" for g
    using g [OF that] assms(2,8) by (auto simp: request_view_def)
  moreover have "free_kind k (Some (fresh h)) len g = Some (g\<lparr>blocks := blocks g |` (- {fresh h ..< fresh h'})\<rparr>)"
    if "\<forall>a\<in>{fresh h ..< fresh h'}. blocks g a = blocks h' a" for g
    using g [OF that] unfolding assms(7) by (rule conjunct2)
  ultimately show ?thesis unfolding good_copy_def d
    using old by (intro exI [of _ "Some (fresh h)"] exI [of _ h'] conjI allI impI refl) simp_all
qed

lemma view_no_fields [simp]: "fields_view [] cs h = map Inl cs"
  by (rule nth_equalityI) (auto simp: fields_view_def split: cell.splits option.splits)

lemma block_good:
  assumes "\<And>g. blocks g (fresh h) = Some b \<Longrightarrow> request_view k (Some (fresh h)) g = request_view k data h"
    "\<And>p g. free_kind k (Some p) len g = mfree p g" "blocks h (fresh h) = None"
  shows "good_copy k data len h (Some (Some (fresh h), snd (malloc b h)))"
proof -
  have "g\<lparr>blocks := (blocks g)(a := None)\<rparr> = g\<lparr>blocks := blocks g |` (- {a ..< Suc a})\<rparr>" for g :: rheap and a
    by (rule arg_cong [of _ _ "\<lambda>b. g\<lparr>blocks := b\<rparr>"]) (auto simp: restrict_map_def fun_eq_iff)
  then show ?thesis using assms unfolding good_copy_def by (auto simp: mfree_def)
qed

lemma nothing_good:
  "request_view k None h = request_view k data h \<Longrightarrow> (\<And>g. free_kind k None len g = Some g) \<Longrightarrow>
   (\<And>g. request_view k None g = None) \<Longrightarrow> good_copy k data len h (Some (None, h))"
  by (auto simp: good_copy_def restrict_map_def)

lemma structure_data:
  "request_data k data len h \<Longrightarrow> k \<in> {DispatchRaw, DispatchString, DispatchVoid} \<or> (\<exists>p cs. data = Some p \<and>
     blocks h p = Some (Cells cs) \<and> len = 4 * length cs \<and>
     (\<forall>i\<in>set (places k (length cs)). i < length cs \<and> text_field h (cs ! i)))"
  by (cases k) (simp_all split: option.split_asm block.split_asm)

lemma kind_copied:
  assumes h: "heap_ok h" and k: "request_data k data len h"
  shows "good_copy k data len h (dispatchFunction junk k data len h)"
proof -
  have new: "blocks h (fresh h) = None" using h by (simp add: heap_ok_def)
  show ?thesis
  proof (cases k)
    case DispatchRaw
    with k obtain p b where p: "data = Some p" "blocks h p = Some b" "copy_of b len = Some b" "\<And>t. b \<noteq> Text t"
      by (auto split: option.splits block.splits)
    then have "good_copy DispatchRaw data len h (Some (Some (fresh h), snd (malloc b h)))"
      by (intro block_good new) (auto simp: request_view_def split: block.splits)
    with DispatchRaw p show ?thesis by (simp add: dispatchRaw_def malloc_def)
  next
    case DispatchString
    show ?thesis
    proof (cases data)
      case None
      with DispatchString k show ?thesis
        by (simp add: dispatchString_def) (intro nothing_good; simp add: request_view_def)
    next
      case (Some p)
      with DispatchString k obtain t where t: "blocks h p = Some (Text t)" by (auto split: option.splits block.splits)
      then have "good_copy DispatchString data len h (Some (Some (fresh h), snd (malloc (Text t) h)))"
        using Some by (intro block_good new) (auto simp: request_view_def)
      with DispatchString Some k t show ?thesis by (simp add: dispatchString_def strdup_def malloc_def)
    qed
  next
    case DispatchVoid
    then show ?thesis by simp (intro nothing_good; simp add: request_view_def split: option.split)
  next
    case DispatchCallForward
    from structure_data [OF k] DispatchCallForward obtain p cs where p: "data = Some p" "blocks h p = Some (Cells cs)" "len = 4 * length cs" and
      i: "\<forall>i\<in>set (places k (length cs)). i < length cs \<and> text_field h (cs ! i)" by auto
    have "good_copy k (Some p) len h (dispatchCallForward (Some p) len h)"
      by (rule structure_good [OF h p(2,3) _ i]) (simp_all add: DispatchCallForward fun_eq_iff dispatchCallForward_def freeCallForward_def)
    with DispatchCallForward p show ?thesis by simp
  next
    case DispatchDial
    from structure_data [OF k] DispatchDial obtain p cs where p: "data = Some p" "blocks h p = Some (Cells cs)" "len = 4 * length cs" and
      i: "\<forall>i\<in>set (places k (length cs)). i < length cs \<and> text_field h (cs ! i)" by auto
    have "good_copy k (Some p) len h (dispatchDial (Some p) len h)"
      by (rule structure_good [OF h p(2,3) _ i]) (simp_all add: DispatchDial fun_eq_iff dispatchDial_def freeDial_def)
    with DispatchDial p show ?thesis by simp
  next
    case DispatchSIM_IO
    from structure_data [OF k] DispatchSIM_IO obtain p cs where p: "data = Some p" "blocks h p = Some (Cells cs)" "len = 4 * length cs" and
      i: "\<forall>i\<in>set (places k (length cs)). i < length cs \<and> text_field h (cs ! i)" by auto
    have "good_copy k (Some p) len h (dispatchSIM_IO (Some p) len h)"
      by (rule structure_good [OF h p(2,3) _ i]) (simp_all add: DispatchSIM_IO fun_eq_iff dispatchSIM_IO_def freeSIM_IO_def)
    with DispatchSIM_IO p show ?thesis by simp
  next
    case DispatchSmsWrite
    from structure_data [OF k] DispatchSmsWrite obtain p cs where p: "data = Some p" "blocks h p = Some (Cells cs)" "len = 4 * length cs" and
      i: "\<forall>i\<in>set (places k (length cs)). i < length cs \<and> text_field h (cs ! i)" by auto
    have "good_copy k (Some p) len h (dispatchSmsWrite (Some p) len h)"
      by (rule structure_good [OF h p(2,3) _ i]) (simp_all add: DispatchSmsWrite fun_eq_iff dispatchSmsWrite_def freeSmsWrite_def)
    with DispatchSmsWrite p show ?thesis by simp
  next
    case DispatchStrings
    from structure_data [OF k] DispatchStrings obtain p cs where p: "data = Some p" "blocks h p = Some (Cells cs)" "len = 4 * length cs" and
      i: "\<forall>i\<in>set (places k (length cs)). i < length cs \<and> text_field h (cs ! i)" by auto
    have "good_copy k (Some p) len h (dispatchStrings (Some p) len h)"
      by (rule structure_good [OF h p(2,3) _ i]) (simp_all add: DispatchStrings fun_eq_iff freeStrings_def p(3))
    with DispatchStrings p show ?thesis by simp
  qed (use k in simp_all)
qed

text \<open>C13: For every request but those of CDMA, whose data are not copied, and the broadcast configuration, most
  ranges of which are never freed (\<open>broadcast_ranges_leak\<close>): the copy of the data shows a handler, in every later
  state of the heap, what the data showed when the request came; copying changes no block that was there, and freeing
  the copy frees every block that copying allocated and no other.\<close>

theorem request_data_restored:
  assumes "heap_ok h" "command_info table req = Some k" "request_data k data len h"
  shows "\<exists>p' h'. dupRequestData junk table req data len h = Some (p', h') \<and> (\<forall>a<fresh h. blocks h' a = blocks h a) \<and>
    (\<forall>g. (\<forall>a\<in>{fresh h ..< fresh h'}. blocks g a = blocks h' a) \<longrightarrow>
       request_view k p' g = request_view k data h \<and>
       freeRequestData table req p' len g = Some (g\<lparr>blocks := blocks g |` (- {fresh h ..< fresh h'})\<rparr>))"
  using kind_copied [OF assms(1,3), of junk] assms(2)
  by (simp add: dupRequestData_def freeRequestData_def good_copy_def)

definition dial_heap :: rheap where
  "dial_heap = \<lparr>blocks = [0 \<mapsto> Text ''123'', 1 \<mapsto> Cells [Pointer (Some 0), Word 2, Pointer None]], fresh = 2\<rparr>"

theorem request_data_restored_witness:
  "\<exists>p' h'. dupRequestData (\<lambda>i. Word 0) [DispatchVoid, DispatchDial] 1 (Some 1) 12 dial_heap = Some (p', h') \<and>
     request_view DispatchDial p' h' = Some (Inl [Inr (Some (Text ''123'')), Inl (Word 2), Inl (Pointer None)])"
proof -
  have "heap_ok dial_heap" "command_info [DispatchVoid, DispatchDial] 1 = Some DispatchDial"
    "request_data DispatchDial (Some 1) 12 dial_heap"
    by (auto simp: heap_ok_def dial_heap_def command_info_def rd_def text_field_def)
  from request_data_restored [OF this, of "\<lambda>i. Word 0"] show ?thesis
    by (auto simp: request_view_def dial_heap_def fields_view_def)
qed

section \<open>Ranges of broadcast messages\<close>

lemma field_ptrs_all: "\<forall>i\<in>set is. \<exists>q. cs ! i = Pointer (Some q) \<Longrightarrow> length (field_ptrs is cs) = length is"
  by (induction "is") auto

text \<open>Freeing the copy of a list of ranges of broadcast messages leaves four of five ranges allocated:
  the number of entries is computed with the size of a range, not of a pointer.\<close>

theorem broadcast_ranges_leak:
  assumes h: "heap_ok h" and p: "blocks h p = Some (Cells cs)" "0 < length cs"
    and c: "\<forall>i<length cs. \<exists>q ds. cs ! i = Pointer (Some q) \<and> blocks h q = Some (Cells ds) \<and> length ds = 5"
  shows "\<exists>r h' g. dispatchGsmBrSmsCnf junk (Some p) (4 * length cs) h = Some (Some r, h') \<and>
    freeGsmBrSmsCnf r (4 * length cs) h' = Some g \<and>
    card {a. fresh h \<le> a \<and> blocks g a \<noteq> None} = length cs - length cs div 5"
proof -
  let ?n = "length cs" and ?r = "fresh h"
  let ?ds = "(map junk [0 ..< ?n])[0 := Pointer None]"
  let ?h1 = "snd (malloc (Cells (map junk [0 ..< ?n])) h)"
  let ?h2 = "?h1\<lparr>blocks := (blocks ?h1)(?r \<mapsto> Cells ?ds)\<rparr>"
  have st: "store_cell ?r 0 (Pointer None) ?h1 = Some ?h2" using p(2) by (simp add: store_Cells)
  have pf: "p < ?r" using h p(1) by (rule heap_okD)
  have ok: "heap_ok ?h2" using h by (auto simp: heap_ok_def)
  have src: "blocks ?h2 p = Some (Cells cs)" using p pf by simp
  have dst: "blocks ?h2 ?r = Some (Cells ?ds)" by simp
  have all: "\<forall>i\<in>set [0 ..< ?n]. i < ?n \<and> i < length ?ds \<and> (cs ! i = Pointer None \<and> ?ds ! i = Pointer None \<or>
     (\<exists>q b. cs ! i = Pointer (Some q) \<and> q \<noteq> ?r \<and> blocks ?h2 q = Some b \<and> (\<exists>ds. b = Cells ds \<and> length ds = 5)))"
  proof
    fix i assume "i \<in> set [0 ..< ?n]"
    then have i: "i < ?n" by simp
    with c obtain q ds where q: "cs ! i = Pointer (Some q)" "blocks h q = Some (Cells ds)" "length ds = 5" by blast
    have "q < ?r" using h q(2) by (rule heap_okD)
    with i q show "i < ?n \<and> i < length ?ds \<and> (cs ! i = Pointer None \<and> ?ds ! i = Pointer None \<or>
     (\<exists>q b. cs ! i = Pointer (Some q) \<and> q \<noteq> ?r \<and> blocks ?h2 q = Some b \<and> (\<exists>ds. b = Cells ds \<and> length ds = 5)))" by simp
  qed
  obtain h' ds' where d: "dup_fields (\<lambda>q. dispatchRaw (Some q) BROADCAST_CONFIG_SIZE) [0 ..< ?n] p ?r ?h2 = Some h'"
      and l: "blocks h' ?r = Some (Cells ds')" "length ds' = ?n"
      and f: "\<forall>i\<in>set [0 ..< ?n]. cs ! i = Pointer None \<and> ds' ! i = Pointer None \<or>
          (\<exists>q r. cs ! i = Pointer (Some q) \<and> ds' ! i = Pointer (Some r) \<and> blocks h' r = blocks ?h2 q)"
      and ptrs: "distinct (field_ptrs [0 ..< ?n] ds')" "set (field_ptrs [0 ..< ?n] ds') = {fresh ?h2 ..< fresh h'}"
      and there: "\<forall>a\<in>{fresh ?h2 ..< fresh h'}. blocks h' a \<noteq> None" and ok': "heap_ok h'"
    using config_copy.dup_fields_ok [OF ok src dst distinct_upt all] by auto
  have p': "\<forall>i\<in>set [0 ..< ?n]. \<exists>q. ds' ! i = Pointer (Some q)" using f c by fastforce
  let ?A = "set (field_ptrs [0 ..< ?n div 5] ds')" and ?B = "set (field_ptrs [?n div 5 ..< ?n] ds')"
  have split: "[0 ..< ?n] = [0 ..< ?n div 5] @ [?n div 5 ..< ?n]" using upt_add_eq_append [of 0 "?n div 5" "?n - ?n div 5"] by simp
  have AB: "distinct (field_ptrs [0 ..< ?n div 5] ds' @ field_ptrs [?n div 5 ..< ?n] ds')" "?A \<union> ?B = {?r + 1 ..< fresh h'}"
    using ptrs unfolding split field_ptrs_append by simp_all
  have r: "?r \<notin> ?A" and sub: "?A \<subseteq> {?r + 1 ..< fresh h'}" using AB(2) by (metis Un_iff atLeastLessThan_iff not_less_eq_eq order_refl Suc_eq_plus1, blast)
  have "\<forall>i\<in>set [0 ..< ?n div 5]. i < length ds' \<and> (\<forall>w. ds' ! i \<noteq> Word w)"
  proof
    fix i assume "i \<in> set [0 ..< ?n div 5]"
    then have i: "i < ?n" by simp
    with p' obtain q where "ds' ! i = Pointer (Some q)" by fastforce
    with i l(2) show "i < length ds' \<and> (\<forall>w. ds' ! i \<noteq> Word w)" by simp
  qed
  moreover have "\<forall>q\<in>?A. q \<noteq> ?r \<and> blocks h' q \<noteq> None" using r sub there by auto
  ultimately have "free_fields [0 ..< ?n div 5] ?r h' = Some (h'\<lparr>blocks := blocks h' |` (- ?A)\<rparr>)"
    using l(1) AB(1) by (simp add: free_fields_ok)
  with r have free: "freeGsmBrSmsCnf ?r (4 * ?n) h' = Some (h'\<lparr>blocks := (blocks h' |` (- ?A))(?r := None)\<rparr>)"
    using l(1) by (simp add: freeGsmBrSmsCnf_def BROADCAST_CONFIG_SIZE_def mfree_def)
  have "{a. ?r \<le> a \<and> ((blocks h' |` (- ?A))(?r := None)) a \<noteq> None} = ?B"
    using AB there ok' by (auto simp: restrict_map_def heap_ok_def)
  moreover have "card ?B = ?n - ?n div 5"
    using AB(1) p' by (simp add: distinct_card field_ptrs_all)
  moreover have "dispatchGsmBrSmsCnf junk (Some p) (4 * ?n) h = Some (Some ?r, h')"
    using st d by (simp add: dispatchGsmBrSmsCnf_def split_def)
  ultimately show ?thesis using free by auto
qed

definition ranges_heap :: rheap where
  "ranges_heap = \<lparr>blocks = [0 \<mapsto> Cells (replicate 5 (Word 1)), 1 \<mapsto> Cells [Pointer (Some 0)]], fresh = 2\<rparr>"

theorem broadcast_ranges_leak_witness:
  "\<exists>r h' g. dispatchGsmBrSmsCnf (\<lambda>i. Word 7) (Some 1) 4 ranges_heap = Some (Some r, h') \<and>
    freeGsmBrSmsCnf r 4 h' = Some g \<and> card {a. 2 \<le> a \<and> blocks g a \<noteq> None} = 1"
proof -
  have "heap_ok ranges_heap" "blocks ranges_heap 1 = Some (Cells [Pointer (Some 0)])"
    by (auto simp: heap_ok_def ranges_heap_def)
  moreover have "\<forall>i<length [Pointer (Some 0)]. \<exists>q ds. [Pointer (Some 0)] ! i = Pointer (Some q) \<and>
      blocks ranges_heap q = Some (Cells ds) \<and> length ds = 5"
    by (simp add: ranges_heap_def)
  ultimately show ?thesis
    using broadcast_ranges_leak [of ranges_heap 1 "[Pointer (Some 0)]" "\<lambda>i. Word 7"] by (simp add: ranges_heap_def)
qed

end
