(* ===== verification/Gps_Time.thy ===== *)
theory Gps_Time
  imports Prelude
begin

text \<open>
  The time of a position, from \<open>src/libgps/gps_huawei.c\<close>: \<open>mkgmtime\<close> computes the seconds since 1970 of a
  date and time by a closed formula.  The reference counts the days of the calendar one year and one
  month at a time.  An operation of \<open>int\<close> or \<open>time_t\<close> that overflows 32 bits gives \<open>None\<close>.
\<close>

section \<open>The function\<close>

record utc_tm =
  tm_year :: int
  tm_mon :: int
  tm_mday :: int
  tm_hour :: int
  tm_min :: int
  tm_sec :: int

definition m_to_d :: "int list" where
  "m_to_d = [0, 31, 59, 90, 120, 151, 181, 212, 243, 273, 304, 334]"

text \<open>A value of \<open>int\<close>, \<open>long\<close> or \<open>time_t\<close>, and a value stored into a \<open>short\<close>.\<close>

definition checked :: "int \<Rightarrow> int option" where
  "checked z = (if in_int32 z then Some z else None)"

definition short :: "int \<Rightarrow> int" where
  "short z = (z + 2 ^ 15) mod 2 ^ 16 - 2 ^ 15"

definition mkgmtime :: "utc_tm \<Rightarrow> int option" where
  "mkgmtime t = (let
     month = short (tm_mon t);
     year = short (tm_year t + cdiv month 12 + 1900);
     month = cmod month 12;
     (year, month) = (if month < 0 then (short (year - 1), month + 12) else (year, month));
     result = (year - 1970) * 365 + m_to_d ! nat month;
     year = (if month \<le> 1 then short (year - 1) else year);
     result = result + cdiv (year - 1968) 4;
     result = result - cdiv (year - 1900) 100;
     result = result + cdiv (year - 1600) 400 in do {
       result \<leftarrow> checked (result + tm_mday t);
       result \<leftarrow> checked (result - 1);
       result \<leftarrow> checked (result * 24);
       result \<leftarrow> checked (result + tm_hour t);
       result \<leftarrow> checked (result * 60);
       result \<leftarrow> checked (result + tm_min t);
       result \<leftarrow> checked (result * 60);
       checked (result + tm_sec t) })"

section \<open>The calendar\<close>

definition leap_year :: "int \<Rightarrow> bool" where
  "leap_year y \<longleftrightarrow> 4 dvd y \<and> (100 dvd y \<longrightarrow> 400 dvd y)"

definition month_lengths :: "int \<Rightarrow> int list" where
  "month_lengths y = [31, if leap_year y then 29 else 28, 31, 30, 31, 30, 31, 31, 30, 31, 30, 31]"

text \<open>The days between the first of January 1970 and a date, counted.\<close>

definition calendar_days :: "nat \<Rightarrow> nat \<Rightarrow> int \<Rightarrow> int" where
  "calendar_days y m d = sum_list (concat (map (\<lambda>y. month_lengths (int y)) [1970 ..< y])) +
     sum_list (take (m - 1) (month_lengths (int y))) + (d - 1)"

definition leaps_before :: "int \<Rightarrow> int" where
  "leaps_before y = (y - 1969) div 4 - (y - 1901) div 100 + (y - 1601) div 400"

lemma div_step:
  assumes m: "0 < (m :: int)"
  shows "(a + 1) div m = a div m + (if m dvd a + 1 then 1 else 0)"
proof (cases "a mod m = m - 1")
  case True
  have "a = m * (a div m) + a mod m" by simp
  then have "a + 1 = m * (a div m) + (a mod m + 1)" by linarith
  with True have e: "a + 1 = m * (a div m + 1)" by (simp add: distrib_left)
  show ?thesis unfolding e using m by simp
next
  case False
  have a: "a + 1 = m * (a div m) + (a mod m + 1)" by simp
  have r: "0 \<le> a mod m + 1" "a mod m + 1 < m" using m False by (simp, smt (verit) pos_mod_bound)
  have "(a + 1) div m = a div m" "(a + 1) mod m = a mod m + 1"
    using int_div_pos_eq [OF a r] int_mod_pos_eq [OF a r] by auto
  moreover have "0 < a mod m + 1" using pos_mod_sign [OF m, of a] by linarith
  ultimately show ?thesis by (simp add: dvd_eq_mod_eq_0)
qed

text \<open>The months, counted from 0.\<close>

lemma month_cases: "(m :: nat) < 12 \<Longrightarrow>
  m = 0 \<or> m = 1 \<or> m = 2 \<or> m = 3 \<or> m = 4 \<or> m = 5 \<or> m = 6 \<or> m = 7 \<or> m = 8 \<or> m = 9 \<or> m = 10 \<or> m = 11"
  by presburger

lemma dvd_minus_multiple: "m dvd b \<Longrightarrow> m dvd a - b \<longleftrightarrow> m dvd (a :: int)"
  by (simp add: dvd_diff_left_iff)

lemma leaps_before_step: "leaps_before (y + 1) = leaps_before y + (if leap_year y then 1 else 0)"
proof -
  have "4 dvd y - 1968 \<longleftrightarrow> 4 dvd y" "100 dvd y - 1900 \<longleftrightarrow> 100 dvd y" "400 dvd y - 1600 \<longleftrightarrow> 400 dvd y"
    by (rule dvd_minus_multiple, simp)+
  moreover have "400 dvd y \<Longrightarrow> 100 dvd y" "100 dvd y \<Longrightarrow> 4 dvd y"
    by (erule dvd_trans [rotated], simp)+
  moreover have "(y - 1968) div 4 = (y - 1969) div 4 + (if 4 dvd y - 1968 then 1 else 0)"
    "(y - 1900) div 100 = (y - 1901) div 100 + (if 100 dvd y - 1900 then 1 else 0)"
    "(y - 1600) div 400 = (y - 1601) div 400 + (if 400 dvd y - 1600 then 1 else 0)"
    using div_step [of 4 "y - 1969"] div_step [of 100 "y - 1901"] div_step [of 400 "y - 1601"] by simp_all
  moreover have "y + 1 - 1969 = y - 1968" "y + 1 - 1901 = y - 1900" "y + 1 - 1601 = y - 1600" by simp_all
  ultimately show ?thesis unfolding leaps_before_def leap_year_def by (simp only:) (auto simp only: if_True if_False simp_thms)
qed

lemma year_length: "sum_list (month_lengths y) = (if leap_year y then 366 else 365)"
  by (simp add: month_lengths_def)

lemma calendar_years:
  "1970 \<le> y \<Longrightarrow> sum_list (concat (map (\<lambda>y. month_lengths (int y)) [1970 ..< y])) = (int y - 1970) * 365 + leaps_before (int y)"
proof (induction y rule: dec_induct)
  case base
  show ?case by (simp add: leaps_before_def)
next
  case (step y)
  then have "[1970 ..< Suc y] = [1970 ..< y] @ [y]" by simp
  then show ?case using step leaps_before_step [of "int y"]
    by (simp add: year_length algebra_simps)
qed

lemma calendar_months:
  "m < 12 \<Longrightarrow> sum_list (take m (month_lengths y)) = m_to_d ! m + (if 2 \<le> m \<and> leap_year y then 1 else 0)"
  by (drule month_cases) (elim disjE; simp add: month_lengths_def m_to_d_def)

lemma calendar_days_closed:
  "1970 \<le> y \<Longrightarrow> 1 \<le> m \<Longrightarrow> m \<le> 12 \<Longrightarrow>
   calendar_days y m d = (int y - 1970) * 365 + m_to_d ! (m - 1) + leaps_before (if m \<le> 2 then int y else int y + 1) + d - 1"
  unfolding calendar_days_def using calendar_months [of "m - 1" "int y"]
  by (auto simp: calendar_years leaps_before_step)

lemma short_id: "- 32768 \<le> z \<Longrightarrow> z \<le> 32767 \<Longrightarrow> short z = z"
  by (simp add: short_def mod_pos_pos_trivial)

lemma checked_mono: "checked z \<noteq> None \<Longrightarrow> 0 \<le> a \<Longrightarrow> a \<le> z \<Longrightarrow> checked a = Some a"
  by (auto simp: checked_def in_int32_def split: if_splits)

lemma checked_chain:
  "0 \<le> a \<Longrightarrow> a \<le> z \<Longrightarrow> Option.bind (checked a) (\<lambda>_. checked z) = checked z"
  using checked_mono [of z a] by (cases "checked z") (auto simp: checked_def)

lemma bind_checked: "Option.bind (checked a) f = (if in_int32 a then f a else None)"
  by (simp add: checked_def)

lemma m_to_d_bounds: "m < 12 \<Longrightarrow> 0 \<le> m_to_d ! m"
  by (drule month_cases) (auto simp: m_to_d_def)

lemma leaps_before_nonneg: "1970 \<le> y \<Longrightarrow> 0 \<le> leaps_before y"
proof -
  assume "1970 \<le> y"
  then have "0 \<le> leaps_before (1970 + int n)" for n
  proof (induction n)
    case 0
    show ?case by (simp add: leaps_before_def)
  next
    case (Suc n)
    then show ?case using leaps_before_step [of "1970 + int n"] by (simp add: algebra_simps)
  qed
  from this [of "nat (y - 1970)"] \<open>1970 \<le> y\<close> show ?thesis by simp
qed

text \<open>The days that \<open>mkgmtime\<close> computes for a date of the calendar.\<close>

lemma mkgmtime_days:
  assumes "1970 \<le> y" "y \<le> 9999" "1 \<le> m" "m \<le> 12"
  shows "mkgmtime \<lparr>tm_year = int y - 1900, tm_mon = int m - 1, tm_mday = d, tm_hour = hh, tm_min = mi, tm_sec = ss\<rparr> =
    do { result \<leftarrow> checked (calendar_days y m d + 1); result \<leftarrow> checked (result - 1); result \<leftarrow> checked (result * 24);
         result \<leftarrow> checked (result + hh); result \<leftarrow> checked (result * 60); result \<leftarrow> checked (result + mi);
         result \<leftarrow> checked (result * 60); checked (result + ss) }"
proof -
  have s: "short (int m - 1) = int m - 1" "short (int y - 1900 + 0 + 1900) = int y" "short (int y - 1) = int y - 1"
    using assms by (simp_all add: short_id)
  have c: "cdiv (int m - 1) 12 = 0" "cmod (int m - 1) 12 = int m - 1" "\<not> int m - 1 < 0"
    using assms by (simp_all add: cdiv_def cmod_def)
  have n: "nat (int m - 1) = m - 1" "int m - 1 \<le> 1 \<longleftrightarrow> m \<le> 2" using assms by auto
  have l: "(int y - 1970) * 365 + m_to_d ! (m - 1) + cdiv ((if m \<le> 2 then int y - 1 else int y) - 1968) 4
      - cdiv ((if m \<le> 2 then int y - 1 else int y) - 1900) 100 + cdiv ((if m \<le> 2 then int y - 1 else int y) - 1600) 400 + d
      = calendar_days y m d + 1"
    using assms by (simp add: calendar_days_closed cdiv_def leaps_before_def)
  show ?thesis
    unfolding mkgmtime_def utc_tm.simps Let_def s(1) c(1,2) s(2) if_not_P [OF c(3)] prod.case n s(3) l ..
qed

text \<open>C20: The seconds of a date and time are those of the calendar, leap years included, when they fit into
  32 bits; a later time overflows.\<close>

theorem mkgmtime_calendar:
  assumes "1970 \<le> y" "y \<le> 9999" "1 \<le> m" "m \<le> 12" "1 \<le> d" "0 \<le> hh" "0 \<le> mi" "0 \<le> ss"
  shows "mkgmtime \<lparr>tm_year = int y - 1900, tm_mon = int m - 1, tm_mday = d, tm_hour = hh, tm_min = mi, tm_sec = ss\<rparr> =
    (let s = ((calendar_days y m d * 24 + hh) * 60 + mi) * 60 + ss in if s \<le> 2147483647 then Some s else None)"
proof -
  let ?c = "calendar_days y m d"
  have c: "0 \<le> ?c"
  proof -
    have "0 \<le> leaps_before (if m \<le> 2 then int y else int y + 1)" using assms by (intro leaps_before_nonneg) auto
    moreover have year: "0 \<le> (int y - 1970) * 365" using assms(1) by simp
    moreover have "0 \<le> m_to_d ! (m - 1)" using assms by (intro m_to_d_bounds) auto
    ultimately show ?thesis unfolding calendar_days_closed [OF assms(1,3,4)] using year assms(5) by linarith
  qed
  have "?c + 1 \<le> 2147483647 \<or> \<not> ((?c * 24 + hh) * 60 + mi) * 60 + ss \<le> 2147483647" using c assms by auto
  then show ?thesis unfolding mkgmtime_days [OF assms(1-4)] bind_checked
    using c assms(6-8) by (auto simp: Let_def in_int32_def checked_def)
qed

text \<open>The last second of a 32-bit \<open>time_t\<close>, the one before the 29th of February 2012, and one too late.\<close>

theorem mkgmtime_calendar_witness:
  "mkgmtime \<lparr>tm_year = 138, tm_mon = 0, tm_mday = 19, tm_hour = 3, tm_min = 14, tm_sec = 7\<rparr> = Some 2147483647 \<and>
   mkgmtime \<lparr>tm_year = 138, tm_mon = 0, tm_mday = 19, tm_hour = 3, tm_min = 14, tm_sec = 8\<rparr> = None \<and>
   mkgmtime \<lparr>tm_year = 112, tm_mon = 1, tm_mday = 28, tm_hour = 23, tm_min = 59, tm_sec = 59\<rparr> = Some 1330473599"
  using mkgmtime_calendar [of 2038 1 19 3 14 7] mkgmtime_calendar [of 2038 1 19 3 14 8] mkgmtime_calendar [of 2012 2 28 23 59 59]
  by (simp add: calendar_days_closed leaps_before_def m_to_d_def Let_def)

end
