(* ===== verification/Gps_Nmea.thy ===== *)
theory Gps_Nmea
  imports Gps_Time Complex_Main
begin

unbundle bit_operations_syntax

text \<open>
  The reader of NMEA sentences of \<open>src/libgps/gps_huawei.c\<close>: it collects the bytes of the receiver into
  lines, cuts a line into its fields and keeps the last position and the satellites in view.
  A pointer into the line is what the line has from there on.  \<open>None\<close> is undefined behaviour: an overflow
  of \<open>int\<close>, a shift by a negative count, or a write outside an array.
\<close>

section \<open>Numbers\<close>

text \<open>A number of type \<open>double\<close> or \<open>float\<close> is rational or infinite; the sign of zero is not kept.  How results
  are rounded is a parameter of the functions that compute with them.\<close>

datatype double = Fin rat | Infinite

record rounding =
  to_double :: "rat \<Rightarrow> double"
  to_float :: "rat \<Rightarrow> double"

definition float_of :: "rounding \<Rightarrow> double \<Rightarrow> double" where
  "float_of fp d = (case d of Fin x \<Rightarrow> to_float fp x | Infinite \<Rightarrow> Infinite)"

definition dop :: "rounding \<Rightarrow> (rat \<Rightarrow> rat \<Rightarrow> rat) \<Rightarrow> double \<Rightarrow> double \<Rightarrow> double" where
  "dop fp f a b = (case (a, b) of (Fin x, Fin y) \<Rightarrow> to_double fp (f x y) | _ \<Rightarrow> Infinite)"

fun dneg :: "double \<Rightarrow> double" where
  "dneg (Fin x) = Fin (- x)"
| "dneg Infinite = Infinite"

text \<open>The conversion of the C library, of decimal texts.\<close>

definition strtod_exponent :: "string \<Rightarrow> int" where
  "strtod_exponent s = (if s \<noteq> [] \<and> hd s \<in> {CHR ''e'', CHR ''E''} then
     let t = tl s; neg = (t \<noteq> [] \<and> hd t = CHR ''-'');
       t = (if t \<noteq> [] \<and> hd t \<in> {CHR ''-'', CHR ''+''} then tl t else t);
       e = int (digits_value 10 (digits_of 10 t)) in if neg then - e else e
   else 0)"

definition strtod_value :: "string \<Rightarrow> rat" where
  "strtod_value s =
    (let s = dropWhile isspace s;
       neg = (s \<noteq> [] \<and> hd s = CHR ''-'');
       s = (if s \<noteq> [] \<and> hd s \<in> {CHR ''-'', CHR ''+''} then tl s else s);
       ip = digits_of 10 s;
       s = drop (length ip) s;
       fp = (if s \<noteq> [] \<and> hd s = CHR ''.'' then digits_of 10 (tl s) else []);
       s = (if s \<noteq> [] \<and> hd s = CHR ''.'' then drop (length fp) (tl s) else s);
       e = (if ip @ fp = [] then 0 else strtod_exponent s);
       v = of_nat (digits_value 10 (ip @ fp)) * 10 powi (e - int (length fp)) in
     if neg then - v else v)"

text \<open>The text of a field ends at its first zero byte, if it has one.\<close>

definition strtod :: "rounding \<Rightarrow> string \<Rightarrow> double" where
  "strtod fp s = to_double fp (strtod_value (takeWhile (\<lambda>c. c \<noteq> CHR 0x00) s))"

section \<open>Fields\<close>

text \<open>A token is what the line has from its first character on, and its length.\<close>

type_synonym token = "string \<times> nat"

definition MAX_NMEA_TOKENS :: nat where "MAX_NMEA_TOKENS = 32"

text \<open>The end of the sentence, without line end and checksum.\<close>

definition sentence_end :: "string \<Rightarrow> nat \<Rightarrow> nat \<Rightarrow> nat" where
  "sentence_end l p end0 =
    (let end1 = (if p < end0 \<and> l ! (end0 - 1) = CHR 0x0A then
         (if p < end0 - 1 \<and> l ! (end0 - 2) = CHR 0x0D then end0 - 2 else end0 - 1) else end0) in
     if p + 3 \<le> end1 \<and> l ! (end1 - 3) = CHR ''*'' then end1 - 3 else end1)"

function tokens_from :: "string \<Rightarrow> nat \<Rightarrow> nat \<Rightarrow> token list" where
  "tokens_from l p e =
    (if p < e then
       let n = length (takeWhile (\<lambda>c. c \<noteq> CHR '','') (take (e - p) (drop p l))) in
       (drop p l, n) # tokens_from l (p + n + 1) e
     else [])"
  by pat_completeness auto
termination by (relation "measure (\<lambda>(l, p, e). e - p)") auto

declare tokens_from.simps [simp del]

definition nmea_tokenizer_init :: "string \<Rightarrow> token list" where
  "nmea_tokenizer_init l =
    (let p = (if l \<noteq> [] \<and> l ! 0 = CHR ''$'' then 1 else 0) in
     take MAX_NMEA_TOKENS (tokens_from l p (sentence_end l p (length l))))"

definition nmea_tokenizer_get :: "token list \<Rightarrow> nat \<Rightarrow> token" where
  "nmea_tokenizer_get t index = (if index < length t then t ! index else ([CHR 0x00], 0))"

abbreviation tok_text :: "token \<Rightarrow> string" where "tok_text t \<equiv> take (snd t) (fst t)"
abbreviation tok_char :: "token \<Rightarrow> char" where "tok_char t \<equiv> hd (fst t)"

fun str2int_loop :: "int \<Rightarrow> string \<Rightarrow> int option" where
  "str2int_loop result [] = Some result"
| "str2int_loop result (c # cs) =
    (if \<not> isdigit c then Some (- 1)
     else do { r \<leftarrow> checked (result * 10); r \<leftarrow> checked (r + int (digit_val c)); str2int_loop r cs })"

definition str2int :: "string \<Rightarrow> int option" where
  "str2int s = (if s = [] then Some (- 1) else str2int_loop 0 s)"

definition str2float :: "rounding \<Rightarrow> string \<Rightarrow> double" where
  "str2float fp s = (if s = [] then Fin (- 1) else if 16 \<le> length s then Fin 0 else strtod fp s)"

section \<open>The state\<close>

record gps_location =
  flags :: "16 word"
  timestamp :: int
  latitude :: double
  longitude :: double
  altitude :: double
  speed :: double
  bearing :: double
  accuracy :: double

definition GPS_LOCATION_HAS_LAT_LONG :: "16 word" where "GPS_LOCATION_HAS_LAT_LONG = 1"
definition GPS_LOCATION_HAS_ALTITUDE :: "16 word" where "GPS_LOCATION_HAS_ALTITUDE = 2"
definition GPS_LOCATION_HAS_SPEED :: "16 word" where "GPS_LOCATION_HAS_SPEED = 4"
definition GPS_LOCATION_HAS_BEARING :: "16 word" where "GPS_LOCATION_HAS_BEARING = 8"
definition GPS_LOCATION_HAS_ACCURACY :: "16 word" where "GPS_LOCATION_HAS_ACCURACY = 16"
definition GPS_MAX_SVS :: nat where "GPS_MAX_SVS = 32"

record sv_info =
  prn :: int
  snr :: double
  elevation :: double
  azimuth :: double

text \<open>The position and the satellites; \<open>nmea_data\<close> are the members of \<open>NmeaReader\<close> that the parser sets.\<close>

record nmea_data =
  utc_year :: int
  utc_mon :: int
  utc_day :: int
  location :: gps_location
  num_svs :: int
  sv_list :: "sv_info list"
  used_in_fix_mask :: "32 word"
  sv_status_changed :: bool

definition NMEA_MAX_SIZE :: nat where "NMEA_MAX_SIZE = 200"

record NmeaReader =
  pos :: nat
  overflow :: bool
  in_buf :: string
  parsed :: nmea_data

definition zero_sv :: sv_info where
  "zero_sv = \<lparr>prn = 0, snr = Fin 0, elevation = Fin 0, azimuth = Fin 0\<rparr>"

definition nmea_reader_init :: NmeaReader where
  "nmea_reader_init = \<lparr>pos = 0, overflow = False, in_buf = replicate (NMEA_MAX_SIZE + 1) (CHR 0x00),
     parsed = \<lparr>utc_year = - 1, utc_mon = - 1, utc_day = - 1,
       location = \<lparr>flags = 0, timestamp = 0, latitude = Fin 0, longitude = Fin 0, altitude = Fin 0, speed = Fin 0,
         bearing = Fin 0, accuracy = Fin 0\<rparr>,
       num_svs = 0, sv_list = replicate GPS_MAX_SVS zero_sv, used_in_fix_mask = 0, sv_status_changed = False\<rparr>\<rparr>"

section \<open>Setting the members\<close>

text \<open>Each function returns its result and the new members.\<close>

definition nmea_reader_update_time :: "token \<Rightarrow> nmea_data \<Rightarrow> (int \<times> nmea_data) option" where
  "nmea_reader_update_time tok r =
    (let t = tok_text tok in
     if length t < 6 then Some (- 1, r)
     else if utc_year r < 0 then Some (- 1, r)
     else do {
       hour \<leftarrow> str2int (take 2 t);
       minute \<leftarrow> str2int (take 2 (drop 2 t));
       seconds \<leftarrow> str2int (take 2 (drop 4 t));
       milliseconds \<leftarrow>
         (if length t = 9 then map_option (\<lambda>n. n * 10) (str2int (drop 7 t))
          else if length t = 8 then map_option (\<lambda>n. n * 100) (str2int (drop 7 t))
          else if 10 \<le> length t then str2int (take 3 (drop 7 t))
          else Some 0);
       fix_time \<leftarrow> mkgmtime \<lparr>tm_year = utc_year r - 1900, tm_mon = utc_mon r - 1, tm_mday = utc_day r,
          tm_hour = hour, tm_min = minute, tm_sec = seconds\<rparr>;
       Some (0, r\<lparr>location := (location r)\<lparr>timestamp := fix_time * 1000 + milliseconds\<rparr>\<rparr>) })"

definition nmea_reader_update_cdate :: "token \<Rightarrow> token \<Rightarrow> token \<Rightarrow> nmea_data \<Rightarrow> (int \<times> nmea_data) option" where
  "nmea_reader_update_cdate tok_d tok_m tok_y r =
    (if snd tok_d < 2 \<or> snd tok_m < 2 \<or> snd tok_y < 4 then Some (- 1, r)
     else do {
       d \<leftarrow> str2int (take 2 (tok_text tok_d));
       m \<leftarrow> str2int (take 2 (tok_text tok_m));
       y \<leftarrow> str2int (take 4 (tok_text tok_y));
       Some (0, r\<lparr>utc_day := d, utc_mon := m, utc_year := y\<rparr>) })"

definition nmea_reader_update_date :: "token \<Rightarrow> token \<Rightarrow> nmea_data \<Rightarrow> (int \<times> nmea_data) option" where
  "nmea_reader_update_date date time r =
    (let t = tok_text date in
     if length t \<noteq> 6 then Some (- 1, r)
     else do {
       day \<leftarrow> str2int (take 2 t);
       mon \<leftarrow> str2int (take 2 (drop 2 t));
       year \<leftarrow> map_option (\<lambda>y. y + 2000) (str2int (take 2 (drop 4 t)));
       if day < 0 \<or> mon < 0 \<or> year < 0 then Some (- 1, r)
       else nmea_reader_update_time time (r\<lparr>utc_year := year, utc_mon := mon, utc_day := day\<rparr>) })"

text \<open>The conversion of a \<open>double\<close> to \<open>int\<close>, which truncates and is undefined outside the range of \<open>int\<close>.\<close>

definition int_of_double :: "double \<Rightarrow> int option" where
  "int_of_double d = (case d of Fin x \<Rightarrow> checked (if x < 0 then - floor (- x) else floor x) | Infinite \<Rightarrow> None)"

fun dfloor :: "double \<Rightarrow> double" where
  "dfloor (Fin x) = Fin (of_int (floor x))"
| "dfloor Infinite = Infinite"

definition convert_from_hhmm :: "rounding \<Rightarrow> token \<Rightarrow> double option" where
  "convert_from_hhmm fp tok =
    (let val = str2float fp (tok_text tok) in do {
       degrees \<leftarrow> int_of_double (dop fp (/) (dfloor val) (Fin 100));
       let minutes = dop fp (-) val (dop fp (*) (Fin (of_int degrees)) (Fin 100));
       Some (dop fp (+) (Fin (of_int degrees)) (dop fp (/) minutes (Fin 60))) })"

definition nmea_reader_update_latlong :: "rounding \<Rightarrow> token \<Rightarrow> char \<Rightarrow> token \<Rightarrow> char \<Rightarrow> nmea_data \<Rightarrow> (int \<times> nmea_data) option" where
  "nmea_reader_update_latlong fp lat_tok latitudeHemi lon_tok longitudeHemi r =
    (if snd lat_tok < 6 then Some (- 1, r)
     else do {
       lat \<leftarrow> convert_from_hhmm fp lat_tok;
       let lat = (if latitudeHemi = CHR ''S'' then dneg lat else lat);
       if snd lon_tok < 6 then Some (- 1, r)
       else do {
         lon \<leftarrow> convert_from_hhmm fp lon_tok;
         let lon = (if longitudeHemi = CHR ''W'' then dneg lon else lon);
         Some (0, r\<lparr>location := (location r)\<lparr>flags := flags (location r) OR GPS_LOCATION_HAS_LAT_LONG,
           latitude := lat, longitude := lon\<rparr>\<rparr>) } })"

definition nmea_reader_update_altitude :: "rounding \<Rightarrow> token \<Rightarrow> nmea_data \<Rightarrow> int \<times> nmea_data" where
  "nmea_reader_update_altitude fp tok r =
    (if snd tok = 0 then (- 1, r)
     else (0, r\<lparr>location := (location r)\<lparr>flags := flags (location r) OR GPS_LOCATION_HAS_ALTITUDE,
       altitude := str2float fp (tok_text tok)\<rparr>\<rparr>))"

text \<open>The value is stored as a \<open>float\<close> and compared with the \<open>double\<close> 99.99.\<close>

definition nmea_reader_update_accuracy :: "rounding \<Rightarrow> token \<Rightarrow> nmea_data \<Rightarrow> int \<times> nmea_data" where
  "nmea_reader_update_accuracy fp tok r =
    (if snd tok = 0 then (- 1, r)
     else let acc = float_of fp (str2float fp (tok_text tok)); r = r\<lparr>location := (location r)\<lparr>accuracy := acc\<rparr>\<rparr> in
       if acc = to_double fp (9999 / 100) then (0, r)
       else (0, r\<lparr>location := (location r)\<lparr>flags := flags (location r) OR GPS_LOCATION_HAS_ACCURACY\<rparr>\<rparr>))"

definition nmea_reader_update_bearing :: "rounding \<Rightarrow> token \<Rightarrow> nmea_data \<Rightarrow> int \<times> nmea_data" where
  "nmea_reader_update_bearing fp tok r =
    (if snd tok = 0 then (- 1, r)
     else (0, r\<lparr>location := (location r)\<lparr>flags := flags (location r) OR GPS_LOCATION_HAS_BEARING,
       bearing := float_of fp (str2float fp (tok_text tok))\<rparr>\<rparr>))"

definition nmea_reader_update_speed :: "rounding \<Rightarrow> token \<Rightarrow> nmea_data \<Rightarrow> int \<times> nmea_data" where
  "nmea_reader_update_speed fp tok r =
    (if snd tok = 0 then (- 1, r)
     else (0, r\<lparr>location := (location r)\<lparr>flags := flags (location r) OR GPS_LOCATION_HAS_SPEED,
       speed := float_of fp (dop fp (/) (dop fp (*) (str2float fp (tok_text tok)) (to_double fp (1852 / 1000)))
         (to_double fp (36 / 10)))\<rparr>\<rparr>))"

section \<open>The sentences\<close>

text \<open>\<open>1ul << (32 - prn)\<close>\<close>

definition sv_bit :: "int \<Rightarrow> 32 word option" where
  "sv_bit n = (if n \<le> 32 then Some (push_bit (nat (32 - n)) 1) else None)"

fun gsa_loop :: "token list \<Rightarrow> nat list \<Rightarrow> nmea_data \<Rightarrow> nmea_data option" where
  "gsa_loop t [] r = Some r"
| "gsa_loop t (i # is) r = do {
     n \<leftarrow> str2int (tok_text (nmea_tokenizer_get t i));
     r \<leftarrow> (if 0 < n then do { b \<leftarrow> sv_bit n; Some (r\<lparr>used_in_fix_mask := used_in_fix_mask r OR b, sv_status_changed := True\<rparr>) }
          else Some r);
     gsa_loop t is r }"

definition sv_of :: "rounding \<Rightarrow> token \<Rightarrow> token \<Rightarrow> token \<Rightarrow> token \<Rightarrow> sv_info option" where
  "sv_of fp tok_prn tok_elevation tok_azimuth tok_snr = do {
     n \<leftarrow> str2int (tok_text tok_prn);
     Some \<lparr>prn = n, snr = float_of fp (str2float fp (tok_text tok_snr)),
       elevation = float_of fp (str2float fp (tok_text tok_elevation)),
       azimuth = float_of fp (str2float fp (tok_text tok_azimuth))\<rparr> }"

text \<open>\<open>curr\<close> is always \<open>num_svs\<close>.\<close>

fun gsv_loop :: "rounding \<Rightarrow> token list \<Rightarrow> int \<Rightarrow> nat list \<Rightarrow> nmea_data \<Rightarrow> nmea_data option" where
  "gsv_loop fp t noSatellites [] r = Some r"
| "gsv_loop fp t noSatellites (i # is) r =
    (if num_svs r < noSatellites then do {
       let tok = (\<lambda>j. nmea_tokenizer_get t (i * 4 + j));
       sv \<leftarrow> sv_of fp (tok 4) (tok 5) (tok 6) (tok 7);
       l \<leftarrow> wr (sv_list r) (nat (num_svs r)) sv;
       gsv_loop fp t noSatellites is (r\<lparr>sv_list := l, num_svs := num_svs r + 1\<rparr>) }
     else Some r)"

definition parse_GGA :: "rounding \<Rightarrow> token list \<Rightarrow> nmea_data \<Rightarrow> nmea_data option" where
  "parse_GGA fp t r =
    (let tok = nmea_tokenizer_get t in
     if 48 < (of_char (tok_char (tok 6)) :: nat) \<and> 0 \<le> utc_year r then do {
       (_, r) \<leftarrow> nmea_reader_update_latlong fp (tok 2) (tok_char (tok 3)) (tok 4) (tok_char (tok 5)) r;
       Some (snd (nmea_reader_update_altitude fp (tok 9) r)) }
     else Some r)"

definition parse_GLL :: "rounding \<Rightarrow> token list \<Rightarrow> nmea_data \<Rightarrow> nmea_data option" where
  "parse_GLL fp t r =
    (let tok = nmea_tokenizer_get t in
     if tok_char (tok 6) = CHR ''A'' \<and> 0 \<le> utc_year r then
       map_option snd (nmea_reader_update_latlong fp (tok 1) (tok_char (tok 2)) (tok 3) (tok_char (tok 4)) r)
     else Some r)"

definition parse_GSA :: "rounding \<Rightarrow> token list \<Rightarrow> nmea_data \<Rightarrow> nmea_data option" where
  "parse_GSA fp t r =
    (let tok = nmea_tokenizer_get t in
     if tok_char (tok 2) \<noteq> CHR 0x00 \<and> tok_char (tok 2) \<noteq> CHR ''1'' then
       gsa_loop t [3 ..< 15] ((snd (nmea_reader_update_accuracy fp (tok 15) r))\<lparr>used_in_fix_mask := 0\<rparr>)
     else Some r)"

definition parse_GSV :: "rounding \<Rightarrow> token list \<Rightarrow> nmea_data \<Rightarrow> nmea_data option" where
  "parse_GSV fp t r =
    (let tok = nmea_tokenizer_get t in do {
       noSatellites \<leftarrow> str2int (tok_text (tok 3));
       if 0 < noSatellites then do {
         sentence \<leftarrow> str2int (tok_text (tok 2));
         totalSentences \<leftarrow> str2int (tok_text (tok 1));
         let r = (if sentence = 1 then r\<lparr>sv_status_changed := False, num_svs := 0\<rparr> else r);
         r \<leftarrow> gsv_loop fp t noSatellites [0 ..< 4] r;
         Some (if sentence = totalSentences then r\<lparr>sv_status_changed := True\<rparr> else r) }
       else Some r })"

definition parse_RMC :: "rounding \<Rightarrow> token list \<Rightarrow> nmea_data \<Rightarrow> nmea_data option" where
  "parse_RMC fp t r =
    (let tok = nmea_tokenizer_get t in
     if tok_char (tok 2) = CHR ''A'' then do {
       (_, r) \<leftarrow> nmea_reader_update_date (tok 9) (tok 1) r;
       (_, r) \<leftarrow> nmea_reader_update_latlong fp (tok 3) (tok_char (tok 4)) (tok 5) (tok_char (tok 6)) r;
       let (_, r) = nmea_reader_update_bearing fp (tok 8) r;
       Some (snd (nmea_reader_update_speed fp (tok 7) r)) }
     else Some r)"

definition parse_VTG :: "rounding \<Rightarrow> token list \<Rightarrow> nmea_data \<Rightarrow> nmea_data option" where
  "parse_VTG fp t r =
    (let tok = nmea_tokenizer_get t in
     if tok_char (tok 9) \<noteq> CHR 0x00 \<and> tok_char (tok 9) \<noteq> CHR ''N'' then
       let (_, r) = nmea_reader_update_bearing fp (tok 1) r in
       Some (snd (nmea_reader_update_speed fp (tok 5) r))
     else Some r)"

definition parse_ZDA :: "rounding \<Rightarrow> token list \<Rightarrow> nmea_data \<Rightarrow> nmea_data option" where
  "parse_ZDA fp t r =
    (let tok = nmea_tokenizer_get t in
     if tok_char (tok 4) \<noteq> CHR 0x00 \<and> tok_char (tok 1) \<noteq> CHR 0x00 then do {
       (_, r) \<leftarrow> nmea_reader_update_cdate (tok 2) (tok 3) (tok 4) r;
       map_option snd (nmea_reader_update_time (tok 1) r) }
     else Some r)"

text \<open>The body of \<open>nmea_reader_parse\<close>, for the line \<open>l\<close>.\<close>

definition parse_line :: "rounding \<Rightarrow> string \<Rightarrow> nmea_data \<Rightarrow> nmea_data option" where
  "parse_line fp l r =
    (if length l < 9 then Some r
     else let t = nmea_tokenizer_init l; tok = nmea_tokenizer_get t 0; kind = take 3 (drop 2 (fst tok)) in
       if snd tok < 5 then Some r
       else if kind = ''GGA'' then parse_GGA fp t r
       else if kind = ''GLL'' then parse_GLL fp t r
       else if kind = ''GSA'' then parse_GSA fp t r
       else if kind = ''GSV'' then parse_GSV fp t r
       else if kind = ''RMC'' then parse_RMC fp t r
       else if kind = ''VTG'' then parse_VTG fp t r
       else if kind = ''ZDA'' then parse_ZDA fp t r
       else Some r)"

definition nmea_reader_parse :: "rounding \<Rightarrow> NmeaReader \<Rightarrow> NmeaReader option" where
  "nmea_reader_parse fp r = map_option (\<lambda>d. r\<lparr>parsed := d\<rparr>) (parse_line fp (take (pos r) (in_buf r)) (parsed r))"

definition nmea_reader_addc :: "rounding \<Rightarrow> NmeaReader \<Rightarrow> char \<Rightarrow> NmeaReader option" where
  "nmea_reader_addc fp r c =
    (if overflow r then Some (r\<lparr>overflow := (c \<noteq> CHR 0x0A)\<rparr>)
     else if NMEA_MAX_SIZE \<le> pos r then Some (r\<lparr>overflow := True, pos := 0\<rparr>)
     else do {
       b \<leftarrow> wr (in_buf r) (pos r) c;
       let r = r\<lparr>in_buf := b, pos := pos r + 1\<rparr>;
       if c = CHR 0x0A then map_option (\<lambda>r. r\<lparr>pos := 0\<rparr>) (nmea_reader_parse fp r)
       else Some r })"

text \<open>The loop of the thread over the bytes of one read.\<close>

fun nmea_feed :: "rounding \<Rightarrow> NmeaReader \<Rightarrow> string \<Rightarrow> NmeaReader option" where
  "nmea_feed fp r [] = Some r"
| "nmea_feed fp r (c # cs) = Option.bind (nmea_reader_addc fp r c) (\<lambda>r. nmea_feed fp r cs)"

section \<open>Which lines are parsed\<close>

lemma nmea_feed_append: "nmea_feed fp r (xs @ ys) = Option.bind (nmea_feed fp r xs) (\<lambda>r. nmea_feed fp r ys)"
  by (induction xs arbitrary: r) (auto split: bind_split)

fun parse_lines :: "rounding \<Rightarrow> string list \<Rightarrow> nmea_data \<Rightarrow> nmea_data option" where
  "parse_lines fp [] d = Some d"
| "parse_lines fp (l # ls) d = Option.bind (parse_line fp l d) (parse_lines fp ls)"

text \<open>The lines that are parsed: those of less than 200 characters; a line of exactly 200 characters
  also takes the next one with it.\<close>

primrec lines_heard :: "bool \<Rightarrow> string list \<Rightarrow> string list" where
  "lines_heard skip [] = []"
| "lines_heard skip (l # ls) =
    (if skip then lines_heard False ls
     else if length l < NMEA_MAX_SIZE then l # lines_heard False ls
     else lines_heard (length l = NMEA_MAX_SIZE) ls)"

abbreviation end_line :: "string \<Rightarrow> string" where "end_line l \<equiv> l @ [CHR 0x0A]"

lemma feed_short:
  "\<not> overflow r \<Longrightarrow> length (in_buf r) = NMEA_MAX_SIZE + 1 \<Longrightarrow> pos r + length l \<le> NMEA_MAX_SIZE \<Longrightarrow> CHR 0x0A \<notin> set l \<Longrightarrow>
   nmea_feed fp r l = Some (r\<lparr>in_buf := blit (in_buf r) (pos r) l, pos := pos r + length l\<rparr>)"
proof (induction l arbitrary: r)
  case Nil
  then show ?case by simp
next
  case (Cons c l)
  then show ?case by (auto simp: nmea_reader_addc_def wr_Some blit_Cons Let_def)
qed

lemma feed_skip: "overflow r \<Longrightarrow> CHR 0x0A \<notin> set l \<Longrightarrow> nmea_feed fp r (end_line l) = Some (r\<lparr>overflow := False\<rparr>)"
  by (induction l arbitrary: r) (auto simp: nmea_reader_addc_def)

lemma feed_line:
  assumes "\<not> overflow r" "length (in_buf r) = NMEA_MAX_SIZE + 1" "pos r = 0" "CHR 0x0A \<notin> set l" "length l < NMEA_MAX_SIZE"
  shows "nmea_feed fp r (end_line l) =
    map_option (\<lambda>d. r\<lparr>in_buf := blit (in_buf r) 0 (end_line l), parsed := d\<rparr>) (parse_line fp (end_line l) (parsed r))"
proof -
  have "wr (blit (in_buf r) 0 l) (length l) (CHR 0x0A) = Some (blit (in_buf r) 0 (end_line l))"
    using assms by (subst wr_blit [of 0 l "in_buf r", simplified]) (simp_all add: NMEA_MAX_SIZE_def)
  moreover have "take (Suc (length l)) (blit (in_buf r) 0 (end_line l)) = end_line l"
    using take_blit0 [of "end_line l" "in_buf r"] assms by (simp add: NMEA_MAX_SIZE_def)
  ultimately show ?thesis
    using assms by (simp add: nmea_feed_append feed_short nmea_reader_addc_def nmea_reader_parse_def option.map_comp comp_def)
      (simp add: option.map_comp comp_def map_option_case split: option.split)
qed

lemma feed_long:
  assumes "\<not> overflow r" "length (in_buf r) = NMEA_MAX_SIZE + 1" "pos r = 0" "CHR 0x0A \<notin> set l" "NMEA_MAX_SIZE \<le> length l"
  shows "\<exists>b. length b = NMEA_MAX_SIZE + 1 \<and>
    nmea_feed fp r (end_line l) = Some (r\<lparr>in_buf := b, overflow := (length l = NMEA_MAX_SIZE)\<rparr>)"
proof -
  let ?n = NMEA_MAX_SIZE
  let ?b = "blit (in_buf r) 0 (take ?n l)"
  have l: "end_line l = take ?n l @ end_line (drop ?n l)" by simp
  have "nmea_feed fp r (take ?n l) = Some (r\<lparr>in_buf := ?b, pos := ?n\<rparr>)"
    using assms by (subst feed_short) (auto dest: in_set_takeD)
  moreover have "nmea_feed fp (r\<lparr>in_buf := ?b, pos := ?n\<rparr>) (end_line (drop ?n l)) =
      Some (r\<lparr>in_buf := ?b, overflow := (length l = ?n)\<rparr>)"
  proof (cases "drop ?n l")
    case Nil
    with assms show ?thesis by (simp add: nmea_reader_addc_def)
  next
    case (Cons c cs)
    moreover from Cons have "set (c # cs) \<subseteq> set l" by (metis set_drop_subset)
    ultimately have "length l \<noteq> ?n" "CHR 0x0A \<notin> set cs" using assms(4) by auto
    with Cons assms show ?thesis by (simp add: nmea_reader_addc_def feed_skip)
  qed
  ultimately show ?thesis unfolding l nmea_feed_append using assms by (intro exI [of _ ?b]) simp
qed

lemma feed_next: "nmea_feed fp r (concat (map end_line (l # ls))) =
    Option.bind (nmea_feed fp r (end_line l)) (\<lambda>r. nmea_feed fp r (concat (map end_line ls)))"
  by (simp only: list.map concat.simps nmea_feed_append)

lemma feed_lines:
  "length (in_buf r) = NMEA_MAX_SIZE + 1 \<Longrightarrow> pos r = 0 \<Longrightarrow> \<forall>l\<in>set ls. CHR 0x0A \<notin> set l \<Longrightarrow>
   map_option parsed (nmea_feed fp r (concat (map end_line ls))) =
   parse_lines fp (map end_line (lines_heard (overflow r) ls)) (parsed r)"
proof (induction ls arbitrary: r)
  case Nil
  then show ?case by simp
next
  case (Cons l ls)
  have n: "CHR 0x0A \<notin> set l" "\<forall>l\<in>set ls. CHR 0x0A \<notin> set l" using Cons.prems(3) by simp_all
  show ?case
  proof (cases "overflow r")
    case True
    show ?thesis unfolding feed_next feed_skip [OF True n(1)] using True Cons.IH [of "r\<lparr>overflow := False\<rparr>"] Cons.prems(1,2) n(2) by simp
  next
    case False
    show ?thesis
    proof (cases "length l < NMEA_MAX_SIZE")
      case True
      show ?thesis
      proof (cases "parse_line fp (end_line l) (parsed r)")
        case None
        with True False show ?thesis unfolding feed_next feed_line [OF False Cons.prems(1,2) n(1) True] by simp
      next
        case (Some d)
        let ?r = "r\<lparr>in_buf := blit (in_buf r) 0 (end_line l), parsed := d\<rparr>"
        have "map_option parsed (nmea_feed fp ?r (concat (map end_line ls))) = parse_lines fp (map end_line (lines_heard False ls)) d"
          using Cons.IH [of ?r] Cons.prems(1,2) n(2) True False by (simp add: NMEA_MAX_SIZE_def)
        with Some True False show ?thesis unfolding feed_next feed_line [OF False Cons.prems(1,2) n(1) True] by simp
      qed
    next
      case long: False
      then obtain b where b: "length b = NMEA_MAX_SIZE + 1"
          "nmea_feed fp r (end_line l) = Some (r\<lparr>in_buf := b, overflow := (length l = NMEA_MAX_SIZE)\<rparr>)"
        using feed_long [OF False Cons.prems(1,2) n(1)] by auto
      show ?thesis unfolding feed_next b(2)
        using long False Cons.IH [of "r\<lparr>in_buf := b, overflow := (length l = NMEA_MAX_SIZE)\<rparr>"] Cons.prems(2) n(2) b(1) by simp
    qed
  qed
qed

text \<open>C28: The thread parses exactly the lines of less than 200 characters that do not follow a line of exactly
  200: however long the other lines are, it writes only into its buffer and finds the next line.\<close>

theorem lines_parsed:
  assumes "\<forall>l\<in>set ls. CHR 0x0A \<notin> set l"
  shows "map_option parsed (nmea_feed fp nmea_reader_init (concat (map (\<lambda>l. l @ [CHR 0x0A]) ls))) =
    parse_lines fp (map (\<lambda>l. l @ [CHR 0x0A]) (lines_heard False ls)) (parsed nmea_reader_init)"
  using assms feed_lines [of nmea_reader_init ls fp] by (simp add: nmea_reader_init_def)

section \<open>Fields of a sentence\<close>

fun commas :: "string list \<Rightarrow> string" where
  "commas [] = []"
| "commas [f] = f"
| "commas (f # fs) = f @ CHR '','' # commas fs"

fun field_tokens :: "string list \<Rightarrow> string \<Rightarrow> token list" where
  "field_tokens [] post = []"
| "field_tokens [f] post = (if f = [] then [] else [(f @ post, length f)])"
| "field_tokens (f # fs) post = (commas (f # fs) @ post, length f) # field_tokens fs post"

lemma takeWhile_no_comma: "CHR '','' \<notin> set f \<Longrightarrow> takeWhile (\<lambda>c. c \<noteq> CHR '','') (f @ CHR '','' # r) = f"
  by (induction f) auto

lemma takeWhile_all_comma: "CHR '','' \<notin> set f \<Longrightarrow> takeWhile (\<lambda>c. c \<noteq> CHR '','') f = f"
  by (induction f) auto

lemma tokens_from_commas:
  "\<forall>f\<in>set fs. CHR '','' \<notin> set f \<Longrightarrow>
   tokens_from (pre @ commas fs @ post) (length pre) (length pre + length (commas fs)) = field_tokens fs post"
proof (induction fs arbitrary: pre rule: commas.induct)
  case 1
  show ?case by (simp add: tokens_from.simps)
next
  case (2 f)
  then show ?case
    by (subst tokens_from.simps) (simp add: Let_def takeWhile_all_comma, subst tokens_from.simps, simp)
next
  case (3 f g fs)
  let ?rest = "commas (g # fs)"
  have "tokens_from ((pre @ f @ [CHR '','']) @ ?rest @ post) (length (pre @ f @ [CHR '',''])) (length (pre @ f @ [CHR '','']) + length ?rest)
     = field_tokens (g # fs) post"
    using 3 by (intro "3.IH") auto
  then show ?case
    using "3.prems" by (subst tokens_from.simps) (simp add: Let_def takeWhile_no_comma add.assoc)
qed

lemma field_token_text: "i < length (field_tokens fs post) \<Longrightarrow> i < length fs \<and> tok_text (field_tokens fs post ! i) = fs ! i"
proof (induction fs arbitrary: i rule: commas.induct)
  case (3 f g fs)
  then show ?case by (cases i) auto
qed (auto split: if_splits)

lemma field_token_fst: "i < length (field_tokens fs post) \<Longrightarrow> fst (field_tokens fs post ! i) = commas (drop i fs) @ post"
proof (induction fs arbitrary: i rule: commas.induct)
  case (3 f g fs)
  then show ?case by (cases i) auto
qed (auto split: if_splits)

lemma field_tokens_length:
  "length (field_tokens fs post) = (if fs = [] \<or> last fs = [] then length fs - 1 else length fs)"
  by (induction fs rule: commas.induct) auto

text \<open>A sentence with a checksum.\<close>

definition nmea_sentence :: "string list \<Rightarrow> char \<Rightarrow> char \<Rightarrow> string" where
  "nmea_sentence fs h1 h2 = CHR ''$'' # commas fs @ [CHR ''*'', h1, h2, CHR 0x0D, CHR 0x0A]"

lemma tokenizer_fields:
  assumes "\<forall>f\<in>set fs. CHR '','' \<notin> set f"
  shows "nmea_tokenizer_init (nmea_sentence fs h1 h2) =
    take MAX_NMEA_TOKENS (field_tokens fs [CHR ''*'', h1, h2, CHR 0x0D, CHR 0x0A])"
proof -
  let ?l = "nmea_sentence fs h1 h2" and ?n = "length (commas fs)"
  have l: "length ?l = ?n + 6" by (simp add: nmea_sentence_def)
  have at: "?l ! (?n + 5) = CHR 0x0A" "?l ! (?n + 4) = CHR 0x0D" "?l ! (?n + 1) = CHR ''*''"
    by (simp_all add: nmea_sentence_def nth_append)
  have "sentence_end ?l 1 (?n + 6) = 1 + ?n"
    unfolding sentence_end_def Let_def using at by (simp add: numeral_eq_Suc)
  moreover have "?l \<noteq> []" "?l ! 0 = CHR ''$''" "?l = [CHR ''$''] @ commas fs @ [CHR ''*'', h1, h2, CHR 0x0D, CHR 0x0A]"
    by (simp_all add: nmea_sentence_def)
  ultimately show ?thesis
    using tokens_from_commas [OF assms, of "[CHR ''$'']" "[CHR ''*'', h1, h2, CHR 0x0D, CHR 0x0A]"]
    unfolding nmea_tokenizer_init_def l Let_def by simp
qed

lemma sentence_field:
  assumes "\<forall>f\<in>set fs. CHR '','' \<notin> set f" "length fs \<le> MAX_NMEA_TOKENS"
  shows "tok_text (nmea_tokenizer_get (nmea_tokenizer_init (nmea_sentence fs h1 h2)) i) = (if i < length fs then fs ! i else [])"
proof -
  let ?t = "field_tokens fs [CHR ''*'', h1, h2, CHR 0x0D, CHR 0x0A]"
  have "length ?t \<le> length fs" by (simp add: field_tokens_length)
  then have t: "nmea_tokenizer_init (nmea_sentence fs h1 h2) = ?t" using assms by (simp add: tokenizer_fields)
  show ?thesis
  proof (cases "i < length ?t")
    case True
    then show ?thesis using field_token_text [OF True] unfolding t by (simp add: nmea_tokenizer_get_def)
  next
    case False
    then have "i < length fs \<Longrightarrow> fs ! i = []"
      by (cases fs rule: rev_cases) (auto simp: field_tokens_length nth_append split: if_splits)
    with False show ?thesis unfolding t by (simp add: nmea_tokenizer_get_def)
  qed
qed

lemma str2int_loop_digits:
  "\<forall>c\<in>set ds. isdigit c \<Longrightarrow> int (foldl (\<lambda>v c. v * 10 + digit_val c) a ds) \<le> 2147483647 \<Longrightarrow>
   str2int_loop (int a) ds = Some (int (foldl (\<lambda>v c. v * 10 + digit_val c) a ds))"
proof (induction ds arbitrary: a)
  case Nil
  then show ?case by simp
next
  case (Cons c ds)
  have "b \<le> foldl (\<lambda>v c. v * 10 + digit_val c) b ds" for b :: nat
  proof (induction ds arbitrary: b)
    case (Cons c ds)
    from Cons [of "b * 10 + digit_val c"] show ?case by simp
  qed simp
  from this [of "a * 10 + digit_val c"] Cons.prems have "int (a * 10 + digit_val c) \<le> 2147483647" by simp
  moreover have "str2int_loop (int (a * 10 + digit_val c)) ds = Some (int (foldl (\<lambda>v c. v * 10 + digit_val c) a (c # ds)))"
    using Cons.IH [of "a * 10 + digit_val c"] Cons.prems by simp
  ultimately show ?case using Cons.prems(1) by (simp add: checked_def in_int32_def)
qed

lemma str2int_dec_nat: "int n \<le> 2147483647 \<Longrightarrow> str2int (dec_nat n) = Some (int n)"
  using str2int_loop_digits [of "dec_nat n" 0] digits_value_dec_nat [of n]
  by (simp add: str2int_def dec_nat_isdigit digits_value_def)

section \<open>Satellites in view\<close>

text \<open>What a receiver reports of a satellite: its number, elevation, azimuth and signal, the last three as
  texts, each possibly empty; and the sentences that report a list of satellites, four in each.\<close>

type_synonym satellite = "nat \<times> string \<times> string \<times> string"

fun sat_fields :: "satellite \<Rightarrow> string list" where
  "sat_fields (n, e, a, s) = [dec_nat n, e, a, s]"

fun sat_info :: "rounding \<Rightarrow> satellite \<Rightarrow> sv_info" where
  "sat_info fp (n, e, a, s) = \<lparr>prn = int n, snr = float_of fp (str2float fp s),
     elevation = float_of fp (str2float fp e), azimuth = float_of fp (str2float fp a)\<rparr>"

definition plain_satellite :: "satellite \<Rightarrow> bool" where
  "plain_satellite s \<longleftrightarrow> int (fst s) \<le> 2147483647 \<and> (\<forall>f\<in>set (sat_fields s). CHR '','' \<notin> set f)"

definition gsv_total :: "satellite list \<Rightarrow> nat" where
  "gsv_total sats = (length sats + 3) div 4"

definition gsv_group :: "satellite list \<Rightarrow> nat \<Rightarrow> satellite list" where
  "gsv_group sats i = take 4 (drop (4 * (i - 1)) sats)"

definition gsv_sentence :: "(nat \<Rightarrow> char) \<Rightarrow> (nat \<Rightarrow> char) \<Rightarrow> satellite list \<Rightarrow> nat \<Rightarrow> string" where
  "gsv_sentence h1 h2 sats i = nmea_sentence ([''GPGSV'', dec_nat (gsv_total sats), dec_nat i, dec_nat (length sats)] @
     concat (map sat_fields (gsv_group sats i))) (h1 i) (h2 i)"

lemma concat_field:
  "j < length ss \<Longrightarrow> c < 4 \<Longrightarrow> concat (map sat_fields ss) ! (j * 4 + c) = sat_fields (ss ! j) ! c"
proof (induction ss arbitrary: j)
  case (Cons s ss)
  have "length (sat_fields s) = 4" by (cases s) simp
  with Cons show ?case by (cases j) (simp_all add: nth_append)
qed simp

lemma concat_fields_length: "length (concat (map sat_fields ss)) = 4 * length ss"
proof (induction ss)
  case (Cons s ss)
  then show ?case by (cases s) simp
qed simp

lemma sv_of_sat:
  assumes "\<And>c. c < 4 \<Longrightarrow> tok_text (tok (4 + c)) = sat_fields s ! c" "plain_satellite s"
  shows "sv_of fp (tok 4) (tok 5) (tok 6) (tok 7) = Some (sat_info fp s)"
proof -
  obtain n e a x where s: "s = (n, e, a, x)" by (cases s)
  have "tok_text (tok 4) = dec_nat n" "tok_text (tok 5) = e" "tok_text (tok 6) = a" "tok_text (tok 7) = x"
    using assms(1) [of 0] assms(1) [of 1] assms(1) [of 2] assms(1) [of 3] s by (simp_all add: numeral_eq_Suc)
  then show ?thesis using assms(2) s by (simp add: sv_of_def str2int_dec_nat plain_satellite_def)
qed

lemma gsv_loop_group:
  "num_svs r = int k \<Longrightarrow> k + length ss \<le> length (sv_list r) \<Longrightarrow> length ss \<le> 4 - m \<Longrightarrow>
   (length ss < 4 - m \<longrightarrow> n = int (k + length ss)) \<Longrightarrow> int (k + length ss) \<le> n \<Longrightarrow>
   \<forall>j<length ss. \<forall>c<4. tok_text (nmea_tokenizer_get t ((m + j) * 4 + (4 + c))) = sat_fields (ss ! j) ! c \<Longrightarrow>
   \<forall>s\<in>set ss. plain_satellite s \<Longrightarrow>
   gsv_loop fp t n [m ..< 4] r =
     Some (r\<lparr>sv_list := blit (sv_list r) k (map (sat_info fp) ss), num_svs := int (k + length ss)\<rparr>)"
proof (induction ss arbitrary: m k r)
  case Nil
  then show ?case by (cases "m < 4") (simp_all add: upt_conv_Cons)
next
  case (Cons s ss)
  then have m: "[m ..< 4] = m # [Suc m ..< 4]" by (simp add: upt_conv_Cons)
  have sv: "sv_of fp (nmea_tokenizer_get t (m * 4 + 4)) (nmea_tokenizer_get t (m * 4 + 5)) (nmea_tokenizer_get t (m * 4 + 6))
      (nmea_tokenizer_get t (m * 4 + 7)) = Some (sat_info fp s)"
    using Cons.prems(6,7) by (intro sv_of_sat) (auto dest: spec [of _ 0])
  let ?r = "r\<lparr>sv_list := (sv_list r)[k := sat_info fp s], num_svs := num_svs r + 1\<rparr>"
  have "\<forall>j<length ss. \<forall>c<4. tok_text (nmea_tokenizer_get t ((Suc m + j) * 4 + (4 + c))) = sat_fields (ss ! j) ! c"
  proof (intro allI impI)
    fix j c :: nat assume "j < length ss" "c < 4"
    with Cons.prems(6) [rule_format, of "Suc j" c]
    show "tok_text (nmea_tokenizer_get t ((Suc m + j) * 4 + (4 + c))) = sat_fields (ss ! j) ! c" by simp
  qed
  then have "gsv_loop fp t n [Suc m ..< 4] ?r =
      Some (?r\<lparr>sv_list := blit (sv_list ?r) (Suc k) (map (sat_info fp) ss), num_svs := int (Suc k + length ss)\<rparr>)"
    using Cons.prems by (intro Cons.IH) auto
  with m sv Cons.prems show ?case by (simp add: wr_Some blit_Cons Let_def)
qed

lemma gsv_loop_full:
  assumes "num_svs r = int k" "length (sv_list r) \<le> k" "int k < n"
  shows "gsv_loop fp t n [0 ..< 4] r = None"
proof -
  have "[0 ..< 4] = 0 # [Suc 0 ..< 4]" by (simp add: upt_conv_Cons)
  moreover have "wr (sv_list r) (nat (num_svs r)) sv = None" for sv using assms by (simp add: wr_None)
  ultimately show ?thesis using assms(1,3) by (simp add: Let_def)
qed

lemma gsv_group_length: "1 \<le> i \<Longrightarrow> i \<le> gsv_total sats \<Longrightarrow>
    length (gsv_group sats i) = min 4 (length sats - 4 * (i - 1)) \<and> 4 * (i - 1) < length sats"
  by (auto simp: gsv_group_def gsv_total_def)

lemma no_comma_dec: "CHR '','' \<notin> set (dec_nat n)"
  using dec_nat_isdigit isdigit_not_sign by blast

lemma parse_gsv_sentence:
  fixes sats i
  defines "ss \<equiv> gsv_group sats i" and "k \<equiv> 4 * (i - 1)"
  assumes i: "1 \<le> i" "i \<le> gsv_total sats" and n: "int (length sats) + 3 \<le> 2147483647" and plain: "\<forall>s\<in>set sats. plain_satellite s"
    and r: "i = 1 \<or> num_svs r = int k" and room: "k + length ss \<le> length (sv_list r) \<or> length (sv_list r) \<le> k"
  shows "parse_line fp (gsv_sentence h1 h2 sats i) r =
    (if k + length ss \<le> length (sv_list r) then
       Some (r\<lparr>sv_list := blit (sv_list r) k (map (sat_info fp) ss), num_svs := int (k + length ss),
         sv_status_changed := (if i = gsv_total sats then True else if i = 1 then False else sv_status_changed r)\<rparr>)
     else None)"
proof -
  let ?n = "int (length sats)" and ?T = "gsv_total sats"
  let ?fs = "[''GPGSV'', dec_nat ?T, dec_nat i, dec_nat (length sats)] @ concat (map sat_fields ss)"
  let ?t = "nmea_tokenizer_init (gsv_sentence h1 h2 sats i)"
  have ss: "length ss = min 4 (length sats - k)" "k < length sats" using gsv_group_length [OF i] by (simp_all add: ss_def k_def)
  have inT: "int i \<le> int ?T" "int ?T \<le> 2147483647" using i n by (auto simp: gsv_total_def)
  have plain': "\<forall>s\<in>set ss. plain_satellite s" using plain by (auto simp: ss_def gsv_group_def dest: in_set_takeD in_set_dropD)
  have fs: "\<forall>f\<in>set ?fs. CHR '','' \<notin> set f" using plain' by (auto simp: no_comma_dec plain_satellite_def)
  have len: "length ?fs = 4 + 4 * length ss" by (simp add: concat_fields_length)
  have t: "tok_text (nmea_tokenizer_get ?t j) = (if j < length ?fs then ?fs ! j else [])" for j
    unfolding gsv_sentence_def ss_def [symmetric]
    by (rule sentence_field [OF fs]) (use ss(1) len in \<open>simp add: MAX_NMEA_TOKENS_def\<close>)
  have f: "tok_text (nmea_tokenizer_get ?t 1) = dec_nat ?T" "tok_text (nmea_tokenizer_get ?t 2) = dec_nat i"
    "tok_text (nmea_tokenizer_get ?t 3) = dec_nat (length sats)"
    unfolding t using len by simp_all
  have g: "\<forall>j<length ss. \<forall>c<4. tok_text (nmea_tokenizer_get ?t ((0 + j) * 4 + (4 + c))) = sat_fields (ss ! j) ! c"
  proof (intro allI impI)
    fix j c :: nat assume jc: "j < length ss" "c < 4"
    then have "(0 + j) * 4 + (4 + c) < length ?fs" unfolding len by simp
    moreover have "?fs ! ((0 + j) * 4 + (4 + c)) = concat (map sat_fields ss) ! (j * 4 + c)" by simp
    ultimately show "tok_text (nmea_tokenizer_get ?t ((0 + j) * 4 + (4 + c))) = sat_fields (ss ! j) ! c"
      unfolding t using concat_field [OF jc] by simp
  qed
  have "?t = take MAX_NMEA_TOKENS (field_tokens ?fs [CHR ''*'', h1 i, h2 i, CHR 0x0D, CHR 0x0A])"
    unfolding gsv_sentence_def ss_def [symmetric] by (rule tokenizer_fields [OF fs])
  then have "nmea_tokenizer_get ?t 0 = (commas ?fs @ [CHR ''*'', h1 i, h2 i, CHR 0x0D, CHR 0x0A], 5)"
    by (simp add: nmea_tokenizer_get_def MAX_NMEA_TOKENS_def)
  then have kind: "snd (nmea_tokenizer_get ?t 0) = 5" "take 3 (drop 2 (fst (nmea_tokenizer_get ?t 0))) = ''GSV''" by simp_all
  have "9 \<le> length (gsv_sentence h1 h2 sats i)" by (simp add: gsv_sentence_def nmea_sentence_def)
  then have line: "parse_line fp (gsv_sentence h1 h2 sats i) r = parse_GSV fp ?t r"
    unfolding parse_line_def Let_def kind by simp
  let ?r = "if int i = 1 then r\<lparr>sv_status_changed := False, num_svs := 0\<rparr> else r"
  have num: "num_svs ?r = int k" "sv_list ?r = sv_list r" using r i by (auto simp: k_def)
  have gsv: "parse_GSV fp ?t r = do { r \<leftarrow> gsv_loop fp ?t ?n [0 ..< 4] ?r; Some (if int i = int ?T then r\<lparr>sv_status_changed := True\<rparr> else r) }"
    unfolding parse_GSV_def Let_def f using ss(2) n inT by (cases sats) (simp_all add: str2int_dec_nat del: length_Cons)
  show ?thesis
  proof (cases "k + length ss \<le> length (sv_list r)")
    case False
    with room have "gsv_loop fp ?t ?n [0 ..< 4] ?r = None" using num ss(2) by (intro gsv_loop_full) auto
    with False line gsv show ?thesis by simp
  next
    case True
    then have "gsv_loop fp ?t ?n [0 ..< 4] ?r =
        Some (?r\<lparr>sv_list := blit (sv_list ?r) k (map (sat_info fp) ss), num_svs := int (k + length ss)\<rparr>)"
      using num ss g plain' by (intro gsv_loop_group) auto
    with True line gsv i num show ?thesis by auto
  qed
qed

lemma gsv_prefix:
  assumes sats: "sats \<noteq> []" "int (length sats) + 3 \<le> 2147483647" "\<forall>s\<in>set sats. plain_satellite s"
    and l: "length (sv_list r) = GPS_MAX_SVS" and j: "1 \<le> j" "j \<le> gsv_total sats"
  shows "parse_lines fp (map (gsv_sentence h1 h2 sats) [1 ..< Suc j]) r =
    (if length (take (4 * j) sats) \<le> GPS_MAX_SVS then
       Some (r\<lparr>sv_list := blit (sv_list r) 0 (map (sat_info fp) (take (4 * j) sats)), num_svs := int (length (take (4 * j) sats)),
         sv_status_changed := (j = gsv_total sats)\<rparr>)
     else None)"
  using j
proof (induction j rule: dec_induct)
  case base
  have g: "gsv_group sats 1 = take 4 sats" by (simp add: gsv_group_def)
  have "parse_line fp (gsv_sentence h1 h2 sats 1) r =
      Some (r\<lparr>sv_list := blit (sv_list r) 0 (map (sat_info fp) (take 4 sats)), num_svs := int (length (take 4 sats)),
        sv_status_changed := (1 = gsv_total sats)\<rparr>)"
    using parse_gsv_sentence [of 1 sats r fp h1 h2] base sats l unfolding g by (simp add: GPS_MAX_SVS_def)
  then show ?case by (simp add: GPS_MAX_SVS_def)
next
  case (step j)
  have snoc: "[1 ..< Suc (Suc j)] = [1 ..< Suc j] @ [Suc j]" using step.hyps by simp
  have app: "parse_lines fp (xs @ [x]) d = Option.bind (parse_lines fp xs d) (parse_line fp x)" for xs x d
    by (induction xs arbitrary: d) (auto split: bind_split)
  have less: "4 * j < length sats" using step.prems step.hyps gsv_group_length [of "Suc j" sats] by simp
  have pre: "parse_lines fp (map (gsv_sentence h1 h2 sats) [1 ..< Suc j]) r =
    (if 4 * j \<le> GPS_MAX_SVS then
       Some (r\<lparr>sv_list := blit (sv_list r) 0 (map (sat_info fp) (take (4 * j) sats)), num_svs := int (4 * j), sv_status_changed := False\<rparr>)
     else None)"
    using step less by (simp add: min_def)
  have tk: "take (4 * Suc j) sats = take (4 * j) sats @ gsv_group sats (Suc j)"
    by (simp add: gsv_group_def take_add [symmetric] add.commute)
  show ?case
  proof (cases "4 * j < GPS_MAX_SVS")
    case False
    show ?thesis
    proof (cases "4 * j \<le> GPS_MAX_SVS")
      case True
      let ?r = "r\<lparr>sv_list := blit (sv_list r) 0 (map (sat_info fp) (take (4 * j) sats)), num_svs := int (4 * j), sv_status_changed := False\<rparr>"
      have "length (sv_list ?r) = GPS_MAX_SVS" using True l less by simp
      moreover have "\<not> 4 * j + length (gsv_group sats (Suc j)) \<le> GPS_MAX_SVS"
        using gsv_group_length [of "Suc j" sats] step.prems \<open>\<not> 4 * j < GPS_MAX_SVS\<close> by auto
      ultimately have "parse_line fp (gsv_sentence h1 h2 sats (Suc j)) ?r = None"
        using parse_gsv_sentence [of "Suc j" sats ?r fp h1 h2] sats step.prems False by simp
      then show ?thesis unfolding snoc map_append list.map app pre using True False less by (simp add: GPS_MAX_SVS_def)
    next
      case False
      with less show ?thesis unfolding snoc map_append list.map app pre by simp
    qed
  next
    case True
    let ?b = "blit (sv_list r) 0 (map (sat_info fp) (take (4 * j) sats))"
    let ?r = "r\<lparr>sv_list := ?b, num_svs := int (4 * j), sv_status_changed := False\<rparr>"
    let ?g = "gsv_group sats (Suc j)"
    have lb: "length ?b = GPS_MAX_SVS" using True l less by simp
    have "length ?g \<le> 4" by (simp add: gsv_group_def)
    then have fits: "4 * j + length ?g \<le> GPS_MAX_SVS" using True by (simp add: GPS_MAX_SVS_def)
    have "blit ?b (4 * j) (map (sat_info fp) ?g) = blit (sv_list r) 0 (map (sat_info fp) (take (4 * Suc j) sats))"
      unfolding tk using less fits l by (simp add: blit_def add.commute)
    moreover have "parse_line fp (gsv_sentence h1 h2 sats (Suc j)) ?r =
        Some (?r\<lparr>sv_list := blit ?b (4 * j) (map (sat_info fp) ?g), num_svs := int (4 * j + length ?g),
          sv_status_changed := (Suc j = gsv_total sats)\<rparr>)"
      using parse_gsv_sentence [of "Suc j" sats ?r fp h1 h2] sats step.prems step.hyps True fits lb by simp
    moreover have "length (take (4 * Suc j) sats) = 4 * j + length ?g" unfolding tk using less by simp
    ultimately show ?thesis unfolding snoc map_append list.map app pre using True fits by simp
  qed
qed

text \<open>C29: The first \<open>j\<close> sentences about the satellites in view put the first \<open>4 * j\<close> of them into the list, in order,
  and the change is announced with the last sentence only; the position is not touched.  With more than 32
  satellites the ninth sentence writes outside the list.\<close>

theorem satellites_in_view:
  assumes "sats \<noteq> []" "int (length sats) + 3 \<le> 2147483647" "\<forall>s\<in>set sats. plain_satellite s"
    "length (sv_list r) = GPS_MAX_SVS" "1 \<le> j" "j \<le> gsv_total sats"
  shows "if length (take (4 * j) sats) \<le> GPS_MAX_SVS then
      \<exists>r'. parse_lines fp (map (gsv_sentence h1 h2 sats) [1 ..< Suc j]) r = Some r' \<and>
        num_svs r' = int (length (take (4 * j) sats)) \<and>
        take (length (take (4 * j) sats)) (sv_list r') = map (sat_info fp) (take (4 * j) sats) \<and>
        length (sv_list r') = GPS_MAX_SVS \<and>
        sv_status_changed r' = (j = gsv_total sats) \<and> location r' = location r
    else parse_lines fp (map (gsv_sentence h1 h2 sats) [1 ..< Suc j]) r = None"
  using gsv_prefix [OF assms, of fp h1 h2] assms(4) take_blit0 [of "map (sat_info fp) (take (4 * j) sats)" "sv_list r"]
  by simp

definition exact :: rounding where
  "exact = \<lparr>to_double = Fin, to_float = Fin\<rparr>"

theorem satellites_in_view_witness:
  "\<exists>r'. parse_lines exact (map (gsv_sentence (\<lambda>i. CHR ''7'') (\<lambda>i. CHR ''A'') (replicate 5 (9, ''40'', ''083'', ''46''))) [1, 2]) (parsed nmea_reader_init) =
       Some r' \<and> num_svs r' = 5 \<and> sv_status_changed r'"
proof -
  let ?s = "replicate 5 (9, ''40'', ''083'', ''46'')"
  have "plain_satellite (9, ''40'', ''083'', ''46'')" by (simp add: plain_satellite_def no_comma_dec)
  then have "\<forall>s\<in>set ?s. plain_satellite s" by simp
  moreover have "length (sv_list (parsed nmea_reader_init)) = GPS_MAX_SVS" by (simp add: nmea_reader_init_def)
  moreover have "gsv_total ?s = 2" by (simp add: gsv_total_def)
  moreover have "[1 ..< Suc 2] = [1, 2]" by (simp add: upt_rec)
  ultimately show ?thesis
    using satellites_in_view [of ?s "parsed nmea_reader_init" 2 exact "\<lambda>i. CHR ''7''" "\<lambda>i. CHR ''A''"]
    by (auto simp: GPS_MAX_SVS_def)
qed

theorem lines_parsed_witness:
  "map_option parsed (nmea_feed exact nmea_reader_init (concat (map (\<lambda>l. l @ [CHR 0x0A])
      [replicate 200 (CHR ''x''), ''$GPZDA,1'', replicate 300 (CHR ''y''), ''$GPZDA,2'']))) =
    parse_lines exact [''$GPZDA,2'' @ [CHR 0x0A]] (parsed nmea_reader_init)"
  using lines_parsed [of "[replicate 200 (CHR ''x''), ''$GPZDA,1'', replicate 300 (CHR ''y''), ''$GPZDA,2'']" exact]
  by (simp add: NMEA_MAX_SIZE_def)

end
