(* ===== verification/Gps_Position.thy ===== *)
theory Gps_Position
  imports Gps_Nmea
begin

text \<open>
  How exact the coordinates are that \<open>convert_from_hhmm\<close> of \<open>src/libgps/gps_huawei.c\<close> computes from the texts of
  a sentence, for every rounding that IEEE 754 allows.
\<close>

section \<open>Coordinates\<close>

text \<open>What IEEE 754 says of rounding to the nearest \<open>double\<close>, its default: below \<open>2 ^ 15\<close> a result is off by at most half of a unit in the
  last of 53 digits, integers are exact, and rounding is monotone.\<close>

definition ieee_double :: "(rat \<Rightarrow> double) \<Rightarrow> bool" where
  "ieee_double R \<longleftrightarrow> (\<forall>x. \<bar>x\<bar> \<le> 2 ^ 15 \<longrightarrow> (\<exists>y. R x = Fin y \<and> \<bar>y - x\<bar> \<le> 1 / 2 ^ 39)) \<and>
     (\<forall>n. \<bar>n\<bar> \<le> 2 ^ 53 \<longrightarrow> R (of_int n) = Fin (of_int n)) \<and>
     (\<forall>x y a b. x \<le> y \<longrightarrow> R x = Fin a \<longrightarrow> R y = Fin b \<longrightarrow> a \<le> b)"

lemma ieee_error: "ieee_double R \<Longrightarrow> \<bar>x\<bar> \<le> 2 ^ 15 \<Longrightarrow> \<exists>y. R x = Fin y \<and> \<bar>y - x\<bar> \<le> 1 / 2 ^ 39"
  unfolding ieee_double_def by blast

lemma ieee_int: "ieee_double R \<Longrightarrow> \<bar>n\<bar> \<le> 2 ^ 53 \<Longrightarrow> R (of_int n) = Fin (of_int n)"
  unfolding ieee_double_def by blast

lemma ieee_mono: "ieee_double R \<Longrightarrow> x \<le> y \<Longrightarrow> R x = Fin a \<Longrightarrow> R y = Fin b \<Longrightarrow> a \<le> b"
  unfolding ieee_double_def by blast

lemma hhmm_degrees:
  assumes R: "ieee_double R" and v: "of_int (100 * d + m) \<le> v" "v < of_int (100 * d + m + 1)"
    and dm: "0 \<le> d" "d \<le> 180" "0 \<le> m" "m < 60" and v': "R v = Fin v'"
  shows "of_int (100 * d + m) \<le> v' \<and> v' \<le> of_int (100 * d + m + 1) \<and>
    int_of_double (R (of_int (floor v') / 100)) = Some d"
proof -
  have n: "R (of_int (100 * d + m)) = Fin (of_int (100 * d + m))" "R (of_int (100 * d + m + 1)) = Fin (of_int (100 * d + m + 1))"
    using dm by (intro ieee_int [OF R]; simp)+
  have lo: "of_int (100 * d + m) \<le> v'" by (rule ieee_mono [OF R v(1) n(1) v'])
  have hi: "v' \<le> of_int (100 * d + m + 1)" using ieee_mono [OF R _ v' n(2)] v(2) by simp
  define k where "k = floor v'"
  have k: "100 * d + m \<le> k" "k \<le> 100 * d + m + 1" using lo hi by (simp_all add: k_def le_floor_iff floor_le_iff)
  have "\<bar>of_int k / 100 :: rat\<bar> \<le> 2 ^ 15" using k dm by (simp add: abs_le_iff divide_le_eq)
  then obtain q where q: "R (of_int k / 100) = Fin q" "\<bar>q - of_int k / 100\<bar> \<le> 1 / 2 ^ 39" using ieee_error [OF R] by blast
  have dk: "of_int d \<le> (of_int k / 100 :: rat)"
  proof -
    have "of_int (d * 100) \<le> (of_int k :: rat)" using k dm by (simp only: of_int_le_iff)
    then show ?thesis by simp
  qed
  have d: "R (of_int d) = Fin (of_int d)" using dm by (intro ieee_int [OF R]) auto
  have "of_int d \<le> q" by (rule ieee_mono [OF R dk d q(1)])
  moreover have "(of_int k :: rat) \<le> of_int (d * 100 + 60)" using k dm by (simp only: of_int_le_iff)
  then have "of_int k / 100 \<le> (of_int d + 3 / 5 :: rat)" by simp
  then have "q < of_int d + 1" using abs_le_D1 [OF q(2)] by (simp add: power_numeral_reduce)
  ultimately have "floor q = d" "\<not> q < 0" using dm by (auto simp: floor_eq_iff) 
  then have "int_of_double (Fin q) = Some d" using dm by (simp add: int_of_double_def checked_def in_int32_def)
  with lo hi q(1) show ?thesis by (simp add: k_def)
qed

lemma hhmm_accurate:
  assumes R: "ieee_double (to_double fp)" and v: "of_int (100 * d + m) \<le> v" "v < of_int (100 * d + m + 1)"
    and dm: "0 \<le> d" "d \<le> 180" "0 \<le> m" "m < 60" and f: "str2float fp (tok_text tok) = to_double fp v"
  shows "\<exists>x. convert_from_hhmm fp tok = Some (Fin x) \<and> \<bar>x - (of_int d + (v - of_int (100 * d)) / 60)\<bar> \<le> 1 / 2 ^ 37"
proof -
  let ?R = "to_double fp"
  have up: "of_int (100 * d + m + 1) \<le> (of_int 18060 :: rat)" using dm by (simp only: of_int_le_iff)
  have lo: "(0 :: rat) \<le> of_int (100 * d + m)" using dm by (simp only: of_int_0_le_iff)
  have "0 \<le> v" by (rule order_trans [OF lo v(1)])
  moreover have "v \<le> 18060" using less_le_trans [OF v(2) up] by simp
  ultimately have "\<bar>v\<bar> \<le> 2 ^ 15" by simp
  then obtain v' where v': "?R v = Fin v'" "\<bar>v' - v\<bar> \<le> 1 / 2 ^ 39" using ieee_error [OF R] by blast
  from hhmm_degrees [OF R v dm v'(1)] have b: "of_int (100 * d + m) \<le> v'" "v' \<le> of_int (100 * d + m + 1)"
    and deg: "int_of_double (?R (of_int (floor v') / 100)) = Some d" by auto
  have "of_int (m + 1) \<le> (of_int 60 :: rat)" using dm by (simp only: of_int_le_iff)
  then have dr: "(0 :: rat) \<le> of_int d" "of_int d \<le> (180 :: rat)" "(0 :: rat) \<le> of_int m" "of_int m + 1 \<le> (60 :: rat)"
    using dm by simp_all
  have bm: "0 \<le> v' - of_int d * 100" "v' - of_int d * 100 \<le> 60" using b dr by simp_all
  have hundred: "?R (of_int d * 100) = Fin (of_int d * 100)" using ieee_int [OF R, of "d * 100"] dm by simp
  obtain q where q: "?R (v' - of_int d * 100) = Fin q" "\<bar>q - (v' - of_int d * 100)\<bar> \<le> 1 / 2 ^ 39"
    using ieee_error [OF R, of "v' - of_int d * 100"] bm by auto
  have tiny: "(1 / 2 ^ 39 :: rat) \<le> 1" by simp
  have qb: "- 1 \<le> q" "q \<le> 61" using abs_le_D1 [OF q(2)] abs_le_D2 [OF q(2)] bm tiny by linarith+
  then have "\<bar>q / 60\<bar> \<le> 2 ^ 15" by (simp add: abs_le_iff)
  then obtain p where p: "?R (q / 60) = Fin p" "\<bar>p - q / 60\<bar> \<le> 1 / 2 ^ 39" using ieee_error [OF R] by blast
  have "- 2 \<le> p" "p \<le> 3" using abs_le_D1 [OF p(2)] abs_le_D2 [OF p(2)] qb tiny by linarith+
  then have "\<bar>of_int d + p\<bar> \<le> 2 ^ 15" using dr by (simp add: abs_le_iff)
  then obtain x where x: "?R (of_int d + p) = Fin x" "\<bar>x - (of_int d + p)\<bar> \<le> 1 / 2 ^ 39" using ieee_error [OF R] by blast
  have "convert_from_hhmm fp tok = Some (Fin x)"
    using f v'(1) deg hundred q(1) p(1) x(1) by (simp add: convert_from_hhmm_def dop_def)
  moreover have "\<bar>x - (of_int d + (v - of_int (100 * d)) / 60)\<bar> \<le> 1 / 2 ^ 37"
    using abs_le_D1 [OF v'(2)] abs_le_D2 [OF v'(2)] abs_le_D1 [OF q(2)] abs_le_D2 [OF q(2)]
      abs_le_D1 [OF p(2)] abs_le_D2 [OF p(2)] abs_le_D1 [OF x(2)] abs_le_D2 [OF x(2)]
    by (intro abs_leI) (simp_all add: field_simps)
  ultimately show ?thesis by blast
qed

section \<open>The text of a coordinate\<close>

lemma strtod_value_decimal:
  assumes ip: "\<forall>c\<in>set ip. isdigit c" "ip \<noteq> []" and fr: "\<forall>c\<in>set fr. isdigit c"
  shows "strtod_value (ip @ CHR ''.'' # fr) = of_nat (digits_value 10 ip) + of_nat (digits_value 10 fr) / 10 ^ length fr"
proof -
  obtain c cs where c: "ip = c # cs" using ip(2) by (cases ip) auto
  have "isdigit c" using ip(1) c by simp
  then have c': "\<not> isspace c" "c \<noteq> CHR ''-''" "c \<noteq> CHR ''+''"
    using isdigit_not_isspace isdigit_not_sign by auto
  have n: "\<not> isdigit (CHR ''.'')" by (simp add: isdigit_def)
  have d: "digits_of 10 (ip @ CHR ''.'' # fr) = ip" "digits_of 10 fr = fr"
    using ip(1) fr n by (simp_all add: digits_of_append digits_of_all digit_val_lt_10)
  have v: "digits_value 10 (ip @ fr) = digits_value 10 ip * 10 ^ length fr + digits_value 10 fr"
  proof (induction fr rule: rev_induct)
    case (snoc x xs)
    then show ?case by (simp add: digits_value_snoc algebra_simps flip: append_assoc)
  qed (simp add: digits_value_def)
  have "strtod_value (ip @ CHR ''.'' # fr) = of_nat (digits_value 10 (ip @ fr)) * 10 powi (- int (length fr))"
    using c c' d by (simp add: strtod_value_def strtod_exponent_def Let_def)
  also have "\<dots> = of_nat (digits_value 10 ip) + of_nat (digits_value 10 fr) / 10 ^ length fr"
    by (simp add: v power_int_minus field_simps)
  finally show ?thesis .
qed

lemma digits_value_bound: "\<forall>c\<in>set ds. isdigit c \<Longrightarrow> digits_value 10 ds < 10 ^ length ds"
proof (induction ds rule: rev_induct)
  case Nil
  show ?case by (simp add: digits_value_def)
next
  case (snoc c ds)
  then have "digit_val c < 10" by (simp add: digit_val_lt_10)
  with snoc show ?case by (simp add: digits_value_snoc)
qed

text \<open>C30: From a coordinate of up to 15 characters (of a longer one the library makes 0), written as degrees, two digits
  of minutes and decimals, the library computes the degrees with an error of at most \<open>2 ^ (- 37)\<close>, in
  every arithmetic that rounds to nearest, as IEEE 754 does by default.\<close>

theorem coordinate_accurate:
  assumes "ieee_double (to_double fp)" "\<forall>c\<in>set ip. isdigit c" "ip \<noteq> []" "\<forall>c\<in>set fr. isdigit c"
    "length ip + 1 + length fr \<le> 15" "digits_value 10 ip = 100 * d + m" "d \<le> 180" "m < 60"
  shows "\<exists>x. convert_from_hhmm fp (ip @ CHR ''.'' # fr @ rest, length ip + 1 + length fr) = Some (Fin x) \<and>
    \<bar>x - (of_nat d + (of_nat m + of_nat (digits_value 10 fr) / 10 ^ length fr) / 60)\<bar> \<le> 1 / 2 ^ 37"
proof -
  let ?t = "(ip @ CHR ''.'' # fr @ rest, length ip + 1 + length fr)" and ?f = "of_nat (digits_value 10 fr) / 10 ^ length fr :: rat"
  let ?v = "of_nat (100 * d + m) + ?f"
  have cut: "tok_text ?t = ip @ CHR ''.'' # fr" by simp
  have "\<forall>c\<in>set ip. c \<noteq> CHR 0x00" "\<forall>c\<in>set fr. c \<noteq> CHR 0x00" using assms(2,4) by (auto simp: isdigit_def)
  then have "takeWhile (\<lambda>c. c \<noteq> CHR 0x00) (ip @ CHR ''.'' # fr) = ip @ CHR ''.'' # fr"
    by (intro takeWhile_eq_all_conv [THEN iffD2]) auto
  moreover have "ip @ CHR ''.'' # fr \<noteq> []" "\<not> 16 \<le> length (ip @ CHR ''.'' # fr)" using assms(5) by simp_all
  moreover have "strtod_value (ip @ CHR ''.'' # fr) = ?v" unfolding strtod_value_decimal [OF assms(2-4)] assms(6) by (rule refl)
  ultimately have f: "str2float fp (tok_text ?t) = to_double fp ?v"
    unfolding cut str2float_def strtod_def by (simp only: if_False)
  have "of_nat (digits_value 10 fr) < (of_nat (10 ^ length fr) :: rat)"
    using digits_value_bound [OF assms(4)] by (simp only: of_nat_less_iff)
  then have "?f < 1" by (simp add: divide_less_eq)
  then have "of_int (100 * int d + int m) \<le> ?v" "?v < of_int (100 * int d + int m + 1)" by simp_all
  from hhmm_accurate [OF assms(1) this _ _ _ _ f] assms(7,8) show ?thesis by simp
qed

lemma exact_ieee: "ieee_double (to_double exact)"
  by (auto simp: ieee_double_def exact_def)

theorem coordinate_accurate_witness:
  "\<exists>x. convert_from_hhmm exact (''04807.038,E'', 9) = Some (Fin x) \<and> \<bar>x - (48 + (7 + 38 / 1000) / 60)\<bar> \<le> 1 / 2 ^ 37"
proof -
  have l: "length ''04807'' + 1 + length ''038'' = 9" by simp
  show ?thesis
    using coordinate_accurate [OF exact_ieee, of "''04807''" "''038''" 48 7 "'',E''"] unfolding l
    by (simp add: isdigit_def digits_value_def digit_val_def)
qed

end
