(* ===== verification/Gps_Engine.thy ===== *)
theory Gps_Engine
  imports Gps_Nmea
begin

text \<open>
  The threads of \<open>src/libgps/gps_huawei.c\<close>: the main thread \<open>gps_state_thread\<close>, which takes commands and reads the
  receiver, the timer thread, which reports positions and satellites, and the threads that the
  framework makes for each callback.  They share the reader and one semaphore, \<open>fix_sem\<close>, which is
  taken before a callback is prepared and given back by the thread that has called it.
\<close>

section \<open>The device\<close>

text \<open>What the environment grants when the receiver is opened.\<close>

record port_env =
  power_if :: bool
  data_name :: bool
  data_opens :: bool
  ctl_name :: bool
  ctl_opens :: bool
  supl :: "string option"

abbreviation crlf :: string where "crlf \<equiv> [CHR 0x0D, CHR 0x0A]"

text \<open>The new state of the power supply.\<close>

definition dev_power :: "port_env \<Rightarrow> bool \<Rightarrow> bool \<Rightarrow> bool" where
  "dev_power e on powered = (if power_if e then on else powered)"

definition open_gps_ctl :: "port_env \<Rightarrow> bool" where
  "open_gps_ctl e = (ctl_name e \<and> ctl_opens e)"

text \<open>Whether the receiver is open, its power supply, and the commands written.\<close>

definition open_gps :: "port_env \<Rightarrow> bool \<Rightarrow> bool \<times> bool \<times> string list" where
  "open_gps e power0 =
    (let powered = dev_power e True power0 in
     if \<not> data_name e then (False, dev_power e False powered, [])
     else if \<not> data_opens e then (False, dev_power e False powered, [])
     else if \<not> open_gps_ctl e then (False, dev_power e False powered, [])
     else let c = [''AT^WPEND'' @ crlf] in
       case supl e of
         None \<Rightarrow> (False, dev_power e False powered, c)
       | Some url \<Rightarrow> (True, powered, c @ [''AT^WPURL='' @ url @ crlf, ''AT^WPDOM=2'' @ crlf, ''AT^WPDGP'' @ crlf]))"

definition close_gps :: "port_env \<Rightarrow> bool \<Rightarrow> bool \<times> string list" where
  "close_gps e powered = (dev_power e False powered, if open_gps_ctl e then [''AT^WPEND'' @ crlf] else [])"

text \<open>An answer of the control port, from the bytes that come: at most 64 bytes of a line, without blanks
  around it; lines that are empty without the blanks behind them are skipped.  \<open>None\<close>: it waits for more bytes.\<close>

definition blank :: "char \<Rightarrow> bool" where
  "blank c \<longleftrightarrow> (of_char c :: nat) \<le> 32 \<and> c \<noteq> CHR 0x00"

fun read_answer :: "nat \<Rightarrow> string \<Rightarrow> (string \<times> string) option" where
  "read_answer n [] = None"
| "read_answer n (c # cs) =
    (if n + 1 < 64 \<and> c \<noteq> CHR 0x0A then map_option (\<lambda>(l, r). (c # l, r)) (read_answer (n + 1) cs) else Some ([c], cs))"

definition strip_right :: "string \<Rightarrow> string" where
  "strip_right s = rev (dropWhile blank (rev s))"

lemma read_answer_rest: "read_answer n s = Some (l, r) \<Longrightarrow> length r < length s"
  by (induction n s arbitrary: l rule: read_answer.induct) (auto split: if_splits)

function serial_get_ok :: "string \<Rightarrow> (bool \<times> string) option" where
  "serial_get_ok s = (case read_answer 0 s of None \<Rightarrow> None
    | Some (l, r) \<Rightarrow>
       let t = takeWhile (\<lambda>c. c \<noteq> CHR 0x00) (strip_right l) in
       if t = [] then serial_get_ok r else Some (dropWhile blank t = ''OK'', r))"
  by pat_completeness auto
termination by (relation "measure length") (auto dest: read_answer_rest)

section \<open>The state of the library\<close>

datatype gps_status_value = GPS_STATUS_ENGINE_ON | GPS_STATUS_ENGINE_OFF | GPS_STATUS_SESSION_BEGIN | GPS_STATUS_SESSION_END

datatype init_state = STATE_QUIT | STATE_INIT | STATE_START

datatype gps_command = CMD_QUIT | CMD_START | CMD_STOP

text \<open>The threads that \<open>create_thread_cb\<close> has made and that have not yet called back.\<close>

datatype callback_thread = Gps_nmea_thread | Gps_status_thread | Gps_location_thread | Gps_sv_status_thread

text \<open>Where the main thread goes on after a status callback.\<close>

datatype after_status = After_on | After_begin | After_end | After_off

datatype main_pc = Main_begin | Main_wait | Lock_status gps_status_value after_status | Fill_status gps_status_value after_status
  | Create_timer | Join_timer | Close_receiver | Lock_nmea string | Fill_nmea string | Lock_parse string | Parse string | Main_done

datatype timer_pc = Timer_fix | Timer_lock_fix | Timer_send_fix | Timer_sv | Timer_lock_sv | Timer_send_sv | Timer_sleep

text \<open>What the framework is told.\<close>

datatype gps_report = Status gps_status_value | Nmea int string | Location gps_location | Satellites int "sv_info list"

text \<open>\<open>GpsState\<close> with its threads.  The last four members are histories: the statuses that the main thread
  reports, those of them and the texts that are handed to a callback thread, and the callbacks made.\<close>

record GpsState =
  init :: init_state
  registered :: bool
  gps_status :: gps_status_value
  nmea_buf :: string
  fix_sem :: nat
  control :: "gps_command list"
  min_interval :: nat
  reader :: NmeaReader
  gps_fd :: bool
  powered :: bool
  main_thread :: main_pc
  timer_thread :: "timer_pc option"
  callbacks :: "callback_thread list"
  reported :: "gps_status_value list"
  issued :: "gps_status_value list"
  handed :: "string list"
  told :: "gps_report list"

text \<open>\<open>gps_state_init\<close>: the thread runs before \<open>gps_init\<close> stores the callbacks.\<close>

definition gps_state_init :: GpsState where
  "gps_state_init = \<lparr>init = STATE_INIT, registered = False, gps_status = GPS_STATUS_ENGINE_OFF, nmea_buf = [], fix_sem = 1, control = [],
     min_interval = 1000, reader = nmea_reader_init, gps_fd = False, powered = False, main_thread = Main_begin,
     timer_thread = None, callbacks = [], reported = [], issued = [], handed = [], told = []\<rparr>"

section \<open>The callbacks\<close>

text \<open>The main thread after a status callback; \<open>gps_status_cb\<close> up to the semaphore.\<close>

fun go_on :: "after_status \<Rightarrow> GpsState \<Rightarrow> GpsState" where
  "go_on After_on s = s\<lparr>main_thread := Main_wait\<rparr>"
| "go_on After_begin s = s\<lparr>init := STATE_START, main_thread := Create_timer\<rparr>"
| "go_on After_end s = s\<lparr>main_thread := Close_receiver\<rparr>"
| "go_on After_off s = s\<lparr>main_thread := Main_done\<rparr>"

definition gps_status_cb :: "gps_status_value \<Rightarrow> after_status \<Rightarrow> GpsState \<Rightarrow> GpsState" where
  "gps_status_cb v k s = (let s = s\<lparr>reported := reported s @ [v]\<rparr> in
     if registered s then s\<lparr>main_thread := Lock_status v k\<rparr> else go_on k s)"

definition gps_nmea_cb :: "string \<Rightarrow> GpsState \<Rightarrow> GpsState" where
  "gps_nmea_cb buf s = s\<lparr>main_thread := (if registered s then Lock_nmea buf else Lock_parse buf)\<rparr>"

text \<open>\<open>GPS_STATE_LOCK_FIX\<close> and \<open>GPS_STATE_UNLOCK_FIX\<close>\<close>

definition lock_fix :: "GpsState \<Rightarrow> GpsState option" where
  "lock_fix s = (if fix_sem s = 0 then None else Some (s\<lparr>fix_sem := fix_sem s - 1\<rparr>))"

definition unlock_fix :: "GpsState \<Rightarrow> GpsState" where
  "unlock_fix s = s\<lparr>fix_sem := fix_sem s + 1\<rparr>"

text \<open>A callback thread: it calls the framework, marks what it has reported as old, and gives the semaphore back.\<close>

fun run_callback :: "callback_thread \<Rightarrow> GpsState \<Rightarrow> GpsState" where
  "run_callback Gps_nmea_thread s =
    unlock_fix (s\<lparr>told := told s @ [Nmea (timestamp (location (parsed (reader s)))) (nmea_buf s)]\<rparr>)"
| "run_callback Gps_status_thread s = unlock_fix (s\<lparr>told := told s @ [Status (gps_status s)]\<rparr>)"
| "run_callback Gps_location_thread s =
    (let d = parsed (reader s) in unlock_fix (s\<lparr>told := told s @ [Location (location d)],
       reader := (reader s)\<lparr>parsed := d\<lparr>location := (location d)\<lparr>flags := 0\<rparr>\<rparr>\<rparr>\<rparr>))"
| "run_callback Gps_sv_status_thread s =
    (let d = parsed (reader s) in unlock_fix (s\<lparr>told := told s @ [Satellites (num_svs d) (sv_list d)],
       reader := (reader s)\<lparr>parsed := d\<lparr>sv_status_changed := False\<rparr>\<rparr>\<rparr>))"

section \<open>Steps\<close>

definition exit_main :: "GpsState \<Rightarrow> GpsState" where
  "exit_main s = gps_status_cb GPS_STATUS_ENGINE_OFF After_off s"

text \<open>A command of the control socket.\<close>

definition take_command :: "port_env \<Rightarrow> gps_command \<Rightarrow> GpsState \<Rightarrow> GpsState" where
  "take_command e c s = (case c of
     CMD_QUIT \<Rightarrow> exit_main s
   | CMD_START \<Rightarrow> if gps_fd s then s
       else (case open_gps e (powered s) of (ok, p, _) \<Rightarrow>
         if ok then gps_status_cb GPS_STATUS_SESSION_BEGIN After_begin (s\<lparr>gps_fd := True, powered := p\<rparr>)
         else exit_main (s\<lparr>init := STATE_INIT, powered := p\<rparr>))
   | CMD_STOP \<Rightarrow> if gps_fd s then s\<lparr>init := STATE_INIT, main_thread := Join_timer\<rparr> else s)"

definition create_timer :: "port_env \<Rightarrow> bool \<Rightarrow> GpsState \<Rightarrow> GpsState" where
  "create_timer e ok s =
    (if ok then s\<lparr>timer_thread := Some Timer_fix, main_thread := Main_wait\<rparr>
     else exit_main (s\<lparr>gps_fd := False, powered := fst (close_gps e (powered s)), init := STATE_INIT\<rparr>))"

definition timer_step :: "timer_pc \<Rightarrow> GpsState \<Rightarrow> GpsState option" where
  "timer_step pc s = (case pc of
     Timer_fix \<Rightarrow> Some (s\<lparr>timer_thread := Some (if flags (location (parsed (reader s))) \<noteq> 0 \<and> registered s then Timer_lock_fix else Timer_sv)\<rparr>)
   | Timer_lock_fix \<Rightarrow> map_option (\<lambda>s. s\<lparr>timer_thread := Some Timer_send_fix\<rparr>) (lock_fix s)
   | Timer_send_fix \<Rightarrow> Some (s\<lparr>callbacks := callbacks s @ [Gps_location_thread], timer_thread := Some Timer_sv\<rparr>)
   | Timer_sv \<Rightarrow> Some (s\<lparr>timer_thread := Some (if sv_status_changed (parsed (reader s)) \<and> registered s then Timer_lock_sv else Timer_sleep)\<rparr>)
   | Timer_lock_sv \<Rightarrow> map_option (\<lambda>s. s\<lparr>timer_thread := Some Timer_send_sv\<rparr>) (lock_fix s)
   | Timer_send_sv \<Rightarrow> Some (s\<lparr>callbacks := callbacks s @ [Gps_sv_status_thread], timer_thread := Some Timer_sleep\<rparr>)
   | Timer_sleep \<Rightarrow> Some (s\<lparr>timer_thread := (if init s = STATE_START then Some Timer_fix else None)\<rparr>))"

text \<open>The steps of the main thread, of the timer thread, of the callback threads and of the framework.\<close>

inductive gps_step :: "rounding \<Rightarrow> GpsState \<Rightarrow> GpsState \<Rightarrow> bool" for fp :: rounding where
  start: "main_thread s = Main_begin \<Longrightarrow> gps_step fp s (gps_status_cb GPS_STATUS_ENGINE_ON After_on s)"
| lock_status: "main_thread s = Lock_status v k \<Longrightarrow> lock_fix s = Some s' \<Longrightarrow> gps_step fp s (s'\<lparr>main_thread := Fill_status v k\<rparr>)"
| fill_status: "main_thread s = Fill_status v k \<Longrightarrow> gps_step fp s
    (go_on k (s\<lparr>gps_status := v, callbacks := callbacks s @ [Gps_status_thread], issued := issued s @ [v]\<rparr>))"
| command: "main_thread s = Main_wait \<Longrightarrow> control s = c # cs \<Longrightarrow> gps_step fp s (take_command e c (s\<lparr>control := cs\<rparr>))"
| hang_up: "main_thread s = Main_wait \<Longrightarrow> gps_step fp s (exit_main s)"
| timer_created: "main_thread s = Create_timer \<Longrightarrow> gps_step fp s (create_timer e ok s)"
| suspended: "main_thread s = Main_wait \<Longrightarrow> gps_fd s \<Longrightarrow> gps_step fp s (s\<lparr>init := STATE_INIT, main_thread := Join_timer\<rparr>)"
| joined: "main_thread s = Join_timer \<Longrightarrow> timer_thread s = None \<Longrightarrow> gps_step fp s (gps_status_cb GPS_STATUS_SESSION_END After_end s)"
| close: "main_thread s = Close_receiver \<Longrightarrow> gps_step fp s (s\<lparr>gps_fd := False, powered := fst (close_gps e (powered s)), main_thread := Main_wait\<rparr>)"
| data: "main_thread s = Main_wait \<Longrightarrow> gps_fd s \<Longrightarrow> buf \<noteq> [] \<Longrightarrow> length buf \<le> 512 \<Longrightarrow> gps_step fp s (gps_nmea_cb buf s)"
| lock_nmea: "main_thread s = Lock_nmea buf \<Longrightarrow> lock_fix s = Some s' \<Longrightarrow> gps_step fp s (s'\<lparr>main_thread := Fill_nmea buf\<rparr>)"
| fill_nmea: "main_thread s = Fill_nmea buf \<Longrightarrow> gps_step fp s
    (s\<lparr>nmea_buf := buf, callbacks := callbacks s @ [Gps_nmea_thread], handed := handed s @ [buf], main_thread := Lock_parse buf\<rparr>)"
| lock_parse: "main_thread s = Lock_parse buf \<Longrightarrow> lock_fix s = Some s' \<Longrightarrow> gps_step fp s (s'\<lparr>main_thread := Parse buf\<rparr>)"
| parse: "main_thread s = Parse buf \<Longrightarrow> nmea_feed fp (reader s) buf = Some r \<Longrightarrow>
    gps_step fp s (unlock_fix (s\<lparr>reader := r, main_thread := Main_wait\<rparr>))"
| timer: "timer_thread s = Some pc \<Longrightarrow> timer_step pc s = Some s' \<Longrightarrow> gps_step fp s s'"
| callback: "callbacks s = as @ f # bs \<Longrightarrow> gps_step fp s (run_callback f (s\<lparr>callbacks := as @ bs\<rparr>))"
| register: "gps_step fp s (s\<lparr>registered := True\<rparr>)"
| gps_start: "gps_step fp s (s\<lparr>control := control s @ [CMD_START]\<rparr>)"
| gps_stop: "gps_step fp s (s\<lparr>control := control s @ [CMD_STOP]\<rparr>)"
| gps_cleanup: "gps_step fp s (s\<lparr>control := control s @ [CMD_QUIT]\<rparr>)"
| gps_set_position_mode: "gps_step fp s (s\<lparr>min_interval := (if ms = 0 then 1000 else ms)\<rparr>)"

inductive gps_reach :: "rounding \<Rightarrow> GpsState \<Rightarrow> bool" for fp :: rounding where
  gps_initial: "gps_reach fp gps_state_init"
| gps_more: "gps_reach fp s \<Longrightarrow> gps_step fp s s' \<Longrightarrow> gps_reach fp s'"

section \<open>Sessions\<close>

text \<open>Where the statuses reported so far have left the framework: the engine is off, on, in a session, or off for good.\<close>

datatype engine_state = Not_on | On | In_session | Off

fun next_phase :: "engine_state option \<Rightarrow> gps_status_value \<Rightarrow> engine_state option" where
  "next_phase (Some Not_on) GPS_STATUS_ENGINE_ON = Some On"
| "next_phase (Some On) GPS_STATUS_SESSION_BEGIN = Some In_session"
| "next_phase (Some In_session) GPS_STATUS_SESSION_END = Some On"
| "next_phase (Some On) GPS_STATUS_ENGINE_OFF = Some Off"
| "next_phase (Some In_session) GPS_STATUS_ENGINE_OFF = Some Off"
| "next_phase _ _ = None"

definition engine_phase :: "gps_status_value list \<Rightarrow> engine_state option" where
  "engine_phase vs = foldl next_phase (Some Not_on) vs"

lemma engine_phase_snoc [simp]: "engine_phase (vs @ [v]) = next_phase (engine_phase vs) v"
  by (simp add: engine_phase_def)

text \<open>What holds while the main thread is at a place.\<close>

definition at_state :: "GpsState \<Rightarrow> engine_state \<Rightarrow> bool \<Rightarrow> init_state \<Rightarrow> bool" where
  "at_state s p fd i \<longleftrightarrow> engine_phase (reported s) = Some p \<and> gps_fd s = fd \<and> init s = i"

fun after_inv :: "after_status \<Rightarrow> GpsState \<Rightarrow> bool" where
  "after_inv After_on s \<longleftrightarrow> at_state s On False STATE_INIT \<and> timer_thread s = None"
| "after_inv After_begin s \<longleftrightarrow> at_state s In_session True STATE_INIT \<and> timer_thread s = None"
| "after_inv After_end s \<longleftrightarrow> at_state s On True STATE_INIT \<and> timer_thread s = None"
| "after_inv After_off s \<longleftrightarrow> engine_phase (reported s) = Some Off \<and> (timer_thread s \<noteq> None \<longrightarrow> gps_fd s)"

fun main_inv :: "main_pc \<Rightarrow> GpsState \<Rightarrow> bool" where
  "main_inv Main_begin s \<longleftrightarrow> at_state s Not_on False STATE_INIT \<and> timer_thread s = None"
| "main_inv Main_wait s \<longleftrightarrow> at_state s In_session True STATE_START \<or> at_state s On False STATE_INIT \<and> timer_thread s = None"
| "main_inv (Lock_status v k) s \<longleftrightarrow> after_inv k s"
| "main_inv (Fill_status v k) s \<longleftrightarrow> after_inv k s"
| "main_inv Create_timer s \<longleftrightarrow> at_state s In_session True STATE_START \<and> timer_thread s = None"
| "main_inv Join_timer s \<longleftrightarrow> at_state s In_session True STATE_INIT"
| "main_inv Close_receiver s \<longleftrightarrow> after_inv After_end s"
| "main_inv Main_done s \<longleftrightarrow> after_inv After_off s"
| "main_inv _ s \<longleftrightarrow> at_state s In_session True STATE_START"

definition session_inv :: "GpsState \<Rightarrow> bool" where
  "session_inv s \<longleftrightarrow> main_inv (main_thread s) s"

lemma after_inv_cong:
  "reported s' = reported s \<Longrightarrow> gps_fd s' = gps_fd s \<Longrightarrow> init s' = init s \<Longrightarrow> timer_thread s' = timer_thread s \<Longrightarrow>
   after_inv k s' = after_inv k s"
  by (cases k) (simp_all add: at_state_def)

lemma main_inv_cong:
  "reported s' = reported s \<Longrightarrow> gps_fd s' = gps_fd s \<Longrightarrow> init s' = init s \<Longrightarrow> timer_thread s' = timer_thread s \<Longrightarrow>
   main_inv pc s' = main_inv pc s"
  by (cases pc) (simp_all add: at_state_def after_inv_cong [of s' s] del: after_inv.simps)

lemma go_on_session: "after_inv k s \<Longrightarrow> session_inv (go_on k s)"
  by (cases k) (auto simp: session_inv_def at_state_def)

lemma status_session:
  "after_inv k (s\<lparr>reported := reported s @ [v]\<rparr>) \<Longrightarrow> session_inv (gps_status_cb v k s)"
  using go_on_session [of k "s\<lparr>reported := reported s @ [v]\<rparr>"]
    after_inv_cong [of "s\<lparr>reported := reported s @ [v], main_thread := Lock_status v k\<rparr>" "s\<lparr>reported := reported s @ [v]\<rparr>" k]
  by (simp add: gps_status_cb_def Let_def session_inv_def)

lemma exit_session:
  "engine_phase (reported s) \<in> {Some On, Some In_session} \<Longrightarrow> (timer_thread s \<noteq> None \<longrightarrow> gps_fd s) \<Longrightarrow> session_inv (exit_main s)"
  unfolding exit_main_def by (rule status_session) auto

lemma command_session:
  assumes "main_thread s = Main_wait" "session_inv s"
  shows "session_inv (take_command e c s)"
proof -
  from assms have w: "at_state s In_session True STATE_START \<or> at_state s On False STATE_INIT \<and> timer_thread s = None"
    by (simp add: session_inv_def)
  show ?thesis
  proof (cases c)
    case CMD_QUIT
    with w show ?thesis by (auto simp: take_command_def at_state_def intro!: exit_session)
  next
    case CMD_START
    show ?thesis
    proof (cases "gps_fd s")
      case True
      with CMD_START assms(2) show ?thesis by (simp add: take_command_def)
    next
      case False
      obtain ok p cmds where o: "open_gps e (powered s) = (ok, p, cmds)" by (cases "open_gps e (powered s)")
      show ?thesis
      proof (cases ok)
        case True
        have "session_inv (gps_status_cb GPS_STATUS_SESSION_BEGIN After_begin (s\<lparr>gps_fd := True, powered := p\<rparr>))"
          using w False by (intro status_session) (auto simp: at_state_def)
        with True False CMD_START o show ?thesis by (simp add: take_command_def)
      next
        case nok: False
        have "session_inv (exit_main (s\<lparr>init := STATE_INIT, powered := p\<rparr>))"
          using w False by (intro exit_session) (auto simp: at_state_def)
        with nok False CMD_START o show ?thesis by (simp add: take_command_def)
      qed
    qed
  next
    case CMD_STOP
    with assms w show ?thesis by (auto simp: take_command_def session_inv_def at_state_def)
  qed
qed

lemma timer_session:
  assumes "timer_thread s = Some pc" "timer_step pc s = Some s'" "session_inv s"
  shows "session_inv s'"
proof -
  have s': "reported s' = reported s" "gps_fd s' = gps_fd s" "init s' = init s" "main_thread s' = main_thread s"
    using assms(2) by (cases pc; auto simp: timer_step_def lock_fix_def split: if_splits)+
  from assms(1,3) show ?thesis
    by (cases "main_thread s"; auto simp: session_inv_def at_state_def s' elim: after_inv.elims(2))
qed

lemma step_session: "gps_step fp s s' \<Longrightarrow> session_inv s \<Longrightarrow> session_inv s'"
proof (induction rule: gps_step.induct)
  case (timer s pc s')
  then show ?case using timer_session by blast
next
  case (command s c cs e)
  then show ?case using main_inv_cong [of "s\<lparr>control := cs\<rparr>" s]
    by (intro command_session) (simp_all add: session_inv_def)
next
  case (callback s as f bs)
  then show ?case using main_inv_cong [of "run_callback f (s\<lparr>callbacks := as @ bs\<rparr>)" s "main_thread s"]
    by (cases f) (simp_all add: session_inv_def unlock_fix_def Let_def)
next
  case (lock_status s v k s')
  then show ?case using after_inv_cong [of "s\<lparr>fix_sem := fix_sem s - 1, main_thread := Fill_status v k\<rparr>" s k]
    by (auto simp: session_inv_def lock_fix_def split: if_splits)
next
  case (fill_status s v k)
  then show ?case
    using after_inv_cong [of "s\<lparr>gps_status := v, callbacks := callbacks s @ [Gps_status_thread], issued := issued s @ [v]\<rparr>" s k]
    by (intro go_on_session) (simp add: session_inv_def)
next
  case (timer_created s e ok)
  then have w: "at_state s In_session True STATE_START" "timer_thread s = None" by (simp_all add: session_inv_def)
  show ?case
  proof (cases ok)
    case True
    with w show ?thesis by (simp add: create_timer_def session_inv_def at_state_def)
  next
    case False
    have "session_inv (exit_main (s\<lparr>gps_fd := False, powered := fst (close_gps e (powered s)), init := STATE_INIT\<rparr>))"
      using w by (intro exit_session) (auto simp: at_state_def)
    with False show ?thesis by (simp add: create_timer_def)
  qed
next
  case (hang_up s)
  then have "at_state s In_session True STATE_START \<or> at_state s On False STATE_INIT \<and> timer_thread s = None"
    by (simp add: session_inv_def)
  then show ?case by (intro exit_session) (auto simp: at_state_def)
next
  case (start s)
  then show ?case by (intro status_session) (simp add: session_inv_def at_state_def)
next
  case (joined s)
  then show ?case by (intro status_session) (simp add: session_inv_def at_state_def)
next
  case (register s)
  then show ?case using main_inv_cong [of "s\<lparr>registered := True\<rparr>" s] by (simp add: session_inv_def)
next
  case (gps_start s)
  then show ?case using main_inv_cong [of "s\<lparr>control := control s @ [CMD_START]\<rparr>" s] by (simp add: session_inv_def)
next
  case (gps_stop s)
  then show ?case using main_inv_cong [of "s\<lparr>control := control s @ [CMD_STOP]\<rparr>" s] by (simp add: session_inv_def)
next
  case (gps_cleanup s)
  then show ?case using main_inv_cong [of "s\<lparr>control := control s @ [CMD_QUIT]\<rparr>" s] by (simp add: session_inv_def)
next
  case (gps_set_position_mode s ms)
  then show ?case using main_inv_cong [of "s\<lparr>min_interval := (if ms = 0 then 1000 else ms)\<rparr>" s] by (simp add: session_inv_def)
qed (auto simp: session_inv_def at_state_def gps_nmea_cb_def unlock_fix_def lock_fix_def split: if_splits)

lemma reach_session: "gps_reach fp s \<Longrightarrow> session_inv s"
  by (induction rule: gps_reach.induct)
    (auto simp: session_inv_def gps_state_init_def at_state_def engine_phase_def dest: step_session [unfolded session_inv_def])

section \<open>The semaphore\<close>

fun main_holds :: "main_pc \<Rightarrow> bool" where
  "main_holds (Fill_status v k) = True"
| "main_holds (Fill_nmea buf) = True"
| "main_holds (Parse buf) = True"
| "main_holds _ = False"

fun timer_holds :: "timer_pc option \<Rightarrow> bool" where
  "timer_holds (Some Timer_send_fix) = True"
| "timer_holds (Some Timer_send_sv) = True"
| "timer_holds _ = False"

lemma timer_holds_if [simp]:
  "\<not> timer_holds (Some (if b then Timer_lock_fix else Timer_sv))"
  "\<not> timer_holds (Some (if b then Timer_lock_sv else Timer_sleep))"
  "\<not> timer_holds (if b then Some Timer_fix else None)"
  by simp_all

text \<open>The threads that have taken the semaphore and not given it back.\<close>

definition holders :: "GpsState \<Rightarrow> nat" where
  "holders s = (if main_holds (main_thread s) then 1 else 0) + (if timer_holds (timer_thread s) then 1 else 0) + length (callbacks s)"

definition exclusive :: "GpsState \<Rightarrow> bool" where
  "exclusive s \<longleftrightarrow> fix_sem s + holders s = 1"

named_theorems gps_defs "the operations of the threads of the GPS library"

lemmas [gps_defs] = gps_status_cb_def gps_nmea_cb_def lock_fix_def unlock_fix_def exit_main_def take_command_def create_timer_def
  timer_step_def Let_def

lemma go_on_same [simp]:
  "fix_sem (go_on k s) = fix_sem s" "callbacks (go_on k s) = callbacks s" "timer_thread (go_on k s) = timer_thread s"
  "told (go_on k s) = told s" "issued (go_on k s) = issued s" "handed (go_on k s) = handed s" "gps_status (go_on k s) = gps_status s"
  "nmea_buf (go_on k s) = nmea_buf s" "reader (go_on k s) = reader s" "\<not> main_holds (main_thread (go_on k s))"
  by (cases k; simp)+

lemma gps_status_cb_same [simp]:
  "fix_sem (gps_status_cb v k s) = fix_sem s" "callbacks (gps_status_cb v k s) = callbacks s"
  "timer_thread (gps_status_cb v k s) = timer_thread s" "told (gps_status_cb v k s) = told s" "issued (gps_status_cb v k s) = issued s"
  "handed (gps_status_cb v k s) = handed s" "gps_status (gps_status_cb v k s) = gps_status s" "nmea_buf (gps_status_cb v k s) = nmea_buf s"
  "reader (gps_status_cb v k s) = reader s" "\<not> main_holds (main_thread (gps_status_cb v k s))"
  by (simp_all add: gps_status_cb_def Let_def)

lemma take_command_same:
  "\<not> main_holds (main_thread s) \<Longrightarrow> fix_sem (take_command e c s) = fix_sem s \<and> callbacks (take_command e c s) = callbacks s \<and>
   timer_thread (take_command e c s) = timer_thread s \<and> told (take_command e c s) = told s \<and> issued (take_command e c s) = issued s \<and>
   handed (take_command e c s) = handed s \<and> gps_status (take_command e c s) = gps_status s \<and> nmea_buf (take_command e c s) = nmea_buf s \<and>
   reader (take_command e c s) = reader s \<and> \<not> main_holds (main_thread (take_command e c s))"
  by (cases c) (auto simp: take_command_def exit_main_def split: prod.split)

lemma run_callback_same [simp]:
  "fix_sem (run_callback f s) = fix_sem s + 1" "callbacks (run_callback f s) = callbacks s" "timer_thread (run_callback f s) = timer_thread s"
  "main_thread (run_callback f s) = main_thread s" "issued (run_callback f s) = issued s" "handed (run_callback f s) = handed s"
  "gps_status (run_callback f s) = gps_status s" "nmea_buf (run_callback f s) = nmea_buf s"
  by (cases f; simp add: unlock_fix_def Let_def)+

lemma lock_fixE: "lock_fix s = Some s' \<Longrightarrow> (0 < fix_sem s \<Longrightarrow> s' = s\<lparr>fix_sem := fix_sem s - 1\<rparr> \<Longrightarrow> P) \<Longrightarrow> P"
  by (auto simp: lock_fix_def split: if_splits)

lemma lock_alone:
  "lock_fix s = Some s' \<Longrightarrow> exclusive s \<Longrightarrow>
   s' = s\<lparr>fix_sem := 0\<rparr> \<and> callbacks s = [] \<and> \<not> main_holds (main_thread s) \<and> \<not> timer_holds (timer_thread s)"
  by (cases "callbacks s") (auto simp: lock_fix_def exclusive_def holders_def split: if_splits)

lemma timer_exclusive:
  assumes t: "timer_thread s = Some pc" "timer_step pc s = Some s'" and e: "exclusive s"
  shows "exclusive s'"
proof (cases "pc = Timer_lock_fix \<or> pc = Timer_lock_sv")
  case True
  then obtain s1 where "lock_fix s = Some s1" "s' = s1\<lparr>timer_thread := timer_thread s'\<rparr>" "timer_holds (timer_thread s')"
    using t(2) by (auto simp: timer_step_def)
  with lock_alone [OF this(1) e] show ?thesis by (cases s') (auto simp: exclusive_def holders_def)
next
  case False
  with t e show ?thesis by (cases pc) (auto simp: timer_step_def exclusive_def holders_def)
qed

lemma step_exclusive: "gps_step fp s s' \<Longrightarrow> session_inv s \<Longrightarrow> exclusive s \<Longrightarrow> exclusive s'"
proof (induction rule: gps_step.induct)
  case (timer s pc s')
  show ?case by (rule timer_exclusive [OF timer.hyps timer.prems(2)])
next
  case (lock_status s v k s')
  from lock_alone [OF lock_status.hyps(2) lock_status.prems(2)] show ?case by (auto simp: exclusive_def holders_def)
next
  case (lock_nmea s buf s')
  from lock_alone [OF lock_nmea.hyps(2) lock_nmea.prems(2)] show ?case by (auto simp: exclusive_def holders_def)
next
  case (lock_parse s buf s')
  from lock_alone [OF lock_parse.hyps(2) lock_parse.prems(2)] show ?case by (auto simp: exclusive_def holders_def)
next
  case (command s c cs e)
  then show ?case using take_command_same [of "s\<lparr>control := cs\<rparr>" e c] by (simp add: exclusive_def holders_def)
next
  case (timer_created s e ok)
  then show ?case by (auto simp: exclusive_def holders_def exit_main_def create_timer_def session_inv_def)
qed (auto simp: exclusive_def holders_def exit_main_def gps_nmea_cb_def unlock_fix_def)

lemma reach_exclusive: "gps_reach fp s \<Longrightarrow> exclusive s"
proof (induction rule: gps_reach.induct)
  case gps_initial
  show ?case by (simp add: exclusive_def holders_def gps_state_init_def)
next
  case (gps_more s s')
  then show ?case using step_exclusive reach_session by blast
qed

text \<open>Whoever holds the semaphore is alone.\<close>

lemma exclusiveD:
  assumes "exclusive s"
  shows "main_holds (main_thread s) \<Longrightarrow> callbacks s = [] \<and> \<not> timer_holds (timer_thread s)"
    and "timer_holds (timer_thread s) \<Longrightarrow> callbacks s = [] \<and> \<not> main_holds (main_thread s)"
    and "f \<in> set (callbacks s) \<Longrightarrow> callbacks s = [f] \<and> \<not> main_holds (main_thread s) \<and> \<not> timer_holds (timer_thread s)"
proof -
  show "main_holds (main_thread s) \<Longrightarrow> callbacks s = [] \<and> \<not> timer_holds (timer_thread s)"
    using assms by (auto simp: exclusive_def holders_def split: if_splits)
  show "timer_holds (timer_thread s) \<Longrightarrow> callbacks s = [] \<and> \<not> main_holds (main_thread s)"
    using assms by (auto simp: exclusive_def holders_def split: if_splits)
  show "f \<in> set (callbacks s) \<Longrightarrow> callbacks s = [f] \<and> \<not> main_holds (main_thread s) \<and> \<not> timer_holds (timer_thread s)"
    using assms by (cases "callbacks s") (auto simp: exclusive_def holders_def split: if_splits)
qed

section \<open>What the framework is told\<close>

definition told_statuses :: "gps_report list \<Rightarrow> gps_status_value list" where
  "told_statuses rs = concat (map (\<lambda>r. case r of Status v \<Rightarrow> [v] | _ \<Rightarrow> []) rs)"

definition told_texts :: "gps_report list \<Rightarrow> string list" where
  "told_texts rs = concat (map (\<lambda>r. case r of Nmea t b \<Rightarrow> [b] | _ \<Rightarrow> []) rs)"

definition in_order :: "GpsState \<Rightarrow> bool" where
  "in_order s \<longleftrightarrow>
    issued s = told_statuses (told s) @ (if Gps_status_thread \<in> set (callbacks s) then [gps_status s] else []) \<and>
    handed s = told_texts (told s) @ (if Gps_nmea_thread \<in> set (callbacks s) then [nmea_buf s] else [])"

lemma timer_in_order:
  "timer_thread s = Some pc \<Longrightarrow> timer_step pc s = Some s' \<Longrightarrow> in_order s \<Longrightarrow> in_order s'"
  by (cases pc) (auto simp: timer_step_def in_order_def elim!: lock_fixE)

lemma callback_in_order:
  assumes "callbacks s = as @ f # bs" "exclusive s" "in_order s"
  shows "in_order (run_callback f (s\<lparr>callbacks := as @ bs\<rparr>))"
proof -
  have "callbacks s = [f]" using assms exclusiveD(3) [of s f] by simp
  with assms(1) have "as = []" "bs = []" by (auto simp: append_eq_Cons_conv Cons_eq_append_conv)
  with assms(1,3) show ?thesis
    by (cases f) (auto simp: in_order_def told_statuses_def told_texts_def unlock_fix_def Let_def)
qed

lemma step_in_order: "gps_step fp s s' \<Longrightarrow> exclusive s \<Longrightarrow> in_order s \<Longrightarrow> in_order s'"
proof (induction rule: gps_step.induct)
  case (timer s pc s')
  then show ?case using timer_in_order by blast
next
  case (callback s as f bs)
  then show ?case by (rule callback_in_order)
next
  case (command s c cs e)
  then show ?case using take_command_same [of "s\<lparr>control := cs\<rparr>" e c] by (simp add: in_order_def)
next
  case (fill_status s v k)
  then show ?case using exclusiveD(1) [of s] by (simp add: in_order_def)
next
  case (fill_nmea s buf)
  then show ?case using exclusiveD(1) [of s] by (simp add: in_order_def)
qed (auto simp: in_order_def exit_main_def create_timer_def gps_nmea_cb_def unlock_fix_def elim!: lock_fixE)

lemma reach_in_order: "gps_reach fp s \<Longrightarrow> in_order s"
proof (induction rule: gps_reach.induct)
  case gps_initial
  show ?case by (simp add: in_order_def gps_state_init_def told_statuses_def told_texts_def)
next
  case (gps_more s s')
  then show ?case using step_in_order reach_exclusive by blast
qed

text \<open>From the statuses that are reported to those that are handed over: only those before the callbacks are
  stored are missing.\<close>

fun pending_status :: "main_pc \<Rightarrow> gps_status_value list" where
  "pending_status (Lock_status v k) = [v]"
| "pending_status (Fill_status v k) = [v]"
| "pending_status _ = []"

definition handed_over :: "GpsState \<Rightarrow> bool" where
  "handed_over s \<longleftrightarrow> (\<exists>missed. reported s = missed @ issued s @ pending_status (main_thread s)) \<and>
     (\<not> registered s \<longrightarrow> issued s = [] \<and> pending_status (main_thread s) = [])"

lemma pending_go_on [simp]:
  "pending_status (main_thread (go_on k s)) = []" "reported (go_on k s) = reported s" "registered (go_on k s) = registered s"
  by (cases k; simp)+

lemma status_handed:
  "handed_over s \<Longrightarrow> pending_status (main_thread s) = [] \<Longrightarrow> handed_over (gps_status_cb v k s)"
  by (auto simp: handed_over_def gps_status_cb_def Let_def)

lemma handed_cong:
  "handed_over s \<Longrightarrow> reported s' = reported s \<Longrightarrow> issued s' = issued s \<Longrightarrow> registered s' = registered s \<Longrightarrow>
   pending_status (main_thread s') = pending_status (main_thread s) \<Longrightarrow> handed_over s'"
  by (simp add: handed_over_def)

lemma exit_handed: "handed_over s \<Longrightarrow> pending_status (main_thread s) = [] \<Longrightarrow> handed_over (exit_main s)"
  unfolding exit_main_def by (rule status_handed)

lemma command_handed:
  assumes "handed_over s" "pending_status (main_thread s) = []"
  shows "handed_over (take_command e c s)"
proof (cases c)
  case CMD_QUIT
  with assms show ?thesis by (simp add: take_command_def exit_handed)
next
  case CMD_STOP
  with assms show ?thesis by (simp add: take_command_def handed_over_def)
next
  case CMD_START
  obtain ok p cmds where "open_gps e (powered s) = (ok, p, cmds)" by (cases "open_gps e (powered s)")
  with CMD_START assms show ?thesis
    by (auto simp: take_command_def intro!: exit_handed status_handed) (simp_all add: handed_over_def)
qed

lemma step_handed: "gps_step fp s s' \<Longrightarrow> handed_over s \<Longrightarrow> handed_over s'"
proof (induction rule: gps_step.induct)
  case (start s)
  then show ?case by (simp add: status_handed)
next
  case (command s c cs e)
  then show ?case by (intro command_handed) (auto simp: handed_over_def)
next
  case (hang_up s)
  then show ?case by (simp add: exit_handed)
next
  case (joined s)
  then show ?case by (simp add: status_handed)
next
  case (timer_created s e ok)
  show ?case
  proof (cases ok)
    case True
    with timer_created show ?thesis by (simp add: create_timer_def handed_over_def)
  next
    case False
    have "handed_over (exit_main (s\<lparr>gps_fd := False, powered := fst (close_gps e (powered s)), init := STATE_INIT\<rparr>))"
      using timer_created by (intro exit_handed) (simp_all add: handed_over_def)
    with False show ?thesis by (simp add: create_timer_def)
  qed
next
  case (timer s pc s')
  then have "reported s' = reported s" "issued s' = issued s" "registered s' = registered s" "main_thread s' = main_thread s"
    by (cases pc; auto simp: timer_step_def lock_fix_def split: if_splits)+
  with timer.prems show ?case by (intro handed_cong [of s s']) simp_all
next
  case (callback s as f bs)
  then show ?case by (cases f) (auto simp: unlock_fix_def Let_def intro: handed_cong [of s])
next
  case (fill_status s v k)
  then show ?case by (auto simp: handed_over_def)
qed (auto simp: handed_over_def gps_nmea_cb_def unlock_fix_def lock_fix_def split: if_splits)

lemma reach_handed: "gps_reach fp s \<Longrightarrow> handed_over s"
  by (induction rule: gps_reach.induct) (auto simp: handed_over_def gps_state_init_def dest: step_handed [unfolded handed_over_def])

text \<open>C12: In every state that the threads can reach, the framework has been told the statuses and the texts of
  the receiver that the main thread handed over, in order, each once, but for the one that a callback thread
  is still to tell; statuses are missing only from before the callbacks were stored.\<close>

theorem gps_told_in_order:
  assumes "gps_reach fp s"
  shows "issued s = told_statuses (told s) @ (if Gps_status_thread \<in> set (callbacks s) then [gps_status s] else []) \<and>
    handed s = told_texts (told s) @ (if Gps_nmea_thread \<in> set (callbacks s) then [nmea_buf s] else []) \<and>
    (\<exists>missed. reported s = missed @ issued s @ pending_status (main_thread s)) \<and> length (callbacks s) \<le> 1"
proof -
  have "length (callbacks s) \<le> 1" using reach_exclusive [OF assms] by (simp add: exclusive_def holders_def)
  then show ?thesis using reach_in_order [OF assms] reach_handed [OF assms] unfolding in_order_def handed_over_def by blast
qed

text \<open>C19: Between the moment at which a position or the satellites are handed to a callback thread and the
  call of the framework nothing changes them.\<close>

theorem gps_position_stable:
  assumes "gps_reach fp s" "gps_step fp s s'" "f \<in> set (callbacks s)" "callbacks s' \<noteq> []"
  shows "reader s' = reader s \<and> nmea_buf s' = nmea_buf s \<and> gps_status s' = gps_status s"
proof -
  from exclusiveD(3) [OF reach_exclusive [OF assms(1)] assms(3)]
  have c: "callbacks s = [f]" "\<not> main_holds (main_thread s)" by simp_all
  from assms(2) show ?thesis
  proof cases
    case (callback as g bs)
    with c have "as @ bs = []" by (cases as) auto
    with callback(1) assms(4) show ?thesis by simp
  next
    case (command c cs e)
    with c show ?thesis using take_command_same [of "s\<lparr>control := cs\<rparr>" e c] by simp
  next
    case (timer pc)
    then show ?thesis by (cases pc) (auto simp: timer_step_def lock_fix_def split: if_splits)
  qed (use c in \<open>auto simp: gps_nmea_cb_def exit_main_def create_timer_def elim!: lock_fixE\<close>)
qed

text \<open>C18: The engine is reported on once, sessions begin and end alternately, and nothing is reported after the
  engine is off.  While the main thread waits, the receiver is open, the library is started and a timer
  thread may run exactly in a session.  (Between two waits they change one after the other, and a main thread that
  ends in a session leaves the receiver open.)\<close>

theorem gps_sessions:
  assumes "gps_reach fp s"
  shows "engine_phase (reported s) \<noteq> None \<and>
    (if main_thread s = Main_wait then
       (gps_fd s \<longleftrightarrow> engine_phase (reported s) = Some In_session) \<and> (gps_fd s \<longleftrightarrow> init s = STATE_START) \<and>
       (timer_thread s = None \<or> gps_fd s)
     else if main_thread s = Main_done then engine_phase (reported s) = Some Off else True)"
proof -
  have inv: "main_inv (main_thread s) s" using reach_session [OF assms] by (simp add: session_inv_def)
  have after: "after_inv k s \<Longrightarrow> engine_phase (reported s) \<noteq> None" for k by (cases k) (auto simp: at_state_def)
  show ?thesis
    using inv after by (cases "main_thread s") (auto simp: at_state_def simp del: after_inv.simps(1-3))
qed

section \<open>A session\<close>

definition good_ports :: port_env where
  "good_ports = \<lparr>power_if = True, data_name = True, data_opens = True, ctl_name = True, ctl_opens = True, supl = Some ''http://s''\<rparr>"

definition session_state :: GpsState where
  "session_state = gps_state_init\<lparr>init := STATE_START, gps_fd := True, powered := True, main_thread := Main_wait,
     timer_thread := Some Timer_fix, reported := [GPS_STATUS_ENGINE_ON, GPS_STATUS_SESSION_BEGIN]\<rparr>"

lemma session_reached: "gps_reach fp session_state"
proof -
  let ?on = "gps_state_init\<lparr>reported := [GPS_STATUS_ENGINE_ON], main_thread := Main_wait\<rparr>"
  let ?begun = "?on\<lparr>gps_fd := True, powered := True, reported := [GPS_STATUS_ENGINE_ON, GPS_STATUS_SESSION_BEGIN],
      init := STATE_START, main_thread := Create_timer\<rparr>"
  have "gps_status_cb GPS_STATUS_ENGINE_ON After_on gps_state_init = ?on" by (simp add: gps_status_cb_def gps_state_init_def)
  then have "gps_reach fp ?on"
    using gps_more [OF gps_initial start [of gps_state_init fp]] by (simp add: gps_state_init_def)
  then have "gps_reach fp (?on\<lparr>control := control ?on @ [CMD_START]\<rparr>)" by (rule gps_more [OF _ gps_start])
  then have "gps_reach fp (take_command good_ports CMD_START (?on\<lparr>control := []\<rparr>))"
    using gps_more [OF _ command [of "?on\<lparr>control := [CMD_START]\<rparr>" CMD_START "[]" fp good_ports]] by (simp add: gps_state_init_def)
  moreover have "take_command good_ports CMD_START (?on\<lparr>control := []\<rparr>) = ?begun"
    by (simp add: take_command_def open_gps_def open_gps_ctl_def dev_power_def good_ports_def gps_status_cb_def gps_state_init_def Let_def)
  ultimately have "gps_reach fp ?begun" by simp
  then have "gps_reach fp (create_timer good_ports True ?begun)" by (rule gps_more [OF _ timer_created]) simp
  then show ?thesis by (simp add: create_timer_def session_state_def gps_state_init_def)
qed

theorem gps_sessions_witness:
  "gps_fd session_state \<and> engine_phase (reported session_state) = Some In_session"
  using gps_sessions [OF session_reached] by (simp add: session_state_def)

text \<open>The engine is reported on; the thread that tells the framework has not run.\<close>

definition on_state :: GpsState where
  "on_state = gps_state_init\<lparr>registered := True, reported := [GPS_STATUS_ENGINE_ON], fix_sem := 0, gps_status := GPS_STATUS_ENGINE_ON,
     callbacks := [Gps_status_thread], issued := [GPS_STATUS_ENGINE_ON], main_thread := Main_wait\<rparr>"

lemma on_reached: "gps_reach fp on_state"
proof -
  let ?r = "gps_state_init\<lparr>registered := True\<rparr>"
  let ?l = "?r\<lparr>reported := [GPS_STATUS_ENGINE_ON], main_thread := Lock_status GPS_STATUS_ENGINE_ON After_on\<rparr>"
  have "gps_reach fp ?r" by (rule gps_more [OF gps_initial register])
  then have "gps_reach fp (gps_status_cb GPS_STATUS_ENGINE_ON After_on ?r)"
    by (rule gps_more [OF _ start]) (simp add: gps_state_init_def)
  then have "gps_reach fp ?l" by (simp add: gps_status_cb_def gps_state_init_def)
  then have "gps_reach fp (?l\<lparr>fix_sem := 0, main_thread := Fill_status GPS_STATUS_ENGINE_ON After_on\<rparr>)" (is "gps_reach fp ?f")
    using gps_more [OF _ lock_status [of ?l GPS_STATUS_ENGINE_ON After_on "?l\<lparr>fix_sem := 0\<rparr>" fp]]
    by (simp add: lock_fix_def gps_state_init_def)
  then have "gps_reach fp (go_on After_on (?f\<lparr>gps_status := GPS_STATUS_ENGINE_ON, callbacks := callbacks ?f @ [Gps_status_thread],
      issued := issued ?f @ [GPS_STATUS_ENGINE_ON]\<rparr>))"
    by (rule gps_more [OF _ fill_status]) simp
  then show ?thesis by (simp add: on_state_def gps_state_init_def)
qed

theorem gps_told_in_order_witness:
  "issued on_state = told_statuses (told on_state) @ [GPS_STATUS_ENGINE_ON] \<and> length (callbacks on_state) = 1"
  using gps_told_in_order [OF on_reached] by (simp add: on_state_def)

theorem gps_position_stable_witness:
  "reader (on_state\<lparr>control := control on_state @ [CMD_START]\<rparr>) = reader on_state"
  using gps_position_stable [OF on_reached gps_start [of exact], of Gps_status_thread] by (simp add: on_state_def)

end
