(* ===== verification/Audio_Capture.thy ===== *)
theory Audio_Capture
  imports Misc
begin

text \<open>
  Capture in \<open>src/audio/audio_hw.c\<close>: an input stream, the frames that its buffers hold between the driver
  and the client, and the ways a read takes through them: from the driver directly, through the
  resampler, through the preprocessors.

  A frame is the list of its samples, one for each channel.  The driver (tinyalsa), the resampler and
  the effects are not part of the source: what they do is the record \<open>capture_env\<close>, and every theorem
  holds for all of them that keep the bounds of their interfaces (\<open>env_ok\<close>).  A buffer is the list of its
  frames; an access outside it, or through a PCM that is closed, is \<open>None\<close>, and so is a loop that does not
  end.  \<open>captured\<close>, \<open>passed\<close>, \<open>given\<close>, \<open>eaten\<close> and \<open>made\<close> are history variables: they record what passed between the
  stages (the driver, the provider, \<open>read_frames\<close>, the input and the output of the effects), and no operation
  reads them.
\<close>

type_synonym frame = "16 word list"

section \<open>Formats\<close>

definition ENOMEM :: int where "ENOMEM = 12"
definition ENODEV :: int where "ENODEV = 19"
definition ENOSYS :: int where "ENOSYS = 38"
definition AUDIO_FORMAT_PCM_16_BIT :: int where "AUDIO_FORMAT_PCM_16_BIT = 1"
definition PERIOD_SIZE :: nat where "PERIOD_SIZE = 32 * 32"
definition MM_CODEC_SAMPLING_RATE :: nat where "MM_CODEC_SAMPLING_RATE = 48000"
definition MAX_PREPROCESSORS :: nat where "MAX_PREPROCESSORS = 3"

record pcm_config =
  channels :: nat
  rate :: nat
  period_size :: nat
  period_count :: nat

definition pcm_config_mm_in :: pcm_config where
  "pcm_config_mm_in = \<lparr>channels = 2, rate = MM_CODEC_SAMPLING_RATE, period_size = PERIOD_SIZE, period_count = 2\<rparr>"

definition check_input_parameters :: "32 word \<Rightarrow> int \<Rightarrow> int \<Rightarrow> int" where
  "check_input_parameters sample_rate format channel_count =
    (if format \<noteq> AUDIO_FORMAT_PCM_16_BIT then - EINVAL
     else if channel_count < 1 \<or> channel_count > 2 then - EINVAL
     else if sample_rate \<in> set [8000, 11025, 16000, 22050, 24000, 32000, 44100, 48000] then 0
     else - EINVAL)"

text \<open>\<open>size_t\<close> is unsigned with 32 bits, and so are the products.\<close>

definition get_input_buffer_size :: "32 word \<Rightarrow> int \<Rightarrow> int \<Rightarrow> 32 word" where
  "get_input_buffer_size sample_rate format channel_count =
    (if check_input_parameters sample_rate format channel_count \<noteq> 0 then 0
     else let size = (of_nat (period_size pcm_config_mm_in) * sample_rate) div of_nat (rate pcm_config_mm_in);
              size = ((size + 15) div 16) * 16
          in size * of_int channel_count * 2)"

section \<open>The stream\<close>

text \<open>The pointer to a PCM: null, to an open device, or to one that was closed.\<close>

datatype 'k pcm = No_pcm | Open 'k | Closed

record ('k, 'r, 'p) stream_in =
  in_config :: pcm_config
  in_pcm :: "'k pcm"
  in_device :: "32 word"
  in_resampler :: "'r option"
  in_buffer :: "frame list"
  frames_in :: nat
  requested_rate :: "32 word"
  in_standby :: bool
  source :: int
  in_echo :: "nat option"
  need_echo_reference :: bool
  preprocessors :: "nat option list"
  num_preprocessors :: nat
  proc_buf :: "frame list"
  proc_frames_in :: nat
  ref_buf :: "frame list"
  ref_frames_in :: nat
  read_status :: int
  library :: 'p
  captured :: "frame list"
  passed :: "frame list"
  given :: "frame list"
  eaten :: "frame list"
  made :: "frame list"

text \<open>What a resampler does when it is asked for frames: it pulls from its provider, where it takes some of the
  frames that it is shown, and produces frames in the end.\<close>

datatype 'r resampler_run =
    Pull nat "frame list option \<Rightarrow> nat" "frame list option \<Rightarrow> 'r resampler_run"
  | Produce "frame list" 'r

record echo_buffer =
  frame_count :: nat
  delay :: int
  time_stamp :: "int \<times> int"

record effect_param =
  psize :: nat
  vsize :: nat
  param_data :: "int list"

text \<open>\<open>pcm_read\<close> gives a status and, if it is 0, that many frames; \<open>pcm_get_htimestamp\<close> the frames in the driver
  and the time, or an error; \<open>process\<close> the frames an effect consumed and produced; \<open>process_reverse\<close> is null for an
  effect without it; \<open>echo_read\<close> a status and the frames of the reference.\<close>

record ('k, 'r, 'p) capture_env =
  pcm_read :: "nat \<Rightarrow> 'k \<Rightarrow> int \<times> frame list \<times> 'k"
  pcm_get_htimestamp :: "'k \<Rightarrow> (nat \<times> int \<times> int) option"
  resample_from_provider :: "nat \<Rightarrow> 'r \<Rightarrow> 'r resampler_run"
  resampler_delay_ns :: "'r \<Rightarrow> int"
  process :: "nat \<Rightarrow> frame list \<Rightarrow> nat \<Rightarrow> 'p \<Rightarrow> nat \<times> nat \<times> frame list \<times> 'p"
  process_reverse :: "nat \<Rightarrow> (frame list \<Rightarrow> 'p \<Rightarrow> nat \<times> 'p) option"
  effect_command :: "nat \<Rightarrow> nat \<Rightarrow> effect_param \<Rightarrow> 'p \<Rightarrow> int \<times> int \<times> 'p"
  echo_read :: "echo_buffer \<Rightarrow> 'p \<Rightarrow> int \<times> frame list \<times> 'p"

text \<open>Memory: a write of frames at a place of a buffer, and \<open>realloc\<close> to more frames, of which the new ones hold
  anything (here nothing).\<close>

definition store_frames :: "frame list \<Rightarrow> nat \<Rightarrow> frame list \<Rightarrow> frame list option" where
  "store_frames dst i fs = (if i + length fs \<le> length dst then Some (blit dst i fs) else None)"

definition grow :: "frame list \<Rightarrow> nat \<Rightarrow> frame list" where
  "grow buf n = (if length buf < n then buf @ replicate (n - length buf) [] else buf)"

text \<open>The frames that the driver's buffer still holds.\<close>

definition waiting :: "('k, 'r, 'p) stream_in \<Rightarrow> frame list" where
  "waiting c = take (frames_in c) (drop (period_size (in_config c) - frames_in c) (in_buffer c))"

section \<open>The provider of the resampler\<close>

text \<open>Both pointers are to members of the stream and not null.  The result is what the buffer holds, if it holds
  anything, and how many frames.\<close>

definition get_next_buffer ::
  "('k, 'r, 'p) capture_env \<Rightarrow> nat \<Rightarrow> ('k, 'r, 'p) stream_in \<Rightarrow> (frame list option \<times> nat \<times> ('k, 'r, 'p) stream_in) option" where
  "get_next_buffer env count c = (case in_pcm c of
     No_pcm \<Rightarrow> Some (None, 0, c\<lparr>read_status := - ENODEV\<rparr>)
   | Closed \<Rightarrow> None
   | Open k \<Rightarrow> do {
       (ok, c) \<leftarrow> (if frames_in c = 0 then
           let (status, fs, k) = pcm_read env (period_size (in_config c)) k;
               c = c\<lparr>read_status := status, in_pcm := Open k\<rparr> in
           if status \<noteq> 0 then Some (False, c)
           else do {
             b \<leftarrow> store_frames (in_buffer c) 0 fs;
             Some (True, c\<lparr>in_buffer := b, frames_in := period_size (in_config c), captured := captured c @ fs\<rparr>) }
         else Some (True, c));
       if ok then
         let n = (if count > frames_in c then frames_in c else count);
             i = period_size (in_config c) - frames_in c in
         if i + n \<le> length (in_buffer c) then Some (Some (take n (drop i (in_buffer c))), n, c) else None
       else Some (None, 0, c) })"

definition release_buffer :: "nat \<Rightarrow> ('k, 'r, 'p) stream_in \<Rightarrow> ('k, 'r, 'p) stream_in option" where
  "release_buffer n c =
    (if n \<le> frames_in c then Some (c\<lparr>frames_in := frames_in c - n, passed := passed c @ take n (waiting c)\<rparr>) else None)"

text \<open>The resampler at work: each pull is a \<open>get_next_buffer\<close> and the \<open>release_buffer\<close> of what it took.\<close>

primrec drive ::
  "('k, 'r, 'p) capture_env \<Rightarrow> 'r resampler_run \<Rightarrow> ('k, 'r, 'p) stream_in \<Rightarrow> (frame list \<times> 'r \<times> ('k, 'r, 'p) stream_in) option" where
  "drive env (Produce fs r) c = Some (fs, r, c)"
| "drive env (Pull n took cont) c = do {
     (raw, m, c) \<leftarrow> get_next_buffer env n c;
     c \<leftarrow> (if took raw \<le> m then release_buffer (took raw) c else None);
     drive env (cont raw) c }"

section \<open>Reading frames\<close>

text \<open>One round of \<open>read_frames\<close>: at most \<open>n\<close> frames are put at \<open>i\<close> of \<open>dst\<close>; the result is \<open>frames_rd\<close>.\<close>

definition read_some ::
  "('k, 'r, 'p) capture_env \<Rightarrow> nat \<Rightarrow> frame list \<Rightarrow> nat \<Rightarrow> ('k, 'r, 'p) stream_in \<Rightarrow> (nat \<times> frame list \<times> ('k, 'r, 'p) stream_in) option" where
  "read_some env n dst i c = (case in_resampler c of
     Some r \<Rightarrow> do {
       (fs, r, c) \<leftarrow> drive env (resample_from_provider env n r) c;
       dst \<leftarrow> store_frames dst i fs;
       Some (length fs, dst, c\<lparr>in_resampler := Some r, given := given c @ fs\<rparr>) }
   | None \<Rightarrow> do {
       (raw, m, c) \<leftarrow> get_next_buffer env n c;
       (rd, dst, c) \<leftarrow> (case raw of
           Some fs \<Rightarrow> do { dst \<leftarrow> store_frames dst i fs; Some (m, dst, c\<lparr>given := given c @ fs\<rparr>) }
         | None \<Rightarrow> Some (n, dst, c));
       c \<leftarrow> release_buffer m c;
       Some (rd, dst, c) })"

partial_function (option) read_frames_from ::
  "('k, 'r, 'p) capture_env \<Rightarrow> nat \<Rightarrow> nat \<Rightarrow> frame list \<Rightarrow> nat \<Rightarrow> ('k, 'r, 'p) stream_in \<Rightarrow>
    (int \<times> frame list \<times> ('k, 'r, 'p) stream_in) option" where
  "read_frames_from env frames frames_wr dst i c =
    (if frames_wr < frames then do {
       (rd, dst, c) \<leftarrow> read_some env (frames - frames_wr) dst (i + frames_wr) c;
       if read_status c \<noteq> 0 then Some (read_status c, dst, c)
       else read_frames_from env frames (frames_wr + rd) dst i c }
     else Some (int frames_wr, dst, c))"

definition read_frames ::
  "('k, 'r, 'p) capture_env \<Rightarrow> nat \<Rightarrow> frame list \<Rightarrow> nat \<Rightarrow> ('k, 'r, 'p) stream_in \<Rightarrow> (int \<times> frame list \<times> ('k, 'r, 'p) stream_in) option" where
  "read_frames env frames dst i c = read_frames_from env frames 0 dst i c"

section \<open>The echo reference\<close>

text \<open>\<open>long\<close> has 32 bits; the quotients are taken with 64.\<close>

definition get_capture_delay :: "('k, 'r, 'p) capture_env \<Rightarrow> ('k, 'r, 'p) stream_in \<Rightarrow> nat \<Rightarrow> echo_buffer option" where
  "get_capture_delay env c n = (case in_pcm c of
     Open k \<Rightarrow> Some (case pcm_get_htimestamp env k of
         None \<Rightarrow> \<lparr>frame_count = n, delay = 0, time_stamp = (0, 0)\<rparr>
       | Some (kernel_frames, tstamp) \<Rightarrow>
           let buf_delay = int32 (int (frames_in c + proc_frames_in c) * 1000000000 div int (rate (in_config c)));
               rsmp_delay = (case in_resampler c of Some r \<Rightarrow> resampler_delay_ns env r | None \<Rightarrow> 0);
               kernel_delay = int32 (int kernel_frames * 1000000000 div int (rate (in_config c))) in
           \<lparr>frame_count = n, delay = int32 (kernel_delay + buf_delay + rsmp_delay), time_stamp = tstamp\<rparr>)
   | _ \<Rightarrow> None)"

definition update_echo_reference ::
  "('k, 'r, 'p) capture_env \<Rightarrow> nat \<Rightarrow> ('k, 'r, 'p) stream_in \<Rightarrow> (int \<times> ('k, 'r, 'p) stream_in) option" where
  "update_echo_reference env frames c =
    (if ref_frames_in c < frames then do {
       let c = c\<lparr>ref_buf := grow (ref_buf c) frames\<rparr>;
       b \<leftarrow> get_capture_delay env c (frames - ref_frames_in c);
       let (status, fs, p) = echo_read env b (library c);
       buf \<leftarrow> store_frames (ref_buf c) (ref_frames_in c) fs;
       let c = c\<lparr>ref_buf := buf, library := p\<rparr>;
       Some (delay b, if status = 0 then c\<lparr>ref_frames_in := ref_frames_in c + length fs\<rparr> else c) }
     else Some (0, c))"

text \<open>\<open>sizeof (effect_param_t)\<close> is 12, \<open>AEC_PARAM_ECHO_DELAY\<close> 0.  The result is the status of the command, or else that of the
  parameter.\<close>

definition set_preprocessor_param ::
  "('k, 'r, 'p) capture_env \<Rightarrow> nat \<Rightarrow> effect_param \<Rightarrow> 'p \<Rightarrow> int \<times> 'p" where
  "set_preprocessor_param env e param p =
    (let n = ((psize param - 1) div 4 + 1) * 4 + vsize param;
         (status, param_status, p) = effect_command env e (12 + n) param p in
     (if status = 0 then param_status else status, p))"

definition set_preprocessor_echo_delay :: "('k, 'r, 'p) capture_env \<Rightarrow> nat \<Rightarrow> int \<Rightarrow> 'p \<Rightarrow> int \<times> 'p" where
  "set_preprocessor_echo_delay env e delay_us p =
    set_preprocessor_param env e \<lparr>psize = 4, vsize = 4, param_data = [0, delay_us]\<rparr> p"

text \<open>The handles of the effects; a null pointer among them would be followed.\<close>

definition handles :: "('k, 'r, 'p) stream_in \<Rightarrow> nat list option" where
  "handles c = those (take (num_preprocessors c) (preprocessors c))"

fun reverse_effects :: "('k, 'r, 'p) capture_env \<Rightarrow> nat list \<Rightarrow> int \<Rightarrow> frame list \<Rightarrow> nat \<Rightarrow> 'p \<Rightarrow> nat \<times> 'p" where
  "reverse_effects env [] delay_us raw n p = (n, p)"
| "reverse_effects env (e # es) delay_us raw n p = (case process_reverse env e of
     None \<Rightarrow> reverse_effects env es delay_us raw n p
   | Some f \<Rightarrow> let (n, p) = f (take n raw) p; (status, p) = set_preprocessor_echo_delay env e delay_us p in
       reverse_effects env es delay_us raw n p)"

text \<open>The frames that are left are moved to the beginning of the buffer (with \<open>memcpy\<close>, which this takes to copy
  upwards where the two overlap).\<close>

definition keep_from :: "nat \<Rightarrow> nat \<Rightarrow> frame list \<Rightarrow> frame list option" where
  "keep_from k n buf = (if k + n \<le> length buf then Some (blit buf 0 (take n (drop k buf))) else None)"

definition push_echo_reference :: "('k, 'r, 'p) capture_env \<Rightarrow> nat \<Rightarrow> ('k, 'r, 'p) stream_in \<Rightarrow> ('k, 'r, 'p) stream_in option" where
  "push_echo_reference env frames c = do {
     (d, c) \<leftarrow> update_echo_reference env frames c;
     let delay_us = cdiv d 1000;
     let frames = (if ref_frames_in c < frames then ref_frames_in c else frames);
     es \<leftarrow> handles c;
     let (n, p) = reverse_effects env es delay_us (ref_buf c) frames (library c);
     if n \<le> ref_frames_in c then do {
       let left = ref_frames_in c - n;
       buf \<leftarrow> (if left \<noteq> 0 then keep_from n left (ref_buf c) else Some (ref_buf c));
       Some (c\<lparr>library := p, ref_buf := buf, ref_frames_in := left\<rparr>) }
     else None }"

section \<open>The preprocessors\<close>

text \<open>All work on the same two buffers: each is shown the frames that the one before it consumed, and may
  produce as many as that one did.\<close>

fun run_effects ::
  "('k, 'r, 'p) capture_env \<Rightarrow> nat list \<Rightarrow> frame list \<Rightarrow> nat \<Rightarrow> nat \<Rightarrow> frame list \<Rightarrow> nat \<Rightarrow> 'p \<Rightarrow> (nat \<times> nat \<times> frame list \<times> 'p) option" where
  "run_effects env [] raw n m dst i p = Some (n, m, dst, p)"
| "run_effects env (e # es) raw n m dst i p = do {
     let (n, m, fs, p) = process env e (take n raw) m p;
     dst \<leftarrow> store_frames dst i fs;
     run_effects env es raw n m dst i p }"

text \<open>One round of \<open>process_frames\<close>: what \<open>read_frames\<close> returned if that is negative, and how many frames the effects
  produced.\<close>

definition refill :: "('k, 'r, 'p) capture_env \<Rightarrow> nat \<Rightarrow> ('k, 'r, 'p) stream_in \<Rightarrow> (int \<times> ('k, 'r, 'p) stream_in) option" where
  "refill env frames c =
    (if proc_frames_in c < frames then do {
       let c = c\<lparr>proc_buf := grow (proc_buf c) frames\<rparr>;
       (rd, buf, c) \<leftarrow> read_frames env (frames - proc_frames_in c) (proc_buf c) (proc_frames_in c) c;
       let c = c\<lparr>proc_buf := buf\<rparr>;
       Some (if rd < 0 then (rd, c) else (0, c\<lparr>proc_frames_in := proc_frames_in c + nat rd\<rparr>)) }
     else Some (0, c))"

definition process_some ::
  "('k, 'r, 'p) capture_env \<Rightarrow> nat \<Rightarrow> frame list \<Rightarrow> nat \<Rightarrow> ('k, 'r, 'p) stream_in \<Rightarrow> (nat \<times> frame list \<times> ('k, 'r, 'p) stream_in) option" where
  "process_some env room dst i c = do {
     c \<leftarrow> (if in_echo c \<noteq> None then push_echo_reference env (proc_frames_in c) c else Some c);
     es \<leftarrow> handles c;
     (n, m, dst, p) \<leftarrow> run_effects env es (proc_buf c) (proc_frames_in c) room dst i (library c);
     if n \<le> proc_frames_in c then do {
       let left = proc_frames_in c - n;
       buf \<leftarrow> (if left \<noteq> 0 then keep_from n left (proc_buf c) else Some (proc_buf c));
       Some (m, dst, c\<lparr>library := p, proc_buf := buf, proc_frames_in := left, 
         eaten := eaten c @ take n (proc_buf c), made := made c @ take m (drop i dst)\<rparr>) }
     else None }"

partial_function (option) process_frames_from ::
  "('k, 'r, 'p) capture_env \<Rightarrow> nat \<Rightarrow> nat \<Rightarrow> frame list \<Rightarrow> ('k, 'r, 'p) stream_in \<Rightarrow> (int \<times> frame list \<times> ('k, 'r, 'p) stream_in) option" where
  "process_frames_from env frames frames_wr dst c =
    (if frames_wr < frames then do {
       (st, c) \<leftarrow> refill env frames c;
       if st < 0 then Some (st, dst, c)
       else do {
         (m, dst, c) \<leftarrow> process_some env (frames - frames_wr) dst frames_wr c;
         process_frames_from env frames (frames_wr + m) dst c } }
     else Some (int frames_wr, dst, c))"

definition process_frames ::
  "('k, 'r, 'p) capture_env \<Rightarrow> nat \<Rightarrow> frame list \<Rightarrow> ('k, 'r, 'p) stream_in \<Rightarrow> (int \<times> frame list \<times> ('k, 'r, 'p) stream_in) option" where
  "process_frames env frames dst c = process_frames_from env frames 0 dst c"

text \<open>A read from the driver into the buffer of the client.\<close>

definition read_direct ::
  "('k, 'r, 'p) capture_env \<Rightarrow> frame list \<Rightarrow> ('k, 'r, 'p) stream_in \<Rightarrow> (int \<times> frame list \<times> ('k, 'r, 'p) stream_in) option" where
  "read_direct env dst c = (case in_pcm c of
     Open k \<Rightarrow> do {
       let (status, fs, k) = pcm_read env (length dst) k;
       let fs = (if status = 0 then fs else []);
       dst \<leftarrow> store_frames dst 0 fs;
       Some (status, dst, c\<lparr>in_pcm := Open k, captured := captured c @ fs, passed := passed c @ fs, given := given c @ fs\<rparr>) }
   | _ \<Rightarrow> None)"

text \<open>The part of \<open>in_read\<close> that reads: \<open>dst\<close> is the buffer of the client.  The status is 0 or negative.\<close>

definition read_into ::
  "('k, 'r, 'p) capture_env \<Rightarrow> bool \<Rightarrow> frame list \<Rightarrow> ('k, 'r, 'p) stream_in \<Rightarrow> (int \<times> frame list \<times> ('k, 'r, 'p) stream_in) option" where
  "read_into env mic_mute dst c = do {
     (ret, dst, c) \<leftarrow>
       (if num_preprocessors c \<noteq> 0 then process_frames env (length dst) dst c
        else if in_resampler c \<noteq> None then read_frames env (length dst) dst 0 c
        else read_direct env dst c);
     let ret = (if ret > 0 then 0 else ret);
     Some (ret, if ret = 0 \<and> mic_mute then map (\<lambda>f. replicate (channels (in_config c)) 0) dst else dst, c) }"

section \<open>The bounds of the interfaces\<close>

text \<open>A resampler that is asked for \<open>n\<close> frames takes no more than it is shown, produces at most \<open>n\<close>, and none only if it
  was shown none; then it pulls no more.\<close>

primrec run_ok :: "nat \<Rightarrow> 'r resampler_run \<Rightarrow> bool" where
  "run_ok n (Produce fs r) \<longleftrightarrow> fs \<noteq> [] \<and> length fs \<le> n"
| "run_ok n (Pull m took cont) \<longleftrightarrow> 0 < m \<and> took None = 0 \<and> (case cont None of Produce fs r \<Rightarrow> length fs \<le> n | Pull _ _ _ \<Rightarrow> False)
     \<and> (\<forall>fs. fs \<noteq> [] \<and> length fs \<le> m \<longrightarrow> took (Some fs) \<le> length fs \<and> run_ok n (cont (Some fs)))"

text \<open>\<open>load\<close> bounds how often the effects may take frames and produce none; the rest of the library leaves it.\<close>

definition env_ok :: "('k, 'r, 'p) capture_env \<Rightarrow> ('p \<Rightarrow> nat) \<Rightarrow> bool" where
  "env_ok env load \<longleftrightarrow>
     (\<forall>n k st fs k'. pcm_read env n k = (st, fs, k') \<longrightarrow> st \<le> 0 \<and> (st = 0 \<longrightarrow> length fs = n))
   \<and> (\<forall>n r. 0 < n \<longrightarrow> run_ok n (resample_from_provider env n r))
   \<and> (\<forall>e raw room p n m fs p'. process env e raw room p = (n, m, fs, p') \<longrightarrow> n \<le> length raw \<and> m \<le> room \<and> length fs \<le> room)
   \<and> (\<forall>es raw n room dst i p m dst' p'. es \<noteq> [] \<longrightarrow> 0 < n \<longrightarrow> n \<le> length raw \<longrightarrow> 0 < room \<longrightarrow>
        run_effects env es raw n room dst i p = Some (m, 0, dst', p') \<longrightarrow> load p' < load p)
   \<and> (\<forall>e f raw p. process_reverse env e = Some f \<longrightarrow> fst (f raw p) \<le> length raw \<and> load (snd (f raw p)) \<le> load p)
   \<and> (\<forall>e n a p. load (snd (snd (effect_command env e n a p))) \<le> load p)
   \<and> (\<forall>b p. length (fst (snd (echo_read env b p))) \<le> frame_count b \<and> load (snd (snd (echo_read env b p))) \<le> load p)"

text \<open>The buffers of a stream are large enough for what they hold, and the effects are there.\<close>

definition stream_ok :: "('k, 'r, 'p) stream_in \<Rightarrow> bool" where
  "stream_ok c \<longleftrightarrow> 0 < period_size (in_config c) \<and> length (in_buffer c) = period_size (in_config c)
     \<and> frames_in c \<le> period_size (in_config c) \<and> read_status c \<le> 0 \<and> (frames_in c \<noteq> 0 \<longrightarrow> read_status c = 0)
     \<and> proc_frames_in c \<le> length (proc_buf c) \<and> ref_frames_in c \<le> length (ref_buf c)
     \<and> length (preprocessors c) = MAX_PREPROCESSORS \<and> num_preprocessors c \<le> MAX_PREPROCESSORS \<and> handles c \<noteq> None"

definition is_open :: "('k, 'r, 'p) stream_in \<Rightarrow> bool" where
  "is_open c \<longleftrightarrow> (case in_pcm c of Open k \<Rightarrow> True | _ \<Rightarrow> False)"

text \<open>What reading leaves as it is.\<close>

definition settings :: "('k, 'r, 'p) stream_in \<Rightarrow> _" where
  "settings c = (in_config c, in_device c, requested_rate c, in_standby c, source c, in_echo c, need_echo_reference c,
     preprocessors c, num_preprocessors c, in_resampler c = None)"

definition provider_chain :: "('k, 'r, 'p) stream_in \<Rightarrow> bool" where
  "provider_chain c \<longleftrightarrow> captured c = passed c @ waiting c"

definition pending :: "('k, 'r, 'p) stream_in \<Rightarrow> frame list" where
  "pending c = take (proc_frames_in c) (proc_buf c)"

named_theorems stream_defs "what the predicates on an input stream mean"

lemmas [stream_defs] = stream_ok_def is_open_def settings_def provider_chain_def pending_def waiting_def handles_def

text \<open>The part of a stream behind the provider.\<close>

definition behind :: "('k, 'r, 'p) stream_in \<Rightarrow> _" where
  "behind c = (proc_buf c, proc_frames_in c, ref_buf c, ref_frames_in c, library c, eaten c, made c)"

lemma those_length: "those xs = Some ys \<Longrightarrow> length ys = length xs"
  by (induction xs arbitrary: ys) (auto split: option.splits)

lemma length_handles: "stream_ok c \<Longrightarrow> handles c = Some es \<Longrightarrow> length es = num_preprocessors c"
  by (auto simp: stream_ok_def handles_def dest!: those_length)

lemma store_frames_ok: "i + length fs \<le> length dst \<Longrightarrow> store_frames dst i fs = Some (blit dst i fs)"
  by (simp add: store_frames_def)

lemma env_okD:
  assumes "env_ok env load"
  shows env_run: "0 < n \<Longrightarrow> run_ok n (resample_from_provider env n r)"
    and env_reverse: "process_reverse env e = Some f \<Longrightarrow> fst (f raw p) \<le> length raw \<and> load (snd (f raw p)) \<le> load p"
    and env_command: "load (snd (snd (effect_command env e n' a p))) \<le> load p"
    and env_echo: "length (fst (snd (echo_read env b p))) \<le> frame_count b \<and> load (snd (snd (echo_read env b p))) \<le> load p"
  using assms by (simp_all add: env_ok_def)

lemma env_read:
  assumes "env_ok env load" "pcm_read env n k = (st, fs, k')"
  shows "st \<le> 0 \<and> (st = 0 \<longrightarrow> length fs = n)"
proof -
  have "\<forall>n k st fs k'. pcm_read env n k = (st, fs, k') \<longrightarrow> st \<le> 0 \<and> (st = 0 \<longrightarrow> length fs = n)"
    using assms(1) unfolding env_ok_def by (elim conjE)
  then show ?thesis using assms(2) by blast
qed

lemma env_process:
  assumes "env_ok env load" "process env e raw room p = (n, m, fs, p')"
  shows "n \<le> length raw \<and> m \<le> room \<and> length fs \<le> room"
proof -
  have "\<forall>e raw room p n m fs p'. process env e raw room p = (n, m, fs, p') \<longrightarrow> n \<le> length raw \<and> m \<le> room \<and> length fs \<le> room"
    using assms(1) unfolding env_ok_def by (elim conjE)
  then show ?thesis using assms(2) by blast
qed

lemma env_progress:
  assumes "env_ok env load" "es \<noteq> []" "0 < n" "n \<le> length raw" "0 < room"
    and "run_effects env es raw n room dst i p = Some (m, 0, dst', p')"
  shows "load p' < load p"
proof -
  have "\<forall>es raw n room dst i p m dst' p'. es \<noteq> [] \<longrightarrow> 0 < n \<longrightarrow> n \<le> length raw \<longrightarrow> 0 < room \<longrightarrow>
      run_effects env es raw n room dst i p = Some (m, 0, dst', p') \<longrightarrow> load p' < load p"
    using assms(1) unfolding env_ok_def by (elim conjE)
  then show ?thesis using assms(2-) by blast
qed

section \<open>The provider\<close>

lemma get_next_ok:
  assumes env: "env_ok env load" and ok: "stream_ok c" and op: "is_open c"
  obtains raw m c' where "get_next_buffer env n c = Some (raw, m, c')" "stream_ok c'" "is_open c'" "settings c' = settings c"
    "behind c' = behind c" "passed c' = passed c" "given c' = given c" "in_resampler c' = in_resampler c" "provider_chain c \<Longrightarrow> provider_chain c'"
    "m \<le> frames_in c'" "case raw of None \<Rightarrow> m = 0 \<and> read_status c' \<noteq> 0
       | Some fs \<Rightarrow> take m (waiting c') = fs \<and> length fs = m \<and> m \<le> n \<and> (0 < n \<longrightarrow> 0 < m) \<and> read_status c' = 0"
proof -
  obtain k where k: "in_pcm c = Open k" using op by (auto simp: is_open_def split: pcm.splits)
  define ps where "ps = period_size (in_config c)"
  obtain status fs k' where rd: "pcm_read env ps k = (status, fs, k')" by (cases "pcm_read env ps k") auto
  note st = ok[unfolded stream_ok_def, folded ps_def]
  show ?thesis
  proof (cases "frames_in c = 0")
    case empty: True
    show ?thesis
    proof (cases "status = 0")
      case False
      show ?thesis
        by (rule that[of None 0 "c\<lparr>read_status := status, in_pcm := Open k'\<rparr>"])
          (use k rd empty False st env_read[OF env rd] in \<open>simp_all add: get_next_buffer_def stream_defs behind_def flip: ps_def\<close>)
    next
      case True
      have len: "length fs = ps" using env_read[OF env rd] True by simp
      define n' where "n' = (if n > ps then ps else n)"
      let ?c = "c\<lparr>read_status := 0, in_pcm := Open k', in_buffer := fs, frames_in := ps, captured := captured c @ fs\<rparr>"
      have b: "blit (in_buffer c) 0 fs = fs" using st len by (simp add: blit_def)
      have "get_next_buffer env n c = Some (Some (take n' fs), n', ?c)"
        using k rd empty True st len b by (simp add: get_next_buffer_def store_frames_ok n'_def flip: ps_def)
      then show ?thesis
        by (rule that) (use k empty True st len in \<open>auto simp: stream_defs behind_def n'_def min_def simp flip: ps_def\<close>)
    qed
  next
    case False
    define n' where "n' = (if n > frames_in c then frames_in c else n)"
    have n': "n' \<le> frames_in c" "ps - frames_in c + n' \<le> ps" using st by (auto simp: n'_def)
    have "get_next_buffer env n c = Some (Some (take n' (drop (ps - frames_in c) (in_buffer c))), n', c)"
      using k False st n' by (simp add: get_next_buffer_def Let_def flip: ps_def n'_def)
    then show ?thesis
      by (rule that) (use k op False st ok in \<open>auto simp: waiting_def n'_def min_def simp flip: ps_def\<close>)
  qed
qed

lemma release_ok:
  assumes ok: "stream_ok c" and op: "is_open c" and n: "n \<le> frames_in c"
  obtains c' where "release_buffer n c = Some c'" "stream_ok c'" "is_open c'" "settings c' = settings c"
    "behind c' = behind c" "given c' = given c" "in_resampler c' = in_resampler c" "read_status c' = read_status c"
    "passed c' = passed c @ take n (waiting c)" "provider_chain c \<Longrightarrow> provider_chain c'"
proof -
  let ?c = "c\<lparr>frames_in := frames_in c - n, passed := passed c @ take n (waiting c)\<rparr>"
  define ps where "ps = period_size (in_config c)"
  note st = ok[unfolded stream_ok_def, folded ps_def]
  have w: "waiting ?c = drop n (waiting c)"
    using n st by (simp add: waiting_def drop_take flip: ps_def) (metis Nat.diff_diff_right add.commute drop_drop)
  show ?thesis
    by (rule that[of ?c])
      (use n st op w in \<open>auto simp: release_buffer_def stream_ok_def is_open_def settings_def provider_chain_def behind_def handles_def
          simp flip: ps_def\<close>)
qed

text \<open>A run of the resampler from its provider: it produces frames unless a read failed.\<close>

lemma drive_ok:
  assumes env: "env_ok env load" and "run_ok n run" "stream_ok c" "is_open c"
  obtains fs r c' where "drive env run c = Some (fs, r, c')" "stream_ok c'" "is_open c'" "settings c' = settings c"
    "behind c' = behind c" "given c' = given c" "in_resampler c' = in_resampler c" "provider_chain c \<Longrightarrow> provider_chain c'"
    "length fs \<le> n" "fs = [] \<Longrightarrow> read_status c' \<noteq> 0"
  using assms(2-)
proof (induction run arbitrary: c thesis)
  case (Produce fs r)
  then show ?case by (auto intro: Produce.prems(1)[of fs r c])
next
  case (Pull m took cont)
  obtain raw k c1 where g: "get_next_buffer env m c = Some (raw, k, c1)" and c1: "stream_ok c1" "is_open c1"
    "settings c1 = settings c" "behind c1 = behind c" "given c1 = given c" "in_resampler c1 = in_resampler c"
    "provider_chain c \<Longrightarrow> provider_chain c1" and k: "k \<le> frames_in c1" "case raw of None \<Rightarrow> k = 0 \<and> read_status c1 \<noteq> 0
       | Some fs \<Rightarrow> take k (waiting c1) = fs \<and> length fs = k \<and> k \<le> m \<and> (0 < m \<longrightarrow> 0 < k) \<and> read_status c1 = 0"
    by (rule get_next_ok[OF env Pull.prems(3,4), of m]) blast
  have t: "took raw \<le> k"
  proof (cases raw)
    case None then show ?thesis using Pull.prems(2) by simp
  next
    case (Some fs)
    then have "length fs \<le> m" "length fs = k" "fs \<noteq> []" using k(2) Pull.prems(2) by auto
    then show ?thesis using Pull.prems(2) Some by auto
  qed
  obtain c2 where c2: "release_buffer (took raw) c1 = Some c2" "stream_ok c2" "is_open c2" "settings c2 = settings c1"
    "behind c2 = behind c1" "given c2 = given c1" "in_resampler c2 = in_resampler c1" "read_status c2 = read_status c1"
    "provider_chain c1 \<Longrightarrow> provider_chain c2"
    by (rule release_ok[OF c1(1,2), of "took raw"]) (use t k(1) in auto)
  have go: "drive env (Pull m took cont) c = drive env (cont raw) c2"
    using g t c2(1) by simp
  show ?case
  proof (cases raw)
    case None
    then obtain fs r where n: "cont None = Produce fs r" "length fs \<le> n" using Pull.prems(2) by (auto split: resampler_run.splits)
    show ?thesis
      by (rule Pull.prems(1)[of fs r c2]) (use go None n c1 c2 k(2) in auto)
  next
    case (Some fs)
    then have "length fs \<le> m" "fs \<noteq> []" using k(2) Pull.prems(2) by auto
    then have ro: "run_ok n (cont raw)" using Pull.prems(2) Some by auto
    obtain fs r c' where "drive env (cont raw) c2 = Some (fs, r, c')" "stream_ok c'" "is_open c'" "settings c' = settings c2"
      "behind c' = behind c2" "given c' = given c2" "in_resampler c' = in_resampler c2" "provider_chain c2 \<Longrightarrow> provider_chain c'"
      "length fs \<le> n" "fs = [] \<Longrightarrow> read_status c' \<noteq> 0"
      by (rule Pull.IH[OF rangeI _ ro c2(2,3)]) blast
    then show ?thesis using Pull.prems(1)[of fs r c'] go c1 c2 by simp
  qed
qed

section \<open>Reading\<close>

lemma stream_ok_given: "stream_ok (c\<lparr>given := g\<rparr>) = stream_ok c" "stream_ok (c\<lparr>in_resampler := r\<rparr>) = stream_ok c"
  by (simp_all add: stream_ok_def handles_def)

lemmas history_simps = stream_ok_given

text \<open>One round puts frames into the buffer and logs them, unless a read failed.\<close>

lemma read_some_ok:
  assumes env: "env_ok env load" and ok: "stream_ok c" "is_open c"
    and n: "0 < n" "i + n \<le> length dst"
  obtains fs c' rd where "read_some env n dst i c = Some (rd, blit dst i fs, c')" "stream_ok c'" "is_open c'" "settings c' = settings c"
    "behind c' = behind c" "provider_chain c \<Longrightarrow> provider_chain c'" "given c' = given c @ fs" "length fs \<le> n"
    "read_status c' = 0 \<Longrightarrow> rd = length fs \<and> fs \<noteq> []"
    "in_resampler c = None \<Longrightarrow> passed c' = passed c @ fs"
proof (cases "in_resampler c")
  case (Some r)
  obtain fs r' c1 where d: "drive env (resample_from_provider env n r) c = Some (fs, r', c1)" "stream_ok c1" "is_open c1" "settings c1 = settings c"
    "behind c1 = behind c" "given c1 = given c" "in_resampler c1 = in_resampler c" "provider_chain c \<Longrightarrow> provider_chain c1"
    "length fs \<le> n" "fs = [] \<Longrightarrow> read_status c1 \<noteq> 0"
    by (rule drive_ok[OF env env_run[OF env n(1), of r] ok]) blast
  show ?thesis
    by (rule that[of "length fs" fs "c1\<lparr>in_resampler := Some r', given := given c1 @ fs\<rparr>"])
      (use d Some n in \<open>auto simp: read_some_def store_frames_ok stream_defs behind_def\<close>)
next
  case None
  obtain raw m c1 where g: "get_next_buffer env n c = Some (raw, m, c1)" and c1: "stream_ok c1" "is_open c1"
    "settings c1 = settings c" "behind c1 = behind c" "passed c1 = passed c" "given c1 = given c" "in_resampler c1 = in_resampler c"
    "provider_chain c \<Longrightarrow> provider_chain c1" and k: "m \<le> frames_in c1" "case raw of None \<Rightarrow> m = 0 \<and> read_status c1 \<noteq> 0
       | Some fs \<Rightarrow> take m (waiting c1) = fs \<and> length fs = m \<and> m \<le> n \<and> (0 < n \<longrightarrow> 0 < m) \<and> read_status c1 = 0"
    by (rule get_next_ok[OF env ok(1,2), of n]) blast
  define fs where "fs = (case raw of Some fs \<Rightarrow> fs | None \<Rightarrow> [])"
  let ?c = "c1\<lparr>given := given c1 @ fs\<rparr>"
  have st: "stream_ok ?c" "is_open ?c" using c1 by (simp_all add: history_simps is_open_def)
  obtain c2 where c2: "release_buffer m ?c = Some c2" "stream_ok c2" "is_open c2" "settings c2 = settings ?c"
    "behind c2 = behind ?c" "given c2 = given ?c" "in_resampler c2 = in_resampler ?c" "read_status c2 = read_status ?c"
    "passed c2 = passed ?c @ take m (waiting ?c)" "provider_chain ?c \<Longrightarrow> provider_chain c2"
    by (rule release_ok[OF st, of m]) (use k(1) in auto)
  have c: "settings ?c = settings c" "behind ?c = behind c" "waiting ?c = waiting c1" "provider_chain c \<Longrightarrow> provider_chain ?c"
    using c1 by (simp_all add: stream_defs behind_def)
  show ?thesis
  proof (cases raw)
    case N: None
    have "?c = c1" using N by (simp add: fs_def)
    then have "read_some env n dst i c = Some (n, blit dst i [], c2)"
      using N None g c2(1) by (simp add: read_some_def)
    then show ?thesis
      by (rule that) (use N None k c c1 c2 in \<open>auto simp: fs_def\<close>)
  next
    case S: (Some fs')
    have l: "length fs' = m" "m \<le> n" "0 < m" using k(2) S n by simp_all
    then have "store_frames dst i fs' = Some (blit dst i fs')" using n by (simp add: store_frames_ok)
    then have "read_some env n dst i c = Some (m, blit dst i fs, c2)"
      using S None g c2(1) by (simp add: read_some_def fs_def)
    then show ?thesis
      by (rule that) (use S None k l c c1 c2 in \<open>auto simp: fs_def\<close>)
  qed
qed

lemma blit_blit: "i + length xs + length ys \<le> length d \<Longrightarrow> blit (blit d i xs) (i + length xs) ys = blit d i (xs @ ys)"
  by (cases xs) (auto simp: blit_def min_def drop_drop algebra_simps)

lemma read_frames_from_ok:
  assumes env: "env_ok env load" and "stream_ok c" "is_open c" "frames_wr \<le> frames" "i + frames \<le> length dst"
  shows "\<exists>ret fs c'. read_frames_from env frames frames_wr dst i c = Some (ret, blit dst (i + frames_wr) fs, c')
    \<and> stream_ok c' \<and> is_open c' \<and> settings c' = settings c \<and> behind c' = behind c
    \<and> (provider_chain c \<longrightarrow> provider_chain c') \<and> given c' = given c @ fs \<and> length fs \<le> frames - frames_wr
    \<and> (0 \<le> ret \<longrightarrow> ret = int frames \<and> length fs = frames - frames_wr)
    \<and> (in_resampler c = None \<longrightarrow> passed c' = passed c @ fs)"
  using assms(2-)
proof (induction "frames - frames_wr" arbitrary: frames_wr dst c rule: less_induct)
  case less
  show ?case
  proof (cases "frames_wr < frames")
    case False
    then show ?thesis using less.prems by (subst read_frames_from.simps) (auto intro!: exI[of _ "[]"])
  next
    case True
    obtain fs c1 rd where r: "read_some env (frames - frames_wr) dst (i + frames_wr) c = Some (rd, blit dst (i + frames_wr) fs, c1)"
      and c1: "stream_ok c1" "is_open c1" "settings c1 = settings c" "behind c1 = behind c" "provider_chain c \<Longrightarrow> provider_chain c1"
        "given c1 = given c @ fs" "length fs \<le> frames - frames_wr" "read_status c1 = 0 \<Longrightarrow> rd = length fs \<and> fs \<noteq> []"
        "in_resampler c = None \<Longrightarrow> passed c1 = passed c @ fs"
      by (rule read_some_ok[OF env less.prems(1,2), of "frames - frames_wr" "i + frames_wr" dst]) (use True less.prems in auto)
    show ?thesis
    proof (cases "read_status c1 = 0")
      case False
      then have "read_frames_from env frames frames_wr dst i c = Some (read_status c1, blit dst (i + frames_wr) fs, c1)"
        using True r by (subst read_frames_from.simps) simp
      moreover have "read_status c1 < 0" using False c1(1) by (simp add: stream_ok_def)
      ultimately show ?thesis using c1 by (intro exI[of _ "read_status c1"] exI[of _ fs] exI[of _ c1]) simp
    next
      case zero: True
      let ?wr = "frames_wr + length fs"
      have go: "read_frames_from env frames frames_wr dst i c = read_frames_from env frames ?wr (blit dst (i + frames_wr) fs) i c1"
        using True r zero c1(8)[OF zero] by (subst read_frames_from.simps) simp
      have m: "frames - ?wr < frames - frames_wr" "?wr \<le> frames" "i + frames \<le> length (blit dst (i + frames_wr) fs)"
        using c1(8)[OF zero] True c1(7) less.prems(4) by (simp_all add: le_simps(3) Suc_le_eq) (cases fs; simp)+
      obtain ret gs c2 where c2: "read_frames_from env frames ?wr (blit dst (i + frames_wr) fs) i c1
            = Some (ret, blit (blit dst (i + frames_wr) fs) (i + ?wr) gs, c2)"
        "stream_ok c2" "is_open c2" "settings c2 = settings c1" "behind c2 = behind c1" "provider_chain c1 \<longrightarrow> provider_chain c2"
        "given c2 = given c1 @ gs" "length gs \<le> frames - ?wr" "0 \<le> ret \<longrightarrow> ret = int frames \<and> length gs = frames - ?wr"
        "in_resampler c1 = None \<longrightarrow> passed c2 = passed c1 @ gs"
        using less.hyps[OF m(1) c1(1,2) m(2) m(3)] by (elim exE conjE) (rule that, assumption+)
      have b: "blit (blit dst (i + frames_wr) fs) (i + ?wr) gs = blit dst (i + frames_wr) (fs @ gs)"
        using blit_blit[of "i + frames_wr" fs gs dst] c1(7) c2(8) less.prems True by (simp add: add.assoc)
      have res: "in_resampler c1 = None \<longleftrightarrow> in_resampler c = None" using c1(3) by (simp add: settings_def)
      show ?thesis
        by (intro exI[of _ ret] exI[of _ "fs @ gs"] exI[of _ c2]) (use go b c1 c2 res in auto)
    qed
  qed
qed

section \<open>The preprocessors at work\<close>

text \<open>All that matters for the path of the frames.\<close>

definition pipe :: "('k, 'r, 'p) stream_in \<Rightarrow> _" where
  "pipe c = (in_pcm c, in_buffer c, frames_in c, read_status c, in_resampler c, proc_buf c, proc_frames_in c,
     captured c, passed c, given c, eaten c, made c)"

lemma pipe_cong:
  assumes "pipe c' = pipe c" "settings c' = settings c"
  shows "waiting c' = waiting c" "pending c' = pending c" "provider_chain c' = provider_chain c" "is_open c' = is_open c"
    "handles c' = handles c"
  using assms by (simp_all add: pipe_def stream_defs)

lemma reverse_effects_ok:
  assumes env: "env_ok env load" and "n \<le> length raw"
  shows "fst (reverse_effects env es d raw n p) \<le> n \<and> load (snd (reverse_effects env es d raw n p)) \<le> load p"
  using assms(2)
proof (induction es arbitrary: n p)
  case (Cons e es)
  show ?case
  proof (cases "process_reverse env e")
    case None
    then show ?thesis using Cons by simp
  next
    case (Some f)
    obtain n1 p1 where f: "f (take n raw) p = (n1, p1)" by (cases "f (take n raw) p")
    obtain st p2 where d: "set_preprocessor_echo_delay env e d p1 = (st, p2)" by (cases "set_preprocessor_echo_delay env e d p1")
    have "n1 \<le> n" "load p1 \<le> load p" using env_reverse[OF env Some, of "take n raw" p] f by simp_all
    moreover have "load p2 \<le> load p1"
      using env_command[OF env, of e "12 + 8" "\<lparr>psize = 4, vsize = 4, param_data = [0, d]\<rparr>" p1] d
      by (auto simp: set_preprocessor_echo_delay_def set_preprocessor_param_def split: prod.splits)
    ultimately show ?thesis using Cons.IH[of n1 p2] Cons.prems Some f d by simp
  qed
qed simp

lemma keep_from_ok: "k + n \<le> length buf \<Longrightarrow> keep_from k n buf = Some (blit buf 0 (take n (drop k buf)))"
  by (simp add: keep_from_def)

lemma length_keep: "k + n \<le> length buf \<Longrightarrow> length (blit buf 0 (take n (drop k buf))) = length buf"
  by simp

lemma take_keep: "k + n \<le> length buf \<Longrightarrow> take n (blit buf 0 (take n (drop k buf))) = take n (drop k buf)"
  by (simp add: blit_def)

lemma length_grow: "n \<le> length (grow buf n)" "length buf \<le> length (grow buf n)"
  by (simp_all add: grow_def)

lemma take_grow: "k \<le> length buf \<Longrightarrow> take k (grow buf n) = take k buf"
  by (simp add: grow_def)

lemma update_echo_ok:
  assumes env: "env_ok env load" and ok: "stream_ok c" "is_open c"
  obtains d c' where "update_echo_reference env frames c = Some (d, c')" "stream_ok c'" "pipe c' = pipe c" "settings c' = settings c"
    "load (library c') \<le> load (library c)"
proof (cases "ref_frames_in c < frames")
  case False
  show ?thesis by (rule that[of 0 c]) (use False ok in \<open>simp_all add: update_echo_reference_def\<close>)
next
  case True
  let ?c = "c\<lparr>ref_buf := grow (ref_buf c) frames\<rparr>"
  obtain b where b: "get_capture_delay env ?c (frames - ref_frames_in c) = Some b" "frame_count b = frames - ref_frames_in c"
    using ok(2) by (auto simp: get_capture_delay_def is_open_def Let_def split: pcm.splits option.splits)
  obtain st fs p where r: "echo_read env b (library c) = (st, fs, p)" by (cases "echo_read env b (library c)") auto
  have fs: "length fs \<le> frames - ref_frames_in c" "load p \<le> load (library c)"
    using env_echo[OF env, of b "library c"] r b(2) by simp_all
  have room: "ref_frames_in c + length fs \<le> length (grow (ref_buf c) frames)"
    using fs(1) True length_grow(1)[of frames "ref_buf c"] by linarith
  let ?d = "?c\<lparr>ref_buf := blit (grow (ref_buf c) frames) (ref_frames_in c) fs, library := p\<rparr>"
  show ?thesis
    by (rule that[of "delay b" "if st = 0 then ?d\<lparr>ref_frames_in := ref_frames_in c + length fs\<rparr> else ?d"])
      (use True b r fs room ok in \<open>simp_all add: update_echo_reference_def store_frames_ok stream_defs pipe_def\<close>)
qed

lemma push_echo_ok:
  assumes env: "env_ok env load" and ok: "stream_ok c" "is_open c"
  obtains c' where "push_echo_reference env frames c = Some c'" "stream_ok c'" "pipe c' = pipe c" "settings c' = settings c"
    "load (library c') \<le> load (library c)"
proof -
  obtain d c1 where u: "update_echo_reference env frames c = Some (d, c1)" and c1: "stream_ok c1" "pipe c1 = pipe c" "settings c1 = settings c"
    "load (library c1) \<le> load (library c)"
    by (rule update_echo_ok[OF env ok])
  obtain es where es: "handles c1 = Some es" using c1(1) by (auto simp: stream_ok_def)
  define m where "m = (if ref_frames_in c1 < frames then ref_frames_in c1 else frames)"
  obtain n p where r: "reverse_effects env es (cdiv d 1000) (ref_buf c1) m (library c1) = (n, p)" by (cases "reverse_effects env es (cdiv d 1000) (ref_buf c1) m (library c1)")
  have m: "m \<le> ref_frames_in c1" "ref_frames_in c1 \<le> length (ref_buf c1)" using c1(1) by (simp_all add: m_def stream_ok_def)
  have n: "n \<le> ref_frames_in c1" "load p \<le> load (library c1)"
    using reverse_effects_ok[OF env, of m "ref_buf c1" es "cdiv d 1000" "library c1"] r m by simp_all
  define left where "left = ref_frames_in c1 - n"
  have k: "n + left \<le> length (ref_buf c1)" using n(1) m(2) by (simp add: left_def)
  define buf where "buf = (if left \<noteq> 0 then blit (ref_buf c1) 0 (take left (drop n (ref_buf c1))) else ref_buf c1)"
  have len: "left \<le> length buf" using k length_keep[OF k] by (simp add: buf_def)
  have "push_echo_reference env frames c = Some (c1\<lparr>library := p, ref_buf := buf, ref_frames_in := left\<rparr>)"
    using u es r n(1) keep_from_ok[OF k] by (simp add: push_echo_reference_def buf_def flip: m_def left_def)
  then show ?thesis
    by (rule that) (use c1 n(2) len in \<open>simp_all add: stream_defs pipe_def\<close>)
qed

lemma run_effects_ok:
  assumes env: "env_ok env load" and "n \<le> length raw" "i + m \<le> length dst"
  shows "\<exists>n' m' dst' p'. run_effects env es raw n m dst i p = Some (n', m', dst', p') \<and> n' \<le> n \<and> m' \<le> m
    \<and> length dst' = length dst \<and> take i dst' = take i dst"
  using assms(2-)
proof (induction es arbitrary: n m dst p)
  case (Cons e es)
  obtain n1 m1 fs p1 where e: "process env e (take n raw) m p = (n1, m1, fs, p1)" by (cases "process env e (take n raw) m p") auto
  have b: "n1 \<le> n" "m1 \<le> m" "length fs \<le> m" using env_process[OF env e] by simp_all
  have s: "store_frames dst i fs = Some (blit dst i fs)" using b Cons.prems by (simp add: store_frames_ok)
  have l: "length (blit dst i fs) = length dst" "take i (blit dst i fs) = take i dst"
    using b Cons.prems by (simp_all add: blit_def)
  obtain n2 m2 d2 p2 where "run_effects env es raw n1 m1 (blit dst i fs) i p1 = Some (n2, m2, d2, p2)" "n2 \<le> n1" "m2 \<le> m1"
      "length d2 = length dst" "take i d2 = take i dst"
    using Cons.IH[of n1 m1 "blit dst i fs" p1] b l Cons.prems by auto
  then show ?case using e s b by simp
qed simp

text \<open>The part of the pipeline that the effects take from.\<close>

definition effects_chain :: "('k, 'r, 'p) stream_in \<Rightarrow> bool" where
  "effects_chain c \<longleftrightarrow> given c = eaten c @ pending c"

definition unresampled :: "('k, 'r, 'p) stream_in \<Rightarrow> bool" where
  "unresampled c \<longleftrightarrow> (in_resampler c = None \<longrightarrow> given c = passed c)"

lemma settings_grow [simp]:
  "stream_ok c \<Longrightarrow> stream_ok (c\<lparr>proc_buf := grow (proc_buf c) n\<rparr>)"
  "is_open (c\<lparr>proc_buf := b\<rparr>) = is_open c" "settings (c\<lparr>proc_buf := b\<rparr>) = settings c"
  "provider_chain (c\<lparr>proc_buf := b\<rparr>) = provider_chain c"
  using length_grow(2)[of "proc_buf c" n] by (auto simp: stream_defs)

lemma refill_ok:
  assumes env: "env_ok env load" and ok: "stream_ok c" "is_open c"
  obtains st c' where "refill env frames c = Some (st, c')" "st \<le> 0" "stream_ok c'" "is_open c'" "settings c' = settings c"
    "library c' = library c" "made c' = made c" "provider_chain c \<Longrightarrow> provider_chain c'" "unresampled c \<Longrightarrow> unresampled c'"
    "st = 0 \<Longrightarrow> frames \<le> proc_frames_in c' \<and> (effects_chain c \<longrightarrow> effects_chain c')"
proof (cases "proc_frames_in c < frames")
  case False
  show ?thesis by (rule that[of 0 c]) (use False ok in \<open>simp_all add: refill_def\<close>)
next
  case True
  let ?i = "proc_frames_in c"
  let ?buf = "grow (proc_buf c) frames"
  let ?c = "c\<lparr>proc_buf := ?buf\<rparr>"
  have i: "?i \<le> length (proc_buf c)" using ok(1) by (simp add: stream_ok_def)
  have room: "?i + (frames - ?i) \<le> length ?buf" using True length_grow(1)[of frames "proc_buf c"] by simp
  have st: "stream_ok ?c" "is_open ?c" using ok by simp_all
  obtain ret fs c1 where r: "read_frames_from env (frames - ?i) 0 ?buf ?i ?c = Some (ret, blit ?buf ?i fs, c1)"
    and c1: "stream_ok c1" "is_open c1" "settings c1 = settings ?c" "behind c1 = behind ?c" "provider_chain ?c \<longrightarrow> provider_chain c1"
      "given c1 = given ?c @ fs" "length fs \<le> frames - ?i" "0 \<le> ret \<longrightarrow> ret = int (frames - ?i) \<and> length fs = frames - ?i"
      "in_resampler ?c = None \<longrightarrow> passed c1 = passed ?c @ fs"
    using read_frames_from_ok[OF env st, of 0 "frames - ?i" ?i ?buf] room by (auto simp del: settings_grow)
  have len: "length (blit ?buf ?i fs) = length ?buf" using c1(7) room by (intro blit_length) linarith
  have b: "proc_buf c1 = ?buf" "proc_frames_in c1 = ?i" "library c1 = library c" "eaten c1 = eaten c" "made c1 = made c"
    using c1(4) by (simp_all add: behind_def)
  have res: "in_resampler c1 = None \<longleftrightarrow> in_resampler c = None" using c1(3) by (simp add: settings_def)
  let ?d = "c1\<lparr>proc_buf := blit ?buf ?i fs\<rparr>"
  have d: "stream_ok ?d" "is_open ?d" "settings ?d = settings c" "provider_chain c \<Longrightarrow> provider_chain ?d" "unresampled c \<Longrightarrow> unresampled ?d"
    using c1 len b res by (simp_all add: stream_ok_def handles_def unresampled_def)
  show ?thesis
  proof (cases "ret < 0")
    case neg: True
    show ?thesis
      by (rule that[of ret ?d]) (use True r neg d b in \<open>simp_all add: refill_def read_frames_def\<close>)
  next
    case False
    then have ret: "ret = int (frames - ?i)" and fs: "length fs = frames - ?i" using c1(8) by simp_all
    let ?e = "?d\<lparr>proc_frames_in := frames\<rparr>"
    have p: "pending ?e = pending c @ fs"
      using take_blit[of ?i fs ?buf] fs room True take_grow[OF i, of frames] by (simp add: pending_def)
    show ?thesis
      by (rule that[of 0 ?e])
        (use True r ret d b p len room c1(6) in \<open>auto simp: refill_def read_frames_def effects_chain_def unresampled_def stream_defs\<close>)
  qed
qed

lemma process_some_ok:
  assumes env: "env_ok env load" and ok: "stream_ok c" "is_open c" "num_preprocessors c \<noteq> 0" "0 < proc_frames_in c"
    and room: "0 < room" "i + room \<le> length dst"
  obtains m dst' c' where "process_some env room dst i c = Some (m, dst', c')" "stream_ok c'" "is_open c'" "settings c' = settings c"
    "m \<le> room" "length dst' = length dst" "take i dst' = take i dst" "made c' = made c @ take m (drop i dst')"
    "provider_chain c \<Longrightarrow> provider_chain c'" "unresampled c \<Longrightarrow> unresampled c'" "effects_chain c \<Longrightarrow> effects_chain c'"
    "m = 0 \<Longrightarrow> load (library c') < load (library c)"
proof -
  have "\<exists>c1. (if in_echo c \<noteq> None then push_echo_reference env (proc_frames_in c) c else Some c) = Some c1
      \<and> stream_ok c1 \<and> pipe c1 = pipe c \<and> settings c1 = settings c \<and> load (library c1) \<le> load (library c)"
    by (rule push_echo_ok[OF env ok(1,2), of "proc_frames_in c"]) (use ok(1) in auto)
  then obtain c1 where u: "(if in_echo c \<noteq> None then push_echo_reference env (proc_frames_in c) c else Some c) = Some c1"
    and c1: "stream_ok c1" "pipe c1 = pipe c" "settings c1 = settings c" "load (library c1) \<le> load (library c)"
    by blast
  obtain es where es: "handles c1 = Some es" using c1(1) by (auto simp: stream_ok_def)
  have "length es = num_preprocessors c" using length_handles[OF c1(1) es] c1(3) by (simp add: settings_def)
  then have ne: "es \<noteq> []" using ok(3) by auto
  have p: "proc_buf c1 = proc_buf c" "proc_frames_in c1 = proc_frames_in c" "made c1 = made c" "eaten c1 = eaten c"
    using c1(2) by (simp_all add: pipe_def)
  have len: "proc_frames_in c \<le> length (proc_buf c)" using ok(1) by (simp add: stream_ok_def)
  obtain n m dst' p' where r: "run_effects env es (proc_buf c) (proc_frames_in c) room dst i (library c1) = Some (n, m, dst', p')"
    and n: "n \<le> proc_frames_in c" "m \<le> room" "length dst' = length dst" "take i dst' = take i dst"
    using run_effects_ok[OF env len room(2), of es "library c1"] by blast
  define left where "left = proc_frames_in c - n"
  have k: "n + left = proc_frames_in c" using n(1) by (simp add: left_def)
  then have k': "n + left \<le> length (proc_buf c)" using len by simp
  define buf where "buf = (if left \<noteq> 0 then blit (proc_buf c) 0 (take left (drop n (proc_buf c))) else proc_buf c)"
  let ?d = "c1\<lparr>library := p', proc_buf := buf, proc_frames_in := left, eaten := eaten c @ take n (proc_buf c),
    made := made c @ take m (drop i dst')\<rparr>"
  have go: "process_some env room dst i c = Some (m, dst', ?d)"
    using u es p r n(1) keep_from_ok[OF k'] by (simp add: process_some_def buf_def flip: left_def)
  have b: "left \<le> length buf" "take left buf = take left (drop n (proc_buf c))"
    using k' length_keep[OF k'] take_keep[OF k'] by (simp_all add: buf_def)
  have w: "waiting ?d = waiting c1" by (simp add: waiting_def)
  have st: "stream_ok ?d" using c1(1) b(1) by (simp add: stream_ok_def handles_def)
  have chain: "effects_chain c \<Longrightarrow> effects_chain ?d"
    using b(2) k c1(2) by (simp add: effects_chain_def pending_def pipe_def) (metis take_add)
  have less: "load p' < load (library c)" if "m = 0"
    using env_progress[OF env ne ok(4) len room(1), of dst i "library c1" n dst' p'] r that c1(4) by simp
  show ?thesis
    by (rule that[OF go st])
      (use n c1 pipe_cong[OF c1(2,3)] ok(2) chain less w in
        \<open>auto simp: is_open_def settings_def provider_chain_def unresampled_def pipe_def\<close>)
qed

text \<open>Whatever the effects do, \<open>process_frames\<close> returns, with an error or with all the frames it was asked for.\<close>

lemma process_frames_from_ok:
  assumes env: "env_ok env load" and "stream_ok c" "is_open c" "num_preprocessors c \<noteq> 0" "frames_wr \<le> frames" "frames \<le> length dst"
  shows "\<exists>ret dst' c'. process_frames_from env frames frames_wr dst c = Some (ret, dst', c')
    \<and> stream_ok c' \<and> is_open c' \<and> settings c' = settings c \<and> length dst' = length dst \<and> take frames_wr dst' = take frames_wr dst
    \<and> (provider_chain c \<longrightarrow> provider_chain c') \<and> (unresampled c \<longrightarrow> unresampled c')
    \<and> (0 \<le> ret \<longrightarrow> ret = int frames \<and> made c' = made c @ drop frames_wr (take frames dst') \<and> (effects_chain c \<longrightarrow> effects_chain c'))"
  using assms(2-)
proof (induction "(frames - frames_wr, load (library c))" arbitrary: frames_wr dst c
    rule: wf_induct_rule[OF wf_lex_prod[OF wf_less_than wf_less_than]])
  case 1
  show ?case
  proof (cases "frames_wr < frames")
    case False
    then show ?thesis using 1(2-) by (subst process_frames_from.simps) auto
  next
    case True
    obtain st c1 where r: "refill env frames c = Some (st, c1)" and c1: "st \<le> 0" "stream_ok c1" "is_open c1" "settings c1 = settings c"
      "library c1 = library c" "made c1 = made c" "provider_chain c \<Longrightarrow> provider_chain c1" "unresampled c \<Longrightarrow> unresampled c1"
      "st = 0 \<Longrightarrow> frames \<le> proc_frames_in c1 \<and> (effects_chain c \<longrightarrow> effects_chain c1)"
      by (rule refill_ok[OF env 1(2,3), of frames]) blast
    show ?thesis
    proof (cases "st < 0")
      case neg: True
      then have "process_frames_from env frames frames_wr dst c = Some (st, dst, c1)"
        using True r by (subst process_frames_from.simps) simp
      then show ?thesis using neg c1 by auto
    next
      case False
      then have zero: "st = 0" using c1(1) by simp
      have pre: "num_preprocessors c1 \<noteq> 0" "0 < proc_frames_in c1" "0 < frames - frames_wr" "frames_wr + (frames - frames_wr) \<le> length dst"
        using c1(4,9) zero True 1(4,6) by (simp_all add: settings_def)
      obtain m d2 c2 where p: "process_some env (frames - frames_wr) dst frames_wr c1 = Some (m, d2, c2)"
        and c2: "stream_ok c2" "is_open c2" "settings c2 = settings c1" "m \<le> frames - frames_wr" "length d2 = length dst"
          "take frames_wr d2 = take frames_wr dst" "made c2 = made c1 @ take m (drop frames_wr d2)"
          "provider_chain c1 \<Longrightarrow> provider_chain c2" "unresampled c1 \<Longrightarrow> unresampled c2" "effects_chain c1 \<Longrightarrow> effects_chain c2"
          "m = 0 \<Longrightarrow> load (library c2) < load (library c1)"
        by (rule process_some_ok[OF env c1(2,3) pre]) blast
      have go: "process_frames_from env frames frames_wr dst c = process_frames_from env frames (frames_wr + m) d2 c2"
        using True r zero p by (subst process_frames_from.simps) simp
      have less: "((frames - (frames_wr + m), load (library c2)), frames - frames_wr, load (library c)) \<in> less_than <*lex*> less_than"
        using c2(4,11) c1(5) True by auto
      have IH: "\<exists>ret dst' c'. process_frames_from env frames (frames_wr + m) d2 c2 = Some (ret, dst', c')
        \<and> stream_ok c' \<and> is_open c' \<and> settings c' = settings c2 \<and> length dst' = length d2 \<and> take (frames_wr + m) dst' = take (frames_wr + m) d2
        \<and> (provider_chain c2 \<longrightarrow> provider_chain c') \<and> (unresampled c2 \<longrightarrow> unresampled c')
        \<and> (0 \<le> ret \<longrightarrow> ret = int frames \<and> made c' = made c2 @ drop (frames_wr + m) (take frames dst') \<and> (effects_chain c2 \<longrightarrow> effects_chain c'))"
        by (rule 1(1)[OF less c2(1,2)]) (use c2 c1 1(4,6) True in \<open>simp_all add: settings_def\<close>)
      then obtain ret d3 c3 where e: "process_frames_from env frames (frames_wr + m) d2 c2 = Some (ret, d3, c3)"
        and c3: "stream_ok c3" "is_open c3" "settings c3 = settings c2" "length d3 = length d2" "take (frames_wr + m) d3 = take (frames_wr + m) d2"
          "provider_chain c2 \<longrightarrow> provider_chain c3" "unresampled c2 \<longrightarrow> unresampled c3"
          "0 \<le> ret \<longrightarrow> ret = int frames \<and> made c3 = made c2 @ drop (frames_wr + m) (take frames d3) \<and> (effects_chain c2 \<longrightarrow> effects_chain c3)"
        by (elim exE conjE) (rule that, assumption+)
      have t: "take frames_wr d3 = take frames_wr dst"
        using c3(5) c2(6) by (metis take_take min.absorb1 le_add1)
      have "take m (drop frames_wr d2) @ drop (frames_wr + m) (take frames d3) = drop frames_wr (take frames d3)"
      proof -
        have "take m (drop frames_wr d2) = take m (drop frames_wr d3)"
          using c3(5) by (metis add.commute take_drop)
        also have "\<dots> = take m (drop frames_wr (take frames d3))"
          using c2(4) by (simp add: drop_take min_def)
        finally show ?thesis by (metis append_take_drop_id drop_drop add.commute)
      qed
      then show ?thesis
        by (intro exI[of _ ret] exI[of _ d3] exI[of _ c3]) (use go e c1 c2 c3 t zero in auto)
    qed
  qed
qed

section \<open>What a read gives\<close>

lemma read_direct_ok:
  assumes env: "env_ok env load" and ok: "stream_ok c" "is_open c" "num_preprocessors c = 0" "in_resampler c = None"
  shows "\<exists>ret fs c'. read_direct env dst c = Some (ret, blit dst 0 fs, c') \<and> ret \<le> 0 \<and> stream_ok c' \<and> is_open c' \<and> settings c' = settings c \<and> (provider_chain c \<and> frames_in c = 0 \<longrightarrow> provider_chain c')
        \<and> (unresampled c \<longrightarrow> unresampled c') \<and> given c' = given c @ fs \<and> length fs \<le> length dst \<and> (ret = 0 \<longrightarrow> length fs = length dst)"
proof -
  obtain k where k: "in_pcm c = Open k" using ok(2) by (auto simp: is_open_def split: pcm.splits)
  obtain st fs k' where r: "pcm_read env (length dst) k = (st, fs, k')" by (cases "pcm_read env (length dst) k") auto
  have b: "st \<le> 0" "st = 0 \<Longrightarrow> length fs = length dst" using env_read[OF env r] by simp_all
  show ?thesis
    by (intro exI[of _ st] exI[of _ "if st = 0 then fs else []"]
          exI[of _ "let fs = (if st = 0 then fs else []) in c\<lparr>in_pcm := Open k', captured := captured c @ fs, passed := passed c @ fs, given := given c @ fs\<rparr>"])
      (use k r b ok in \<open>simp add: read_direct_def store_frames_def stream_defs unresampled_def\<close>)
qed

lemma read_into_ok:
  assumes "env_ok env load" "stream_ok c" "is_open c"
  shows "\<exists>ret frames dst' c'. read_into env mic_mute dst c = Some (ret, dst', c') \<and> ret \<le> 0
     \<and> stream_ok c' \<and> is_open c' \<and> settings c' = settings c
     \<and> (provider_chain c \<and> (num_preprocessors c = 0 \<and> in_resampler c = None \<longrightarrow> frames_in c = 0) \<longrightarrow> provider_chain c')
     \<and> (unresampled c \<longrightarrow> unresampled c')
     \<and> (ret = 0 \<longrightarrow> length frames = length dst
         \<and> dst' = (if mic_mute then replicate (length dst) (replicate (channels (in_config c)) 0) else frames)
         \<and> (if num_preprocessors c = 0 then given c' = given c @ frames
            else made c' = made c @ frames \<and> (effects_chain c \<longrightarrow> effects_chain c')))"
proof -
  note env = assms(1)
  consider "num_preprocessors c \<noteq> 0" | "num_preprocessors c = 0" "in_resampler c \<noteq> None" | "num_preprocessors c = 0" "in_resampler c = None"
    by blast
  then show ?thesis
  proof cases
    case 1
    obtain ret d c1 where "process_frames_from env (length dst) 0 dst c = Some (ret, d, c1)" "stream_ok c1" "is_open c1" "settings c1 = settings c"
      "length d = length dst" "provider_chain c \<longrightarrow> provider_chain c1" "unresampled c \<longrightarrow> unresampled c1"
      "0 \<le> ret \<longrightarrow> ret = int (length dst) \<and> made c1 = made c @ drop 0 (take (length dst) d) \<and> (effects_chain c \<longrightarrow> effects_chain c1)"
      using process_frames_from_ok[OF env assms(2,3) 1, of 0 "length dst" dst] by auto
    note c1 = this
    have cfg: "in_config c1 = in_config c" using c1(4) by (simp add: settings_def)
    have g: "read_into env mic_mute dst c = Some (if ret > 0 then 0 else ret,
        if 0 \<le> ret \<and> mic_mute then replicate (length dst) (replicate (channels (in_config c)) 0) else d, c1)"
      using 1 c1(1,5) cfg by (simp add: read_into_def process_frames_def map_replicate_const)
    have d: "drop 0 (take (length dst) d) = d" using c1(5) by simp
    have "0 \<le> ret" if "(if ret > 0 then 0 else ret) = 0" using that by (simp split: if_splits)
    then show ?thesis
      using 1 g c1(2-7) c1(8)[unfolded d]
      by (intro exI[of _ "if ret > 0 then 0 else ret"] exI[of _ d]
            exI[of _ "if 0 \<le> ret \<and> mic_mute then replicate (length dst) (replicate (channels (in_config c)) 0) else d"] exI[of _ c1]) simp
  next
    case 2
    obtain ret fs c1 where "read_frames_from env (length dst) 0 dst 0 c = Some (ret, blit dst 0 fs, c1)" "stream_ok c1" "is_open c1" "settings c1 = settings c"
      "provider_chain c \<longrightarrow> provider_chain c1" "given c1 = given c @ fs" "length fs \<le> length dst" "0 \<le> ret \<longrightarrow> ret = int (length dst) \<and> length fs = length dst"
      using read_frames_from_ok[OF env assms(2,3), of 0 "length dst" 0 dst] by auto
    note c1 = this
    have cfg: "in_config c1 = in_config c" using c1(4) by (simp add: settings_def)
    have full: "blit dst 0 fs = fs" if "length fs = length dst" using that by (simp add: blit_def)
    have len: "length (blit dst 0 fs) = length dst" using c1(7) by simp
    have g: "read_into env mic_mute dst c = Some (if ret > 0 then 0 else ret,
        if 0 \<le> ret \<and> mic_mute then replicate (length dst) (replicate (channels (in_config c)) 0) else blit dst 0 fs, c1)"
      using 2 c1(1) cfg len by (simp add: read_into_def read_frames_def map_replicate_const)
    have "0 \<le> ret" if "(if ret > 0 then 0 else ret) = 0" using that by (simp split: if_splits)
    moreover have "unresampled c1" using 2(2) c1(4) by (auto simp: unresampled_def settings_def)
    ultimately show ?thesis
      using 2 g c1(2-8) full
      by (intro exI[of _ "if ret > 0 then 0 else ret"] exI[of _ fs]
            exI[of _ "if 0 \<le> ret \<and> mic_mute then replicate (length dst) (replicate (channels (in_config c)) 0) else blit dst 0 fs"] exI[of _ c1]) simp
  next
    case 3
    from read_direct_ok[OF env assms(2,3) 3, of dst]
    obtain ret fs c1 where r: "read_direct env dst c = Some (ret, blit dst 0 fs, c1)" and c1: "ret \<le> 0" "stream_ok c1" "is_open c1" "settings c1 = settings c" "provider_chain c \<and> frames_in c = 0 \<longrightarrow> provider_chain c1"
        "unresampled c \<longrightarrow> unresampled c1" "given c1 = given c @ fs" "length fs \<le> length dst" "ret = 0 \<longrightarrow> length fs = length dst"
      by (elim exE conjE) (rule that, assumption+)
    moreover have "blit dst 0 fs = fs" if "length fs = length dst" using that by (simp add: blit_def)
    ultimately show ?thesis using 3
      by (intro exI[of _ ret] exI[of _ fs]
            exI[of _ "if ret = 0 \<and> mic_mute then replicate (length dst) (replicate (channels (in_config c1)) 0) else blit dst 0 fs"] exI[of _ c1])
        (simp add: read_into_def settings_def map_replicate_const)
  qed
qed

text \<open>C17: A read of any size returns, with an error or with all the frames it was asked for.  What the driver
  captured in the reads that it did not fail is what the provider passed on and what its buffer still holds, in this
  order.  If the read returns no error, what was passed on (resampled, if the stream has a resampler) is what the effects
  consumed and what waits for them, and the client gets exactly what the effects produced since the last read, or without
  effects what was read since then; silence of the same size if the microphone is muted.  (After an error of
  the driver in the middle of a read, frames that were passed on to the effects are lost.  Without resampler
  and effects the driver's buffer has to be empty: the read does not look at it, and skips what an effect that was
  removed has left there.)\<close>

theorem capture_in_order:
  assumes "env_ok env load" "stream_ok c" "is_open c" "provider_chain c"
    and "num_preprocessors c = 0 \<and> in_resampler c = None \<longrightarrow> frames_in c = 0"
  shows "\<exists>ret frames dst' c'. read_into env mic_mute dst c = Some (ret, dst', c') \<and> ret \<le> 0
     \<and> stream_ok c' \<and> is_open c' \<and> settings c' = settings c \<and> provider_chain c'
     \<and> (unresampled c \<longrightarrow> unresampled c')
     \<and> (ret = 0 \<longrightarrow> length frames = length dst
         \<and> dst' = (if mic_mute then replicate (length dst) (replicate (channels (in_config c)) 0) else frames)
         \<and> (if num_preprocessors c = 0 then given c' = given c @ frames
            else made c' = made c @ frames \<and> (effects_chain c \<longrightarrow> effects_chain c')))"
  using read_into_ok[OF assms(1-3), of mic_mute dst] assms(4,5) by (elim exE conjE) blast

text \<open>Frames that are numbered, an effect that copies, and a period of four frames.\<close>

definition sample_capture :: "(nat, unit, unit) capture_env" where
  "sample_capture = \<lparr>
     pcm_read = (\<lambda>n k. (0, map (\<lambda>i. [of_nat i]) [k ..< k + n], k + n)),
     pcm_get_htimestamp = (\<lambda>k. Some (0, 0, 0)),
     resample_from_provider = (\<lambda>n r. Pull n (\<lambda>raw. case raw of Some fs \<Rightarrow> length fs | None \<Rightarrow> 0)
       (\<lambda>raw. case raw of Some fs \<Rightarrow> Produce fs () | None \<Rightarrow> Produce [] ())),
     resampler_delay_ns = (\<lambda>r. 0),
     process = (\<lambda>e raw room p. (min (length raw) room, min (length raw) room, take room raw, p)),
     process_reverse = (\<lambda>e. Some (\<lambda>raw p. (length raw, p))),
     effect_command = (\<lambda>e n a p. (0, 0, p)),
     echo_read = (\<lambda>b p. (0, replicate (frame_count b) [0], p))\<rparr>"

definition sample_stream :: "(nat, unit, unit) stream_in" where
  "sample_stream = \<lparr>in_config = \<lparr>channels = 1, rate = 48000, period_size = 4, period_count = 2\<rparr>, in_pcm = Open 0, in_device = 0,
     in_resampler = None, in_buffer = replicate 4 [], frames_in = 0, requested_rate = 48000, in_standby = False, source = 0,
     in_echo = None, need_echo_reference = False, preprocessors = [Some 1, None, None], num_preprocessors = 1,
     proc_buf = [], proc_frames_in = 0, ref_buf = [], ref_frames_in = 0, read_status = 0, library = (),
     captured = [], passed = [], given = [], eaten = [], made = []\<rparr>"

lemma sample_process: "process sample_capture e raw room p = (min (length raw) room, min (length raw) room, take room raw, p)"
  by (simp add: sample_capture_def)

lemma sample_progress:
  assumes "0 < n" "n \<le> length raw" "0 < room" "run_effects sample_capture es raw n room dst i p = Some (n', m', dst', p')"
  shows "0 < m'"
  using assms
proof (induction es arbitrary: n room dst)
  case (Cons e es)
  have "length (take n raw) = n" using Cons.prems(2) by simp
  then obtain d where "run_effects sample_capture es raw (min n room) (min n room) d i p = Some (n', m', dst', p')"
    using Cons.prems(4) by (auto simp: sample_process bind_eq_Some_conv)
  then show ?case using Cons.IH[of "min n room" "min n room" d] Cons.prems by simp
qed simp

lemma sample_capture_ok: "env_ok sample_capture (\<lambda>p. 0)"
proof -
  have "\<not> run_effects sample_capture es raw n room dst i p = Some (m, 0, dst', p')" if "0 < n" "n \<le> length raw" "0 < room" for es raw n room dst i p m dst' p'
    using sample_progress[OF that, of es dst i p m 0 dst' p'] by auto
  then show ?thesis unfolding env_ok_def by (auto simp: sample_capture_def)
qed

lemma sample_stream_ok: "stream_ok sample_stream" "is_open sample_stream" "provider_chain sample_stream" "num_preprocessors sample_stream \<noteq> 0"
  by (simp_all add: sample_stream_def stream_defs MAX_PREPROCESSORS_def numeral_3_eq_3)

theorem capture_in_order_witness:
  "\<exists>ret frames dst' c'. read_into sample_capture False (replicate 6 []) sample_stream = Some (ret, dst', c') \<and> ret \<le> 0
     \<and> (ret = 0 \<longrightarrow> length frames = 6 \<and> dst' = frames \<and> made c' = frames)"
  using capture_in_order[OF sample_capture_ok sample_stream_ok(1-3), of False "replicate 6 []"] sample_stream_ok(4)
  by (auto simp: sample_stream_def)

text \<open>The size of the buffer for a read: a multiple of 16 frames, enough for what a period of the driver gives at the
  rate of the client, and not 16 frames more.\<close>

theorem input_buffer_size:
  assumes "check_input_parameters r format n = 0"
  shows "\<exists>frames. unat (get_input_buffer_size r format n) = 16 * frames * nat n * 2
    \<and> PERIOD_SIZE * unat r \<le> 16 * frames * MM_CODEC_SAMPLING_RATE
    \<and> 16 * frames * MM_CODEC_SAMPLING_RATE < PERIOD_SIZE * unat r + 16 * MM_CODEC_SAMPLING_RATE"
proof -
  have n: "n = 1 \<or> n = 2" and f: "format = AUDIO_FORMAT_PCM_16_BIT" and
    r: "r \<in> set [8000, 11025, 16000, 22050, 24000, 32000, 44100, 48000]"
    using assms by (auto simp: check_input_parameters_def EINVAL_def split: if_splits)
  define u where "u = unat r"
  have u: "u = 8000 \<or> u = 11025 \<or> u = 16000 \<or> u = 22050 \<or> u = 24000 \<or> u = 32000 \<or> u = 44100 \<or> u = 48000"
    using r by (auto simp: u_def)
  then have le: "u \<le> 48000" by auto
  define frames where "frames = ((1024 * u) div 48000 + 15) div 16"
  have q: "1024 * u div 48000 \<le> 1024" using div_le_mono[of "1024 * u" "1024 * 48000" 48000] le by simp
  then have fr: "frames \<le> 64" by (simp add: frames_def)
  have w: "unat (of_nat PERIOD_SIZE * r) = 1024 * u"
    using le by (simp add: PERIOD_SIZE_def unat_word_ariths u_def)
  have "unat ((of_nat PERIOD_SIZE * r) div 48000) = 1024 * u div 48000"
    by (simp add: unat_div w)
  then have "unat ((of_nat PERIOD_SIZE * r) div 48000 + 15) = 1024 * u div 48000 + 15"
    using q by (simp add: unat_word_ariths)
  then have "unat (((of_nat PERIOD_SIZE * r) div 48000 + 15) div 16) = frames"
    by (simp add: unat_div frames_def)
  then have "unat (((of_nat PERIOD_SIZE * r) div 48000 + 15) div 16 * 16 * of_int n * 2) = 16 * frames * nat n * 2"
    using fr n by (auto simp: unat_word_ariths)
  moreover have "get_input_buffer_size r format n = ((of_nat PERIOD_SIZE * r) div 48000 + 15) div 16 * 16 * of_int n * 2"
    using assms by (simp add: get_input_buffer_size_def pcm_config_mm_in_def MM_CODEC_SAMPLING_RATE_def)
  ultimately show ?thesis
    using u by (intro exI[of _ frames]) (auto simp: PERIOD_SIZE_def MM_CODEC_SAMPLING_RATE_def frames_def simp flip: u_def)
qed

theorem input_buffer_size_witness:
  "\<exists>frames. unat (get_input_buffer_size 44100 1 2) = 16 * frames * 2 * 2 \<and> 1024 * 44100 \<le> 16 * frames * 48000"
  using input_buffer_size[of 44100 1 2]
  by (auto simp: check_input_parameters_def AUDIO_FORMAT_PCM_16_BIT_def PERIOD_SIZE_def MM_CODEC_SAMPLING_RATE_def)

end
