(* ===== verification/Audio_Device.thy ===== *)
theory Audio_Device
  imports Complex_Main Audio_Capture
begin

text \<open>
  The audio device of \<open>src/audio/audio_hw.c\<close>: which stream is active, when a stream is in standby, where the
  sound goes, and the reference that the echo canceller reads while the output writes it.  Streams and
  echo references are named by numbers; following the pointer of a stream that was closed, of a
  reference that was released or of a PCM that was closed is a fault (\<open>None\<close>).

  Every operation starts under the mutex of the device, and the part of a read or a write that goes on
  after it is released runs under the mutex of its stream, which every change of the stream takes, so an
  operation is one step.  What tinyalsa, the resampler and the effects library answer are parameters of the
  operations, as the records \<open>capture_env\<close>, \<open>out_env\<close> and \<open>mixer_env\<close>.
\<close>

unbundle bit_operations_syntax

section \<open>Constants\<close>

text \<open>Those of \<open>system/audio.h\<close> of Android 4.0, as far as the device uses them.\<close>

definition AUDIO_MODE_NORMAL :: int where "AUDIO_MODE_NORMAL = 0"
definition AUDIO_MODE_IN_CALL :: int where "AUDIO_MODE_IN_CALL = 2"
definition AUDIO_DEVICE_OUT_SPEAKER :: "32 word" where "AUDIO_DEVICE_OUT_SPEAKER = 0x2"
definition AUDIO_DEVICE_OUT_WIRED_HEADPHONE :: "32 word" where "AUDIO_DEVICE_OUT_WIRED_HEADPHONE = 0x8"
definition AUDIO_DEVICE_OUT_ALL_SCO :: "32 word" where "AUDIO_DEVICE_OUT_ALL_SCO = 0x70"
definition AUDIO_DEVICE_OUT_AUX_DIGITAL :: "32 word" where "AUDIO_DEVICE_OUT_AUX_DIGITAL = 0x400"
definition AUDIO_DEVICE_OUT_ALL :: "32 word" where "AUDIO_DEVICE_OUT_ALL = 0x9FFF"
definition AUDIO_DEVICE_IN_BUILTIN_MIC :: "32 word" where "AUDIO_DEVICE_IN_BUILTIN_MIC = 0x40000"
definition AUDIO_DEVICE_IN_ALL :: "32 word" where "AUDIO_DEVICE_IN_ALL = 0x80FF0000"

definition PLAYBACK_PERIOD_COUNT :: nat where "PLAYBACK_PERIOD_COUNT = 4"
definition RESAMPLER_BUFFER_FRAMES :: nat where "RESAMPLER_BUFFER_FRAMES = PERIOD_SIZE * 2"
definition MIN_WRITE_SLEEP_US :: int where "MIN_WRITE_SLEEP_US = 5000"
definition ANDROID_SAMPLING_RATE :: nat where "ANDROID_SAMPLING_RATE = 48000"
definition MM_SPDIF_SAMPLING_RATE :: nat where "MM_SPDIF_SAMPLING_RATE = 48000"
definition MM_VOICE_SAMPLING_RATE :: nat where "MM_VOICE_SAMPLING_RATE = 8000"

datatype port = PORT_MM | PORT_VOICE | PORT_SPDIF

definition pcm_config_mm_out :: pcm_config where
  "pcm_config_mm_out = \<lparr>channels = 2, rate = MM_CODEC_SAMPLING_RATE, period_size = PERIOD_SIZE, period_count = PLAYBACK_PERIOD_COUNT\<rparr>"

section \<open>The state\<close>

record stream_out =
  out_config :: pcm_config
  start_threshold :: nat
  out_pcm :: "port pcm"
  out_standby :: bool
  out_echo :: "nat option"
  write_threshold :: nat

datatype mixer_ctl = Mic_volume | Pcm_volume | Headset_volume | Speaker_volume | Mic_switch | Headset_switch | Speaker_switch

text \<open>The device, the streams that are open, the echo references that were created and not released, and
  what the mixer was set to.\<close>

record ('k, 'r, 'p) audio_device =
  mode :: int
  devices :: "32 word"
  in_call :: bool
  active_input :: "nat option"
  active_output :: "nat option"
  mic_mute :: bool
  dev_echo :: "nat option"
  outs :: "nat \<Rightarrow> stream_out option"
  ins :: "nat \<Rightarrow> ('k, 'r, 'p) stream_in option"
  live :: "nat list"
  mixer :: "mixer_ctl \<Rightarrow> nat \<Rightarrow> int"
  mixer_enum :: "mixer_ctl \<Rightarrow> string"

section \<open>The mixer\<close>

text \<open>The controls that the driver has, and how many values each.\<close>

record mixer_env =
  mixer_open :: bool
  present :: "mixer_ctl \<Rightarrow> bool"
  num_values :: "mixer_ctl \<Rightarrow> nat"

definition mixer_ctl_set_value :: "mixer_ctl \<Rightarrow> nat \<Rightarrow> int \<Rightarrow> ('k, 'r, 'p) audio_device \<Rightarrow> ('k, 'r, 'p) audio_device" where
  "mixer_ctl_set_value ctl j v s = s\<lparr>mixer := (mixer s)(ctl := ((mixer s ctl)(j := v)))\<rparr>"

definition mixer_ctl_set_enum_by_string :: "mixer_ctl \<Rightarrow> string \<Rightarrow> ('k, 'r, 'p) audio_device \<Rightarrow> ('k, 'r, 'p) audio_device" where
  "mixer_ctl_set_enum_by_string ctl v s = s\<lparr>mixer_enum := (mixer_enum s)(ctl := v)\<rparr>"

record route_setting =
  ctl_name :: mixer_ctl
  intval :: int
  strval :: "string option"

text \<open>\<open>PERC_TO_PCM_VOLUME\<close> and the others: \<open>fl\<close> is the rounding of a product of \<open>float\<close>s.\<close>

definition perc_to_volume :: "(rat \<Rightarrow> rat) \<Rightarrow> rat \<Rightarrow> int" where
  "perc_to_volume fl x = (let y = fl (x * 31) in if y < 0 then - floor (- y) else floor y)"

definition defaults :: "route_setting list" where
  "defaults = map (\<lambda>(c, v). \<lparr>ctl_name = c, intval = v, strval = None\<rparr>)
     [(Pcm_volume, 1 * 31), (Headset_volume, 1 * 31), (Speaker_volume, 1 * 31), (Mic_volume, 1 * 31),
      (Headset_switch, 0), (Speaker_switch, 1), (Mic_switch, 1)]"

fun set_route_by_array :: "mixer_env \<Rightarrow> route_setting list \<Rightarrow> bool \<Rightarrow> ('k, 'r, 'p) audio_device \<Rightarrow> int \<times> ('k, 'r, 'p) audio_device" where
  "set_route_by_array m [] enable s = (0, s)"
| "set_route_by_array m (x # route) enable s =
    (if \<not> present m (ctl_name x) then (- EINVAL, s)
     else set_route_by_array m route enable (case strval x of
         Some v \<Rightarrow> mixer_ctl_set_enum_by_string (ctl_name x) (if enable then v else ''Off'') s
       | None \<Rightarrow> fold (\<lambda>j. mixer_ctl_set_value (ctl_name x) j (if enable then intval x else 0)) [0 ..< num_values m (ctl_name x)] s))"

text \<open>The name has been compared with \<open>AUDIO_HARDWARE_INTERFACE\<close> and memory was there.\<close>

definition adev_open :: "mixer_env \<Rightarrow> int + ('k, 'r, 'p) audio_device" where
  "adev_open m =
    (if \<not> mixer_open m then Inl (- EINVAL)
     else if \<exists>c \<in> set [Mic_volume, Pcm_volume, Headset_volume, Speaker_volume, Mic_switch, Headset_switch, Speaker_switch]. \<not> present m c
     then Inl (- EINVAL)
     else let s = \<lparr>mode = 0, devices = 0, in_call = False, active_input = None, active_output = None, mic_mute = False, dev_echo = None,
            outs = (\<lambda>i. None), ins = (\<lambda>i. None), live = [], mixer = (\<lambda>c j. 0), mixer_enum = (\<lambda>c. [])\<rparr>;
          s = snd (set_route_by_array m defaults True s) in
       Inr (s\<lparr>mode := AUDIO_MODE_NORMAL, devices := AUDIO_DEVICE_OUT_SPEAKER OR AUDIO_DEVICE_IN_BUILTIN_MIC\<rparr>))"

section \<open>Echo references\<close>

text \<open>A call through a reference.\<close>

definition use_echo :: "nat \<Rightarrow> ('k, 'r, 'p) audio_device \<Rightarrow> ('k, 'r, 'p) audio_device option" where
  "use_echo r s = (if r \<in> set (live s) then Some s else None)"

definition add_echo_reference :: "nat \<Rightarrow> nat option \<Rightarrow> ('k, 'r, 'p) audio_device \<Rightarrow> ('k, 'r, 'p) audio_device option" where
  "add_echo_reference o1 r s = do { out \<leftarrow> outs s o1; Some (s\<lparr>outs := (outs s)(o1 \<mapsto> out\<lparr>out_echo := r\<rparr>)\<rparr>) }"

definition remove_echo_reference :: "nat \<Rightarrow> nat \<Rightarrow> ('k, 'r, 'p) audio_device \<Rightarrow> ('k, 'r, 'p) audio_device option" where
  "remove_echo_reference o1 r s = do {
     out \<leftarrow> outs s o1;
     if out_echo out = Some r then do {
       s \<leftarrow> use_echo r s;
       Some (s\<lparr>outs := (outs s)(o1 \<mapsto> out\<lparr>out_echo := None\<rparr>)\<rparr>) }
     else Some s }"

definition release_echo_reference :: "nat \<Rightarrow> ('k, 'r, 'p) audio_device \<Rightarrow> ('k, 'r, 'p) audio_device option" where
  "release_echo_reference r s = (if r \<in> set (live s) then Some (s\<lparr>live := removeAll r (live s)\<rparr>) else None)"

definition put_echo_reference :: "nat option \<Rightarrow> ('k, 'r, 'p) audio_device \<Rightarrow> ('k, 'r, 'p) audio_device option" where
  "put_echo_reference reference s = (case dev_echo s of
     None \<Rightarrow> Some s
   | Some r \<Rightarrow> if reference = Some r then do {
         s \<leftarrow> (case active_output s of Some o1 \<Rightarrow> remove_echo_reference o1 r s | None \<Rightarrow> Some s);
         s \<leftarrow> release_echo_reference r s;
         Some (s\<lparr>dev_echo := None\<rparr>) }
       else Some s)"

text \<open>\<open>created\<close> is the reference that the effects library makes, or that it cannot.\<close>

definition get_echo_reference :: "nat option \<Rightarrow> ('k, 'r, 'p) audio_device \<Rightarrow> (nat option \<times> ('k, 'r, 'p) audio_device) option" where
  "get_echo_reference created s = do {
     s \<leftarrow> put_echo_reference (dev_echo s) s;
     s \<leftarrow> (case active_output s of
         None \<Rightarrow> Some s
       | Some o1 \<Rightarrow> (case created of
           None \<Rightarrow> Some s
         | Some r \<Rightarrow> add_echo_reference o1 (Some r) (s\<lparr>dev_echo := Some r, live := r # live s\<rparr>)));
     Some (dev_echo s, s) }"

section \<open>Output streams\<close>

definition do_output_standby :: "nat \<Rightarrow> ('k, 'r, 'p) audio_device \<Rightarrow> ('k, 'r, 'p) audio_device option" where
  "do_output_standby o1 s = do {
     out \<leftarrow> outs s o1;
     if out_standby out then Some s
     else do {
       s \<leftarrow> (case out_pcm out of Open p \<Rightarrow> Some s | _ \<Rightarrow> None);
       let s = s\<lparr>active_output := None\<rparr>;
       s \<leftarrow> (case out_echo out of Some r \<Rightarrow> use_echo r s | None \<Rightarrow> Some s);
       Some (s\<lparr>outs := (outs s)(o1 \<mapsto> out\<lparr>out_pcm := No_pcm, out_echo := None, out_standby := True\<rparr>)\<rparr>) } }"

definition out_port :: "32 word \<Rightarrow> port \<times> nat" where
  "out_port d =
    (let p = (PORT_MM, MM_CODEC_SAMPLING_RATE);
       p = (if d AND AUDIO_DEVICE_OUT_AUX_DIGITAL \<noteq> 0 then (PORT_SPDIF, MM_SPDIF_SAMPLING_RATE) else p) in
     if d AND AUDIO_DEVICE_OUT_ALL_SCO \<noteq> 0 then (PORT_VOICE, MM_VOICE_SAMPLING_RATE) else p)"

text \<open>What an output meets outside: whether the PCM opens, the answers of \<open>pcm_get_htimestamp\<close> one after the other,
  the resampler (how many frames it took, and what it made of them), and the result of the write.\<close>

record out_env =
  out_ready :: bool
  stamps :: "(nat \<times> int \<times> int) option list"
  pcm_get_buffer_size :: nat
  resample_from_input :: "frame list \<Rightarrow> nat \<Rightarrow> nat \<times> frame list"
  pcm_mmap_write :: "frame list \<Rightarrow> int"

text \<open>A stream that cannot be opened keeps the pointer to the PCM that was closed.\<close>

definition start_output_stream :: "bool \<Rightarrow> nat \<Rightarrow> ('k, 'r, 'p) audio_device \<Rightarrow> (int \<times> ('k, 'r, 'p) audio_device) option" where
  "start_output_stream ready o1 s = do {
     out \<leftarrow> outs s o1;
     let s = s\<lparr>active_output := Some o1\<rparr>;
     let (port, rt) = out_port (devices s);
     let out = out\<lparr>out_config := (out_config out)\<lparr>rate := rt\<rparr>, write_threshold := PLAYBACK_PERIOD_COUNT * PERIOD_SIZE,
       start_threshold := PERIOD_SIZE * 2, out_pcm := Open port\<rparr>;
     if \<not> ready then
       Some (- ENOMEM, s\<lparr>active_output := None, outs := (outs s)(o1 \<mapsto> out\<lparr>out_pcm := Closed\<rparr>)\<rparr>)
     else
       let out = (if dev_echo s \<noteq> None then out\<lparr>out_echo := dev_echo s\<rparr> else out) in
       Some (0, s\<lparr>outs := (outs s)(o1 \<mapsto> out)\<rparr>) }"

text \<open>The time until the last of \<open>frames\<close> is heard, in nanoseconds (\<open>long\<close>), and the time stamp.\<close>

definition get_playback_delay :: "out_env \<Rightarrow> nat \<Rightarrow> int \<times> int \<times> int" where
  "get_playback_delay env frames = (case stamps env of
     Some (avail, ts) # _ \<Rightarrow>
       (int32 (uint32 (int (pcm_get_buffer_size env) - int avail + int frames) * 1000000000 div int MM_CODEC_SAMPLING_RATE), ts)
   | _ \<Rightarrow> (0, 0, 0))"

text \<open>The loop of \<open>out_write\<close> that waits until the driver has room, with the times it sleeps; without an answer it
  would go on.\<close>

fun throttle :: "nat \<Rightarrow> nat \<Rightarrow> (nat \<times> int \<times> int) option list \<Rightarrow> int list option" where
  "throttle buffer_size threshold [] = None"
| "throttle buffer_size threshold (None # xs) = Some []"
| "throttle buffer_size threshold (Some (avail, ts) # xs) =
    (let kernel_frames = int32 (int buffer_size - int avail) in
     if kernel_frames > int threshold then
       let time = (kernel_frames - int threshold) * 1000000 div int MM_CODEC_SAMPLING_RATE;
           time = (if time < MIN_WRITE_SLEEP_US then MIN_WRITE_SLEEP_US else time) in
       map_option (Cons time) (throttle buffer_size threshold xs)
     else Some [])"

text \<open>How long a stream that failed sleeps: \<open>size_t\<close> arithmetic.\<close>

definition failed_sleep :: "nat \<Rightarrow> nat \<Rightarrow> nat \<Rightarrow> nat" where
  "failed_sleep bytes frame_size rt = (bytes * 1000000) mod 2 ^ 32 div frame_size div rt"

text \<open>The frames of the client's buffer; the result is what went to the driver, and how long the call slept.\<close>

definition out_write ::
  "out_env \<Rightarrow> nat \<Rightarrow> frame list \<Rightarrow> ('k, 'r, 'p) audio_device \<Rightarrow> (frame list option \<times> int list \<times> ('k, 'r, 'p) audio_device) option" where
  "out_write env o1 buffer s = do {
     out \<leftarrow> outs s o1;
     let slept = [int (failed_sleep (4 * length buffer) 4 ANDROID_SAMPLING_RATE)];
     (ret, s) \<leftarrow> (if out_standby out then do {
         (ret, s) \<leftarrow> start_output_stream (out_ready env) o1 s;
         out \<leftarrow> outs s o1;
         Some (ret, if ret = 0 then s\<lparr>outs := (outs s)(o1 \<mapsto> out\<lparr>out_standby := False\<rparr>)\<rparr> else s) }
       else Some (0, s));
     if ret \<noteq> 0 then Some (None, slept, s)
     else do {
       out \<leftarrow> outs s o1;
       buf \<leftarrow> (if rate (out_config out) \<noteq> ANDROID_SAMPLING_RATE then
           let (n, fs) = resample_from_input env buffer RESAMPLER_BUFFER_FRAMES in
           if length fs \<le> RESAMPLER_BUFFER_FRAMES then Some fs else None
         else Some buffer);
       (case out_pcm out of Open p \<Rightarrow> Some s | _ \<Rightarrow> None);
       (xs, s) \<leftarrow> (case out_echo out of Some r \<Rightarrow> do { s \<leftarrow> use_echo r s; Some (tl (stamps env), s) } | None \<Rightarrow> Some (stamps env, s));
       waits \<leftarrow> throttle (pcm_get_buffer_size env) (write_threshold out) xs;
       Some (Some buf, waits @ (if pcm_mmap_write env buf \<noteq> 0 then slept else []), s) } }"

definition out_get_buffer_size :: "stream_out \<Rightarrow> nat" where
  "out_get_buffer_size out =
    (let size = (PERIOD_SIZE * ANDROID_SAMPLING_RATE) div rate (out_config out); size = ((size + 15) div 16) * 16 in size * 4)"

definition out_get_latency :: "stream_out \<Rightarrow> nat" where
  "out_get_latency out = (PERIOD_SIZE * PLAYBACK_PERIOD_COUNT * 1000) div rate (out_config out)"

definition bit_switch :: "32 word \<Rightarrow> 32 word \<Rightarrow> int" where
  "bit_switch v d = (if v AND d \<noteq> 0 then 1 else 0)"

text \<open>\<open>routing\<close> is the number after \<open>routing=\<close>, if there is one.\<close>

definition out_set_parameters :: "nat \<Rightarrow> 32 word option \<Rightarrow> ('k, 'r, 'p) audio_device \<Rightarrow> ('k, 'r, 'p) audio_device option" where
  "out_set_parameters o1 routing s = (case routing of
     None \<Rightarrow> Some s
   | Some v \<Rightarrow>
       if devices s AND AUDIO_DEVICE_OUT_ALL \<noteq> v \<and> v \<noteq> 0 then do {
         s \<leftarrow> (if active_output s = Some o1 \<and> (v AND AUDIO_DEVICE_OUT_AUX_DIGITAL) XOR (devices s AND AUDIO_DEVICE_OUT_AUX_DIGITAL) \<noteq> 0
              then do_output_standby o1 s else Some s);
         let s = mixer_ctl_set_value Speaker_switch 0 (bit_switch v AUDIO_DEVICE_OUT_SPEAKER) s;
         let s = mixer_ctl_set_value Headset_switch 0 (bit_switch v AUDIO_DEVICE_OUT_WIRED_HEADPHONE) s;
         Some (s\<lparr>devices := (devices s AND NOT AUDIO_DEVICE_OUT_ALL) OR v\<rparr>) }
       else Some s)"

definition out_set_volume :: "(rat \<Rightarrow> rat) \<Rightarrow> rat \<Rightarrow> rat \<Rightarrow> ('k, 'r, 'p) audio_device \<Rightarrow> ('k, 'r, 'p) audio_device" where
  "out_set_volume fl left right s =
    (let s = mixer_ctl_set_value Speaker_volume 0 (perc_to_volume fl left) s;
         s = mixer_ctl_set_value Speaker_volume 1 (perc_to_volume fl right) s;
         s = mixer_ctl_set_value Headset_volume 0 (perc_to_volume fl left) s
     in mixer_ctl_set_value Headset_volume 1 (perc_to_volume fl right) s)"

section \<open>Input streams\<close>

text \<open>The input devices are those of the stream (or none), but for a call.\<close>

definition route_input :: "32 word \<Rightarrow> ('k, 'r, 'p) audio_device \<Rightarrow> ('k, 'r, 'p) audio_device" where
  "route_input d s = (if mode s \<noteq> AUDIO_MODE_IN_CALL then s\<lparr>devices := (devices s AND NOT AUDIO_DEVICE_IN_ALL) OR d\<rparr> else s)"

lemma route_input_simps [simp]:
  "mode (route_input d s) = mode s" "in_call (route_input d s) = in_call s" "active_input (route_input d s) = active_input s"
  "active_output (route_input d s) = active_output s" "dev_echo (route_input d s) = dev_echo s" "live (route_input d s) = live s"
  "outs (route_input d s) = outs s" "ins (route_input d s) = ins s" "mic_mute (route_input d s) = mic_mute s"
  by (simp_all add: route_input_def)

definition do_input_standby :: "nat \<Rightarrow> ('k, 'r, 'p) audio_device \<Rightarrow> ('k, 'r, 'p) audio_device option" where
  "do_input_standby i s = do {
     inp \<leftarrow> ins s i;
     if in_standby inp then Some s
     else do {
       s \<leftarrow> (case in_pcm inp of Open k \<Rightarrow> Some s | _ \<Rightarrow> None);
       let s = s\<lparr>active_input := None\<rparr>;
       let s = route_input 0 s;
       s \<leftarrow> (case in_echo inp of
           Some r \<Rightarrow> do { s \<leftarrow> use_echo r s; put_echo_reference (Some r) s }
         | None \<Rightarrow> Some s);
       Some (s\<lparr>ins := (ins s)(i \<mapsto> inp\<lparr>in_pcm := No_pcm, in_echo := None, in_standby := True\<rparr>)\<rparr>) } }"

definition input_reference ::
  "nat option \<Rightarrow> ('k, 'r, 'p) stream_in \<Rightarrow> ('k, 'r, 'p) audio_device \<Rightarrow> (nat option \<times> ('k, 'r, 'p) audio_device) option" where
  "input_reference created inp s =
    (if need_echo_reference inp \<and> in_echo inp = None then get_echo_reference created s else Some (in_echo inp, s))"

text \<open>\<open>pcm\<close> is the device that \<open>pcm_open\<close> gives, if it is ready.  A resampler is reset, and the frames that wait are given
  up (and taken out of the history).\<close>

definition start_input_stream ::
  "'k option \<Rightarrow> nat option \<Rightarrow> nat \<Rightarrow> ('k, 'r, 'p) audio_device \<Rightarrow> (int \<times> ('k, 'r, 'p) audio_device) option" where
  "start_input_stream pcm created i s = do {
     inp \<leftarrow> ins s i;
     let s = s\<lparr>active_input := Some i\<rparr>;
     let s = route_input (in_device inp) s;
     (e, s) \<leftarrow> input_reference created inp s;
     let inp = inp\<lparr>in_echo := e\<rparr>;
     case pcm of
       None \<Rightarrow> Some (- ENOMEM, s\<lparr>active_input := None, ins := (ins s)(i \<mapsto> inp\<lparr>in_pcm := Closed\<rparr>)\<rparr>)
     | Some k \<Rightarrow>
         let inp = inp\<lparr>in_pcm := Open k\<rparr>;
             inp = (if in_resampler inp \<noteq> None then inp\<lparr>frames_in := 0, captured := passed inp\<rparr> else inp) in
         Some (0, s\<lparr>ins := (ins s)(i \<mapsto> inp)\<rparr>) }"

text \<open>The result is the status, the buffer of the client, and how long the call slept.\<close>

definition in_read ::
  "('k, 'r, 'p) capture_env \<Rightarrow> 'k option \<Rightarrow> nat option \<Rightarrow> nat \<Rightarrow> frame list \<Rightarrow> ('k, 'r, 'p) audio_device \<Rightarrow>
    (int \<times> frame list \<times> nat list \<times> ('k, 'r, 'p) audio_device) option" where
  "in_read env pcm created i dst s = do {
     inp \<leftarrow> ins s i;
     (ret, s) \<leftarrow> (if in_standby inp then do {
         (ret, s) \<leftarrow> start_input_stream pcm created i s;
         inp \<leftarrow> ins s i;
         Some (ret, if ret = 0 then s\<lparr>ins := (ins s)(i \<mapsto> inp\<lparr>in_standby := False\<rparr>)\<rparr> else s) }
       else Some (0, s));
     inp \<leftarrow> ins s i;
     (ret, dst, s) \<leftarrow> (if ret < 0 then Some (ret, dst, s)
       else do {
         s \<leftarrow> (case in_echo inp of Some r \<Rightarrow> if num_preprocessors inp \<noteq> 0 then use_echo r s else Some s | None \<Rightarrow> Some s);
         (ret, dst, inp) \<leftarrow> read_into env (mic_mute s) dst inp;
         Some (ret, dst, s\<lparr>ins := (ins s)(i \<mapsto> inp)\<rparr>) });
     let size = 2 * channels (in_config inp);
     Some (ret, dst, if ret < 0 then [failed_sleep (size * length dst) size (unat (requested_rate inp))] else [], s) }"

text \<open>\<open>src\<close> and \<open>routing\<close> are the numbers after \<open>input_source=\<close> and \<open>routing=\<close>.\<close>

definition in_set_parameters :: "nat \<Rightarrow> int option \<Rightarrow> 32 word option \<Rightarrow> ('k, 'r, 'p) audio_device \<Rightarrow> ('k, 'r, 'p) audio_device option" where
  "in_set_parameters i src routing s = do {
     inp \<leftarrow> ins s i;
     let (inp, b1) = (case src of Some v \<Rightarrow> if source inp \<noteq> v \<and> v \<noteq> 0 then (inp\<lparr>source := v\<rparr>, True) else (inp, False) | None \<Rightarrow> (inp, False));
     let (inp, b2) = (case routing of Some v \<Rightarrow> if in_device inp \<noteq> v \<and> v \<noteq> 0 then (inp\<lparr>in_device := v\<rparr>, True) else (inp, False) | None \<Rightarrow> (inp, False));
     let s = s\<lparr>ins := (ins s)(i \<mapsto> inp)\<rparr>;
     if b1 \<or> b2 then do_input_standby i s else Some s }"

text \<open>\<open>desc\<close> is what \<open>get_descriptor\<close> says: an error, or whether the effect is an echo canceller.\<close>

definition in_add_audio_effect ::
  "nat \<Rightarrow> nat \<Rightarrow> int + bool \<Rightarrow> ('k, 'r, 'p) audio_device \<Rightarrow> (int \<times> ('k, 'r, 'p) audio_device) option" where
  "in_add_audio_effect i effect desc s = do {
     inp \<leftarrow> ins s i;
     if MAX_PREPROCESSORS \<le> num_preprocessors inp then Some (- ENOSYS, s)
     else (case desc of
         Inl status \<Rightarrow> Some (status, s)
       | Inr aec \<Rightarrow> do {
           let inp = inp\<lparr>preprocessors := (preprocessors inp)[num_preprocessors inp := Some effect], num_preprocessors := num_preprocessors inp + 1\<rparr>;
           s \<leftarrow> (if aec then do_input_standby i (s\<lparr>ins := (ins s)(i \<mapsto> inp\<lparr>need_echo_reference := True\<rparr>)\<rparr>)
                else Some (s\<lparr>ins := (ins s)(i \<mapsto> inp)\<rparr>));
           Some (0, s) }) }"

definition remove_step :: "nat \<Rightarrow> nat \<Rightarrow> nat option list \<times> bool \<Rightarrow> nat option list \<times> bool" where
  "remove_step effect j = (\<lambda>(pre, found).
     if found then (pre[j - 1 := pre ! j], True)
     else if pre ! j = Some effect then (pre[j := None], True)
     else (pre, False))"

definition in_remove_audio_effect ::
  "nat \<Rightarrow> nat \<Rightarrow> int + bool \<Rightarrow> ('k, 'r, 'p) audio_device \<Rightarrow> (int \<times> ('k, 'r, 'p) audio_device) option" where
  "in_remove_audio_effect i effect desc s = do {
     inp \<leftarrow> ins s i;
     if num_preprocessors inp = 0 then Some (- ENOSYS, s)
     else do {
       let (pre, found) = fold (remove_step effect) [0 ..< num_preprocessors inp] (preprocessors inp, False);
       if \<not> found then Some (- EINVAL, s\<lparr>ins := (ins s)(i \<mapsto> inp\<lparr>preprocessors := pre\<rparr>)\<rparr>)
       else do {
         let inp = inp\<lparr>preprocessors := pre, num_preprocessors := num_preprocessors inp - 1\<rparr>;
         case desc of
           Inl status \<Rightarrow> Some (status, s\<lparr>ins := (ins s)(i \<mapsto> inp)\<rparr>)
         | Inr True \<Rightarrow> do { s \<leftarrow> do_input_standby i (s\<lparr>ins := (ins s)(i \<mapsto> inp\<lparr>need_echo_reference := False\<rparr>)\<rparr>); Some (0, s) }
         | Inr False \<Rightarrow> Some (0, s\<lparr>ins := (ins s)(i \<mapsto> inp)\<rparr>) } } }"

text \<open>The source sets each channel twice.\<close>

definition in_set_gain :: "(rat \<Rightarrow> rat) \<Rightarrow> rat \<Rightarrow> ('k, 'r, 'p) audio_device \<Rightarrow> ('k, 'r, 'p) audio_device" where
  "in_set_gain fl gain s = fold (\<lambda>channel s. mixer_ctl_set_value Mic_volume channel (perc_to_volume fl gain)
     (mixer_ctl_set_value Mic_volume channel (perc_to_volume fl gain) s)) [0 ..< 2] s"

section \<open>The device\<close>

definition force_all_standby :: "('k, 'r, 'p) audio_device \<Rightarrow> ('k, 'r, 'p) audio_device option" where
  "force_all_standby s = do {
     s \<leftarrow> (case active_output s of Some o1 \<Rightarrow> do_output_standby o1 s | None \<Rightarrow> Some s);
     case active_input s of Some i \<Rightarrow> do_input_standby i s | None \<Rightarrow> Some s }"

definition select_mode :: "('k, 'r, 'p) audio_device \<Rightarrow> ('k, 'r, 'p) audio_device option" where
  "select_mode s =
    (if mode s = AUDIO_MODE_IN_CALL then
       if \<not> in_call s then do { s \<leftarrow> force_all_standby s; Some (s\<lparr>in_call := True\<rparr>) } else Some s
     else if in_call s then force_all_standby (s\<lparr>in_call := False\<rparr>) else Some s)"

definition adev_set_mode :: "int \<Rightarrow> ('k, 'r, 'p) audio_device \<Rightarrow> ('k, 'r, 'p) audio_device option" where
  "adev_set_mode m s = (if mode s \<noteq> m then select_mode (s\<lparr>mode := m\<rparr>) else Some s)"

definition adev_set_mic_mute :: "bool \<Rightarrow> ('k, 'r, 'p) audio_device \<Rightarrow> ('k, 'r, 'p) audio_device" where
  "adev_set_mic_mute state s = mixer_ctl_set_value Mic_switch 0 (if state then 0 else 1) (s\<lparr>mic_mute := state\<rparr>)"

definition adev_set_master_volume :: "(rat \<Rightarrow> rat) \<Rightarrow> rat \<Rightarrow> ('k, 'r, 'p) audio_device \<Rightarrow> int \<times> ('k, 'r, 'p) audio_device" where
  "adev_set_master_volume fl v s =
    (- ENOSYS, mixer_ctl_set_value Pcm_volume 1 (perc_to_volume fl v) (mixer_ctl_set_value Pcm_volume 0 (perc_to_volume fl v) s))"

text \<open>\<open>created\<close> is the status of \<open>create_resampler\<close>; the stream is given the name \<open>o1\<close>.\<close>

definition adev_open_output_stream :: "nat \<Rightarrow> int \<Rightarrow> ('k, 'r, 'p) audio_device \<Rightarrow> int \<times> ('k, 'r, 'p) audio_device" where
  "adev_open_output_stream o1 created s =
    (if created \<noteq> 0 then (created, s)
     else (0, s\<lparr>outs := (outs s)(o1 \<mapsto> \<lparr>out_config = pcm_config_mm_out, start_threshold = 0, out_pcm = No_pcm, out_standby = True,
       out_echo = None, write_threshold = 0\<rparr>)\<rparr>))"

definition adev_close_output_stream :: "nat \<Rightarrow> ('k, 'r, 'p) audio_device \<Rightarrow> ('k, 'r, 'p) audio_device option" where
  "adev_close_output_stream o1 s = do { s \<leftarrow> do_output_standby o1 s; Some (s\<lparr>outs := (outs s)(o1 := None)\<rparr>) }"

definition popcount :: "32 word \<Rightarrow> nat" where
  "popcount channel_mask = length (filter (bit channel_mask) [0 ..< 32])"

text \<open>\<open>created\<close> is the resampler that \<open>create_resampler\<close> makes, if it can; memory was there.\<close>

definition adev_open_input_stream ::
  "nat \<Rightarrow> 32 word \<Rightarrow> int \<Rightarrow> 32 word \<Rightarrow> 32 word \<Rightarrow> 'r option \<Rightarrow> 'p \<Rightarrow> ('k, 'r, 'p) audio_device \<Rightarrow> int \<times> ('k, 'r, 'p) audio_device" where
  "adev_open_input_stream i device format channel_mask sample_rate created lib s =
    (let channel_count = popcount channel_mask;
         config = pcm_config_mm_in\<lparr>channels := channel_count\<rparr>;
         resampled = sample_rate \<noteq> of_nat (rate config) in
     if check_input_parameters sample_rate format (int channel_count) \<noteq> 0 then (- EINVAL, s)
     else if resampled \<and> created = None then (- EINVAL, s)
     else (0, s\<lparr>ins := (ins s)(i \<mapsto>
       \<lparr>in_config = config, in_pcm = No_pcm, in_device = device, in_resampler = (if resampled then created else None),
        in_buffer = replicate (period_size config) [], frames_in = 0, requested_rate = sample_rate, in_standby = True, source = 0,
        in_echo = None, need_echo_reference = False, preprocessors = replicate MAX_PREPROCESSORS None, num_preprocessors = 0,
        proc_buf = [], proc_frames_in = 0, ref_buf = [], ref_frames_in = 0, read_status = 0, library = lib,
        captured = [], passed = [], given = [], eaten = [], made = []\<rparr>)\<rparr>))"

definition adev_close_input_stream :: "nat \<Rightarrow> ('k, 'r, 'p) audio_device \<Rightarrow> ('k, 'r, 'p) audio_device option" where
  "adev_close_input_stream i s = do { s \<leftarrow> do_input_standby i s; Some (s\<lparr>ins := (ins s)(i := None)\<rparr>) }"

section \<open>The operations of the client\<close>

datatype ('k, 'r, 'p) client_op =
    Open_output nat int
  | Close_output nat
  | Write nat out_env "frame list"
  | Output_standby nat
  | Output_parameters nat "32 word option"
  | Output_volume "rat \<Rightarrow> rat" rat rat
  | Open_input nat "32 word" int "32 word" "32 word" "'r option" 'p
  | Close_input nat
  | Read nat "('k, 'r, 'p) capture_env" "'k option" "nat option" "frame list"
  | Input_standby nat
  | Input_parameters nat "int option" "32 word option"
  | Add_effect nat nat "int + bool"
  | Remove_effect nat nat "int + bool"
  | Input_gain "rat \<Rightarrow> rat" rat
  | Set_mode int
  | Mic_mute bool
  | Master_volume "rat \<Rightarrow> rat" rat

fun audio_op :: "('k, 'r, 'p) client_op \<Rightarrow> ('k, 'r, 'p) audio_device \<Rightarrow> ('k, 'r, 'p) audio_device option" where
  "audio_op (Open_output o1 st) s = Some (snd (adev_open_output_stream o1 st s))"
| "audio_op (Close_output o1) s = adev_close_output_stream o1 s"
| "audio_op (Write o1 env buffer) s = map_option (snd \<circ> snd) (out_write env o1 buffer s)"
| "audio_op (Output_standby o1) s = do_output_standby o1 s"
| "audio_op (Output_parameters o1 routing) s = out_set_parameters o1 routing s"
| "audio_op (Output_volume fl left right) s = Some (out_set_volume fl left right s)"
| "audio_op (Open_input i device format channel_mask sample_rate created lib) s = Some (snd (adev_open_input_stream i device format channel_mask sample_rate created lib s))"
| "audio_op (Close_input i) s = adev_close_input_stream i s"
| "audio_op (Read i env pcm created dst) s = map_option (snd \<circ> snd \<circ> snd) (in_read env pcm created i dst s)"
| "audio_op (Input_standby i) s = do_input_standby i s"
| "audio_op (Input_parameters i src routing) s = in_set_parameters i src routing s"
| "audio_op (Add_effect i effect desc) s = map_option snd (in_add_audio_effect i effect desc s)"
| "audio_op (Remove_effect i effect desc) s = map_option snd (in_remove_audio_effect i effect desc s)"
| "audio_op (Input_gain fl gain) s = Some (in_set_gain fl gain s)"
| "audio_op (Set_mode m) s = adev_set_mode m s"
| "audio_op (Mic_mute state) s = Some (adev_set_mic_mute state s)"
| "audio_op (Master_volume fl v) s = Some (snd (adev_set_master_volume fl v s))"

text \<open>What the client (AudioFlinger) and the libraries keep to: streams are used while they are open, at most one
  of each direction is open at a time, the driver makes room or fails, and the libraries keep the bounds of their interfaces.\<close>

definition makes_room :: "out_env \<Rightarrow> bool" where
  "makes_room env \<longleftrightarrow> (\<forall>xs \<in> {stamps env, tl (stamps env)}. throttle (pcm_get_buffer_size env) (PLAYBACK_PERIOD_COUNT * PERIOD_SIZE) xs \<noteq> None)
     \<and> (\<forall>buffer n. length (snd (resample_from_input env buffer n)) \<le> n)"

fun allowed :: "('k, 'r, 'p) client_op \<Rightarrow> ('k, 'r, 'p) audio_device \<Rightarrow> bool" where
  "allowed (Open_output o1 st) s = (\<forall>x. outs s x = None)"
| "allowed (Close_output o1) s = (outs s o1 \<noteq> None)"
| "allowed (Write o1 env buffer) s = (outs s o1 \<noteq> None \<and> makes_room env)"
| "allowed (Output_standby o1) s = (outs s o1 \<noteq> None)"
| "allowed (Output_parameters o1 routing) s = (outs s o1 \<noteq> None)"
| "allowed (Open_input i device format channel_mask sample_rate created lib) s = (\<forall>x. ins s x = None)"
| "allowed (Close_input i) s = (ins s i \<noteq> None)"
| "allowed (Read i env pcm created dst) s = (ins s i \<noteq> None \<and> (\<exists>load. env_ok env load))"
| "allowed (Input_standby i) s = (ins s i \<noteq> None)"
| "allowed (Input_parameters i src routing) s = (ins s i \<noteq> None)"
| "allowed (Add_effect i effect desc) s = (ins s i \<noteq> None)"
| "allowed (Remove_effect i effect desc) s = (ins s i \<noteq> None)"
| "allowed op s = True"

inductive audio_reachable :: "('k, 'r, 'p) audio_device \<Rightarrow> bool" where
  opened: "adev_open m = Inr s \<Longrightarrow> audio_reachable s"
| step: "audio_reachable s \<Longrightarrow> allowed op s \<Longrightarrow> audio_op op s = Some s' \<Longrightarrow> audio_reachable s'"

section \<open>The invariant\<close>

text \<open>An output is out of standby exactly if it is the active one; then its PCM is open and it feeds the echo
  reference of the device.\<close>

definition unique :: "(nat \<Rightarrow> 'a option) \<Rightarrow> bool" where
  "unique f \<longleftrightarrow> (\<forall>a b. f a \<noteq> None \<longrightarrow> f b \<noteq> None \<longrightarrow> a = b)"

definition out_ok :: "('k, 'r, 'p) audio_device \<Rightarrow> nat \<Rightarrow> stream_out \<Rightarrow> bool" where
  "out_ok s a out \<longleftrightarrow> (out_standby out \<longleftrightarrow> active_output s \<noteq> Some a) \<and> out_echo out = (if out_standby out then None else dev_echo s)
     \<and> (\<not> out_standby out \<longrightarrow> (\<exists>p. out_pcm out = Open p) \<and> write_threshold out = PLAYBACK_PERIOD_COUNT * PERIOD_SIZE)"

definition outs_ok :: "('k, 'r, 'p) audio_device \<Rightarrow> bool" where
  "outs_ok s \<longleftrightarrow> (\<forall>a out. outs s a = Some out \<longrightarrow> out_ok s a out)
     \<and> (\<forall>a. active_output s = Some a \<longrightarrow> outs s a \<noteq> None) \<and> unique (outs s)"

definition in_ok :: "('k, 'r, 'p) audio_device \<Rightarrow> nat \<Rightarrow> ('k, 'r, 'p) stream_in \<Rightarrow> bool" where
  "in_ok s a inp \<longleftrightarrow> stream_ok inp \<and> (in_standby inp \<longleftrightarrow> active_input s \<noteq> Some a) \<and> (\<not> in_standby inp \<longrightarrow> is_open inp)
     \<and> (in_echo inp = None \<or> in_echo inp = dev_echo s)"

definition ins_ok :: "('k, 'r, 'p) audio_device \<Rightarrow> bool" where
  "ins_ok s \<longleftrightarrow> (\<forall>a inp. ins s a = Some inp \<longrightarrow> in_ok s a inp)
     \<and> (\<forall>a. active_input s = Some a \<longrightarrow> ins s a \<noteq> None) \<and> unique (ins s)"

definition refs_ok :: "('k, 'r, 'p) audio_device \<Rightarrow> bool" where
  "refs_ok s \<longleftrightarrow> live s = (case dev_echo s of None \<Rightarrow> [] | Some r \<Rightarrow> [r])"

definition base_ok :: "('k, 'r, 'p) audio_device \<Rightarrow> bool" where
  "base_ok s \<longleftrightarrow> outs_ok s \<and> ins_ok s \<and> refs_ok s"

definition mode_ok :: "('k, 'r, 'p) audio_device \<Rightarrow> bool" where
  "mode_ok s \<longleftrightarrow> (in_call s \<longleftrightarrow> mode s = AUDIO_MODE_IN_CALL)"

definition modes :: "('k, 'r, 'p) audio_device \<Rightarrow> _" where
  "modes s = (mode s, in_call s, mic_mute s)"

lemma unique_simps [simp]:
  "f a \<noteq> None \<Longrightarrow> unique (f(a \<mapsto> y)) = unique f" "unique (\<lambda>x. map_option g (f x)) = unique f"
  "unique f \<Longrightarrow> unique (f(a := None))" "unique (\<lambda>x. None)" "unique [a \<mapsto> y]"
  unfolding unique_def by (auto split: if_splits)

lemma outs_okD:
  assumes "outs_ok s" "outs s a = Some out"
  shows "out_ok s a out" "active_output s \<noteq> Some a \<Longrightarrow> active_output s = None" "b \<noteq> a \<Longrightarrow> outs s b = None"
  using assms unfolding outs_ok_def unique_def by (blast, metis option.collapse option.distinct(1), metis option.distinct(1))

lemma ins_okD:
  assumes "ins_ok s" "ins s a = Some inp"
  shows "in_ok s a inp" "active_input s \<noteq> Some a \<Longrightarrow> active_input s = None" "b \<noteq> a \<Longrightarrow> ins s b = None"
  using assms unfolding ins_ok_def unique_def by (blast, metis option.collapse option.distinct(1), metis option.distinct(1))

text \<open>A stream is changed, and the other side stays.\<close>

lemma outs_okI:
  assumes "outs_ok s" "outs s a = Some out" "out_ok t a out'" "outs t = (outs s)(a \<mapsto> out')" "active_output t \<in> {None, Some a}"
  shows "outs_ok t"
proof -
  have "outs s b = None" if "b \<noteq> a" for b by (rule outs_okD(3)[OF assms(1,2) that])
  then show ?thesis using assms by (auto simp: outs_ok_def split: if_splits)
qed

lemma ins_okI:
  assumes "ins_ok s" "ins s a = Some inp" "in_ok t a inp'" "ins t = (ins s)(a \<mapsto> inp')" "active_input t \<in> {None, Some a}"
  shows "ins_ok t"
proof -
  have "ins s b = None" if "b \<noteq> a" for b by (rule ins_okD(3)[OF assms(1,2) that])
  then show ?thesis using assms by (auto simp: ins_ok_def split: if_splits)
qed

lemma mode_ok_cong: "modes s' = modes s \<Longrightarrow> mode_ok s' = mode_ok s"
  by (simp add: modes_def mode_ok_def)

text \<open>The parts that the predicates do not look at.\<close>

lemma ok_simps [simp]:
  "outs_ok (s\<lparr>devices := d\<rparr>) = outs_ok s" "ins_ok (s\<lparr>devices := d\<rparr>) = ins_ok s" "refs_ok (s\<lparr>devices := d\<rparr>) = refs_ok s"
  "outs_ok (s\<lparr>mixer := m\<rparr>) = outs_ok s" "ins_ok (s\<lparr>mixer := m\<rparr>) = ins_ok s" "refs_ok (s\<lparr>mixer := m\<rparr>) = refs_ok s"
  "outs_ok (s\<lparr>mixer_enum := e\<rparr>) = outs_ok s" "ins_ok (s\<lparr>mixer_enum := e\<rparr>) = ins_ok s" "refs_ok (s\<lparr>mixer_enum := e\<rparr>) = refs_ok s"
  "outs_ok (s\<lparr>mode := x\<rparr>) = outs_ok s" "ins_ok (s\<lparr>mode := x\<rparr>) = ins_ok s" "refs_ok (s\<lparr>mode := x\<rparr>) = refs_ok s"
  "outs_ok (s\<lparr>in_call := c\<rparr>) = outs_ok s" "ins_ok (s\<lparr>in_call := c\<rparr>) = ins_ok s" "refs_ok (s\<lparr>in_call := c\<rparr>) = refs_ok s"
  "outs_ok (s\<lparr>mic_mute := b\<rparr>) = outs_ok s" "ins_ok (s\<lparr>mic_mute := b\<rparr>) = ins_ok s" "refs_ok (s\<lparr>mic_mute := b\<rparr>) = refs_ok s"
  "outs_ok (s\<lparr>ins := f\<rparr>) = outs_ok s" "refs_ok (s\<lparr>ins := f\<rparr>) = refs_ok s" "outs_ok (s\<lparr>active_input := a\<rparr>) = outs_ok s"
  "refs_ok (s\<lparr>active_input := a\<rparr>) = refs_ok s" "ins_ok (s\<lparr>outs := g\<rparr>) = ins_ok s" "refs_ok (s\<lparr>outs := g\<rparr>) = refs_ok s"
  "ins_ok (s\<lparr>active_output := a\<rparr>) = ins_ok s" "refs_ok (s\<lparr>active_output := a\<rparr>) = refs_ok s"
  by (simp_all add: outs_ok_def out_ok_def ins_ok_def in_ok_def refs_ok_def)

lemma base_ok_simps [simp]:
  "base_ok (s\<lparr>devices := d\<rparr>) = base_ok s" "base_ok (s\<lparr>mixer := m\<rparr>) = base_ok s" "base_ok (s\<lparr>mixer_enum := e\<rparr>) = base_ok s"
  "base_ok (s\<lparr>mode := x\<rparr>) = base_ok s" "base_ok (s\<lparr>in_call := c\<rparr>) = base_ok s" "base_ok (s\<lparr>mic_mute := b\<rparr>) = base_ok s"
  "mode_ok (s\<lparr>mic_mute := b\<rparr>) = mode_ok s"
  by (simp_all add: base_ok_def mode_ok_def)

lemma mixer_ok [simp]: "base_ok (mixer_ctl_set_value ctl j v s) = base_ok s" "modes (mixer_ctl_set_value ctl j v s) = modes s"
  "mode_ok (mixer_ctl_set_value ctl j v s) = mode_ok s" "base_ok (mixer_ctl_set_enum_by_string ctl w s) = base_ok s"
  by (simp_all add: mixer_ctl_set_value_def mixer_ctl_set_enum_by_string_def modes_def mode_ok_def)

section \<open>References\<close>

definition drop_echo :: "('k, 'r, 'p) audio_device \<Rightarrow> ('k, 'r, 'p) audio_device" where
  "drop_echo s = s\<lparr>dev_echo := None, live := [], outs := (\<lambda>a. map_option (\<lambda>out. out\<lparr>out_echo := None\<rparr>) (outs s a))\<rparr>"

lemma out_echo_None: "out_echo out = None \<Longrightarrow> out\<lparr>out_echo := None\<rparr> = out"
  by (cases out) simp

lemma put_echo_drops:
  assumes "outs_ok s" "refs_ok s"
  shows "put_echo_reference (dev_echo s) s = Some (drop_echo s)"
proof (cases "dev_echo s")
  case None
  have "map_option (\<lambda>out. out\<lparr>out_echo := None\<rparr>) (outs s a) = outs s a" for a
    using assms(1) None by (cases "outs s a") (auto simp: outs_ok_def out_ok_def intro!: out_echo_None)
  then show ?thesis using None assms(2) by (simp add: put_echo_reference_def drop_echo_def refs_ok_def)
next
  case (Some r)
  have live: "live s = [r]" using Some assms(2) by (simp add: refs_ok_def)
  show ?thesis
  proof (cases "active_output s")
    case None
    then have "map_option (\<lambda>out. out\<lparr>out_echo := None\<rparr>) (outs s a) = outs s a" for a
      using assms(1) by (cases "outs s a") (auto simp: outs_ok_def out_ok_def intro!: out_echo_None)
    then show ?thesis using None Some live
      by (simp add: put_echo_reference_def release_echo_reference_def drop_echo_def)
  next
    case (Some a)
    then obtain out where out: "outs s a = Some out" "\<not> out_standby out" "out_echo out = Some r"
      using assms(1) \<open>dev_echo s = Some r\<close> by (auto simp: outs_ok_def out_ok_def split: if_splits)
    have "outs s b = None" if "b \<noteq> a" for b by (rule outs_okD(3)[OF assms(1) out(1) that])
    then have "(outs s)(a \<mapsto> out\<lparr>out_echo := None\<rparr>) = (\<lambda>b. map_option (\<lambda>out. out\<lparr>out_echo := None\<rparr>) (outs s b))"
      using out(1) by (auto simp: fun_eq_iff)
    then show ?thesis using Some live out \<open>dev_echo s = Some r\<close>
      by (simp add: put_echo_reference_def remove_echo_reference_def use_echo_def release_echo_reference_def drop_echo_def)
  qed
qed

lemma drop_echo_ok:
  "outs_ok s \<Longrightarrow> outs_ok (drop_echo s)" "refs_ok (drop_echo s)" "dev_echo (drop_echo s) = None" "ins (drop_echo s) = ins s"
  "active_input (drop_echo s) = active_input s" "active_output (drop_echo s) = active_output s" "modes (drop_echo s) = modes s"
  by (auto simp: outs_ok_def out_ok_def refs_ok_def drop_echo_def modes_def)

lemma get_echo_ok:
  assumes "outs_ok s" "refs_ok s"
  obtains s' where "get_echo_reference created s = Some (dev_echo s', s')" "outs_ok s'" "refs_ok s'" "ins s' = ins s"
    "active_input s' = active_input s" "modes s' = modes s" "devices s' = devices s"
proof -
  let ?s = "drop_echo s"
  note d = drop_echo_ok(1)[OF assms(1)] drop_echo_ok(2-)[of s]
  have dev: "devices ?s = devices s" by (simp add: drop_echo_def)
  show ?thesis
  proof (cases "active_output s = None \<or> created = None")
    case True
    then have "get_echo_reference created s = Some (dev_echo ?s, ?s)"
      using put_echo_drops[OF assms] d(6) by (auto simp: get_echo_reference_def split: option.splits)
    then show ?thesis by (rule that) (use d dev in auto)
  next
    case False
    then obtain a r where a: "active_output s = Some a" "created = Some r" by auto
    then obtain out where out: "outs ?s a = Some out" "\<not> out_standby out"
      using d(1,6) by (auto simp: outs_ok_def out_ok_def)
    let ?t = "?s\<lparr>dev_echo := Some r, live := r # live ?s, outs := (outs ?s)(a \<mapsto> out\<lparr>out_echo := Some r\<rparr>)\<rparr>"
    have "get_echo_reference created s = Some (dev_echo ?t, ?t)"
      using put_echo_drops[OF assms] d(6) a out by (simp add: get_echo_reference_def add_echo_reference_def)
    moreover have "outs_ok ?t"
      by (rule outs_okI[OF d(1) out(1)]) (use outs_okD(1)[OF d(1) out(1)] out(2) a d(6) in \<open>simp_all add: out_ok_def\<close>)
    moreover have "refs_ok ?t" using d(2,3) by (simp add: refs_ok_def)
    ultimately show ?thesis by (rule that) (use d dev in \<open>auto simp: modes_def\<close>)
  qed
qed

section \<open>Every operation keeps the invariant\<close>

lemma base_okI: "outs_ok s \<Longrightarrow> ins_ok s \<Longrightarrow> refs_ok s \<Longrightarrow> base_ok s"
  by (simp add: base_ok_def)

lemma base_okD: "base_ok s \<Longrightarrow> outs_ok s" "base_ok s \<Longrightarrow> ins_ok s" "base_ok s \<Longrightarrow> refs_ok s"
  by (simp_all add: base_ok_def)

lemma use_echo_ok: "refs_ok s \<Longrightarrow> dev_echo s = Some r \<Longrightarrow> use_echo r s = Some s"
  by (simp add: refs_ok_def use_echo_def)

lemma output_standby_ok:
  assumes ok: "base_ok s" and out: "outs s a = Some out"
  obtains s' out' where "do_output_standby a s = Some s'" "base_ok s'" "modes s' = modes s" "ins s' = ins s" "active_input s' = active_input s"
    "active_output s' = None" "outs s' a = Some out'" "devices s' = devices s"
proof (cases "out_standby out")
  case True
  note o = outs_okD[OF base_okD(1)[OF ok] out]
  have "active_output s = None" using o(1,2) True by (simp add: out_ok_def)
  then show ?thesis by (intro that[of s out]) (use True out ok in \<open>simp_all add: do_output_standby_def\<close>)
next
  case False
  note o = outs_okD(1)[OF base_okD(1)[OF ok] out]
  obtain p where p: "out_pcm out = Open p" using o False by (auto simp: out_ok_def)
  have e: "out_echo out = dev_echo s" using o False by (simp add: out_ok_def)
  let ?out = "out\<lparr>out_pcm := No_pcm, out_echo := None, out_standby := True\<rparr>"
  let ?s = "s\<lparr>active_output := None, outs := (outs s)(a \<mapsto> ?out)\<rparr>"
  have "(case out_echo out of Some r \<Rightarrow> use_echo r (s\<lparr>active_output := None\<rparr>) | None \<Rightarrow> Some (s\<lparr>active_output := None\<rparr>)) = Some (s\<lparr>active_output := None\<rparr>)"
    using e base_okD(3)[OF ok] by (cases "dev_echo s") (simp_all add: use_echo_ok)
  then have "do_output_standby a s = Some ?s"
    using False out p by (simp add: do_output_standby_def)
  moreover have "outs_ok ?s"
    by (rule outs_okI[OF base_okD(1)[OF ok] out]) (simp_all add: out_ok_def)
  ultimately show ?thesis
    by (intro that[of ?s ?out]) (use base_okD[OF ok] in \<open>simp_all add: base_ok_def modes_def\<close>)
qed

lemma start_output_ok:
  assumes ok: "base_ok s" and out: "outs s a = Some out" "out_standby out"
  obtains ret s' out' where "start_output_stream ready a s = Some (ret, s')" "outs s' a = Some out'" "modes s' = modes s" "ins s' = ins s"
    "active_input s' = active_input s" "ret = 0 \<Longrightarrow> base_ok (s'\<lparr>outs := (outs s')(a \<mapsto> out'\<lparr>out_standby := False\<rparr>)\<rparr>)" "ret \<noteq> 0 \<Longrightarrow> base_ok s'"
proof -
  obtain pt rt where port: "out_port (devices s) = (pt, rt)" by (cases "out_port (devices s)")
  note o = outs_okD(1)[OF base_okD(1)[OF ok] out(1)]
  have e: "out_echo out = None" using o out(2) by (simp add: out_ok_def)
  let ?o = "out\<lparr>out_config := (out_config out)\<lparr>rate := rt\<rparr>, write_threshold := PLAYBACK_PERIOD_COUNT * PERIOD_SIZE,
       start_threshold := PERIOD_SIZE * 2, out_pcm := Open pt\<rparr>"
  show ?thesis
  proof (cases ready)
    case False
    let ?s = "s\<lparr>active_output := None, outs := (outs s)(a \<mapsto> ?o\<lparr>out_pcm := Closed\<rparr>)\<rparr>"
    have "outs_ok ?s"
      by (rule outs_okI[OF base_okD(1)[OF ok] out(1)]) (use out(2) e in \<open>simp_all add: out_ok_def\<close>)
    then have "base_ok ?s" using base_okD[OF ok] by (simp add: base_ok_def)
    then show ?thesis
      by (intro that[of "- ENOMEM" ?s "?o\<lparr>out_pcm := Closed\<rparr>"])
        (use False out port in \<open>simp_all add: start_output_stream_def modes_def ENOMEM_def\<close>)
  next
    case True
    let ?out = "if dev_echo s \<noteq> None then ?o\<lparr>out_echo := dev_echo s\<rparr> else ?o"
    let ?s = "s\<lparr>active_output := Some a, outs := (outs s)(a \<mapsto> ?out)\<rparr>"
    let ?t = "?s\<lparr>outs := (outs ?s)(a \<mapsto> ?out\<lparr>out_standby := False\<rparr>)\<rparr>"
    have "outs_ok ?t"
      by (rule outs_okI[OF base_okD(1)[OF ok] out(1), of _ "?out\<lparr>out_standby := False\<rparr>"]) (use e in \<open>simp_all add: out_ok_def\<close>)
    then have "base_ok ?t" using base_okD[OF ok] by (simp add: base_ok_def)
    then show ?thesis
      by (intro that[of 0 ?s ?out]) (use True out port in \<open>simp_all add: start_output_stream_def modes_def\<close>)
  qed
qed

lemma makes_roomD:
  assumes "makes_room env"
  shows "\<exists>ws. throttle (pcm_get_buffer_size env) (PLAYBACK_PERIOD_COUNT * PERIOD_SIZE) (stamps env) = Some ws"
    "\<exists>ws. throttle (pcm_get_buffer_size env) (PLAYBACK_PERIOD_COUNT * PERIOD_SIZE) (tl (stamps env)) = Some ws"
    "length (snd (resample_from_input env buffer n)) \<le> n"
  using assms by (auto simp: makes_room_def)

lemma write_on_ok:
  assumes env: "makes_room env" and ok: "base_ok s" and out: "outs s a = Some out" "\<not> out_standby out"
  shows "\<exists>fs ws. out_write env a buffer s = Some (Some fs, ws, s)"
proof -
  note o = outs_okD(1)[OF base_okD(1)[OF ok] out(1)]
  obtain p where p: "out_pcm out = Open p" and t: "write_threshold out = PLAYBACK_PERIOD_COUNT * PERIOD_SIZE"
    and e: "out_echo out = dev_echo s"
    using o out(2) by (auto simp: out_ok_def)
  have u: "use_echo r s = Some s" if "dev_echo s = Some r" for r using use_echo_ok[OF base_okD(3)[OF ok] that] .
  show ?thesis
    using out p t e makes_roomD(1,2)[OF env] makes_roomD(3)[OF env, of buffer RESAMPLER_BUFFER_FRAMES]
    by (cases "dev_echo s") (auto simp: out_write_def u split: prod.splits)
qed

lemma out_write_ok:
  assumes env: "makes_room env" and ok: "base_ok s" and out: "outs s a = Some out"
  obtains r s' where "out_write env a buffer s = Some (fst r, snd r, s')" "base_ok s'" "modes s' = modes s"
proof (cases "out_standby out")
  case False
  then show ?thesis using write_on_ok[OF env ok out False, of buffer] ok that by fastforce
next
  case True
  obtain ret s1 out1 where st: "start_output_stream (out_ready env) a s = Some (ret, s1)" "outs s1 a = Some out1" "modes s1 = modes s"
    and b: "ret = 0 \<Longrightarrow> base_ok (s1\<lparr>outs := (outs s1)(a \<mapsto> out1\<lparr>out_standby := False\<rparr>)\<rparr>)" "ret \<noteq> 0 \<Longrightarrow> base_ok s1"
    by (rule start_output_ok[OF ok out True, of "out_ready env"]) blast
  show ?thesis
  proof (cases "ret = 0")
    case False
    then have "out_write env a buffer s = Some (None, [int (failed_sleep (4 * length buffer) 4 ANDROID_SAMPLING_RATE)], s1)"
      using True out st by (simp add: out_write_def)
    then show ?thesis using that[of "(None, [int (failed_sleep (4 * length buffer) 4 ANDROID_SAMPLING_RATE)])" s1] b(2) False st(3) by simp
  next
    case zero: True
    let ?s = "s1\<lparr>outs := (outs s1)(a \<mapsto> out1\<lparr>out_standby := False\<rparr>)\<rparr>"
    have "out_write env a buffer s = out_write env a buffer ?s"
      using True out st zero by (simp add: out_write_def)
    moreover obtain fs ws where "out_write env a buffer ?s = Some (Some fs, ws, ?s)"
      using write_on_ok[OF env b(1)[OF zero], of a "out1\<lparr>out_standby := False\<rparr>" buffer] by auto
    ultimately show ?thesis using that[of "(Some fs, ws)" ?s] b(1)[OF zero] st(3) by (simp add: modes_def)
  qed
qed

lemma stream_ok_pcm [simp]:
  "stream_ok (inp\<lparr>in_pcm := x\<rparr>) = stream_ok inp" "stream_ok (inp\<lparr>in_echo := e\<rparr>) = stream_ok inp" "stream_ok (inp\<lparr>in_standby := b\<rparr>) = stream_ok inp"
  "stream_ok (inp\<lparr>source := v\<rparr>) = stream_ok inp" "stream_ok (inp\<lparr>in_device := d\<rparr>) = stream_ok inp" "stream_ok (inp\<lparr>need_echo_reference := b\<rparr>) = stream_ok inp"
  by (simp_all add: stream_ok_def handles_def)

lemma input_standby_ok:
  assumes ok: "base_ok s" and inp: "ins s a = Some inp"
  obtains s' inp' where "do_input_standby a s = Some s'" "base_ok s'" "modes s' = modes s" "active_input s' = None"
    "active_output s' = active_output s" "ins s' a = Some inp'" "in_standby inp'"
proof (cases "in_standby inp")
  case True
  note i = ins_okD[OF base_okD(2)[OF ok] inp]
  have "active_input s = None" using i(1,2) True by (simp add: in_ok_def)
  then show ?thesis by (intro that[of s inp]) (use True inp ok in \<open>simp_all add: do_input_standby_def\<close>)
next
  case False
  note i = ins_okD(1)[OF base_okD(2)[OF ok] inp]
  obtain k where k: "in_pcm inp = Open k" using i False by (auto simp: in_ok_def is_open_def split: pcm.splits)
  let ?inp = "inp\<lparr>in_pcm := No_pcm, in_echo := None, in_standby := True\<rparr>"
  define s0 where "s0 = route_input 0 (s\<lparr>active_input := None\<rparr>)"
  have s0: "outs_ok s0" "refs_ok s0" "dev_echo s0 = dev_echo s" "ins s0 = ins s" "modes s0 = modes s" "active_input s0 = None" "active_output s0 = active_output s"
    using base_okD[OF ok] by (simp_all add: s0_def route_input_def modes_def)
  define s1 where "s1 = (if in_echo inp = None then s0 else drop_echo s0)"
  have s1: "outs_ok s1" "refs_ok s1" "ins s1 = ins s" "modes s1 = modes s" "active_input s1 = None" "active_output s1 = active_output s"
    using s0 drop_echo_ok[of s0] by (simp_all add: s1_def)
  have "(case in_echo inp of Some r \<Rightarrow> do { s \<leftarrow> use_echo r s0; put_echo_reference (Some r) s } | None \<Rightarrow> Some s0) = Some s1"
  proof (cases "in_echo inp")
    case (Some r)
    then have "dev_echo s0 = Some r" using i s0(3) by (simp add: in_ok_def)
    then show ?thesis using Some use_echo_ok[OF s0(2)] put_echo_drops[OF s0(1,2)] by (simp add: s1_def)
  qed (simp add: s1_def)
  note this[unfolded s0_def]
  then have "do_input_standby a s = Some (s1\<lparr>ins := (ins s1)(a \<mapsto> ?inp)\<rparr>)"
    using False inp k by (simp add: do_input_standby_def Let_def)
  moreover have "ins_ok (s1\<lparr>ins := (ins s1)(a \<mapsto> ?inp)\<rparr>)"
    by (rule ins_okI[OF base_okD(2)[OF ok] inp]) (use i s1 in \<open>simp_all add: in_ok_def\<close>)
  ultimately show ?thesis
    by (intro that[of "s1\<lparr>ins := (ins s1)(a \<mapsto> ?inp)\<rparr>" ?inp]) (use s1 in \<open>simp_all add: base_ok_def modes_def\<close>)
qed

lemma start_input_ok:
  assumes ok: "base_ok s" and inp: "ins s a = Some inp" "in_standby inp"
  obtains ret s' inp' where "start_input_stream pcm created a s = Some (ret, s')" "ins s' a = Some inp'" "modes s' = modes s"
    "ret \<le> 0" "ret = 0 \<Longrightarrow> base_ok (s'\<lparr>ins := (ins s')(a \<mapsto> inp'\<lparr>in_standby := False\<rparr>)\<rparr>)" "ret \<noteq> 0 \<Longrightarrow> base_ok s'"
proof -
  note i = ins_okD(1)[OF base_okD(2)[OF ok] inp(1)]
  have one: "unique (ins s)" using base_okD(2)[OF ok] by (simp add: ins_ok_def)
  define s0 where "s0 = route_input (in_device inp) (s\<lparr>active_input := Some a\<rparr>)"
  have s0: "outs_ok s0" "refs_ok s0" "dev_echo s0 = dev_echo s" "ins s0 = ins s" "modes s0 = modes s" "active_input s0 = Some a"
    using base_okD[OF ok] by (simp_all add: s0_def route_input_def modes_def)
  have "\<exists>e s1. input_reference created inp s0 = Some (e, s1)
      \<and> outs_ok s1 \<and> refs_ok s1 \<and> ins s1 = ins s \<and> modes s1 = modes s \<and> active_input s1 = Some a \<and> (e = None \<or> e = dev_echo s1)"
  proof (cases "need_echo_reference inp \<and> in_echo inp = None")
    case True
    show ?thesis by (rule get_echo_ok[OF s0(1,2), of created]) (use True s0 in \<open>auto simp: input_reference_def\<close>)
  next
    case False
    then show ?thesis using s0 i by (auto simp: in_ok_def input_reference_def)
  qed
  then obtain e s1 where g: "input_reference created inp s0 = Some (e, s1)"
    and s1: "outs_ok s1" "refs_ok s1" "ins s1 = ins s" "modes s1 = modes s" "active_input s1 = Some a" "e = None \<or> e = dev_echo s1"
    by blast
  have st: "stream_ok inp" using i by (simp add: in_ok_def)
  show ?thesis
  proof (cases pcm)
    case None
    let ?inp = "inp\<lparr>in_echo := e, in_pcm := Closed\<rparr>"
    let ?t = "s1\<lparr>active_input := None, ins := (ins s1)(a \<mapsto> ?inp)\<rparr>"
    have "ins_ok ?t" by (rule ins_okI[OF base_okD(2)[OF ok] inp(1)]) (use s1 st inp(2) in \<open>auto simp: in_ok_def\<close>)
    then have "base_ok ?t" using s1 by (simp add: base_ok_def)
    moreover have "start_input_stream pcm created a s = Some (- ENOMEM, ?t)"
      using None inp(1) g by (simp add: start_input_stream_def Let_def flip: s0_def)
    ultimately show ?thesis by (intro that[of "- ENOMEM" ?t ?inp]) (use s1 in \<open>simp_all add: modes_def ENOMEM_def\<close>)
  next
    case (Some k)
    let ?i = "inp\<lparr>in_echo := e, in_pcm := Open k\<rparr>"
    let ?inp = "if in_resampler ?i \<noteq> None then ?i\<lparr>frames_in := 0, captured := passed ?i\<rparr> else ?i"
    let ?s = "s1\<lparr>ins := (ins s1)(a \<mapsto> ?inp)\<rparr>"
    let ?t = "?s\<lparr>ins := (ins ?s)(a \<mapsto> ?inp\<lparr>in_standby := False\<rparr>)\<rparr>"
    have "stream_ok (?inp\<lparr>in_standby := False\<rparr>)" "is_open (?inp\<lparr>in_standby := False\<rparr>)" using st
      by (simp_all add: stream_ok_def handles_def is_open_def)
    then have "ins_ok ?t" by (intro ins_okI[OF base_okD(2)[OF ok] inp(1), of _ "?inp\<lparr>in_standby := False\<rparr>"]) (use s1 in \<open>auto simp: in_ok_def\<close>)
    then have "base_ok ?t" using s1 by (simp add: base_ok_def)
    moreover have "start_input_stream pcm created a s = Some (0, ?s)"
      using Some inp(1) g by (simp add: start_input_stream_def Let_def flip: s0_def)
    ultimately show ?thesis by (intro that[of 0 ?s ?inp]) (use s1 in \<open>simp_all add: modes_def\<close>)
  qed
qed

lemma read_on_ok:
  assumes env: "env_ok env load" and ok: "base_ok s" and inp: "ins s a = Some inp" "\<not> in_standby inp"
  shows "\<exists>ret dst' ws s'. in_read env pcm created a dst s = Some (ret, dst', ws, s') \<and> base_ok s' \<and> modes s' = modes s"
proof -
  note i = ins_okD(1)[OF base_okD(2)[OF ok] inp(1)]
  have st: "stream_ok inp" "is_open inp" and e: "in_echo inp = None \<or> in_echo inp = dev_echo s" and act: "active_input s = Some a"
    using i inp(2) by (simp_all add: in_ok_def)
  obtain ret frames dst' inp' where r: "read_into env (mic_mute s) dst inp = Some (ret, dst', inp')" "stream_ok inp'" "is_open inp'"
    "settings inp' = settings inp"
    using read_into_ok[OF env st, of "mic_mute s" dst] by blast
  let ?s = "s\<lparr>ins := (ins s)(a \<mapsto> inp')\<rparr>"
  have f: "in_standby inp' = in_standby inp" "in_echo inp' = in_echo inp" using r(4) by (simp_all add: settings_def)
  have "ins_ok ?s"
    by (rule ins_okI[OF base_okD(2)[OF ok] inp(1)]) (use r f inp(2) e act in \<open>simp_all add: in_ok_def\<close>)
  then have "base_ok ?s" using base_okD[OF ok] by (simp add: base_ok_def)
  moreover have "(case in_echo inp of Some r \<Rightarrow> if num_preprocessors inp \<noteq> 0 then use_echo r s else Some s | None \<Rightarrow> Some s) = Some s"
    using e use_echo_ok[OF base_okD(3)[OF ok]] by (auto split: option.splits)
  ultimately show ?thesis
    using inp r(1) by (auto simp: in_read_def modes_def Let_def)
qed

lemma in_read_ok:
  assumes env: "env_ok env load" and ok: "base_ok s" and inp: "ins s a = Some inp"
  shows "\<exists>ret dst' ws s'. in_read env pcm created a dst s = Some (ret, dst', ws, s') \<and> base_ok s' \<and> modes s' = modes s"
proof (cases "in_standby inp")
  case False
  then show ?thesis using read_on_ok[OF env ok inp False] by blast
next
  case True
  obtain ret s1 inp1 where st: "start_input_stream pcm created a s = Some (ret, s1)" "ins s1 a = Some inp1" "modes s1 = modes s" "ret \<le> 0"
    and b: "ret = 0 \<Longrightarrow> base_ok (s1\<lparr>ins := (ins s1)(a \<mapsto> inp1\<lparr>in_standby := False\<rparr>)\<rparr>)" "ret \<noteq> 0 \<Longrightarrow> base_ok s1"
    by (rule start_input_ok[OF ok inp True, of pcm created]) blast
  show ?thesis
  proof (cases "ret = 0")
    case False
    then show ?thesis using True inp st b(2) by (simp add: in_read_def Let_def)
  next
    case zero: True
    let ?s = "s1\<lparr>ins := (ins s1)(a \<mapsto> inp1\<lparr>in_standby := False\<rparr>)\<rparr>"
    have "in_read env pcm created a dst s = in_read env pcm created a dst ?s"
      using True inp st zero by (simp add: in_read_def Let_def)
    moreover have "modes ?s = modes s" using st(3) by (simp add: modes_def)
    ultimately show ?thesis
      using read_on_ok[OF env b(1)[OF zero], of a "inp1\<lparr>in_standby := False\<rparr>" pcm created dst] by auto
  qed
qed

text \<open>A change of a stream that is in standby, or of one whose echo reference stays.\<close>

lemma set_input_ok:
  assumes ok: "base_ok s" and inp: "ins s a = Some inp" and "stream_ok inp'" "in_standby inp' = in_standby inp" "in_pcm inp' = in_pcm inp" "in_echo inp' = in_echo inp"
  shows "base_ok (s\<lparr>ins := (ins s)(a \<mapsto> inp')\<rparr>)"
proof -
  note i = ins_okD[OF base_okD(2)[OF ok] inp]
  have "ins_ok (s\<lparr>ins := (ins s)(a \<mapsto> inp')\<rparr>)"
    by (rule ins_okI[OF base_okD(2)[OF ok] inp]) (use assms i in \<open>auto simp: in_ok_def is_open_def\<close>)
  then show ?thesis using base_okD[OF ok] by (simp add: base_ok_def)
qed

lemma those_append: "those xs = Some ys \<Longrightarrow> those (xs @ [Some y]) = Some (ys @ [y])"
  by (induction xs arbitrary: ys) (auto split: option.splits)

lemma added_effect:
  assumes "stream_ok inp" "num_preprocessors inp < MAX_PREPROCESSORS"
  shows "stream_ok (inp\<lparr>preprocessors := (preprocessors inp)[num_preprocessors inp := Some effect], num_preprocessors := Suc (num_preprocessors inp)\<rparr>)"
proof -
  let ?n = "num_preprocessors inp"
  obtain es where es: "those (take ?n (preprocessors inp)) = Some es" and len: "?n < length (preprocessors inp)"
    using assms by (auto simp: stream_ok_def handles_def)
  have "take (Suc ?n) ((preprocessors inp)[?n := Some effect]) = take ?n (preprocessors inp) @ [Some effect]"
    using len by (simp add: take_Suc_conv_app_nth)
  then show ?thesis using assms those_append[OF es, of effect] by (simp add: stream_ok_def handles_def)
qed

text \<open>The loop that removes an effect leaves the others, in their order.\<close>

lemma remove_loop:
  assumes "length pre = MAX_PREPROCESSORS" "n \<le> MAX_PREPROCESSORS" "those (take n pre) = Some es"
    and "fold (remove_step effect) [0 ..< n] (pre, False) = (pre', found)"
  shows "length pre' = MAX_PREPROCESSORS \<and> found = (effect \<in> set es) \<and> (found \<longrightarrow> those (take (n - 1) pre') = Some (remove1 effect es))
    \<and> (\<not> found \<longrightarrow> pre' = pre)"
proof -
  obtain x y z where pre: "pre = [x, y, z]"
    using assms(1) by (auto simp: MAX_PREPROCESSORS_def numeral_3_eq_3 length_Suc_conv)
  have "n = 0 \<or> n = 1 \<or> n = 2 \<or> n = 3" using assms(2) by (auto simp: MAX_PREPROCESSORS_def)
  then show ?thesis
    using assms(3,4) unfolding pre
    by (elim disjE) (auto simp: remove_step_def MAX_PREPROCESSORS_def numeral_2_eq_2 numeral_3_eq_3 split: option.splits if_splits)
qed

lemma add_effect_ok:
  assumes ok: "base_ok s" and inp: "ins s a = Some inp"
  shows "\<exists>st s'. in_add_audio_effect a effect desc s = Some (st, s') \<and> base_ok s' \<and> modes s' = modes s"
proof (cases "MAX_PREPROCESSORS \<le> num_preprocessors inp")
  case True
  then show ?thesis using ok inp by (simp add: in_add_audio_effect_def)
next
  case False
  have st: "stream_ok inp" using ins_okD(1)[OF base_okD(2)[OF ok] inp] by (simp add: in_ok_def)
  let ?inp = "inp\<lparr>preprocessors := (preprocessors inp)[num_preprocessors inp := Some effect], num_preprocessors := Suc (num_preprocessors inp)\<rparr>"
  have st': "stream_ok ?inp" using added_effect[OF st] False by simp
  let ?s = "s\<lparr>ins := (ins s)(a \<mapsto> ?inp)\<rparr>" and ?t = "s\<lparr>ins := (ins s)(a \<mapsto> ?inp\<lparr>need_echo_reference := True\<rparr>)\<rparr>"
  have s: "base_ok ?s" by (rule set_input_ok[OF ok inp]) (use st' in simp_all)
  have t: "base_ok ?t" by (rule set_input_ok[OF ok inp]) (use st' in simp_all)
  obtain s' where "do_input_standby a ?t = Some s'" "base_ok s'" "modes s' = modes ?t"
    by (rule input_standby_ok[OF t, of a "?inp\<lparr>need_echo_reference := True\<rparr>"]) auto
  then show ?thesis
    using False inp s ok by (cases desc) (auto simp: in_add_audio_effect_def modes_def Let_def)
qed

lemma remove_effect_ok:
  assumes ok: "base_ok s" and inp: "ins s a = Some inp"
  shows "\<exists>st s'. in_remove_audio_effect a effect desc s = Some (st, s') \<and> base_ok s' \<and> modes s' = modes s"
proof (cases "num_preprocessors inp = 0")
  case True
  then show ?thesis using ok inp by (simp add: in_remove_audio_effect_def)
next
  case False
  have st: "stream_ok inp" using ins_okD(1)[OF base_okD(2)[OF ok] inp] by (simp add: in_ok_def)
  obtain pre found where f: "fold (remove_step effect) [0 ..< num_preprocessors inp] (preprocessors inp, False) = (pre, found)"
    by (cases "fold (remove_step effect) [0 ..< num_preprocessors inp] (preprocessors inp, False)")
  obtain es where es: "those (take (num_preprocessors inp) (preprocessors inp)) = Some es"
    using st by (auto simp: stream_ok_def handles_def)
  have r: "length pre = MAX_PREPROCESSORS" "found \<Longrightarrow> those (take (num_preprocessors inp - 1) pre) = Some (remove1 effect es)" "\<not> found \<Longrightarrow> pre = preprocessors inp"
    using remove_loop[OF _ _ es f] st by (simp_all add: stream_ok_def)
  show ?thesis
  proof (cases found)
    case F: False
    have "base_ok (s\<lparr>ins := (ins s)(a \<mapsto> inp\<lparr>preprocessors := pre\<rparr>)\<rparr>)"
      by (rule set_input_ok[OF ok inp]) (use st r(3)[OF F] in simp_all)
    then show ?thesis using False F inp f by (simp add: in_remove_audio_effect_def modes_def)
  next
    case True
    let ?inp = "inp\<lparr>preprocessors := pre, num_preprocessors := num_preprocessors inp - 1\<rparr>"
    have "num_preprocessors inp \<le> MAX_PREPROCESSORS" using st by (simp add: stream_ok_def)
    then have "num_preprocessors inp - 1 \<le> MAX_PREPROCESSORS" by linarith
    then have st': "stream_ok ?inp" using st r(1,2) True by (simp add: stream_ok_def handles_def)
    let ?s = "s\<lparr>ins := (ins s)(a \<mapsto> ?inp)\<rparr>" and ?t = "s\<lparr>ins := (ins s)(a \<mapsto> ?inp\<lparr>need_echo_reference := False\<rparr>)\<rparr>"
    have s: "base_ok ?s" by (rule set_input_ok[OF ok inp]) (use st' in simp_all)
    have t: "base_ok ?t" by (rule set_input_ok[OF ok inp]) (use st' in simp_all)
    obtain s' where "do_input_standby a ?t = Some s'" "base_ok s'" "modes s' = modes ?t"
      by (rule input_standby_ok[OF t, of a "?inp\<lparr>need_echo_reference := False\<rparr>"]) auto
    then show ?thesis
      using False True inp f s by (auto simp: in_remove_audio_effect_def modes_def Let_def split: sum.splits bool.splits)
  qed
qed

lemma in_parameters_ok:
  assumes ok: "base_ok s" and inp: "ins s a = Some inp"
  shows "\<exists>s'. in_set_parameters a src routing s = Some s' \<and> base_ok s' \<and> modes s' = modes s"
proof -
  have st: "stream_ok inp" using ins_okD(1)[OF base_okD(2)[OF ok] inp] by (simp add: in_ok_def)
  define v where "v = (case src of Some v \<Rightarrow> if source inp \<noteq> v \<and> v \<noteq> 0 then v else source inp | None \<Rightarrow> source inp)"
  define d where "d = (case routing of Some v \<Rightarrow> if in_device inp \<noteq> v \<and> v \<noteq> 0 then v else in_device inp | None \<Rightarrow> in_device inp)"
  let ?inp = "inp\<lparr>source := v, in_device := d\<rparr>"
  let ?s = "s\<lparr>ins := (ins s)(a \<mapsto> ?inp)\<rparr>"
  have s: "base_ok ?s" by (rule set_input_ok[OF ok inp]) (use st in simp_all)
  obtain s' where t: "do_input_standby a ?s = Some s'" "base_ok s'" "modes s' = modes ?s"
    by (rule input_standby_ok[OF s, of a ?inp]) auto
  have "inp\<lparr>source := source inp\<rparr> = inp" "inp\<lparr>in_device := in_device inp\<rparr> = inp" by simp_all
  then have "in_set_parameters a src routing s = Some ?s \<or> in_set_parameters a src routing s = do_input_standby a ?s"
    using inp by (auto simp: in_set_parameters_def v_def d_def split: option.splits)
  then show ?thesis using s t by (auto simp: modes_def)
qed

lemma out_parameters_ok:
  assumes ok: "base_ok s" and out: "outs s a = Some out"
  shows "\<exists>s'. out_set_parameters a routing s = Some s' \<and> base_ok s' \<and> modes s' = modes s"
proof -
  obtain s' where t: "do_output_standby a s = Some s'" "base_ok s'" "modes s' = modes s"
    by (rule output_standby_ok[OF ok out]) auto
  have d: "modes (x\<lparr>devices := v\<rparr>) = modes x" for x :: "('a, 'b, 'c) audio_device" and v by (simp add: modes_def)
  show ?thesis using ok t by (auto simp: out_set_parameters_def Let_def d split: option.splits)
qed

lemma force_standby_ok:
  assumes ok: "base_ok s"
  obtains s' where "force_all_standby s = Some s'" "base_ok s'" "modes s' = modes s" "active_output s' = None" "active_input s' = None"
proof -
  have "\<exists>s1. (case active_output s of Some o1 \<Rightarrow> do_output_standby o1 s | None \<Rightarrow> Some s) = Some s1
      \<and> base_ok s1 \<and> modes s1 = modes s \<and> active_output s1 = None"
  proof (cases "active_output s")
    case (Some a)
    then obtain out where out: "outs s a = Some out" using base_okD(1)[OF ok] by (auto simp: outs_ok_def)
    show ?thesis by (rule output_standby_ok[OF ok out]) (use Some in auto)
  qed (use ok in simp)
  then obtain s1 where f: "(case active_output s of Some o1 \<Rightarrow> do_output_standby o1 s | None \<Rightarrow> Some s) = Some s1"
    and s1: "base_ok s1" "modes s1 = modes s" "active_output s1 = None" by blast
  show ?thesis
  proof (cases "active_input s1")
    case None
    then show ?thesis using that[of s1] f s1 by (simp add: force_all_standby_def)
  next
    case (Some i)
    then obtain inp where inp: "ins s1 i = Some inp" using base_okD(2)[OF s1(1)] by (auto simp: ins_ok_def)
    obtain s2 where s2: "do_input_standby i s1 = Some s2" "base_ok s2" "modes s2 = modes s1" "active_input s2 = None" "active_output s2 = active_output s1"
      by (rule input_standby_ok[OF s1(1) inp])
    then show ?thesis using that[of s2] f s1 Some by (simp add: force_all_standby_def)
  qed
qed

lemma select_mode_ok:
  assumes ok: "base_ok s" "mode_ok s" and m: "m \<noteq> mode s"
  shows "\<exists>s'. select_mode (s\<lparr>mode := m\<rparr>) = Some s' \<and> base_ok s' \<and> mode_ok s'
    \<and> (in_call s' \<noteq> in_call s \<longrightarrow> active_output s' = None \<and> active_input s' = None)"
proof -
  let ?s = "s\<lparr>mode := m\<rparr>"
  have call: "in_call s \<longleftrightarrow> mode s = AUDIO_MODE_IN_CALL" using ok(2) by (simp add: mode_ok_def)
  have s: "base_ok ?s" "base_ok (?s\<lparr>in_call := False\<rparr>)" using ok(1) by simp_all
  obtain s1 where s1: "force_all_standby ?s = Some s1" "base_ok s1" "modes s1 = modes ?s" "active_output s1 = None" "active_input s1 = None"
    by (rule force_standby_ok[OF s(1)])
  obtain s2 where s2: "force_all_standby (?s\<lparr>in_call := False\<rparr>) = Some s2" "base_ok s2" "modes s2 = modes (?s\<lparr>in_call := False\<rparr>)"
      "active_output s2 = None" "active_input s2 = None"
    by (rule force_standby_ok[OF s(2)])
  show ?thesis using s s1 s2 call m by (auto simp: select_mode_def mode_ok_def modes_def)
qed

lemma set_mode_ok:
  assumes "base_ok s" "mode_ok s"
  shows "\<exists>s'. adev_set_mode m s = Some s' \<and> base_ok s' \<and> mode_ok s'"
  using assms select_mode_ok[OF assms, of m] by (auto simp: adev_set_mode_def)

lemma open_output_ok:
  assumes ok: "base_ok s" and none: "\<forall>x. outs s x = None"
  shows "base_ok (snd (adev_open_output_stream a st s))"
proof -
  have o: "outs s = (\<lambda>x. None)" using none by auto
  have "active_output s = None" using base_okD(1)[OF ok] none by (auto simp: outs_ok_def)
  then show ?thesis using ok o by (auto simp: adev_open_output_stream_def base_ok_def outs_ok_def out_ok_def)
qed

lemma close_output_ok:
  assumes ok: "base_ok s" and out: "outs s a = Some out"
  shows "\<exists>s'. adev_close_output_stream a s = Some s' \<and> base_ok s' \<and> modes s' = modes s"
proof -
  obtain s1 out1 where s1: "do_output_standby a s = Some s1" "base_ok s1" "modes s1 = modes s" "active_output s1 = None" "outs s1 a = Some out1"
    by (rule output_standby_ok[OF ok out])
  have "outs_ok (s1\<lparr>outs := (outs s1)(a := None)\<rparr>)"
    using base_okD(1)[OF s1(2)] s1(4) by (simp add: outs_ok_def out_ok_def)
  then show ?thesis using s1 base_okD[OF s1(2)] by (simp add: adev_close_output_stream_def base_ok_def modes_def)
qed

lemma open_input_ok:
  assumes ok: "base_ok s" and none: "\<forall>x. ins s x = None"
  shows "base_ok (snd (adev_open_input_stream a device format m rt created lib s))"
proof -
  have i: "ins s = (\<lambda>x. None)" using none by auto
  have "active_input s = None" using base_okD(2)[OF ok] none by (auto simp: ins_ok_def)
  then show ?thesis using ok i
    by (auto simp: adev_open_input_stream_def Let_def base_ok_def ins_ok_def in_ok_def stream_ok_def handles_def
        pcm_config_mm_in_def PERIOD_SIZE_def)
qed

lemma close_input_ok:
  assumes ok: "base_ok s" and inp: "ins s a = Some inp"
  shows "\<exists>s'. adev_close_input_stream a s = Some s' \<and> base_ok s' \<and> modes s' = modes s"
proof -
  obtain s1 inp1 where s1: "do_input_standby a s = Some s1" "base_ok s1" "modes s1 = modes s" "active_input s1 = None" "ins s1 a = Some inp1"
    by (rule input_standby_ok[OF ok inp])
  have "ins_ok (s1\<lparr>ins := (ins s1)(a := None)\<rparr>)"
    using base_okD(2)[OF s1(2)] s1(4) by (simp add: ins_ok_def in_ok_def)
  then show ?thesis using s1 base_okD[OF s1(2)] by (simp add: adev_close_input_stream_def base_ok_def modes_def)
qed

lemma route_ok: "base_ok s \<Longrightarrow> base_ok (snd (set_route_by_array m route enable s))"
proof (induction route arbitrary: s)
  case (Cons x route)
  have "base_ok (fold (\<lambda>j. mixer_ctl_set_value c j v) js s)" for c v js
    using Cons.prems by (induction js arbitrary: s) simp_all
  then show ?case using Cons by (auto split: option.splits)
qed simp

lemma fold_mixer_ok:
  "base_ok s \<Longrightarrow> mode_ok s \<Longrightarrow> base_ok (in_set_gain fl gain s) \<and> mode_ok (in_set_gain fl gain s)"
  by (simp add: in_set_gain_def numeral_2_eq_2)

lemma keeps_mode: "mode_ok s \<Longrightarrow> \<exists>s'. f = Some s' \<and> base_ok s' \<and> modes s' = modes s \<Longrightarrow> \<exists>s'. f = Some s' \<and> base_ok s' \<and> mode_ok s'"
  using mode_ok_cong by blast

lemma audio_step_ok:
  assumes ok: "base_ok s" "mode_ok s" and a: "allowed op s"
  shows "\<exists>s'. audio_op op s = Some s' \<and> base_ok s' \<and> mode_ok s'"
proof (cases op)
  case (Open_output o1 st)
  then show ?thesis using open_output_ok[OF ok(1), of o1 st] a ok(2) by (simp add: adev_open_output_stream_def mode_ok_def)
next
  case (Close_output o1)
  then obtain out where o: "outs s o1 = Some out" using a by auto
  show ?thesis using Close_output keeps_mode[OF ok(2) close_output_ok[OF ok(1) o]] by simp
next
  case (Write o1 env buffer)
  then obtain out where out: "outs s o1 = Some out" "makes_room env" using a by auto
  obtain r s' where "out_write env o1 buffer s = Some (fst r, snd r, s')" "base_ok s'" "modes s' = modes s"
    by (rule out_write_ok[OF out(2) ok(1) out(1)])
  then show ?thesis using Write mode_ok_cong ok(2) by auto
next
  case (Output_standby o1)
  then obtain out where out: "outs s o1 = Some out" using a by auto
  show ?thesis by (rule output_standby_ok[OF ok(1) out]) (use Output_standby mode_ok_cong ok(2) in auto)
next
  case (Output_parameters o1 routing)
  then obtain out where o: "outs s o1 = Some out" using a by auto
  show ?thesis using Output_parameters keeps_mode[OF ok(2) out_parameters_ok[OF ok(1) o]] by simp
next
  case (Output_volume fl left right)
  then show ?thesis using ok by (simp add: out_set_volume_def Let_def)
next
  case (Open_input i device format m rt created lib)
  then show ?thesis using open_input_ok[OF ok(1), of i device format m rt created lib] a ok(2)
    by (simp add: adev_open_input_stream_def Let_def mode_ok_def)
next
  case (Close_input i)
  then obtain inp where o: "ins s i = Some inp" using a by auto
  show ?thesis using Close_input keeps_mode[OF ok(2) close_input_ok[OF ok(1) o]] by simp
next
  case (Read i env pcm created dst)
  then obtain inp load where r: "ins s i = Some inp" "env_ok env load" using a by auto
  obtain ret dst' ws s' where "in_read env pcm created i dst s = Some (ret, dst', ws, s')" "base_ok s'" "modes s' = modes s"
    using in_read_ok[OF r(2) ok(1) r(1), of pcm created dst] by blast
  then show ?thesis using Read mode_ok_cong ok(2) by auto
next
  case (Input_standby i)
  then obtain inp where inp: "ins s i = Some inp" using a by auto
  show ?thesis by (rule input_standby_ok[OF ok(1) inp]) (use Input_standby mode_ok_cong ok(2) in auto)
next
  case (Input_parameters i src routing)
  then obtain inp where o: "ins s i = Some inp" using a by auto
  show ?thesis using Input_parameters keeps_mode[OF ok(2) in_parameters_ok[OF ok(1) o]] by simp
next
  case (Add_effect i effect desc)
  then obtain inp where "ins s i = Some inp" using a by auto
  then obtain st s' where "in_add_audio_effect i effect desc s = Some (st, s')" "base_ok s'" "modes s' = modes s"
    using add_effect_ok[OF ok(1)] by blast
  then show ?thesis using Add_effect mode_ok_cong ok(2) by auto
next
  case (Remove_effect i effect desc)
  then obtain inp where "ins s i = Some inp" using a by auto
  then obtain st s' where "in_remove_audio_effect i effect desc s = Some (st, s')" "base_ok s'" "modes s' = modes s"
    using remove_effect_ok[OF ok(1)] by blast
  then show ?thesis using Remove_effect mode_ok_cong ok(2) by auto
next
  case (Input_gain fl gain)
  then show ?thesis using fold_mixer_ok[OF ok] by simp
next
  case (Set_mode m)
  then show ?thesis using set_mode_ok[OF ok] by simp
next
  case (Mic_mute b)
  then show ?thesis using ok by (simp add: adev_set_mic_mute_def)
next
  case (Master_volume fl v)
  then show ?thesis using ok by (simp add: adev_set_master_volume_def)
qed

lemma adev_open_ok: "adev_open m = Inr s \<Longrightarrow> base_ok s \<and> mode_ok s"
proof -
  let ?s = "\<lparr>mode = 0, devices = 0, in_call = False, active_input = None, active_output = None, mic_mute = False, dev_echo = None,
            outs = (\<lambda>i. None), ins = (\<lambda>i. None), live = [], mixer = (\<lambda>c j. 0), mixer_enum = (\<lambda>c. [])\<rparr>"
  have c: "in_call (snd (set_route_by_array m route e s)) = in_call s" for route e s
  proof (induction route arbitrary: s)
    case (Cons x route)
    have "in_call (fold (\<lambda>j. mixer_ctl_set_value c j v) js s) = in_call s" for c v js s
      by (induction js arbitrary: s) (simp_all add: mixer_ctl_set_value_def)
    then show ?case using Cons by (auto simp: mixer_ctl_set_enum_by_string_def split: option.splits)
  qed simp
  have "base_ok ?s" by (simp add: base_ok_def outs_ok_def ins_ok_def refs_ok_def)
  then have "base_ok (snd (set_route_by_array m defaults True ?s))" by (rule route_ok)
  then show "adev_open m = Inr s \<Longrightarrow> base_ok s \<and> mode_ok s"
    by (auto simp: adev_open_def Let_def mode_ok_def c AUDIO_MODE_NORMAL_def AUDIO_MODE_IN_CALL_def split: if_splits)
qed

lemma audio_reachable_ok: "audio_reachable s \<Longrightarrow> base_ok s \<and> mode_ok s"
proof (induction rule: audio_reachable.induct)
  case (opened m s)
  then show ?case by (rule adev_open_ok)
next
  case (step s op s')
  then show ?case using audio_step_ok[of s op] by auto
qed

text \<open>C11: Of a client that uses streams while they are open, and has at most one of each direction open at a time (the
  device does not see to that: a second stream takes the place of the first), no operation follows
  the pointer of a closed stream, of a closed PCM or of an echo reference that was released, and none hangs.
  A stream is out of standby exactly if it is the active one of its direction; then its PCM is open, and an output
  feeds the reference that the device holds, which is the only one that is not released.  The device is in a call exactly if
  that is its mode.\<close>

theorem audio_operations_safe:
  assumes "audio_reachable s" "allowed op s"
  shows "\<exists>s'. audio_op op s = Some s'
    \<and> (\<forall>a out. outs s' a = Some out \<longrightarrow> (\<not> out_standby out \<longleftrightarrow> active_output s' = Some a)
         \<and> (\<not> out_standby out \<longrightarrow> (\<exists>p. out_pcm out = Open p) \<and> out_echo out = dev_echo s'))
    \<and> (\<forall>a inp. ins s' a = Some inp \<longrightarrow> (\<not> in_standby inp \<longleftrightarrow> active_input s' = Some a)
         \<and> (\<not> in_standby inp \<longrightarrow> (\<exists>k. in_pcm inp = Open k)) \<and> (in_echo inp = None \<or> in_echo inp = dev_echo s')
         \<and> num_preprocessors inp \<le> MAX_PREPROCESSORS)
    \<and> live s' = (case dev_echo s' of None \<Rightarrow> [] | Some r \<Rightarrow> [r])
    \<and> (in_call s' \<longleftrightarrow> mode s' = AUDIO_MODE_IN_CALL)"
proof -
  have "base_ok s" "mode_ok s" using audio_reachable_ok[OF assms(1)] by simp_all
  then obtain s' where s': "audio_op op s = Some s'" "base_ok s'" "mode_ok s'"
    using audio_step_ok[OF _ _ assms(2)] by blast
  show ?thesis
  proof (intro exI[of _ s'] conjI allI impI)
    fix a out assume "outs s' a = Some out"
    from outs_okD(1)[OF base_okD(1)[OF s'(2)] this] show "\<not> out_standby out \<longleftrightarrow> active_output s' = Some a"
      "\<not> out_standby out \<Longrightarrow> \<exists>p. out_pcm out = Open p" "\<not> out_standby out \<Longrightarrow> out_echo out = dev_echo s'"
      by (auto simp: out_ok_def)
  next
    fix a inp assume "ins s' a = Some inp"
    from ins_okD(1)[OF base_okD(2)[OF s'(2)] this] show "\<not> in_standby inp \<longleftrightarrow> active_input s' = Some a"
      "\<not> in_standby inp \<Longrightarrow> \<exists>k. in_pcm inp = Open k" "in_echo inp = None \<or> in_echo inp = dev_echo s'"
      "num_preprocessors inp \<le> MAX_PREPROCESSORS"
      by (auto simp: in_ok_def stream_ok_def is_open_def split: pcm.splits)
  qed (use s' in \<open>simp_all add: base_ok_def refs_ok_def mode_ok_def\<close>)
qed

text \<open>The first write to an output.\<close>

definition sample_mixer :: mixer_env where
  "sample_mixer = \<lparr>mixer_open = True, present = (\<lambda>c. True), num_values = (\<lambda>c. 2)\<rparr>"

definition sample_out_env :: out_env where
  "sample_out_env = \<lparr>out_ready = True, stamps = [None, None], pcm_get_buffer_size = 4096,
     resample_from_input = (\<lambda>buffer n. (0, [])), pcm_mmap_write = (\<lambda>fs. 0)\<rparr>"

definition sample_device :: "(nat, unit, unit) audio_device" where
  "sample_device = snd (adev_open_output_stream 0 0 (projr (adev_open sample_mixer)))"

lemma sample_opened: "\<exists>s :: (nat, unit, unit) audio_device. adev_open sample_mixer = Inr s \<and> outs s = (\<lambda>x. None)"
proof -
  have o: "outs (snd (set_route_by_array m route e s)) = outs s" for m route e and s :: "(nat, unit, unit) audio_device"
  proof (induction route arbitrary: s)
    case (Cons x route)
    have "outs (fold (\<lambda>j. mixer_ctl_set_value c j v) js s) = outs s" for c v js and s :: "(nat, unit, unit) audio_device"
      by (induction js arbitrary: s) (simp_all add: mixer_ctl_set_value_def)
    then show ?case using Cons by (auto simp: mixer_ctl_set_enum_by_string_def split: option.splits)
  qed simp
  show ?thesis by (simp add: adev_open_def sample_mixer_def Let_def o)
qed

lemma sample_device_reachable: "audio_reachable sample_device" "allowed (Write 0 sample_out_env []) sample_device"
proof -
  obtain s :: "(nat, unit, unit) audio_device" where s: "adev_open sample_mixer = Inr s" "outs s = (\<lambda>x. None)"
    using sample_opened by blast
  have d: "sample_device = snd (adev_open_output_stream 0 0 s)" using s(1) by (simp add: sample_device_def)
  have "audio_op (Open_output 0 0) s = Some sample_device" by (simp add: d)
  moreover have "allowed (Open_output 0 0) s" using s(2) by simp
  ultimately show "audio_reachable sample_device"
    using audio_reachable.step[OF audio_reachable.opened[OF s(1)]] by blast
  show "allowed (Write 0 sample_out_env []) sample_device"
    by (simp add: d adev_open_output_stream_def makes_room_def sample_out_env_def)
qed

theorem audio_operations_safe_witness:
  "\<exists>s'. audio_op (Write 0 sample_out_env []) sample_device = Some s' \<and> (in_call s' \<longleftrightarrow> mode s' = AUDIO_MODE_IN_CALL)"
  using audio_operations_safe[OF sample_device_reachable] by blast

text \<open>The device has one reference for all inputs: when a second input with an echo canceller starts, the reference of the
  first is released under it, and the first uses it when it goes to standby.\<close>

lemma second_input_releases:
  assumes "ins s i = Some inp" "\<not> in_standby inp" "in_pcm inp = Open k" "in_echo inp = Some r"
    and "dev_echo s = Some r" "live s = [r]" "active_output s = Some a" "outs s a = Some out"
    and "ins s j = Some new" "need_echo_reference new" "in_echo new = None" "i \<noteq> j" "r' \<noteq> r"
  shows "\<exists>s'. start_input_stream (Some k') (Some r') j s = Some (0, s') \<and> do_input_standby i s' = None"
  using assms
  by (cases "out_echo out = Some r")
    (simp_all add: start_input_stream_def input_reference_def get_echo_reference_def put_echo_reference_def Let_def
      remove_echo_reference_def use_echo_def release_echo_reference_def add_echo_reference_def do_input_standby_def)

end
