(* ===== verification/Lights.thy ===== *)
theory Lights
  imports Prelude
begin

text \<open>
  The backlight of the display, \<open>src/liblight/lights.c\<close>: the brightness of a colour, and the text that is
  written to the file of the driver.  What the driver answers is a parameter.
\<close>

unbundle bit_operations_syntax

text \<open>A colour is an \<open>unsigned\<close>, used as an \<open>int\<close> of at most 24 bits.\<close>

definition rgb_to_brightness :: "32 word \<Rightarrow> int" where
  "rgb_to_brightness rgb =
    (let color = uint (rgb AND 0x00FFFFFF) in
     drop_bit 8 (77 * (drop_bit 16 color AND 0xFF) + 150 * (drop_bit 8 color AND 0xFF) + 29 * (color AND 0xFF)))"

datatype opened = Open_failed int | Written_failed int | Written

text \<open>The result, and what \<open>sprintf\<close> leaves in \<open>buffer[20]\<close>; \<open>None\<close> if it does not fit.\<close>

definition write_int :: "opened \<Rightarrow> int \<Rightarrow> (int \<times> string) option" where
  "write_int f value = (case f of
     Open_failed errno \<Rightarrow> Some (- errno, [])
   | _ \<Rightarrow> let buffer = dec_int value @ [CHR 0x0A] in
       if 20 < length buffer + 1 then None
       else Some (case f of Written_failed errno \<Rightarrow> - errno | _ \<Rightarrow> 0, buffer))"

definition set_light_backlight :: "opened \<Rightarrow> 32 word \<Rightarrow> (int \<times> string) option" where
  "set_light_backlight f rgb = write_int f (rgb_to_brightness rgb)"

lemma channel: "0 \<le> (c :: int) AND 255" "c AND 255 \<le> 255"
  by (simp_all add: AND_upper2)

lemma brightness_range: "0 \<le> rgb_to_brightness rgb \<and> rgb_to_brightness rgb \<le> 255"
proof -
  let ?c = "uint (rgb AND 0x00FFFFFF)"
  define r g b where "r = drop_bit 16 ?c AND 255" and "g = drop_bit 8 ?c AND 255" and "b = ?c AND 255"
  have "0 \<le> r" "r \<le> 255" "0 \<le> g" "g \<le> 255" "0 \<le> b" "b \<le> 255" using channel by (simp_all add: r_def g_def b_def)
  then have n: "0 \<le> 77 * r + 150 * g + 29 * b" "77 * r + 150 * g + 29 * b \<le> 65280" by linarith+
  have "rgb_to_brightness rgb = (77 * r + 150 * g + 29 * b) div 256"
    by (simp add: rgb_to_brightness_def Let_def r_def g_def b_def drop_bit_eq_div)
  then show ?thesis using zdiv_mono1[OF n(2), of 256] n(1) by (simp add: pos_imp_zdiv_nonneg_iff)
qed

lemma short_decimal: "n < 1000 \<Longrightarrow> length (dec_nat n) \<le> 3"
  by (subst dec_nat.simps, subst dec_nat.simps, subst dec_nat.simps) simp

text \<open>The text of a brightness always fits in the buffer.\<close>

lemma backlight_fits: "set_light_backlight f rgb \<noteq> None"
proof -
  have "length (dec_int (rgb_to_brightness rgb)) \<le> 3"
    using brightness_range[of rgb] short_decimal[of "nat (rgb_to_brightness rgb)"] by (simp add: dec_int_def nat_less_iff)
  then show ?thesis by (simp add: set_light_backlight_def write_int_def Let_def split: opened.splits)
qed

end
