(* ===== verification/Camera_Convert.thy ===== *)
theory Camera_Convert
  imports Prelude
begin

text \<open>
  The conversions between pixel formats of the camera, \<open>src/libcamera/Converter.cpp\<close>: from and to packed
  frames YUYV (\<open>Y0 U Y1 V\<close> for two pixels), with planes or other orders of the bytes, and to RGB.

  A frame is the list of the bytes of its buffer, and the pointers that run through it are numbers
  (\<open>int\<close>, as the strides may make them run backwards); an access outside a buffer is \<open>None\<close>.  Source and
  destination do not overlap.  A loop is \<open>repeat\<close>, with the number of rounds computed from its bounds.
\<close>

unbundle bit_operations_syntax

section \<open>Memory and loops\<close>

definition peek_byte :: "bytes \<Rightarrow> int \<Rightarrow> byte option" where
  "peek_byte m i = (if 0 \<le> i then rd m (nat i) else None)"

definition poke_byte :: "bytes \<Rightarrow> int \<Rightarrow> byte \<Rightarrow> bytes option" where
  "poke_byte m i v = (if 0 \<le> i then wr m (nat i) v else None)"

fun repeat :: "nat \<Rightarrow> ('s \<Rightarrow> 's option) \<Rightarrow> 's \<Rightarrow> 's option" where
  "repeat 0 f s = Some s"
| "repeat (Suc n) f s = do { s \<leftarrow> f s; repeat n f s }"

text \<open>The rounds of \<open>for (w = 0; w < b; w += d)\<close>.\<close>

definition rounds :: "int \<Rightarrow> int \<Rightarrow> nat" where
  "rounds b d = (if b \<le> 0 then 0 else nat ((b + d - 1) div d))"

text \<open>The mean of two bytes, rounded down.\<close>

definition mean :: "byte \<Rightarrow> byte \<Rightarrow> byte" where
  "mean a b = word_of_int (drop_bit 1 (uint a + uint b))"

section \<open>From YUYV to planes\<close>

text \<open>The state of a loop is the destination and the pointers; \<open>c\<close> is the byte of the pair that holds the colour.\<close>

definition chroma_mean :: "bytes \<Rightarrow> int \<Rightarrow> int \<Rightarrow> byte option" where
  "chroma_mean src s srcStride = do { a \<leftarrow> peek_byte src s; b \<leftarrow> peek_byte src (s + srcStride); Some (mean a b) }"

definition yvu420sp_pair :: "bytes \<Rightarrow> int \<Rightarrow> bytes \<times> int \<times> int \<times> int \<Rightarrow> (bytes \<times> int \<times> int \<times> int) option" where
  "yvu420sp_pair src srcStride = (\<lambda>(dst, y, vu, s). do {
     a \<leftarrow> peek_byte src s;
     dst \<leftarrow> poke_byte dst y a;
     u \<leftarrow> chroma_mean src (s + 1) srcStride;
     dst \<leftarrow> poke_byte dst (vu + 1) u;
     b \<leftarrow> peek_byte src (s + 2);
     dst \<leftarrow> poke_byte dst (y + 1) b;
     v \<leftarrow> chroma_mean src (s + 3) srcStride;
     dst \<leftarrow> poke_byte dst vu v;
     Some (dst, y + 2, vu + 2, s + 4) })"

definition luma_pair :: "bytes \<Rightarrow> bytes \<times> int \<times> 'c \<times> int \<Rightarrow> (bytes \<times> int \<times> 'c \<times> int) option" where
  "luma_pair src = (\<lambda>(dst, y, c, s). do {
     a \<leftarrow> peek_byte src s;
     dst \<leftarrow> poke_byte dst y a;
     b \<leftarrow> peek_byte src (s + 2);
     dst \<leftarrow> poke_byte dst (y + 1) b;
     Some (dst, y + 2, c, s + 4) })"

definition yuyv_to_yvu420sp :: "bytes \<Rightarrow> int \<Rightarrow> int \<Rightarrow> bytes \<Rightarrow> int \<Rightarrow> int \<Rightarrow> int \<Rightarrow> bytes option" where
  "yuyv_to_yvu420sp dst dstStride dstHeight src srcStride width height =
    (let dyvu = dstStride - width; sw = srcStride - width * 2 in
     map_option fst (repeat (rounds height 2) (\<lambda>st. do {
       (dst, y, vu, s) \<leftarrow> repeat (rounds width 2) (yvu420sp_pair src srcStride) st;
       (dst, y, vu, s) \<leftarrow> repeat (rounds width 2) (luma_pair src) (dst, y + dyvu, vu + dyvu, s + sw);
       Some (dst, y + dyvu, vu, s + sw) }) (dst, 0, dstStride * dstHeight, 0)))"

definition planar420_pair :: "bytes \<Rightarrow> int \<Rightarrow> bytes \<times> int \<times> (int \<times> int) \<times> int \<Rightarrow> (bytes \<times> int \<times> (int \<times> int) \<times> int) option" where
  "planar420_pair src srcStride = (\<lambda>(dst, y, (u, v), s). do {
     a \<leftarrow> peek_byte src s;
     dst \<leftarrow> poke_byte dst y a;
     cu \<leftarrow> chroma_mean src (s + 1) srcStride;
     dst \<leftarrow> poke_byte dst u cu;
     b \<leftarrow> peek_byte src (s + 2);
     dst \<leftarrow> poke_byte dst (y + 1) b;
     cv \<leftarrow> chroma_mean src (s + 3) srcStride;
     dst \<leftarrow> poke_byte dst v cv;
     Some (dst, y + 2, (u + 1, v + 1), s + 4) })"

definition planar420_rows :: "bytes \<Rightarrow> int \<Rightarrow> int \<Rightarrow> bytes \<Rightarrow> int \<Rightarrow> int \<Rightarrow> int \<Rightarrow> int \<times> int \<Rightarrow> bytes option" where
  "planar420_rows dst dstStride chromaStride src srcStride width height uv =
    (let dy = dstStride - width; dvu = chromaStride - drop_bit 1 width; sw = srcStride - width * 2 in
     map_option fst (repeat (rounds height 2) (\<lambda>st. do {
       (dst, y, uv, s) \<leftarrow> repeat (rounds width 2) (planar420_pair src srcStride) st;
       (dst, y, uv, s) \<leftarrow> repeat (rounds width 2) (luma_pair src) (dst, y + dy, (fst uv + dvu, snd uv + dvu), s + sw);
       Some (dst, y + dy, uv, s + sw) }) (dst, 0, uv, 0)))"

text \<open>\<open>((dstStride >> 1) + 15) & (-16)\<close>.\<close>

definition chroma_stride :: "int \<Rightarrow> int" where
  "chroma_stride dstStride = (drop_bit 1 dstStride + 15) AND (- 16)"

definition yuyv_to_yvu420p :: "bytes \<Rightarrow> int \<Rightarrow> int \<Rightarrow> bytes \<Rightarrow> int \<Rightarrow> int \<Rightarrow> int \<Rightarrow> bytes option" where
  "yuyv_to_yvu420p dst dstStride dstHeight src srcStride width height =
    (let cs = chroma_stride dstStride; v = dstStride * dstHeight; u = v + drop_bit 1 (cs * dstHeight) in
     planar420_rows dst dstStride cs src srcStride width height (u, v))"

definition yuyv_to_yuv420p :: "bytes \<Rightarrow> int \<Rightarrow> int \<Rightarrow> bytes \<Rightarrow> int \<Rightarrow> int \<Rightarrow> int \<Rightarrow> bytes option" where
  "yuyv_to_yuv420p dst dstStride dstHeight src srcStride width height =
    (let cs = chroma_stride dstStride; u = dstStride * dstHeight; v = u + drop_bit 1 (cs * dstHeight) in
     planar420_rows dst dstStride cs src srcStride width height (u, v))"

definition planar422_pair :: "bytes \<Rightarrow> bytes \<times> int \<times> (int \<times> int) \<times> int \<Rightarrow> (bytes \<times> int \<times> (int \<times> int) \<times> int) option" where
  "planar422_pair src = (\<lambda>(dst, y, (u, v), s). do {
     a \<leftarrow> peek_byte src s;
     dst \<leftarrow> poke_byte dst y a;
     cu \<leftarrow> peek_byte src (s + 1);
     dst \<leftarrow> poke_byte dst u cu;
     b \<leftarrow> peek_byte src (s + 2);
     dst \<leftarrow> poke_byte dst (y + 1) b;
     cv \<leftarrow> peek_byte src (s + 3);
     dst \<leftarrow> poke_byte dst v cv;
     Some (dst, y + 2, (u + 1, v + 1), s + 4) })"

definition yuyv_to_yvu422p :: "bytes \<Rightarrow> int \<Rightarrow> int \<Rightarrow> bytes \<Rightarrow> int \<Rightarrow> int \<Rightarrow> int \<Rightarrow> bytes option" where
  "yuyv_to_yvu422p dst dstStride dstHeight src srcStride width height =
    (let cs = chroma_stride dstStride; v = dstStride * dstHeight; u = v + cs * dstHeight;
         dy = dstStride - width; dvu = cs - drop_bit 1 width; sw = srcStride - width * 2 in
     map_option fst (repeat (rounds height 1) (\<lambda>st. do {
       (dst, y, (u, v), s) \<leftarrow> repeat (rounds width 2) (planar422_pair src) st;
       Some (dst, y + dy, (u + dvu, v + dvu), s + sw) }) (dst, 0, (u, v), 0)))"

section \<open>From other packed formats to YUYV\<close>

text \<open>The state is the destination and both pointers.  \<open>Y0\<close>, \<open>U\<close>, \<open>Y1\<close> and \<open>V\<close> are found at the given places of the four bytes of
  a pair.\<close>

type_synonym packing = "int \<times> int \<times> int \<times> int"

definition packed_pair :: "packing \<Rightarrow> bytes \<Rightarrow> bytes \<times> int \<times> int \<Rightarrow> (bytes \<times> int \<times> int) option" where
  "packed_pair = (\<lambda>(y0, u, y1, v) src (dst, d, s). do {
     a \<leftarrow> peek_byte src (s + y0);
     dst \<leftarrow> poke_byte dst d a;
     a \<leftarrow> peek_byte src (s + u);
     dst \<leftarrow> poke_byte dst (d + 1) a;
     a \<leftarrow> peek_byte src (s + y1);
     dst \<leftarrow> poke_byte dst (d + 2) a;
     a \<leftarrow> peek_byte src (s + v);
     dst \<leftarrow> poke_byte dst (d + 3) a;
     Some (dst, d + 4, s + 4) })"

definition rows :: "nat \<Rightarrow> nat \<Rightarrow> int \<Rightarrow> int \<Rightarrow> (bytes \<times> int \<times> int \<Rightarrow> (bytes \<times> int \<times> int) option) \<Rightarrow> bytes \<Rightarrow> bytes option" where
  "rows n m dw sw body dst = map_option fst (repeat n (\<lambda>st. do {
     (dst, d, s) \<leftarrow> repeat m body st;
     Some (dst, d + dw, s + sw) }) (dst, 0, 0))"

definition packed_to_yuyv :: "packing \<Rightarrow> bytes \<Rightarrow> int \<Rightarrow> bytes \<Rightarrow> int \<Rightarrow> int \<Rightarrow> int \<Rightarrow> bytes option" where
  "packed_to_yuyv p dst dstStride src srcStride width height =
    rows (rounds height 1) (rounds width 2) (dstStride - width * 2) (srcStride - width * 2) (packed_pair p src) dst"

definition yyuv_to_yuyv :: "bytes \<Rightarrow> int \<Rightarrow> bytes \<Rightarrow> int \<Rightarrow> int \<Rightarrow> int \<Rightarrow> bytes option" where
  "yyuv_to_yuyv = packed_to_yuyv (0, 2, 1, 3)"

definition uyvy_to_yuyv :: "bytes \<Rightarrow> int \<Rightarrow> bytes \<Rightarrow> int \<Rightarrow> int \<Rightarrow> int \<Rightarrow> bytes option" where
  "uyvy_to_yuyv = packed_to_yuyv (1, 0, 3, 2)"

definition yvyu_to_yuyv :: "bytes \<Rightarrow> int \<Rightarrow> bytes \<Rightarrow> int \<Rightarrow> int \<Rightarrow> int \<Rightarrow> bytes option" where
  "yvyu_to_yuyv = packed_to_yuyv (0, 3, 2, 1)"

text \<open>16 bits of a pixel, and \<open>(uint8_t) (x & 0xFF00) >> 8\<close>: the conversion binds tighter than the shift.\<close>

definition peek_16 :: "bytes \<Rightarrow> int \<Rightarrow> 16 word option" where
  "peek_16 m i = do { a \<leftarrow> peek_byte m (2 * i); b \<leftarrow> peek_byte m (2 * i + 1); Some (ucast a + push_bit 8 (ucast b)) }"

definition y16_luma :: "16 word \<Rightarrow> byte" where
  "y16_luma x = word_of_int (drop_bit 8 (uint (ucast (x AND 0xFF00) :: byte)))"

definition y16_pair :: "bytes \<Rightarrow> bytes \<times> int \<times> int \<Rightarrow> (bytes \<times> int \<times> int) option" where
  "y16_pair src = (\<lambda>(dst, d, p). do {
     x \<leftarrow> peek_16 src p;
     dst \<leftarrow> poke_byte dst d (y16_luma x);
     dst \<leftarrow> poke_byte dst (d + 1) 0x7F;
     x \<leftarrow> peek_16 src (p + 1);
     dst \<leftarrow> poke_byte dst (d + 2) (y16_luma x);
     dst \<leftarrow> poke_byte dst (d + 3) 0x7F;
     Some (dst, d + 4, p + 2) })"

definition y16_to_yuyv :: "bytes \<Rightarrow> int \<Rightarrow> bytes \<Rightarrow> int \<Rightarrow> int \<Rightarrow> int \<Rightarrow> bytes option" where
  "y16_to_yuyv dst dstStride src srcStride width height =
    rows (rounds height 1) (rounds width 2) (dstStride - width * 2) (drop_bit 1 srcStride - width) (y16_pair src) dst"

definition grey_pixel :: "bytes \<Rightarrow> bytes \<times> int \<times> int \<Rightarrow> (bytes \<times> int \<times> int) option" where
  "grey_pixel src = (\<lambda>(dst, d, s). do {
     a \<leftarrow> peek_byte src s;
     dst \<leftarrow> poke_byte dst d a;
     dst \<leftarrow> poke_byte dst (d + 1) 0x80;
     Some (dst, d + 2, s + 1) })"

definition grey_to_yuyv :: "bytes \<Rightarrow> int \<Rightarrow> bytes \<Rightarrow> int \<Rightarrow> int \<Rightarrow> int \<Rightarrow> bytes option" where
  "grey_to_yuyv dst dstStride src srcStride width height =
    rows (rounds height 1) (rounds width 1) (dstStride - width * 2) (srcStride - width) (grey_pixel src) dst"

text \<open>Eight pixels in twelve bytes.\<close>

fun copy_bytes :: "bytes \<Rightarrow> (int \<times> int) list \<Rightarrow> bytes \<Rightarrow> bytes option" where
  "copy_bytes src [] dst = Some dst"
| "copy_bytes src ((d, s) # xs) dst = do { a \<leftarrow> peek_byte src s; dst \<leftarrow> poke_byte dst d a; copy_bytes src xs dst }"

definition y41p_block :: "bytes \<Rightarrow> bytes \<times> int \<times> int \<Rightarrow> (bytes \<times> int \<times> int) option" where
  "y41p_block src = (\<lambda>(dst, d, s). do {
     dst \<leftarrow> copy_bytes src (zip (map (\<lambda>i. d + i) [0, 1, 2, 3, 4, 5, 6, 7, 8, 9, 10, 11, 12, 13, 14, 15])
       (map (\<lambda>i. s + i) [1, 0, 3, 2, 5, 0, 7, 2, 8, 4, 9, 6, 10, 4, 11, 6])) dst;
     Some (dst, d + 16, s + 12) })"

definition y41p_to_yuyv :: "bytes \<Rightarrow> int \<Rightarrow> bytes \<Rightarrow> int \<Rightarrow> int \<Rightarrow> bytes option" where
  "y41p_to_yuyv dst dstStride src width height =
    (let linesize = cdiv (width * 3) 2 in
     map_option fst (repeat (rounds height 1) (\<lambda>(dst, d, h). do {
       (dst, d, s) \<leftarrow> repeat (rounds linesize 12) (y41p_block src) (dst, d, linesize * h);
       Some (dst, d + (dstStride - width * 2), h + 1) }) (dst, 0, 0)))"

section \<open>From planes to YUYV\<close>

text \<open>Two rows at once; \<open>pu\<close> and \<open>pv\<close> are the places of the first colour bytes of the row, \<open>wy\<close> and \<open>wuv\<close> run through the row.\<close>

definition planes_pair ::
  "bytes \<Rightarrow> int \<Rightarrow> int \<Rightarrow> int \<Rightarrow> int \<Rightarrow> int \<Rightarrow> int \<Rightarrow> bytes \<times> int \<times> int \<times> int \<Rightarrow> (bytes \<times> int \<times> int \<times> int) option" where
  "planes_pair src dstStride width py pu pv step = (\<lambda>(dst, d, wy, wuv). do {
     a \<leftarrow> peek_byte src (py + wy);
     dst \<leftarrow> poke_byte dst d a;
     a \<leftarrow> peek_byte src (py + wy + width);
     dst \<leftarrow> poke_byte dst (d + dstStride) a;
     u \<leftarrow> peek_byte src (pu + wuv);
     dst \<leftarrow> poke_byte dst (d + 1) u;
     dst \<leftarrow> poke_byte dst (d + 1 + dstStride) u;
     a \<leftarrow> peek_byte src (py + (wy + 1));
     dst \<leftarrow> poke_byte dst (d + 2) a;
     a \<leftarrow> peek_byte src (py + (wy + 1) + width);
     dst \<leftarrow> poke_byte dst (d + 2 + dstStride) a;
     v \<leftarrow> peek_byte src (pv + wuv);
     dst \<leftarrow> poke_byte dst (d + 3) v;
     dst \<leftarrow> poke_byte dst (d + 3 + dstStride) v;
     Some (dst, d + 4, wy + 2, wuv + step) })"

definition planes_to_yuyv :: "int \<Rightarrow> int \<Rightarrow> int \<Rightarrow> int \<Rightarrow> bytes \<Rightarrow> int \<Rightarrow> bytes \<Rightarrow> int \<Rightarrow> int \<Rightarrow> bytes option" where
  "planes_to_yuyv pu pv step uvline dst dstStride src width height =
    (let dw = dstStride - width * 2 in
     map_option fst (repeat (rounds height 2) (\<lambda>(dst, d, offsety, offsetuv). do {
       (dst, d, wy, wuv) \<leftarrow> repeat (rounds (width * 2) 4)
         (planes_pair src dstStride width offsety (pu + offsetuv) (pv + offsetuv) step) (dst, d, 0, 0);
       Some (dst, d + (dstStride + dw), offsety + width * 2, offsetuv + uvline) }) (dst, 0, 0, 0)))"

definition yuv420_to_yuyv :: "bytes \<Rightarrow> int \<Rightarrow> bytes \<Rightarrow> int \<Rightarrow> int \<Rightarrow> bytes option" where
  "yuv420_to_yuyv dst dstStride src width height =
    (let pu = width * height; pv = pu + cdiv (width * height) 4 in
     planes_to_yuyv pu pv 1 (cdiv width 2) dst dstStride src width height)"

definition yvu420_to_yuyv :: "bytes \<Rightarrow> int \<Rightarrow> bytes \<Rightarrow> int \<Rightarrow> int \<Rightarrow> bytes option" where
  "yvu420_to_yuyv dst dstStride src width height =
    (let pv = width * height; pu = pv + cdiv (width * height) 4 in
     planes_to_yuyv pu pv 1 (cdiv width 2) dst dstStride src width height)"

definition nv12_to_yuyv :: "bytes \<Rightarrow> int \<Rightarrow> bytes \<Rightarrow> int \<Rightarrow> int \<Rightarrow> bytes option" where
  "nv12_to_yuyv dst dstStride src width height =
    (let puv = width * height in planes_to_yuyv puv (puv + 1) 2 width dst dstStride src width height)"

definition nv21_to_yuyv :: "bytes \<Rightarrow> int \<Rightarrow> bytes \<Rightarrow> int \<Rightarrow> int \<Rightarrow> bytes option" where
  "nv21_to_yuyv dst dstStride src width height =
    (let puv = width * height in planes_to_yuyv (puv + 1) puv 2 width dst dstStride src width height)"

text \<open>One row at once.\<close>

definition nv_pair :: "bytes \<Rightarrow> int \<Rightarrow> int \<Rightarrow> int \<Rightarrow> bytes \<times> int \<times> int \<Rightarrow> (bytes \<times> int \<times> int) option" where
  "nv_pair src py pu pv = (\<lambda>(dst, d, w). do {
     dst \<leftarrow> copy_bytes src [(d, py + w), (d + 1, pu + w), (d + 2, py + (w + 1)), (d + 3, pv + w)] dst;
     Some (dst, d + 4, w + 2) })"

definition nv_to_yuyv :: "int \<Rightarrow> int \<Rightarrow> bytes \<Rightarrow> int \<Rightarrow> bytes \<Rightarrow> int \<Rightarrow> int \<Rightarrow> bytes option" where
  "nv_to_yuyv pu pv dst dstStride src width height =
    map_option fst (repeat (rounds height 1) (\<lambda>(dst, d, offset). do {
      (dst, d, w) \<leftarrow> repeat (rounds (width * 2) 4) (nv_pair src offset (pu + offset) (pv + offset)) (dst, d, 0);
      Some (dst, d + (dstStride - width * 2), offset + width) }) (dst, 0, 0))"

definition nv16_to_yuyv :: "bytes \<Rightarrow> int \<Rightarrow> bytes \<Rightarrow> int \<Rightarrow> int \<Rightarrow> bytes option" where
  "nv16_to_yuyv dst dstStride src width height = nv_to_yuyv (width * height) (width * height + 1) dst dstStride src width height"

definition nv61_to_yuyv :: "bytes \<Rightarrow> int \<Rightarrow> bytes \<Rightarrow> int \<Rightarrow> int \<Rightarrow> bytes option" where
  "nv61_to_yuyv dst dstStride src width height = nv_to_yuyv (width * height + 1) (width * height) dst dstStride src width height"

text \<open>The formats of the SPCA chips: blocks of two lines, with signed values.  The places of the planes are
  given relative to the first line of a block.\<close>

definition unsigned_byte :: "byte \<Rightarrow> byte" where
  "unsigned_byte b = 0x80 + b"

fun copy_unsigned :: "bytes \<Rightarrow> (int \<times> int) list \<Rightarrow> bytes \<Rightarrow> bytes option" where
  "copy_unsigned src [] dst = Some dst"
| "copy_unsigned src ((d, s) # xs) dst = do { a \<leftarrow> peek_byte src s; dst \<leftarrow> poke_byte dst d (unsigned_byte a); copy_unsigned src xs dst }"

definition spca_pair ::
  "bytes \<Rightarrow> bytes \<times> int \<times> int \<times> int \<times> int \<times> int \<times> int \<Rightarrow> (bytes \<times> int \<times> int \<times> int \<times> int \<times> int \<times> int) option" where
  "spca_pair src = (\<lambda>(dst, d, line2, y0, y1, u, v). do {
     dst \<leftarrow> copy_unsigned src [(d, y0), (d + 1, u), (d + 2, y0 + 1), (d + 3, v),
       (line2, y1), (line2 + 1, u), (line2 + 2, y1 + 1), (line2 + 3, v)] dst;
     Some (dst, d + 4, line2 + 4, y0 + 2, y1 + 2, u + 1, v + 1) })"

definition spca_to_yuyv :: "(int \<Rightarrow> int \<times> int \<times> int) \<Rightarrow> bytes \<Rightarrow> int \<Rightarrow> bytes \<Rightarrow> int \<Rightarrow> int \<Rightarrow> bytes option" where
  "spca_to_yuyv planes dst dstStride src width height =
    map_option fst (repeat (nat (cdiv height 2)) (\<lambda>(dst, d, y0). do {
      let (y1, u, v) = planes y0;
      (dst, d, line2, y0, _) \<leftarrow> repeat (nat (cdiv width 2)) (spca_pair src) (dst, d, d + dstStride, y0, y1, u, v);
      Some (dst, line2 + (dstStride - width * 2), y0 + width * 2) }) (dst, 0, 0))"

definition s501_to_yuyv :: "bytes \<Rightarrow> int \<Rightarrow> bytes \<Rightarrow> int \<Rightarrow> int \<Rightarrow> bytes option" where
  "s501_to_yuyv dst dstStride src width height =
    spca_to_yuyv (\<lambda>y0. let u = y0 + width; y1 = u + cdiv width 2; v = y1 + width in (y1, u, v)) dst dstStride src width height"

definition s505_to_yuyv :: "bytes \<Rightarrow> int \<Rightarrow> bytes \<Rightarrow> int \<Rightarrow> int \<Rightarrow> bytes option" where
  "s505_to_yuyv dst dstStride src width height =
    spca_to_yuyv (\<lambda>y0. let y1 = y0 + width; u = y1 + width; v = u + cdiv width 2 in (y1, u, v)) dst dstStride src width height"

definition s508_to_yuyv :: "bytes \<Rightarrow> int \<Rightarrow> bytes \<Rightarrow> int \<Rightarrow> int \<Rightarrow> bytes option" where
  "s508_to_yuyv dst dstStride src width height =
    spca_to_yuyv (\<lambda>y0. let u = y0 + width; v = u + cdiv width 2; y1 = v + cdiv width 2 in (y1, u, v)) dst dstStride src width height"

section \<open>From YUYV to RGB\<close>

text \<open>\<open>FIX1P8\<close> of 1.402, 0.34414, 0.71414 and 1.772 are 358, 88, 182 and 453; the shift of a negative number rounds
  down.\<close>

definition clip :: "int \<Rightarrow> int" where
  "clip x = (let x = (if x > 255 then 255 else x) in if x < 0 then 0 else x)"

definition yuv_rgb :: "int \<Rightarrow> byte \<Rightarrow> byte \<Rightarrow> int \<times> int \<times> int" where
  "yuv_rgb y cu cv =
    (let u = uint cu - 128; v = uint cv - 128;
         ri = drop_bit 8 (358 * v); gi = drop_bit 8 (- 88 * u - 182 * v); bi = drop_bit 8 (453 * u) in
     (clip (y + ri), clip (y + gi), clip (y + bi)))"

definition make565 :: "int \<Rightarrow> int \<Rightarrow> int \<Rightarrow> 16 word" where
  "make565 red green blue =
    word_of_int ((push_bit 8 red AND 0xf800) OR (push_bit 3 green AND 0x07e0) OR (drop_bit 3 blue AND 0x001f))"

text \<open>The bytes of a pixel, with \<open>None\<close> for one that is stepped over.\<close>

fun poke_pixel :: "bytes \<Rightarrow> int \<Rightarrow> byte option list \<Rightarrow> bytes option" where
  "poke_pixel dst d [] = Some dst"
| "poke_pixel dst d (None # xs) = poke_pixel dst (d + 1) xs"
| "poke_pixel dst d (Some a # xs) = do { dst \<leftarrow> poke_byte dst d a; poke_pixel dst (d + 1) xs }"

definition rgb565 :: "int \<times> int \<times> int \<Rightarrow> byte option list" where
  "rgb565 = (\<lambda>(r, g, b). let x = make565 r g b in [Some (ucast x), Some (ucast (drop_bit 8 x))])"

definition rgb24 :: "int \<times> int \<times> int \<Rightarrow> byte option list" where
  "rgb24 = (\<lambda>(r, g, b). [Some (word_of_int r), Some (word_of_int g), Some (word_of_int b)])"

definition rgb32 :: "int \<times> int \<times> int \<Rightarrow> byte option list" where
  "rgb32 = (\<lambda>(r, g, b). [Some (word_of_int r), Some (word_of_int g), Some (word_of_int b), None])"

definition rgb_pair :: "(int \<times> int \<times> int \<Rightarrow> byte option list) \<Rightarrow> bytes \<Rightarrow> bytes \<times> int \<times> int \<Rightarrow> (bytes \<times> int \<times> int) option" where
  "rgb_pair px src = (\<lambda>(dst, d, s). do {
     u \<leftarrow> peek_byte src (s + 1);
     v \<leftarrow> peek_byte src (s + 3);
     y0 \<leftarrow> peek_byte src s;
     let p0 = px (yuv_rgb (uint y0) u v);
     dst \<leftarrow> poke_pixel dst d p0;
     y1 \<leftarrow> peek_byte src (s + 2);
     let p1 = px (yuv_rgb (uint y1) u v);
     dst \<leftarrow> poke_pixel dst (d + int (length p0)) p1;
     Some (dst, d + int (length p0) + int (length p1), s + 4) })"

definition rgb_line :: "(int \<times> int \<times> int \<Rightarrow> byte option list) \<Rightarrow> bytes \<Rightarrow> int \<Rightarrow> bytes \<Rightarrow> int \<Rightarrow> int \<Rightarrow> bytes option" where
  "rgb_line px src s dst d width = map_option fst (repeat (nat (drop_bit 1 width)) (rgb_pair px src) (dst, d, s))"

definition yuyv_to_rgb565_line :: "bytes \<Rightarrow> int \<Rightarrow> bytes \<Rightarrow> int \<Rightarrow> int \<Rightarrow> bytes option" where
  "yuyv_to_rgb565_line = rgb_line rgb565"

definition yuyv_to_rgb24_line :: "bytes \<Rightarrow> int \<Rightarrow> bytes \<Rightarrow> int \<Rightarrow> int \<Rightarrow> bytes option" where
  "yuyv_to_rgb24_line = rgb_line rgb24"

definition yuyv_to_rgb32_line :: "bytes \<Rightarrow> int \<Rightarrow> bytes \<Rightarrow> int \<Rightarrow> int \<Rightarrow> bytes option" where
  "yuyv_to_rgb32_line = rgb_line rgb32"

text \<open>These two are the same as the last: they write red first, and step over a fourth byte.\<close>

definition yuyv_to_bgr24_line :: "bytes \<Rightarrow> int \<Rightarrow> bytes \<Rightarrow> int \<Rightarrow> int \<Rightarrow> bytes option" where
  "yuyv_to_bgr24_line = rgb_line rgb32"

definition yuyv_to_bgr32_line :: "bytes \<Rightarrow> int \<Rightarrow> bytes \<Rightarrow> int \<Rightarrow> int \<Rightarrow> bytes option" where
  "yuyv_to_bgr32_line = rgb_line rgb32"

definition rgb_lines ::
  "(bytes \<Rightarrow> int \<Rightarrow> bytes \<Rightarrow> int \<Rightarrow> int \<Rightarrow> bytes option) \<Rightarrow> bytes \<Rightarrow> int \<Rightarrow> bytes \<Rightarrow> int \<Rightarrow> int \<Rightarrow> int \<Rightarrow> bytes option" where
  "rgb_lines line pyuv pyuvstride prgb prgbstride width height =
    map_option fst (repeat (rounds height 1) (\<lambda>(dst, d, s). do {
      dst \<leftarrow> line pyuv s dst d width;
      Some (dst, d + prgbstride, s + pyuvstride) }) (prgb, 0, 0))"

definition yuyv_to_rgb565 :: "bytes \<Rightarrow> int \<Rightarrow> bytes \<Rightarrow> int \<Rightarrow> int \<Rightarrow> int \<Rightarrow> bytes option" where
  "yuyv_to_rgb565 = rgb_lines yuyv_to_rgb565_line"

definition yuyv_to_rgb24 :: "bytes \<Rightarrow> int \<Rightarrow> bytes \<Rightarrow> int \<Rightarrow> int \<Rightarrow> int \<Rightarrow> bytes option" where
  "yuyv_to_rgb24 = rgb_lines yuyv_to_rgb24_line"

definition yuyv_to_rgb32 :: "bytes \<Rightarrow> int \<Rightarrow> bytes \<Rightarrow> int \<Rightarrow> int \<Rightarrow> int \<Rightarrow> bytes option" where
  "yuyv_to_rgb32 = rgb_lines yuyv_to_rgb32_line"

definition yuyv_to_bgr24 :: "bytes \<Rightarrow> int \<Rightarrow> bytes \<Rightarrow> int \<Rightarrow> int \<Rightarrow> int \<Rightarrow> bytes option" where
  "yuyv_to_bgr24 = rgb_lines yuyv_to_bgr24_line"

definition yuyv_to_bgr32 :: "bytes \<Rightarrow> int \<Rightarrow> bytes \<Rightarrow> int \<Rightarrow> int \<Rightarrow> int \<Rightarrow> bytes option" where
  "yuyv_to_bgr32 = rgb_lines yuyv_to_bgr32_line"

end
