(* ===== verification/Camera_Frames.thy ===== *)
theory Camera_Frames
  imports Camera_Convert
begin

text \<open>
  What the conversions of the camera do to a frame.  A loop is a list of writes to its destination, and a place to which
  every write puts the same byte holds it in the end.  With that the packed formats are reordered pairs, a frame that is
  turned into planes and back has the colours of two rows averaged, and a line of RGB is the exact colours up to 1.
\<close>

section \<open>Loops that write\<close>

text \<open>What a loop does to the destination is a list of writes.\<close>

definition writes :: "(nat \<times> byte) list \<Rightarrow> bytes \<Rightarrow> bytes" where
  "writes ws m = fold (\<lambda>(p, v) m. m[p := v]) ws m"

lemma writes_simps [simp]: "writes [] m = m" "writes ((p, v) # ws) m = writes ws (m[p := v])"
  by (simp_all add: writes_def)

lemma writes_append: "writes (xs @ ys) m = writes ys (writes xs m)"
  by (simp add: writes_def)

lemma length_writes [simp]: "length (writes ws m) = length m"
  by (induction ws arbitrary: m) auto

text \<open>If every write to a place writes the same value, that value is there in the end.\<close>

lemma nth_writes:
  assumes "\<And>p v. (p, v) \<in> set ws \<Longrightarrow> v = F p" "q < length m"
  shows "writes ws m ! q = (if q \<in> fst ` set ws then F q else m ! q)"
  using assms
proof (induction ws rule: rev_induct)
  case (snoc x xs)
  obtain p v where x: "x = (p, v)" by (cases x)
  have v: "v = F p" using snoc.prems(1)[of p v] x by simp
  have IH: "writes xs m ! q = (if q \<in> fst ` set xs then F q else m ! q)"
    by (rule snoc.IH) (use snoc.prems in auto)
  have "writes (xs @ [x]) m ! q = (if q = p then v else writes xs m ! q)"
    using snoc.prems(2) by (simp add: writes_append x)
  then show ?case using IH v x by auto
qed simp

lemma peek_int [simp]: "i < length m \<Longrightarrow> peek_byte m (int i) = Some (m ! i)"
  by (simp add: peek_byte_def rd_def)

lemma poke_int [simp]: "i < length m \<Longrightarrow> poke_byte m (int i) v = Some (m[i := v])"
  by (simp add: poke_byte_def wr_def)

lemma peek_at: "k = int i \<Longrightarrow> i < length m \<Longrightarrow> peek_byte m k = Some (m ! i)"
  and poke_at: "k = int i \<Longrightarrow> i < length m \<Longrightarrow> poke_byte m k v = Some (m[i := v])"
  by simp_all

text \<open>A loop whose rounds write: the pointers are a function of the round.\<close>

lemma repeat_writes:
  assumes "\<And>i m. i < n \<Longrightarrow> length m = L \<Longrightarrow> f (m, c i) = Some (writes (ws i) m, c (Suc i))" "length m = L"
  shows "repeat n f (m, c 0) = Some (writes (concat (map ws [0 ..< n])) m, c n)"
  using assms
proof (induction n arbitrary: m c ws)
  case (Suc n)
  have "f (m, c 0) = Some (writes (ws 0) m, c (Suc 0))" using Suc.prems by simp
  moreover have "repeat n f (writes (ws 0) m, c (Suc 0)) = Some (writes (concat (map (\<lambda>i. ws (Suc i)) [0 ..< n])) (writes (ws 0) m), c (Suc n))"
    using Suc.IH[of "\<lambda>i. c (Suc i)" "\<lambda>i. ws (Suc i)" "writes (ws 0) m"] Suc.prems by simp
  moreover have "map ws [0 ..< Suc n] = ws 0 # map (\<lambda>i. ws (Suc i)) [0 ..< n]"
    by (simp add: map_upt_Suc del: upt_Suc)
  ultimately show ?case by (simp add: writes_append del: upt_Suc)
qed simp

lemma rounds_int [simp]: "rounds (int n) 1 = n" "rounds (int (2 * n)) 2 = n" "rounds (2 * int n) 2 = n" "rounds (4 * int n) 4 = n"
  by (auto simp: rounds_def)

lemma set_concat_upt: "x \<in> set (concat (map ws [0 ..< n])) \<longleftrightarrow> (\<exists>i < n. x \<in> set (ws i))"
  by auto

section \<open>Other orders of the bytes\<close>

definition pair_writes :: "nat \<times> nat \<times> nat \<times> nat \<Rightarrow> bytes \<Rightarrow> nat \<Rightarrow> nat \<Rightarrow> (nat \<times> byte) list" where
  "pair_writes = (\<lambda>(a, b, c, e) src d s. [(d, src ! (s + a)), (d + 1, src ! (s + b)), (d + 2, src ! (s + c)), (d + 3, src ! (s + e))])"

lemma packed_pair_writes:
  assumes "a < 4" "b < 4" "c < 4" "e < 4" "d + 3 < length m" "s + 3 < length src"
  shows "packed_pair (int a, int b, int c, int e) src (m, int d, int s)
    = Some (writes (pair_writes (a, b, c, e) src d s) m, int (d + 4), int (s + 4))"
proof -
  have g: "peek_byte src (int s + int k) = Some (src ! (s + k))" if "k < 4" for k
    using that assms(6) by (intro peek_at) simp_all
  have p: "poke_byte x (int d + k) v = Some (x[d + nat k := v])" if "0 \<le> k" "k < 4" "length x = length m" for x k v
    using that assms(5) by (intro poke_at) simp_all
  show ?thesis
    using g[OF assms(1)] g[OF assms(2)] g[OF assms(3)] g[OF assms(4)] p[of 0] p[of 1] p[of 2] p[of 3]
    by (simp add: packed_pair_def pair_writes_def)
qed

text \<open>Each four bytes of a row, \<open>F\<close> numbers of the bytes of the source.\<close>

lemma packed_rows:
  assumes abce: "a < 4" "b < 4" "c < 4" "e < 4" and S: "4 * n \<le> S" "4 * n \<le> T" and dst: "h * S \<le> length dst" and src: "h * T \<le> length src"
  shows "packed_to_yuyv (int a, int b, int c, int e) dst (int S) src (int T) (int (2 * n)) (int h)
    = Some (writes (concat (map (\<lambda>y. concat (map (\<lambda>w. pair_writes (a, b, c, e) src (y * S + 4 * w) (y * T + 4 * w)) [0 ..< n])) [0 ..< h])) dst)"
proof -
  let ?body = "packed_pair (int a, int b, int c, int e) src"
  let ?ws = "\<lambda>y w. pair_writes (a, b, c, e) src (y * S + 4 * w) (y * T + 4 * w)"
  have row: "repeat n ?body (m, int (y * S), int (y * T))
      = Some (writes (concat (map (?ws y) [0 ..< n])) m, int (y * S + 4 * n), int (y * T + 4 * n))"
    if "y < h" "length m = length dst" for y m
  proof -
    have le: "Suc y * S \<le> h * S" "Suc y * T \<le> h * T" using that(1) by (simp_all only: mult_le_mono1 Suc_le_eq)
    have "?body (x, int (y * S + 4 * i), int (y * T + 4 * i)) = Some (writes (?ws y i) x, int (y * S + 4 * Suc i), int (y * T + 4 * Suc i))"
      if "i < n" "length x = length dst" for i x
      using packed_pair_writes[OF abce, of "y * S + 4 * i" x "y * T + 4 * i" src] that le S dst src by (simp add: add.assoc)
    from repeat_writes[of n "length dst" ?body "\<lambda>i. (int (y * S + 4 * i), int (y * T + 4 * i))" "?ws y" m, OF this that(2)]
    show ?thesis by simp
  qed
  let ?row = "\<lambda>st. do { (dst, d, s) \<leftarrow> repeat n ?body st; Some (dst, d + (int S - int (2 * n) * 2), s + (int T - int (2 * n) * 2)) }"
  have "?row (m, int (y * S), int (y * T)) = Some (writes (concat (map (?ws y) [0 ..< n])) m, int (Suc y * S), int (Suc y * T))"
    if "y < h" "length m = length dst" for y m
    using row[OF that] by simp
  from repeat_writes[of h "length dst" ?row "\<lambda>y. (int (y * S), int (y * T))" "\<lambda>y. concat (map (?ws y) [0 ..< n])" dst, OF this]
  show ?thesis by (simp add: packed_to_yuyv_def rows_def)
qed


text \<open>The frame that is meant: byte \<open>i\<close> of the four bytes of a pair comes from place \<open>perm ! i\<close> of the pair.\<close>

definition place :: "nat list \<Rightarrow> nat \<Rightarrow> nat \<Rightarrow> nat \<Rightarrow> nat" where
  "place perm S T q = q div S * T + 4 * (q mod S div 4) + perm ! (q mod S mod 4)"

definition reordered :: "nat list \<Rightarrow> nat \<Rightarrow> nat \<Rightarrow> nat \<Rightarrow> nat \<Rightarrow> bytes \<Rightarrow> bytes \<Rightarrow> bytes" where
  "reordered perm S T n h src dst =
    map (\<lambda>q. if q < h * S \<and> q mod S < 4 * n then src ! place perm S T q else dst ! q) [0 ..< length dst]"

lemma ex_less_4: "(\<exists>k < (4 :: nat). P k) \<longleftrightarrow> P 0 \<or> P 1 \<or> P 2 \<or> P 3"
proof -
  have "k < 4 \<longleftrightarrow> k = 0 \<or> k = 1 \<or> k = 2 \<or> k = 3" for k :: nat by linarith
  then show ?thesis by auto
qed

lemma less_4_cases: "k < (4 :: nat) \<Longrightarrow> (k = 0 \<Longrightarrow> P) \<Longrightarrow> (k = 1 \<Longrightarrow> P) \<Longrightarrow> (k = 2 \<Longrightarrow> P) \<Longrightarrow> (k = 3 \<Longrightarrow> P) \<Longrightarrow> P"
  by linarith

lemma in_pair_writes:
  "(p, v) \<in> set (pair_writes (a, b, c, e) src d s) \<longleftrightarrow> (\<exists>k < 4. p = d + k \<and> v = src ! (s + [a, b, c, e] ! k))"
  by (auto simp: pair_writes_def ex_less_4)

lemma place_of_pair:
  assumes "4 * n \<le> (S :: nat)" "w < n" "k < 4"
  shows "(y * S + 4 * w + k) div S = y" "(y * S + 4 * w + k) mod S = 4 * w + k" "(4 * w + k) div 4 = w" "(4 * w + k) mod 4 = k"
proof -
  have S: "4 * w + k < S" using assms by linarith
  show "(y * S + 4 * w + k) div S = y" "(y * S + 4 * w + k) mod S = 4 * w + k"
    using S by (simp_all add: add.assoc)
  show "(4 * w + k) div 4 = w" "(4 * w + k) mod 4 = k" using assms(3) by simp_all
qed

lemma pairs_of_frame:
  assumes "4 * n \<le> (S :: nat)"
  shows "(\<exists>y < h. \<exists>w < n. \<exists>k < 4. q = y * S + 4 * w + k) \<longleftrightarrow> q < h * S \<and> q mod S < 4 * n"
proof
  assume "\<exists>y < h. \<exists>w < n. \<exists>k < 4. q = y * S + 4 * w + k"
  then obtain y w k where h: "y < h" "w < n" "k < 4" "q = y * S + 4 * w + k" by blast
  have "Suc y * S \<le> h * S" using h(1) by (simp only: mult_le_mono1 Suc_le_eq)
  then show "q < h * S \<and> q mod S < 4 * n" using h place_of_pair(2)[OF assms h(2,3), of y] assms by simp
next
  assume q: "q < h * S \<and> q mod S < 4 * n"
  then have "0 < S" by (cases S) auto
  then have "q div S < h" using q by (simp add: less_mult_imp_div_less)
  moreover have "q mod S div 4 < n" using q by (simp add: less_mult_imp_div_less mult.commute)
  moreover have "q = q div S * S + 4 * (q mod S div 4) + q mod S mod 4" by simp
  moreover have "q mod S mod 4 < 4" by simp
  ultimately show "\<exists>y < h. \<exists>w < n. \<exists>k < 4. q = y * S + 4 * w + k" by blast
qed

lemma packed_reordered:
  assumes abce: "a < 4" "b < 4" "c < 4" "e < 4" and S: "4 * n \<le> S" "4 * n \<le> T" and dst: "h * S \<le> length dst" and src: "h * T \<le> length src"
  shows "packed_to_yuyv (int a, int b, int c, int e) dst (int S) src (int T) (int (2 * n)) (int h)
    = Some (reordered [a, b, c, e] S T n h src dst)"
proof -
  let ?ws = "concat (map (\<lambda>y. concat (map (\<lambda>w. pair_writes (a, b, c, e) src (y * S + 4 * w) (y * T + 4 * w)) [0 ..< n])) [0 ..< h])"
  have ws: "(p, v) \<in> set ?ws \<longleftrightarrow> (\<exists>y < h. \<exists>w < n. \<exists>k < 4. p = y * S + 4 * w + k \<and> v = src ! (y * T + 4 * w + [a, b, c, e] ! k))" for p v
    by (simp only: set_concat_upt in_pair_writes)
  have written: "v = src ! place [a, b, c, e] S T p" if pv: "(p, v) \<in> set ?ws" for p v
  proof -
    from pv[unfolded ws] obtain y w k where h: "y < h" "w < n" "k < 4" "p = y * S + 4 * w + k" "v = src ! (y * T + 4 * w + [a, b, c, e] ! k)" by blast
    show ?thesis using h(5) unfolding h(4) place_def place_of_pair[OF S(1) h(2,3)] .
  qed
  have dom: "q \<in> fst ` set ?ws \<longleftrightarrow> q < h * S \<and> q mod S < 4 * n" for q
  proof -
    have "q \<in> fst ` set ?ws \<longleftrightarrow> (\<exists>v. (q, v) \<in> set ?ws)" by force
    also have "\<dots> \<longleftrightarrow> (\<exists>y < h. \<exists>w < n. \<exists>k < 4. q = y * S + 4 * w + k)" unfolding ws by blast
    finally show ?thesis by (simp only: pairs_of_frame[OF S(1)])
  qed
  have "writes ?ws dst = reordered [a, b, c, e] S T n h src dst"
    by (rule nth_equalityI) (simp_all only: length_writes reordered_def length_map length_upt diff_zero nth_map nth_upt plus_nat.add_0 nth_writes[OF written] dom)
  then show ?thesis by (simp only: packed_rows[OF assms])
qed

section \<open>Two rows with one row of colours\<close>

lemma in_fst: "q \<in> fst ` A \<longleftrightarrow> (\<exists>x. (q, x) \<in> A)"
  by force

lemma writes_written:
  assumes "(p, v) \<in> set ws" "\<And>p v. (p, v) \<in> set ws \<Longrightarrow> v = F p" "p < length m"
  shows "writes ws m ! p = F p"
proof -
  have "p \<in> fst ` set ws" using assms(1) by force
  then show ?thesis using nth_writes[of ws F, OF assms(2,3)] by simp
qed

definition planes_writes :: "bytes \<Rightarrow> nat \<Rightarrow> nat \<Rightarrow> nat \<Rightarrow> nat \<Rightarrow> nat \<Rightarrow> nat \<Rightarrow> (nat \<times> byte) list" where
  "planes_writes m S D d p u v =
    [(d, m ! p), (d + S, m ! (p + D)), (d + 1, m ! u), (d + 1 + S, m ! u), (d + 2, m ! (p + 1)), (d + 2 + S, m ! (p + 1 + D)), (d + 3, m ! v), (d + 3 + S, m ! v)]"

lemma planes_pair_writes:
  assumes "d + 3 + S < length dst" "py + wy + 1 + D < length m" "pu + wuv < length m" "pv + wuv < length m"
  shows "planes_pair m (int S) (int D) (int py) (int pu) (int pv) (int step) (dst, int d, int wy, int wuv)
    = Some (writes (planes_writes m S D d (py + wy) (pu + wuv) (pv + wuv)) dst, int (d + 4), int (wy + 2), int (wuv + step))"
proof -
  have u: "peek_byte m (int pu + int wuv) = Some (m ! (pu + wuv))" "peek_byte m (int pv + int wuv) = Some (m ! (pv + wuv))"
    using assms(3,4) by (auto intro!: peek_at)
  have y: "peek_byte m (int py + int wy) = Some (m ! (py + wy))" "peek_byte m (int py + int wy + int D) = Some (m ! (py + wy + D))"
    "peek_byte m (int py + (int wy + 1)) = Some (m ! (py + wy + 1))" "peek_byte m (int py + (int wy + 1) + int D) = Some (m ! (py + wy + 1 + D))"
    using assms(2) by (auto intro!: peek_at)
  have w: "poke_byte x (int d + int k) v = Some (x[d + k := v])" "poke_byte x (int d + int k + int S) v = Some (x[d + k + S := v])"
    if "k \<le> 3" "length x = length dst" for x k v
    using that assms(1) by (auto intro!: poke_at)
  show ?thesis
    unfolding planes_pair_def planes_writes_def
    using w[of 0] w[of 1] w[of 2] w[of 3] by (simp add: u y)
qed

text \<open>The planes: luma rows of \<open>2 * n\<close> bytes, and the bytes of the colours of the rows \<open>2 * y\<close> and \<open>2 * y + 1\<close> from \<open>u + y * L\<close> and
  \<open>v + y * L\<close>, each \<open>step\<close> bytes.\<close>

definition from_planes :: "bytes \<Rightarrow> nat \<Rightarrow> nat \<Rightarrow> nat \<Rightarrow> nat \<Rightarrow> nat \<Rightarrow> nat \<Rightarrow> nat \<Rightarrow> byte" where
  "from_planes m S n u v step L q =
    (let r = q div S; c = q mod S in
     if c mod 4 = 0 then m ! (r * (2 * n) + 2 * (c div 4))
     else if c mod 4 = 1 then m ! (u + (r div 2) * L + step * (c div 4))
     else if c mod 4 = 2 then m ! (r * (2 * n) + 2 * (c div 4) + 1)
     else m ! (v + (r div 2) * L + step * (c div 4)))"

lemma from_planes_at:
  assumes "4 * n \<le> S" "w < n" "j < 2"
  shows "from_planes m S n u v step L ((2 * y + j) * S + 4 * w) = m ! ((2 * y + j) * (2 * n) + 2 * w)"
    "from_planes m S n u v step L ((2 * y + j) * S + 4 * w + 1) = m ! (u + y * L + step * w)"
    "from_planes m S n u v step L ((2 * y + j) * S + 4 * w + 2) = m ! ((2 * y + j) * (2 * n) + 2 * w + 1)"
    "from_planes m S n u v step L ((2 * y + j) * S + 4 * w + 3) = m ! (v + y * L + step * w)"
proof -
  have y: "(2 * y + j) div 2 = y" using assms(3) by simp
  have S: "4 * w + k < S" if "k < 4" for k using assms that by linarith
  have s: "((2 * y + j) * S + 4 * w + k) div S = 2 * y + j" "((2 * y + j) * S + 4 * w + k) mod S = 4 * w + k" if "k < 4" for k
    using place_of_pair(1,2)[OF assms(1,2) that] by simp_all
  have q: "(4 * w + k) mod 4 = k" "(4 * w + k) div 4 = w" if "k < 4" for k using that by simp_all
  have *: "from_planes m S n u v step L ((2 * y + j) * S + 4 * w + k)
      = (if k = 0 then m ! ((2 * y + j) * (2 * n) + 2 * w) else if k = 1 then m ! (u + y * L + step * w)
         else if k = 2 then m ! ((2 * y + j) * (2 * n) + 2 * w + 1) else m ! (v + y * L + step * w))" if "k < 4" for k
    unfolding from_planes_def Let_def s[OF that] q[OF that] y ..
  show "from_planes m S n u v step L ((2 * y + j) * S + 4 * w) = m ! ((2 * y + j) * (2 * n) + 2 * w)" using *[of 0] by simp
  show "from_planes m S n u v step L ((2 * y + j) * S + 4 * w + 1) = m ! (u + y * L + step * w)" using *[of 1] by simp
  show "from_planes m S n u v step L ((2 * y + j) * S + 4 * w + 2) = m ! ((2 * y + j) * (2 * n) + 2 * w + 1)" using *[of 2] by simp
  show "from_planes m S n u v step L ((2 * y + j) * S + 4 * w + 3) = m ! (v + y * L + step * w)" using *[of 3] by simp
qed

lemma in_planes_writes:
  assumes "4 * n \<le> S" "w < n"
  shows "(q, x) \<in> set (planes_writes m S (2 * n) (2 * y * S + 4 * w) (2 * y * (2 * n) + 2 * w) (u + y * L + step * w) (v + y * L + step * w))
    \<longleftrightarrow> (\<exists>j < 2. \<exists>i < 4. q = (2 * y + j) * S + 4 * w + i) \<and> x = from_planes m S n u v step L q"
proof -
  have two: "(\<exists>j < (2 :: nat). P j) \<longleftrightarrow> P 0 \<or> P 1" for P
    by (auto simp: less_2_cases_iff)
  note at = from_planes_at[OF assms, of 0 m u v step L y] from_planes_at[OF assms, of 1 m u v step L y]
  show ?thesis
    unfolding two ex_less_4 using at by (auto simp: planes_writes_def algebra_simps)
qed

definition inside :: "nat \<Rightarrow> nat \<Rightarrow> nat \<Rightarrow> nat \<Rightarrow> nat \<Rightarrow> nat \<Rightarrow> nat \<Rightarrow> bool" where
  "inside n k u v step L len \<longleftrightarrow> (\<forall>y < k. \<forall>w < n. u + y * L + step * w < len \<and> v + y * L + step * w < len)"

lemma insideD:
  assumes "inside n k u v step L len" "y < k" "w < n"
  shows "u + y * L + step * w < len" "v + y * L + step * w < len"
  using assms unfolding inside_def by blast+

text \<open>All four formats.\<close>

lemma planes_frame:
  assumes S: "4 * n \<le> S" and dst: "2 * k * S \<le> length dst" and m: "2 * k * (2 * n) \<le> length m"
    and uv: "inside n k u v step L (length m)"
  shows "planes_to_yuyv (int u) (int v) (int step) (int L) dst (int S) m (2 * int n) (2 * int k)
    = Some (map (\<lambda>q. if q < 2 * k * S \<and> q mod S < 4 * n then from_planes m S n u v step L q else dst ! q) [0 ..< length dst])"
proof -
  let ?body = "\<lambda>y. planes_pair m (int S) (2 * int n) (int (2 * y * (2 * n))) (int u + int (y * L)) (int v + int (y * L)) (int step)"
  let ?ws = "\<lambda>y w. planes_writes m S (2 * n) (2 * y * S + 4 * w) (2 * y * (2 * n) + 2 * w) (u + y * L + step * w) (v + y * L + step * w)"
  have row: "repeat n (?body y) (x, int (2 * y * S), 0, 0)
      = Some (writes (concat (map (?ws y) [0 ..< n])) x, int (2 * y * S + 4 * n), int (2 * n), int (step * n))"
    if y: "y < k" and x: "length x = length dst" for y x
  proof -
    have le: "2 * Suc y * S \<le> 2 * k * S" "2 * Suc y * (2 * n) \<le> 2 * k * (2 * n)" using y by (simp_all only: mult_le_mono1 mult_le_mono2 Suc_le_eq)
    have "?body y (z, int (2 * y * S + 4 * w), int (2 * w), int (step * w))
        = Some (writes (?ws y w) z, int (2 * y * S + 4 * Suc w), int (2 * Suc w), int (step * Suc w))"
      if w: "w < n" and z: "length z = length dst" for w z
      using planes_pair_writes[of "2 * y * S + 4 * w" S z "2 * y * (2 * n)" "2 * w" "2 * n" m "u + y * L" "step * w" "v + y * L" step] le S dst m w z insideD[OF uv y w]
      by (simp add: add.assoc)
    from repeat_writes[of n "length dst" "?body y" "\<lambda>w. (int (2 * y * S + 4 * w), int (2 * w), int (step * w))" "?ws y" x, OF this x]
    show ?thesis by simp
  qed
  let ?row = "\<lambda>(x, d, offsety, offsetuv). do {
       (x, d, wy, wuv) \<leftarrow> repeat n (planes_pair m (int S) (2 * int n) offsety (int u + offsetuv) (int v + offsetuv) (int step)) (x, d, 0, 0);
       Some (x, d + (int S + (int S - 2 * int n * 2)), offsety + 2 * int n * 2, offsetuv + int L) }"
  let ?all = "concat (map (\<lambda>y. concat (map (?ws y) [0 ..< n])) [0 ..< k])"
  have "?row (x, int (2 * y * S), int (2 * y * (2 * n)), int (y * L))
      = Some (writes (concat (map (?ws y) [0 ..< n])) x, int (2 * Suc y * S), int (2 * Suc y * (2 * n)), int (Suc y * L))"
    if "y < k" "length x = length dst" for y x
    using row[OF that] by (simp add: algebra_simps)
  from repeat_writes[of k "length dst" ?row "\<lambda>y. (int (2 * y * S), int (2 * y * (2 * n)), int (y * L))" "\<lambda>y. concat (map (?ws y) [0 ..< n])" dst, OF this]
  have res: "planes_to_yuyv (int u) (int v) (int step) (int L) dst (int S) m (2 * int n) (2 * int k) = Some (writes ?all dst)"
    by (simp add: planes_to_yuyv_def)
  have all: "(q, x) \<in> set ?all \<longleftrightarrow> (\<exists>y < k. \<exists>w < n. (\<exists>j < 2. \<exists>i < 4. q = (2 * y + j) * S + 4 * w + i) \<and> x = from_planes m S n u v step L q)" for q x
    unfolding set_concat_upt using in_planes_writes[OF S] by blast
  have written: "x = from_planes m S n u v step L q" if "(q, x) \<in> set ?all" for q x
    using that unfolding all by blast
  have dom: "q \<in> fst ` set ?all \<longleftrightarrow> q < 2 * k * S \<and> q mod S < 4 * n" for q
  proof -
    have "q \<in> fst ` set ?all \<longleftrightarrow> (\<exists>x. (q, x) \<in> set ?all)" by force
    also have "\<dots> \<longleftrightarrow> (\<exists>r < 2 * k. \<exists>w < n. \<exists>i < 4. q = r * S + 4 * w + i)"
    proof (intro iffI; elim exE conjE)
      fix x assume "(q, x) \<in> set ?all"
      then obtain y w j i where h: "y < k" "w < n" "j < 2" "i < 4" "q = (2 * y + j) * S + 4 * w + i" unfolding all by blast
      then have "2 * y + j < 2 * k" by linarith
      then show "\<exists>r < 2 * k. \<exists>w < n. \<exists>i < 4. q = r * S + 4 * w + i" using h by blast
    next
      fix r w i assume h: "r < 2 * k" "w < n" "i < (4 :: nat)" "q = r * S + 4 * w + i"
      have "r div 2 < k" "r mod 2 < 2" "2 * (r div 2) + r mod 2 = r" using h(1) by simp_all
      then show "\<exists>x. (q, x) \<in> set ?all" using h unfolding all by metis
    qed
    finally show ?thesis by (simp only: pairs_of_frame[OF S])
  qed
  have "writes ?all dst = map (\<lambda>q. if q < 2 * k * S \<and> q mod S < 4 * n then from_planes m S n u v step L q else dst ! q) [0 ..< length dst]"
    by (rule nth_equalityI) (simp_all only: length_writes length_map length_upt diff_zero nth_map nth_upt plus_nat.add_0 nth_writes[OF written] dom)
  then show ?thesis by (simp only: res)
qed

section \<open>There and back\<close>

definition down_writes :: "bytes \<Rightarrow> nat \<Rightarrow> nat \<Rightarrow> nat \<Rightarrow> nat \<Rightarrow> nat \<Rightarrow> (nat \<times> byte) list" where
  "down_writes f T y u v s = [(y, f ! s), (u, mean (f ! (s + 1)) (f ! (s + 1 + T))), (y + 1, f ! (s + 2)), (v, mean (f ! (s + 3)) (f ! (s + 3 + T)))]"

definition luma_writes :: "bytes \<Rightarrow> nat \<Rightarrow> nat \<Rightarrow> (nat \<times> byte) list" where
  "luma_writes f y s = [(y, f ! s), (y + 1, f ! (s + 2))]"

lemma peek_frame:
  assumes "s + 3 + T < length f"
  shows "peek_byte f (int s) = Some (f ! s)" "peek_byte f (int s + 2) = Some (f ! (s + 2))"
    "chroma_mean f (int s + 1) (int T) = Some (mean (f ! (s + 1)) (f ! (s + 1 + T)))"
    "chroma_mean f (int s + 3) (int T) = Some (mean (f ! (s + 3)) (f ! (s + 3 + T)))"
proof -
  have p: "peek_byte f (int s + int i) = Some (f ! (s + i))" "peek_byte f (int s + int i + int T) = Some (f ! (s + i + T))" if "i < 4" for i
    using that assms by (auto intro!: peek_at)
  show "peek_byte f (int s) = Some (f ! s)" "peek_byte f (int s + 2) = Some (f ! (s + 2))"
    "chroma_mean f (int s + 1) (int T) = Some (mean (f ! (s + 1)) (f ! (s + 1 + T)))"
    "chroma_mean f (int s + 3) (int T) = Some (mean (f ! (s + 3)) (f ! (s + 3 + T)))"
    using p[of 0] p[of 1] p[of 2] p[of 3] by (simp_all add: chroma_mean_def)
qed

lemma poke_next: "i + 1 < length m \<Longrightarrow> poke_byte m (int i + 1) v = Some (m[i + 1 := v])"
  by (rule poke_at) simp_all

lemma yvu420sp_pair_writes:
  assumes "s + 3 + T < length f" "y + 1 < length m" "c + 1 < length m"
  shows "yvu420sp_pair f (int T) (m, int y, int c, int s) = Some (writes (down_writes f T y (c + 1) c s) m, int (y + 2), int (c + 2), int (s + 4))"
  using assms(2,3) by (simp add: yvu420sp_pair_def down_writes_def peek_frame[OF assms(1)] poke_next del: One_nat_def)

lemma planar420_pair_writes:
  assumes "s + 3 + T < length f" "y + 1 < length m" "u < length m" "v < length m"
  shows "planar420_pair f (int T) (m, int y, (int u, int v), int s)
    = Some (writes (down_writes f T y u v s) m, int (y + 2), (int (u + 1), int (v + 1)), int (s + 4))"
  using assms(2-4) by (simp add: planar420_pair_def down_writes_def peek_frame[OF assms(1)] poke_next del: One_nat_def)

lemma luma_pair_writes:
  assumes "s + 2 < length f" "y + 1 < length m"
  shows "luma_pair f (m, int y, c, int s) = Some (writes (luma_writes f y s) m, int (y + 2), c, int (s + 4))"
proof -
  have "peek_byte f (int s + 2) = Some (f ! (s + 2))" using assms(1) by (intro peek_at) simp_all
  then show ?thesis using assms by (simp add: luma_pair_def luma_writes_def poke_next del: One_nat_def)
qed

text \<open>Both kinds of planes: \<open>colour y w\<close> are the pointers to the colours.\<close>

definition frame_writes :: "bytes \<Rightarrow> nat \<Rightarrow> nat \<Rightarrow> nat \<Rightarrow> nat \<Rightarrow> nat \<Rightarrow> nat \<Rightarrow> nat \<Rightarrow> (nat \<times> byte) list" where
  "frame_writes f T n k u v step L = concat (map (\<lambda>y.
     concat (map (\<lambda>w. down_writes f T (2 * y * (2 * n) + 2 * w) (u + y * L + step * w) (v + y * L + step * w) (2 * y * T + 4 * w)) [0 ..< n]) @
     concat (map (\<lambda>w. luma_writes f ((2 * y + 1) * (2 * n) + 2 * w) ((2 * y + 1) * T + 4 * w)) [0 ..< n])) [0 ..< k])"

lemma two_rows:
  assumes T: "4 * n \<le> T" and f: "2 * k * T \<le> length f" and len: "2 * k * (2 * n) \<le> length dst"
    and pair: "\<And>y w m. y < k \<Longrightarrow> w < n \<Longrightarrow> length m = length dst \<Longrightarrow>
      pair (m, int (2 * y * (2 * n) + 2 * w), colour y w, int (2 * y * T + 4 * w))
      = Some (writes (down_writes f T (2 * y * (2 * n) + 2 * w) (u + y * L + step * w) (v + y * L + step * w) (2 * y * T + 4 * w)) m,
          int (2 * y * (2 * n) + 2 * Suc w), colour y (Suc w), int (2 * y * T + 4 * Suc w))"
    and onward: "\<And>y. y < k \<Longrightarrow> adjust (colour y n) = colour (Suc y) 0"
  shows "map_option fst (repeat k (\<lambda>st. do {
       (dst, y, c, s) \<leftarrow> repeat n pair st;
       (dst, y, c, s) \<leftarrow> repeat n (luma_pair f) (dst, y, adjust c, s + (int T - 2 * int n * 2));
       Some (dst, y, c, s + (int T - 2 * int n * 2)) }) (dst, 0, colour 0 0, 0))
    = Some (writes (frame_writes f T n k u v step L) dst)"
proof -
  let ?A = "\<lambda>y w. down_writes f T (2 * y * (2 * n) + 2 * w) (u + y * L + step * w) (v + y * L + step * w) (2 * y * T + 4 * w)"
  let ?B = "\<lambda>y w. luma_writes f ((2 * y + 1) * (2 * n) + 2 * w) ((2 * y + 1) * T + 4 * w)"
  have first: "repeat n pair (m, int (2 * y * (2 * n)), colour y 0, int (2 * y * T))
      = Some (writes (concat (map (?A y) [0 ..< n])) m, int ((2 * y + 1) * (2 * n)), colour y n, int (2 * y * T + 4 * n))"
    if "y < k" "length m = length dst" for y m
    using repeat_writes[of n "length dst" pair "\<lambda>w. (int (2 * y * (2 * n) + 2 * w), colour y w, int (2 * y * T + 4 * w))" "?A y" m, OF pair[OF that(1)] that(2)]
    by (simp add: algebra_simps)
  have second: "repeat n (luma_pair f) (m, int ((2 * y + 1) * (2 * n)), c, int ((2 * y + 1) * T))
      = Some (writes (concat (map (?B y) [0 ..< n])) m, int (2 * Suc y * (2 * n)), c, int ((2 * y + 1) * T + 4 * n))"
    if y: "y < k" and m: "length m = length dst" for y m c
  proof -
    have le: "2 * Suc y * T \<le> 2 * k * T" "2 * Suc y * (2 * n) \<le> 2 * k * (2 * n)" using y by (simp_all only: mult_le_mono1 mult_le_mono2 Suc_le_eq)
    have "luma_pair f (z, int ((2 * y + 1) * (2 * n) + 2 * w), c, int ((2 * y + 1) * T + 4 * w))
        = Some (writes (?B y w) z, int ((2 * y + 1) * (2 * n) + 2 * Suc w), c, int ((2 * y + 1) * T + 4 * Suc w))"
      if "w < n" "length z = length dst" for w z
      using luma_pair_writes[of "(2 * y + 1) * T + 4 * w" f "(2 * y + 1) * (2 * n) + 2 * w" z c] le T f len that by (simp add: algebra_simps)
    from repeat_writes[of n "length dst" "luma_pair f" "\<lambda>w. (int ((2 * y + 1) * (2 * n) + 2 * w), c, int ((2 * y + 1) * T + 4 * w))" "?B y" m, OF this m]
    show ?thesis by (simp add: algebra_simps)
  qed
  let ?row = "\<lambda>st. do {
       (dst, y, c, s) \<leftarrow> repeat n pair st;
       (dst, y, c, s) \<leftarrow> repeat n (luma_pair f) (dst, y, adjust c, s + (int T - 2 * int n * 2));
       Some (dst, y, c, s + (int T - 2 * int n * 2)) }"
  have "?row (m, int (2 * y * (2 * n)), colour y 0, int (2 * y * T))
      = Some (writes (concat (map (?A y) [0 ..< n]) @ concat (map (?B y) [0 ..< n])) m, int (2 * Suc y * (2 * n)), colour (Suc y) 0, int (2 * Suc y * T))"
    if y: "y < k" and m: "length m = length dst" for y m
  proof -
    let ?m = "writes (concat (map (?A y) [0 ..< n])) m"
    have s: "int (2 * y * T + 4 * n) + (int T - 2 * int n * 2) = int ((2 * y + 1) * T)"
      "int ((2 * y + 1) * T + 4 * n) + (int T - 2 * int n * 2) = int (2 * Suc y * T)" by (simp_all add: algebra_simps)
    show ?thesis
      using second[OF y, of ?m "colour (Suc y) 0"] m by (simp only: first[OF y m] onward[OF y] s bind.bind_lunit prod.case length_writes writes_append)
  qed
  from repeat_writes[of k "length dst" ?row "\<lambda>y. (int (2 * y * (2 * n)), colour y 0, int (2 * y * T))"
      "\<lambda>y. concat (map (?A y) [0 ..< n]) @ concat (map (?B y) [0 ..< n])" dst, OF this]
  show ?thesis by (simp add: frame_writes_def)
qed

text \<open>Where the planes lie: the first row of the pair \<open>y\<close> of the frame and its second row, and the colours.\<close>

lemma in_frame_writes:
  "(p, x) \<in> set (frame_writes f T n k u v step L) \<longleftrightarrow> (\<exists>y < k. \<exists>w < n.
     (p, x) \<in> set (down_writes f T (2 * y * (2 * n) + 2 * w) (u + y * L + step * w) (v + y * L + step * w) (2 * y * T + 4 * w))
     \<or> (p, x) \<in> set (luma_writes f ((2 * y + 1) * (2 * n) + 2 * w) ((2 * y + 1) * T + 4 * w)))"
  unfolding frame_writes_def set_concat_upt set_append Un_iff by blast

lemma writes_same:
  assumes "(p, v) \<in> set ws" "\<And>x. (p, x) \<in> set ws \<Longrightarrow> x = v" "p < length m"
  shows "writes ws m ! p = v"
  using assms
proof (induction ws rule: rev_induct)
  case (snoc a ws)
  obtain q x where a: "a = (q, x)" by (cases a)
  have step: "writes (ws @ [a]) m ! p = (if p = q then x else writes ws m ! p)"
    using snoc.prems(3) by (simp add: writes_append a)
  show ?case
  proof (cases "p = q")
    case True
    then show ?thesis using step snoc.prems(2)[of x] a by simp
  next
    case False
    have "(p, v) \<in> set ws" using snoc.prems(1) False a by simp
    then have "writes ws m ! p = v" by (rule snoc.IH) (use snoc.prems(2,3) in simp_all)
    then show ?thesis using step False by simp
  qed
qed simp

text \<open>No colour is put on a luma byte or on another colour.\<close>

definition apart :: "nat \<Rightarrow> nat \<Rightarrow> nat \<Rightarrow> nat \<Rightarrow> nat \<Rightarrow> nat \<Rightarrow> bool" where
  "apart n k u v step L \<longleftrightarrow> (\<forall>y < k. \<forall>w < n. 2 * k * (2 * n) \<le> u + y * L + step * w \<and> 2 * k * (2 * n) \<le> v + y * L + step * w
     \<and> (\<forall>y' < k. \<forall>w' < n. u + y * L + step * w \<noteq> v + y' * L + step * w'
        \<and> (y * L + step * w = y' * L + step * w' \<longrightarrow> y = y' \<and> w = w')))"

lemma apartD:
  assumes "apart n k u v step L" "y < k" "w < n"
  shows "2 * k * (2 * n) \<le> u + y * L + step * w" "2 * k * (2 * n) \<le> v + y * L + step * w"
    "y' < k \<Longrightarrow> w' < n \<Longrightarrow> u + y * L + step * w \<noteq> v + y' * L + step * w'"
    "y' < k \<Longrightarrow> w' < n \<Longrightarrow> y * L + step * w = y' * L + step * w' \<Longrightarrow> y = y' \<and> w = w'"
  using assms(1)[unfolded apart_def, rule_format, OF assms(2,3)] by simp_all

text \<open>What a place of the planes gets, with \<open>p\<close> in the luma plane of width \<open>2 * n\<close>.\<close>

lemma luma_place:
  assumes "w < n" "b < 2" "w' < n" "b' < 2" "r * (2 * n) + 2 * w + b = r' * (2 * n) + 2 * w' + (b' :: nat)"
  shows "r = r' \<and> w = w' \<and> b = b'"
proof -
  have s: "2 * w + b < 2 * n" "2 * w' + b' < 2 * n" using assms(1-4) by linarith+
  have "r = (r * (2 * n) + (2 * w + b)) div (2 * n)" "r' = (r' * (2 * n) + (2 * w' + b')) div (2 * n)"
    using s by simp_all
  then have r: "r = r'" using assms(5) by (simp add: add.assoc)
  then have e: "2 * w + b = 2 * w' + b'" using assms(5) by simp
  then have "w = w'" using assms(2,4) by presburger
  then show ?thesis using r e by simp
qed

lemma luma_below:
  assumes "w < n" "b < 2" "r < 2 * (k :: nat)"
  shows "r * (2 * n) + 2 * w + b < 2 * k * (2 * n)"
proof -
  have "Suc r * (2 * n) \<le> 2 * k * (2 * n)" using assms(3) by (simp only: mult_le_mono1 Suc_le_eq)
  then show ?thesis using assms(1,2) by simp
qed

lemma frame_writes_kinds:
  "(p, x) \<in> set (frame_writes f T n k u v step L) \<longleftrightarrow>
     (\<exists>r < 2 * k. \<exists>w < n. \<exists>b < 2. p = r * (2 * n) + 2 * w + b \<and> x = f ! (r * T + 4 * w + 2 * b))
   \<or> (\<exists>y < k. \<exists>w < n. p = u + y * L + step * w \<and> x = mean (f ! (2 * y * T + 4 * w + 1)) (f ! ((2 * y + 1) * T + 4 * w + 1)))
   \<or> (\<exists>y < k. \<exists>w < n. p = v + y * L + step * w \<and> x = mean (f ! (2 * y * T + 4 * w + 3)) (f ! ((2 * y + 1) * T + 4 * w + 3)))"
  (is "?l \<longleftrightarrow> ?r1 \<or> ?r2 \<or> ?r3")
proof -
  have two: "(\<exists>j < (2 :: nat). P j) \<longleftrightarrow> P 0 \<or> P 1" for P by (auto simp: less_2_cases_iff)
  have rows: "(\<exists>r < 2 * k. P r) \<longleftrightarrow> (\<exists>y < k. P (2 * y) \<or> P (2 * y + 1))" for P
  proof
    assume "\<exists>r < 2 * k. P r"
    then obtain r where r: "r < 2 * k" "P r" by blast
    have "r div 2 < k" "r = 2 * (r div 2) \<or> r = 2 * (r div 2) + 1" using r(1) by presburger+
    then show "\<exists>y < k. P (2 * y) \<or> P (2 * y + 1)" using r(2) by metis
  next
    assume "\<exists>y < k. P (2 * y) \<or> P (2 * y + 1)"
    then obtain y where y: "y < k" "P (2 * y) \<or> P (2 * y + 1)" by blast
    have "2 * y < 2 * k" "2 * y + 1 < 2 * k" using y(1) by simp_all
    then show "\<exists>r < 2 * k. P r" using y(2) by blast
  qed
  have e: "2 * y * T + 4 * w + 1 + T = (2 * y + 1) * T + 4 * w + 1" "2 * y * T + 4 * w + 3 + T = (2 * y + 1) * T + 4 * w + 3" for y w
    by (simp_all add: algebra_simps)
  have l: "?l \<longleftrightarrow> (\<exists>y < k. \<exists>w < n. (p = 2 * y * (2 * n) + 2 * w \<and> x = f ! (2 * y * T + 4 * w))
      \<or> (p = 2 * y * (2 * n) + 2 * w + 1 \<and> x = f ! (2 * y * T + 4 * w + 2))
      \<or> (p = (2 * y + 1) * (2 * n) + 2 * w \<and> x = f ! ((2 * y + 1) * T + 4 * w))
      \<or> (p = (2 * y + 1) * (2 * n) + 2 * w + 1 \<and> x = f ! ((2 * y + 1) * T + 4 * w + 2))
      \<or> (p = u + y * L + step * w \<and> x = mean (f ! (2 * y * T + 4 * w + 1)) (f ! ((2 * y + 1) * T + 4 * w + 1)))
      \<or> (p = v + y * L + step * w \<and> x = mean (f ! (2 * y * T + 4 * w + 3)) (f ! ((2 * y + 1) * T + 4 * w + 3))))"
    unfolding in_frame_writes down_writes_def luma_writes_def e by auto
  have "?r1 \<longleftrightarrow> (\<exists>y < k. \<exists>w < n. (p = 2 * y * (2 * n) + 2 * w \<and> x = f ! (2 * y * T + 4 * w))
      \<or> (p = 2 * y * (2 * n) + 2 * w + 1 \<and> x = f ! (2 * y * T + 4 * w + 2))
      \<or> (p = (2 * y + 1) * (2 * n) + 2 * w \<and> x = f ! ((2 * y + 1) * T + 4 * w))
      \<or> (p = (2 * y + 1) * (2 * n) + 2 * w + 1 \<and> x = f ! ((2 * y + 1) * T + 4 * w + 2)))"
    unfolding rows two by (simp only: mult_zero_right add_0_right mult_1_right) blast
  then show ?thesis unfolding l by blast
qed

text \<open>The frame that comes back: the colours of two rows are their mean.\<close>

definition averaged :: "nat \<Rightarrow> nat \<Rightarrow> nat \<Rightarrow> nat \<Rightarrow> bytes \<Rightarrow> bytes \<Rightarrow> bytes" where
  "averaged S T n k f dst = map (\<lambda>q. let r = q div S; c = q mod S in
     if q < 2 * k * S \<and> c < 4 * n then
       if even c then f ! (r * T + c) else mean (f ! (2 * (r div 2) * T + c)) (f ! ((2 * (r div 2) + 1) * T + c))
     else dst ! q) [0 ..< length dst]"

text \<open>The interface between a conversion to planes and the one back is where the planes lie: a layout that keeps the bytes apart.\<close>

locale planes_layout =
  fixes n k u v step L :: nat
  assumes ap: "apart n k u v step L"
begin

text \<open>What is read back.\<close>

lemma frame_planes_nth:
  assumes len: "2 * k * (2 * n) \<le> length m" "inside n k u v step L (length m)"
  shows "r < 2 * k \<Longrightarrow> w < n \<Longrightarrow> b < 2 \<Longrightarrow> writes (frame_writes f T n k u v step L) m ! (r * (2 * n) + 2 * w + b) = f ! (r * T + 4 * w + 2 * b)"
    and "y < k \<Longrightarrow> w < n \<Longrightarrow> writes (frame_writes f T n k u v step L) m ! (u + y * L + step * w) = mean (f ! (2 * y * T + 4 * w + 1)) (f ! ((2 * y + 1) * T + 4 * w + 1))"
    and "y < k \<Longrightarrow> w < n \<Longrightarrow> writes (frame_writes f T n k u v step L) m ! (v + y * L + step * w) = mean (f ! (2 * y * T + 4 * w + 3)) (f ! ((2 * y + 1) * T + 4 * w + 3))"
proof -
  show "(writes (frame_writes f T n k u v step L) m) ! (r * (2 * n) + 2 * w + b) = f ! (r * T + 4 * w + 2 * b)" if h: "r < 2 * k" "w < n" "b < 2"
  proof (rule writes_same)
    have below: "r * (2 * n) + 2 * w + b < 2 * k * (2 * n)" by (rule luma_below[OF h(2,3,1)])
    show "r * (2 * n) + 2 * w + b < length m" using below len(1) by linarith
    show "(r * (2 * n) + 2 * w + b, f ! (r * T + 4 * w + 2 * b)) \<in> set (frame_writes f T n k u v step L)"
      unfolding frame_writes_kinds using h by blast
    fix x assume "(r * (2 * n) + 2 * w + b, x) \<in> set (frame_writes f T n k u v step L)"
    then show "x = f ! (r * T + 4 * w + 2 * b)" unfolding frame_writes_kinds
    proof (elim disjE exE conjE)
      fix r' w' b' assume "w' < n" "b' < 2" "r * (2 * n) + 2 * w + b = r' * (2 * n) + 2 * w' + b'" "x = f ! (r' * T + 4 * w' + 2 * b')"
      then show ?thesis using luma_place[OF h(2,3)] by blast
    next
      fix y w' assume "y < k" "w' < n" "r * (2 * n) + 2 * w + b = u + y * L + step * w'"
      then show ?thesis using apartD(1)[OF ap, of y w'] below by linarith
    next
      fix y w' assume "y < k" "w' < n" "r * (2 * n) + 2 * w + b = v + y * L + step * w'"
      then show ?thesis using apartD(2)[OF ap, of y w'] below by linarith
    qed
  qed
  show "writes (frame_writes f T n k u v step L) m ! (u + y * L + step * w) = mean (f ! (2 * y * T + 4 * w + 1)) (f ! ((2 * y + 1) * T + 4 * w + 1))" if h: "y < k" "w < n"
  proof (rule writes_same)
    show "u + y * L + step * w < length m" using insideD[OF len(2) h] by simp
    show "(u + y * L + step * w, mean (f ! (2 * y * T + 4 * w + 1)) (f ! ((2 * y + 1) * T + 4 * w + 1))) \<in> set (frame_writes f T n k u v step L)"
      unfolding frame_writes_kinds using h by blast
    fix x assume "(u + y * L + step * w, x) \<in> set (frame_writes f T n k u v step L)"
    then show "x = mean (f ! (2 * y * T + 4 * w + 1)) (f ! ((2 * y + 1) * T + 4 * w + 1))" unfolding frame_writes_kinds
    proof (elim disjE exE conjE)
      fix r w' b assume "r < 2 * k" "w' < n" "b < 2" "u + y * L + step * w = r * (2 * n) + 2 * w' + b"
      then show ?thesis using apartD(1)[OF ap h] luma_below[of w' n b r k] by linarith
    next
      fix y' w' assume e: "y' < k" "w' < n" "u + y * L + step * w = u + y' * L + step * w'"
        "x = mean (f ! (2 * y' * T + 4 * w' + 1)) (f ! ((2 * y' + 1) * T + 4 * w' + 1))"
      have "y * L + step * w = y' * L + step * w'" using e(3) by linarith
      then show ?thesis using apartD(4)[OF ap h e(1,2)] e(4) by simp
    next
      fix y' w' assume "y' < k" "w' < n" "u + y * L + step * w = v + y' * L + step * w'"
      then show ?thesis using apartD(3)[OF ap h] by blast
    qed
  qed
  show "writes (frame_writes f T n k u v step L) m ! (v + y * L + step * w) = mean (f ! (2 * y * T + 4 * w + 3)) (f ! ((2 * y + 1) * T + 4 * w + 3))" if h: "y < k" "w < n"
  proof (rule writes_same)
    show "v + y * L + step * w < length m" using insideD[OF len(2) h] by simp
    show "(v + y * L + step * w, mean (f ! (2 * y * T + 4 * w + 3)) (f ! ((2 * y + 1) * T + 4 * w + 3))) \<in> set (frame_writes f T n k u v step L)"
      unfolding frame_writes_kinds using h by blast
    fix x assume "(v + y * L + step * w, x) \<in> set (frame_writes f T n k u v step L)"
    then show "x = mean (f ! (2 * y * T + 4 * w + 3)) (f ! ((2 * y + 1) * T + 4 * w + 3))" unfolding frame_writes_kinds
    proof (elim disjE exE conjE)
      fix r w' b assume "r < 2 * k" "w' < n" "b < 2" "v + y * L + step * w = r * (2 * n) + 2 * w' + b"
      then show ?thesis using apartD(2)[OF ap h] luma_below[of w' n b r k] by linarith
    next
      fix y' w' assume e: "y' < k" "w' < n" "v + y * L + step * w = u + y' * L + step * w'"
      then show ?thesis using apartD(3)[OF ap e(1,2) h] by simp
    next
      fix y' w' assume e: "y' < k" "w' < n" "v + y * L + step * w = v + y' * L + step * w'"
        "x = mean (f ! (2 * y' * T + 4 * w' + 3)) (f ! ((2 * y' + 1) * T + 4 * w' + 3))"
      have "y * L + step * w = y' * L + step * w'" using e(3) by linarith
      then show ?thesis using apartD(4)[OF ap h e(1,2)] e(4) by simp
    qed
  qed
qed

lemma planes_back:
  assumes S: "4 * n \<le> S"
    and len: "2 * k * (2 * n) \<le> length m" "inside n k u v step L (length m)"
    and dst: "2 * k * S \<le> length dst"
  shows "planes_to_yuyv (int u) (int v) (int step) (int L) dst (int S) (writes (frame_writes f T n k u v step L) m) (2 * int n) (2 * int k)
    = Some (averaged S T n k f dst)"
proof -
  let ?m = "writes (frame_writes f T n k u v step L) m"
  have "from_planes ?m S n u v step L q = (let r = q div S; c = q mod S in
       if even c then f ! (r * T + c) else mean (f ! (2 * (r div 2) * T + c)) (f ! ((2 * (r div 2) + 1) * T + c)))"
    if q: "q < 2 * k * S" "q mod S < 4 * n" for q
  proof -
    define r w j where "r = q div S" and "w = q mod S div 4" and "j = q mod S mod 4"
    have r: "r < 2 * k" using q(1) by (simp add: r_def less_mult_imp_div_less)
    have w: "w < n" using q(2) by (simp add: w_def less_mult_imp_div_less mult.commute)
    have y: "r div 2 < k" using r by linarith
    have c: "q mod S = 4 * w + j" by (simp add: w_def j_def)
    have j: "j < 4" by (simp add: j_def)
    have e: "(4 * w + j) mod 4 = j" "(4 * w + j) div 4 = w" "even (4 * w + j) = even j" using j by simp_all
    note at = frame_planes_nth[OF len, where f = f and T = T]
    note luma = at(1)[OF r w, of 0] at(1)[OF r w, of 1]
    note colour = at(2)[OF y w] at(3)[OF y w]
    show ?thesis
      unfolding from_planes_def Let_def r_def[symmetric] c e
      using j luma colour by (elim less_4_cases) (simp_all add: add.assoc)
  qed
  then show ?thesis unfolding planes_frame[where n = n and S = S and k = k and dst = dst and m = ?m and u = u and v = v and L = L and step = step, OF S dst, unfolded length_writes, OF len]
    by (simp add: averaged_def Let_def)
qed

end

lemma yvu420sp_writes:
  assumes T: "4 * n \<le> T" and f: "2 * k * T \<le> length f" and dst: "6 * n * k \<le> length dst"
  shows "yuyv_to_yvu420sp dst (2 * int n) (2 * int k) f (int T) (2 * int n) (2 * int k)
    = Some (writes (frame_writes f T n k (2 * n * (2 * k) + 1) (2 * n * (2 * k)) 2 (2 * n)) dst)"
proof -
  let ?B = "2 * n * (2 * k)"
  let ?colour = "\<lambda>y w. int (?B + y * (2 * n) + 2 * w)"
  have len: "2 * k * (2 * n) \<le> length dst" using dst by (simp add: algebra_simps)
  have pair: "yvu420sp_pair f (int T) (m, int (2 * y * (2 * n) + 2 * w), ?colour y w, int (2 * y * T + 4 * w))
      = Some (writes (down_writes f T (2 * y * (2 * n) + 2 * w) (?B + 1 + y * (2 * n) + 2 * w) (?B + y * (2 * n) + 2 * w) (2 * y * T + 4 * w)) m,
          int (2 * y * (2 * n) + 2 * Suc w), ?colour y (Suc w), int (2 * y * T + 4 * Suc w))"
    if y: "y < k" and w: "w < n" and m: "length m = length dst" for y w m
  proof -
    have le: "2 * Suc y * T \<le> 2 * k * T" "Suc y * (2 * n) \<le> k * (2 * n)" using y by (simp_all only: mult_le_mono1 mult_le_mono2 Suc_le_eq)
    show ?thesis
      using yvu420sp_pair_writes[of "2 * y * T + 4 * w" T f "2 * y * (2 * n) + 2 * w" m "?B + y * (2 * n) + 2 * w"] le T f dst w m
      by (simp add: algebra_simps)
  qed
  from two_rows[OF T f len, of "yvu420sp_pair f (int T)" ?colour "?B + 1" "2 * n" 2 ?B "\<lambda>c. c", OF pair]
  show ?thesis by (simp add: yuyv_to_yvu420sp_def Let_def)
qed

lemma halved: "drop_bit (Suc 0) (2 * int n) = int n"
  by (simp add: drop_bit_Suc)

lemma planar420_writes:
  assumes T: "4 * n \<le> T" and f: "2 * k * T \<le> length f" and dst: "2 * k * (2 * n) \<le> length dst"
    and uv: "u + n * k \<le> length dst" "v + n * k \<le> length dst"
  shows "planar420_rows dst (2 * int n) (int n) f (int T) (2 * int n) (2 * int k) (int u, int v)
    = Some (writes (frame_writes f T n k u v 1 n) dst)"
proof -
  let ?colour = "\<lambda>y w. (int (u + y * n + w), int (v + y * n + w))"
  have pair: "planar420_pair f (int T) (m, int (2 * y * (2 * n) + 2 * w), ?colour y w, int (2 * y * T + 4 * w))
      = Some (writes (down_writes f T (2 * y * (2 * n) + 2 * w) (u + y * n + 1 * w) (v + y * n + 1 * w) (2 * y * T + 4 * w)) m,
          int (2 * y * (2 * n) + 2 * Suc w), ?colour y (Suc w), int (2 * y * T + 4 * Suc w))"
    if y: "y < k" and w: "w < n" and m: "length m = length dst" for y w m
  proof -
    have le: "2 * Suc y * T \<le> 2 * k * T" "Suc y * (2 * n) \<le> k * (2 * n)" "Suc y * n \<le> k * n" using y by (simp_all only: mult_le_mono1 mult_le_mono2 Suc_le_eq)
    show ?thesis
      using planar420_pair_writes[of "2 * y * T + 4 * w" T f "2 * y * (2 * n) + 2 * w" m "u + y * n + w" "v + y * n + w"] le T f dst uv w m
      by (simp add: algebra_simps)
  qed
  from two_rows[OF T f dst, of "planar420_pair f (int T)" ?colour u n 1 v "\<lambda>uv. uv", OF pair]
  show ?thesis by (simp add: planar420_rows_def Let_def halved)
qed

lemma chroma_aligned: "chroma_stride (2 * int (16 * j)) = int (16 * j)"
proof -
  have "x AND - 16 = push_bit 4 (drop_bit 4 x)" for x :: int
  proof -
    have "- 16 = (NOT (mask 4) :: int)" by (simp add: mask_eq_exp_minus_1 not_int_def)
    moreover have "x AND NOT (mask 4) = push_bit 4 (drop_bit 4 x)" by (auto intro!: bit_eqI simp: bit_simps)
    ultimately show ?thesis by simp
  qed
  moreover have "drop_bit 4 (16 * int j + 15) = int j" by (simp add: drop_bit_eq_div)
  ultimately show ?thesis using halved[of "16 * j"] by (simp add: chroma_stride_def push_bit_eq_mult)
qed

lemma row_place: "w < n \<Longrightarrow> w' < n \<Longrightarrow> y * n + w = y' * n + w' \<Longrightarrow> y = y' \<and> w = (w' :: nat)"
  by (metis add.commute add_right_cancel div_mult_self1 div_less add_0 less_nat_zero_code mult.commute)

lemma apart_sp: "apart n k (2 * n * (2 * k) + 1) (2 * n * (2 * k)) 2 (2 * n)"
proof -
  have e: "y * (2 * n) + 2 * w = 2 * (y * n + w)" for y w by (simp add: algebra_simps)
  have "2 * n * (2 * k) + 1 + 2 * a \<noteq> 2 * n * (2 * k) + 2 * b" for a b by presburger
  then have ne: "2 * n * (2 * k) + 1 + y * (2 * n) + 2 * w \<noteq> 2 * n * (2 * k) + y' * (2 * n) + 2 * w'" for y w y' w'
    unfolding add.assoc e by (simp only: add.assoc not_False_eq_True)
  show ?thesis
    unfolding apart_def
  proof (intro allI impI conjI)
    fix y w y' w' assume h: "y < k" "w < n" "y' < k" "w' < n"
    show "2 * n * (2 * k) + 1 + y * (2 * n) + 2 * w \<noteq> 2 * n * (2 * k) + y' * (2 * n) + 2 * w'" by (rule ne)
    show "y = y'" "w = w'" if "y * (2 * n) + 2 * w = y' * (2 * n) + 2 * w'"
      using row_place[OF h(2,4), of y y'] that unfolding e by simp_all
  qed (simp_all add: mult.commute)
qed

interpretation nv21: planes_layout n k "2 * n * (2 * k) + 1" "2 * n * (2 * k)" 2 "2 * n" for n k
  by unfold_locales (rule apart_sp)

lemma inside_sp: "6 * n * k \<le> len \<Longrightarrow> inside n k (2 * n * (2 * k) + 1) (2 * n * (2 * k)) 2 (2 * n) len"
  unfolding inside_def
proof (intro allI impI)
  fix y w assume "6 * n * k \<le> len" "y < k" "w < n"
  moreover have "Suc y * (2 * n) \<le> k * (2 * n)" using \<open>y < k\<close> by (simp only: mult_le_mono1 Suc_le_eq)
  ultimately show "2 * n * (2 * k) + 1 + y * (2 * n) + 2 * w < len \<and> 2 * n * (2 * k) + y * (2 * n) + 2 * w < len"
    by (simp add: algebra_simps)
qed

lemma plane_below: "y < k \<Longrightarrow> w < n \<Longrightarrow> y * n + w < n * (k :: nat)"
proof -
  assume "y < k" "w < n"
  then have "Suc y * n \<le> k * n" by (simp only: mult_le_mono1 Suc_le_eq)
  then show ?thesis using \<open>w < n\<close> by (simp add: mult.commute)
qed

lemma apart_planar:
  assumes "(u = 2 * k * (2 * n) \<and> v = 2 * k * (2 * n) + n * k) \<or> (v = 2 * k * (2 * n) \<and> u = 2 * k * (2 * n) + n * k)"
  shows "apart n k u v 1 n"
  unfolding apart_def mult_1
proof (intro allI impI conjI)
  fix y w y' w' assume h: "y < k" "w < n" "y' < k" "w' < n"
  show "u + y * n + w \<noteq> v + y' * n + w'" using plane_below[OF h(1,2)] plane_below[OF h(3,4)] assms by linarith
  show "y = y'" "w = w'" if "y * n + w = y' * n + w'" using row_place[OF h(2,4) that] by simp_all
qed (use assms in linarith)+

interpretation yuv420: planes_layout n k "2 * k * (2 * n)" "2 * k * (2 * n) + n * k" 1 n for n k
  by (unfold_locales, rule apart_planar) blast

interpretation yvu420: planes_layout n k "2 * k * (2 * n) + n * k" "2 * k * (2 * n)" 1 n for n k
  by (unfold_locales, rule apart_planar) blast

lemma inside_planar:
  assumes "u + n * k \<le> len" "v + n * k \<le> len"
  shows "inside n k u v 1 n len"
  unfolding inside_def mult_1
proof (intro allI impI)
  fix y w assume "y < k" "w < n"
  then show "u + y * n + w < len \<and> v + y * n + w < len" using plane_below[of y k w n] assms by linarith
qed

lemma sp_back:
  assumes "4 * n \<le> S" "4 * n \<le> T" "2 * k * T \<le> length f" "6 * n * k \<le> length mid" "2 * k * S \<le> length dst"
  shows "do { m \<leftarrow> yuyv_to_yvu420sp mid (2 * int n) (2 * int k) f (int T) (2 * int n) (2 * int k);
      nv21_to_yuyv dst (int S) m (2 * int n) (2 * int k) } = Some (averaged S T n k f dst)"
proof -
  have len: "2 * k * (2 * n) \<le> length mid" using assms(4) by (simp add: algebra_simps)
  show ?thesis
    using nv21.planes_back[OF assms(1) len inside_sp[OF assms(4)] assms(5), of f T] yvu420sp_writes[OF assms(2-4)]
    by (simp add: nv21_to_yuyv_def Let_def add.commute)
qed

lemma planar_back:
  assumes "4 * n \<le> S" "4 * n \<le> T" "2 * k * T \<le> length f" "6 * n * k \<le> length mid" "2 * k * S \<le> length dst" "16 dvd n"
  shows "do { m \<leftarrow> yuyv_to_yuv420p mid (2 * int n) (2 * int k) f (int T) (2 * int n) (2 * int k);
      yuv420_to_yuyv dst (int S) m (2 * int n) (2 * int k) } = Some (averaged S T n k f dst)"
    "do { m \<leftarrow> yuyv_to_yvu420p mid (2 * int n) (2 * int k) f (int T) (2 * int n) (2 * int k);
      yvu420_to_yuyv dst (int S) m (2 * int n) (2 * int k) } = Some (averaged S T n k f dst)"
proof -
  let ?B = "2 * k * (2 * n)"
  have len: "?B \<le> length mid" "?B + n * k \<le> length mid" "?B + n * k + n * k \<le> length mid" using assms(4) by (simp_all add: algebra_simps)
  have cs: "chroma_stride (2 * int n) = int n" using assms(6) chroma_aligned by (elim dvdE) simp
  have B: "2 * int n * (2 * int k) = int ?B" by simp
  have q: "cdiv (int ?B) 4 = int (n * k)" "cdiv (2 * int n) 2 = int n" by (simp_all add: cdiv_def flip: of_nat_mult) (simp add: mult.commute)
  have h: "int ?B + drop_bit 1 (int n * (2 * int k)) = int (?B + n * k)" "int ?B + int (n * k) = int (?B + n * k)"
    using halved[of "n * k"] by (simp_all add: algebra_simps)
  have w: "planar420_rows mid (2 * int n) (int n) f (int T) (2 * int n) (2 * int k) (int ?B, int (?B + n * k))
      = Some (writes (frame_writes f T n k ?B (?B + n * k) 1 n) mid)"
    "planar420_rows mid (2 * int n) (int n) f (int T) (2 * int n) (2 * int k) (int (?B + n * k), int ?B)
      = Some (writes (frame_writes f T n k (?B + n * k) ?B 1 n) mid)"
    by (rule planar420_writes[OF assms(2,3) len(1)], use len in linarith, use len in linarith)+
  have b: "planes_to_yuyv (int ?B) (int (?B + n * k)) 1 (int n) dst (int S) (writes (frame_writes f T n k ?B (?B + n * k) 1 n) mid) (2 * int n) (2 * int k) = Some (averaged S T n k f dst)"
    "planes_to_yuyv (int (?B + n * k)) (int ?B) 1 (int n) dst (int S) (writes (frame_writes f T n k (?B + n * k) ?B 1 n) mid) (2 * int n) (2 * int k) = Some (averaged S T n k f dst)"
    by (rule yuv420.planes_back[OF assms(1) len(1) inside_planar assms(5), of f T, unfolded of_nat_1]
        yvu420.planes_back[OF assms(1) len(1) inside_planar assms(5), of f T, unfolded of_nat_1], use len in linarith, use len in linarith)+
  show "do { m \<leftarrow> yuyv_to_yuv420p mid (2 * int n) (2 * int k) f (int T) (2 * int n) (2 * int k);
      yuv420_to_yuyv dst (int S) m (2 * int n) (2 * int k) } = Some (averaged S T n k f dst)"
    "do { m \<leftarrow> yuyv_to_yvu420p mid (2 * int n) (2 * int k) f (int T) (2 * int n) (2 * int k);
      yvu420_to_yuyv dst (int S) m (2 * int n) (2 * int k) } = Some (averaged S T n k f dst)"
    unfolding yuyv_to_yuv420p_def yuyv_to_yvu420p_def yuv420_to_yuyv_def yvu420_to_yuyv_def Let_def cs B q h w bind.bind_lunit b
    by (rule refl)+
qed

section \<open>Colours\<close>

text \<open>The exact red, green and blue of a pixel, clipped to 0 to 255, in hundred-thousandths.\<close>

definition exact_rgb :: "byte \<Rightarrow> byte \<Rightarrow> byte \<Rightarrow> nat \<Rightarrow> int" where
  "exact_rgb y u v j = (let cu = uint u - 128; cv = uint v - 128 in
     max 0 (min 25500000 (100000 * uint y + (if j = 0 then 140200 * cv else if j = 1 then - 34414 * cu - 71414 * cv else 177200 * cu))))"

text \<open>A byte within one and a half of an exact colour.\<close>

definition near_colour :: "int \<Rightarrow> int \<Rightarrow> bool" where
  "near_colour x e \<longleftrightarrow> \<bar>100000 * x - e\<bar> < 150000"

lemma clip_range: "0 \<le> clip x" "clip x < 256"
  by (simp_all add: clip_def Let_def)

lemma clip_near: "near_colour x e \<Longrightarrow> near_colour (clip x) (max 0 (min 25500000 e))"
  unfolding near_colour_def clip_def Let_def by (simp add: abs_less_iff max_def min_def)

lemma yuv_rgb_near:
  obtains r g b where "yuv_rgb (uint y) u v = (r, g, b)" "0 \<le> r \<and> r < 256 \<and> 0 \<le> g \<and> g < 256 \<and> 0 \<le> b \<and> b < 256"
    "near_colour r (exact_rgb y u v 0)" "near_colour g (exact_rgb y u v 1)" "near_colour b (exact_rgb y u v 2)"
proof -
  let ?u = "uint u - 128" and ?v = "uint v - 128"
  have uv: "- 128 \<le> ?u" "?u \<le> 127" "- 128 \<le> ?v" "?v \<le> 127"
    using uint_bounded[of u] uint_bounded[of v] uint_nonnegative[of u] uint_nonnegative[of v] by simp_all
  have near: "near_colour (uint y + a div 256) (100000 * uint y + e)" if "- 12800000 < 100000 * a - 256 * e" "100000 * a - 256 * e < 38400000" for a e :: int
  proof -
    define q m where "q = a div 256" and "m = a mod 256"
    have a: "100000 * a = 25600000 * q + 100000 * m" using mult_div_mod_eq[of 256 a, folded q_def m_def] by linarith
    have m: "0 \<le> m" "m < 256" by (simp_all add: m_def)
    have "100000 * q - e < 150000" using that(2) m(1) unfolding a by linarith
    moreover have "- 150000 < 100000 * q - e" using that(1) m(2) unfolding a by linarith
    ultimately show ?thesis unfolding near_colour_def abs_less_iff q_def by simp
  qed
  have gap: "near_colour (uint y + 358 * c div 256) (100000 * uint y + 140200 * c)" "near_colour (uint y + 453 * c div 256) (100000 * uint y + 177200 * c)"
    "near_colour (uint y + (- 88 * c - 182 * e) div 256) (100000 * uint y + (- 34414 * c - 71414 * e))"
    if "- 128 \<le> c" "c \<le> 127" "- 128 \<le> e" "e \<le> 127" for c e :: int
    by (rule near; use that in \<open>simp add: algebra_simps\<close>)+
  have "drop_bit 8 x = x div 256" for x :: int by (simp add: drop_bit_eq_div)
  note rgb = yuv_rgb_def[of "uint y" u v, unfolded Let_def this]
  have e: "exact_rgb y u v 0 = max 0 (min 25500000 (100000 * uint y + 140200 * ?v))"
    "exact_rgb y u v 1 = max 0 (min 25500000 (100000 * uint y + (- 34414 * ?u - 71414 * ?v)))"
    "exact_rgb y u v 2 = max 0 (min 25500000 (100000 * uint y + 177200 * ?u))"
    unfolding exact_rgb_def Let_def by simp_all
  show ?thesis
  proof (rule that[OF rgb], unfold e)
  qed (rule clip_near[OF gap(1)[OF uv(3,4,1,2)]] clip_near[OF gap(2)[OF uv]] clip_near[OF gap(3)[OF uv]] clip_range conjI)+
qed

text \<open>The byte \<open>q\<close> of a line of RGB.\<close>

definition rgb_byte :: "bytes \<Rightarrow> nat \<Rightarrow> byte" where
  "rgb_byte src q = (let p = q div 3; (r, g, b) = yuv_rgb (uint (src ! (2 * p))) (src ! (4 * (p div 2) + 1)) (src ! (4 * (p div 2) + 3)) in
     word_of_int (if q mod 3 = 0 then r else if q mod 3 = 1 then g else b))"

lemma rgb24_pair_writes:
  assumes "6 * i + 5 < length m" "4 * i + 3 < length src"
  shows "rgb_pair rgb24 src (m, int (6 * i), int (4 * i))
    = Some (writes (map (\<lambda>q. (q, rgb_byte src q)) [6 * i ..< 6 * Suc i]) m, int (6 * Suc i), int (4 * Suc i))"
proof -
  have p: "peek_byte src (int (4 * i) + int k) = Some (src ! (4 * i + k))" if "k < 4" for k
    using that assms(2) by (intro peek_at) simp_all
  have w: "poke_byte x (int (6 * i) + k) v = Some (x[6 * i + nat k := v])" if "0 \<le> k" "k < 6" "length x = length m" for x k v
    using that assms(1) by (intro poke_at) simp_all
  obtain r g b where rgb0: "yuv_rgb (uint (src ! (4 * i))) (src ! (4 * i + 1)) (src ! (4 * i + 3)) = (r, g, b)" by (metis prod_cases3)
  obtain r' g' b' where rgb1: "yuv_rgb (uint (src ! (4 * i + 2))) (src ! (4 * i + 1)) (src ! (4 * i + 3)) = (r', g', b')" by (metis prod_cases3)
  have q: "[6 * i ..< 6 * Suc i] = [6 * i, 6 * i + 1, 6 * i + 2, 6 * i + 3, 6 * i + 4, 6 * i + 5]"
    by (simp add: upt_rec numeral_eq_Suc)
  have d: "6 * i div 3 = 2 * i" "(6 * i + 1) div 3 = 2 * i" "(6 * i + 2) div 3 = 2 * i" "(6 * i + 3) div 3 = 2 * i + 1" "(6 * i + 4) div 3 = 2 * i + 1" "(6 * i + 5) div 3 = 2 * i + 1"
    "6 * i mod 3 = 0" "(6 * i + 1) mod 3 = 1" "(6 * i + 2) mod 3 = 2" "(6 * i + 3) mod 3 = 0" "(6 * i + 4) mod 3 = 1" "(6 * i + 5) mod 3 = 2"
    by presburger+
  have e: "2 * (2 * i) = 4 * i" "2 * (2 * i + 1) = 4 * i + 2" "2 * i div 2 = i" "(2 * i + 1) div 2 = i" by simp_all
  have b: "rgb_byte src (6 * i) = word_of_int r" "rgb_byte src (6 * i + 1) = word_of_int g" "rgb_byte src (6 * i + 2) = word_of_int b"
    "rgb_byte src (6 * i + 3) = word_of_int r'" "rgb_byte src (6 * i + 4) = word_of_int g'" "rgb_byte src (6 * i + 5) = word_of_int b'"
    unfolding rgb_byte_def Let_def d e rgb0 rgb1 by simp_all
  have w': "poke_byte x (k + int (6 * i)) v = Some (x[6 * i + nat k := v])" if "0 \<le> k" "k < 6" "length x = length m" for x k v
    using w[OF that] by (simp only: add.commute)
  show ?thesis
    using p[of 0] p[of 1] p[of 2] p[of 3] w[of 0] w[of 1] w'[of 2] w[of 3] w'[of 4] w'[of 5] rgb0 rgb1
    unfolding q by (simp add: rgb_pair_def rgb24_def b[simplified])
qed

lemma rgb24_line_eq:
  assumes "4 * n \<le> length src" "6 * n \<le> length dst"
  shows "yuyv_to_rgb24_line src 0 dst 0 (2 * int n) = Some (map (\<lambda>q. if q < 6 * n then rgb_byte src q else dst ! q) [0 ..< length dst])"
proof -
  let ?ws = "\<lambda>i. map (\<lambda>q. (q, rgb_byte src q)) [6 * i ..< 6 * Suc i]"
  let ?all = "concat (map ?ws [0 ..< n])"
  have "rgb_pair rgb24 src (m, int (6 * i), int (4 * i)) = Some (writes (?ws i) m, int (6 * Suc i), int (4 * Suc i))"
    if "i < n" "length m = length dst" for i m
    by (rule rgb24_pair_writes) (use that assms in linarith)+
  from repeat_writes[of n "length dst" "rgb_pair rgb24 src" "\<lambda>i. (int (6 * i), int (4 * i))" ?ws dst, OF this]
  have line: "yuyv_to_rgb24_line src 0 dst 0 (2 * int n) = Some (writes ?all dst)"
    by (simp add: yuyv_to_rgb24_line_def rgb_line_def halved del: upt_Suc)
  have all: "(q, x) \<in> set ?all \<longleftrightarrow> q < 6 * n \<and> x = rgb_byte src q" for q x
  proof -
    have "(q, x) \<in> set ?all \<longleftrightarrow> (\<exists>i < n. 6 * i \<le> q \<and> q < 6 * Suc i) \<and> x = rgb_byte src q"
      unfolding set_concat_upt by (auto simp del: upt_Suc)
    moreover have "(\<exists>i < n. 6 * i \<le> q \<and> q < 6 * Suc i) \<longleftrightarrow> q < 6 * n"
    proof
      assume "q < 6 * n"
      then have "q div 6 < n" "6 * (q div 6) \<le> q" "q < 6 * Suc (q div 6)" by presburger+
      then show "\<exists>i < n. 6 * i \<le> q \<and> q < 6 * Suc i" by blast
    qed auto
    ultimately show ?thesis by simp
  qed
  have dom: "q \<in> fst ` set ?all \<longleftrightarrow> q < 6 * n" for q unfolding in_fst all by simp
  have written: "x = rgb_byte src q" if "(q, x) \<in> set ?all" for q x using that unfolding all by simp
  have "writes ?all dst = map (\<lambda>q. if q < 6 * n then rgb_byte src q else dst ! q) [0 ..< length dst]"
    by (rule nth_equalityI) (simp_all only: length_writes length_map length_upt diff_zero nth_map nth_upt plus_nat.add_0 nth_writes[OF written] dom)
  then show ?thesis by (simp only: line)
qed

lemma rgb_byte_near:
  "near_colour (uint (rgb_byte src q)) (exact_rgb (src ! (2 * (q div 3))) (src ! (4 * (q div 6) + 1)) (src ! (4 * (q div 6) + 3)) (q mod 3))"
proof -
  have d: "q div 3 div 2 = q div 6" by (simp add: div_mult2_eq[symmetric])
  obtain r g b where c: "yuv_rgb (uint (src ! (2 * (q div 3)))) (src ! (4 * (q div 6) + 1)) (src ! (4 * (q div 6) + 3)) = (r, g, b)"
    and range: "0 \<le> r \<and> r < 256 \<and> 0 \<le> g \<and> g < 256 \<and> 0 \<le> b \<and> b < 256"
    and near: "near_colour r (exact_rgb (src ! (2 * (q div 3))) (src ! (4 * (q div 6) + 1)) (src ! (4 * (q div 6) + 3)) 0)"
      "near_colour g (exact_rgb (src ! (2 * (q div 3))) (src ! (4 * (q div 6) + 1)) (src ! (4 * (q div 6) + 3)) 1)"
      "near_colour b (exact_rgb (src ! (2 * (q div 3))) (src ! (4 * (q div 6) + 1)) (src ! (4 * (q div 6) + 3)) 2)"
    by (rule yuv_rgb_near)
  have u: "uint (word_of_int x :: byte) = x" if "0 \<le> x" "x < 256" for x
    using that by (simp add: uint_word_of_int)
  have f: "rgb_byte src q = word_of_int (if q mod 3 = 0 then r else if q mod 3 = 1 then g else b)"
    unfolding rgb_byte_def Let_def d c prod.case ..
  have w: "uint (word_of_int r :: byte) = r" "uint (word_of_int g :: byte) = g" "uint (word_of_int b :: byte) = b"
    using range by (elim conjE, simp only: u)+
  have n: "(1 :: nat) = 0 \<longleftrightarrow> False" "(2 :: nat) = 0 \<longleftrightarrow> False" "(2 :: nat) = 1 \<longleftrightarrow> False" by simp_all
  have "q mod 3 = 0 \<or> q mod 3 = 1 \<or> q mod 3 = 2" by presburger
  then show ?thesis
    by (elim disjE) (simp_all only: f w near n if_True if_False refl)
qed

text \<open>A pixel of this line takes four bytes, so that one of 24 bits per pixel ends behind its buffer.\<close>

lemma poke_Some: "poke_byte m i v = Some m' \<Longrightarrow> length m' = length m \<and> i < int (length m)"
  by (auto simp: poke_byte_def wr_def split: if_splits)

lemma poke_rgb32: "poke_pixel m d (rgb32 c) = Some m' \<Longrightarrow> length m' = length m \<and> d + 2 < int (length m)"
  by (cases c) (auto simp: rgb32_def bind_eq_Some_conv dest!: poke_Some)

lemma length_rgb32: "length (rgb32 c) = 4"
  by (cases c) (simp add: rgb32_def)

lemma rgb32_pair_room:
  assumes "rgb_pair rgb32 src (dst, d, s) = Some st"
  obtains dst' where "st = (dst', d + 8, s + 4)" "length dst' = length dst" "d + 6 < int (length dst)"
proof -
  obtain u v m1 m2 and x y :: byte where "poke_pixel dst d (rgb32 (yuv_rgb (uint x) u v)) = Some m1"
    "poke_pixel m1 (d + 4) (rgb32 (yuv_rgb (uint y) u v)) = Some m2" and st: "st = (m2, d + 4 + 4, s + 4)"
    using assms by (auto simp: rgb_pair_def Let_def bind_eq_Some_conv length_rgb32)
  note m = this(1,2)[THEN poke_rgb32]
  show ?thesis by (rule that[of m2]) (use m st in simp_all)
qed

lemma rgb32_room:
  assumes "repeat n (rgb_pair rgb32 src) (dst, d, s) = Some r" "0 < n"
  shows "d + 8 * int n - 2 < int (length dst)"
  using assms
proof (induction n arbitrary: dst d s)
  case (Suc n)
  obtain st where st: "rgb_pair rgb32 src (dst, d, s) = Some st" "repeat n (rgb_pair rgb32 src) st = Some r"
    using Suc.prems(1) by (auto simp: bind_eq_Some_conv)
  from st(1) obtain dst' where dst': "st = (dst', d + 8, s + 4)" "length dst' = length dst" "d + 6 < int (length dst)"
    by (rule rgb32_pair_room)
  show ?case
  proof (cases "n = 0")
    case False
    then show ?thesis using Suc.IH[of dst' "d + 8" "s + 4"] st(2) dst' by simp
  qed (use dst' in simp)
qed simp

lemma bgr24_line_overruns:
  assumes "length dst = 6 * Suc n"
  shows "yuyv_to_bgr24_line src s dst 0 (2 * int (Suc n)) = None"
proof (rule ccontr)
  assume "\<not> ?thesis"
  then obtain r where "repeat (Suc n) (rgb_pair rgb32 src) (dst, 0, s) = Some r"
    unfolding yuyv_to_bgr24_line_def rgb_line_def by (auto simp: halved simp del: repeat.simps of_nat_Suc)
  then show False using rgb32_room[of "Suc n"] assms by fastforce
qed

text \<open>A picture with 16 bits per pixel becomes black.\<close>

lemma y16_black: "y16_luma x = 0"
proof -
  have "take_bit 8 (0xFF00 :: 16 word) = 0" by simp
  then have "\<not> bit (0xFF00 :: 16 word) n" if "n < 8" for n
    using that bit_take_bit_iff[of 8 "0xFF00 :: 16 word" n] by simp
  then have "ucast (x AND 0xFF00) = (0 :: byte)" by (intro bit_word_eqI) (auto simp: bit_simps)
  then show ?thesis by (simp add: y16_luma_def)
qed

section \<open>Properties\<close>

text \<open>C32: The conversions of the packed formats YYUV, UYVY and YVYU copy every byte of every pair of pixels to its place in YUYV
  and touch no other byte of the destination, for all sizes and strides, when both buffers hold their rows.\<close>

theorem packed_pixels:
  assumes "4 * n \<le> S" "4 * n \<le> T" "h * S \<le> length dst" "h * T \<le> length src"
  shows "yyuv_to_yuyv dst (int S) src (int T) (2 * int n) (int h) = Some (reordered [0, 2, 1, 3] S T n h src dst)
    \<and> uyvy_to_yuyv dst (int S) src (int T) (2 * int n) (int h) = Some (reordered [1, 0, 3, 2] S T n h src dst)
    \<and> yvyu_to_yuyv dst (int S) src (int T) (2 * int n) (int h) = Some (reordered [0, 3, 2, 1] S T n h src dst)"
  using packed_reordered[of 0 2 1 3, OF _ _ _ _ assms] packed_reordered[of 1 0 3 2, OF _ _ _ _ assms] packed_reordered[of 0 3 2 1, OF _ _ _ _ assms]
  by (simp add: yyuv_to_yuyv_def uyvy_to_yuyv_def yvyu_to_yuyv_def)

theorem packed_pixels_witness:
  "uyvy_to_yuyv (replicate 12 9) 6 [1, 2, 3, 4, 5, 6, 7, 8] 4 2 2 = Some [2, 1, 4, 3, 9, 9, 6, 5, 8, 7, 9, 9]"
proof -
  have "reordered [1, 0, 3, 2] 6 4 1 2 [1, 2, 3, 4, 5, 6, 7, 8] (replicate 12 9) = [2, 1, 4, 3, 9, 9, 6, 5, 8, 7, 9, 9]" by code_simp
  then show ?thesis using packed_pixels[of 1 6 4 2 "replicate 12 9" "[1, 2, 3, 4, 5, 6, 7, 8]"] by simp
qed

text \<open>C31: A frame that is turned into planes without padding (as far apart as the frame is wide) and with half the
  colours, and back, comes back with the same luma bytes, and with the colours of two rows replaced by their mean: as NV21 for
  every even width, and as YUV420 and YVU420 for the widths that are multiples of 32, when the buffers hold the frames (for the others the rows of colours are read back
  further apart than they were written).\<close>

theorem planes_there_and_back:
  assumes "4 * n \<le> S" "4 * n \<le> T" "2 * k * T \<le> length f" "6 * n * k \<le> length mid" "2 * k * S \<le> length dst"
  shows "do { m \<leftarrow> yuyv_to_yvu420sp mid (2 * int n) (2 * int k) f (int T) (2 * int n) (2 * int k);
      nv21_to_yuyv dst (int S) m (2 * int n) (2 * int k) } = Some (averaged S T n k f dst)
    \<and> (16 dvd n \<longrightarrow> do { m \<leftarrow> yuyv_to_yuv420p mid (2 * int n) (2 * int k) f (int T) (2 * int n) (2 * int k);
      yuv420_to_yuyv dst (int S) m (2 * int n) (2 * int k) } = Some (averaged S T n k f dst))
    \<and> (16 dvd n \<longrightarrow> do { m \<leftarrow> yuyv_to_yvu420p mid (2 * int n) (2 * int k) f (int T) (2 * int n) (2 * int k);
      yvu420_to_yuyv dst (int S) m (2 * int n) (2 * int k) } = Some (averaged S T n k f dst))"
  by (intro conjI impI sp_back[OF assms] planar_back[OF assms])

theorem planes_there_and_back_witness:
  "do { m \<leftarrow> yuyv_to_yvu420sp (replicate 6 0) 2 2 [10, 20, 30, 40, 50, 60, 70, 80] 4 2 2; nv21_to_yuyv (replicate 8 0) 4 m 2 2 }
    = Some [10, 40, 30, 60, 50, 40, 70, 60]
   \<and> do { m \<leftarrow> yuyv_to_yuv420p (replicate 96 0) 32 2 (replicate 128 5) 64 32 2; yuv420_to_yuyv (replicate 128 0) 64 m 32 2 }
    = Some (averaged 64 64 16 1 (replicate 128 5) (replicate 128 0))"
proof -
  have a: "averaged 4 4 1 1 [10, 20, 30, 40, 50, 60, 70, 80] (replicate 8 0) = [10, 40, 30, 60, 50, 40, 70, 60]" by code_simp
  show ?thesis
    using planes_there_and_back[of 1 4 4 1 "[10, 20, 30, 40, 50, 60, 70, 80]" "replicate 6 0" "replicate 8 0"]
      planes_there_and_back[of 16 64 64 1 "replicate 128 5" "replicate 96 0" "replicate 128 0"] a
    by simp
qed

text \<open>C33: Each byte that the conversion of a line to RGB writes is within one and a half of the exact red, green or blue of its pixel
  (with the factors 1.402, 0.34414, 0.71414 and 1.772), clipped to 0 to 255, and no other byte changes.\<close>

theorem rgb24_accurate:
  assumes "4 * n \<le> length src" "6 * n \<le> length dst"
  shows "\<exists>m. yuyv_to_rgb24_line src 0 dst 0 (2 * int n) = Some m \<and> length m = length dst
    \<and> (\<forall>q < 6 * n. \<bar>100000 * uint (m ! q) - exact_rgb (src ! (2 * (q div 3))) (src ! (4 * (q div 6) + 1)) (src ! (4 * (q div 6) + 3)) (q mod 3)\<bar> < 150000)
    \<and> (\<forall>q. 6 * n \<le> q \<longrightarrow> q < length dst \<longrightarrow> m ! q = dst ! q)"
  unfolding rgb24_line_eq[OF assms] using assms(2) by (auto simp: rgb_byte_near[unfolded near_colour_def, simplified])

theorem rgb24_accurate_witness:
  "\<exists>m. yuyv_to_rgb24_line [81, 90, 145, 240] 0 (replicate 6 0) 0 2 = Some m \<and> \<bar>100000 * uint (m ! 0) - 23802400\<bar> < 150000"
proof -
  have e: "exact_rgb ([81, 90, 145, 240] ! (2 * (0 div 3))) ([81, 90, 145, 240] ! (4 * (0 div 6) + 1)) ([81, 90, 145, 240] ! (4 * (0 div 6) + 3)) (0 mod 3) = 23802400"
    by code_simp
  have "4 * 1 \<le> length ([81, 90, 145, 240] :: bytes)" "6 * 1 \<le> length (replicate 6 0 :: bytes)" by simp_all
  from rgb24_accurate[OF this] obtain m where m: "yuyv_to_rgb24_line [81, 90, 145, 240] 0 (replicate 6 0) 0 (2 * int 1) = Some m"
    "\<bar>100000 * uint (m ! 0) - exact_rgb ([81, 90, 145, 240] ! (2 * (0 div 3))) ([81, 90, 145, 240] ! (4 * (0 div 6) + 1)) ([81, 90, 145, 240] ! (4 * (0 div 6) + 3)) (0 mod 3)\<bar> < 150000"
    by (elim exE conjE) (rule that, assumption, drule spec[of _ 0], erule mp, simp)
  show ?thesis using m(1) m(2)[unfolded e] by auto
qed

end
