(* ===== verification/Spec2Isabelle.thy ===== *)
theory Spec2Isabelle
  imports Prelude At_Tok Misc Fcp Gsm_Adn Sms_Pdu Ril_Runner At_Reader At_Threads Ril_Held Ril_System Request_Data Gps_Position Gps_Engine Audio_Device Lights Camera_Frames
begin

text \<open>
  Verification of the native sources of the Android device tree for the nVidia shuttle tablet.

  \<^bold>\<open>The program.\<close>  The largest part of the native code is the radio interface layer (RIL) for
  Huawei modems in \<open>src/huawei-generic\<close>: the library that the telephony framework loads to use the
  modem.  The framework calls \<open>onRequest\<close>, which copies the data of the request and queues it; the
  thread \<open>queueRunner\<close> takes requests and timed events from the queue and runs their handlers; a
  handler sends commands over the AT channel, parses the lines of the answer with the tokenizer and
  completes the request.  A second thread, \<open>readerLoop\<close>, reads the lines of the modem, gives those that
  belong to the pending command to the thread that waits for it and all others to \<open>onUnsolicited\<close>, which
  may enqueue events.  Texts of messages, records of the SIM and file headers are converted by
  the files \<open>gsm.c\<close>, \<open>sms_gsm.c\<close>, \<open>fcp_parser.c\<close> and \<open>misc.c\<close>.

  The other libraries are modules of the hardware abstraction layer, each loaded by a service of Android: \<open>src/libgps\<close> reads the
  sentences of the receiver in the modem, \<open>src/audio\<close> moves sound between the service and tinyalsa, \<open>src/liblight\<close> sets
  the backlight, and \<open>src/libcamera\<close> gives the pictures of a USB camera, converted to the format that is asked for.

  \<^bold>\<open>Conventions.\<close>  Each theory follows one file or one group of functions, with the names of the source.
  Integers that are stored, packed or compared at their width are words; counts, positions and lengths
  that the source keeps far from its bounds are natural numbers or integers.  A buffer is a list; an
  access that would be outside its bounds gives \<open>None\<close> (\<open>rd\<close>, \<open>wr\<close> in the prelude), so that \<open>None\<close> stands for
  undefined behaviour, and a theorem that a function gives \<open>Some\<close> says that it stays inside its
  buffers.  Out parameters are components of the result.  Logging, and freeing where nothing depends on it,
  are left out.  The C library is modelled as far as the sources use it; what \<open>ril.h\<close> and the
  table \<open>ril_commands.h\<close> declare is modelled as the sources use it or is a parameter.

  \<^bold>\<open>Theories.\<close>
  \<^item> \<open>Prelude\<close>: the types of the C program, checked accesses, character classes, \<open>strtol\<close>, decimal
    texts, and the \<open>named_theorems\<close> of the components.
  \<^item> \<open>Hex_Codec\<close>, \<open>Fifo\<close>: two interfaces as locales.  \<open>nibble_codec\<close> is interpreted on the digits of \<open>misc.c\<close>
    and of \<open>gsm.c\<close>; \<open>fifo\<close> on the list of requests and on the list of held messages.
  \<^item> \<open>At_Tok\<close> (\<open>at_tok.c\<close>): the tokenizer of answers; printing a line and reading it gives its fields back; no
    sequence of calls leaves the line, except behind an odd number of backslashes.
  \<^item> \<open>Misc\<close>, \<open>Fcp\<close> (\<open>misc.c\<close>, \<open>fcp_parser.c\<close>): hexadecimal texts, XML elements, the TLV stream and the
    conversion of a file header, which refines an abstract conversion of the list of properties.
  \<^item> \<open>Gsm_Hex\<close>, \<open>Gsm_Rope\<close>, \<open>Gsm_Text\<close>, \<open>Gsm_Alphabet\<close>, \<open>Gsm_Adn\<close> (\<open>gsm.c\<close>): packed digits, growable buffers,
    UTF-8 and UCS-2, the 7-bit alphabet with its packing at any bit offset, phone book records.
  \<^item> \<open>Sms_Address\<close>, \<open>Sms_Pdu\<close> (\<open>sms_gsm.c\<close>): timestamps, addresses, and the units of a message: round trips,
    what a received unit may make the parser do, and how a long text is split.
  \<^item> \<open>At_Error\<close> (\<open>at_error.h\<close>): the tables of error numbers and the functions that classify them.
  \<^item> \<open>At_Reader\<close> (\<open>atchannel.c\<close>): \<open>readline\<close> on its buffer of 8192 bytes, over a list of what \<open>read\<close> and \<open>poll\<close>
    report.  It never overruns, and the lines do not depend on how the bytes are cut into reads.
  \<^item> \<open>At_Channel\<close>, \<open>At_Command\<close>, \<open>At_Threads\<close> (\<open>atchannel.c\<close>): lines and commands.  \<open>At_Command\<close> has the contract of a
    command as the locale \<open>at_channel\<close>, interpreted on the model of the channel; \<open>At_Threads\<close> is the locking
    of several threads that share a channel, as an inductive step relation.
  \<^item> \<open>Request_Data\<close> (\<open>requestdatahandler.c\<close>): the copies of the data of requests, over an explicit heap, with
    the locale \<open>copier\<close> for the two ways to copy what a field points to.
  \<^item> \<open>Ril_Queue\<close>, \<open>Ril_Runner\<close> (\<open>huaweigeneric-ril.c\<close>): the list of requests and the sorted list of events, also on
    the linked nodes of the source, and the thread \<open>queueRunner\<close> with its waiting, as step relations.
  \<^item> \<open>Ril_Base\<close>: what every handler uses: the state they share as a record, the commands they send as an
    explicit sequence of answers of the channel, the completion of a request, and the collection of lemmas
    by which the handlers are shown to answer their request exactly once and to keep the channel usable.
  \<^item> \<open>Ril_State\<close>, \<open>Ril_Sms\<close>, \<open>Ril_Held\<close>, \<open>Ril_Call\<close>, \<open>Ril_Network\<close>, \<open>Ril_Data\<close>, \<open>Ril_Sim\<close>, \<open>Ril_Unsol\<close>: the handlers, in the groups of the
    source, each followed by the lemmas on its answers and its events.  \<open>Ril_Held\<close> is the flow of received
    messages: one at a time and in order, the number of those that wait counted from the events.
  \<^item> \<open>Ril_Dispatch\<close>, \<open>Ril_System\<close>: \<open>processRequest\<close> with its filter and its whole switch, and the RIL as
    a step relation whose steps are requests, due events, unsolicited lines, and the loss and reopening of the
    channel in any order.  Every token is answered exactly once, or is carried by exactly one pending poll
    (request 525, which has an empty case, apart); a SIM that is not ready is always polled again.
  \<^item> \<open>Gps_Time\<close>, \<open>Gps_Nmea\<close>, \<open>Gps_Position\<close>, \<open>Gps_Engine\<close> (\<open>src/libgps/gps_huawei.c\<close>): the seconds of a date against a
    calendar that is counted; the reader of sentences, its lines, its fields and the satellites it keeps; the error of
    a coordinate in arithmetic that rounds to nearest; and the main thread, the timer and the threads of the callbacks
    as a step relation, in which the framework is told everything once and in order, and nothing changes while it is told.
  \<^item> \<open>Audio_Capture\<close>, \<open>Audio_Device\<close> (\<open>src/audio/audio_hw.c\<close>): the frames of an input stream on their way through driver,
    resampler, effects and buffers to the client, in order and each once; and the streams, their standby,
    the routes, the mixer and the reference of the echo canceller, with one operation under the mutex as
    one step.  The libraries below are records of functions, and the theorems hold for all that keep \<open>env_ok\<close>, the
    bounds of their interfaces.
  \<^item> \<open>Lights\<close> (\<open>src/liblight/lights.c\<close>): the brightness of a colour and the text that is written for it.
  \<^item> \<open>Camera_Convert\<close>, \<open>Camera_Frames\<close> (\<open>src/libcamera/Converter.cpp\<close>): the conversions between pixel formats, and what
    they do to a frame: every byte of the packed formats, a frame that is turned into planes and back, and the distance of a
    colour to the exact one.  The interface between a conversion to planes and the one back is the locale
    \<open>planes_layout\<close>, interpreted on the layouts NV21, YUV420 and YVU420.

  \<^bold>\<open>Bounds and fuel.\<close>  The loops over lines, bytes and fields are structural.  \<open>killConn\<close> sends a signal at most
  26 times and \<open>wait_for_property\<close> sleeps as often as its argument says, so both are primitive recursive in
  the rounds left.  The inner loop of \<open>utf8_next\<close> does not always end: it is a \<open>partial_function (option)\<close> and
  a property says when it returns.  What a command waits for comes as a finite list of
  occurrences, and a command with a timeout is shown to end on every such list that ends in a timeout.
  The lists of events in the step relations are unbounded.

  \<^bold>\<open>Assumed atomicity.\<close>  A section between locking and unlocking a mutex is one step.  In \<open>Ril_System\<close> a handler is one
  step, and the lines and the loss of the channel come between handlers; \<open>At_Threads\<close> and
  \<open>Ril_Runner\<close> model the interleaving of the threads themselves.

  \<^bold>\<open>Idealised.\<close>  \<open>enqueueRILEvent\<close> reads the clock and inserts in one step, and \<open>queueRunner\<close> has one clock for the due
  times and the timed wait, where the source compares a monotonic time with the real one.  What a command waits for ends in a timeout, and what
  \<open>write\<close> reports in a failure, which come too late to matter unless the command is still waiting; the callback \<open>onTimeout\<close> is a step of its own.
  A signed sum that overflows wraps (\<open>merror\<close>), and \<open>memcpy\<close> between overlapping areas copies upwards; C defines neither.
  Sizes in ropes are natural numbers, far from \<open>INT_MAX\<close>.  \<open>strtod\<close> reads decimal numbers, not infinities, NaN or
  hexadecimal ones, which the receiver does not send.

  \<^bold>\<open>Qualifications.\<close>  Some properties leave out inputs on which the code is wrong, and say so: texts with characters that are not ASCII
  (\<open>utf8_next\<close> does not end), septets behind the one that follows an escape (all are taken from the extension table),
  streams with lines that begin like the prompt (what is read depends on how they are cut), lines that end within an
  escape, messages without a service centre and USSD requests that are not ASCII, the queries for the available
  networks and for the broadcast configuration, the copies of broadcast configurations, errors of the
  audio driver in the middle of a read, and a second stream of one direction.

  The loops of \<open>Audio_Capture\<close> that ask the driver and the effects again are \<open>partial_function (option)\<close>, and a property says that
  they return for all environments with \<open>env_ok\<close>, by induction on what is missing; those of \<open>Camera_Convert\<close> have a number of rounds that is computed from their bounds.

  \<^bold>\<open>Not modelled.\<close>  Of the camera: the classes around Video4Linux, gralloc and the services of Android (\<open>CameraHardware.cpp\<close>,
  \<open>V4L2Camera.cpp\<close> and the files beside them), the JPEG decoder in \<open>Utils.cpp\<close>, and of \<open>Converter.cpp\<close> the Bayer filter, the two
  conversions in floating point and the encoder, which calls libjpeg.  \<open>libsensors\<close> scales the events of the
  kernel; \<open>audiochannel.cpp\<close> joins two sound devices with classes of Android; \<open>setrecovery\<close> and \<open>recovery_ui.c\<close> write a block device
  and translate keys; \<open>libpkip\<close> is a stub; no function of the library calls \<open>sms.c\<close>.
  Of the RIL: \<open>RIL_Init\<close>, \<open>main\<close> and the opening of the device in \<open>queueRunner\<close> (options,
  termios, sockets), which appear as steps that succeed or fail, and the thread-local contexts of
  \<open>atchannel.c\<close>, since one channel is modelled at a time.  Of the GPS library: the end of the process
  (\<open>gps_state_done\<close>), waiting with epoll, the offset to universal time, the empty operations for AGPS and XTRA, and the tables of
  functions.  Of the audio library: operations that return a constant, memory that is not granted, and the opening of
  the module; at most one stream of a direction is open in the property, and a lemma shows what two inputs do.
\<close>

end
